(* ===== verification/Stone_Prelude.thy ===== *)
theory Stone_Prelude
  imports Main "HOL-Library.Word" "HOL-Library.Multiset"
begin

text \<open>
  What the theories of the development share: the machine-integer types, the ways a C++ operation
  can fail (an \<open>abort\<close>, a failed \<open>assert\<close>, a thrown \<open>std::out_of_range\<close>, a dereference of a null or
  deleted object), the result type that carries them, the collections of rewrite rules, and the
  generic facts on lists, words and updates that the component theories use.

  Conventions: \<open>size_t\<close> and \<open>uint64_t\<close> are \<^typ>\<open>64 word\<close>, \<open>uint32_t\<close> and \<open>int32_t\<close> are \<^typ>\<open>32 word\<close>
  (a signed one is read with \<^const>\<open>sint\<close>), \<open>char\<close> is \<^typ>\<open>8 word\<close>. A heap address is a natural number
  and \<open>0\<close> is the null pointer.
\<close>

unbundle bit_operations_syntax

named_theorems stone_defs \<comment> \<open>definitions of operations, unfolded by the component proofs\<close>

type_synonym u8 = "8 word"
type_synonym u16 = "16 word"
type_synonym u32 = "32 word"
type_synonym u64 = "64 word"
type_synonym addr = nat

abbreviation (input) NULL :: addr where
  "NULL \<equiv> 0"

subsection \<open>Failure as a value\<close>

datatype stone_error =
    Abort               \<comment> \<open>\<open>::abort()\<close>\<close>
  | Assertion_failed    \<comment> \<open>\<open>assert\<close> whose condition is false\<close>
  | Out_of_range        \<comment> \<open>\<open>throw std::out_of_range\<close>\<close>
  | Null_dereference    \<comment> \<open>a read or write through the null pointer\<close>
  | Use_after_free      \<comment> \<open>a read or write of an object that was deleted\<close>
  | Out_of_bounds       \<comment> \<open>a read or write outside of an array\<close>
  | Division_by_zero    \<comment> \<open>an integer division or remainder by zero\<close>
  | Ill_typed           \<comment> \<open>a call that the compiler rejects\<close>
  | No_return           \<comment> \<open>the call does not return\<close>
  | Const_write         \<comment> \<open>a write to an object that was declared \<open>const\<close>\<close>
  | Overflow            \<comment> \<open>a signed integer operation whose result is not representable\<close>
  | Bad_array_length    \<comment> \<open>\<open>new\<close> of an array of negative length\<close>
  | Missing_return      \<comment> \<open>the end of a function that must return a value is reached\<close>

type_synonym 'a result = "stone_error + 'a"

definition bind_result :: "'a result \<Rightarrow> ('a \<Rightarrow> 'b result) \<Rightarrow> 'b result" where
  "bind_result r f = (case r of Inl e \<Rightarrow> Inl e | Inr x \<Rightarrow> f x)"

definition assert_that :: "bool \<Rightarrow> 'a \<Rightarrow> 'a result" where
  "assert_that c x = (if c then Inr x else Inl Assertion_failed)"

definition loop_result :: "'x result option \<Rightarrow> 'x result" where
  \<comment> \<open>\<open>None\<close> is a loop that does not end\<close>
  "loop_result r = (case r of None \<Rightarrow> Inl No_return | Some x \<Rightarrow> x)"

lemma bind_result_simps [simp]:
  "bind_result (Inl e) f = Inl e"
  "bind_result (Inr x) f = f x"
  by (simp_all add: bind_result_def)

lemma bind_result_eq_Inr [simp]:
  "bind_result r f = Inr y \<longleftrightarrow> (\<exists>x. r = Inr x \<and> f x = Inr y)"
  by (cases r) auto

lemma bind_result_assoc:
  "bind_result (bind_result r f) g = bind_result r (\<lambda>x. bind_result (f x) g)"
  by (cases r) auto

lemma assert_that_simps [simp]:
  "assert_that True x = Inr x"
  "assert_that False x = Inl Assertion_failed"
  by (simp_all add: assert_that_def)

subsection \<open>Lists\<close>

lemma butlast_snoc_last: "xs \<noteq> [] \<Longrightarrow> P (butlast xs) (last xs) \<Longrightarrow> \<exists>ys y. xs = ys @ [y] \<and> P ys y"
  by (metis append_butlast_last_id)

lemma last_tl_eq: "tl xs \<noteq> [] \<Longrightarrow> last (tl xs) = last xs"
  by (cases xs) auto

lemma distinct_hd_notin_tl: "distinct xs \<Longrightarrow> xs \<noteq> [] \<Longrightarrow> hd xs \<notin> set (tl xs)"
  by (cases xs) auto

lemma nth_in_set_drop: "k \<le> i \<Longrightarrow> i < length xs \<Longrightarrow> xs ! i \<in> set (drop k xs)"
  using nth_mem [of "i - k" "drop k xs"] by simp

lemma rtranclp_chain: "successively r (x # xs) \<Longrightarrow> r\<^sup>*\<^sup>* x (last (x # xs))"
proof (induction xs arbitrary: x)
  case (Cons y ys)
  then show ?case by (auto intro: converse_rtranclp_into_rtranclp)
qed simp

subsection \<open>Words\<close>

lemma of_nat_Suc_minus_one: "(of_nat (Suc n) :: 'a::len word) - 1 = of_nat n"
  by simp

lemma of_nat_eq_iff_small:
  "m < 2 ^ LENGTH('a) \<Longrightarrow> n < 2 ^ LENGTH('a) \<Longrightarrow> (of_nat m :: 'a::len word) = of_nat n \<longleftrightarrow> m = n"
  by (simp add: word_of_nat_eq_iff take_bit_nat_eq_self)

lemma of_nat_eq_close:
  assumes "(of_nat a :: 'a::len word) = of_nat b" and "a \<le> b" and "b - a < 2 ^ LENGTH('a)"
  shows "a = b"
proof -
  have "b mod 2 ^ LENGTH('a) = a mod 2 ^ LENGTH('a)"
    using assms(1) by (simp add: word_of_nat_eq_iff take_bit_eq_mod)
  then have "2 ^ LENGTH('a) dvd b - a" using assms(2) by (simp add: mod_eq_dvd_iff_nat)
  then show ?thesis using assms(2,3) by (auto dest: dvd_imp_le)
qed

lemma sum_fun_upd:
  fixes g :: "'b \<Rightarrow> 'a::ab_group_add"
  assumes "t < (N :: nat)"
  shows "(\<Sum>u < N. g ((f(t := p)) u)) = (\<Sum>u < N. g (f u)) - g (f t) + g p"
proof -
  have "(\<Sum>u < N. g (h u)) = g (h t) + (\<Sum>u \<in> {..<N} - {t}. g (h u))" for h
    by (rule sum.remove) (simp_all add: assms)
  moreover have "(\<Sum>u \<in> {..<N} - {t}. g ((f(t := p)) u)) = (\<Sum>u \<in> {..<N} - {t}. g (f u))"
    by (rule sum.cong) auto
  ultimately show ?thesis by simp
qed

lemma group_balance:
  fixes a :: "'a::ab_group_add"
  assumes "a + S = L" and "a' + p' - L' = a + p - L"
  shows "a' + (S - p + p') = L'"
proof -
  have "a' + (S - p + p') = (a' + p' - L') + (S - p) + L'" by (simp add: algebra_simps)
  also have "\<dots> = L'" unfolding assms(2) assms(1) [symmetric] by (simp add: algebra_simps)
  finally show ?thesis .
qed

lemma of_nat_eq_0_small:
  "n < 2 ^ LENGTH('a) \<Longrightarrow> (of_nat n :: 'a::len word) = 0 \<longleftrightarrow> n = 0"
  using of_nat_eq_iff_small [where 'a = 'a, of n 0] by simp

lemma of_nat_eq_1_small:
  assumes "n < 2 ^ LENGTH('a)"
  shows "(of_nat n :: 'a::len word) = 1 \<longleftrightarrow> n = 1"
proof -
  have "(1::nat) < 2 ^ LENGTH('a)" by (metis len_gt_0 one_less_numeral_iff one_less_power semiring_norm(76))
  then show ?thesis
    using of_nat_eq_iff_small [where 'a = 'a, of n 1] assms by simp
qed

lemma sint_of_nat_small:
  assumes "n < 2 ^ (LENGTH('a) - 1)"
  shows "sint (of_nat n :: 'a::len word) = int n"
proof -
  have "int n < 2 ^ (LENGTH('a) - 1)"
    using assms by (metis of_nat_less_numeral_power_cancel_iff)
  moreover have "- (2 ^ (LENGTH('a) - 1)) \<le> int n"
  proof -
    have "(0::int) \<le> 2 ^ (LENGTH('a) - 1)" by simp
    then show ?thesis by linarith
  qed
  ultimately have "signed_take_bit (LENGTH('a) - 1) (int n) = int n"
    by (simp add: signed_take_bit_int_eq_self)
  then show ?thesis
    by (metis of_int_of_nat_eq sint_sbintrunc')
qed

lemma unat_drop_bit_div: "unat (drop_bit n x) = unat x div 2 ^ n" for x :: "'a::len word"
  by (subst unat_drop_bit_eq) (rule drop_bit_eq_div)

lemma sint_nonneg_eq_uint:
  fixes x :: "'a::len word"
  assumes "0 \<le> sint x"
  shows "sint x = uint x"
proof (rule bit_eqI)
  fix n
  have "\<not> bit x (LENGTH('a) - 1)"
    using assms by (simp add: bit_last_iff)
  then show "bit (sint x) n = bit (uint x) n"
    using bit_imp_le_length [of x n]
    by (cases "n < LENGTH('a)"; cases "n = LENGTH('a) - 1")
       (auto simp: bit_sint_iff bit_uint_iff min_def not_less)
qed

lemma not_bit_above:
  fixes x :: "'a::len word"
  assumes "unat x < 2 ^ m" and "m \<le> k"
  shows "\<not> bit x k"
proof -
  have "(2::nat) ^ m \<le> 2 ^ k" using assms(2) by simp
  then have "unat x < 2 ^ k" using assms(1) by linarith
  then have "unat (drop_bit k x) = 0" by (simp only: unat_drop_bit_div div_less)
  then have "drop_bit k x = 0" by (simp only: unsigned_eq_0_iff)
  then show ?thesis by (simp add: bit_iff_odd_drop_bit)
qed

lemma sint_drop_bit_nonneg: "0 < n \<Longrightarrow> 0 \<le> sint (drop_bit n x)" for x :: "'a::len word"
  using bit_last_iff [of "drop_bit n x"] bit_imp_le_length [of x "n + (LENGTH('a) - Suc 0)"]
  by (auto simp: bit_drop_bit_eq not_less)

lemma bit_0x80_int [simp]: "bit (0x80 :: int) k \<longleftrightarrow> k = 7"
proof -
  have "(0x80 :: int) = 2 ^ 7" by simp
  then show ?thesis by (simp only: bit_exp_iff possible_bit_int) auto
qed

lemma unat_minus_1: "unat (- 1 :: 'a::len word) = 2 ^ LENGTH('a) - 1"
  by (simp add: unsigned_minus_1_eq_mask mask_eq_exp_minus_1)

lemma unat_u64_less: "unat (w :: u64) < 18446744073709551616"
proof -
  have "unat w < 2 ^ LENGTH(64)" by (rule unsigned_less)
  then show ?thesis by simp
qed

lemma sint_of_int_small:
  assumes "- (2 ^ (LENGTH('a) - 1)) \<le> k" and "k < 2 ^ (LENGTH('a) - 1)"
  shows "sint (of_int k :: 'a::len word) = k"
  using signed_take_bit_int_eq_self [OF assms] by (simp only: sint_sbintrunc')

lemma sint_u32_of_int: "- 2147483648 \<le> k \<Longrightarrow> k < 2147483648 \<Longrightarrow> sint (of_int k :: u32) = k"
  by (rule sint_of_int_small) simp_all

end
