(* ===== verification/Stone_Atomic.thy ===== *)
theory Stone_Atomic
  imports Stone_Prelude
begin

text \<open>
  \<^verbatim>\<open>threading/atomic/atomic_detail.h\<close> and \<^verbatim>\<open>threading/atomic/atomic.h\<close>. A \<open>volatile T*\<close> target is the
  word it holds; an atomic operation takes the word and returns its result together with the word
  left in the target. The compiler builtins \<open>__sync_bool_compare_and_swap\<close>, \<open>__sync_fetch_and_add\<close>
  and \<open>__sync_lock_test_and_set\<close> are indivisible, so one call is one step of the model.
\<close>

text \<open>
  The builtins wrap around for every type. Where the target is signed, the sum or difference that \<open>AtomicAdd\<close> and \<open>AtomicSub\<close> compute from the old
  value to return it is undefined when it overflows; it wraps around here, and the users have to exclude that (for \<open>SpinRWLock\<close> see
  \<open>spin_rwlock_no_overflow\<close>).
\<close>

section \<open>The class AtomicDetailDefault\<close>

definition AtomicDetailDefault_Set :: "'a::len word \<Rightarrow> 'a word \<Rightarrow> 'a word" where
  [stone_defs]: "AtomicDetailDefault_Set target val = val"

definition AtomicDetailDefault_CompareExchange ::
  "'a::len word \<Rightarrow> 'a word \<Rightarrow> 'a word \<Rightarrow> bool \<times> 'a word" where
  [stone_defs]: "AtomicDetailDefault_CompareExchange target exchange compare =
     (if target = compare then (True, exchange) else (False, target))"

definition AtomicDetailDefault_ExchangeAdd :: "'a::len word \<Rightarrow> 'a word \<Rightarrow> 'a word \<times> 'a word" where
  [stone_defs]: "AtomicDetailDefault_ExchangeAdd target val = (target, target + val)"

definition AtomicDetailDefault_Exchange :: "'a::len word \<Rightarrow> 'a word \<Rightarrow> 'a word \<times> 'a word" where
  [stone_defs]: "AtomicDetailDefault_Exchange target val = (target, val)"

definition AtomicDetail8_i386_Set :: "64 word \<Rightarrow> 64 word \<Rightarrow> 64 word" where
  \<comment> \<open>the value that \<open>__sync_lock_test_and_set\<close> returns is dropped\<close>
  "AtomicDetail8_i386_Set target value = snd (AtomicDetailDefault_Exchange target value)"

text \<open>
  The 16-byte specialisation for x86-64 is inline assembly: \<open>lock cmpxchg16b\<close> compares the target
  with \<open>rdx:rax\<close> (the two halves of \<open>compare\<close>), stores \<open>rcx:rbx\<close> when they are equal, and \<open>setz\<close> reads
  the zero flag. A 16-byte cell is its low and high 8-byte half.
\<close>

definition AtomicDetail16_CompareExchange ::
  "u64 \<times> u64 \<Rightarrow> u64 \<times> u64 \<Rightarrow> u64 \<times> u64 \<Rightarrow> bool \<times> (u64 \<times> u64)" where
  [stone_defs]: "AtomicDetail16_CompareExchange target exchange compare =
     (let rax = fst compare; rdx = snd compare; rbx = fst exchange; rcx = snd exchange;
          zf = (fst target = rax \<and> snd target = rdx)
      in (zf, if zf then (rbx, rcx) else target))"

section \<open>The functions of atomic.h\<close>

definition AtomicCompareExchange ::
  "'a::len word \<Rightarrow> 'a word \<Rightarrow> 'a word \<Rightarrow> bool \<times> 'a word" where
  [stone_defs]: "AtomicCompareExchange target exchange compare =
     AtomicDetailDefault_CompareExchange target exchange compare"

definition AtomicExchangeAdd :: "'a::len word \<Rightarrow> 'a word \<Rightarrow> 'a word \<times> 'a word" where
  [stone_defs]: "AtomicExchangeAdd target val = AtomicDetailDefault_ExchangeAdd target val"

definition AtomicExchangeSub :: "'a::len word \<Rightarrow> 'a word \<Rightarrow> 'a word \<times> 'a word" where
  [stone_defs]: "AtomicExchangeSub target val = AtomicExchangeAdd target (- val)"

definition AtomicAdd :: "'a::len word \<Rightarrow> 'a word \<Rightarrow> 'a word \<times> 'a word" where
  [stone_defs]: "AtomicAdd target val =
     (let (old, target') = AtomicExchangeAdd target val in (old + val, target'))"

definition AtomicSub :: "'a::len word \<Rightarrow> 'a word \<Rightarrow> 'a word \<times> 'a word" where
  [stone_defs]: "AtomicSub target val =
     (let (old, target') = AtomicExchangeSub target val in (old - val, target'))"

definition AtomicExchange :: "'a::len word \<Rightarrow> 'a word \<Rightarrow> 'a word \<times> 'a word" where
  [stone_defs]: "AtomicExchange target val = AtomicDetailDefault_Exchange target val"

definition AtomicSet :: "'a::len word \<Rightarrow> 'a word \<Rightarrow> 'a word" where
  [stone_defs]: "AtomicSet target val = AtomicDetailDefault_Set target val"

definition AtomicGet :: "'a::len word \<Rightarrow> 'a word" where
  [stone_defs]: "AtomicGet target = target"

definition AtomicIncrement :: "'a::len word \<Rightarrow> 'a word \<times> 'a word" where
  [stone_defs]: "AtomicIncrement target = AtomicAdd target 1"

definition AtomicDecrement :: "'a::len word \<Rightarrow> 'a word \<times> 'a word" where
  [stone_defs]: "AtomicDecrement target = AtomicSub target 1"

section \<open>Their results\<close>

lemma i386_Set_eq: "AtomicDetail8_i386_Set = AtomicDetailDefault_Set"
  by (simp add: fun_eq_iff AtomicDetail8_i386_Set_def AtomicDetailDefault_Set_def AtomicDetailDefault_Exchange_def)

lemma AtomicCompareExchange_success [simp]:
  "AtomicCompareExchange t x t = (True, x)"
  by (simp add: stone_defs)

lemma AtomicCompareExchange_fail [simp]:
  "t \<noteq> c \<Longrightarrow> AtomicCompareExchange t x c = (False, t)"
  by (simp add: stone_defs)

lemma AtomicCompareExchange_cases:
  "AtomicCompareExchange t x c = (if t = c then (True, x) else (False, t))"
  by simp

lemma AtomicAdd_eq [simp]: "AtomicAdd t v = (t + v, t + v)"
  by (simp add: stone_defs)

lemma AtomicSub_eq [simp]: "AtomicSub t v = (t - v, t - v)"
  by (simp add: stone_defs)

lemma AtomicExchange_eq [simp]: "AtomicExchange t v = (t, v)"
  by (simp add: stone_defs)

lemma AtomicSet_eq [simp]: "AtomicSet t v = v"
  by (simp add: stone_defs)

lemma AtomicGet_eq [simp]: "AtomicGet t = t"
  by (simp add: stone_defs)

lemma AtomicIncrement_eq [simp]: "AtomicIncrement t = (t + 1, t + 1)"
  by (simp add: AtomicIncrement_def)

lemma AtomicDecrement_eq [simp]: "AtomicDecrement t = (t - 1, t - 1)"
  by (simp add: AtomicDecrement_def)

section \<open>Many threads on one cell\<close>

text \<open>
  A schedule of atomic calls on one target: the order in which the indivisible operations of all
  threads reach the cell. The run collects what every call returned.
\<close>

datatype 'w atomic_call = Call_Add 'w | Call_Sub 'w | Call_Increment | Call_Decrement

fun atomic_call_step :: "'a::len word \<Rightarrow> 'a word atomic_call \<Rightarrow> 'a word \<times> 'a word" where
  "atomic_call_step t (Call_Add v) = AtomicAdd t v"
| "atomic_call_step t (Call_Sub v) = AtomicSub t v"
| "atomic_call_step t Call_Increment = AtomicIncrement t"
| "atomic_call_step t Call_Decrement = AtomicDecrement t"

fun atomic_run :: "'a::len word \<Rightarrow> 'a word atomic_call list \<Rightarrow> 'a word list \<times> 'a word" where
  "atomic_run t [] = ([], t)"
| "atomic_run t (c # cs) =
     (let (r, t') = atomic_call_step t c; (rs, t'') = atomic_run t' cs in (r # rs, t''))"

fun atomic_delta :: "'a::len word atomic_call \<Rightarrow> 'a word" where
  "atomic_delta (Call_Add v) = v"
| "atomic_delta (Call_Sub v) = - v"
| "atomic_delta Call_Increment = 1"
| "atomic_delta Call_Decrement = - 1"

lemma atomic_call_step_eq: "atomic_call_step t c = (t + atomic_delta c, t + atomic_delta c)"
  by (cases c) simp_all

lemma atomic_run_final: "snd (atomic_run t cs) = t + sum_list (map atomic_delta cs)"
  by (induction cs arbitrary: t) (auto simp: atomic_call_step_eq case_prod_beta add.assoc)

lemma atomic_run_returns_nth:
  "k < length cs \<Longrightarrow>
     fst (atomic_run t cs) ! k = t + sum_list (map atomic_delta (take (Suc k) cs))"
proof (induction cs arbitrary: t k)
  case (Cons c cs)
  then show ?case
    by (cases k) (auto simp: atomic_call_step_eq case_prod_beta add.assoc)
qed simp

lemma sum_list_map_mset_word:
  "mset cs = mset ds \<Longrightarrow> sum_list (map f cs) = (sum_list (map f ds) :: 'a::len word)"
  by (metis mset_map sum_mset_sum_list)

text \<open>
  The atomic counters are exact under every interleaving: whatever the order in which the
  threads' \<open>AtomicAdd\<close>, \<open>AtomicSub\<close>, \<open>AtomicIncrement\<close> and \<open>AtomicDecrement\<close> calls reach the cell, the
  cell ends at its initial value plus the sum of all contributions, and the \<open>k\<close>-th call to arrive
  returns the value it left there.
\<close>

theorem atomic_counter_interleaving:
  fixes t :: "'a::len word"
  shows "snd (atomic_run t cs) = t + sum_list (map atomic_delta cs) \<and>
    (\<forall>ds. mset ds = mset cs \<longrightarrow> snd (atomic_run t ds) = snd (atomic_run t cs)) \<and>
    (\<forall>k < length cs.
       fst (atomic_run t cs) ! k = snd (atomic_run t (take (Suc k) cs)))"
  by (auto simp: atomic_run_final atomic_run_returns_nth intro!: sum_list_map_mset_word)

theorem atomic_counter_interleaving_witness:
  "snd (atomic_run (5 :: u8) [Call_Decrement, Call_Add 7, Call_Sub 2]) =
   snd (atomic_run (5 :: u8) [Call_Sub 2, Call_Decrement, Call_Add 7])"
proof -
  have "mset [Call_Decrement, Call_Add 7, Call_Sub (2 :: u8)] =
        mset [Call_Sub 2, Call_Decrement, Call_Add (7 :: u8)]"
    by simp
  then show ?thesis
    using atomic_counter_interleaving
      [of "5 :: u8" "[Call_Sub 2, Call_Decrement, Call_Add 7]"] by blast
qed

end
