(* ===== verification/Stone_Tagged_Pointer.thy ===== *)
theory Stone_Tagged_Pointer
  imports Stone_Prelude
begin

text \<open>
  \<^verbatim>\<open>threading/lockfree/lockfree_detail.h\<close>: the two encodings of a tagged pointer in 64 bits, an index
  with a 32-bit tag (used by \<open>LockFreeStack\<close>) and an address with a 16-bit tag in the unused high
  bits (used by \<open>FreeList\<close> and \<open>LockFreeQueue\<close>). Addresses are 64-bit words here, since the packing
  works on their bits.
\<close>

section \<open>Index and tag\<close>

definition kLockFreeNullPointer :: u32 where
  "kLockFreeNullPointer = 0xFFFFFFFF"

definition MakePointer_index :: "u32 \<Rightarrow> u32 \<Rightarrow> u64" where
  [stone_defs]: "MakePointer_index index tag =
     (let val = (ucast index :: u64);
          val = push_bit 32 val
      in val + ucast tag)"

definition Tag :: "u64 \<Rightarrow> u32" where
  [stone_defs]: "Tag point = ucast (point AND 0xFFFFFFFF)"

definition Index :: "u64 \<Rightarrow> u32" where
  [stone_defs]: "Index point = ucast (drop_bit 32 point)"

section \<open>Address and tag\<close>

text \<open>
  The union \<open>TaggedPointer\<close> overlays the 64-bit value with four 16-bit halves; on the little-endian
  target \<open>mTag\<close> is the most significant one. Reading and writing that member:
\<close>

definition TaggedPointer_mTag :: "u64 \<Rightarrow> u16" where
  [stone_defs]: "TaggedPointer_mTag mValue = ucast (drop_bit 48 mValue)"

definition TaggedPointer_set_mTag :: "u64 \<Rightarrow> u16 \<Rightarrow> u64" where
  [stone_defs]: "TaggedPointer_set_mTag mValue tag =
     (mValue AND 0x0000FFFFFFFFFFFF) OR push_bit 48 (ucast tag)"

definition kX64AddressSignBit :: u64 where
  "kX64AddressSignBit = 0x0000800000000000"

definition kInvalidTag :: u16 where
  "kInvalidTag = 0xdead"

definition MakePointer :: "u64 \<Rightarrow> u16 \<Rightarrow> u64" where
  [stone_defs]: "MakePointer address tag = TaggedPointer_set_mTag address tag"

definition GetPointer :: "u64 \<Rightarrow> u64" where
  [stone_defs]: "GetPointer pointer =
     TaggedPointer_set_mTag pointer
       (if pointer AND kX64AddressSignBit \<noteq> 0 then 0xFFFF else 0)"

definition GetTag :: "u64 \<Rightarrow> u16" where
  [stone_defs]: "GetTag pointer = TaggedPointer_mTag pointer"

definition GetNextTag :: "u64 \<Rightarrow> u16" where
  "GetNextTag pointer =
     (let tag = TaggedPointer_mTag pointer + 1
      in if tag = kInvalidTag then tag + 1 else tag)"

definition GetPrevTag :: "u64 \<Rightarrow> u16" where
  "GetPrevTag pointer =
     (let tag = TaggedPointer_mTag pointer - 1
      in if tag = kInvalidTag then tag - 1 else tag)"

text \<open>An address is canonical when its bits 48 to 63 repeat bit 47, as x86-64 requires.\<close>

definition canonical :: "u64 \<Rightarrow> bool" where
  "canonical a \<longleftrightarrow> (\<forall>n \<in> {48..<64}. bit a n = bit a 47)"

definition good_addr :: "u64 \<Rightarrow> bool" where
  \<comment> \<open>the address of an object\<close>
  "good_addr p \<longleftrightarrow> p \<noteq> 0 \<and> canonical p"

section \<open>The interface the lock-free containers use\<close>

locale tagged_pointer =
  fixes make :: "'a \<Rightarrow> 't \<Rightarrow> u64" and addr_of :: "u64 \<Rightarrow> 'a" and tag_of :: "u64 \<Rightarrow> 't"
    and valid :: "'a \<Rightarrow> bool"
  assumes addr_make: "valid a \<Longrightarrow> addr_of (make a t) = a"
    and tag_make: "tag_of (make a t) = t"
begin

lemma make_eq_iff: "valid a \<Longrightarrow> valid b \<Longrightarrow> make a t = make b u \<longleftrightarrow> a = b \<and> t = u"
  by (metis addr_make tag_make)

lemma make_tag_neq: "t \<noteq> u \<Longrightarrow> make a t \<noteq> make b u"
  by (metis tag_make)

lemma make_addr_neq: "valid a \<Longrightarrow> valid b \<Longrightarrow> a \<noteq> b \<Longrightarrow> make a t \<noteq> make b u"
  by (metis addr_make)

end

lemma MakePointer_index_disjoint:
  "MakePointer_index i t = push_bit 32 (ucast i) OR ucast t"
proof -
  have "(push_bit 32 (ucast i) :: u64) AND ucast t = 0"
    by (rule bit_eqI) (auto simp: bit_simps dest: bit_imp_le_length)
  then show ?thesis
    by (simp add: MakePointer_index_def Let_def disjunctive_add_eq_or)
qed

lemma Index_MakePointer: "Index (MakePointer_index i t) = i"
  unfolding MakePointer_index_disjoint Index_def
  by (rule bit_word_eqI) (auto simp: bit_simps dest: bit_imp_le_length)

lemma Tag_MakePointer: "Tag (MakePointer_index i t) = t"
proof -
  have m: "(0xFFFFFFFF :: u64) = mask 32" by (simp add: mask_numeral)
  show ?thesis
    unfolding MakePointer_index_disjoint Tag_def m
    by (rule bit_word_eqI) (auto simp: bit_simps)
qed

interpretation index_ptr: tagged_pointer MakePointer_index Index Tag "\<lambda>_. True"
  by unfold_locales (simp_all add: Index_MakePointer Tag_MakePointer)

lemma MakePointer_index_Index_Tag: "MakePointer_index (Index p) (Tag p) = p"
proof -
  have m: "(0xFFFFFFFF :: u64) = mask 32" by (simp add: mask_numeral)
  show ?thesis
    unfolding MakePointer_index_disjoint Tag_def Index_def m
    by (rule bit_word_eqI) (auto simp: bit_simps)
qed

lemma mask48: "(0x0000FFFFFFFFFFFF :: u64) = mask 48"
  by (simp add: mask_numeral)

lemma bit_set_mTag:
  "bit (TaggedPointer_set_mTag v t) n \<longleftrightarrow> n < 64 \<and> (if n < 48 then bit v n else bit t (n - 48))"
  unfolding TaggedPointer_set_mTag_def mask48
  by (auto simp: bit_simps dest: bit_imp_le_length)

lemma mTag_set_mTag: "TaggedPointer_mTag (TaggedPointer_set_mTag v t) = t"
  unfolding TaggedPointer_mTag_def
  by (rule bit_word_eqI) (auto simp: bit_simps bit_set_mTag)

lemma sign_bit_test: "p AND kX64AddressSignBit \<noteq> 0 \<longleftrightarrow> bit p 47"
proof -
  have "kX64AddressSignBit = 2 ^ 47" by (simp add: kX64AddressSignBit_def)
  then show ?thesis using and_exp_eq_0_iff_not_bit [of p 47] by metis
qed

lemma bit_ffff_u16: "bit (0xFFFF :: u16) k \<longleftrightarrow> k < 16"
proof -
  have "(0xFFFF :: u16) = mask 16" by (simp add: mask_numeral)
  moreover have "bit (mask 16 :: u16) k \<longleftrightarrow> k < 16"
    by (simp add: bit_mask_iff del: mask_numeral)
  ultimately show ?thesis by metis
qed

lemma bit_GetPointer: "bit (GetPointer p) n \<longleftrightarrow> n < 64 \<and> (if n < 48 then bit p n else bit p 47)"
  using bit_ffff_u16 [of "n - 48"] by (auto simp: GetPointer_def bit_set_mTag sign_bit_test)

lemma GetPointer_MakePointer_canonical: "canonical a \<Longrightarrow> GetPointer (MakePointer a t) = a"
  by (rule bit_word_eqI) (auto simp: bit_GetPointer MakePointer_def bit_set_mTag canonical_def)

lemma GetTag_MakePointer: "GetTag (MakePointer a t) = t"
  by (simp add: GetTag_def MakePointer_def mTag_set_mTag)

interpretation addr_ptr: tagged_pointer MakePointer GetPointer GetTag canonical
  by unfold_locales (simp_all add: GetPointer_MakePointer_canonical GetTag_MakePointer)

lemma canonical_GetPointer: "canonical (GetPointer p)"
  by (simp add: canonical_def bit_GetPointer)

lemma canonical_0 [simp]: "canonical 0"
  by (simp add: canonical_def)

lemma MakePointer_GetPointer_GetTag: "MakePointer (GetPointer p) (GetTag p) = p"
  by (rule bit_word_eqI)
     (auto simp: MakePointer_def bit_set_mTag bit_GetPointer GetTag_def TaggedPointer_mTag_def bit_simps)

text \<open>
  Both tagged-pointer encodings are lossless: the index form returns the packed index and tag
  for every pair, the address form returns the packed tag for every address and the packed address
  exactly when that address is canonical, and repacking the parts of any 64-bit value gives it back.
\<close>

theorem tagged_pointer_roundtrip:
  "Index (MakePointer_index i t) = i \<and> Tag (MakePointer_index i t) = t \<and>
   MakePointer_index (Index p) (Tag p) = p \<and>
   GetTag (MakePointer a u) = u \<and>
   (GetPointer (MakePointer a u) = a \<longleftrightarrow> canonical a) \<and>
   MakePointer (GetPointer p) (GetTag p) = p"
proof -
  have "GetPointer (MakePointer a u) = a \<longleftrightarrow> canonical a"
    by (metis canonical_GetPointer GetPointer_MakePointer_canonical)
  then show ?thesis
    by (simp add: Index_MakePointer Tag_MakePointer MakePointer_index_Index_Tag
        GetTag_MakePointer MakePointer_GetPointer_GetTag)
qed

section \<open>The tag sequence\<close>

text \<open>
  The successor of a tag skips \<open>kInvalidTag\<close>. Numbering the 65535 remaining tags consecutively, the
  successor adds one modulo 65535.
\<close>

definition tag_next :: "u16 \<Rightarrow> u16" where
  "tag_next t = GetNextTag (MakePointer 0 t)"

definition tag_rank :: "u16 \<Rightarrow> nat" where
  "tag_rank t = (if unat t < 0xdead then unat t else unat t - 1)"

lemma GetNextTag_eq: "GetNextTag p = tag_next (GetTag p)"
  by (simp add: tag_next_def GetNextTag_def GetTag_def MakePointer_def mTag_set_mTag)

lemma tag_next_eq:
  "tag_next t = (if t + 1 = kInvalidTag then kInvalidTag + 1 else t + 1)"
  by (simp add: tag_next_def GetNextTag_def Let_def MakePointer_def mTag_set_mTag)

lemma GetPrevTag_eq:
  "GetPrevTag p = (if GetTag p - 1 = kInvalidTag then kInvalidTag - 1 else GetTag p - 1)"
  by (simp add: GetPrevTag_def GetTag_def Let_def)

lemma tag_next_valid: "tag_next t \<noteq> kInvalidTag"
  by (simp add: tag_next_eq kInvalidTag_def)

lemma GetPrevTag_tag_next:
  assumes "t \<noteq> kInvalidTag"
  shows "GetPrevTag (MakePointer a (tag_next t)) = t"
proof -
  have "tag_next t - 1 = (if t + 1 = kInvalidTag then kInvalidTag else t)"
    by (auto simp: tag_next_eq)
  then show ?thesis
    using assms by (auto simp: GetPrevTag_eq GetTag_MakePointer) (metis add_diff_cancel)
qed

lemma unat_plus_1_u16: "unat (t + 1 :: u16) = (if unat t = 65535 then 0 else unat t + 1)"
proof -
  have "unat t < 65536" using unsigned_less [of t] by simp
  then show ?thesis
    by (auto simp: unat_word_ariths)
qed

lemma invalid_iff: "t = kInvalidTag \<longleftrightarrow> unat t = 0xdead"
  by (simp add: kInvalidTag_def word_unat_eq_iff)

lemma tag_rank_less: "t \<noteq> kInvalidTag \<Longrightarrow> tag_rank t < 65535"
proof -
  assume "t \<noteq> kInvalidTag"
  moreover have "unat t < 65536" using unsigned_less [of t] by simp
  ultimately show ?thesis by (auto simp: tag_rank_def)
qed

lemma tag_rank_inj:
  "t \<noteq> kInvalidTag \<Longrightarrow> u \<noteq> kInvalidTag \<Longrightarrow> tag_rank t = tag_rank u \<longleftrightarrow> t = u"
  unfolding invalid_iff tag_rank_def word_unat_eq_iff [of t u] by (simp split: if_split) linarith

lemma tag_rank_next:
  assumes "t \<noteq> kInvalidTag"
  shows "tag_rank (tag_next t) = (tag_rank t + 1) mod 65535"
proof (cases "unat t = 65535")
  case True
  then show ?thesis
    by (simp add: tag_next_eq tag_rank_def invalid_iff unat_plus_1_u16)
next
  case False
  have b: "unat t < 65536" using unsigned_less [of t] by simp
  show ?thesis
  proof (cases "t = 0xdeac")
    case True
    then show ?thesis
      by (simp add: tag_next_eq tag_rank_def invalid_iff unat_plus_1_u16 kInvalidTag_def)
  next
    case False': False
    then have "unat t \<noteq> 0xdeac" by (simp add: word_unat_eq_iff)
    then show ?thesis
      using False b assms
      by (auto simp: tag_next_eq tag_rank_def invalid_iff unat_plus_1_u16 mod_if split: if_splits)
  qed
qed

lemma tag_next_funpow_rank:
  "t \<noteq> kInvalidTag \<Longrightarrow>
     (tag_next ^^ n) t \<noteq> kInvalidTag \<and> tag_rank ((tag_next ^^ n) t) = (tag_rank t + n) mod 65535"
proof (induction n)
  case 0
  then show ?case using tag_rank_less by simp
next
  case (Suc n)
  then show ?case
    by (simp add: tag_next_valid tag_rank_next mod_Suc_eq)
qed

text \<open>
  \<open>GetNextTag\<close> and \<open>GetPrevTag\<close> never produce the reserved tag \<open>0xdead\<close>, and \<open>GetPrevTag\<close> undoes
  \<open>GetNextTag\<close> on every tag a live pointer carries, across the wrap-around and the skipped value.
\<close>

theorem prev_tag_of_next_tag:
  assumes "GetTag p \<noteq> kInvalidTag"
  shows "GetPrevTag (MakePointer a (GetNextTag p)) = GetTag p \<and>
    GetNextTag p \<noteq> kInvalidTag \<and> GetPrevTag p \<noteq> kInvalidTag"
proof -
  have "GetPrevTag (MakePointer a (GetNextTag p)) = GetTag p"
    using GetPrevTag_tag_next [OF assms] by (simp add: GetNextTag_eq)
  moreover have "GetPrevTag p \<noteq> kInvalidTag"
    by (simp add: GetPrevTag_eq kInvalidTag_def)
  ultimately show ?thesis by (simp add: GetNextTag_eq tag_next_valid)
qed

theorem prev_tag_of_next_tag_witness:
  "GetPrevTag (MakePointer 0x1000 (GetNextTag (MakePointer 0x2000 0xdeac))) = 0xdeac"
proof -
  have "GetTag (MakePointer 0x2000 0xdeac) \<noteq> kInvalidTag"
    by (simp add: GetTag_MakePointer kInvalidTag_def)
  from prev_tag_of_next_tag [OF this, of "0x1000"] show ?thesis
    by (simp add: GetTag_MakePointer)
qed

text \<open>
  The ABA window of the tagged pointers: starting from a live tag, \<open>n\<close> successive updates that
  each take the next tag come back to the same tag exactly when \<open>n\<close> is a multiple of 65535. A
  compare-and-exchange that still succeeds has therefore seen no update or a multiple of 65535 of them.
\<close>

theorem tag_reuse_period:
  assumes "t \<noteq> kInvalidTag"
  shows "(tag_next ^^ n) t = t \<longleftrightarrow> 65535 dvd n"
proof -
  note r = tag_next_funpow_rank [OF assms, of n]
  have "(tag_next ^^ n) t = t \<longleftrightarrow> (tag_rank t + n) mod 65535 = tag_rank t"
    using r tag_rank_inj [OF _ assms] by metis
  also have "\<dots> \<longleftrightarrow> (tag_rank t + n) mod 65535 = tag_rank t mod 65535"
    using tag_rank_less [OF assms] by simp
  also have "\<dots> \<longleftrightarrow> 65535 dvd n"
    using mod_eq_dvd_iff_nat [of "tag_rank t" "tag_rank t + n" 65535] by simp
  finally show ?thesis .
qed

theorem tag_reuse_period_witness:
  "(tag_next ^^ 65535) 0xFFFF = 0xFFFF \<and> (tag_next ^^ 65534) 0xFFFF \<noteq> 0xFFFF"
proof -
  have h: "(0xFFFF :: u16) \<noteq> kInvalidTag" by (simp add: kInvalidTag_def)
  show ?thesis
    using tag_reuse_period [OF h, of 65535] tag_reuse_period [OF h, of 65534] by simp
qed

end
