(* ===== verification/Stone_Integer_Encoding.thy ===== *)
theory Stone_Integer_Encoding
  imports Stone_Prelude
begin

text \<open>
  \<^verbatim>\<open>encoding/integer/integer_encoding.h\<close>: \<open>FixedInt\<close> (little-endian fixed width) and \<open>VariantInt\<close> (seven
  bits per byte, the high bit set on every byte but the last). A \<open>char*\<close> buffer is the list of bytes
  from the pointer on; an access past its end is \<^const>\<open>Out_of_bounds\<close>. The template argument \<open>T\<close> is the
  word length, and a flag says whether \<open>T\<close> is signed, since the loop guards compare \<open>x\<close> as a \<open>T\<close>.
\<close>

section \<open>FixedInt\<close>

text \<open>The bytes of a little-endian integer in memory, and the integer those bytes hold.\<close>

primrec le_bytes :: "nat \<Rightarrow> 'a::len word \<Rightarrow> u8 list" where
  "le_bytes 0 x = []"
| "le_bytes (Suc n) x = ucast x # le_bytes n (drop_bit 8 x)"

primrec of_le_bytes :: "u8 list \<Rightarrow> 'a::len word" where
  "of_le_bytes [] = 0"
| "of_le_bytes (b # bs) = ucast b OR push_bit 8 (of_le_bytes bs)"

definition sizeof :: "'a::len itself \<Rightarrow> nat" where
  "sizeof _ = LENGTH('a) div 8"

definition FixedInt_Encode :: "u8 list \<Rightarrow> 'a::len word \<Rightarrow> u8 list result" where
  "FixedInt_Encode s x =
     (let n = sizeof TYPE('a)
      in if length s < n then Inl Out_of_bounds else Inr (le_bytes n x @ drop n s))"

definition FixedInt_Decode :: "u8 list \<Rightarrow> 'a::len word result" where
  "FixedInt_Decode s =
     (let n = sizeof TYPE('a)
      in if length s < n then Inl Out_of_bounds else Inr (of_le_bytes (take n s)))"

section \<open>VariantInt\<close>

definition ge_0x80 :: "bool \<Rightarrow> 'a::len word \<Rightarrow> bool" where
  "ge_0x80 is_signed x \<longleftrightarrow> (if is_signed then 128 \<le> sint x else 128 \<le> uint x)"

lemma ge_0x80_unat:
  assumes "ge_0x80 sg x"
  shows "128 \<le> unat x"
proof -
  have "0 \<le> sint x \<Longrightarrow> sint x = uint x"
    by (rule sint_nonneg_eq_uint)
  with assms have "int 128 \<le> int (unat x)"
    by (auto simp: ge_0x80_def split: if_splits)
  then show ?thesis by (simp only: of_nat_le_iff)
qed

lemma not_ge_0x80_unat:
  assumes "\<not> ge_0x80 sg x" and "sg \<longrightarrow> 0 \<le> sint x"
  shows "unat x < 128"
proof -
  have "uint x < 128"
    using assms sint_nonneg_eq_uint [of x] by (auto simp: ge_0x80_def split: if_splits)
  then have "int (unat x) < int 128" by simp
  then show ?thesis by (simp only: of_nat_less_iff)
qed

lemma ge_0x80_smaller:
  assumes "ge_0x80 sg x"
  shows "unat (drop_bit 7 x) < unat x"
  using ge_0x80_unat [OF assms] by (simp only: unat_drop_bit_div) simp

function VariantInt_Encode :: "bool \<Rightarrow> 'a::len word \<Rightarrow> u8 list" where
  "VariantInt_Encode sg x =
     (if ge_0x80 sg x
      then ((ucast x AND 0x7f) OR 0x80) # VariantInt_Encode sg (drop_bit 7 x)
      else [ucast x])"
  by pat_completeness auto
termination
  by (relation "measure (\<lambda>(sg, x). unat x)") (simp_all only: wf_measure in_measure ge_0x80_smaller case_prod_conv)

declare VariantInt_Encode.simps [simp del]

definition GetMaxCharsOfEncodedSize :: "'a::len itself \<Rightarrow> nat" where
  "GetMaxCharsOfEncodedSize T = (sizeof T * 8 + 6) div 7"

text \<open>
  The loop of \<open>Decode\<close>: \<open>k\<close> is the number of iterations left (\<open>limit - i\<close>), \<open>p\<close> the bytes from the read
  position on. \<open>Some (value, i + 1)\<close> is the return with \<open>true\<close> and the offset, \<open>None\<close> the return with
  \<open>false\<close>.
\<close>

fun VariantInt_Decode_loop ::
  "nat \<Rightarrow> nat \<Rightarrow> u8 list \<Rightarrow> nat \<Rightarrow> u64 \<Rightarrow> (u64 \<times> nat) option result" where
  "VariantInt_Decode_loop 0 i p shift val = Inr None"
| "VariantInt_Decode_loop (Suc k) i [] shift val = Inl Out_of_bounds"
| "VariantInt_Decode_loop (Suc k) i (b # p) shift val =
     (let c = (ucast b :: u64);
          val' = val OR push_bit shift (c AND 0x7f)
      in if c AND 0x80 = 0 then Inr (Some (val', i + 1))
         else VariantInt_Decode_loop k (i + 1) p (shift + 7) val')"

definition VariantInt_Decode :: "u8 list \<Rightarrow> u64 \<Rightarrow> ('a::len word \<times> nat) option result" where
  "VariantInt_Decode s limit =
     (let mx = GetMaxCharsOfEncodedSize TYPE('a);
          lim = (if unat limit > mx then mx else unat limit)
      in bind_result (VariantInt_Decode_loop lim 0 s 0 0)
           (\<lambda>r. Inr (map_option (\<lambda>(v, off). (ucast v, off)) r)))"

function VariantInt_GetLength_loop :: "bool \<Rightarrow> 'a::len word \<Rightarrow> nat \<Rightarrow> nat" where
  "VariantInt_GetLength_loop sg x len =
     (if ge_0x80 sg x then VariantInt_GetLength_loop sg (drop_bit 7 x) (len + 1) else len)"
  by pat_completeness auto
termination
  by (relation "measure (\<lambda>(sg, x, len). unat x)") (simp_all only: wf_measure in_measure ge_0x80_smaller case_prod_conv)

declare VariantInt_GetLength_loop.simps [simp del]

definition VariantInt_GetLength :: "bool \<Rightarrow> 'a::len word \<Rightarrow> nat" where
  "VariantInt_GetLength sg x = VariantInt_GetLength_loop sg x 1"

section \<open>Bytes\<close>

lemma length_le_bytes [simp]: "length (le_bytes n x) = n"
  by (induction n arbitrary: x) auto

lemma of_le_bytes_le_bytes: "of_le_bytes (le_bytes n x) = take_bit (8 * n) x"
proof (induction n arbitrary: x)
  case (Suc n)
  show ?case
    by (rule bit_word_eqI) (auto simp: Suc bit_simps dest: bit_imp_le_length)
qed simp

lemma le_bytes_nth: "i < n \<Longrightarrow> le_bytes n x ! i = ucast (drop_bit (8 * i) x)"
proof (induction n arbitrary: x i)
  case (Suc n)
  then show ?case by (cases i) (auto simp: add.commute)
qed simp

lemma bit_of_le_bytes:
  "bit (of_le_bytes bs :: 'a::len word) k \<longleftrightarrow>
     k < LENGTH('a) \<and> k div 8 < length bs \<and> bit (bs ! (k div 8)) (k mod 8)"
proof (induction bs arbitrary: k)
  case (Cons b bs)
  show ?case
  proof (cases "k < 8")
    case True
    then show ?thesis by (auto simp: bit_simps dest: bit_imp_le_length)
  next
    case False
    then have "k div 8 = Suc ((k - 8) div 8)" "(k - 8) mod 8 = k mod 8"
      by (simp_all add: div_if [of 8 k] mod_if [of k 8])
    then show ?thesis
      using False by (auto simp: bit_simps Cons dest: bit_imp_le_length)
  qed
qed simp

lemma le_bytes_of_le_bytes:
  assumes "8 * length bs \<le> LENGTH('a)"
  shows "le_bytes (length bs) (of_le_bytes bs :: 'a::len word) = bs"
proof (rule nth_equalityI)
  fix i
  assume "i < length (le_bytes (length bs) (of_le_bytes bs :: 'a word))"
  then have i: "i < length bs" by simp
  have "ucast (drop_bit (8 * i) (of_le_bytes bs :: 'a word)) = bs ! i"
    using i assms
    by (intro bit_word_eqI) (auto simp: bit_simps bit_of_le_bytes)
  then show "le_bytes (length bs) (of_le_bytes bs :: 'a word) ! i = bs ! i"
    using i by (simp add: le_bytes_nth)
qed simp

section \<open>The loops\<close>

lemma VariantInt_Encode_not_Nil [simp]: "VariantInt_Encode sg x \<noteq> []"
  by (subst VariantInt_Encode.simps) simp

lemma VariantInt_GetLength_loop_eq:
  "VariantInt_GetLength_loop sg x len = len + length (VariantInt_Encode sg x) - 1"
proof (induction sg x len rule: VariantInt_GetLength_loop.induct)
  case (1 sg x len)
  show ?case
  proof (cases "ge_0x80 sg x")
    case True
    then show ?thesis
      using 1 by (simp add: VariantInt_GetLength_loop.simps [of sg x len]
          VariantInt_Encode.simps [of sg x] Suc_diff_le Suc_le_eq)
  next
    case False
    then show ?thesis
      by (simp add: VariantInt_GetLength_loop.simps [of sg x len] VariantInt_Encode.simps [of sg x])
  qed
qed

lemma length_VariantInt_Encode_le:
  "unat x < 2 ^ n \<Longrightarrow> 0 < n \<Longrightarrow> length (VariantInt_Encode sg x) \<le> (n + 6) div 7"
proof (induction sg x arbitrary: n rule: VariantInt_Encode.induct)
  case (1 sg x)
  show ?case
  proof (cases "ge_0x80 sg x")
    case True
    then have "(2::nat) ^ 7 \<le> unat x" using ge_0x80_unat by fastforce
    then have "(2::nat) ^ 7 < 2 ^ n" using "1.prems" by linarith
    then have n: "7 < n" by (metis one_less_numeral_iff power_less_imp_less_exp semiring_norm(76))
    have "unat x div 2 ^ 7 < 2 ^ (n - 7)"
    proof (rule less_mult_imp_div_less)
      have "(2::nat) ^ n = 2 ^ (n - 7) * 2 ^ 7"
        using n by (simp only: power_add [symmetric]) simp
      then show "unat x < 2 ^ (n - 7) * 2 ^ 7" using "1.prems" by simp
    qed
    then have "length (VariantInt_Encode sg (drop_bit 7 x)) \<le> (n - 7 + 6) div 7"
      using n by (intro "1.IH" [OF True]) (simp_all only: unat_drop_bit_div zero_less_diff)
    then show ?thesis
      using True n by (subst VariantInt_Encode.simps) simp
  next
    case False
    then show ?thesis using "1.prems" by (subst VariantInt_Encode.simps) simp
  qed
qed

text \<open>Masking with \<open>0x7f\<close> keeps the low seven bits; testing with \<open>0x80\<close> reads bit 7.\<close>

lemma and_0x7f: "(w :: 'a::len word) AND 0x7f = take_bit 7 w"
  by (simp add: take_bit_eq_mask mask_numeral)

lemma and_0x80: "(w :: 'a::len word) AND 0x80 = 0 \<longleftrightarrow> \<not> bit w 7"
  using and_exp_eq_0_iff_not_bit [of w 7] by simp

lemma continuation_byte:
  fixes x :: "'a::len word"
  defines "b \<equiv> (ucast x AND 0x7f) OR 0x80 :: u8"
  shows "(ucast b :: u64) AND 0x80 \<noteq> 0" and "(ucast b :: u64) AND 0x7f = ucast (take_bit 7 x)"
proof -
  show "(ucast b :: u64) AND 0x80 \<noteq> 0"
    by (simp add: and_0x80 b_def bit_simps)
  show "(ucast b :: u64) AND 0x7f = ucast (take_bit 7 x)"
    unfolding and_0x7f b_def
    by (rule bit_word_eqI) (auto simp: bit_simps dest: bit_imp_le_length)
qed

lemma final_byte:
  fixes x :: "'a::len word"
  assumes "unat x < 128"
  shows "(ucast (ucast x :: u8) :: u64) AND 0x80 = 0"
    and "(ucast (ucast x :: u8) :: u64) AND 0x7f = ucast x"
proof -
  have nb: "\<not> bit x k" if "7 \<le> k" for k
    using assms that not_bit_above [of x 7 k] by simp
  then show "(ucast (ucast x :: u8) :: u64) AND 0x80 = 0"
    by (simp add: and_0x80 bit_simps)
  show "(ucast (ucast x :: u8) :: u64) AND 0x7f = ucast x"
  proof (unfold and_0x7f, rule bit_word_eqI)
    fix n assume "n < LENGTH(64)"
    then show "bit (take_bit 7 (ucast (ucast x :: u8) :: u64)) n = bit (ucast x :: u64) n"
      using nb [of n] by (cases "n < 7") (simp_all add: bit_simps)
  qed
qed

lemma Decode_loop_Encode:
  fixes x :: "'a::len word"
  assumes "LENGTH('a) \<le> 64" and "sg \<longrightarrow> 0 \<le> sint x"
    and "length (VariantInt_Encode sg x) \<le> k"
  shows "VariantInt_Decode_loop k i (VariantInt_Encode sg x @ rest) sh val =
    Inr (Some (val OR push_bit sh (ucast x), i + length (VariantInt_Encode sg x)))"
  using assms
proof (induction sg x arbitrary: k i sh val rule: VariantInt_Encode.induct)
  case (1 sg x)
  obtain k' where k: "k = Suc k'"
    using "1.prems"(3) by (cases k) auto
  show ?case
  proof (cases "ge_0x80 sg x")
    case True
    note e = VariantInt_Encode.simps [of sg x]
    have "128 \<le> unat x" using True by (rule ge_0x80_unat)
    have nn: "sg \<longrightarrow> 0 \<le> sint (drop_bit 7 x)"
      by (simp add: sint_drop_bit_nonneg)
    have "(val OR push_bit sh (ucast (take_bit 7 x))) OR push_bit (sh + 7) (ucast (drop_bit 7 x))
       = val OR push_bit sh (ucast x :: u64)"
      using "1.prems"(1)
      by (intro bit_word_eqI)
         (auto simp: bit_simps not_less le_diff_conv2 add.commute dest: bit_imp_le_length
           intro: ccontr)
    then show ?thesis
      using True "1.prems" "1.IH" [OF True, of k' "i + 1" "sh + 7"] nn
      by (simp add: e k continuation_byte Let_def del: push_bit_and)
  next
    case False
    then have "unat x < 128"
      using "1.prems"(2) by (rule not_ge_0x80_unat)
    then show ?thesis
      using False by (simp add: VariantInt_Encode.simps [of sg x] k final_byte Let_def del: push_bit_and)
  qed
qed

lemma Decode_loop_truncated:
  fixes x :: "'a::len word"
  assumes "k < length (VariantInt_Encode sg x)"
  shows "VariantInt_Decode_loop k i (take k (VariantInt_Encode sg x) @ rest) sh val = Inr None"
  using assms
proof (induction sg x arbitrary: k i sh val rule: VariantInt_Encode.induct)
  case (1 sg x)
  show ?case
  proof (cases k)
    case (Suc k')
    then have "ge_0x80 sg x"
      using "1.prems" by (subst (asm) VariantInt_Encode.simps) (auto split: if_splits)
    then show ?thesis
      using "1.prems" "1.IH" Suc
      by (simp add: VariantInt_Encode.simps [of sg x] continuation_byte Let_def)
  qed simp
qed

lemma VariantInt_Encode_shape:
  fixes x :: "'a::len word"
  assumes "sg \<longrightarrow> 0 \<le> sint x"
  shows "(\<forall>b \<in> set (butlast (VariantInt_Encode sg x)). bit b 7) \<and>
    \<not> bit (last (VariantInt_Encode sg x)) 7"
  using assms
proof (induction sg x rule: VariantInt_Encode.induct)
  case (1 sg x)
  show ?case
  proof (cases "ge_0x80 sg x")
    case True
    then show ?thesis
      using "1.IH" sint_drop_bit_nonneg [of 7 x]
      by (auto simp: VariantInt_Encode.simps [of sg x] bit_simps)
  next
    case False
    then have "unat x < 128" using "1.prems" by (rule not_ge_0x80_unat)
    then have "\<not> bit x 7" using not_bit_above [of x 7 7] by simp
    then show ?thesis using False by (simp add: VariantInt_Encode.simps [of sg x] bit_simps)
  qed
qed

section \<open>The interface of a self-delimiting encoding\<close>

text \<open>
  Reading \<open>n\<close> integers that were written one after the other: each decode reports how many bytes it
  used, and the next one starts there.
\<close>

primrec decode_stream :: "(u8 list \<Rightarrow> ('x \<times> nat) option) \<Rightarrow> nat \<Rightarrow> u8 list \<Rightarrow> 'x list option" where
  "decode_stream dec 0 bs = Some []"
| "decode_stream dec (Suc n) bs =
     (case dec bs of None \<Rightarrow> None
      | Some (x, used) \<Rightarrow> map_option (Cons x) (decode_stream dec n (drop used bs)))"

locale self_delimiting =
  fixes enc :: "'x \<Rightarrow> u8 list" and dec :: "u8 list \<Rightarrow> ('x \<times> nat) option" and ok :: "'x \<Rightarrow> bool"
  assumes dec_enc: "ok x \<Longrightarrow> dec (enc x @ rest) = Some (x, length (enc x))"
begin

lemma stream_roundtrip:
  "(\<And>x. x \<in> set xs \<Longrightarrow> ok x) \<Longrightarrow>
     decode_stream dec (length xs) (concat (map enc xs) @ rest) = Some xs"
  by (induction xs) (simp_all add: dec_enc)

lemma prefix_free:
  assumes "ok x" and "ok y" and "enc x @ r = enc y @ s"
  shows "x = y \<and> r = s"
proof -
  have "Some (x, length (enc x)) = Some (y, length (enc y))"
    using dec_enc [OF assms(1), of r] dec_enc [OF assms(2), of s] assms(3) by simp
  with assms(3) show ?thesis by simp
qed

end

definition varint_ok :: "bool \<Rightarrow> 'a::len word \<Rightarrow> bool" where
  "varint_ok sg x \<longleftrightarrow> LENGTH('a) \<le> 64 \<and> 8 dvd LENGTH('a) \<and> (sg \<longrightarrow> 0 \<le> sint x)"

definition varint_read :: "u8 list \<Rightarrow> ('a::len word \<times> nat) option" where
  "varint_read s = (case VariantInt_Decode s (- 1) of Inl _ \<Rightarrow> None | Inr r \<Rightarrow> r)"

definition fixedint_read :: "u8 list \<Rightarrow> ('a::len word \<times> nat) option" where
  "fixedint_read s = (case FixedInt_Decode s of Inl _ \<Rightarrow> None | Inr x \<Rightarrow> Some (x, sizeof TYPE('a)))"

lemma length_Encode_max:
  fixes x :: "'a::len word"
  assumes "8 dvd LENGTH('a)"
  shows "length (VariantInt_Encode sg x) \<le> GetMaxCharsOfEncodedSize TYPE('a)"
proof -
  have "length (VariantInt_Encode sg x) \<le> (LENGTH('a) + 6) div 7"
    by (rule length_VariantInt_Encode_le) (simp_all add: unsigned_less)
  then show ?thesis using assms by (simp add: GetMaxCharsOfEncodedSize_def sizeof_def)
qed

lemma VariantInt_Decode_Encode:
  fixes x :: "'a::len word"
  assumes "varint_ok sg x" and "length (VariantInt_Encode sg x) \<le> unat limit"
  shows "VariantInt_Decode (VariantInt_Encode sg x @ rest) limit =
    Inr (Some (x, length (VariantInt_Encode sg x)))"
proof -
  have "ucast (ucast x :: u64) = x"
    using assms(1) by (intro bit_word_eqI) (auto simp: varint_ok_def bit_simps)
  then show ?thesis
    using assms length_Encode_max [of sg x] by (auto simp: VariantInt_Decode_def Let_def varint_ok_def Decode_loop_Encode)
qed

interpretation varint: self_delimiting "VariantInt_Encode sg" varint_read "varint_ok sg" for sg
proof
  fix x :: "'a word" and rest
  assume ok: "varint_ok sg x"
  have "unat x < 2 ^ LENGTH('a)" by (rule unsigned_less)
  also have "\<dots> \<le> 2 ^ 64" using ok by (intro power_increasing) (simp_all add: varint_ok_def)
  finally have "length (VariantInt_Encode sg x) \<le> (64 + 6) div 7"
    by (rule length_VariantInt_Encode_le) simp
  then have "length (VariantInt_Encode sg x) \<le> unat (- 1 :: u64)"
    by (simp add: unat_minus_1)
  from VariantInt_Decode_Encode [OF ok this]
  show "varint_read (VariantInt_Encode sg x @ rest) = Some (x, length (VariantInt_Encode sg x))"
    by (simp add: varint_read_def)
qed

interpretation fixedint: self_delimiting "\<lambda>x :: 'a::len word. le_bytes (sizeof TYPE('a)) x"
  fixedint_read "\<lambda>_. 8 dvd LENGTH('a)"
  by unfold_locales
     (simp add: fixedint_read_def FixedInt_Decode_def Let_def of_le_bytes_le_bytes sizeof_def)

section \<open>Properties\<close>

text \<open>
  C10. Round trip of the variable-length encoding: for every integer type of at most 64 bits and every
  non-negative value, decoding the bytes \<open>Encode\<close> wrote, whatever follows them in the buffer, returns
  true with the same value and with the number of bytes written as the offset, for every \<open>limit\<close> that
  admits the encoding.
\<close>

theorem varint_roundtrip:
  fixes x :: "'a::len word"
  assumes "LENGTH('a) \<le> 64" and "8 dvd LENGTH('a)" and "sg \<longrightarrow> 0 \<le> sint x"
    and "length (VariantInt_Encode sg x) \<le> unat limit"
  shows "VariantInt_Decode (VariantInt_Encode sg x @ rest) limit =
    Inr (Some (x, length (VariantInt_Encode sg x)))"
  using assms by (intro VariantInt_Decode_Encode) (simp_all add: varint_ok_def)

lemma encode_300: "VariantInt_Encode False (300 :: u32) = [0xAC, 0x02]"
  by (simp add: VariantInt_Encode.simps ge_0x80_def drop_bit_numeral_bit0 ucast_eq)

theorem varint_roundtrip_witness:
  "VariantInt_Decode (VariantInt_Encode False (300 :: u32) @ [7]) 2 = Inr (Some (300 :: u32, 2))"
  using varint_roundtrip [of False "300 :: u32" 2 "[7]"] by (simp add: encode_300)

text \<open>
  A truncated encoding is refused and never over-read: when \<open>limit\<close> is smaller than the encoded
  length, \<open>Decode\<close> returns false, and it does so on a buffer that holds only the first \<open>limit\<close> bytes.
\<close>

theorem varint_truncated_refused:
  fixes x :: "'a::len word"
  assumes "8 dvd LENGTH('a)" and "unat limit < length (VariantInt_Encode sg x)"
  shows "VariantInt_Decode (take (unat limit) (VariantInt_Encode sg x)) limit =
    (Inr None :: ('a word \<times> nat) option result)"
proof -
  have "unat limit \<le> GetMaxCharsOfEncodedSize TYPE('a)"
    using assms length_Encode_max [of sg x] by simp
  then show ?thesis
    using assms Decode_loop_truncated [of "unat limit" sg x 0 "[]"]
    by (simp add: VariantInt_Decode_def Let_def)
qed

theorem varint_truncated_refused_witness:
  "VariantInt_Decode (take 1 (VariantInt_Encode False (300 :: u32))) 1 =
    (Inr None :: (u32 \<times> nat) option result)"
  using varint_truncated_refused [where 'a = 32, of 1 False 300] by (simp add: encode_300)

text \<open>
  Size and shape of the encoding: \<open>GetLength\<close> predicts exactly the number of bytes \<open>Encode\<close> writes,
  that number lies between 1 and \<open>GetMaxCharsOfEncodedSize\<close>, and for a non-negative value the
  continuation bit is set on every byte but the last.
\<close>

theorem varint_length_and_shape:
  fixes x :: "'a::len word"
  assumes "8 dvd LENGTH('a)" and "sg \<longrightarrow> 0 \<le> sint x"
  shows "VariantInt_GetLength sg x = length (VariantInt_Encode sg x) \<and>
    1 \<le> VariantInt_GetLength sg x \<and>
    VariantInt_GetLength sg x \<le> GetMaxCharsOfEncodedSize TYPE('a) \<and>
    (\<forall>b \<in> set (butlast (VariantInt_Encode sg x)). bit b 7) \<and>
    \<not> bit (last (VariantInt_Encode sg x)) 7"
  using assms length_Encode_max [of sg x] VariantInt_Encode_shape [of sg x]
  by (simp add: VariantInt_GetLength_def VariantInt_GetLength_loop_eq Suc_le_eq)

theorem varint_length_and_shape_witness:
  "VariantInt_GetLength False (300 :: u32) = 2 \<and> GetMaxCharsOfEncodedSize TYPE(32) = 5"
  using varint_length_and_shape [of False "300 :: u32"]
  by (simp add: encode_300 GetMaxCharsOfEncodedSize_def sizeof_def)

text \<open>
  A sequence of integers written one after the other is read back in order: decoding as many
  integers as were written, each starting where the previous one ended, returns the written list, for
  the variable-length encoding of 32-bit and of 64-bit values and for the fixed-length one.
\<close>

theorem integer_stream_roundtrip:
  "decode_stream varint_read (length xs) (concat (map (VariantInt_Encode False) xs) @ rest) =
     Some (xs :: u32 list) \<and>
   decode_stream varint_read (length ys) (concat (map (VariantInt_Encode False) ys) @ rest) =
     Some (ys :: u64 list) \<and>
   decode_stream fixedint_read (length ys) (concat (map (le_bytes (sizeof TYPE(64))) ys) @ rest) =
     Some (ys :: u64 list)"
  using varint.stream_roundtrip [of xs False rest] varint.stream_roundtrip [of ys False rest]
    fixedint.stream_roundtrip [of ys rest]
  by (simp add: varint_ok_def)

text \<open>
  A negative value of a signed type does not survive the encoding: the guard \<open>x >= 0x80\<close> is false
  for it, so \<open>Encode\<close> writes the single low byte. All negative values with the same low byte collide.
\<close>

theorem varint_negative_loses_value:
  fixes x y :: "'a::len word"
  assumes "sint x < 0"
  shows "VariantInt_Encode True x = [ucast x] \<and>
    (sint y < 0 \<and> (ucast x :: u8) = ucast y \<longrightarrow>
       VariantInt_Encode True y = VariantInt_Encode True x)"
  using assms by (simp add: VariantInt_Encode.simps [of True] ge_0x80_def)

theorem varint_negative_loses_value_witness:
  "VariantInt_Encode True (0xFFFFFFFF :: u32) = VariantInt_Encode True (0xFFFFFEFF :: u32)"
  using varint_negative_loses_value [of "0xFFFFFFFF :: u32" "0xFFFFFEFF :: u32"] by simp

text \<open>
  \<open>Decode\<close> does not detect a value that exceeds the target type: the encoding of any 64-bit value
  that fits the byte limit of \<open>T\<close> is accepted as a \<open>T\<close>, with the value reduced modulo the size of \<open>T\<close>.
\<close>

theorem varint_decode_truncates_silently:
  fixes v :: u64
  assumes "length (VariantInt_Encode False v) \<le> GetMaxCharsOfEncodedSize TYPE('a::len)"
    and "length (VariantInt_Encode False v) \<le> unat limit"
  shows "VariantInt_Decode (VariantInt_Encode False v @ rest) limit =
    Inr (Some (ucast v :: 'a word, length (VariantInt_Encode False v)))"
  using assms by (auto simp: VariantInt_Decode_def Let_def Decode_loop_Encode)

lemma encode_2_32: "VariantInt_Encode False (0x100000000 :: u64) = [0x80, 0x80, 0x80, 0x80, 0x10]"
  by (simp add: VariantInt_Encode.simps ge_0x80_def drop_bit_numeral_bit0 ucast_eq)

theorem varint_decode_truncates_silently_witness:
  "VariantInt_Decode (VariantInt_Encode False (0x100000000 :: u64)) (- 1) = Inr (Some (0 :: u32, 5))"
  using varint_decode_truncates_silently [where 'a = 32, of "0x100000000" "- 1" "[]"]
  by (simp add: encode_2_32 GetMaxCharsOfEncodedSize_def sizeof_def unat_minus_1)

text \<open>
  The fixed-length encoding stores a value in exactly \<open>sizeof(T)\<close> bytes, leaves the rest of the
  buffer alone, and is inverted by \<open>Decode\<close>; both fail only on a buffer shorter than \<open>sizeof(T)\<close>.
\<close>

theorem fixedint_roundtrip:
  fixes x :: "'a::len word"
  assumes "8 dvd LENGTH('a)"
  shows "case FixedInt_Encode s x of
      Inl e \<Rightarrow> length s < sizeof TYPE('a) \<and> (FixedInt_Decode s :: 'a word result) = Inl e
    | Inr s' \<Rightarrow> sizeof TYPE('a) \<le> length s \<and> length s' = length s \<and>
        drop (sizeof TYPE('a)) s' = drop (sizeof TYPE('a)) s \<and> FixedInt_Decode s' = Inr x"
  using assms
  by (auto simp: FixedInt_Encode_def FixedInt_Decode_def Let_def of_le_bytes_le_bytes sizeof_def)

theorem fixedint_roundtrip_witness:
  "bind_result (FixedInt_Encode [9, 9, 9] (0x1234 :: u16)) FixedInt_Decode = Inr (0x1234 :: u16)"
  using fixedint_roundtrip [of "[9, 9, 9]" "0x1234 :: u16"]
  by (simp add: FixedInt_Encode_def sizeof_def Let_def split: sum.splits)

end
