(* ===== verification/Stone_String_Piece.thy ===== *)
theory Stone_String_Piece
  imports Stone_Prelude "HOL-Library.List_Lexorder"
begin

text \<open>
  \<^verbatim>\<open>string/string_piece.h\<close>: \<open>StringPieceDetail<char>\<close>, a pointer and a length that do not own the
  characters. The memory is a map from addresses to bytes; a piece is the record of its two members.
  Sizes and positions are \<open>size_t\<close>, so they are 64-bit words and \<open>npos\<close> is the largest of them. The
  loop variables stay below the size of the piece, where \<open>++\<close> and \<open>--\<close> do not wrap, and are natural
  numbers.

  The operations of \<open>std::char_traits<char>\<close> and \<open>std::search\<close> that the class calls are modelled first.
\<close>

type_synonym mem = "addr \<Rightarrow> u8"

section \<open>The library functions the class uses\<close>

text \<open>\<open>traits_type::length\<close>: counts to the first NUL; it does not return when there is none.\<close>

partial_function (option) traits_length_from :: "mem \<Rightarrow> addr \<Rightarrow> nat \<Rightarrow> nat option" where
  "traits_length_from m a n =
     (if m (a + n) = 0 then Some n else traits_length_from m a (Suc n))"

definition traits_length :: "mem \<Rightarrow> addr \<Rightarrow> u64 option" where
  "traits_length m s = map_option of_nat (traits_length_from m s 0)"

text \<open>\<open>traits_type::find\<close>: the address of the first of \<open>n\<close> characters equal to \<open>c\<close>, or null.\<close>

primrec traits_find :: "mem \<Rightarrow> addr \<Rightarrow> nat \<Rightarrow> u8 \<Rightarrow> addr option" where
  "traits_find m p 0 c = None"
| "traits_find m p (Suc n) c = (if m p = c then Some p else traits_find m (Suc p) n c)"

text \<open>\<open>traits_type::compare\<close>: the sign of the first difference of two ranges of \<open>n\<close> bytes.\<close>

primrec traits_compare :: "mem \<Rightarrow> addr \<Rightarrow> addr \<Rightarrow> nat \<Rightarrow> int" where
  "traits_compare m p q 0 = 0"
| "traits_compare m p q (Suc n) =
     (if m p = m q then traits_compare m (Suc p) (Suc q) n else if m p < m q then - 1 else 1)"

text \<open>
  \<open>std::search (first, last, s, s + n)\<close>: the comparison at one position ends with a full match, at the
  end of the text, or with a mismatch; on a mismatch the search moves on. The text has \<open>k\<close> characters
  left.
\<close>

datatype search_at = Matched | Hit_last | Mismatch

primrec search_here :: "mem \<Rightarrow> addr \<Rightarrow> nat \<Rightarrow> addr \<Rightarrow> nat \<Rightarrow> search_at" where
  "search_here m it k s 0 = Matched"
| "search_here m it k s (Suc n) =
     (if k = 0 then Hit_last
      else if m it = m s then search_here m (Suc it) (k - 1) (Suc s) n else Mismatch)"

fun std_search :: "mem \<Rightarrow> addr \<Rightarrow> nat \<Rightarrow> addr \<Rightarrow> nat \<Rightarrow> addr" where
  "std_search m first 0 s n = first"
| "std_search m first (Suc k) s n =
     (case search_here m first (Suc k) s n of
        Matched \<Rightarrow> first
      | Hit_last \<Rightarrow> first + Suc k
      | Mismatch \<Rightarrow> std_search m (Suc first) k s n)"

text \<open>
  The two shapes of the class's loops: \<open>for (; pos < pos + k; ++pos) if (P(pos)) return pos;\<close> and
  \<open>do { if (P(index)) return index; } while (index-- != 0);\<close>.
\<close>

primrec loop_up :: "(nat \<Rightarrow> bool) \<Rightarrow> nat \<Rightarrow> nat \<Rightarrow> nat option" where
  "loop_up P pos 0 = None"
| "loop_up P pos (Suc k) = (if P pos then Some pos else loop_up P (Suc pos) k)"

primrec loop_down :: "(nat \<Rightarrow> bool) \<Rightarrow> nat \<Rightarrow> nat option" where
  "loop_down P 0 = (if P 0 then Some 0 else None)"
| "loop_down P (Suc i) = (if P (Suc i) then Some (Suc i) else loop_down P i)"

section \<open>The class\<close>

record StringPiece =
  mStr :: addr
  mLength :: u64

definition npos :: u64 where
  "npos = - 1"

definition ret_pos :: "nat option \<Rightarrow> u64" where
  "ret_pos r = (case r of None \<Rightarrow> npos | Some i \<Rightarrow> of_nat i)"

subsection \<open>Constructors\<close>

definition StringPiece_cstr :: "mem \<Rightarrow> addr \<Rightarrow> StringPiece option" where
  "StringPiece_cstr m str =
     (if str = NULL then Some \<lparr>mStr = str, mLength = 0\<rparr>
      else map_option (\<lambda>n. \<lparr>mStr = str, mLength = n\<rparr>) (traits_length m str))"

definition StringPiece_len :: "addr \<Rightarrow> u64 \<Rightarrow> StringPiece" where
  "StringPiece_len str len = \<lparr>mStr = str, mLength = len\<rparr>"

definition StringPiece_string :: "addr \<times> u64 \<Rightarrow> StringPiece" where
  \<comment> \<open>a \<open>std::string\<close> is its \<open>data()\<close> and its \<open>size()\<close>\<close>
  "StringPiece_string str = \<lparr>mStr = fst str, mLength = snd str\<rparr>"

definition StringPiece_iter :: "addr \<Rightarrow> addr \<Rightarrow> StringPiece" where
  "StringPiece_iter beg en =
     \<lparr>mStr = (if en > beg then beg else NULL),
      mLength = (if en > beg then of_nat (en - beg) else 0)\<rparr>"

subsection \<open>Capacity and element access\<close>

definition StringPiece_size :: "StringPiece \<Rightarrow> u64" where
  [stone_defs]: "StringPiece_size p = mLength p"

definition StringPiece_data :: "StringPiece \<Rightarrow> addr" where
  [stone_defs]: "StringPiece_data p = mStr p"

definition StringPiece_c_str :: "StringPiece \<Rightarrow> addr" where
  [stone_defs]: "StringPiece_c_str p = mStr p"

definition StringPiece_begin :: "StringPiece \<Rightarrow> addr" where
  [stone_defs]: "StringPiece_begin p = StringPiece_data p"

definition StringPiece_end :: "StringPiece \<Rightarrow> addr" where
  [stone_defs]: "StringPiece_end p = StringPiece_data p + unat (StringPiece_size p)"

text \<open>A reverse iterator is its base: it reads the character before the address it holds.\<close>

definition StringPiece_rbegin :: "StringPiece \<Rightarrow> addr" where
  [stone_defs]: "StringPiece_rbegin p = StringPiece_data p + unat (StringPiece_size p)"

definition StringPiece_rend :: "StringPiece \<Rightarrow> addr" where
  [stone_defs]: "StringPiece_rend p = StringPiece_data p"

definition StringPiece_clear :: "StringPiece \<Rightarrow> StringPiece" where
  "StringPiece_clear p = p\<lparr>mStr := NULL, mLength := 0\<rparr>"

definition StringPiece_empty :: "StringPiece \<Rightarrow> bool" where
  "StringPiece_empty p \<longleftrightarrow> StringPiece_size p = 0"

definition StringPiece_length :: "StringPiece \<Rightarrow> u64" where
  "StringPiece_length p = StringPiece_size p"

definition StringPiece_max_size :: "StringPiece \<Rightarrow> u64" where
  "StringPiece_max_size p = StringPiece_size p"

definition StringPiece_capacity :: "StringPiece \<Rightarrow> u64" where
  "StringPiece_capacity p = StringPiece_size p"

definition StringPiece_elem :: "mem \<Rightarrow> StringPiece \<Rightarrow> u64 \<Rightarrow> u8" where
  "StringPiece_elem m p pos = m (StringPiece_data p + unat pos)"

definition StringPiece_at :: "mem \<Rightarrow> StringPiece \<Rightarrow> u64 \<Rightarrow> u8 result" where
  "StringPiece_at m p pos = (if pos \<ge> StringPiece_size p then Inl Out_of_range else Inr (m (StringPiece_data p + unat pos)))"

definition StringPiece_swap :: "StringPiece \<Rightarrow> StringPiece \<Rightarrow> StringPiece \<times> StringPiece" where
  "StringPiece_swap this sp =
     (this\<lparr>mStr := mStr sp, mLength := mLength sp\<rparr>, sp\<lparr>mStr := mStr this, mLength := mLength this\<rparr>)"

subsection \<open>Searching\<close>

definition StringPiece_find_n :: "mem \<Rightarrow> StringPiece \<Rightarrow> addr \<Rightarrow> u64 \<Rightarrow> u64 \<Rightarrow> u64" where
  "StringPiece_find_n m this s pos n =
     (if pos \<le> StringPiece_size this \<and> n \<le> StringPiece_size this - pos
      then let p = std_search m (StringPiece_data this + unat pos) (unat (StringPiece_size this) - unat pos) s (unat n)
           in if p \<noteq> StringPiece_data this + unat (StringPiece_size this) \<or> n = 0 then of_nat (p - StringPiece_data this) else npos
      else npos)"

definition StringPiece_find :: "mem \<Rightarrow> StringPiece \<Rightarrow> StringPiece \<Rightarrow> u64 \<Rightarrow> u64" where
  "StringPiece_find m this sp pos = StringPiece_find_n m this (StringPiece_data sp) pos (StringPiece_size sp)"

definition StringPiece_find_cstr :: "mem \<Rightarrow> StringPiece \<Rightarrow> addr \<Rightarrow> u64 \<Rightarrow> u64 option" where
  "StringPiece_find_cstr m this s pos = map_option (\<lambda>sp. StringPiece_find m this sp pos) (StringPiece_cstr m s)"

definition StringPiece_find_char :: "mem \<Rightarrow> StringPiece \<Rightarrow> u8 \<Rightarrow> u64 \<Rightarrow> u64" where
  "StringPiece_find_char m this c pos =
     (if pos < StringPiece_size this
      then (case traits_find m (StringPiece_data this + unat pos) (unat (StringPiece_size this - pos)) c of
              None \<Rightarrow> npos | Some p \<Rightarrow> of_nat (p - StringPiece_data this))
      else npos)"

definition StringPiece_rfind_n :: "mem \<Rightarrow> StringPiece \<Rightarrow> addr \<Rightarrow> u64 \<Rightarrow> u64 \<Rightarrow> u64" where
  "StringPiece_rfind_n m this s pos n =
     (if n \<le> StringPiece_size this
      then let pos' = min (StringPiece_size this - n) pos
           in ret_pos (loop_down (\<lambda>i. traits_compare m (StringPiece_data this + i) s (unat n) = 0) (unat pos'))
      else npos)"

definition StringPiece_rfind :: "mem \<Rightarrow> StringPiece \<Rightarrow> StringPiece \<Rightarrow> u64 \<Rightarrow> u64" where
  "StringPiece_rfind m this sp pos = StringPiece_rfind_n m this (StringPiece_data sp) pos (StringPiece_size sp)"

definition StringPiece_rfind_cstr :: "mem \<Rightarrow> StringPiece \<Rightarrow> addr \<Rightarrow> u64 \<Rightarrow> u64 option" where
  "StringPiece_rfind_cstr m this s pos = map_option (\<lambda>sp. StringPiece_rfind m this sp pos) (StringPiece_cstr m s)"

definition StringPiece_rfind_char :: "mem \<Rightarrow> StringPiece \<Rightarrow> u8 \<Rightarrow> u64 \<Rightarrow> u64" where
  "StringPiece_rfind_char m this c pos =
     (if StringPiece_size this \<noteq> 0
      then let sz = StringPiece_size this - 1; sz = (if sz > pos then pos else sz)
           in ret_pos (loop_down (\<lambda>i. m (StringPiece_data this + i) = c) (unat sz))
      else npos)"

definition StringPiece_find_first_of_n :: "mem \<Rightarrow> StringPiece \<Rightarrow> addr \<Rightarrow> u64 \<Rightarrow> u64 \<Rightarrow> u64" where
  "StringPiece_find_first_of_n m this s pos n =
     (if n = 0 then npos
      else ret_pos (loop_up (\<lambda>i. traits_find m s (unat n) (m (StringPiece_data this + i)) \<noteq> None)
             (unat pos) (unat (StringPiece_size this) - unat pos)))"

definition StringPiece_find_first_of :: "mem \<Rightarrow> StringPiece \<Rightarrow> StringPiece \<Rightarrow> u64 \<Rightarrow> u64" where
  "StringPiece_find_first_of m this sp pos = StringPiece_find_first_of_n m this (StringPiece_data sp) pos (StringPiece_size sp)"

definition StringPiece_find_first_of_cstr :: "mem \<Rightarrow> StringPiece \<Rightarrow> addr \<Rightarrow> u64 \<Rightarrow> u64 option" where
  "StringPiece_find_first_of_cstr m this s pos =
     map_option (\<lambda>sp. StringPiece_find_first_of m this sp pos) (StringPiece_cstr m s)"

definition StringPiece_find_first_of_char :: "mem \<Rightarrow> StringPiece \<Rightarrow> u8 \<Rightarrow> u64 \<Rightarrow> u64" where
  "StringPiece_find_first_of_char m this c pos = StringPiece_find_char m this c pos"

definition StringPiece_find_last_of_n :: "mem \<Rightarrow> StringPiece \<Rightarrow> addr \<Rightarrow> u64 \<Rightarrow> u64 \<Rightarrow> u64" where
  "StringPiece_find_last_of_n m this s pos n =
     (if StringPiece_size this \<noteq> 0 \<and> n \<noteq> 0
      then let index = StringPiece_size this - 1; index = (if index > pos then pos else index)
           in ret_pos (loop_down (\<lambda>i. traits_find m s (unat n) (m (StringPiece_data this + i)) \<noteq> None) (unat index))
      else npos)"

definition StringPiece_find_last_of :: "mem \<Rightarrow> StringPiece \<Rightarrow> StringPiece \<Rightarrow> u64 \<Rightarrow> u64" where
  "StringPiece_find_last_of m this sp pos = StringPiece_find_last_of_n m this (StringPiece_data sp) pos (StringPiece_size sp)"

definition StringPiece_find_last_of_cstr :: "mem \<Rightarrow> StringPiece \<Rightarrow> addr \<Rightarrow> u64 \<Rightarrow> u64 option" where
  "StringPiece_find_last_of_cstr m this s pos =
     map_option (\<lambda>sp. StringPiece_find_last_of m this sp pos) (StringPiece_cstr m s)"

definition StringPiece_find_last_of_char :: "mem \<Rightarrow> StringPiece \<Rightarrow> u8 \<Rightarrow> u64 \<Rightarrow> u64" where
  "StringPiece_find_last_of_char m this c pos = StringPiece_rfind_char m this c pos"

definition StringPiece_find_first_not_of_n :: "mem \<Rightarrow> StringPiece \<Rightarrow> addr \<Rightarrow> u64 \<Rightarrow> u64 \<Rightarrow> u64" where
  "StringPiece_find_first_not_of_n m this s pos n =
     ret_pos (loop_up (\<lambda>i. traits_find m s (unat n) (m (StringPiece_data this + i)) = None)
       (unat pos) (unat (StringPiece_size this) - unat pos))"

definition StringPiece_find_first_not_of :: "mem \<Rightarrow> StringPiece \<Rightarrow> StringPiece \<Rightarrow> u64 \<Rightarrow> u64" where
  "StringPiece_find_first_not_of m this sp pos = StringPiece_find_first_not_of_n m this (StringPiece_data sp) pos (StringPiece_size sp)"

definition StringPiece_find_first_not_of_cstr :: "mem \<Rightarrow> StringPiece \<Rightarrow> addr \<Rightarrow> u64 \<Rightarrow> u64 option" where
  "StringPiece_find_first_not_of_cstr m this s pos =
     map_option (\<lambda>sp. StringPiece_find_first_not_of m this sp pos) (StringPiece_cstr m s)"

text \<open>
  The single-character overloads pass a piece over the parameter itself; \<open>slot\<close> is the address of the
  by-value parameter \<open>c\<close>.
\<close>

definition StringPiece_find_first_not_of_char :: "mem \<Rightarrow> StringPiece \<Rightarrow> addr \<Rightarrow> u8 \<Rightarrow> u64 \<Rightarrow> u64" where
  "StringPiece_find_first_not_of_char m this slot c pos =
     StringPiece_find_first_not_of (m(slot := c)) this (StringPiece_len slot 1) pos"

definition StringPiece_find_last_not_of_n :: "mem \<Rightarrow> StringPiece \<Rightarrow> addr \<Rightarrow> u64 \<Rightarrow> u64 \<Rightarrow> u64" where
  "StringPiece_find_last_not_of_n m this s pos n =
     (if StringPiece_size this \<noteq> 0
      then let index = StringPiece_size this - 1; index = (if index > pos then pos else index)
           in ret_pos (loop_down (\<lambda>i. traits_find m s (unat n) (m (StringPiece_data this + i)) = None) (unat index))
      else npos)"

definition StringPiece_find_last_not_of :: "mem \<Rightarrow> StringPiece \<Rightarrow> StringPiece \<Rightarrow> u64 \<Rightarrow> u64" where
  "StringPiece_find_last_not_of m this sp pos = StringPiece_find_last_not_of_n m this (StringPiece_data sp) pos (StringPiece_size sp)"

definition StringPiece_find_last_not_of_char :: "mem \<Rightarrow> StringPiece \<Rightarrow> addr \<Rightarrow> u8 \<Rightarrow> u64 \<Rightarrow> u64" where
  "StringPiece_find_last_not_of_char m this slot c pos =
     StringPiece_find_last_not_of (m(slot := c)) this (StringPiece_len slot 1) pos"

text \<open>
  The \<open>const char*\<close> overload of \<open>find_last_not_of\<close> builds the piece \<open>sp\<close> and then calls
  \<open>find_last_not_of(s, pos)\<close> with the pointer \<open>s\<close>, not with \<open>sp\<close>: overload resolution picks the same
  function again.
\<close>

partial_function (option) StringPiece_find_last_not_of_cstr ::
  "mem \<Rightarrow> StringPiece \<Rightarrow> addr \<Rightarrow> u64 \<Rightarrow> u64 option" where
  "StringPiece_find_last_not_of_cstr m this s pos =
     Option.bind (StringPiece_cstr m s) (\<lambda>sp. StringPiece_find_last_not_of_cstr m this s pos)"

subsection \<open>Modifiers, substrings and comparison\<close>

definition StringPiece_set_len :: "StringPiece \<Rightarrow> addr \<Rightarrow> u64 \<Rightarrow> StringPiece" where
  "StringPiece_set_len p dat len = p\<lparr>mStr := dat, mLength := len\<rparr>"

definition StringPiece_set_cstr :: "mem \<Rightarrow> StringPiece \<Rightarrow> addr \<Rightarrow> StringPiece option" where
  "StringPiece_set_cstr m p str =
     (if str \<noteq> NULL then map_option (\<lambda>n. p\<lparr>mStr := str, mLength := n\<rparr>) (traits_length m str)
      else Some (p\<lparr>mStr := str, mLength := 0\<rparr>))"

definition StringPiece_set_string :: "StringPiece \<Rightarrow> addr \<times> u64 \<Rightarrow> StringPiece" where
  "StringPiece_set_string p str = p\<lparr>mStr := fst str, mLength := snd str\<rparr>"

definition StringPiece_remove_prefix :: "StringPiece \<Rightarrow> u64 \<Rightarrow> StringPiece result" where
  "StringPiece_remove_prefix p n =
     (if mLength p < n then Inl Out_of_range
      else Inr (p\<lparr>mStr := mStr p + unat n, mLength := mLength p - n\<rparr>))"

definition StringPiece_remove_suffix :: "StringPiece \<Rightarrow> u64 \<Rightarrow> StringPiece result" where
  "StringPiece_remove_suffix p n =
     (if mLength p < n then Inl Out_of_range else Inr (p\<lparr>mLength := mLength p - n\<rparr>))"

definition StringPiece_substr :: "StringPiece \<Rightarrow> u64 \<Rightarrow> u64 \<Rightarrow> StringPiece result" where
  "StringPiece_substr p pos len =
     (if pos > StringPiece_size p then Inl Out_of_range
      else let q = StringPiece_data p + unat pos;
               len' = (if len = npos then StringPiece_size p - pos else min (StringPiece_size p - pos) len)
           in Inr (StringPiece_len q len'))"

definition StringPiece_compare :: "mem \<Rightarrow> StringPiece \<Rightarrow> StringPiece \<Rightarrow> int" where
  "StringPiece_compare m this s =
     (let len = min (StringPiece_size this) (StringPiece_size s);
          r = traits_compare m (StringPiece_data this) (StringPiece_data s) (unat len)
      in if r = 0 then sint (ucast (StringPiece_size this - StringPiece_size s) :: u32) else r)"

definition StringPiece_equal_piece :: "mem \<Rightarrow> bool \<Rightarrow> StringPiece \<Rightarrow> StringPiece \<Rightarrow> bool" where
  \<comment> \<open>\<open>same\<close>: whether \<open>this == &s\<close>\<close>
  "StringPiece_equal_piece m same this s \<longleftrightarrow> same \<or> StringPiece_compare m this s = 0"

definition StringPiece_as_string :: "mem \<Rightarrow> StringPiece \<Rightarrow> u8 list" where
  "StringPiece_as_string m p =
     (if StringPiece_empty p then [] else map (\<lambda>i. m (StringPiece_data p + i)) [0..<unat (StringPiece_size p)])"

section \<open>What the loops compute\<close>

lemma loop_up_None: "loop_up P pos k = None \<longleftrightarrow> (\<forall>j. pos \<le> j \<and> j < pos + k \<longrightarrow> \<not> P j)"
proof (induction k arbitrary: pos)
  case (Suc k)
  have "(\<forall>j. pos \<le> j \<and> j < pos + Suc k \<longrightarrow> \<not> P j) \<longleftrightarrow>
        \<not> P pos \<and> (\<forall>j. Suc pos \<le> j \<and> j < Suc pos + k \<longrightarrow> \<not> P j)"
    by (metis Suc_le_eq add_Suc_right add_Suc_shift le_eq_less_or_eq less_add_Suc1)
  then show ?case by (simp add: Suc)
qed auto

lemma loop_up_Some:
  "loop_up P pos k = Some i \<Longrightarrow>
     pos \<le> i \<and> i < pos + k \<and> P i \<and> (\<forall>j. pos \<le> j \<and> j < i \<longrightarrow> \<not> P j)"
proof (induction k arbitrary: pos)
  case (Suc k)
  show ?case
  proof (cases "P pos")
    case False
    then have "Suc pos \<le> i \<and> i < Suc pos + k \<and> P i \<and> (\<forall>j. Suc pos \<le> j \<and> j < i \<longrightarrow> \<not> P j)"
      using Suc.IH [of "Suc pos"] Suc.prems by auto
    with False show ?thesis by (metis Suc_le_eq add_Suc_shift le_eq_less_or_eq Suc_leD)
  qed (use Suc in auto)
qed simp

lemma loop_down_None: "loop_down P n = None \<longleftrightarrow> (\<forall>j \<le> n. \<not> P j)"
  by (induction n) (auto simp: le_Suc_eq)

lemma loop_down_Some:
  "loop_down P n = Some i \<Longrightarrow> i \<le> n \<and> P i \<and> (\<forall>j. i < j \<and> j \<le> n \<longrightarrow> \<not> P j)"
  by (induction n) (auto split: if_splits simp: le_Suc_eq)

lemma traits_find_eq_loop: "traits_find m p n c = loop_up (\<lambda>a. m a = c) p n"
  by (induction n arbitrary: p) auto

lemma traits_find_None: "traits_find m p n c = None \<longleftrightarrow> (\<forall>i < n. m (p + i) \<noteq> c)"
  unfolding traits_find_eq_loop loop_up_None
  by (metis add_less_cancel_left le_add1 le_add_diff_inverse)

lemma traits_compare_0: "traits_compare m p q n = 0 \<longleftrightarrow> (\<forall>i < n. m (p + i) = m (q + i))"
proof (induction n arbitrary: p q)
  case (Suc n)
  then show ?case by (auto simp: less_Suc_eq_0_disj)
qed simp

lemma search_here_Matched:
  "search_here m it k s n = Matched \<longleftrightarrow> n \<le> k \<and> (\<forall>i < n. m (it + i) = m (s + i))"
proof (induction n arbitrary: it k s)
  case (Suc n)
  then show ?case by (auto simp: less_Suc_eq_0_disj)
qed simp

lemma search_here_Hit_last: "search_here m it k s n = Hit_last \<Longrightarrow> k < n"
proof (induction n arbitrary: it k s)
  case (Suc n)
  then show ?case by (cases k) (auto split: if_splits)
qed simp

definition match_at :: "mem \<Rightarrow> addr \<Rightarrow> addr \<Rightarrow> nat \<Rightarrow> nat \<Rightarrow> bool" where
  "match_at m first s n i \<longleftrightarrow> (\<forall>j < n. m (first + i + j) = m (s + j))"

lemma match_at_Suc: "match_at m (Suc first) s n i = match_at m first s n (Suc i)"
  by (simp add: match_at_def)

lemma std_search_spec:
  "\<exists>i. std_search m first k s n = first + i \<and> i \<le> k \<and>
     (\<forall>j < i. j + n \<le> k \<longrightarrow> \<not> match_at m first s n j) \<and>
     (i + n \<le> k \<and> match_at m first s n i \<or> i = k \<and> (n = 0 \<or> \<not> match_at m first s n i \<or> i + n > k))"
proof (induction m first k s n rule: std_search.induct)
  case (1 m first s n)
  then show ?case by auto
next
  case (2 m first k s n)
  show ?case
  proof (cases "search_here m first (Suc k) s n")
    case Matched
    with search_here_Matched [THEN iffD1, OF Matched] show ?thesis
      by (intro exI [of _ 0]) (simp add: match_at_def)
  next
    case Hit_last
    then have "Suc k < n" by (rule search_here_Hit_last)
    with Hit_last show ?thesis
      by (intro exI [of _ "Suc k"]) auto
  next
    case Mismatch
    then have no: "\<not> (n \<le> Suc k \<and> match_at m first s n 0)"
      by (metis search_here_Matched add_0_right match_at_def search_at.distinct(3))
    obtain i where i: "std_search m (Suc first) k s n = Suc first + i" "i \<le> k"
      "\<forall>j < i. j + n \<le> k \<longrightarrow> \<not> match_at m (Suc first) s n j"
      "i + n \<le> k \<and> match_at m (Suc first) s n i \<or> i = k \<and> (n = 0 \<or> \<not> match_at m (Suc first) s n i \<or> i + n > k)"
      using "2.IH" [OF Mismatch] by blast
    show ?thesis
    proof (intro exI [of _ "Suc i"] conjI)
      show "\<forall>j < Suc i. j + n \<le> Suc k \<longrightarrow> \<not> match_at m first s n j"
        using no i(3) by (auto simp: less_Suc_eq_0_disj match_at_Suc)
    qed (use Mismatch i in \<open>auto simp: match_at_Suc\<close>)
  qed
qed

section \<open>The characters of a piece\<close>

definition chars :: "mem \<Rightarrow> StringPiece \<Rightarrow> u8 list" where
  "chars m p = map (\<lambda>i. m (mStr p + i)) [0..<unat (mLength p)]"

definition occurs :: "u8 list \<Rightarrow> u8 list \<Rightarrow> nat \<Rightarrow> bool" where
  "occurs xs pat i \<longleftrightarrow> i + length pat \<le> length xs \<and> take (length pat) (drop i xs) = pat"

text \<open>
  What a search returns: the least position not below \<open>lo\<close>, or the greatest not above \<open>hi\<close>, at which
  the predicate holds, and \<open>npos\<close> exactly when there is none.
\<close>

definition first_from :: "(nat \<Rightarrow> bool) \<Rightarrow> nat \<Rightarrow> u64 \<Rightarrow> bool" where
  "first_from P lo r \<longleftrightarrow>
     (if r = npos then \<forall>i \<ge> lo. \<not> P i
      else lo \<le> unat r \<and> P (unat r) \<and> (\<forall>j. lo \<le> j \<and> j < unat r \<longrightarrow> \<not> P j))"

definition last_upto :: "(nat \<Rightarrow> bool) \<Rightarrow> nat \<Rightarrow> u64 \<Rightarrow> bool" where
  "last_upto P hi r \<longleftrightarrow>
     (if r = npos then \<forall>i \<le> hi. \<not> P i
      else unat r \<le> hi \<and> P (unat r) \<and> (\<forall>j. unat r < j \<and> j \<le> hi \<longrightarrow> \<not> P j))"

lemma length_chars [simp]: "length (chars m p) = unat (mLength p)"
  by (simp add: chars_def)

lemma chars_nth [simp]: "i < unat (mLength p) \<Longrightarrow> chars m p ! i = m (mStr p + i)"
  by (simp add: chars_def)

lemma set_chars: "set (chars m p) = {m (mStr p + i) |i. i < unat (mLength p)}"
  by (auto simp: chars_def)

lemma traits_find_chars:
  "traits_find m (mStr p) (unat (mLength p)) c = None \<longleftrightarrow> c \<notin> set (chars m p)"
  by (auto simp: traits_find_None set_chars)

lemma occurs_chars:
  "occurs (chars m p) (chars m q) i \<longleftrightarrow>
     i + unat (mLength q) \<le> unat (mLength p) \<and>
     (\<forall>j < unat (mLength q). m (mStr p + i + j) = m (mStr q + j))"
proof (cases "i + unat (mLength q) \<le> unat (mLength p)")
  case True
  then have "take (unat (mLength q)) (drop i (chars m p)) = chars m q \<longleftrightarrow>
    (\<forall>j < unat (mLength q). m (mStr p + i + j) = m (mStr q + j))"
    by (auto simp: list_eq_iff_nth_eq add.assoc)
  with True show ?thesis by (simp add: occurs_def)
qed (simp add: occurs_def)

lemma of_nat_pos:
  assumes "i < unat (npos)"
  shows "unat (of_nat i :: u64) = i" and "(of_nat i :: u64) \<noteq> npos"
proof -
  have "i < 2 ^ 64" using assms by (simp add: npos_def unat_minus_1)
  then show "unat (of_nat i :: u64) = i"
    by (simp add: unsigned_of_nat take_bit_nat_eq_self)
  then show "(of_nat i :: u64) \<noteq> npos" using assms by auto
qed

lemma less_npos: "i < unat (w :: u64) \<Longrightarrow> i < unat npos"
  using unat_u64_less [of w] by (simp add: npos_def unat_minus_1)

lemma le_npos: "w \<noteq> npos \<Longrightarrow> i \<le> unat (w :: u64) \<Longrightarrow> i < unat npos"
proof -
  assume "w \<noteq> npos" "i \<le> unat w"
  moreover have "unat w \<noteq> unat npos" using \<open>w \<noteq> npos\<close> by (simp add: word_unat_eq_iff)
  moreover have "unat w \<le> unat npos"
    using unat_u64_less [of w] by (simp add: npos_def unat_minus_1)
  ultimately show ?thesis by linarith
qed

lemma ret_loop_up:
  assumes "\<And>i. lo \<le> i \<Longrightarrow> i < lo + k \<Longrightarrow> i < unat npos"
    and "\<And>i. lo \<le> i \<Longrightarrow> P i \<longleftrightarrow> i < lo + k \<and> Q i"
  shows "first_from P lo (ret_pos (loop_up Q lo k))"
proof (cases "loop_up Q lo k")
  case None
  then show ?thesis
    using assms loop_up_None [THEN iffD1, OF None] by (auto simp: ret_pos_def first_from_def)
next
  case (Some i)
  from loop_up_Some [OF this] have i: "lo \<le> i" "i < lo + k" "Q i"
    "\<forall>j. lo \<le> j \<and> j < i \<longrightarrow> \<not> Q j" by auto
  with assms(1) have "i < unat npos" by blast
  from of_nat_pos [OF this] show ?thesis
    using i assms(2) Some by (auto simp: ret_pos_def first_from_def)
qed

lemma ret_loop_down:
  assumes "n < unat npos"
    and "\<And>i. i \<le> hi \<Longrightarrow> P i \<longleftrightarrow> i \<le> n \<and> Q i" and "n \<le> hi"
  shows "last_upto P hi (ret_pos (loop_down Q n))"
proof (cases "loop_down Q n")
  case None
  then show ?thesis
    using assms loop_down_None [THEN iffD1, OF None] by (auto simp: ret_pos_def last_upto_def)
next
  case (Some i)
  from loop_down_Some [OF this] have i: "i \<le> n" "Q i" "\<forall>j. i < j \<and> j \<le> n \<longrightarrow> \<not> Q j" by auto
  with assms(1) have "i < unat npos" by linarith
  from of_nat_pos [OF this] show ?thesis
    using i assms(2,3) Some by (auto simp: ret_pos_def last_upto_def)
qed

lemma find_char_eq_loop:
  "StringPiece_find_char m this c pos =
     (if pos < mLength this
      then ret_pos (loop_up (\<lambda>i. m (mStr this + i) = c) (unat pos) (unat (mLength this) - unat pos))
      else npos)"
proof -
  have shift: "loop_up (\<lambda>a. m a = c) (d + lo) k = map_option ((+) d) (loop_up (\<lambda>i. m (d + i) = c) lo k)"
    for d lo k
    by (induction k arbitrary: lo) (auto simp: add_Suc_right [symmetric] simp del: add_Suc_right)
  show ?thesis
    by (auto simp: StringPiece_find_char_def stone_defs traits_find_eq_loop shift ret_pos_def
        unat_sub word_less_nat_alt word_le_nat_alt split: option.split)
qed

section \<open>Properties of the searches\<close>

text \<open>
  C34. \<open>find\<close> returns the first occurrence: for a piece whose length is not \<open>npos\<close>, the returned
  position is the least one at or after \<open>pos\<close> where the characters of the pattern occur, and \<open>npos\<close>
  exactly when there is no such position; an empty pattern occurs at every position up to the end.
\<close>

theorem find_first_occurrence:
  assumes "mLength this \<noteq> npos"
  shows "first_from (occurs (chars m this) (chars m sp)) (unat pos) (StringPiece_find m this sp pos)"
proof (cases "unat pos + unat (mLength sp) \<le> unat (mLength this)")
  case False
  have "StringPiece_find m this sp pos = npos"
    using False
    by (auto simp: StringPiece_find_def StringPiece_find_n_def stone_defs word_le_nat_alt unat_sub)
  then show ?thesis using False by (auto simp: first_from_def occurs_chars)
next
  case True
  let ?k = "unat (mLength this) - unat pos" and ?n = "unat (mLength sp)"
  let ?f = "mStr this + unat pos"
  have g: "pos \<le> mLength this" "mLength sp \<le> mLength this - pos"
    using True by (auto simp: word_le_nat_alt unat_sub)
  obtain i where i: "std_search m ?f ?k (mStr sp) ?n = ?f + i" "i \<le> ?k"
    "\<forall>j < i. j + ?n \<le> ?k \<longrightarrow> \<not> match_at m ?f (mStr sp) ?n j"
    "i + ?n \<le> ?k \<and> match_at m ?f (mStr sp) ?n i \<or>
     i = ?k \<and> (?n = 0 \<or> \<not> match_at m ?f (mStr sp) ?n i \<or> i + ?n > ?k)"
    using std_search_spec by blast
  have occ: "occurs (chars m this) (chars m sp) (unat pos + j) \<longleftrightarrow>
      j + ?n \<le> ?k \<and> match_at m ?f (mStr sp) ?n j" for j
    using True by (auto simp: occurs_chars match_at_def add.assoc)
  have r: "StringPiece_find m this sp pos =
      (if i \<noteq> ?k \<or> ?n = 0 then of_nat (unat pos + i) else npos)"
    using g True i(1) by (auto simp: StringPiece_find_def StringPiece_find_n_def stone_defs Let_def
        unat_eq_0)
  have np: "unat pos + i < unat npos"
    using assms i(2) True by (intro le_npos [of "mLength this"]) auto
  show ?thesis
  proof (cases "i \<noteq> ?k \<or> ?n = 0")
    case True': True
    then have "i + ?n \<le> ?k \<and> match_at m ?f (mStr sp) ?n i"
      using i(2,4) by (auto simp: match_at_def)
    then have "occurs (chars m this) (chars m sp) (unat pos + i)" by (simp add: occ)
    moreover have "\<not> occurs (chars m this) (chars m sp) j" if "unat pos \<le> j" "j < unat pos + i" for j
      using i(3) occ [of "j - unat pos"] that by auto
    ultimately show ?thesis
      using True' r of_nat_pos [OF np] by (auto simp: first_from_def)
  next
    case False
    then have "\<not> occurs (chars m this) (chars m sp) j" if "unat pos \<le> j" for j
      using i(3) occ [of "j - unat pos"] that by auto
    then show ?thesis using False r by (auto simp: first_from_def)
  qed
qed

definition mem_of :: "addr \<Rightarrow> u8 list \<Rightarrow> mem" where
  "mem_of base bs a = (if base \<le> a \<and> a < base + length bs then bs ! (a - base) else 0)"

theorem find_first_occurrence_witness:
  "first_from
     (occurs (chars (mem_of 8 [1, 2, 1, 2]) (StringPiece_len 8 4)) (chars (mem_of 8 [1, 2, 1, 2]) (StringPiece_len 8 2)))
     1 (StringPiece_find (mem_of 8 [1, 2, 1, 2]) (StringPiece_len 8 4) (StringPiece_len 8 2) 1)"
  using find_first_occurrence
    [of "StringPiece_len 8 4" "mem_of 8 [1, 2, 1, 2]" "StringPiece_len 8 2" 1]
  by (simp add: StringPiece_len_def npos_def)

text \<open>
  \<open>rfind\<close> returns the last occurrence at or before \<open>pos\<close>, and \<open>npos\<close> exactly when there is none.
\<close>

theorem rfind_last_occurrence:
  assumes "mLength this \<noteq> npos"
  shows "last_upto (occurs (chars m this) (chars m sp)) (unat pos) (StringPiece_rfind m this sp pos)"
proof (cases "mLength sp \<le> mLength this")
  case False
  then show ?thesis
    by (auto simp: StringPiece_rfind_def StringPiece_rfind_n_def stone_defs last_upto_def occurs_chars
        word_le_nat_alt)
next
  case True
  let ?p = "min (mLength this - mLength sp) pos"
  have p: "unat ?p = min (unat (mLength this) - unat (mLength sp)) (unat pos)"
    using True by (simp add: min_def word_le_nat_alt unat_sub)
  have "last_upto (occurs (chars m this) (chars m sp)) (unat pos)
    (ret_pos (loop_down (\<lambda>i. traits_compare m (mStr this + i) (mStr sp) (unat (mLength sp)) = 0) (unat ?p)))"
  proof (rule ret_loop_down)
    show "unat ?p < unat npos"
      using assms p by (intro le_npos [of "mLength this"]) auto
    show "unat ?p \<le> unat pos" using p by simp
    show "occurs (chars m this) (chars m sp) i \<longleftrightarrow>
        i \<le> unat ?p \<and> traits_compare m (mStr this + i) (mStr sp) (unat (mLength sp)) = 0"
      if "i \<le> unat pos" for i
      using that p True by (auto simp: occurs_chars traits_compare_0 word_le_nat_alt)
  qed
  then show ?thesis
    using True by (simp add: StringPiece_rfind_def StringPiece_rfind_n_def stone_defs Let_def)
qed

theorem rfind_last_occurrence_witness:
  "last_upto
     (occurs (chars (mem_of 8 [1, 2, 1, 2]) (StringPiece_len 8 4)) (chars (mem_of 8 [1, 2, 1, 2]) (StringPiece_len 8 2)))
     (unat npos) (StringPiece_rfind (mem_of 8 [1, 2, 1, 2]) (StringPiece_len 8 4) (StringPiece_len 8 2) npos)"
  using rfind_last_occurrence
    [of "StringPiece_len 8 4" "mem_of 8 [1, 2, 1, 2]" "StringPiece_len 8 2" npos]
  by (simp add: StringPiece_len_def npos_def)

lemma clamp_index:
  fixes sz pos :: u64
  assumes "sz \<noteq> 0"
  shows "unat (if sz - 1 > pos then pos else sz - 1) = min (unat sz - 1) (unat pos)"
proof -
  have "1 \<le> sz" using assms by (metis word_gt_0 word_le_sub1 order_refl word_not_simps(1) not_less word_less_1)
  then have "unat (sz - 1) = unat sz - 1" by (simp add: unat_sub word_le_nat_alt)
  then show ?thesis by (auto simp: word_less_nat_alt)
qed

lemma last_class_from_loop:
  assumes "\<And>i. i < unat (mLength this) \<Longrightarrow> Q i \<longleftrightarrow> C (chars m this ! i)" and "mLength this \<noteq> 0"
  shows "last_upto (\<lambda>i. i < length (chars m this) \<and> C (chars m this ! i)) (unat pos)
    (ret_pos (loop_down Q (unat (if mLength this - 1 > pos then pos else mLength this - 1))))"
proof -
  have "0 < unat (mLength this)" using assms(2) by (simp add: unat_gt_0)
  then show ?thesis
    unfolding clamp_index [OF assms(2)]
    using assms(1) by (intro ret_loop_down) (auto intro: less_npos [of _ "mLength this"])
qed

lemma first_class_from_loop:
  assumes "\<And>i. i < unat (mLength this) \<Longrightarrow> Q i \<longleftrightarrow> C (chars m this ! i)"
  shows "first_from (\<lambda>i. i < length (chars m this) \<and> C (chars m this ! i)) (unat pos)
    (ret_pos (loop_up Q (unat pos) (unat (mLength this) - unat pos)))"
  using assms by (intro ret_loop_up) (auto intro: less_npos [of _ "mLength this"])

lemma traits_find_chars_Some:
  "(\<exists>y. traits_find m (mStr p) (unat (mLength p)) c = Some y) \<longleftrightarrow> c \<in> set (chars m p)"
  using traits_find_chars [of m p c] by auto

lemmas of_defs = StringPiece_find_first_of_def StringPiece_find_first_of_n_def
  StringPiece_find_first_not_of_def StringPiece_find_first_not_of_n_def
  StringPiece_find_last_of_def StringPiece_find_last_of_n_def
  StringPiece_find_last_not_of_def StringPiece_find_last_not_of_n_def
  StringPiece_rfind_char_def StringPiece_size_def StringPiece_data_def Let_def

lemma find_first_of_spec:
  "first_from (\<lambda>i. i < length (chars m this) \<and> chars m this ! i \<in> set (chars m sp)) (unat pos)
     (StringPiece_find_first_of m this sp pos)"
proof (cases "mLength sp = 0")
  case True
  then show ?thesis by (simp add: of_defs first_from_def set_chars)
next
  case False
  then show ?thesis
    by (simp add: of_defs del: length_chars)
       (rule first_class_from_loop, simp add: traits_find_chars_Some)
qed

lemma find_first_not_of_spec:
  "first_from (\<lambda>i. i < length (chars m this) \<and> chars m this ! i \<notin> set (chars m sp)) (unat pos)
     (StringPiece_find_first_not_of m this sp pos)"
  by (simp add: of_defs del: length_chars) (rule first_class_from_loop, simp add: traits_find_chars)

lemma find_last_of_spec:
  "last_upto (\<lambda>i. i < length (chars m this) \<and> chars m this ! i \<in> set (chars m sp)) (unat pos)
     (StringPiece_find_last_of m this sp pos)"
proof (cases "mLength sp = 0 \<or> mLength this = 0")
  case True
  then show ?thesis by (auto simp: of_defs last_upto_def set_chars)
next
  case False
  then show ?thesis
    by (simp add: of_defs split del: if_split del: length_chars)
       (rule last_class_from_loop, simp_all add: traits_find_chars_Some)
qed

lemma find_last_not_of_spec:
  "last_upto (\<lambda>i. i < length (chars m this) \<and> chars m this ! i \<notin> set (chars m sp)) (unat pos)
     (StringPiece_find_last_not_of m this sp pos)"
proof (cases "mLength this = 0")
  case True
  then show ?thesis by (auto simp: of_defs last_upto_def)
next
  case False
  then show ?thesis
    by (simp add: of_defs split del: if_split del: length_chars)
       (rule last_class_from_loop, simp_all add: traits_find_chars)
qed

lemma find_char_spec:
  "first_from (\<lambda>i. i < length (chars m this) \<and> chars m this ! i = c) (unat pos)
     (StringPiece_find_char m this c pos)"
proof (cases "pos < mLength this")
  case True
  then show ?thesis
    unfolding find_char_eq_loop by (simp del: length_chars) (rule first_class_from_loop, simp)
next
  case False
  then show ?thesis by (auto simp: find_char_eq_loop first_from_def word_less_nat_alt)
qed

lemma rfind_char_spec:
  "last_upto (\<lambda>i. i < length (chars m this) \<and> chars m this ! i = c) (unat pos)
     (StringPiece_rfind_char m this c pos)"
proof (cases "mLength this = 0")
  case True
  then show ?thesis by (auto simp: of_defs last_upto_def)
next
  case False
  then show ?thesis
    by (simp add: of_defs split del: if_split del: length_chars)
       (rule last_class_from_loop, simp_all)
qed

text \<open>
  The character-class searches are exact: \<open>find_first_of\<close>, \<open>find_first_not_of\<close>, \<open>find_last_of\<close> and
  \<open>find_last_not_of\<close> over a piece, and \<open>find\<close> and \<open>rfind\<close> of a single character, return the first
  position at or after \<open>pos\<close>, respectively the last one at or before \<open>pos\<close>, whose character is in (is
  not in) the set, and \<open>npos\<close> exactly when there is none.
\<close>

theorem character_class_searches:
  "first_from (\<lambda>i. i < length (chars m this) \<and> chars m this ! i \<in> set (chars m sp)) (unat pos)
     (StringPiece_find_first_of m this sp pos) \<and>
   first_from (\<lambda>i. i < length (chars m this) \<and> chars m this ! i \<notin> set (chars m sp)) (unat pos)
     (StringPiece_find_first_not_of m this sp pos) \<and>
   last_upto (\<lambda>i. i < length (chars m this) \<and> chars m this ! i \<in> set (chars m sp)) (unat pos)
     (StringPiece_find_last_of m this sp pos) \<and>
   last_upto (\<lambda>i. i < length (chars m this) \<and> chars m this ! i \<notin> set (chars m sp)) (unat pos)
     (StringPiece_find_last_not_of m this sp pos) \<and>
   first_from (\<lambda>i. i < length (chars m this) \<and> chars m this ! i = c) (unat pos)
     (StringPiece_find_char m this c pos) \<and>
   last_upto (\<lambda>i. i < length (chars m this) \<and> chars m this ! i = c) (unat pos)
     (StringPiece_rfind_char m this c pos)"
  by (intro conjI find_first_of_spec find_first_not_of_spec find_last_of_spec find_last_not_of_spec
      find_char_spec rfind_char_spec)

section \<open>Substrings and comparison\<close>

text \<open>
  \<open>substr\<close>, \<open>remove_prefix\<close> and \<open>remove_suffix\<close> cut exactly the requested characters: \<open>substr\<close> throws
  \<open>out_of_range\<close> exactly when \<open>pos\<close> is beyond the end and otherwise yields the characters from \<open>pos\<close>, at
  most \<open>len\<close> of them; the removals throw exactly when asked for more than the length.
\<close>

theorem substr_and_removals:
  "(case StringPiece_substr p pos len of
      Inl e \<Rightarrow> e = Out_of_range \<and> unat pos > length (chars m p)
    | Inr q \<Rightarrow> unat pos \<le> length (chars m p) \<and>
        chars m q = take (unat len) (drop (unat pos) (chars m p))) \<and>
   (case StringPiece_remove_prefix p n of
      Inl e \<Rightarrow> e = Out_of_range \<and> unat n > length (chars m p)
    | Inr q \<Rightarrow> unat n \<le> length (chars m p) \<and> chars m q = drop (unat n) (chars m p)) \<and>
   (case StringPiece_remove_suffix p n of
      Inl e \<Rightarrow> e = Out_of_range \<and> unat n > length (chars m p)
    | Inr q \<Rightarrow> unat n \<le> length (chars m p) \<and>
        chars m q = take (length (chars m p) - unat n) (chars m p))"
proof (intro conjI)
  have cut: "chars m \<lparr>mStr = mStr p + unat a, mLength = l\<rparr> = take (unat l) (drop (unat a) (chars m p))"
    if "unat a + unat l \<le> unat (mLength p)" for a l :: u64
    using that by (intro nth_equalityI) (auto simp: chars_def add.assoc)
  have whole: "take (unat npos) (drop (unat pos) (chars m p)) = drop (unat pos) (chars m p)"
    using unat_u64_less [of "mLength p"] by (simp add: npos_def unat_minus_1)
  show "case StringPiece_substr p pos len of
      Inl e \<Rightarrow> e = Out_of_range \<and> unat pos > length (chars m p)
    | Inr q \<Rightarrow> unat pos \<le> length (chars m p) \<and>
        chars m q = take (unat len) (drop (unat pos) (chars m p))"
    using cut [of pos "mLength p - pos"] cut [of pos "min (mLength p - pos) len"] whole
    by (auto simp: StringPiece_substr_def StringPiece_len_def stone_defs Let_def word_less_nat_alt
        word_le_nat_alt unat_sub min_def)
  show "case StringPiece_remove_prefix p n of
      Inl e \<Rightarrow> e = Out_of_range \<and> unat n > length (chars m p)
    | Inr q \<Rightarrow> unat n \<le> length (chars m p) \<and> chars m q = drop (unat n) (chars m p)"
    by (auto simp: StringPiece_remove_prefix_def word_less_nat_alt chars_def word_le_nat_alt unat_sub
        drop_map add.assoc intro!: nth_equalityI)
  show "case StringPiece_remove_suffix p n of
      Inl e \<Rightarrow> e = Out_of_range \<and> unat n > length (chars m p)
    | Inr q \<Rightarrow> unat n \<le> length (chars m p) \<and>
        chars m q = take (length (chars m p) - unat n) (chars m p)"
    by (auto simp: StringPiece_remove_suffix_def word_less_nat_alt chars_def word_le_nat_alt unat_sub
        take_map intro!: nth_equalityI)
qed

lemma chars_Suc:
  "map (\<lambda>i. m (p + i)) [0..<Suc n] = m p # map (\<lambda>i. m (Suc p + i)) [0..<n]"
  by (simp add: upt_conv_Cons map_Suc_upt [symmetric] del: upt_Suc)

definition list_order :: "u8 list \<Rightarrow> u8 list \<Rightarrow> int" where
  "list_order xs ys = (if xs < ys then - 1 else if xs = ys then 0 else 1)"

lemma traits_compare_order:
  "(let r = traits_compare m p q (min a b) in if r = 0 then sgn (int a - int b) else r) =
   list_order (map (\<lambda>i. m (p + i)) [0..<a]) (map (\<lambda>i. m (q + i)) [0..<b])"
proof (induction a arbitrary: p q b)
  case 0
  then show ?case by (cases b) (simp_all add: list_order_def upt_conv_Cons del: upt_Suc)
next
  case (Suc a)
  show ?case
  proof (cases b)
    case 0
    then show ?thesis by (simp add: list_order_def upt_conv_Cons del: upt_Suc)
  next
    case (Suc b')
    show ?thesis
    proof (cases "m p = m q")
      case True
      then show ?thesis
        using Suc.IH [of "Suc p" "Suc q" b'] unfolding \<open>b = Suc b'\<close> chars_Suc
        by (simp add: Let_def list_order_def split: if_splits)
    next
      case False
      then show ?thesis
        unfolding \<open>b = Suc b'\<close> chars_Suc by (auto simp: Let_def list_order_def)
    qed
  qed
qed

lemma size_difference_as_int:
  fixes x y :: u64
  assumes "unat x < 2 ^ 31" and "unat y < 2 ^ 31"
  shows "sint (ucast (x - y) :: u32) = int (unat x) - int (unat y)"
proof -
  have p31: "(2::int) ^ 31 = 2147483648" by simp
  have u: "uint (x - y) = take_bit 64 (uint x - uint y)"
    by (simp add: uint_word_ariths take_bit_eq_mod)
  have "ucast (x - y) = (word_of_int (uint x - uint y) :: u32)"
    unfolding ucast_eq u word_of_int_eq_iff by simp
  then have "sint (ucast (x - y) :: u32) = signed_take_bit 31 (uint x - uint y)"
    by (simp only: sint_sbintrunc') simp
  also have "\<dots> = int (unat x) - int (unat y)"
  proof -
    have "int (unat x) < 2147483648" "int (unat y) < 2147483648"
      using assms by (simp_all only: of_nat_less_numeral_iff) simp_all
    then have b: "- 2147483648 \<le> int (unat x) - int (unat y)"
        "int (unat x) - int (unat y) < 2147483648"
      using of_nat_0_le_iff [of "unat x", where 'a = int] of_nat_0_le_iff [of "unat y", where 'a = int]
      by linarith+
    have "signed_take_bit 31 (int (unat x) - int (unat y)) = int (unat x) - int (unat y)"
      by (rule signed_take_bit_int_eq_self) (unfold p31, rule b, rule b)
    then show ?thesis by simp
  qed
  finally show ?thesis .
qed

text \<open>
  C35. \<open>compare\<close> orders pieces shorter than \<open>2^31\<close> characters lexicographically by unsigned bytes: the
  sign of its result is the order of the two character sequences, and \<open>operator==\<close> holds exactly when
  the sequences are equal.
\<close>

theorem compare_is_lexicographic:
  assumes "unat (mLength p) < 2 ^ 31" and "unat (mLength q) < 2 ^ 31"
  shows "sgn (StringPiece_compare m p q) = list_order (chars m p) (chars m q) \<and>
    (StringPiece_equal_piece m (p = q) p q \<longleftrightarrow> chars m p = chars m q)"
proof -
  let ?r = "traits_compare m (mStr p) (mStr q) (min (unat (mLength p)) (unat (mLength q)))"
  have mn: "unat (min (mLength p) (mLength q)) = min (unat (mLength p)) (unat (mLength q))"
    by (simp add: min_def word_le_nat_alt)
  have c: "StringPiece_compare m p q =
      (if ?r = 0 then int (unat (mLength p)) - int (unat (mLength q)) else ?r)"
    unfolding StringPiece_compare_def Let_def StringPiece_size_def StringPiece_data_def mn
      size_difference_as_int [OF assms] ..
  have "sgn (traits_compare m a b k) = traits_compare m a b k" for a b k
    by (induction k arbitrary: a b) auto
  then have s: "sgn (StringPiece_compare m p q) = list_order (chars m p) (chars m q)"
    using traits_compare_order [of m "mStr p" "mStr q" "unat (mLength p)" "unat (mLength q)"]
    by (simp add: c chars_def Let_def split: if_splits)
  moreover have "StringPiece_compare m p q = 0 \<longleftrightarrow> chars m p = chars m q"
    using s by (auto simp: list_order_def sgn_0_0 split: if_splits)
  ultimately show ?thesis by (auto simp: StringPiece_equal_piece_def)
qed

theorem compare_is_lexicographic_witness:
  "sgn (StringPiece_compare (mem_of 8 [1, 2, 3]) (StringPiece_len 8 2) (StringPiece_len 8 3)) = - 1"
  using compare_is_lexicographic [of "StringPiece_len 8 2" "StringPiece_len 8 3" "mem_of 8 [1, 2, 3]"]
  by (simp add: StringPiece_len_def list_order_def chars_def mem_of_def upt_rec)

text \<open>
  The length difference is a \<open>size_t\<close> that \<open>compare\<close> stores in an \<open>int\<close>: two pieces that agree on
  their common prefix and whose lengths differ by a multiple of \<open>2^32\<close> compare as equal, so \<open>operator==\<close>
  accepts different strings.
\<close>

theorem compare_length_difference_wraps:
  assumes "\<forall>i < min (unat (mLength p)) (unat (mLength q)). m (mStr p + i) = m (mStr q + i)"
    and "mLength p - mLength q = 2 ^ 32" and "unat (mLength q) < unat (mLength p)"
  shows "StringPiece_compare m p q = 0 \<and> StringPiece_equal_piece m False p q \<and> chars m p \<noteq> chars m q"
proof -
  have mn: "unat (min (mLength p) (mLength q)) = min (unat (mLength p)) (unat (mLength q))"
    by (simp add: min_def word_le_nat_alt)
  have "StringPiece_compare m p q = 0"
    using assms(1,2) by (simp add: StringPiece_compare_def Let_def stone_defs mn traits_compare_0)
  moreover have "length (chars m p) \<noteq> length (chars m q)" using assms(3) by simp
  then have "chars m p \<noteq> chars m q" by metis
  ultimately show ?thesis by (auto simp: StringPiece_equal_piece_def)
qed

theorem compare_length_difference_wraps_witness:
  "StringPiece_compare (\<lambda>_. 0) (StringPiece_len 8 0x100000003) (StringPiece_len 8 3) = 0"
  using compare_length_difference_wraps [of "StringPiece_len 8 0x100000003" "StringPiece_len 8 3" "\<lambda>_. 0"]
  by (simp add: StringPiece_len_def)

text \<open>
  The \<open>const char*\<close> overload of \<open>find_last_not_of\<close> never returns, whatever the piece, the string and
  the position: it calls itself with its own arguments.
\<close>

theorem find_last_not_of_cstr_never_returns:
  "StringPiece_find_last_not_of_cstr m this s pos = None"
proof -
  have "False" if "StringPiece_find_last_not_of_cstr m this s pos = Some r" for r
    by (rule StringPiece_find_last_not_of_cstr.raw_induct [where P = "\<lambda>_ _ _ _ _. False", OF _ that])
       (auto simp: bind_eq_Some_conv)
  then show ?thesis by (metis not_None_eq)
qed

end
