(* ===== verification/Stone_Closure_Classes.thy ===== *)
theory Stone_Closure_Classes
  imports Stone_Prelude
begin

text \<open>
  \<^verbatim>\<open>base/closure.h\<close>: the objects of the class templates \<open>MethodClosure_i_j\<close> and \<open>FunctionClosure_i_j\<close>
  (\<open>i\<close> bound arguments, \<open>j\<close> arguments left free, \<open>i + j \<le> 7\<close>). An object carries its dynamic class, which
  is what its virtual functions are looked up by, the template argument \<open>del\<close> of its instantiation,
  and its members \<open>mObj\<close>, \<open>mFunc\<close> and \<open>mA1 \<dots> mAi\<close> (the list \<open>mA\<close>). Argument and result types are one
  type \<open>'v\<close> of values; a pointer to a function or to a member function is its address. A function closure
  has no \<open>mObj\<close>: that member is 0 in its objects.

  Per class there are its constructor (named like the class), its destructor and \<open>IsAutoDelete\<close>; the
  two tables at the end are the virtual dispatch of these two functions.
\<close>

section \<open>Closure objects\<close>

type_synonym fn = nat

datatype closure_kind = Method | Function

type_synonym closure_class = "closure_kind \<times> nat \<times> nat"

record 'v closure_obj =
  dyn_class :: closure_class
  tmpl_del :: bool
  mObj :: addr
  mFunc :: fn
  mA :: "'v list"

named_theorems closure_ctors \<open>the constructors of the closure classes\<close>
named_theorems closure_dtors \<open>the destructors of the closure classes and IsAutoDelete\<close>

section \<open>The method closures\<close>

definition MethodClosure_0_0 :: "bool \<Rightarrow> addr \<Rightarrow> fn \<Rightarrow> 'v closure_obj" where
  [closure_ctors]: "MethodClosure_0_0 del obj func =
     \<lparr>dyn_class = (Method, 0, 0), tmpl_del = del, mObj = obj, mFunc = func, mA = []\<rparr>"

definition MethodClosure_0_0_dtor :: "'v closure_obj \<Rightarrow> 'v closure_obj" where
  [closure_dtors]: "MethodClosure_0_0_dtor this = this\<lparr>mObj := 0, mFunc := 0\<rparr>"

definition MethodClosure_0_0_IsAutoDelete :: "'v closure_obj \<Rightarrow> bool" where
  [closure_dtors]: "MethodClosure_0_0_IsAutoDelete this = tmpl_del this"

definition MethodClosure_0_1 :: "bool \<Rightarrow> addr \<Rightarrow> fn \<Rightarrow> 'v closure_obj" where
  [closure_ctors]: "MethodClosure_0_1 del obj func =
     \<lparr>dyn_class = (Method, 0, 1), tmpl_del = del, mObj = obj, mFunc = func, mA = []\<rparr>"

definition MethodClosure_0_1_dtor :: "'v closure_obj \<Rightarrow> 'v closure_obj" where
  [closure_dtors]: "MethodClosure_0_1_dtor this = this\<lparr>mObj := 0, mFunc := 0\<rparr>"

definition MethodClosure_0_1_IsAutoDelete :: "'v closure_obj \<Rightarrow> bool" where
  [closure_dtors]: "MethodClosure_0_1_IsAutoDelete this = tmpl_del this"

definition MethodClosure_1_0 :: "bool \<Rightarrow> addr \<Rightarrow> fn \<Rightarrow> 'v \<Rightarrow> 'v closure_obj" where
  [closure_ctors]: "MethodClosure_1_0 del obj func a1 =
     \<lparr>dyn_class = (Method, 1, 0), tmpl_del = del, mObj = obj, mFunc = func, mA = [a1]\<rparr>"

definition MethodClosure_1_0_dtor :: "'v closure_obj \<Rightarrow> 'v closure_obj" where
  [closure_dtors]: "MethodClosure_1_0_dtor this = this\<lparr>mObj := 0, mFunc := 0\<rparr>"

definition MethodClosure_1_0_IsAutoDelete :: "'v closure_obj \<Rightarrow> bool" where
  [closure_dtors]: "MethodClosure_1_0_IsAutoDelete this = tmpl_del this"

definition MethodClosure_0_2 :: "bool \<Rightarrow> addr \<Rightarrow> fn \<Rightarrow> 'v closure_obj" where
  [closure_ctors]: "MethodClosure_0_2 del obj func =
     \<lparr>dyn_class = (Method, 0, 2), tmpl_del = del, mObj = obj, mFunc = func, mA = []\<rparr>"

definition MethodClosure_0_2_dtor :: "'v closure_obj \<Rightarrow> 'v closure_obj" where
  [closure_dtors]: "MethodClosure_0_2_dtor this = this\<lparr>mObj := 0, mFunc := 0\<rparr>"

definition MethodClosure_0_2_IsAutoDelete :: "'v closure_obj \<Rightarrow> bool" where
  [closure_dtors]: "MethodClosure_0_2_IsAutoDelete this = tmpl_del this"

definition MethodClosure_1_1 :: "bool \<Rightarrow> addr \<Rightarrow> fn \<Rightarrow> 'v \<Rightarrow> 'v closure_obj" where
  [closure_ctors]: "MethodClosure_1_1 del obj func a1 =
     \<lparr>dyn_class = (Method, 1, 1), tmpl_del = del, mObj = obj, mFunc = func, mA = [a1]\<rparr>"

definition MethodClosure_1_1_dtor :: "'v closure_obj \<Rightarrow> 'v closure_obj" where
  [closure_dtors]: "MethodClosure_1_1_dtor this = this\<lparr>mObj := 0, mFunc := 0\<rparr>"

definition MethodClosure_1_1_IsAutoDelete :: "'v closure_obj \<Rightarrow> bool" where
  [closure_dtors]: "MethodClosure_1_1_IsAutoDelete this = tmpl_del this"

definition MethodClosure_2_0 :: "bool \<Rightarrow> addr \<Rightarrow> fn \<Rightarrow> 'v \<Rightarrow> 'v \<Rightarrow> 'v closure_obj" where
  [closure_ctors]: "MethodClosure_2_0 del obj func a1 a2 =
     \<lparr>dyn_class = (Method, 2, 0), tmpl_del = del, mObj = obj, mFunc = func, mA = [a1, a2]\<rparr>"

definition MethodClosure_2_0_dtor :: "'v closure_obj \<Rightarrow> 'v closure_obj" where
  [closure_dtors]: "MethodClosure_2_0_dtor this = this\<lparr>mObj := 0, mFunc := 0\<rparr>"

definition MethodClosure_2_0_IsAutoDelete :: "'v closure_obj \<Rightarrow> bool" where
  [closure_dtors]: "MethodClosure_2_0_IsAutoDelete this = tmpl_del this"

definition MethodClosure_0_3 :: "bool \<Rightarrow> addr \<Rightarrow> fn \<Rightarrow> 'v closure_obj" where
  [closure_ctors]: "MethodClosure_0_3 del obj func =
     \<lparr>dyn_class = (Method, 0, 3), tmpl_del = del, mObj = obj, mFunc = func, mA = []\<rparr>"

definition MethodClosure_0_3_dtor :: "'v closure_obj \<Rightarrow> 'v closure_obj" where
  [closure_dtors]: "MethodClosure_0_3_dtor this = this\<lparr>mObj := 0, mFunc := 0\<rparr>"

definition MethodClosure_0_3_IsAutoDelete :: "'v closure_obj \<Rightarrow> bool" where
  [closure_dtors]: "MethodClosure_0_3_IsAutoDelete this = tmpl_del this"

definition MethodClosure_1_2 :: "bool \<Rightarrow> addr \<Rightarrow> fn \<Rightarrow> 'v \<Rightarrow> 'v closure_obj" where
  [closure_ctors]: "MethodClosure_1_2 del obj func a1 =
     \<lparr>dyn_class = (Method, 1, 2), tmpl_del = del, mObj = obj, mFunc = func, mA = [a1]\<rparr>"

definition MethodClosure_1_2_dtor :: "'v closure_obj \<Rightarrow> 'v closure_obj" where
  [closure_dtors]: "MethodClosure_1_2_dtor this = this\<lparr>mObj := 0, mFunc := 0\<rparr>"

definition MethodClosure_1_2_IsAutoDelete :: "'v closure_obj \<Rightarrow> bool" where
  [closure_dtors]: "MethodClosure_1_2_IsAutoDelete this = tmpl_del this"

definition MethodClosure_2_1 :: "bool \<Rightarrow> addr \<Rightarrow> fn \<Rightarrow> 'v \<Rightarrow> 'v \<Rightarrow> 'v closure_obj" where
  [closure_ctors]: "MethodClosure_2_1 del obj func a1 a2 =
     \<lparr>dyn_class = (Method, 2, 1), tmpl_del = del, mObj = obj, mFunc = func, mA = [a1, a2]\<rparr>"

definition MethodClosure_2_1_dtor :: "'v closure_obj \<Rightarrow> 'v closure_obj" where
  [closure_dtors]: "MethodClosure_2_1_dtor this = this\<lparr>mObj := 0, mFunc := 0\<rparr>"

definition MethodClosure_2_1_IsAutoDelete :: "'v closure_obj \<Rightarrow> bool" where
  [closure_dtors]: "MethodClosure_2_1_IsAutoDelete this = tmpl_del this"

definition MethodClosure_3_0 :: "bool \<Rightarrow> addr \<Rightarrow> fn \<Rightarrow> 'v \<Rightarrow> 'v \<Rightarrow> 'v \<Rightarrow> 'v closure_obj" where
  [closure_ctors]: "MethodClosure_3_0 del obj func a1 a2 a3 =
     \<lparr>dyn_class = (Method, 3, 0), tmpl_del = del, mObj = obj, mFunc = func, mA = [a1, a2, a3]\<rparr>"

definition MethodClosure_3_0_dtor :: "'v closure_obj \<Rightarrow> 'v closure_obj" where
  [closure_dtors]: "MethodClosure_3_0_dtor this = this\<lparr>mObj := 0, mFunc := 0\<rparr>"

definition MethodClosure_3_0_IsAutoDelete :: "'v closure_obj \<Rightarrow> bool" where
  [closure_dtors]: "MethodClosure_3_0_IsAutoDelete this = tmpl_del this"

definition MethodClosure_0_4 :: "bool \<Rightarrow> addr \<Rightarrow> fn \<Rightarrow> 'v closure_obj" where
  [closure_ctors]: "MethodClosure_0_4 del obj func =
     \<lparr>dyn_class = (Method, 0, 4), tmpl_del = del, mObj = obj, mFunc = func, mA = []\<rparr>"

definition MethodClosure_0_4_dtor :: "'v closure_obj \<Rightarrow> 'v closure_obj" where
  [closure_dtors]: "MethodClosure_0_4_dtor this = this\<lparr>mObj := 0, mFunc := 0\<rparr>"

definition MethodClosure_0_4_IsAutoDelete :: "'v closure_obj \<Rightarrow> bool" where
  [closure_dtors]: "MethodClosure_0_4_IsAutoDelete this = tmpl_del this"

definition MethodClosure_1_3 :: "bool \<Rightarrow> addr \<Rightarrow> fn \<Rightarrow> 'v \<Rightarrow> 'v closure_obj" where
  [closure_ctors]: "MethodClosure_1_3 del obj func a1 =
     \<lparr>dyn_class = (Method, 1, 3), tmpl_del = del, mObj = obj, mFunc = func, mA = [a1]\<rparr>"

definition MethodClosure_1_3_dtor :: "'v closure_obj \<Rightarrow> 'v closure_obj" where
  [closure_dtors]: "MethodClosure_1_3_dtor this = this\<lparr>mObj := 0, mFunc := 0\<rparr>"

definition MethodClosure_1_3_IsAutoDelete :: "'v closure_obj \<Rightarrow> bool" where
  [closure_dtors]: "MethodClosure_1_3_IsAutoDelete this = tmpl_del this"

definition MethodClosure_2_2 :: "bool \<Rightarrow> addr \<Rightarrow> fn \<Rightarrow> 'v \<Rightarrow> 'v \<Rightarrow> 'v closure_obj" where
  [closure_ctors]: "MethodClosure_2_2 del obj func a1 a2 =
     \<lparr>dyn_class = (Method, 2, 2), tmpl_del = del, mObj = obj, mFunc = func, mA = [a1, a2]\<rparr>"

definition MethodClosure_2_2_dtor :: "'v closure_obj \<Rightarrow> 'v closure_obj" where
  [closure_dtors]: "MethodClosure_2_2_dtor this = this\<lparr>mObj := 0, mFunc := 0\<rparr>"

definition MethodClosure_2_2_IsAutoDelete :: "'v closure_obj \<Rightarrow> bool" where
  [closure_dtors]: "MethodClosure_2_2_IsAutoDelete this = tmpl_del this"

definition MethodClosure_3_1 :: "bool \<Rightarrow> addr \<Rightarrow> fn \<Rightarrow> 'v \<Rightarrow> 'v \<Rightarrow> 'v \<Rightarrow> 'v closure_obj" where
  [closure_ctors]: "MethodClosure_3_1 del obj func a1 a2 a3 =
     \<lparr>dyn_class = (Method, 3, 1), tmpl_del = del, mObj = obj, mFunc = func, mA = [a1, a2, a3]\<rparr>"

definition MethodClosure_3_1_dtor :: "'v closure_obj \<Rightarrow> 'v closure_obj" where
  [closure_dtors]: "MethodClosure_3_1_dtor this = this\<lparr>mObj := 0, mFunc := 0\<rparr>"

definition MethodClosure_3_1_IsAutoDelete :: "'v closure_obj \<Rightarrow> bool" where
  [closure_dtors]: "MethodClosure_3_1_IsAutoDelete this = tmpl_del this"

definition MethodClosure_4_0 :: "bool \<Rightarrow> addr \<Rightarrow> fn \<Rightarrow> 'v \<Rightarrow> 'v \<Rightarrow> 'v \<Rightarrow> 'v \<Rightarrow> 'v closure_obj" where
  [closure_ctors]: "MethodClosure_4_0 del obj func a1 a2 a3 a4 =
     \<lparr>dyn_class = (Method, 4, 0), tmpl_del = del, mObj = obj, mFunc = func, mA = [a1, a2, a3, a4]\<rparr>"

definition MethodClosure_4_0_dtor :: "'v closure_obj \<Rightarrow> 'v closure_obj" where
  [closure_dtors]: "MethodClosure_4_0_dtor this = this\<lparr>mObj := 0, mFunc := 0\<rparr>"

definition MethodClosure_4_0_IsAutoDelete :: "'v closure_obj \<Rightarrow> bool" where
  [closure_dtors]: "MethodClosure_4_0_IsAutoDelete this = tmpl_del this"

definition MethodClosure_0_5 :: "bool \<Rightarrow> addr \<Rightarrow> fn \<Rightarrow> 'v closure_obj" where
  [closure_ctors]: "MethodClosure_0_5 del obj func =
     \<lparr>dyn_class = (Method, 0, 5), tmpl_del = del, mObj = obj, mFunc = func, mA = []\<rparr>"

definition MethodClosure_0_5_dtor :: "'v closure_obj \<Rightarrow> 'v closure_obj" where
  [closure_dtors]: "MethodClosure_0_5_dtor this = this\<lparr>mObj := 0, mFunc := 0\<rparr>"

definition MethodClosure_0_5_IsAutoDelete :: "'v closure_obj \<Rightarrow> bool" where
  [closure_dtors]: "MethodClosure_0_5_IsAutoDelete this = tmpl_del this"

definition MethodClosure_1_4 :: "bool \<Rightarrow> addr \<Rightarrow> fn \<Rightarrow> 'v \<Rightarrow> 'v closure_obj" where
  [closure_ctors]: "MethodClosure_1_4 del obj func a1 =
     \<lparr>dyn_class = (Method, 1, 4), tmpl_del = del, mObj = obj, mFunc = func, mA = [a1]\<rparr>"

definition MethodClosure_1_4_dtor :: "'v closure_obj \<Rightarrow> 'v closure_obj" where
  [closure_dtors]: "MethodClosure_1_4_dtor this = this\<lparr>mObj := 0, mFunc := 0\<rparr>"

definition MethodClosure_1_4_IsAutoDelete :: "'v closure_obj \<Rightarrow> bool" where
  [closure_dtors]: "MethodClosure_1_4_IsAutoDelete this = tmpl_del this"

definition MethodClosure_2_3 :: "bool \<Rightarrow> addr \<Rightarrow> fn \<Rightarrow> 'v \<Rightarrow> 'v \<Rightarrow> 'v closure_obj" where
  [closure_ctors]: "MethodClosure_2_3 del obj func a1 a2 =
     \<lparr>dyn_class = (Method, 2, 3), tmpl_del = del, mObj = obj, mFunc = func, mA = [a1, a2]\<rparr>"

definition MethodClosure_2_3_dtor :: "'v closure_obj \<Rightarrow> 'v closure_obj" where
  [closure_dtors]: "MethodClosure_2_3_dtor this = this\<lparr>mObj := 0, mFunc := 0\<rparr>"

definition MethodClosure_2_3_IsAutoDelete :: "'v closure_obj \<Rightarrow> bool" where
  [closure_dtors]: "MethodClosure_2_3_IsAutoDelete this = tmpl_del this"

definition MethodClosure_3_2 :: "bool \<Rightarrow> addr \<Rightarrow> fn \<Rightarrow> 'v \<Rightarrow> 'v \<Rightarrow> 'v \<Rightarrow> 'v closure_obj" where
  [closure_ctors]: "MethodClosure_3_2 del obj func a1 a2 a3 =
     \<lparr>dyn_class = (Method, 3, 2), tmpl_del = del, mObj = obj, mFunc = func, mA = [a1, a2, a3]\<rparr>"

definition MethodClosure_3_2_dtor :: "'v closure_obj \<Rightarrow> 'v closure_obj" where
  [closure_dtors]: "MethodClosure_3_2_dtor this = this\<lparr>mObj := 0, mFunc := 0\<rparr>"

definition MethodClosure_3_2_IsAutoDelete :: "'v closure_obj \<Rightarrow> bool" where
  [closure_dtors]: "MethodClosure_3_2_IsAutoDelete this = tmpl_del this"

definition MethodClosure_4_1 :: "bool \<Rightarrow> addr \<Rightarrow> fn \<Rightarrow> 'v \<Rightarrow> 'v \<Rightarrow> 'v \<Rightarrow> 'v \<Rightarrow> 'v closure_obj" where
  [closure_ctors]: "MethodClosure_4_1 del obj func a1 a2 a3 a4 =
     \<lparr>dyn_class = (Method, 4, 1), tmpl_del = del, mObj = obj, mFunc = func, mA = [a1, a2, a3, a4]\<rparr>"

definition MethodClosure_4_1_dtor :: "'v closure_obj \<Rightarrow> 'v closure_obj" where
  [closure_dtors]: "MethodClosure_4_1_dtor this = this\<lparr>mObj := 0, mFunc := 0\<rparr>"

definition MethodClosure_4_1_IsAutoDelete :: "'v closure_obj \<Rightarrow> bool" where
  [closure_dtors]: "MethodClosure_4_1_IsAutoDelete this = tmpl_del this"

definition MethodClosure_5_0 :: "bool \<Rightarrow> addr \<Rightarrow> fn \<Rightarrow> 'v \<Rightarrow> 'v \<Rightarrow> 'v \<Rightarrow> 'v \<Rightarrow> 'v \<Rightarrow> 'v closure_obj" where
  [closure_ctors]: "MethodClosure_5_0 del obj func a1 a2 a3 a4 a5 =
     \<lparr>dyn_class = (Method, 5, 0), tmpl_del = del, mObj = obj, mFunc = func, mA = [a1, a2, a3, a4, a5]\<rparr>"

definition MethodClosure_5_0_dtor :: "'v closure_obj \<Rightarrow> 'v closure_obj" where
  [closure_dtors]: "MethodClosure_5_0_dtor this = this\<lparr>mObj := 0, mFunc := 0\<rparr>"

definition MethodClosure_5_0_IsAutoDelete :: "'v closure_obj \<Rightarrow> bool" where
  [closure_dtors]: "MethodClosure_5_0_IsAutoDelete this = tmpl_del this"

definition MethodClosure_0_6 :: "bool \<Rightarrow> addr \<Rightarrow> fn \<Rightarrow> 'v closure_obj" where
  [closure_ctors]: "MethodClosure_0_6 del obj func =
     \<lparr>dyn_class = (Method, 0, 6), tmpl_del = del, mObj = obj, mFunc = func, mA = []\<rparr>"

definition MethodClosure_0_6_dtor :: "'v closure_obj \<Rightarrow> 'v closure_obj" where
  [closure_dtors]: "MethodClosure_0_6_dtor this = this\<lparr>mObj := 0, mFunc := 0\<rparr>"

definition MethodClosure_0_6_IsAutoDelete :: "'v closure_obj \<Rightarrow> bool" where
  [closure_dtors]: "MethodClosure_0_6_IsAutoDelete this = tmpl_del this"

definition MethodClosure_1_5 :: "bool \<Rightarrow> addr \<Rightarrow> fn \<Rightarrow> 'v \<Rightarrow> 'v closure_obj" where
  [closure_ctors]: "MethodClosure_1_5 del obj func a1 =
     \<lparr>dyn_class = (Method, 1, 5), tmpl_del = del, mObj = obj, mFunc = func, mA = [a1]\<rparr>"

definition MethodClosure_1_5_dtor :: "'v closure_obj \<Rightarrow> 'v closure_obj" where
  [closure_dtors]: "MethodClosure_1_5_dtor this = this\<lparr>mObj := 0, mFunc := 0\<rparr>"

definition MethodClosure_1_5_IsAutoDelete :: "'v closure_obj \<Rightarrow> bool" where
  [closure_dtors]: "MethodClosure_1_5_IsAutoDelete this = tmpl_del this"

definition MethodClosure_2_4 :: "bool \<Rightarrow> addr \<Rightarrow> fn \<Rightarrow> 'v \<Rightarrow> 'v \<Rightarrow> 'v closure_obj" where
  [closure_ctors]: "MethodClosure_2_4 del obj func a1 a2 =
     \<lparr>dyn_class = (Method, 2, 4), tmpl_del = del, mObj = obj, mFunc = func, mA = [a1, a2]\<rparr>"

definition MethodClosure_2_4_dtor :: "'v closure_obj \<Rightarrow> 'v closure_obj" where
  [closure_dtors]: "MethodClosure_2_4_dtor this = this\<lparr>mObj := 0, mFunc := 0\<rparr>"

definition MethodClosure_2_4_IsAutoDelete :: "'v closure_obj \<Rightarrow> bool" where
  [closure_dtors]: "MethodClosure_2_4_IsAutoDelete this = tmpl_del this"

definition MethodClosure_3_3 :: "bool \<Rightarrow> addr \<Rightarrow> fn \<Rightarrow> 'v \<Rightarrow> 'v \<Rightarrow> 'v \<Rightarrow> 'v closure_obj" where
  [closure_ctors]: "MethodClosure_3_3 del obj func a1 a2 a3 =
     \<lparr>dyn_class = (Method, 3, 3), tmpl_del = del, mObj = obj, mFunc = func, mA = [a1, a2, a3]\<rparr>"

definition MethodClosure_3_3_dtor :: "'v closure_obj \<Rightarrow> 'v closure_obj" where
  [closure_dtors]: "MethodClosure_3_3_dtor this = this\<lparr>mObj := 0, mFunc := 0\<rparr>"

definition MethodClosure_3_3_IsAutoDelete :: "'v closure_obj \<Rightarrow> bool" where
  [closure_dtors]: "MethodClosure_3_3_IsAutoDelete this = tmpl_del this"

definition MethodClosure_4_2 :: "bool \<Rightarrow> addr \<Rightarrow> fn \<Rightarrow> 'v \<Rightarrow> 'v \<Rightarrow> 'v \<Rightarrow> 'v \<Rightarrow> 'v closure_obj" where
  [closure_ctors]: "MethodClosure_4_2 del obj func a1 a2 a3 a4 =
     \<lparr>dyn_class = (Method, 4, 2), tmpl_del = del, mObj = obj, mFunc = func, mA = [a1, a2, a3, a4]\<rparr>"

definition MethodClosure_4_2_dtor :: "'v closure_obj \<Rightarrow> 'v closure_obj" where
  [closure_dtors]: "MethodClosure_4_2_dtor this = this\<lparr>mObj := 0, mFunc := 0\<rparr>"

definition MethodClosure_4_2_IsAutoDelete :: "'v closure_obj \<Rightarrow> bool" where
  [closure_dtors]: "MethodClosure_4_2_IsAutoDelete this = tmpl_del this"

definition MethodClosure_5_1 :: "bool \<Rightarrow> addr \<Rightarrow> fn \<Rightarrow> 'v \<Rightarrow> 'v \<Rightarrow> 'v \<Rightarrow> 'v \<Rightarrow> 'v \<Rightarrow> 'v closure_obj" where
  [closure_ctors]: "MethodClosure_5_1 del obj func a1 a2 a3 a4 a5 =
     \<lparr>dyn_class = (Method, 5, 1), tmpl_del = del, mObj = obj, mFunc = func, mA = [a1, a2, a3, a4, a5]\<rparr>"

definition MethodClosure_5_1_dtor :: "'v closure_obj \<Rightarrow> 'v closure_obj" where
  [closure_dtors]: "MethodClosure_5_1_dtor this = this\<lparr>mObj := 0, mFunc := 0\<rparr>"

definition MethodClosure_5_1_IsAutoDelete :: "'v closure_obj \<Rightarrow> bool" where
  [closure_dtors]: "MethodClosure_5_1_IsAutoDelete this = tmpl_del this"

definition MethodClosure_6_0 :: "bool \<Rightarrow> addr \<Rightarrow> fn \<Rightarrow> 'v \<Rightarrow> 'v \<Rightarrow> 'v \<Rightarrow> 'v \<Rightarrow> 'v \<Rightarrow> 'v \<Rightarrow> 'v closure_obj" where
  [closure_ctors]: "MethodClosure_6_0 del obj func a1 a2 a3 a4 a5 a6 =
     \<lparr>dyn_class = (Method, 6, 0), tmpl_del = del, mObj = obj, mFunc = func, mA = [a1, a2, a3, a4, a5, a6]\<rparr>"

definition MethodClosure_6_0_dtor :: "'v closure_obj \<Rightarrow> 'v closure_obj" where
  [closure_dtors]: "MethodClosure_6_0_dtor this = this\<lparr>mObj := 0, mFunc := 0\<rparr>"

definition MethodClosure_6_0_IsAutoDelete :: "'v closure_obj \<Rightarrow> bool" where
  [closure_dtors]: "MethodClosure_6_0_IsAutoDelete this = tmpl_del this"

definition MethodClosure_0_7 :: "bool \<Rightarrow> addr \<Rightarrow> fn \<Rightarrow> 'v closure_obj" where
  [closure_ctors]: "MethodClosure_0_7 del obj func =
     \<lparr>dyn_class = (Method, 0, 7), tmpl_del = del, mObj = obj, mFunc = func, mA = []\<rparr>"

definition MethodClosure_0_7_dtor :: "'v closure_obj \<Rightarrow> 'v closure_obj" where
  [closure_dtors]: "MethodClosure_0_7_dtor this = this\<lparr>mObj := 0, mFunc := 0\<rparr>"

definition MethodClosure_0_7_IsAutoDelete :: "'v closure_obj \<Rightarrow> bool" where
  [closure_dtors]: "MethodClosure_0_7_IsAutoDelete this = tmpl_del this"

definition MethodClosure_1_6 :: "bool \<Rightarrow> addr \<Rightarrow> fn \<Rightarrow> 'v \<Rightarrow> 'v closure_obj" where
  [closure_ctors]: "MethodClosure_1_6 del obj func a1 =
     \<lparr>dyn_class = (Method, 1, 6), tmpl_del = del, mObj = obj, mFunc = func, mA = [a1]\<rparr>"

definition MethodClosure_1_6_dtor :: "'v closure_obj \<Rightarrow> 'v closure_obj" where
  [closure_dtors]: "MethodClosure_1_6_dtor this = this\<lparr>mObj := 0, mFunc := 0\<rparr>"

definition MethodClosure_1_6_IsAutoDelete :: "'v closure_obj \<Rightarrow> bool" where
  [closure_dtors]: "MethodClosure_1_6_IsAutoDelete this = tmpl_del this"

definition MethodClosure_2_5 :: "bool \<Rightarrow> addr \<Rightarrow> fn \<Rightarrow> 'v \<Rightarrow> 'v \<Rightarrow> 'v closure_obj" where
  [closure_ctors]: "MethodClosure_2_5 del obj func a1 a2 =
     \<lparr>dyn_class = (Method, 2, 5), tmpl_del = del, mObj = obj, mFunc = func, mA = [a1, a2]\<rparr>"

definition MethodClosure_2_5_dtor :: "'v closure_obj \<Rightarrow> 'v closure_obj" where
  [closure_dtors]: "MethodClosure_2_5_dtor this = this\<lparr>mObj := 0, mFunc := 0\<rparr>"

definition MethodClosure_2_5_IsAutoDelete :: "'v closure_obj \<Rightarrow> bool" where
  [closure_dtors]: "MethodClosure_2_5_IsAutoDelete this = tmpl_del this"

definition MethodClosure_3_4 :: "bool \<Rightarrow> addr \<Rightarrow> fn \<Rightarrow> 'v \<Rightarrow> 'v \<Rightarrow> 'v \<Rightarrow> 'v closure_obj" where
  [closure_ctors]: "MethodClosure_3_4 del obj func a1 a2 a3 =
     \<lparr>dyn_class = (Method, 3, 4), tmpl_del = del, mObj = obj, mFunc = func, mA = [a1, a2, a3]\<rparr>"

definition MethodClosure_3_4_dtor :: "'v closure_obj \<Rightarrow> 'v closure_obj" where
  [closure_dtors]: "MethodClosure_3_4_dtor this = this\<lparr>mObj := 0, mFunc := 0\<rparr>"

definition MethodClosure_3_4_IsAutoDelete :: "'v closure_obj \<Rightarrow> bool" where
  [closure_dtors]: "MethodClosure_3_4_IsAutoDelete this = tmpl_del this"

definition MethodClosure_4_3 :: "bool \<Rightarrow> addr \<Rightarrow> fn \<Rightarrow> 'v \<Rightarrow> 'v \<Rightarrow> 'v \<Rightarrow> 'v \<Rightarrow> 'v closure_obj" where
  [closure_ctors]: "MethodClosure_4_3 del obj func a1 a2 a3 a4 =
     \<lparr>dyn_class = (Method, 4, 3), tmpl_del = del, mObj = obj, mFunc = func, mA = [a1, a2, a3, a4]\<rparr>"

definition MethodClosure_4_3_dtor :: "'v closure_obj \<Rightarrow> 'v closure_obj" where
  [closure_dtors]: "MethodClosure_4_3_dtor this = this\<lparr>mObj := 0, mFunc := 0\<rparr>"

definition MethodClosure_4_3_IsAutoDelete :: "'v closure_obj \<Rightarrow> bool" where
  [closure_dtors]: "MethodClosure_4_3_IsAutoDelete this = tmpl_del this"

definition MethodClosure_5_2 :: "bool \<Rightarrow> addr \<Rightarrow> fn \<Rightarrow> 'v \<Rightarrow> 'v \<Rightarrow> 'v \<Rightarrow> 'v \<Rightarrow> 'v \<Rightarrow> 'v closure_obj" where
  [closure_ctors]: "MethodClosure_5_2 del obj func a1 a2 a3 a4 a5 =
     \<lparr>dyn_class = (Method, 5, 2), tmpl_del = del, mObj = obj, mFunc = func, mA = [a1, a2, a3, a4, a5]\<rparr>"

definition MethodClosure_5_2_dtor :: "'v closure_obj \<Rightarrow> 'v closure_obj" where
  [closure_dtors]: "MethodClosure_5_2_dtor this = this\<lparr>mObj := 0, mFunc := 0\<rparr>"

definition MethodClosure_5_2_IsAutoDelete :: "'v closure_obj \<Rightarrow> bool" where
  [closure_dtors]: "MethodClosure_5_2_IsAutoDelete this = tmpl_del this"

definition MethodClosure_6_1 :: "bool \<Rightarrow> addr \<Rightarrow> fn \<Rightarrow> 'v \<Rightarrow> 'v \<Rightarrow> 'v \<Rightarrow> 'v \<Rightarrow> 'v \<Rightarrow> 'v \<Rightarrow> 'v closure_obj" where
  [closure_ctors]: "MethodClosure_6_1 del obj func a1 a2 a3 a4 a5 a6 =
     \<lparr>dyn_class = (Method, 6, 1), tmpl_del = del, mObj = obj, mFunc = func, mA = [a1, a2, a3, a4, a5, a6]\<rparr>"

definition MethodClosure_6_1_dtor :: "'v closure_obj \<Rightarrow> 'v closure_obj" where
  [closure_dtors]: "MethodClosure_6_1_dtor this = this\<lparr>mObj := 0, mFunc := 0\<rparr>"

definition MethodClosure_6_1_IsAutoDelete :: "'v closure_obj \<Rightarrow> bool" where
  [closure_dtors]: "MethodClosure_6_1_IsAutoDelete this = tmpl_del this"

definition MethodClosure_7_0 :: "bool \<Rightarrow> addr \<Rightarrow> fn \<Rightarrow> 'v \<Rightarrow> 'v \<Rightarrow> 'v \<Rightarrow> 'v \<Rightarrow> 'v \<Rightarrow> 'v \<Rightarrow> 'v \<Rightarrow> 'v closure_obj" where
  [closure_ctors]: "MethodClosure_7_0 del obj func a1 a2 a3 a4 a5 a6 a7 =
     \<lparr>dyn_class = (Method, 7, 0), tmpl_del = del, mObj = obj, mFunc = func, mA = [a1, a2, a3, a4, a5, a6, a7]\<rparr>"

definition MethodClosure_7_0_dtor :: "'v closure_obj \<Rightarrow> 'v closure_obj" where
  [closure_dtors]: "MethodClosure_7_0_dtor this = this\<lparr>mObj := 0, mFunc := 0\<rparr>"

definition MethodClosure_7_0_IsAutoDelete :: "'v closure_obj \<Rightarrow> bool" where
  [closure_dtors]: "MethodClosure_7_0_IsAutoDelete this = tmpl_del this"

section \<open>The function closures\<close>

definition FunctionClosure_0_0 :: "bool \<Rightarrow> fn \<Rightarrow> 'v closure_obj" where
  [closure_ctors]: "FunctionClosure_0_0 del func =
     \<lparr>dyn_class = (Function, 0, 0), tmpl_del = del, mObj = 0, mFunc = func, mA = []\<rparr>"

definition FunctionClosure_0_0_dtor :: "'v closure_obj \<Rightarrow> 'v closure_obj" where
  [closure_dtors]: "FunctionClosure_0_0_dtor this = this\<lparr>mFunc := 0\<rparr>"

definition FunctionClosure_0_0_IsAutoDelete :: "'v closure_obj \<Rightarrow> bool" where
  [closure_dtors]: "FunctionClosure_0_0_IsAutoDelete this = tmpl_del this"

definition FunctionClosure_0_1 :: "bool \<Rightarrow> fn \<Rightarrow> 'v closure_obj" where
  [closure_ctors]: "FunctionClosure_0_1 del func =
     \<lparr>dyn_class = (Function, 0, 1), tmpl_del = del, mObj = 0, mFunc = func, mA = []\<rparr>"

definition FunctionClosure_0_1_dtor :: "'v closure_obj \<Rightarrow> 'v closure_obj" where
  [closure_dtors]: "FunctionClosure_0_1_dtor this = this\<lparr>mFunc := 0\<rparr>"

definition FunctionClosure_0_1_IsAutoDelete :: "'v closure_obj \<Rightarrow> bool" where
  [closure_dtors]: "FunctionClosure_0_1_IsAutoDelete this = tmpl_del this"

definition FunctionClosure_1_0 :: "bool \<Rightarrow> fn \<Rightarrow> 'v \<Rightarrow> 'v closure_obj" where
  [closure_ctors]: "FunctionClosure_1_0 del func a1 =
     \<lparr>dyn_class = (Function, 1, 0), tmpl_del = del, mObj = 0, mFunc = func, mA = [a1]\<rparr>"

definition FunctionClosure_1_0_dtor :: "'v closure_obj \<Rightarrow> 'v closure_obj" where
  [closure_dtors]: "FunctionClosure_1_0_dtor this = this\<lparr>mFunc := 0\<rparr>"

definition FunctionClosure_1_0_IsAutoDelete :: "'v closure_obj \<Rightarrow> bool" where
  [closure_dtors]: "FunctionClosure_1_0_IsAutoDelete this = tmpl_del this"

definition FunctionClosure_0_2 :: "bool \<Rightarrow> fn \<Rightarrow> 'v closure_obj" where
  [closure_ctors]: "FunctionClosure_0_2 del func =
     \<lparr>dyn_class = (Function, 0, 2), tmpl_del = del, mObj = 0, mFunc = func, mA = []\<rparr>"

definition FunctionClosure_0_2_dtor :: "'v closure_obj \<Rightarrow> 'v closure_obj" where
  [closure_dtors]: "FunctionClosure_0_2_dtor this = this\<lparr>mFunc := 0\<rparr>"

definition FunctionClosure_0_2_IsAutoDelete :: "'v closure_obj \<Rightarrow> bool" where
  [closure_dtors]: "FunctionClosure_0_2_IsAutoDelete this = tmpl_del this"

definition FunctionClosure_1_1 :: "bool \<Rightarrow> fn \<Rightarrow> 'v \<Rightarrow> 'v closure_obj" where
  [closure_ctors]: "FunctionClosure_1_1 del func a1 =
     \<lparr>dyn_class = (Function, 1, 1), tmpl_del = del, mObj = 0, mFunc = func, mA = [a1]\<rparr>"

definition FunctionClosure_1_1_dtor :: "'v closure_obj \<Rightarrow> 'v closure_obj" where
  [closure_dtors]: "FunctionClosure_1_1_dtor this = this\<lparr>mFunc := 0\<rparr>"

definition FunctionClosure_1_1_IsAutoDelete :: "'v closure_obj \<Rightarrow> bool" where
  [closure_dtors]: "FunctionClosure_1_1_IsAutoDelete this = tmpl_del this"

definition FunctionClosure_2_0 :: "bool \<Rightarrow> fn \<Rightarrow> 'v \<Rightarrow> 'v \<Rightarrow> 'v closure_obj" where
  [closure_ctors]: "FunctionClosure_2_0 del func a1 a2 =
     \<lparr>dyn_class = (Function, 2, 0), tmpl_del = del, mObj = 0, mFunc = func, mA = [a1, a2]\<rparr>"

definition FunctionClosure_2_0_dtor :: "'v closure_obj \<Rightarrow> 'v closure_obj" where
  [closure_dtors]: "FunctionClosure_2_0_dtor this = this\<lparr>mFunc := 0\<rparr>"

definition FunctionClosure_2_0_IsAutoDelete :: "'v closure_obj \<Rightarrow> bool" where
  [closure_dtors]: "FunctionClosure_2_0_IsAutoDelete this = tmpl_del this"

definition FunctionClosure_0_3 :: "bool \<Rightarrow> fn \<Rightarrow> 'v closure_obj" where
  [closure_ctors]: "FunctionClosure_0_3 del func =
     \<lparr>dyn_class = (Function, 0, 3), tmpl_del = del, mObj = 0, mFunc = func, mA = []\<rparr>"

definition FunctionClosure_0_3_dtor :: "'v closure_obj \<Rightarrow> 'v closure_obj" where
  [closure_dtors]: "FunctionClosure_0_3_dtor this = this\<lparr>mFunc := 0\<rparr>"

definition FunctionClosure_0_3_IsAutoDelete :: "'v closure_obj \<Rightarrow> bool" where
  [closure_dtors]: "FunctionClosure_0_3_IsAutoDelete this = tmpl_del this"

definition FunctionClosure_1_2 :: "bool \<Rightarrow> fn \<Rightarrow> 'v \<Rightarrow> 'v closure_obj" where
  [closure_ctors]: "FunctionClosure_1_2 del func a1 =
     \<lparr>dyn_class = (Function, 1, 2), tmpl_del = del, mObj = 0, mFunc = func, mA = [a1]\<rparr>"

definition FunctionClosure_1_2_dtor :: "'v closure_obj \<Rightarrow> 'v closure_obj" where
  [closure_dtors]: "FunctionClosure_1_2_dtor this = this\<lparr>mFunc := 0\<rparr>"

definition FunctionClosure_1_2_IsAutoDelete :: "'v closure_obj \<Rightarrow> bool" where
  [closure_dtors]: "FunctionClosure_1_2_IsAutoDelete this = tmpl_del this"

definition FunctionClosure_2_1 :: "bool \<Rightarrow> fn \<Rightarrow> 'v \<Rightarrow> 'v \<Rightarrow> 'v closure_obj" where
  [closure_ctors]: "FunctionClosure_2_1 del func a1 a2 =
     \<lparr>dyn_class = (Function, 2, 1), tmpl_del = del, mObj = 0, mFunc = func, mA = [a1, a2]\<rparr>"

definition FunctionClosure_2_1_dtor :: "'v closure_obj \<Rightarrow> 'v closure_obj" where
  [closure_dtors]: "FunctionClosure_2_1_dtor this = this\<lparr>mFunc := 0\<rparr>"

definition FunctionClosure_2_1_IsAutoDelete :: "'v closure_obj \<Rightarrow> bool" where
  [closure_dtors]: "FunctionClosure_2_1_IsAutoDelete this = tmpl_del this"

definition FunctionClosure_3_0 :: "bool \<Rightarrow> fn \<Rightarrow> 'v \<Rightarrow> 'v \<Rightarrow> 'v \<Rightarrow> 'v closure_obj" where
  [closure_ctors]: "FunctionClosure_3_0 del func a1 a2 a3 =
     \<lparr>dyn_class = (Function, 3, 0), tmpl_del = del, mObj = 0, mFunc = func, mA = [a1, a2, a3]\<rparr>"

definition FunctionClosure_3_0_dtor :: "'v closure_obj \<Rightarrow> 'v closure_obj" where
  [closure_dtors]: "FunctionClosure_3_0_dtor this = this\<lparr>mFunc := 0\<rparr>"

definition FunctionClosure_3_0_IsAutoDelete :: "'v closure_obj \<Rightarrow> bool" where
  [closure_dtors]: "FunctionClosure_3_0_IsAutoDelete this = tmpl_del this"

definition FunctionClosure_0_4 :: "bool \<Rightarrow> fn \<Rightarrow> 'v closure_obj" where
  [closure_ctors]: "FunctionClosure_0_4 del func =
     \<lparr>dyn_class = (Function, 0, 4), tmpl_del = del, mObj = 0, mFunc = func, mA = []\<rparr>"

definition FunctionClosure_0_4_dtor :: "'v closure_obj \<Rightarrow> 'v closure_obj" where
  [closure_dtors]: "FunctionClosure_0_4_dtor this = this\<lparr>mFunc := 0\<rparr>"

definition FunctionClosure_0_4_IsAutoDelete :: "'v closure_obj \<Rightarrow> bool" where
  [closure_dtors]: "FunctionClosure_0_4_IsAutoDelete this = tmpl_del this"

definition FunctionClosure_1_3 :: "bool \<Rightarrow> fn \<Rightarrow> 'v \<Rightarrow> 'v closure_obj" where
  [closure_ctors]: "FunctionClosure_1_3 del func a1 =
     \<lparr>dyn_class = (Function, 1, 3), tmpl_del = del, mObj = 0, mFunc = func, mA = [a1]\<rparr>"

definition FunctionClosure_1_3_dtor :: "'v closure_obj \<Rightarrow> 'v closure_obj" where
  [closure_dtors]: "FunctionClosure_1_3_dtor this = this\<lparr>mFunc := 0\<rparr>"

definition FunctionClosure_1_3_IsAutoDelete :: "'v closure_obj \<Rightarrow> bool" where
  [closure_dtors]: "FunctionClosure_1_3_IsAutoDelete this = tmpl_del this"

definition FunctionClosure_2_2 :: "bool \<Rightarrow> fn \<Rightarrow> 'v \<Rightarrow> 'v \<Rightarrow> 'v closure_obj" where
  [closure_ctors]: "FunctionClosure_2_2 del func a1 a2 =
     \<lparr>dyn_class = (Function, 2, 2), tmpl_del = del, mObj = 0, mFunc = func, mA = [a1, a2]\<rparr>"

definition FunctionClosure_2_2_dtor :: "'v closure_obj \<Rightarrow> 'v closure_obj" where
  [closure_dtors]: "FunctionClosure_2_2_dtor this = this\<lparr>mFunc := 0\<rparr>"

definition FunctionClosure_2_2_IsAutoDelete :: "'v closure_obj \<Rightarrow> bool" where
  [closure_dtors]: "FunctionClosure_2_2_IsAutoDelete this = tmpl_del this"

definition FunctionClosure_3_1 :: "bool \<Rightarrow> fn \<Rightarrow> 'v \<Rightarrow> 'v \<Rightarrow> 'v \<Rightarrow> 'v closure_obj" where
  [closure_ctors]: "FunctionClosure_3_1 del func a1 a2 a3 =
     \<lparr>dyn_class = (Function, 3, 1), tmpl_del = del, mObj = 0, mFunc = func, mA = [a1, a2, a3]\<rparr>"

definition FunctionClosure_3_1_dtor :: "'v closure_obj \<Rightarrow> 'v closure_obj" where
  [closure_dtors]: "FunctionClosure_3_1_dtor this = this\<lparr>mFunc := 0\<rparr>"

definition FunctionClosure_3_1_IsAutoDelete :: "'v closure_obj \<Rightarrow> bool" where
  [closure_dtors]: "FunctionClosure_3_1_IsAutoDelete this = tmpl_del this"

definition FunctionClosure_4_0 :: "bool \<Rightarrow> fn \<Rightarrow> 'v \<Rightarrow> 'v \<Rightarrow> 'v \<Rightarrow> 'v \<Rightarrow> 'v closure_obj" where
  [closure_ctors]: "FunctionClosure_4_0 del func a1 a2 a3 a4 =
     \<lparr>dyn_class = (Function, 4, 0), tmpl_del = del, mObj = 0, mFunc = func, mA = [a1, a2, a3, a4]\<rparr>"

definition FunctionClosure_4_0_dtor :: "'v closure_obj \<Rightarrow> 'v closure_obj" where
  [closure_dtors]: "FunctionClosure_4_0_dtor this = this\<lparr>mFunc := 0\<rparr>"

definition FunctionClosure_4_0_IsAutoDelete :: "'v closure_obj \<Rightarrow> bool" where
  [closure_dtors]: "FunctionClosure_4_0_IsAutoDelete this = tmpl_del this"

definition FunctionClosure_0_5 :: "bool \<Rightarrow> fn \<Rightarrow> 'v closure_obj" where
  [closure_ctors]: "FunctionClosure_0_5 del func =
     \<lparr>dyn_class = (Function, 0, 5), tmpl_del = del, mObj = 0, mFunc = func, mA = []\<rparr>"

definition FunctionClosure_0_5_dtor :: "'v closure_obj \<Rightarrow> 'v closure_obj" where
  [closure_dtors]: "FunctionClosure_0_5_dtor this = this\<lparr>mFunc := 0\<rparr>"

definition FunctionClosure_0_5_IsAutoDelete :: "'v closure_obj \<Rightarrow> bool" where
  [closure_dtors]: "FunctionClosure_0_5_IsAutoDelete this = tmpl_del this"

definition FunctionClosure_1_4 :: "bool \<Rightarrow> fn \<Rightarrow> 'v \<Rightarrow> 'v closure_obj" where
  [closure_ctors]: "FunctionClosure_1_4 del func a1 =
     \<lparr>dyn_class = (Function, 1, 4), tmpl_del = del, mObj = 0, mFunc = func, mA = [a1]\<rparr>"

definition FunctionClosure_1_4_dtor :: "'v closure_obj \<Rightarrow> 'v closure_obj" where
  [closure_dtors]: "FunctionClosure_1_4_dtor this = this\<lparr>mFunc := 0\<rparr>"

definition FunctionClosure_1_4_IsAutoDelete :: "'v closure_obj \<Rightarrow> bool" where
  [closure_dtors]: "FunctionClosure_1_4_IsAutoDelete this = tmpl_del this"

definition FunctionClosure_2_3 :: "bool \<Rightarrow> fn \<Rightarrow> 'v \<Rightarrow> 'v \<Rightarrow> 'v closure_obj" where
  [closure_ctors]: "FunctionClosure_2_3 del func a1 a2 =
     \<lparr>dyn_class = (Function, 2, 3), tmpl_del = del, mObj = 0, mFunc = func, mA = [a1, a2]\<rparr>"

definition FunctionClosure_2_3_dtor :: "'v closure_obj \<Rightarrow> 'v closure_obj" where
  [closure_dtors]: "FunctionClosure_2_3_dtor this = this\<lparr>mFunc := 0\<rparr>"

definition FunctionClosure_2_3_IsAutoDelete :: "'v closure_obj \<Rightarrow> bool" where
  [closure_dtors]: "FunctionClosure_2_3_IsAutoDelete this = tmpl_del this"

definition FunctionClosure_3_2 :: "bool \<Rightarrow> fn \<Rightarrow> 'v \<Rightarrow> 'v \<Rightarrow> 'v \<Rightarrow> 'v closure_obj" where
  [closure_ctors]: "FunctionClosure_3_2 del func a1 a2 a3 =
     \<lparr>dyn_class = (Function, 3, 2), tmpl_del = del, mObj = 0, mFunc = func, mA = [a1, a2, a3]\<rparr>"

definition FunctionClosure_3_2_dtor :: "'v closure_obj \<Rightarrow> 'v closure_obj" where
  [closure_dtors]: "FunctionClosure_3_2_dtor this = this\<lparr>mFunc := 0\<rparr>"

definition FunctionClosure_3_2_IsAutoDelete :: "'v closure_obj \<Rightarrow> bool" where
  [closure_dtors]: "FunctionClosure_3_2_IsAutoDelete this = tmpl_del this"

definition FunctionClosure_4_1 :: "bool \<Rightarrow> fn \<Rightarrow> 'v \<Rightarrow> 'v \<Rightarrow> 'v \<Rightarrow> 'v \<Rightarrow> 'v closure_obj" where
  [closure_ctors]: "FunctionClosure_4_1 del func a1 a2 a3 a4 =
     \<lparr>dyn_class = (Function, 4, 1), tmpl_del = del, mObj = 0, mFunc = func, mA = [a1, a2, a3, a4]\<rparr>"

definition FunctionClosure_4_1_dtor :: "'v closure_obj \<Rightarrow> 'v closure_obj" where
  [closure_dtors]: "FunctionClosure_4_1_dtor this = this\<lparr>mFunc := 0\<rparr>"

definition FunctionClosure_4_1_IsAutoDelete :: "'v closure_obj \<Rightarrow> bool" where
  [closure_dtors]: "FunctionClosure_4_1_IsAutoDelete this = tmpl_del this"

definition FunctionClosure_5_0 :: "bool \<Rightarrow> fn \<Rightarrow> 'v \<Rightarrow> 'v \<Rightarrow> 'v \<Rightarrow> 'v \<Rightarrow> 'v \<Rightarrow> 'v closure_obj" where
  [closure_ctors]: "FunctionClosure_5_0 del func a1 a2 a3 a4 a5 =
     \<lparr>dyn_class = (Function, 5, 0), tmpl_del = del, mObj = 0, mFunc = func, mA = [a1, a2, a3, a4, a5]\<rparr>"

definition FunctionClosure_5_0_dtor :: "'v closure_obj \<Rightarrow> 'v closure_obj" where
  [closure_dtors]: "FunctionClosure_5_0_dtor this = this\<lparr>mFunc := 0\<rparr>"

definition FunctionClosure_5_0_IsAutoDelete :: "'v closure_obj \<Rightarrow> bool" where
  [closure_dtors]: "FunctionClosure_5_0_IsAutoDelete this = tmpl_del this"

definition FunctionClosure_0_6 :: "bool \<Rightarrow> fn \<Rightarrow> 'v closure_obj" where
  [closure_ctors]: "FunctionClosure_0_6 del func =
     \<lparr>dyn_class = (Function, 0, 6), tmpl_del = del, mObj = 0, mFunc = func, mA = []\<rparr>"

definition FunctionClosure_0_6_dtor :: "'v closure_obj \<Rightarrow> 'v closure_obj" where
  [closure_dtors]: "FunctionClosure_0_6_dtor this = this\<lparr>mFunc := 0\<rparr>"

definition FunctionClosure_0_6_IsAutoDelete :: "'v closure_obj \<Rightarrow> bool" where
  [closure_dtors]: "FunctionClosure_0_6_IsAutoDelete this = tmpl_del this"

definition FunctionClosure_1_5 :: "bool \<Rightarrow> fn \<Rightarrow> 'v \<Rightarrow> 'v closure_obj" where
  [closure_ctors]: "FunctionClosure_1_5 del func a1 =
     \<lparr>dyn_class = (Function, 1, 5), tmpl_del = del, mObj = 0, mFunc = func, mA = [a1]\<rparr>"

definition FunctionClosure_1_5_dtor :: "'v closure_obj \<Rightarrow> 'v closure_obj" where
  [closure_dtors]: "FunctionClosure_1_5_dtor this = this\<lparr>mFunc := 0\<rparr>"

definition FunctionClosure_1_5_IsAutoDelete :: "'v closure_obj \<Rightarrow> bool" where
  [closure_dtors]: "FunctionClosure_1_5_IsAutoDelete this = tmpl_del this"

definition FunctionClosure_2_4 :: "bool \<Rightarrow> fn \<Rightarrow> 'v \<Rightarrow> 'v \<Rightarrow> 'v closure_obj" where
  [closure_ctors]: "FunctionClosure_2_4 del func a1 a2 =
     \<lparr>dyn_class = (Function, 2, 4), tmpl_del = del, mObj = 0, mFunc = func, mA = [a1, a2]\<rparr>"

definition FunctionClosure_2_4_dtor :: "'v closure_obj \<Rightarrow> 'v closure_obj" where
  [closure_dtors]: "FunctionClosure_2_4_dtor this = this\<lparr>mFunc := 0\<rparr>"

definition FunctionClosure_2_4_IsAutoDelete :: "'v closure_obj \<Rightarrow> bool" where
  [closure_dtors]: "FunctionClosure_2_4_IsAutoDelete this = tmpl_del this"

definition FunctionClosure_3_3 :: "bool \<Rightarrow> fn \<Rightarrow> 'v \<Rightarrow> 'v \<Rightarrow> 'v \<Rightarrow> 'v closure_obj" where
  [closure_ctors]: "FunctionClosure_3_3 del func a1 a2 a3 =
     \<lparr>dyn_class = (Function, 3, 3), tmpl_del = del, mObj = 0, mFunc = func, mA = [a1, a2, a3]\<rparr>"

definition FunctionClosure_3_3_dtor :: "'v closure_obj \<Rightarrow> 'v closure_obj" where
  [closure_dtors]: "FunctionClosure_3_3_dtor this = this\<lparr>mFunc := 0\<rparr>"

definition FunctionClosure_3_3_IsAutoDelete :: "'v closure_obj \<Rightarrow> bool" where
  [closure_dtors]: "FunctionClosure_3_3_IsAutoDelete this = tmpl_del this"

definition FunctionClosure_4_2 :: "bool \<Rightarrow> fn \<Rightarrow> 'v \<Rightarrow> 'v \<Rightarrow> 'v \<Rightarrow> 'v \<Rightarrow> 'v closure_obj" where
  [closure_ctors]: "FunctionClosure_4_2 del func a1 a2 a3 a4 =
     \<lparr>dyn_class = (Function, 4, 2), tmpl_del = del, mObj = 0, mFunc = func, mA = [a1, a2, a3, a4]\<rparr>"

definition FunctionClosure_4_2_dtor :: "'v closure_obj \<Rightarrow> 'v closure_obj" where
  [closure_dtors]: "FunctionClosure_4_2_dtor this = this\<lparr>mFunc := 0\<rparr>"

definition FunctionClosure_4_2_IsAutoDelete :: "'v closure_obj \<Rightarrow> bool" where
  [closure_dtors]: "FunctionClosure_4_2_IsAutoDelete this = tmpl_del this"

definition FunctionClosure_5_1 :: "bool \<Rightarrow> fn \<Rightarrow> 'v \<Rightarrow> 'v \<Rightarrow> 'v \<Rightarrow> 'v \<Rightarrow> 'v \<Rightarrow> 'v closure_obj" where
  [closure_ctors]: "FunctionClosure_5_1 del func a1 a2 a3 a4 a5 =
     \<lparr>dyn_class = (Function, 5, 1), tmpl_del = del, mObj = 0, mFunc = func, mA = [a1, a2, a3, a4, a5]\<rparr>"

definition FunctionClosure_5_1_dtor :: "'v closure_obj \<Rightarrow> 'v closure_obj" where
  [closure_dtors]: "FunctionClosure_5_1_dtor this = this\<lparr>mFunc := 0\<rparr>"

definition FunctionClosure_5_1_IsAutoDelete :: "'v closure_obj \<Rightarrow> bool" where
  [closure_dtors]: "FunctionClosure_5_1_IsAutoDelete this = tmpl_del this"

definition FunctionClosure_6_0 :: "bool \<Rightarrow> fn \<Rightarrow> 'v \<Rightarrow> 'v \<Rightarrow> 'v \<Rightarrow> 'v \<Rightarrow> 'v \<Rightarrow> 'v \<Rightarrow> 'v closure_obj" where
  [closure_ctors]: "FunctionClosure_6_0 del func a1 a2 a3 a4 a5 a6 =
     \<lparr>dyn_class = (Function, 6, 0), tmpl_del = del, mObj = 0, mFunc = func, mA = [a1, a2, a3, a4, a5, a6]\<rparr>"

definition FunctionClosure_6_0_dtor :: "'v closure_obj \<Rightarrow> 'v closure_obj" where
  [closure_dtors]: "FunctionClosure_6_0_dtor this = this\<lparr>mFunc := 0\<rparr>"

definition FunctionClosure_6_0_IsAutoDelete :: "'v closure_obj \<Rightarrow> bool" where
  [closure_dtors]: "FunctionClosure_6_0_IsAutoDelete this = tmpl_del this"

definition FunctionClosure_0_7 :: "bool \<Rightarrow> fn \<Rightarrow> 'v closure_obj" where
  [closure_ctors]: "FunctionClosure_0_7 del func =
     \<lparr>dyn_class = (Function, 0, 7), tmpl_del = del, mObj = 0, mFunc = func, mA = []\<rparr>"

definition FunctionClosure_0_7_dtor :: "'v closure_obj \<Rightarrow> 'v closure_obj" where
  [closure_dtors]: "FunctionClosure_0_7_dtor this = this\<lparr>mFunc := 0\<rparr>"

definition FunctionClosure_0_7_IsAutoDelete :: "'v closure_obj \<Rightarrow> bool" where
  [closure_dtors]: "FunctionClosure_0_7_IsAutoDelete this = tmpl_del this"

definition FunctionClosure_1_6 :: "bool \<Rightarrow> fn \<Rightarrow> 'v \<Rightarrow> 'v closure_obj" where
  [closure_ctors]: "FunctionClosure_1_6 del func a1 =
     \<lparr>dyn_class = (Function, 1, 6), tmpl_del = del, mObj = 0, mFunc = func, mA = [a1]\<rparr>"

definition FunctionClosure_1_6_dtor :: "'v closure_obj \<Rightarrow> 'v closure_obj" where
  [closure_dtors]: "FunctionClosure_1_6_dtor this = this\<lparr>mFunc := 0\<rparr>"

definition FunctionClosure_1_6_IsAutoDelete :: "'v closure_obj \<Rightarrow> bool" where
  [closure_dtors]: "FunctionClosure_1_6_IsAutoDelete this = tmpl_del this"

definition FunctionClosure_2_5 :: "bool \<Rightarrow> fn \<Rightarrow> 'v \<Rightarrow> 'v \<Rightarrow> 'v closure_obj" where
  [closure_ctors]: "FunctionClosure_2_5 del func a1 a2 =
     \<lparr>dyn_class = (Function, 2, 5), tmpl_del = del, mObj = 0, mFunc = func, mA = [a1, a2]\<rparr>"

definition FunctionClosure_2_5_dtor :: "'v closure_obj \<Rightarrow> 'v closure_obj" where
  [closure_dtors]: "FunctionClosure_2_5_dtor this = this\<lparr>mFunc := 0\<rparr>"

definition FunctionClosure_2_5_IsAutoDelete :: "'v closure_obj \<Rightarrow> bool" where
  [closure_dtors]: "FunctionClosure_2_5_IsAutoDelete this = tmpl_del this"

definition FunctionClosure_3_4 :: "bool \<Rightarrow> fn \<Rightarrow> 'v \<Rightarrow> 'v \<Rightarrow> 'v \<Rightarrow> 'v closure_obj" where
  [closure_ctors]: "FunctionClosure_3_4 del func a1 a2 a3 =
     \<lparr>dyn_class = (Function, 3, 4), tmpl_del = del, mObj = 0, mFunc = func, mA = [a1, a2, a3]\<rparr>"

definition FunctionClosure_3_4_dtor :: "'v closure_obj \<Rightarrow> 'v closure_obj" where
  [closure_dtors]: "FunctionClosure_3_4_dtor this = this\<lparr>mFunc := 0\<rparr>"

definition FunctionClosure_3_4_IsAutoDelete :: "'v closure_obj \<Rightarrow> bool" where
  [closure_dtors]: "FunctionClosure_3_4_IsAutoDelete this = tmpl_del this"

definition FunctionClosure_4_3 :: "bool \<Rightarrow> fn \<Rightarrow> 'v \<Rightarrow> 'v \<Rightarrow> 'v \<Rightarrow> 'v \<Rightarrow> 'v closure_obj" where
  [closure_ctors]: "FunctionClosure_4_3 del func a1 a2 a3 a4 =
     \<lparr>dyn_class = (Function, 4, 3), tmpl_del = del, mObj = 0, mFunc = func, mA = [a1, a2, a3, a4]\<rparr>"

definition FunctionClosure_4_3_dtor :: "'v closure_obj \<Rightarrow> 'v closure_obj" where
  [closure_dtors]: "FunctionClosure_4_3_dtor this = this\<lparr>mFunc := 0\<rparr>"

definition FunctionClosure_4_3_IsAutoDelete :: "'v closure_obj \<Rightarrow> bool" where
  [closure_dtors]: "FunctionClosure_4_3_IsAutoDelete this = tmpl_del this"

definition FunctionClosure_5_2 :: "bool \<Rightarrow> fn \<Rightarrow> 'v \<Rightarrow> 'v \<Rightarrow> 'v \<Rightarrow> 'v \<Rightarrow> 'v \<Rightarrow> 'v closure_obj" where
  [closure_ctors]: "FunctionClosure_5_2 del func a1 a2 a3 a4 a5 =
     \<lparr>dyn_class = (Function, 5, 2), tmpl_del = del, mObj = 0, mFunc = func, mA = [a1, a2, a3, a4, a5]\<rparr>"

definition FunctionClosure_5_2_dtor :: "'v closure_obj \<Rightarrow> 'v closure_obj" where
  [closure_dtors]: "FunctionClosure_5_2_dtor this = this\<lparr>mFunc := 0\<rparr>"

definition FunctionClosure_5_2_IsAutoDelete :: "'v closure_obj \<Rightarrow> bool" where
  [closure_dtors]: "FunctionClosure_5_2_IsAutoDelete this = tmpl_del this"

definition FunctionClosure_6_1 :: "bool \<Rightarrow> fn \<Rightarrow> 'v \<Rightarrow> 'v \<Rightarrow> 'v \<Rightarrow> 'v \<Rightarrow> 'v \<Rightarrow> 'v \<Rightarrow> 'v closure_obj" where
  [closure_ctors]: "FunctionClosure_6_1 del func a1 a2 a3 a4 a5 a6 =
     \<lparr>dyn_class = (Function, 6, 1), tmpl_del = del, mObj = 0, mFunc = func, mA = [a1, a2, a3, a4, a5, a6]\<rparr>"

definition FunctionClosure_6_1_dtor :: "'v closure_obj \<Rightarrow> 'v closure_obj" where
  [closure_dtors]: "FunctionClosure_6_1_dtor this = this\<lparr>mFunc := 0\<rparr>"

definition FunctionClosure_6_1_IsAutoDelete :: "'v closure_obj \<Rightarrow> bool" where
  [closure_dtors]: "FunctionClosure_6_1_IsAutoDelete this = tmpl_del this"

definition FunctionClosure_7_0 :: "bool \<Rightarrow> fn \<Rightarrow> 'v \<Rightarrow> 'v \<Rightarrow> 'v \<Rightarrow> 'v \<Rightarrow> 'v \<Rightarrow> 'v \<Rightarrow> 'v \<Rightarrow> 'v closure_obj" where
  [closure_ctors]: "FunctionClosure_7_0 del func a1 a2 a3 a4 a5 a6 a7 =
     \<lparr>dyn_class = (Function, 7, 0), tmpl_del = del, mObj = 0, mFunc = func, mA = [a1, a2, a3, a4, a5, a6, a7]\<rparr>"

definition FunctionClosure_7_0_dtor :: "'v closure_obj \<Rightarrow> 'v closure_obj" where
  [closure_dtors]: "FunctionClosure_7_0_dtor this = this\<lparr>mFunc := 0\<rparr>"

definition FunctionClosure_7_0_IsAutoDelete :: "'v closure_obj \<Rightarrow> bool" where
  [closure_dtors]: "FunctionClosure_7_0_IsAutoDelete this = tmpl_del this"

section \<open>The virtual destructor and IsAutoDelete\<close>

definition Method_dtor_table ::
  "((nat \<times> nat) \<times> ('v closure_obj \<Rightarrow> 'v closure_obj)) list" where
  "Method_dtor_table = [
     ((0, 0), MethodClosure_0_0_dtor),
     ((0, 1), MethodClosure_0_1_dtor),
     ((1, 0), MethodClosure_1_0_dtor),
     ((0, 2), MethodClosure_0_2_dtor),
     ((1, 1), MethodClosure_1_1_dtor),
     ((2, 0), MethodClosure_2_0_dtor),
     ((0, 3), MethodClosure_0_3_dtor),
     ((1, 2), MethodClosure_1_2_dtor),
     ((2, 1), MethodClosure_2_1_dtor),
     ((3, 0), MethodClosure_3_0_dtor),
     ((0, 4), MethodClosure_0_4_dtor),
     ((1, 3), MethodClosure_1_3_dtor),
     ((2, 2), MethodClosure_2_2_dtor),
     ((3, 1), MethodClosure_3_1_dtor),
     ((4, 0), MethodClosure_4_0_dtor),
     ((0, 5), MethodClosure_0_5_dtor),
     ((1, 4), MethodClosure_1_4_dtor),
     ((2, 3), MethodClosure_2_3_dtor),
     ((3, 2), MethodClosure_3_2_dtor),
     ((4, 1), MethodClosure_4_1_dtor),
     ((5, 0), MethodClosure_5_0_dtor),
     ((0, 6), MethodClosure_0_6_dtor),
     ((1, 5), MethodClosure_1_5_dtor),
     ((2, 4), MethodClosure_2_4_dtor),
     ((3, 3), MethodClosure_3_3_dtor),
     ((4, 2), MethodClosure_4_2_dtor),
     ((5, 1), MethodClosure_5_1_dtor),
     ((6, 0), MethodClosure_6_0_dtor),
     ((0, 7), MethodClosure_0_7_dtor),
     ((1, 6), MethodClosure_1_6_dtor),
     ((2, 5), MethodClosure_2_5_dtor),
     ((3, 4), MethodClosure_3_4_dtor),
     ((4, 3), MethodClosure_4_3_dtor),
     ((5, 2), MethodClosure_5_2_dtor),
     ((6, 1), MethodClosure_6_1_dtor),
     ((7, 0), MethodClosure_7_0_dtor)]"

definition Function_dtor_table ::
  "((nat \<times> nat) \<times> ('v closure_obj \<Rightarrow> 'v closure_obj)) list" where
  "Function_dtor_table = [
     ((0, 0), FunctionClosure_0_0_dtor),
     ((0, 1), FunctionClosure_0_1_dtor),
     ((1, 0), FunctionClosure_1_0_dtor),
     ((0, 2), FunctionClosure_0_2_dtor),
     ((1, 1), FunctionClosure_1_1_dtor),
     ((2, 0), FunctionClosure_2_0_dtor),
     ((0, 3), FunctionClosure_0_3_dtor),
     ((1, 2), FunctionClosure_1_2_dtor),
     ((2, 1), FunctionClosure_2_1_dtor),
     ((3, 0), FunctionClosure_3_0_dtor),
     ((0, 4), FunctionClosure_0_4_dtor),
     ((1, 3), FunctionClosure_1_3_dtor),
     ((2, 2), FunctionClosure_2_2_dtor),
     ((3, 1), FunctionClosure_3_1_dtor),
     ((4, 0), FunctionClosure_4_0_dtor),
     ((0, 5), FunctionClosure_0_5_dtor),
     ((1, 4), FunctionClosure_1_4_dtor),
     ((2, 3), FunctionClosure_2_3_dtor),
     ((3, 2), FunctionClosure_3_2_dtor),
     ((4, 1), FunctionClosure_4_1_dtor),
     ((5, 0), FunctionClosure_5_0_dtor),
     ((0, 6), FunctionClosure_0_6_dtor),
     ((1, 5), FunctionClosure_1_5_dtor),
     ((2, 4), FunctionClosure_2_4_dtor),
     ((3, 3), FunctionClosure_3_3_dtor),
     ((4, 2), FunctionClosure_4_2_dtor),
     ((5, 1), FunctionClosure_5_1_dtor),
     ((6, 0), FunctionClosure_6_0_dtor),
     ((0, 7), FunctionClosure_0_7_dtor),
     ((1, 6), FunctionClosure_1_6_dtor),
     ((2, 5), FunctionClosure_2_5_dtor),
     ((3, 4), FunctionClosure_3_4_dtor),
     ((4, 3), FunctionClosure_4_3_dtor),
     ((5, 2), FunctionClosure_5_2_dtor),
     ((6, 1), FunctionClosure_6_1_dtor),
     ((7, 0), FunctionClosure_7_0_dtor)]"

definition Method_IsAutoDelete_table ::
  "((nat \<times> nat) \<times> ('v closure_obj \<Rightarrow> bool)) list" where
  "Method_IsAutoDelete_table = [
     ((0, 0), MethodClosure_0_0_IsAutoDelete),
     ((0, 1), MethodClosure_0_1_IsAutoDelete),
     ((1, 0), MethodClosure_1_0_IsAutoDelete),
     ((0, 2), MethodClosure_0_2_IsAutoDelete),
     ((1, 1), MethodClosure_1_1_IsAutoDelete),
     ((2, 0), MethodClosure_2_0_IsAutoDelete),
     ((0, 3), MethodClosure_0_3_IsAutoDelete),
     ((1, 2), MethodClosure_1_2_IsAutoDelete),
     ((2, 1), MethodClosure_2_1_IsAutoDelete),
     ((3, 0), MethodClosure_3_0_IsAutoDelete),
     ((0, 4), MethodClosure_0_4_IsAutoDelete),
     ((1, 3), MethodClosure_1_3_IsAutoDelete),
     ((2, 2), MethodClosure_2_2_IsAutoDelete),
     ((3, 1), MethodClosure_3_1_IsAutoDelete),
     ((4, 0), MethodClosure_4_0_IsAutoDelete),
     ((0, 5), MethodClosure_0_5_IsAutoDelete),
     ((1, 4), MethodClosure_1_4_IsAutoDelete),
     ((2, 3), MethodClosure_2_3_IsAutoDelete),
     ((3, 2), MethodClosure_3_2_IsAutoDelete),
     ((4, 1), MethodClosure_4_1_IsAutoDelete),
     ((5, 0), MethodClosure_5_0_IsAutoDelete),
     ((0, 6), MethodClosure_0_6_IsAutoDelete),
     ((1, 5), MethodClosure_1_5_IsAutoDelete),
     ((2, 4), MethodClosure_2_4_IsAutoDelete),
     ((3, 3), MethodClosure_3_3_IsAutoDelete),
     ((4, 2), MethodClosure_4_2_IsAutoDelete),
     ((5, 1), MethodClosure_5_1_IsAutoDelete),
     ((6, 0), MethodClosure_6_0_IsAutoDelete),
     ((0, 7), MethodClosure_0_7_IsAutoDelete),
     ((1, 6), MethodClosure_1_6_IsAutoDelete),
     ((2, 5), MethodClosure_2_5_IsAutoDelete),
     ((3, 4), MethodClosure_3_4_IsAutoDelete),
     ((4, 3), MethodClosure_4_3_IsAutoDelete),
     ((5, 2), MethodClosure_5_2_IsAutoDelete),
     ((6, 1), MethodClosure_6_1_IsAutoDelete),
     ((7, 0), MethodClosure_7_0_IsAutoDelete)]"

lemma Method_IsAutoDelete_table_lookup:
  "map_of Method_IsAutoDelete_table (0, 0) = Some (MethodClosure_0_0_IsAutoDelete)"
  "map_of Method_IsAutoDelete_table (0, Suc 0) = Some (MethodClosure_0_1_IsAutoDelete)"
  "map_of Method_IsAutoDelete_table (Suc 0, 0) = Some (MethodClosure_1_0_IsAutoDelete)"
  "map_of Method_IsAutoDelete_table (0, 2) = Some (MethodClosure_0_2_IsAutoDelete)"
  "map_of Method_IsAutoDelete_table (Suc 0, Suc 0) = Some (MethodClosure_1_1_IsAutoDelete)"
  "map_of Method_IsAutoDelete_table (2, 0) = Some (MethodClosure_2_0_IsAutoDelete)"
  "map_of Method_IsAutoDelete_table (0, 3) = Some (MethodClosure_0_3_IsAutoDelete)"
  "map_of Method_IsAutoDelete_table (Suc 0, 2) = Some (MethodClosure_1_2_IsAutoDelete)"
  "map_of Method_IsAutoDelete_table (2, Suc 0) = Some (MethodClosure_2_1_IsAutoDelete)"
  "map_of Method_IsAutoDelete_table (3, 0) = Some (MethodClosure_3_0_IsAutoDelete)"
  "map_of Method_IsAutoDelete_table (0, 4) = Some (MethodClosure_0_4_IsAutoDelete)"
  "map_of Method_IsAutoDelete_table (Suc 0, 3) = Some (MethodClosure_1_3_IsAutoDelete)"
  "map_of Method_IsAutoDelete_table (2, 2) = Some (MethodClosure_2_2_IsAutoDelete)"
  "map_of Method_IsAutoDelete_table (3, Suc 0) = Some (MethodClosure_3_1_IsAutoDelete)"
  "map_of Method_IsAutoDelete_table (4, 0) = Some (MethodClosure_4_0_IsAutoDelete)"
  "map_of Method_IsAutoDelete_table (0, 5) = Some (MethodClosure_0_5_IsAutoDelete)"
  "map_of Method_IsAutoDelete_table (Suc 0, 4) = Some (MethodClosure_1_4_IsAutoDelete)"
  "map_of Method_IsAutoDelete_table (2, 3) = Some (MethodClosure_2_3_IsAutoDelete)"
  "map_of Method_IsAutoDelete_table (3, 2) = Some (MethodClosure_3_2_IsAutoDelete)"
  "map_of Method_IsAutoDelete_table (4, Suc 0) = Some (MethodClosure_4_1_IsAutoDelete)"
  "map_of Method_IsAutoDelete_table (5, 0) = Some (MethodClosure_5_0_IsAutoDelete)"
  "map_of Method_IsAutoDelete_table (0, 6) = Some (MethodClosure_0_6_IsAutoDelete)"
  "map_of Method_IsAutoDelete_table (Suc 0, 5) = Some (MethodClosure_1_5_IsAutoDelete)"
  "map_of Method_IsAutoDelete_table (2, 4) = Some (MethodClosure_2_4_IsAutoDelete)"
  "map_of Method_IsAutoDelete_table (3, 3) = Some (MethodClosure_3_3_IsAutoDelete)"
  "map_of Method_IsAutoDelete_table (4, 2) = Some (MethodClosure_4_2_IsAutoDelete)"
  "map_of Method_IsAutoDelete_table (5, Suc 0) = Some (MethodClosure_5_1_IsAutoDelete)"
  "map_of Method_IsAutoDelete_table (6, 0) = Some (MethodClosure_6_0_IsAutoDelete)"
  "map_of Method_IsAutoDelete_table (0, 7) = Some (MethodClosure_0_7_IsAutoDelete)"
  "map_of Method_IsAutoDelete_table (Suc 0, 6) = Some (MethodClosure_1_6_IsAutoDelete)"
  "map_of Method_IsAutoDelete_table (2, 5) = Some (MethodClosure_2_5_IsAutoDelete)"
  "map_of Method_IsAutoDelete_table (3, 4) = Some (MethodClosure_3_4_IsAutoDelete)"
  "map_of Method_IsAutoDelete_table (4, 3) = Some (MethodClosure_4_3_IsAutoDelete)"
  "map_of Method_IsAutoDelete_table (5, 2) = Some (MethodClosure_5_2_IsAutoDelete)"
  "map_of Method_IsAutoDelete_table (6, Suc 0) = Some (MethodClosure_6_1_IsAutoDelete)"
  "map_of Method_IsAutoDelete_table (7, 0) = Some (MethodClosure_7_0_IsAutoDelete)"
  by (simp_all add: Method_IsAutoDelete_table_def)

definition Function_IsAutoDelete_table ::
  "((nat \<times> nat) \<times> ('v closure_obj \<Rightarrow> bool)) list" where
  "Function_IsAutoDelete_table = [
     ((0, 0), FunctionClosure_0_0_IsAutoDelete),
     ((0, 1), FunctionClosure_0_1_IsAutoDelete),
     ((1, 0), FunctionClosure_1_0_IsAutoDelete),
     ((0, 2), FunctionClosure_0_2_IsAutoDelete),
     ((1, 1), FunctionClosure_1_1_IsAutoDelete),
     ((2, 0), FunctionClosure_2_0_IsAutoDelete),
     ((0, 3), FunctionClosure_0_3_IsAutoDelete),
     ((1, 2), FunctionClosure_1_2_IsAutoDelete),
     ((2, 1), FunctionClosure_2_1_IsAutoDelete),
     ((3, 0), FunctionClosure_3_0_IsAutoDelete),
     ((0, 4), FunctionClosure_0_4_IsAutoDelete),
     ((1, 3), FunctionClosure_1_3_IsAutoDelete),
     ((2, 2), FunctionClosure_2_2_IsAutoDelete),
     ((3, 1), FunctionClosure_3_1_IsAutoDelete),
     ((4, 0), FunctionClosure_4_0_IsAutoDelete),
     ((0, 5), FunctionClosure_0_5_IsAutoDelete),
     ((1, 4), FunctionClosure_1_4_IsAutoDelete),
     ((2, 3), FunctionClosure_2_3_IsAutoDelete),
     ((3, 2), FunctionClosure_3_2_IsAutoDelete),
     ((4, 1), FunctionClosure_4_1_IsAutoDelete),
     ((5, 0), FunctionClosure_5_0_IsAutoDelete),
     ((0, 6), FunctionClosure_0_6_IsAutoDelete),
     ((1, 5), FunctionClosure_1_5_IsAutoDelete),
     ((2, 4), FunctionClosure_2_4_IsAutoDelete),
     ((3, 3), FunctionClosure_3_3_IsAutoDelete),
     ((4, 2), FunctionClosure_4_2_IsAutoDelete),
     ((5, 1), FunctionClosure_5_1_IsAutoDelete),
     ((6, 0), FunctionClosure_6_0_IsAutoDelete),
     ((0, 7), FunctionClosure_0_7_IsAutoDelete),
     ((1, 6), FunctionClosure_1_6_IsAutoDelete),
     ((2, 5), FunctionClosure_2_5_IsAutoDelete),
     ((3, 4), FunctionClosure_3_4_IsAutoDelete),
     ((4, 3), FunctionClosure_4_3_IsAutoDelete),
     ((5, 2), FunctionClosure_5_2_IsAutoDelete),
     ((6, 1), FunctionClosure_6_1_IsAutoDelete),
     ((7, 0), FunctionClosure_7_0_IsAutoDelete)]"

lemma Function_IsAutoDelete_table_lookup:
  "map_of Function_IsAutoDelete_table (0, 0) = Some (FunctionClosure_0_0_IsAutoDelete)"
  "map_of Function_IsAutoDelete_table (0, Suc 0) = Some (FunctionClosure_0_1_IsAutoDelete)"
  "map_of Function_IsAutoDelete_table (Suc 0, 0) = Some (FunctionClosure_1_0_IsAutoDelete)"
  "map_of Function_IsAutoDelete_table (0, 2) = Some (FunctionClosure_0_2_IsAutoDelete)"
  "map_of Function_IsAutoDelete_table (Suc 0, Suc 0) = Some (FunctionClosure_1_1_IsAutoDelete)"
  "map_of Function_IsAutoDelete_table (2, 0) = Some (FunctionClosure_2_0_IsAutoDelete)"
  "map_of Function_IsAutoDelete_table (0, 3) = Some (FunctionClosure_0_3_IsAutoDelete)"
  "map_of Function_IsAutoDelete_table (Suc 0, 2) = Some (FunctionClosure_1_2_IsAutoDelete)"
  "map_of Function_IsAutoDelete_table (2, Suc 0) = Some (FunctionClosure_2_1_IsAutoDelete)"
  "map_of Function_IsAutoDelete_table (3, 0) = Some (FunctionClosure_3_0_IsAutoDelete)"
  "map_of Function_IsAutoDelete_table (0, 4) = Some (FunctionClosure_0_4_IsAutoDelete)"
  "map_of Function_IsAutoDelete_table (Suc 0, 3) = Some (FunctionClosure_1_3_IsAutoDelete)"
  "map_of Function_IsAutoDelete_table (2, 2) = Some (FunctionClosure_2_2_IsAutoDelete)"
  "map_of Function_IsAutoDelete_table (3, Suc 0) = Some (FunctionClosure_3_1_IsAutoDelete)"
  "map_of Function_IsAutoDelete_table (4, 0) = Some (FunctionClosure_4_0_IsAutoDelete)"
  "map_of Function_IsAutoDelete_table (0, 5) = Some (FunctionClosure_0_5_IsAutoDelete)"
  "map_of Function_IsAutoDelete_table (Suc 0, 4) = Some (FunctionClosure_1_4_IsAutoDelete)"
  "map_of Function_IsAutoDelete_table (2, 3) = Some (FunctionClosure_2_3_IsAutoDelete)"
  "map_of Function_IsAutoDelete_table (3, 2) = Some (FunctionClosure_3_2_IsAutoDelete)"
  "map_of Function_IsAutoDelete_table (4, Suc 0) = Some (FunctionClosure_4_1_IsAutoDelete)"
  "map_of Function_IsAutoDelete_table (5, 0) = Some (FunctionClosure_5_0_IsAutoDelete)"
  "map_of Function_IsAutoDelete_table (0, 6) = Some (FunctionClosure_0_6_IsAutoDelete)"
  "map_of Function_IsAutoDelete_table (Suc 0, 5) = Some (FunctionClosure_1_5_IsAutoDelete)"
  "map_of Function_IsAutoDelete_table (2, 4) = Some (FunctionClosure_2_4_IsAutoDelete)"
  "map_of Function_IsAutoDelete_table (3, 3) = Some (FunctionClosure_3_3_IsAutoDelete)"
  "map_of Function_IsAutoDelete_table (4, 2) = Some (FunctionClosure_4_2_IsAutoDelete)"
  "map_of Function_IsAutoDelete_table (5, Suc 0) = Some (FunctionClosure_5_1_IsAutoDelete)"
  "map_of Function_IsAutoDelete_table (6, 0) = Some (FunctionClosure_6_0_IsAutoDelete)"
  "map_of Function_IsAutoDelete_table (0, 7) = Some (FunctionClosure_0_7_IsAutoDelete)"
  "map_of Function_IsAutoDelete_table (Suc 0, 6) = Some (FunctionClosure_1_6_IsAutoDelete)"
  "map_of Function_IsAutoDelete_table (2, 5) = Some (FunctionClosure_2_5_IsAutoDelete)"
  "map_of Function_IsAutoDelete_table (3, 4) = Some (FunctionClosure_3_4_IsAutoDelete)"
  "map_of Function_IsAutoDelete_table (4, 3) = Some (FunctionClosure_4_3_IsAutoDelete)"
  "map_of Function_IsAutoDelete_table (5, 2) = Some (FunctionClosure_5_2_IsAutoDelete)"
  "map_of Function_IsAutoDelete_table (6, Suc 0) = Some (FunctionClosure_6_1_IsAutoDelete)"
  "map_of Function_IsAutoDelete_table (7, 0) = Some (FunctionClosure_7_0_IsAutoDelete)"
  by (simp_all add: Function_IsAutoDelete_table_def)

definition ClosureBase_dtor :: "'v closure_obj \<Rightarrow> 'v closure_obj" where
  "ClosureBase_dtor this =
     (case dyn_class this of (k, i, j) \<Rightarrow>
       case map_of (case k of Method \<Rightarrow> Method_dtor_table | Function \<Rightarrow> Function_dtor_table) (i, j) of Some f \<Rightarrow> f this | None \<Rightarrow> this)"

definition ClosureBase_IsAutoDelete :: "'v closure_obj \<Rightarrow> bool result" where
  "ClosureBase_IsAutoDelete this =
     (case dyn_class this of (k, i, j) \<Rightarrow>
       case map_of (case k of Method \<Rightarrow> Method_IsAutoDelete_table | Function \<Rightarrow> Function_IsAutoDelete_table) (i, j) of Some f \<Rightarrow> Inr (f this) | None \<Rightarrow> Inl Ill_typed)"

text \<open>The classes that exist: the pairs of arities with at most seven arguments in all.\<close>

definition closure_classes :: "closure_class set" where
  "closure_classes = {(k, i, j). i + j \<le> 7}"

lemma arity_le_7_cases:
  assumes "i + j \<le> (7 :: nat)"
  shows "(i, j) \<in> set (concat (map (\<lambda>n. map (\<lambda>i. (i, n - i)) [0..<Suc n]) [0..<8]))"
proof -
  have "i + j < 8" using assms by simp
  moreover have "(i, j) = (i, (i + j) - i)" by simp
  ultimately show ?thesis by (auto intro!: bexI [of _ "i + j"] image_eqI [of _ _ i])
qed

lemma arity_cases_simps:
  "concat (map (\<lambda>n. map (\<lambda>i. (i, n - i)) [0..<Suc n]) [0..<8]) =
     [(0, 0), (0, 1), (1, 0), (0, 2), (1, 1), (2, 0), (0, 3), (1, 2), (2, 1), (3, 0), (0, 4), (1, 3), (2, 2), (3, 1), (4, 0), (0, 5), (1, 4), (2, 3), (3, 2), (4, 1), (5, 0), (0, 6), (1, 5), (2, 4), (3, 3), (4, 2), (5, 1), (6, 0), (0, 7), (1, 6), (2, 5), (3, 4), (4, 3), (5, 2), (6, 1), (7, 0)]"
  by (simp add: upt_rec)

lemmas arity_cases = arity_le_7_cases [unfolded arity_cases_simps, simplified]

lemma IsAutoDelete_is_template_argument:
  assumes "dyn_class obj \<in> closure_classes"
  shows "ClosureBase_IsAutoDelete obj = Inr (tmpl_del obj)"
proof -
  obtain k i j where c: "dyn_class obj = (k, i, j)" and ij: "i + j \<le> 7"
    using assms by (auto simp: closure_classes_def)
  show ?thesis using arity_cases [OF ij] c
    by (cases k) (elim disjE; simp add: ClosureBase_IsAutoDelete_def
      Method_IsAutoDelete_table_lookup Function_IsAutoDelete_table_lookup closure_dtors)+
qed

end
