(* ===== verification/Stone_Closure_Run.thy ===== *)
theory Stone_Closure_Run
  imports Stone_Closure_Classes
begin

text \<open>
  \<^verbatim>\<open>base/closure.h\<close>: running and deleting closures. The state holds the live closure objects, the
  storage of the deleted ones as their destructors left it, and the rest of the program's state \<open>world\<close>.
  The program's own functions are a parameter \<open>code\<close>: what a call of the function at an address does,
  with the object it is called on and the arguments. A call returns, throws, or has undefined behaviour
  (\<open>Inl\<close>). \<open>SelfDeleter\<close> lives on the stack of \<open>Run\<close>, so its destructor deletes the closure after
  the call, also when the call throws.
\<close>

section \<open>State and calls\<close>

record ('v, 'w) cstate =
  objects :: "addr \<Rightarrow> 'v closure_obj option"
  freed :: "addr \<Rightarrow> 'v closure_obj option"
  world :: 'w

datatype 'v outcome = Return 'v | Throw 'v

type_synonym ('v, 'w) run = "('v, 'w) cstate \<Rightarrow> ('v outcome \<times> ('v, 'w) cstate) result"
type_synonym ('v, 'w) code = "fn \<Rightarrow> addr \<Rightarrow> 'v list \<Rightarrow> ('v, 'w) run"

named_theorems closure_runs \<open>the Run functions of the closure classes\<close>

definition call_method :: "('v, 'w) code \<Rightarrow> addr \<Rightarrow> fn \<Rightarrow> 'v list \<Rightarrow> ('v, 'w) run" where
  "call_method code obj func args s =
     (if obj = NULL \<or> func = 0 then Inl Null_dereference else code func obj args s)"

definition call_function :: "('v, 'w) code \<Rightarrow> fn \<Rightarrow> 'v list \<Rightarrow> ('v, 'w) run" where
  "call_function code func args s =
     (if func = 0 then Inl Null_dereference else code func NULL args s)"

definition ClosureBase_delete :: "addr \<Rightarrow> ('v, 'w) cstate \<Rightarrow> ('v, 'w) cstate result" where
  \<comment> \<open>a delete expression: nothing for the null pointer, else the virtual destructor, then the storage is freed\<close>
  "ClosureBase_delete p s =
     (if p = NULL then Inr s
      else case objects s p of
        None \<Rightarrow> Inl Use_after_free
      | Some obj \<Rightarrow> Inr (s\<lparr>objects := (objects s)(p := None), freed := (freed s)(p \<mapsto> ClosureBase_dtor obj)\<rparr>))"

definition SelfDeleter :: "bool \<Rightarrow> addr \<Rightarrow> ('v, 'w) run \<Rightarrow> ('v, 'w) run" where
  \<comment> \<open>the rest of the block after the declaration of the deleter, then its destructor\<close>
  "SelfDeleter del p body s =
     bind_result (body s) (\<lambda>(out, s').
       if del then bind_result (ClosureBase_delete p s') (\<lambda>s''. Inr (out, s''))
       else Inr (out, s'))"

text \<open>The members \<open>mA1\<close>, \<open>mA2\<close>, \<dots> and the application of a curried function to a list of arguments.\<close>

abbreviation mA1 :: "'v closure_obj \<Rightarrow> 'v" where
  "mA1 this \<equiv> mA this ! 0"

abbreviation mA2 :: "'v closure_obj \<Rightarrow> 'v" where
  "mA2 this \<equiv> mA this ! 1"

abbreviation mA3 :: "'v closure_obj \<Rightarrow> 'v" where
  "mA3 this \<equiv> mA this ! 2"

abbreviation mA4 :: "'v closure_obj \<Rightarrow> 'v" where
  "mA4 this \<equiv> mA this ! 3"

abbreviation mA5 :: "'v closure_obj \<Rightarrow> 'v" where
  "mA5 this \<equiv> mA this ! 4"

abbreviation mA6 :: "'v closure_obj \<Rightarrow> 'v" where
  "mA6 this \<equiv> mA this ! 5"

abbreviation mA7 :: "'v closure_obj \<Rightarrow> 'v" where
  "mA7 this \<equiv> mA this ! 6"

definition app0 :: "('r) \<Rightarrow> 'v list \<Rightarrow> 'r" where
  [closure_runs]: "app0 f xs = f"

definition app1 :: "('v \<Rightarrow> 'r) \<Rightarrow> 'v list \<Rightarrow> 'r" where
  [closure_runs]: "app1 f xs = f (xs ! 0)"

definition app2 :: "('v \<Rightarrow> 'v \<Rightarrow> 'r) \<Rightarrow> 'v list \<Rightarrow> 'r" where
  [closure_runs]: "app2 f xs = f (xs ! 0) (xs ! 1)"

definition app3 :: "('v \<Rightarrow> 'v \<Rightarrow> 'v \<Rightarrow> 'r) \<Rightarrow> 'v list \<Rightarrow> 'r" where
  [closure_runs]: "app3 f xs = f (xs ! 0) (xs ! 1) (xs ! 2)"

definition app4 :: "('v \<Rightarrow> 'v \<Rightarrow> 'v \<Rightarrow> 'v \<Rightarrow> 'r) \<Rightarrow> 'v list \<Rightarrow> 'r" where
  [closure_runs]: "app4 f xs = f (xs ! 0) (xs ! 1) (xs ! 2) (xs ! 3)"

definition app5 :: "('v \<Rightarrow> 'v \<Rightarrow> 'v \<Rightarrow> 'v \<Rightarrow> 'v \<Rightarrow> 'r) \<Rightarrow> 'v list \<Rightarrow> 'r" where
  [closure_runs]: "app5 f xs = f (xs ! 0) (xs ! 1) (xs ! 2) (xs ! 3) (xs ! 4)"

definition app6 :: "('v \<Rightarrow> 'v \<Rightarrow> 'v \<Rightarrow> 'v \<Rightarrow> 'v \<Rightarrow> 'v \<Rightarrow> 'r) \<Rightarrow> 'v list \<Rightarrow> 'r" where
  [closure_runs]: "app6 f xs = f (xs ! 0) (xs ! 1) (xs ! 2) (xs ! 3) (xs ! 4) (xs ! 5)"

definition app7 :: "('v \<Rightarrow> 'v \<Rightarrow> 'v \<Rightarrow> 'v \<Rightarrow> 'v \<Rightarrow> 'v \<Rightarrow> 'v \<Rightarrow> 'r) \<Rightarrow> 'v list \<Rightarrow> 'r" where
  [closure_runs]: "app7 f xs = f (xs ! 0) (xs ! 1) (xs ! 2) (xs ! 3) (xs ! 4) (xs ! 5) (xs ! 6)"

section \<open>Run of the method closures\<close>

definition MethodClosure_0_0_Run :: "('v, 'w) code \<Rightarrow> addr \<Rightarrow> 'v closure_obj \<Rightarrow> ('v, 'w) run" where
  [closure_runs]: "MethodClosure_0_0_Run code p this =
     SelfDeleter (tmpl_del this) p (call_method code (mObj this) (mFunc this) [])"

definition MethodClosure_0_1_Run :: "('v, 'w) code \<Rightarrow> addr \<Rightarrow> 'v closure_obj \<Rightarrow> 'v \<Rightarrow> ('v, 'w) run" where
  [closure_runs]: "MethodClosure_0_1_Run code p this a1 =
     SelfDeleter (tmpl_del this) p (call_method code (mObj this) (mFunc this) [a1])"

definition MethodClosure_1_0_Run :: "('v, 'w) code \<Rightarrow> addr \<Rightarrow> 'v closure_obj \<Rightarrow> ('v, 'w) run" where
  [closure_runs]: "MethodClosure_1_0_Run code p this =
     SelfDeleter (tmpl_del this) p (call_method code (mObj this) (mFunc this) [mA1 this])"

definition MethodClosure_0_2_Run :: "('v, 'w) code \<Rightarrow> addr \<Rightarrow> 'v closure_obj \<Rightarrow> 'v \<Rightarrow> 'v \<Rightarrow> ('v, 'w) run" where
  [closure_runs]: "MethodClosure_0_2_Run code p this a1 a2 =
     SelfDeleter (tmpl_del this) p (call_method code (mObj this) (mFunc this) [a1, a2])"

definition MethodClosure_1_1_Run :: "('v, 'w) code \<Rightarrow> addr \<Rightarrow> 'v closure_obj \<Rightarrow> 'v \<Rightarrow> ('v, 'w) run" where
  [closure_runs]: "MethodClosure_1_1_Run code p this a2 =
     SelfDeleter (tmpl_del this) p (call_method code (mObj this) (mFunc this) [mA1 this, a2])"

definition MethodClosure_2_0_Run :: "('v, 'w) code \<Rightarrow> addr \<Rightarrow> 'v closure_obj \<Rightarrow> ('v, 'w) run" where
  [closure_runs]: "MethodClosure_2_0_Run code p this =
     SelfDeleter (tmpl_del this) p (call_method code (mObj this) (mFunc this) [mA1 this, mA2 this])"

definition MethodClosure_0_3_Run :: "('v, 'w) code \<Rightarrow> addr \<Rightarrow> 'v closure_obj \<Rightarrow> 'v \<Rightarrow> 'v \<Rightarrow> 'v \<Rightarrow> ('v, 'w) run" where
  [closure_runs]: "MethodClosure_0_3_Run code p this a1 a2 a3 =
     SelfDeleter (tmpl_del this) p (call_method code (mObj this) (mFunc this) [a1, a2, a3])"

definition MethodClosure_1_2_Run :: "('v, 'w) code \<Rightarrow> addr \<Rightarrow> 'v closure_obj \<Rightarrow> 'v \<Rightarrow> 'v \<Rightarrow> ('v, 'w) run" where
  [closure_runs]: "MethodClosure_1_2_Run code p this a2 a3 =
     SelfDeleter (tmpl_del this) p (call_method code (mObj this) (mFunc this) [mA1 this, a2, a3])"

definition MethodClosure_2_1_Run :: "('v, 'w) code \<Rightarrow> addr \<Rightarrow> 'v closure_obj \<Rightarrow> 'v \<Rightarrow> ('v, 'w) run" where
  [closure_runs]: "MethodClosure_2_1_Run code p this a3 =
     SelfDeleter (tmpl_del this) p (call_method code (mObj this) (mFunc this) [mA1 this, mA2 this, a3])"

definition MethodClosure_3_0_Run :: "('v, 'w) code \<Rightarrow> addr \<Rightarrow> 'v closure_obj \<Rightarrow> ('v, 'w) run" where
  [closure_runs]: "MethodClosure_3_0_Run code p this =
     SelfDeleter (tmpl_del this) p (call_method code (mObj this) (mFunc this) [mA1 this, mA2 this, mA3 this])"

definition MethodClosure_0_4_Run :: "('v, 'w) code \<Rightarrow> addr \<Rightarrow> 'v closure_obj \<Rightarrow> 'v \<Rightarrow> 'v \<Rightarrow> 'v \<Rightarrow> 'v \<Rightarrow> ('v, 'w) run" where
  [closure_runs]: "MethodClosure_0_4_Run code p this a1 a2 a3 a4 =
     SelfDeleter (tmpl_del this) p (call_method code (mObj this) (mFunc this) [a1, a2, a3, a4])"

definition MethodClosure_1_3_Run :: "('v, 'w) code \<Rightarrow> addr \<Rightarrow> 'v closure_obj \<Rightarrow> 'v \<Rightarrow> 'v \<Rightarrow> 'v \<Rightarrow> ('v, 'w) run" where
  [closure_runs]: "MethodClosure_1_3_Run code p this a2 a3 a4 =
     SelfDeleter (tmpl_del this) p (call_method code (mObj this) (mFunc this) [mA1 this, a2, a3, a4])"

definition MethodClosure_2_2_Run :: "('v, 'w) code \<Rightarrow> addr \<Rightarrow> 'v closure_obj \<Rightarrow> 'v \<Rightarrow> 'v \<Rightarrow> ('v, 'w) run" where
  [closure_runs]: "MethodClosure_2_2_Run code p this a3 a4 =
     SelfDeleter (tmpl_del this) p (call_method code (mObj this) (mFunc this) [mA1 this, mA2 this, a3, a4])"

definition MethodClosure_3_1_Run :: "('v, 'w) code \<Rightarrow> addr \<Rightarrow> 'v closure_obj \<Rightarrow> 'v \<Rightarrow> ('v, 'w) run" where
  [closure_runs]: "MethodClosure_3_1_Run code p this a4 =
     SelfDeleter (tmpl_del this) p (call_method code (mObj this) (mFunc this) [mA1 this, mA2 this, mA3 this, a4])"

definition MethodClosure_4_0_Run :: "('v, 'w) code \<Rightarrow> addr \<Rightarrow> 'v closure_obj \<Rightarrow> ('v, 'w) run" where
  [closure_runs]: "MethodClosure_4_0_Run code p this =
     SelfDeleter (tmpl_del this) p (call_method code (mObj this) (mFunc this) [mA1 this, mA2 this, mA3 this, mA4 this])"

definition MethodClosure_0_5_Run :: "('v, 'w) code \<Rightarrow> addr \<Rightarrow> 'v closure_obj \<Rightarrow> 'v \<Rightarrow> 'v \<Rightarrow> 'v \<Rightarrow> 'v \<Rightarrow> 'v \<Rightarrow> ('v, 'w) run" where
  [closure_runs]: "MethodClosure_0_5_Run code p this a1 a2 a3 a4 a5 =
     SelfDeleter (tmpl_del this) p (call_method code (mObj this) (mFunc this) [a1, a2, a3, a4, a5])"

definition MethodClosure_1_4_Run :: "('v, 'w) code \<Rightarrow> addr \<Rightarrow> 'v closure_obj \<Rightarrow> 'v \<Rightarrow> 'v \<Rightarrow> 'v \<Rightarrow> 'v \<Rightarrow> ('v, 'w) run" where
  [closure_runs]: "MethodClosure_1_4_Run code p this a2 a3 a4 a5 =
     SelfDeleter (tmpl_del this) p (call_method code (mObj this) (mFunc this) [mA1 this, a2, a3, a4, a5])"

definition MethodClosure_2_3_Run :: "('v, 'w) code \<Rightarrow> addr \<Rightarrow> 'v closure_obj \<Rightarrow> 'v \<Rightarrow> 'v \<Rightarrow> 'v \<Rightarrow> ('v, 'w) run" where
  [closure_runs]: "MethodClosure_2_3_Run code p this a3 a4 a5 =
     SelfDeleter (tmpl_del this) p (call_method code (mObj this) (mFunc this) [mA1 this, mA2 this, a3, a4, a5])"

definition MethodClosure_3_2_Run :: "('v, 'w) code \<Rightarrow> addr \<Rightarrow> 'v closure_obj \<Rightarrow> 'v \<Rightarrow> 'v \<Rightarrow> ('v, 'w) run" where
  [closure_runs]: "MethodClosure_3_2_Run code p this a4 a5 =
     SelfDeleter (tmpl_del this) p (call_method code (mObj this) (mFunc this) [mA1 this, mA2 this, mA3 this, a4, a5])"

definition MethodClosure_4_1_Run :: "('v, 'w) code \<Rightarrow> addr \<Rightarrow> 'v closure_obj \<Rightarrow> 'v \<Rightarrow> ('v, 'w) run" where
  [closure_runs]: "MethodClosure_4_1_Run code p this a5 =
     SelfDeleter (tmpl_del this) p (call_method code (mObj this) (mFunc this) [mA1 this, mA2 this, mA3 this, mA4 this, a5])"

definition MethodClosure_5_0_Run :: "('v, 'w) code \<Rightarrow> addr \<Rightarrow> 'v closure_obj \<Rightarrow> ('v, 'w) run" where
  [closure_runs]: "MethodClosure_5_0_Run code p this =
     SelfDeleter (tmpl_del this) p (call_method code (mObj this) (mFunc this) [mA1 this, mA2 this, mA3 this, mA4 this, mA5 this])"

definition MethodClosure_0_6_Run :: "('v, 'w) code \<Rightarrow> addr \<Rightarrow> 'v closure_obj \<Rightarrow> 'v \<Rightarrow> 'v \<Rightarrow> 'v \<Rightarrow> 'v \<Rightarrow> 'v \<Rightarrow> 'v \<Rightarrow> ('v, 'w) run" where
  [closure_runs]: "MethodClosure_0_6_Run code p this a1 a2 a3 a4 a5 a6 =
     SelfDeleter (tmpl_del this) p (call_method code (mObj this) (mFunc this) [a1, a2, a3, a4, a5, a6])"

definition MethodClosure_1_5_Run :: "('v, 'w) code \<Rightarrow> addr \<Rightarrow> 'v closure_obj \<Rightarrow> 'v \<Rightarrow> 'v \<Rightarrow> 'v \<Rightarrow> 'v \<Rightarrow> 'v \<Rightarrow> ('v, 'w) run" where
  [closure_runs]: "MethodClosure_1_5_Run code p this a2 a3 a4 a5 a6 =
     SelfDeleter (tmpl_del this) p (call_method code (mObj this) (mFunc this) [mA1 this, a2, a3, a4, a5, a6])"

definition MethodClosure_2_4_Run :: "('v, 'w) code \<Rightarrow> addr \<Rightarrow> 'v closure_obj \<Rightarrow> 'v \<Rightarrow> 'v \<Rightarrow> 'v \<Rightarrow> 'v \<Rightarrow> ('v, 'w) run" where
  [closure_runs]: "MethodClosure_2_4_Run code p this a3 a4 a5 a6 =
     SelfDeleter (tmpl_del this) p (call_method code (mObj this) (mFunc this) [mA1 this, mA2 this, a3, a4, a5, a6])"

definition MethodClosure_3_3_Run :: "('v, 'w) code \<Rightarrow> addr \<Rightarrow> 'v closure_obj \<Rightarrow> 'v \<Rightarrow> 'v \<Rightarrow> 'v \<Rightarrow> ('v, 'w) run" where
  [closure_runs]: "MethodClosure_3_3_Run code p this a4 a5 a6 =
     SelfDeleter (tmpl_del this) p (call_method code (mObj this) (mFunc this) [mA1 this, mA2 this, mA3 this, a4, a5, a6])"

definition MethodClosure_4_2_Run :: "('v, 'w) code \<Rightarrow> addr \<Rightarrow> 'v closure_obj \<Rightarrow> 'v \<Rightarrow> 'v \<Rightarrow> ('v, 'w) run" where
  [closure_runs]: "MethodClosure_4_2_Run code p this a5 a6 =
     SelfDeleter (tmpl_del this) p (call_method code (mObj this) (mFunc this) [mA1 this, mA2 this, mA3 this, mA4 this, a5, a6])"

definition MethodClosure_5_1_Run :: "('v, 'w) code \<Rightarrow> addr \<Rightarrow> 'v closure_obj \<Rightarrow> 'v \<Rightarrow> ('v, 'w) run" where
  [closure_runs]: "MethodClosure_5_1_Run code p this a6 =
     SelfDeleter (tmpl_del this) p (call_method code (mObj this) (mFunc this) [mA1 this, mA2 this, mA3 this, mA4 this, mA5 this, a6])"

definition MethodClosure_6_0_Run :: "('v, 'w) code \<Rightarrow> addr \<Rightarrow> 'v closure_obj \<Rightarrow> ('v, 'w) run" where
  [closure_runs]: "MethodClosure_6_0_Run code p this =
     SelfDeleter (tmpl_del this) p (call_method code (mObj this) (mFunc this) [mA1 this, mA2 this, mA3 this, mA4 this, mA5 this, mA6 this])"

definition MethodClosure_0_7_Run :: "('v, 'w) code \<Rightarrow> addr \<Rightarrow> 'v closure_obj \<Rightarrow> 'v \<Rightarrow> 'v \<Rightarrow> 'v \<Rightarrow> 'v \<Rightarrow> 'v \<Rightarrow> 'v \<Rightarrow> 'v \<Rightarrow> ('v, 'w) run" where
  [closure_runs]: "MethodClosure_0_7_Run code p this a1 a2 a3 a4 a5 a6 a7 =
     SelfDeleter (tmpl_del this) p (call_method code (mObj this) (mFunc this) [a1, a2, a3, a4, a5, a6, a7])"

definition MethodClosure_1_6_Run :: "('v, 'w) code \<Rightarrow> addr \<Rightarrow> 'v closure_obj \<Rightarrow> 'v \<Rightarrow> 'v \<Rightarrow> 'v \<Rightarrow> 'v \<Rightarrow> 'v \<Rightarrow> 'v \<Rightarrow> ('v, 'w) run" where
  [closure_runs]: "MethodClosure_1_6_Run code p this a2 a3 a4 a5 a6 a7 =
     SelfDeleter (tmpl_del this) p (call_method code (mObj this) (mFunc this) [mA1 this, a2, a3, a4, a5, a6, a7])"

definition MethodClosure_2_5_Run :: "('v, 'w) code \<Rightarrow> addr \<Rightarrow> 'v closure_obj \<Rightarrow> 'v \<Rightarrow> 'v \<Rightarrow> 'v \<Rightarrow> 'v \<Rightarrow> 'v \<Rightarrow> ('v, 'w) run" where
  [closure_runs]: "MethodClosure_2_5_Run code p this a3 a4 a5 a6 a7 =
     SelfDeleter (tmpl_del this) p (call_method code (mObj this) (mFunc this) [mA1 this, mA2 this, a3, a4, a5, a6, a7])"

definition MethodClosure_3_4_Run :: "('v, 'w) code \<Rightarrow> addr \<Rightarrow> 'v closure_obj \<Rightarrow> 'v \<Rightarrow> 'v \<Rightarrow> 'v \<Rightarrow> 'v \<Rightarrow> ('v, 'w) run" where
  [closure_runs]: "MethodClosure_3_4_Run code p this a4 a5 a6 a7 =
     SelfDeleter (tmpl_del this) p (call_method code (mObj this) (mFunc this) [mA1 this, mA2 this, mA3 this, a4, a5, a6, a7])"

definition MethodClosure_4_3_Run :: "('v, 'w) code \<Rightarrow> addr \<Rightarrow> 'v closure_obj \<Rightarrow> 'v \<Rightarrow> 'v \<Rightarrow> 'v \<Rightarrow> ('v, 'w) run" where
  [closure_runs]: "MethodClosure_4_3_Run code p this a5 a6 a7 =
     SelfDeleter (tmpl_del this) p (call_method code (mObj this) (mFunc this) [mA1 this, mA2 this, mA3 this, mA4 this, a5, a6, a7])"

definition MethodClosure_5_2_Run :: "('v, 'w) code \<Rightarrow> addr \<Rightarrow> 'v closure_obj \<Rightarrow> 'v \<Rightarrow> 'v \<Rightarrow> ('v, 'w) run" where
  [closure_runs]: "MethodClosure_5_2_Run code p this a6 a7 =
     SelfDeleter (tmpl_del this) p (call_method code (mObj this) (mFunc this) [mA1 this, mA2 this, mA3 this, mA4 this, mA5 this, a6, a7])"

definition MethodClosure_6_1_Run :: "('v, 'w) code \<Rightarrow> addr \<Rightarrow> 'v closure_obj \<Rightarrow> 'v \<Rightarrow> ('v, 'w) run" where
  [closure_runs]: "MethodClosure_6_1_Run code p this a7 =
     SelfDeleter (tmpl_del this) p (call_method code (mObj this) (mFunc this) [mA1 this, mA2 this, mA3 this, mA4 this, mA5 this, mA6 this, a7])"

definition MethodClosure_7_0_Run :: "('v, 'w) code \<Rightarrow> addr \<Rightarrow> 'v closure_obj \<Rightarrow> ('v, 'w) run" where
  [closure_runs]: "MethodClosure_7_0_Run code p this =
     SelfDeleter (tmpl_del this) p (call_method code (mObj this) (mFunc this) [mA1 this, mA2 this, mA3 this, mA4 this, mA5 this, mA6 this, mA7 this])"

section \<open>Run of the function closures\<close>

definition FunctionClosure_0_0_Run :: "('v, 'w) code \<Rightarrow> addr \<Rightarrow> 'v closure_obj \<Rightarrow> ('v, 'w) run" where
  [closure_runs]: "FunctionClosure_0_0_Run code p this =
     SelfDeleter (tmpl_del this) p (call_function code (mFunc this) [])"

definition FunctionClosure_0_1_Run :: "('v, 'w) code \<Rightarrow> addr \<Rightarrow> 'v closure_obj \<Rightarrow> 'v \<Rightarrow> ('v, 'w) run" where
  [closure_runs]: "FunctionClosure_0_1_Run code p this a1 =
     SelfDeleter (tmpl_del this) p (call_function code (mFunc this) [a1])"

definition FunctionClosure_1_0_Run :: "('v, 'w) code \<Rightarrow> addr \<Rightarrow> 'v closure_obj \<Rightarrow> ('v, 'w) run" where
  [closure_runs]: "FunctionClosure_1_0_Run code p this =
     SelfDeleter (tmpl_del this) p (call_function code (mFunc this) [mA1 this])"

definition FunctionClosure_0_2_Run :: "('v, 'w) code \<Rightarrow> addr \<Rightarrow> 'v closure_obj \<Rightarrow> 'v \<Rightarrow> 'v \<Rightarrow> ('v, 'w) run" where
  [closure_runs]: "FunctionClosure_0_2_Run code p this a1 a2 =
     SelfDeleter (tmpl_del this) p (call_function code (mFunc this) [a1, a2])"

definition FunctionClosure_1_1_Run :: "('v, 'w) code \<Rightarrow> addr \<Rightarrow> 'v closure_obj \<Rightarrow> 'v \<Rightarrow> ('v, 'w) run" where
  [closure_runs]: "FunctionClosure_1_1_Run code p this a2 =
     SelfDeleter (tmpl_del this) p (call_function code (mFunc this) [mA1 this, a2])"

definition FunctionClosure_2_0_Run :: "('v, 'w) code \<Rightarrow> addr \<Rightarrow> 'v closure_obj \<Rightarrow> ('v, 'w) run" where
  [closure_runs]: "FunctionClosure_2_0_Run code p this =
     SelfDeleter (tmpl_del this) p (call_function code (mFunc this) [mA1 this, mA2 this])"

definition FunctionClosure_0_3_Run :: "('v, 'w) code \<Rightarrow> addr \<Rightarrow> 'v closure_obj \<Rightarrow> 'v \<Rightarrow> 'v \<Rightarrow> 'v \<Rightarrow> ('v, 'w) run" where
  [closure_runs]: "FunctionClosure_0_3_Run code p this a1 a2 a3 =
     SelfDeleter (tmpl_del this) p (call_function code (mFunc this) [a1, a2, a3])"

definition FunctionClosure_1_2_Run :: "('v, 'w) code \<Rightarrow> addr \<Rightarrow> 'v closure_obj \<Rightarrow> 'v \<Rightarrow> 'v \<Rightarrow> ('v, 'w) run" where
  [closure_runs]: "FunctionClosure_1_2_Run code p this a2 a3 =
     SelfDeleter (tmpl_del this) p (call_function code (mFunc this) [mA1 this, a2, a3])"

definition FunctionClosure_2_1_Run :: "('v, 'w) code \<Rightarrow> addr \<Rightarrow> 'v closure_obj \<Rightarrow> 'v \<Rightarrow> ('v, 'w) run" where
  [closure_runs]: "FunctionClosure_2_1_Run code p this a3 =
     SelfDeleter (tmpl_del this) p (call_function code (mFunc this) [mA1 this, mA2 this, a3])"

definition FunctionClosure_3_0_Run :: "('v, 'w) code \<Rightarrow> addr \<Rightarrow> 'v closure_obj \<Rightarrow> ('v, 'w) run" where
  [closure_runs]: "FunctionClosure_3_0_Run code p this =
     SelfDeleter (tmpl_del this) p (call_function code (mFunc this) [mA1 this, mA2 this, mA3 this])"

definition FunctionClosure_0_4_Run :: "('v, 'w) code \<Rightarrow> addr \<Rightarrow> 'v closure_obj \<Rightarrow> 'v \<Rightarrow> 'v \<Rightarrow> 'v \<Rightarrow> 'v \<Rightarrow> ('v, 'w) run" where
  [closure_runs]: "FunctionClosure_0_4_Run code p this a1 a2 a3 a4 =
     SelfDeleter (tmpl_del this) p (call_function code (mFunc this) [a1, a2, a3, a4])"

definition FunctionClosure_1_3_Run :: "('v, 'w) code \<Rightarrow> addr \<Rightarrow> 'v closure_obj \<Rightarrow> 'v \<Rightarrow> 'v \<Rightarrow> 'v \<Rightarrow> ('v, 'w) run" where
  [closure_runs]: "FunctionClosure_1_3_Run code p this a2 a3 a4 =
     SelfDeleter (tmpl_del this) p (call_function code (mFunc this) [mA1 this, a2, a3, a4])"

definition FunctionClosure_2_2_Run :: "('v, 'w) code \<Rightarrow> addr \<Rightarrow> 'v closure_obj \<Rightarrow> 'v \<Rightarrow> 'v \<Rightarrow> ('v, 'w) run" where
  [closure_runs]: "FunctionClosure_2_2_Run code p this a3 a4 =
     SelfDeleter (tmpl_del this) p (call_function code (mFunc this) [mA1 this, mA2 this, a3, a4])"

definition FunctionClosure_3_1_Run :: "('v, 'w) code \<Rightarrow> addr \<Rightarrow> 'v closure_obj \<Rightarrow> 'v \<Rightarrow> ('v, 'w) run" where
  [closure_runs]: "FunctionClosure_3_1_Run code p this a4 =
     SelfDeleter (tmpl_del this) p (call_function code (mFunc this) [mA1 this, mA2 this, mA3 this, a4])"

definition FunctionClosure_4_0_Run :: "('v, 'w) code \<Rightarrow> addr \<Rightarrow> 'v closure_obj \<Rightarrow> ('v, 'w) run" where
  [closure_runs]: "FunctionClosure_4_0_Run code p this =
     SelfDeleter (tmpl_del this) p (call_function code (mFunc this) [mA1 this, mA2 this, mA3 this, mA4 this])"

definition FunctionClosure_0_5_Run :: "('v, 'w) code \<Rightarrow> addr \<Rightarrow> 'v closure_obj \<Rightarrow> 'v \<Rightarrow> 'v \<Rightarrow> 'v \<Rightarrow> 'v \<Rightarrow> 'v \<Rightarrow> ('v, 'w) run" where
  [closure_runs]: "FunctionClosure_0_5_Run code p this a1 a2 a3 a4 a5 =
     SelfDeleter (tmpl_del this) p (call_function code (mFunc this) [a1, a2, a3, a4, a5])"

definition FunctionClosure_1_4_Run :: "('v, 'w) code \<Rightarrow> addr \<Rightarrow> 'v closure_obj \<Rightarrow> 'v \<Rightarrow> 'v \<Rightarrow> 'v \<Rightarrow> 'v \<Rightarrow> ('v, 'w) run" where
  [closure_runs]: "FunctionClosure_1_4_Run code p this a2 a3 a4 a5 =
     SelfDeleter (tmpl_del this) p (call_function code (mFunc this) [mA1 this, a2, a3, a4, a5])"

definition FunctionClosure_2_3_Run :: "('v, 'w) code \<Rightarrow> addr \<Rightarrow> 'v closure_obj \<Rightarrow> 'v \<Rightarrow> 'v \<Rightarrow> 'v \<Rightarrow> ('v, 'w) run" where
  [closure_runs]: "FunctionClosure_2_3_Run code p this a3 a4 a5 =
     SelfDeleter (tmpl_del this) p (call_function code (mFunc this) [mA1 this, mA2 this, a3, a4, a5])"

definition FunctionClosure_3_2_Run :: "('v, 'w) code \<Rightarrow> addr \<Rightarrow> 'v closure_obj \<Rightarrow> 'v \<Rightarrow> 'v \<Rightarrow> ('v, 'w) run" where
  [closure_runs]: "FunctionClosure_3_2_Run code p this a4 a5 =
     SelfDeleter (tmpl_del this) p (call_function code (mFunc this) [mA1 this, mA2 this, mA3 this, a4, a5])"

definition FunctionClosure_4_1_Run :: "('v, 'w) code \<Rightarrow> addr \<Rightarrow> 'v closure_obj \<Rightarrow> 'v \<Rightarrow> ('v, 'w) run" where
  [closure_runs]: "FunctionClosure_4_1_Run code p this a5 =
     SelfDeleter (tmpl_del this) p (call_function code (mFunc this) [mA1 this, mA2 this, mA3 this, mA4 this, a5])"

definition FunctionClosure_5_0_Run :: "('v, 'w) code \<Rightarrow> addr \<Rightarrow> 'v closure_obj \<Rightarrow> ('v, 'w) run" where
  [closure_runs]: "FunctionClosure_5_0_Run code p this =
     SelfDeleter (tmpl_del this) p (call_function code (mFunc this) [mA1 this, mA2 this, mA3 this, mA4 this, mA5 this])"

definition FunctionClosure_0_6_Run :: "('v, 'w) code \<Rightarrow> addr \<Rightarrow> 'v closure_obj \<Rightarrow> 'v \<Rightarrow> 'v \<Rightarrow> 'v \<Rightarrow> 'v \<Rightarrow> 'v \<Rightarrow> 'v \<Rightarrow> ('v, 'w) run" where
  [closure_runs]: "FunctionClosure_0_6_Run code p this a1 a2 a3 a4 a5 a6 =
     SelfDeleter (tmpl_del this) p (call_function code (mFunc this) [a1, a2, a3, a4, a5, a6])"

definition FunctionClosure_1_5_Run :: "('v, 'w) code \<Rightarrow> addr \<Rightarrow> 'v closure_obj \<Rightarrow> 'v \<Rightarrow> 'v \<Rightarrow> 'v \<Rightarrow> 'v \<Rightarrow> 'v \<Rightarrow> ('v, 'w) run" where
  [closure_runs]: "FunctionClosure_1_5_Run code p this a2 a3 a4 a5 a6 =
     SelfDeleter (tmpl_del this) p (call_function code (mFunc this) [mA1 this, a2, a3, a4, a5, a6])"

definition FunctionClosure_2_4_Run :: "('v, 'w) code \<Rightarrow> addr \<Rightarrow> 'v closure_obj \<Rightarrow> 'v \<Rightarrow> 'v \<Rightarrow> 'v \<Rightarrow> 'v \<Rightarrow> ('v, 'w) run" where
  [closure_runs]: "FunctionClosure_2_4_Run code p this a3 a4 a5 a6 =
     SelfDeleter (tmpl_del this) p (call_function code (mFunc this) [mA1 this, mA2 this, a3, a4, a5, a6])"

definition FunctionClosure_3_3_Run :: "('v, 'w) code \<Rightarrow> addr \<Rightarrow> 'v closure_obj \<Rightarrow> 'v \<Rightarrow> 'v \<Rightarrow> 'v \<Rightarrow> ('v, 'w) run" where
  [closure_runs]: "FunctionClosure_3_3_Run code p this a4 a5 a6 =
     SelfDeleter (tmpl_del this) p (call_function code (mFunc this) [mA1 this, mA2 this, mA3 this, a4, a5, a6])"

definition FunctionClosure_4_2_Run :: "('v, 'w) code \<Rightarrow> addr \<Rightarrow> 'v closure_obj \<Rightarrow> 'v \<Rightarrow> 'v \<Rightarrow> ('v, 'w) run" where
  [closure_runs]: "FunctionClosure_4_2_Run code p this a5 a6 =
     SelfDeleter (tmpl_del this) p (call_function code (mFunc this) [mA1 this, mA2 this, mA3 this, mA4 this, a5, a6])"

definition FunctionClosure_5_1_Run :: "('v, 'w) code \<Rightarrow> addr \<Rightarrow> 'v closure_obj \<Rightarrow> 'v \<Rightarrow> ('v, 'w) run" where
  [closure_runs]: "FunctionClosure_5_1_Run code p this a6 =
     SelfDeleter (tmpl_del this) p (call_function code (mFunc this) [mA1 this, mA2 this, mA3 this, mA4 this, mA5 this, a6])"

definition FunctionClosure_6_0_Run :: "('v, 'w) code \<Rightarrow> addr \<Rightarrow> 'v closure_obj \<Rightarrow> ('v, 'w) run" where
  [closure_runs]: "FunctionClosure_6_0_Run code p this =
     SelfDeleter (tmpl_del this) p (call_function code (mFunc this) [mA1 this, mA2 this, mA3 this, mA4 this, mA5 this, mA6 this])"

definition FunctionClosure_0_7_Run :: "('v, 'w) code \<Rightarrow> addr \<Rightarrow> 'v closure_obj \<Rightarrow> 'v \<Rightarrow> 'v \<Rightarrow> 'v \<Rightarrow> 'v \<Rightarrow> 'v \<Rightarrow> 'v \<Rightarrow> 'v \<Rightarrow> ('v, 'w) run" where
  [closure_runs]: "FunctionClosure_0_7_Run code p this a1 a2 a3 a4 a5 a6 a7 =
     SelfDeleter (tmpl_del this) p (call_function code (mFunc this) [a1, a2, a3, a4, a5, a6, a7])"

definition FunctionClosure_1_6_Run :: "('v, 'w) code \<Rightarrow> addr \<Rightarrow> 'v closure_obj \<Rightarrow> 'v \<Rightarrow> 'v \<Rightarrow> 'v \<Rightarrow> 'v \<Rightarrow> 'v \<Rightarrow> 'v \<Rightarrow> ('v, 'w) run" where
  [closure_runs]: "FunctionClosure_1_6_Run code p this a2 a3 a4 a5 a6 a7 =
     SelfDeleter (tmpl_del this) p (call_function code (mFunc this) [mA1 this, a2, a3, a4, a5, a6, a7])"

definition FunctionClosure_2_5_Run :: "('v, 'w) code \<Rightarrow> addr \<Rightarrow> 'v closure_obj \<Rightarrow> 'v \<Rightarrow> 'v \<Rightarrow> 'v \<Rightarrow> 'v \<Rightarrow> 'v \<Rightarrow> ('v, 'w) run" where
  [closure_runs]: "FunctionClosure_2_5_Run code p this a3 a4 a5 a6 a7 =
     SelfDeleter (tmpl_del this) p (call_function code (mFunc this) [mA1 this, mA2 this, a3, a4, a5, a6, a7])"

definition FunctionClosure_3_4_Run :: "('v, 'w) code \<Rightarrow> addr \<Rightarrow> 'v closure_obj \<Rightarrow> 'v \<Rightarrow> 'v \<Rightarrow> 'v \<Rightarrow> 'v \<Rightarrow> ('v, 'w) run" where
  [closure_runs]: "FunctionClosure_3_4_Run code p this a4 a5 a6 a7 =
     SelfDeleter (tmpl_del this) p (call_function code (mFunc this) [mA1 this, mA2 this, mA3 this, a4, a5, a6, a7])"

definition FunctionClosure_4_3_Run :: "('v, 'w) code \<Rightarrow> addr \<Rightarrow> 'v closure_obj \<Rightarrow> 'v \<Rightarrow> 'v \<Rightarrow> 'v \<Rightarrow> ('v, 'w) run" where
  [closure_runs]: "FunctionClosure_4_3_Run code p this a5 a6 a7 =
     SelfDeleter (tmpl_del this) p (call_function code (mFunc this) [mA1 this, mA2 this, mA3 this, mA4 this, a5, a6, a7])"

definition FunctionClosure_5_2_Run :: "('v, 'w) code \<Rightarrow> addr \<Rightarrow> 'v closure_obj \<Rightarrow> 'v \<Rightarrow> 'v \<Rightarrow> ('v, 'w) run" where
  [closure_runs]: "FunctionClosure_5_2_Run code p this a6 a7 =
     SelfDeleter (tmpl_del this) p (call_function code (mFunc this) [mA1 this, mA2 this, mA3 this, mA4 this, mA5 this, a6, a7])"

definition FunctionClosure_6_1_Run :: "('v, 'w) code \<Rightarrow> addr \<Rightarrow> 'v closure_obj \<Rightarrow> 'v \<Rightarrow> ('v, 'w) run" where
  [closure_runs]: "FunctionClosure_6_1_Run code p this a7 =
     SelfDeleter (tmpl_del this) p (call_function code (mFunc this) [mA1 this, mA2 this, mA3 this, mA4 this, mA5 this, mA6 this, a7])"

definition FunctionClosure_7_0_Run :: "('v, 'w) code \<Rightarrow> addr \<Rightarrow> 'v closure_obj \<Rightarrow> ('v, 'w) run" where
  [closure_runs]: "FunctionClosure_7_0_Run code p this =
     SelfDeleter (tmpl_del this) p (call_function code (mFunc this) [mA1 this, mA2 this, mA3 this, mA4 this, mA5 this, mA6 this, mA7 this])"

section \<open>The virtual function Run\<close>

definition Method_Run_table ::
  "((nat \<times> nat) \<times> (('v, 'w) code \<Rightarrow> addr \<Rightarrow> 'v closure_obj \<Rightarrow> 'v list \<Rightarrow> ('v, 'w) run)) list" where
  "Method_Run_table = [
     ((0, 0), \<lambda>code p this. app0 (MethodClosure_0_0_Run code p this)),
     ((0, 1), \<lambda>code p this. app1 (MethodClosure_0_1_Run code p this)),
     ((1, 0), \<lambda>code p this. app0 (MethodClosure_1_0_Run code p this)),
     ((0, 2), \<lambda>code p this. app2 (MethodClosure_0_2_Run code p this)),
     ((1, 1), \<lambda>code p this. app1 (MethodClosure_1_1_Run code p this)),
     ((2, 0), \<lambda>code p this. app0 (MethodClosure_2_0_Run code p this)),
     ((0, 3), \<lambda>code p this. app3 (MethodClosure_0_3_Run code p this)),
     ((1, 2), \<lambda>code p this. app2 (MethodClosure_1_2_Run code p this)),
     ((2, 1), \<lambda>code p this. app1 (MethodClosure_2_1_Run code p this)),
     ((3, 0), \<lambda>code p this. app0 (MethodClosure_3_0_Run code p this)),
     ((0, 4), \<lambda>code p this. app4 (MethodClosure_0_4_Run code p this)),
     ((1, 3), \<lambda>code p this. app3 (MethodClosure_1_3_Run code p this)),
     ((2, 2), \<lambda>code p this. app2 (MethodClosure_2_2_Run code p this)),
     ((3, 1), \<lambda>code p this. app1 (MethodClosure_3_1_Run code p this)),
     ((4, 0), \<lambda>code p this. app0 (MethodClosure_4_0_Run code p this)),
     ((0, 5), \<lambda>code p this. app5 (MethodClosure_0_5_Run code p this)),
     ((1, 4), \<lambda>code p this. app4 (MethodClosure_1_4_Run code p this)),
     ((2, 3), \<lambda>code p this. app3 (MethodClosure_2_3_Run code p this)),
     ((3, 2), \<lambda>code p this. app2 (MethodClosure_3_2_Run code p this)),
     ((4, 1), \<lambda>code p this. app1 (MethodClosure_4_1_Run code p this)),
     ((5, 0), \<lambda>code p this. app0 (MethodClosure_5_0_Run code p this)),
     ((0, 6), \<lambda>code p this. app6 (MethodClosure_0_6_Run code p this)),
     ((1, 5), \<lambda>code p this. app5 (MethodClosure_1_5_Run code p this)),
     ((2, 4), \<lambda>code p this. app4 (MethodClosure_2_4_Run code p this)),
     ((3, 3), \<lambda>code p this. app3 (MethodClosure_3_3_Run code p this)),
     ((4, 2), \<lambda>code p this. app2 (MethodClosure_4_2_Run code p this)),
     ((5, 1), \<lambda>code p this. app1 (MethodClosure_5_1_Run code p this)),
     ((6, 0), \<lambda>code p this. app0 (MethodClosure_6_0_Run code p this)),
     ((0, 7), \<lambda>code p this. app7 (MethodClosure_0_7_Run code p this)),
     ((1, 6), \<lambda>code p this. app6 (MethodClosure_1_6_Run code p this)),
     ((2, 5), \<lambda>code p this. app5 (MethodClosure_2_5_Run code p this)),
     ((3, 4), \<lambda>code p this. app4 (MethodClosure_3_4_Run code p this)),
     ((4, 3), \<lambda>code p this. app3 (MethodClosure_4_3_Run code p this)),
     ((5, 2), \<lambda>code p this. app2 (MethodClosure_5_2_Run code p this)),
     ((6, 1), \<lambda>code p this. app1 (MethodClosure_6_1_Run code p this)),
     ((7, 0), \<lambda>code p this. app0 (MethodClosure_7_0_Run code p this))]"

lemma Method_Run_table_lookup:
  "map_of Method_Run_table (0, 0) = Some (\<lambda>code p this. app0 (MethodClosure_0_0_Run code p this))"
  "map_of Method_Run_table (0, Suc 0) = Some (\<lambda>code p this. app1 (MethodClosure_0_1_Run code p this))"
  "map_of Method_Run_table (Suc 0, 0) = Some (\<lambda>code p this. app0 (MethodClosure_1_0_Run code p this))"
  "map_of Method_Run_table (0, 2) = Some (\<lambda>code p this. app2 (MethodClosure_0_2_Run code p this))"
  "map_of Method_Run_table (Suc 0, Suc 0) = Some (\<lambda>code p this. app1 (MethodClosure_1_1_Run code p this))"
  "map_of Method_Run_table (2, 0) = Some (\<lambda>code p this. app0 (MethodClosure_2_0_Run code p this))"
  "map_of Method_Run_table (0, 3) = Some (\<lambda>code p this. app3 (MethodClosure_0_3_Run code p this))"
  "map_of Method_Run_table (Suc 0, 2) = Some (\<lambda>code p this. app2 (MethodClosure_1_2_Run code p this))"
  "map_of Method_Run_table (2, Suc 0) = Some (\<lambda>code p this. app1 (MethodClosure_2_1_Run code p this))"
  "map_of Method_Run_table (3, 0) = Some (\<lambda>code p this. app0 (MethodClosure_3_0_Run code p this))"
  "map_of Method_Run_table (0, 4) = Some (\<lambda>code p this. app4 (MethodClosure_0_4_Run code p this))"
  "map_of Method_Run_table (Suc 0, 3) = Some (\<lambda>code p this. app3 (MethodClosure_1_3_Run code p this))"
  "map_of Method_Run_table (2, 2) = Some (\<lambda>code p this. app2 (MethodClosure_2_2_Run code p this))"
  "map_of Method_Run_table (3, Suc 0) = Some (\<lambda>code p this. app1 (MethodClosure_3_1_Run code p this))"
  "map_of Method_Run_table (4, 0) = Some (\<lambda>code p this. app0 (MethodClosure_4_0_Run code p this))"
  "map_of Method_Run_table (0, 5) = Some (\<lambda>code p this. app5 (MethodClosure_0_5_Run code p this))"
  "map_of Method_Run_table (Suc 0, 4) = Some (\<lambda>code p this. app4 (MethodClosure_1_4_Run code p this))"
  "map_of Method_Run_table (2, 3) = Some (\<lambda>code p this. app3 (MethodClosure_2_3_Run code p this))"
  "map_of Method_Run_table (3, 2) = Some (\<lambda>code p this. app2 (MethodClosure_3_2_Run code p this))"
  "map_of Method_Run_table (4, Suc 0) = Some (\<lambda>code p this. app1 (MethodClosure_4_1_Run code p this))"
  "map_of Method_Run_table (5, 0) = Some (\<lambda>code p this. app0 (MethodClosure_5_0_Run code p this))"
  "map_of Method_Run_table (0, 6) = Some (\<lambda>code p this. app6 (MethodClosure_0_6_Run code p this))"
  "map_of Method_Run_table (Suc 0, 5) = Some (\<lambda>code p this. app5 (MethodClosure_1_5_Run code p this))"
  "map_of Method_Run_table (2, 4) = Some (\<lambda>code p this. app4 (MethodClosure_2_4_Run code p this))"
  "map_of Method_Run_table (3, 3) = Some (\<lambda>code p this. app3 (MethodClosure_3_3_Run code p this))"
  "map_of Method_Run_table (4, 2) = Some (\<lambda>code p this. app2 (MethodClosure_4_2_Run code p this))"
  "map_of Method_Run_table (5, Suc 0) = Some (\<lambda>code p this. app1 (MethodClosure_5_1_Run code p this))"
  "map_of Method_Run_table (6, 0) = Some (\<lambda>code p this. app0 (MethodClosure_6_0_Run code p this))"
  "map_of Method_Run_table (0, 7) = Some (\<lambda>code p this. app7 (MethodClosure_0_7_Run code p this))"
  "map_of Method_Run_table (Suc 0, 6) = Some (\<lambda>code p this. app6 (MethodClosure_1_6_Run code p this))"
  "map_of Method_Run_table (2, 5) = Some (\<lambda>code p this. app5 (MethodClosure_2_5_Run code p this))"
  "map_of Method_Run_table (3, 4) = Some (\<lambda>code p this. app4 (MethodClosure_3_4_Run code p this))"
  "map_of Method_Run_table (4, 3) = Some (\<lambda>code p this. app3 (MethodClosure_4_3_Run code p this))"
  "map_of Method_Run_table (5, 2) = Some (\<lambda>code p this. app2 (MethodClosure_5_2_Run code p this))"
  "map_of Method_Run_table (6, Suc 0) = Some (\<lambda>code p this. app1 (MethodClosure_6_1_Run code p this))"
  "map_of Method_Run_table (7, 0) = Some (\<lambda>code p this. app0 (MethodClosure_7_0_Run code p this))"
  by (simp_all add: Method_Run_table_def)

definition Function_Run_table ::
  "((nat \<times> nat) \<times> (('v, 'w) code \<Rightarrow> addr \<Rightarrow> 'v closure_obj \<Rightarrow> 'v list \<Rightarrow> ('v, 'w) run)) list" where
  "Function_Run_table = [
     ((0, 0), \<lambda>code p this. app0 (FunctionClosure_0_0_Run code p this)),
     ((0, 1), \<lambda>code p this. app1 (FunctionClosure_0_1_Run code p this)),
     ((1, 0), \<lambda>code p this. app0 (FunctionClosure_1_0_Run code p this)),
     ((0, 2), \<lambda>code p this. app2 (FunctionClosure_0_2_Run code p this)),
     ((1, 1), \<lambda>code p this. app1 (FunctionClosure_1_1_Run code p this)),
     ((2, 0), \<lambda>code p this. app0 (FunctionClosure_2_0_Run code p this)),
     ((0, 3), \<lambda>code p this. app3 (FunctionClosure_0_3_Run code p this)),
     ((1, 2), \<lambda>code p this. app2 (FunctionClosure_1_2_Run code p this)),
     ((2, 1), \<lambda>code p this. app1 (FunctionClosure_2_1_Run code p this)),
     ((3, 0), \<lambda>code p this. app0 (FunctionClosure_3_0_Run code p this)),
     ((0, 4), \<lambda>code p this. app4 (FunctionClosure_0_4_Run code p this)),
     ((1, 3), \<lambda>code p this. app3 (FunctionClosure_1_3_Run code p this)),
     ((2, 2), \<lambda>code p this. app2 (FunctionClosure_2_2_Run code p this)),
     ((3, 1), \<lambda>code p this. app1 (FunctionClosure_3_1_Run code p this)),
     ((4, 0), \<lambda>code p this. app0 (FunctionClosure_4_0_Run code p this)),
     ((0, 5), \<lambda>code p this. app5 (FunctionClosure_0_5_Run code p this)),
     ((1, 4), \<lambda>code p this. app4 (FunctionClosure_1_4_Run code p this)),
     ((2, 3), \<lambda>code p this. app3 (FunctionClosure_2_3_Run code p this)),
     ((3, 2), \<lambda>code p this. app2 (FunctionClosure_3_2_Run code p this)),
     ((4, 1), \<lambda>code p this. app1 (FunctionClosure_4_1_Run code p this)),
     ((5, 0), \<lambda>code p this. app0 (FunctionClosure_5_0_Run code p this)),
     ((0, 6), \<lambda>code p this. app6 (FunctionClosure_0_6_Run code p this)),
     ((1, 5), \<lambda>code p this. app5 (FunctionClosure_1_5_Run code p this)),
     ((2, 4), \<lambda>code p this. app4 (FunctionClosure_2_4_Run code p this)),
     ((3, 3), \<lambda>code p this. app3 (FunctionClosure_3_3_Run code p this)),
     ((4, 2), \<lambda>code p this. app2 (FunctionClosure_4_2_Run code p this)),
     ((5, 1), \<lambda>code p this. app1 (FunctionClosure_5_1_Run code p this)),
     ((6, 0), \<lambda>code p this. app0 (FunctionClosure_6_0_Run code p this)),
     ((0, 7), \<lambda>code p this. app7 (FunctionClosure_0_7_Run code p this)),
     ((1, 6), \<lambda>code p this. app6 (FunctionClosure_1_6_Run code p this)),
     ((2, 5), \<lambda>code p this. app5 (FunctionClosure_2_5_Run code p this)),
     ((3, 4), \<lambda>code p this. app4 (FunctionClosure_3_4_Run code p this)),
     ((4, 3), \<lambda>code p this. app3 (FunctionClosure_4_3_Run code p this)),
     ((5, 2), \<lambda>code p this. app2 (FunctionClosure_5_2_Run code p this)),
     ((6, 1), \<lambda>code p this. app1 (FunctionClosure_6_1_Run code p this)),
     ((7, 0), \<lambda>code p this. app0 (FunctionClosure_7_0_Run code p this))]"

lemma Function_Run_table_lookup:
  "map_of Function_Run_table (0, 0) = Some (\<lambda>code p this. app0 (FunctionClosure_0_0_Run code p this))"
  "map_of Function_Run_table (0, Suc 0) = Some (\<lambda>code p this. app1 (FunctionClosure_0_1_Run code p this))"
  "map_of Function_Run_table (Suc 0, 0) = Some (\<lambda>code p this. app0 (FunctionClosure_1_0_Run code p this))"
  "map_of Function_Run_table (0, 2) = Some (\<lambda>code p this. app2 (FunctionClosure_0_2_Run code p this))"
  "map_of Function_Run_table (Suc 0, Suc 0) = Some (\<lambda>code p this. app1 (FunctionClosure_1_1_Run code p this))"
  "map_of Function_Run_table (2, 0) = Some (\<lambda>code p this. app0 (FunctionClosure_2_0_Run code p this))"
  "map_of Function_Run_table (0, 3) = Some (\<lambda>code p this. app3 (FunctionClosure_0_3_Run code p this))"
  "map_of Function_Run_table (Suc 0, 2) = Some (\<lambda>code p this. app2 (FunctionClosure_1_2_Run code p this))"
  "map_of Function_Run_table (2, Suc 0) = Some (\<lambda>code p this. app1 (FunctionClosure_2_1_Run code p this))"
  "map_of Function_Run_table (3, 0) = Some (\<lambda>code p this. app0 (FunctionClosure_3_0_Run code p this))"
  "map_of Function_Run_table (0, 4) = Some (\<lambda>code p this. app4 (FunctionClosure_0_4_Run code p this))"
  "map_of Function_Run_table (Suc 0, 3) = Some (\<lambda>code p this. app3 (FunctionClosure_1_3_Run code p this))"
  "map_of Function_Run_table (2, 2) = Some (\<lambda>code p this. app2 (FunctionClosure_2_2_Run code p this))"
  "map_of Function_Run_table (3, Suc 0) = Some (\<lambda>code p this. app1 (FunctionClosure_3_1_Run code p this))"
  "map_of Function_Run_table (4, 0) = Some (\<lambda>code p this. app0 (FunctionClosure_4_0_Run code p this))"
  "map_of Function_Run_table (0, 5) = Some (\<lambda>code p this. app5 (FunctionClosure_0_5_Run code p this))"
  "map_of Function_Run_table (Suc 0, 4) = Some (\<lambda>code p this. app4 (FunctionClosure_1_4_Run code p this))"
  "map_of Function_Run_table (2, 3) = Some (\<lambda>code p this. app3 (FunctionClosure_2_3_Run code p this))"
  "map_of Function_Run_table (3, 2) = Some (\<lambda>code p this. app2 (FunctionClosure_3_2_Run code p this))"
  "map_of Function_Run_table (4, Suc 0) = Some (\<lambda>code p this. app1 (FunctionClosure_4_1_Run code p this))"
  "map_of Function_Run_table (5, 0) = Some (\<lambda>code p this. app0 (FunctionClosure_5_0_Run code p this))"
  "map_of Function_Run_table (0, 6) = Some (\<lambda>code p this. app6 (FunctionClosure_0_6_Run code p this))"
  "map_of Function_Run_table (Suc 0, 5) = Some (\<lambda>code p this. app5 (FunctionClosure_1_5_Run code p this))"
  "map_of Function_Run_table (2, 4) = Some (\<lambda>code p this. app4 (FunctionClosure_2_4_Run code p this))"
  "map_of Function_Run_table (3, 3) = Some (\<lambda>code p this. app3 (FunctionClosure_3_3_Run code p this))"
  "map_of Function_Run_table (4, 2) = Some (\<lambda>code p this. app2 (FunctionClosure_4_2_Run code p this))"
  "map_of Function_Run_table (5, Suc 0) = Some (\<lambda>code p this. app1 (FunctionClosure_5_1_Run code p this))"
  "map_of Function_Run_table (6, 0) = Some (\<lambda>code p this. app0 (FunctionClosure_6_0_Run code p this))"
  "map_of Function_Run_table (0, 7) = Some (\<lambda>code p this. app7 (FunctionClosure_0_7_Run code p this))"
  "map_of Function_Run_table (Suc 0, 6) = Some (\<lambda>code p this. app6 (FunctionClosure_1_6_Run code p this))"
  "map_of Function_Run_table (2, 5) = Some (\<lambda>code p this. app5 (FunctionClosure_2_5_Run code p this))"
  "map_of Function_Run_table (3, 4) = Some (\<lambda>code p this. app4 (FunctionClosure_3_4_Run code p this))"
  "map_of Function_Run_table (4, 3) = Some (\<lambda>code p this. app3 (FunctionClosure_4_3_Run code p this))"
  "map_of Function_Run_table (5, 2) = Some (\<lambda>code p this. app2 (FunctionClosure_5_2_Run code p this))"
  "map_of Function_Run_table (6, Suc 0) = Some (\<lambda>code p this. app1 (FunctionClosure_6_1_Run code p this))"
  "map_of Function_Run_table (7, 0) = Some (\<lambda>code p this. app0 (FunctionClosure_7_0_Run code p this))"
  by (simp_all add: Function_Run_table_def)

definition Closure_Run :: "('v, 'w) code \<Rightarrow> addr \<Rightarrow> 'v list \<Rightarrow> ('v, 'w) run" where
  \<comment> \<open>a call of \<open>Run\<close> through a \<open>Closure<R, A1, \<dots>>*\<close>; the static type fixes the number of arguments, so that no program has
    the outcome \<open>Ill_typed\<close>\<close>
  "Closure_Run code p args s =
     (if p = NULL then Inl Null_dereference
      else case objects s p of
        None \<Rightarrow> Inl Use_after_free
      | Some obj \<Rightarrow>
          (case dyn_class obj of (k, i, j) \<Rightarrow>
            case map_of (case k of Method \<Rightarrow> Method_Run_table | Function \<Rightarrow> Function_Run_table) (i, j) of
              None \<Rightarrow> Inl Ill_typed
            | Some f \<Rightarrow> if j = length args then f code p obj args s else Inl Ill_typed))"

section \<open>Every class applies its function to the bound and then the free arguments\<close>

definition wf_closure :: "'v closure_obj \<Rightarrow> bool" where
  "wf_closure obj \<longleftrightarrow>
     (case dyn_class obj of (k, i, j) \<Rightarrow> i + j \<le> 7 \<and> length (mA obj) = i)"

definition call_target :: "('v, 'w) code \<Rightarrow> 'v closure_obj \<Rightarrow> 'v list \<Rightarrow> ('v, 'w) run" where
  "call_target code obj args =
     (case fst (dyn_class obj) of
       Method \<Rightarrow> call_method code (mObj obj) (mFunc obj) args
     | Function \<Rightarrow> call_function code (mFunc obj) args)"

lemma upt_0_to_7:
  "[0..<0] = []" "[0..<Suc 0] = [0]" "[0..<2] = [0, 1]" "[0..<3] = [0, 1, 2]" "[0..<4] = [0, 1, 2, 3]"
  "[0..<5] = [0, 1, 2, 3, 4]" "[0..<6] = [0, 1, 2, 3, 4, 5]" "[0..<7] = [0, 1, 2, 3, 4, 5, 6]"
  by (simp_all add: upt_rec)

lemma Run_table_lookup:
  assumes "i + j \<le> 7" and "length (mA obj) = i" and "length args = j" and "dyn_class obj = (k, i, j)"
  shows "\<exists>f. map_of (case k of Method \<Rightarrow> Method_Run_table | Function \<Rightarrow> Function_Run_table) (i, j) = Some f \<and>
    f code p obj args = SelfDeleter (tmpl_del obj) p (call_target code obj (mA obj @ args))"
proof -
  have "mA obj = map (\<lambda>q. mA obj ! q) [0..<i] \<and> args = map (\<lambda>q. args ! q) [0..<j]"
    using assms(2,3) by (auto intro: map_nth [symmetric])
  then have *: "call_target code obj (mA obj @ args) =
      call_target code obj (map (\<lambda>q. mA obj ! q) [0..<i] @ map (\<lambda>q. args ! q) [0..<j])" by metis
  show ?thesis
  proof (cases k)
    case Method
    then show ?thesis unfolding * using arity_cases [OF assms(1)]
      by (elim disjE) (simp_all add: assms(4) Method_Run_table_lookup
          closure_runs call_target_def upt_0_to_7 del: upt_Suc)
  next
    case Function
    then show ?thesis unfolding * using arity_cases [OF assms(1)]
      by (elim disjE) (simp_all add: assms(4) Function_Run_table_lookup
          closure_runs call_target_def upt_0_to_7 del: upt_Suc)
  qed
qed

lemma Closure_Run_live:
  assumes "p \<noteq> NULL" and "objects s p = Some obj" and "wf_closure obj"
    and "snd (snd (dyn_class obj)) = length args"
  shows "Closure_Run code p args s = SelfDeleter (tmpl_del obj) p (call_target code obj (mA obj @ args)) s"
proof -
  obtain k i j where c: "dyn_class obj = (k, i, j)" by (cases "dyn_class obj")
  then have "i + j \<le> 7" "length (mA obj) = i" "length args = j"
    using assms(3,4) by (simp_all add: wf_closure_def)
  then obtain f where
    "map_of (case k of Method \<Rightarrow> Method_Run_table | Function \<Rightarrow> Function_Run_table) (i, j) = Some f"
    "f code p obj args = SelfDeleter (tmpl_del obj) p (call_target code obj (mA obj @ args))"
    using Run_table_lookup [of i j obj args k code p] c by blast
  then show ?thesis
    using assms(1,2) c \<open>length args = j\<close> by (simp add: Closure_Run_def)
qed

end
