(* ===== verification/Stone_Closure_New.thy ===== *)
theory Stone_Closure_New
  imports Stone_Closure_Run
begin

text \<open>
  \<^verbatim>\<open>base/closure.h\<close>: the overloads of \<open>NewClosure\<close> (self-deleting) and \<open>NewPermanentClosure\<close>, the
  contract of a closure factory as a locale, and the properties of closures. The address that
  \<open>operator new\<close> returns is the argument \<open>p\<close>. The overloads carry their class's arities in their
  names; \<open>NewClosure_method\<close> and its three siblings select the overload by the number of bound and
  of free arguments, as the call's types do.
\<close>

named_theorems closure_news \<open>the overloads that create closures\<close>

definition new_object :: "addr \<Rightarrow> 'v closure_obj \<Rightarrow> ('v, 'w) cstate \<Rightarrow> addr \<times> ('v, 'w) cstate" where
  "new_object p obj s = (p, s\<lparr>objects := (objects s)(p \<mapsto> obj), freed := (freed s)(p := None)\<rparr>)"

section \<open>NewClosure for methods\<close>

definition NewClosure_method_0_0 :: "addr \<Rightarrow> addr \<Rightarrow> fn \<Rightarrow> ('v, 'w) cstate \<Rightarrow> addr \<times> ('v, 'w) cstate" where
  [closure_news]: "NewClosure_method_0_0 p obj func = new_object p (MethodClosure_0_0 True obj func)"

definition NewClosure_method_0_1 :: "addr \<Rightarrow> addr \<Rightarrow> fn \<Rightarrow> ('v, 'w) cstate \<Rightarrow> addr \<times> ('v, 'w) cstate" where
  [closure_news]: "NewClosure_method_0_1 p obj func = new_object p (MethodClosure_0_1 True obj func)"

definition NewClosure_method_1_0 :: "addr \<Rightarrow> addr \<Rightarrow> fn \<Rightarrow> 'v \<Rightarrow> ('v, 'w) cstate \<Rightarrow> addr \<times> ('v, 'w) cstate" where
  [closure_news]: "NewClosure_method_1_0 p obj func a1 = new_object p (MethodClosure_1_0 True obj func a1)"

definition NewClosure_method_0_2 :: "addr \<Rightarrow> addr \<Rightarrow> fn \<Rightarrow> ('v, 'w) cstate \<Rightarrow> addr \<times> ('v, 'w) cstate" where
  [closure_news]: "NewClosure_method_0_2 p obj func = new_object p (MethodClosure_0_2 True obj func)"

definition NewClosure_method_1_1 :: "addr \<Rightarrow> addr \<Rightarrow> fn \<Rightarrow> 'v \<Rightarrow> ('v, 'w) cstate \<Rightarrow> addr \<times> ('v, 'w) cstate" where
  [closure_news]: "NewClosure_method_1_1 p obj func a1 = new_object p (MethodClosure_1_1 True obj func a1)"

definition NewClosure_method_2_0 :: "addr \<Rightarrow> addr \<Rightarrow> fn \<Rightarrow> 'v \<Rightarrow> 'v \<Rightarrow> ('v, 'w) cstate \<Rightarrow> addr \<times> ('v, 'w) cstate" where
  [closure_news]: "NewClosure_method_2_0 p obj func a1 a2 = new_object p (MethodClosure_2_0 True obj func a1 a2)"

definition NewClosure_method_0_3 :: "addr \<Rightarrow> addr \<Rightarrow> fn \<Rightarrow> ('v, 'w) cstate \<Rightarrow> addr \<times> ('v, 'w) cstate" where
  [closure_news]: "NewClosure_method_0_3 p obj func = new_object p (MethodClosure_0_3 True obj func)"

definition NewClosure_method_1_2 :: "addr \<Rightarrow> addr \<Rightarrow> fn \<Rightarrow> 'v \<Rightarrow> ('v, 'w) cstate \<Rightarrow> addr \<times> ('v, 'w) cstate" where
  [closure_news]: "NewClosure_method_1_2 p obj func a1 = new_object p (MethodClosure_1_2 True obj func a1)"

definition NewClosure_method_2_1 :: "addr \<Rightarrow> addr \<Rightarrow> fn \<Rightarrow> 'v \<Rightarrow> 'v \<Rightarrow> ('v, 'w) cstate \<Rightarrow> addr \<times> ('v, 'w) cstate" where
  [closure_news]: "NewClosure_method_2_1 p obj func a1 a2 = new_object p (MethodClosure_2_1 True obj func a1 a2)"

definition NewClosure_method_3_0 :: "addr \<Rightarrow> addr \<Rightarrow> fn \<Rightarrow> 'v \<Rightarrow> 'v \<Rightarrow> 'v \<Rightarrow> ('v, 'w) cstate \<Rightarrow> addr \<times> ('v, 'w) cstate" where
  [closure_news]: "NewClosure_method_3_0 p obj func a1 a2 a3 = new_object p (MethodClosure_3_0 True obj func a1 a2 a3)"

definition NewClosure_method_0_4 :: "addr \<Rightarrow> addr \<Rightarrow> fn \<Rightarrow> ('v, 'w) cstate \<Rightarrow> addr \<times> ('v, 'w) cstate" where
  [closure_news]: "NewClosure_method_0_4 p obj func = new_object p (MethodClosure_0_4 True obj func)"

definition NewClosure_method_1_3 :: "addr \<Rightarrow> addr \<Rightarrow> fn \<Rightarrow> 'v \<Rightarrow> ('v, 'w) cstate \<Rightarrow> addr \<times> ('v, 'w) cstate" where
  [closure_news]: "NewClosure_method_1_3 p obj func a1 = new_object p (MethodClosure_1_3 True obj func a1)"

definition NewClosure_method_2_2 :: "addr \<Rightarrow> addr \<Rightarrow> fn \<Rightarrow> 'v \<Rightarrow> 'v \<Rightarrow> ('v, 'w) cstate \<Rightarrow> addr \<times> ('v, 'w) cstate" where
  [closure_news]: "NewClosure_method_2_2 p obj func a1 a2 = new_object p (MethodClosure_2_2 True obj func a1 a2)"

definition NewClosure_method_3_1 :: "addr \<Rightarrow> addr \<Rightarrow> fn \<Rightarrow> 'v \<Rightarrow> 'v \<Rightarrow> 'v \<Rightarrow> ('v, 'w) cstate \<Rightarrow> addr \<times> ('v, 'w) cstate" where
  [closure_news]: "NewClosure_method_3_1 p obj func a1 a2 a3 = new_object p (MethodClosure_3_1 True obj func a1 a2 a3)"

definition NewClosure_method_4_0 :: "addr \<Rightarrow> addr \<Rightarrow> fn \<Rightarrow> 'v \<Rightarrow> 'v \<Rightarrow> 'v \<Rightarrow> 'v \<Rightarrow> ('v, 'w) cstate \<Rightarrow> addr \<times> ('v, 'w) cstate" where
  [closure_news]: "NewClosure_method_4_0 p obj func a1 a2 a3 a4 = new_object p (MethodClosure_4_0 True obj func a1 a2 a3 a4)"

definition NewClosure_method_0_5 :: "addr \<Rightarrow> addr \<Rightarrow> fn \<Rightarrow> ('v, 'w) cstate \<Rightarrow> addr \<times> ('v, 'w) cstate" where
  [closure_news]: "NewClosure_method_0_5 p obj func = new_object p (MethodClosure_0_5 True obj func)"

definition NewClosure_method_1_4 :: "addr \<Rightarrow> addr \<Rightarrow> fn \<Rightarrow> 'v \<Rightarrow> ('v, 'w) cstate \<Rightarrow> addr \<times> ('v, 'w) cstate" where
  [closure_news]: "NewClosure_method_1_4 p obj func a1 = new_object p (MethodClosure_1_4 True obj func a1)"

definition NewClosure_method_2_3 :: "addr \<Rightarrow> addr \<Rightarrow> fn \<Rightarrow> 'v \<Rightarrow> 'v \<Rightarrow> ('v, 'w) cstate \<Rightarrow> addr \<times> ('v, 'w) cstate" where
  [closure_news]: "NewClosure_method_2_3 p obj func a1 a2 = new_object p (MethodClosure_2_3 True obj func a1 a2)"

definition NewClosure_method_3_2 :: "addr \<Rightarrow> addr \<Rightarrow> fn \<Rightarrow> 'v \<Rightarrow> 'v \<Rightarrow> 'v \<Rightarrow> ('v, 'w) cstate \<Rightarrow> addr \<times> ('v, 'w) cstate" where
  [closure_news]: "NewClosure_method_3_2 p obj func a1 a2 a3 = new_object p (MethodClosure_3_2 True obj func a1 a2 a3)"

definition NewClosure_method_4_1 :: "addr \<Rightarrow> addr \<Rightarrow> fn \<Rightarrow> 'v \<Rightarrow> 'v \<Rightarrow> 'v \<Rightarrow> 'v \<Rightarrow> ('v, 'w) cstate \<Rightarrow> addr \<times> ('v, 'w) cstate" where
  [closure_news]: "NewClosure_method_4_1 p obj func a1 a2 a3 a4 = new_object p (MethodClosure_4_1 True obj func a1 a2 a3 a4)"

definition NewClosure_method_5_0 :: "addr \<Rightarrow> addr \<Rightarrow> fn \<Rightarrow> 'v \<Rightarrow> 'v \<Rightarrow> 'v \<Rightarrow> 'v \<Rightarrow> 'v \<Rightarrow> ('v, 'w) cstate \<Rightarrow> addr \<times> ('v, 'w) cstate" where
  [closure_news]: "NewClosure_method_5_0 p obj func a1 a2 a3 a4 a5 = new_object p (MethodClosure_5_0 True obj func a1 a2 a3 a4 a5)"

definition NewClosure_method_0_6 :: "addr \<Rightarrow> addr \<Rightarrow> fn \<Rightarrow> ('v, 'w) cstate \<Rightarrow> addr \<times> ('v, 'w) cstate" where
  [closure_news]: "NewClosure_method_0_6 p obj func = new_object p (MethodClosure_0_6 True obj func)"

definition NewClosure_method_1_5 :: "addr \<Rightarrow> addr \<Rightarrow> fn \<Rightarrow> 'v \<Rightarrow> ('v, 'w) cstate \<Rightarrow> addr \<times> ('v, 'w) cstate" where
  [closure_news]: "NewClosure_method_1_5 p obj func a1 = new_object p (MethodClosure_1_5 True obj func a1)"

definition NewClosure_method_2_4 :: "addr \<Rightarrow> addr \<Rightarrow> fn \<Rightarrow> 'v \<Rightarrow> 'v \<Rightarrow> ('v, 'w) cstate \<Rightarrow> addr \<times> ('v, 'w) cstate" where
  [closure_news]: "NewClosure_method_2_4 p obj func a1 a2 = new_object p (MethodClosure_2_4 True obj func a1 a2)"

definition NewClosure_method_3_3 :: "addr \<Rightarrow> addr \<Rightarrow> fn \<Rightarrow> 'v \<Rightarrow> 'v \<Rightarrow> 'v \<Rightarrow> ('v, 'w) cstate \<Rightarrow> addr \<times> ('v, 'w) cstate" where
  [closure_news]: "NewClosure_method_3_3 p obj func a1 a2 a3 = new_object p (MethodClosure_3_3 True obj func a1 a2 a3)"

definition NewClosure_method_4_2 :: "addr \<Rightarrow> addr \<Rightarrow> fn \<Rightarrow> 'v \<Rightarrow> 'v \<Rightarrow> 'v \<Rightarrow> 'v \<Rightarrow> ('v, 'w) cstate \<Rightarrow> addr \<times> ('v, 'w) cstate" where
  [closure_news]: "NewClosure_method_4_2 p obj func a1 a2 a3 a4 = new_object p (MethodClosure_4_2 True obj func a1 a2 a3 a4)"

definition NewClosure_method_5_1 :: "addr \<Rightarrow> addr \<Rightarrow> fn \<Rightarrow> 'v \<Rightarrow> 'v \<Rightarrow> 'v \<Rightarrow> 'v \<Rightarrow> 'v \<Rightarrow> ('v, 'w) cstate \<Rightarrow> addr \<times> ('v, 'w) cstate" where
  [closure_news]: "NewClosure_method_5_1 p obj func a1 a2 a3 a4 a5 = new_object p (MethodClosure_5_1 True obj func a1 a2 a3 a4 a5)"

definition NewClosure_method_6_0 :: "addr \<Rightarrow> addr \<Rightarrow> fn \<Rightarrow> 'v \<Rightarrow> 'v \<Rightarrow> 'v \<Rightarrow> 'v \<Rightarrow> 'v \<Rightarrow> 'v \<Rightarrow> ('v, 'w) cstate \<Rightarrow> addr \<times> ('v, 'w) cstate" where
  [closure_news]: "NewClosure_method_6_0 p obj func a1 a2 a3 a4 a5 a6 = new_object p (MethodClosure_6_0 True obj func a1 a2 a3 a4 a5 a6)"

definition NewClosure_method_0_7 :: "addr \<Rightarrow> addr \<Rightarrow> fn \<Rightarrow> ('v, 'w) cstate \<Rightarrow> addr \<times> ('v, 'w) cstate" where
  [closure_news]: "NewClosure_method_0_7 p obj func = new_object p (MethodClosure_0_7 True obj func)"

definition NewClosure_method_1_6 :: "addr \<Rightarrow> addr \<Rightarrow> fn \<Rightarrow> 'v \<Rightarrow> ('v, 'w) cstate \<Rightarrow> addr \<times> ('v, 'w) cstate" where
  [closure_news]: "NewClosure_method_1_6 p obj func a1 = new_object p (MethodClosure_1_6 True obj func a1)"

definition NewClosure_method_2_5 :: "addr \<Rightarrow> addr \<Rightarrow> fn \<Rightarrow> 'v \<Rightarrow> 'v \<Rightarrow> ('v, 'w) cstate \<Rightarrow> addr \<times> ('v, 'w) cstate" where
  [closure_news]: "NewClosure_method_2_5 p obj func a1 a2 = new_object p (MethodClosure_2_5 True obj func a1 a2)"

definition NewClosure_method_3_4 :: "addr \<Rightarrow> addr \<Rightarrow> fn \<Rightarrow> 'v \<Rightarrow> 'v \<Rightarrow> 'v \<Rightarrow> ('v, 'w) cstate \<Rightarrow> addr \<times> ('v, 'w) cstate" where
  [closure_news]: "NewClosure_method_3_4 p obj func a1 a2 a3 = new_object p (MethodClosure_3_4 True obj func a1 a2 a3)"

definition NewClosure_method_4_3 :: "addr \<Rightarrow> addr \<Rightarrow> fn \<Rightarrow> 'v \<Rightarrow> 'v \<Rightarrow> 'v \<Rightarrow> 'v \<Rightarrow> ('v, 'w) cstate \<Rightarrow> addr \<times> ('v, 'w) cstate" where
  [closure_news]: "NewClosure_method_4_3 p obj func a1 a2 a3 a4 = new_object p (MethodClosure_4_3 True obj func a1 a2 a3 a4)"

definition NewClosure_method_5_2 :: "addr \<Rightarrow> addr \<Rightarrow> fn \<Rightarrow> 'v \<Rightarrow> 'v \<Rightarrow> 'v \<Rightarrow> 'v \<Rightarrow> 'v \<Rightarrow> ('v, 'w) cstate \<Rightarrow> addr \<times> ('v, 'w) cstate" where
  [closure_news]: "NewClosure_method_5_2 p obj func a1 a2 a3 a4 a5 = new_object p (MethodClosure_5_2 True obj func a1 a2 a3 a4 a5)"

definition NewClosure_method_6_1 :: "addr \<Rightarrow> addr \<Rightarrow> fn \<Rightarrow> 'v \<Rightarrow> 'v \<Rightarrow> 'v \<Rightarrow> 'v \<Rightarrow> 'v \<Rightarrow> 'v \<Rightarrow> ('v, 'w) cstate \<Rightarrow> addr \<times> ('v, 'w) cstate" where
  [closure_news]: "NewClosure_method_6_1 p obj func a1 a2 a3 a4 a5 a6 = new_object p (MethodClosure_6_1 True obj func a1 a2 a3 a4 a5 a6)"

definition NewClosure_method_7_0 :: "addr \<Rightarrow> addr \<Rightarrow> fn \<Rightarrow> 'v \<Rightarrow> 'v \<Rightarrow> 'v \<Rightarrow> 'v \<Rightarrow> 'v \<Rightarrow> 'v \<Rightarrow> 'v \<Rightarrow> ('v, 'w) cstate \<Rightarrow> addr \<times> ('v, 'w) cstate" where
  [closure_news]: "NewClosure_method_7_0 p obj func a1 a2 a3 a4 a5 a6 a7 = new_object p (MethodClosure_7_0 True obj func a1 a2 a3 a4 a5 a6 a7)"

section \<open>NewPermanentClosure for methods\<close>

definition NewPermanentClosure_method_0_0 :: "addr \<Rightarrow> addr \<Rightarrow> fn \<Rightarrow> ('v, 'w) cstate \<Rightarrow> addr \<times> ('v, 'w) cstate" where
  [closure_news]: "NewPermanentClosure_method_0_0 p obj func = new_object p (MethodClosure_0_0 False obj func)"

definition NewPermanentClosure_method_0_1 :: "addr \<Rightarrow> addr \<Rightarrow> fn \<Rightarrow> ('v, 'w) cstate \<Rightarrow> addr \<times> ('v, 'w) cstate" where
  [closure_news]: "NewPermanentClosure_method_0_1 p obj func = new_object p (MethodClosure_0_1 False obj func)"

definition NewPermanentClosure_method_1_0 :: "addr \<Rightarrow> addr \<Rightarrow> fn \<Rightarrow> 'v \<Rightarrow> ('v, 'w) cstate \<Rightarrow> addr \<times> ('v, 'w) cstate" where
  [closure_news]: "NewPermanentClosure_method_1_0 p obj func a1 = new_object p (MethodClosure_1_0 False obj func a1)"

definition NewPermanentClosure_method_0_2 :: "addr \<Rightarrow> addr \<Rightarrow> fn \<Rightarrow> ('v, 'w) cstate \<Rightarrow> addr \<times> ('v, 'w) cstate" where
  [closure_news]: "NewPermanentClosure_method_0_2 p obj func = new_object p (MethodClosure_0_2 False obj func)"

definition NewPermanentClosure_method_1_1 :: "addr \<Rightarrow> addr \<Rightarrow> fn \<Rightarrow> 'v \<Rightarrow> ('v, 'w) cstate \<Rightarrow> addr \<times> ('v, 'w) cstate" where
  [closure_news]: "NewPermanentClosure_method_1_1 p obj func a1 = new_object p (MethodClosure_1_1 False obj func a1)"

definition NewPermanentClosure_method_2_0 :: "addr \<Rightarrow> addr \<Rightarrow> fn \<Rightarrow> 'v \<Rightarrow> 'v \<Rightarrow> ('v, 'w) cstate \<Rightarrow> addr \<times> ('v, 'w) cstate" where
  [closure_news]: "NewPermanentClosure_method_2_0 p obj func a1 a2 = new_object p (MethodClosure_2_0 False obj func a1 a2)"

definition NewPermanentClosure_method_0_3 :: "addr \<Rightarrow> addr \<Rightarrow> fn \<Rightarrow> ('v, 'w) cstate \<Rightarrow> addr \<times> ('v, 'w) cstate" where
  [closure_news]: "NewPermanentClosure_method_0_3 p obj func = new_object p (MethodClosure_0_3 False obj func)"

definition NewPermanentClosure_method_1_2 :: "addr \<Rightarrow> addr \<Rightarrow> fn \<Rightarrow> 'v \<Rightarrow> ('v, 'w) cstate \<Rightarrow> addr \<times> ('v, 'w) cstate" where
  [closure_news]: "NewPermanentClosure_method_1_2 p obj func a1 = new_object p (MethodClosure_1_2 False obj func a1)"

definition NewPermanentClosure_method_2_1 :: "addr \<Rightarrow> addr \<Rightarrow> fn \<Rightarrow> 'v \<Rightarrow> 'v \<Rightarrow> ('v, 'w) cstate \<Rightarrow> addr \<times> ('v, 'w) cstate" where
  [closure_news]: "NewPermanentClosure_method_2_1 p obj func a1 a2 = new_object p (MethodClosure_2_1 False obj func a1 a2)"

definition NewPermanentClosure_method_3_0 :: "addr \<Rightarrow> addr \<Rightarrow> fn \<Rightarrow> 'v \<Rightarrow> 'v \<Rightarrow> 'v \<Rightarrow> ('v, 'w) cstate \<Rightarrow> addr \<times> ('v, 'w) cstate" where
  [closure_news]: "NewPermanentClosure_method_3_0 p obj func a1 a2 a3 = new_object p (MethodClosure_3_0 False obj func a1 a2 a3)"

definition NewPermanentClosure_method_0_4 :: "addr \<Rightarrow> addr \<Rightarrow> fn \<Rightarrow> ('v, 'w) cstate \<Rightarrow> addr \<times> ('v, 'w) cstate" where
  [closure_news]: "NewPermanentClosure_method_0_4 p obj func = new_object p (MethodClosure_0_4 False obj func)"

definition NewPermanentClosure_method_1_3 :: "addr \<Rightarrow> addr \<Rightarrow> fn \<Rightarrow> 'v \<Rightarrow> ('v, 'w) cstate \<Rightarrow> addr \<times> ('v, 'w) cstate" where
  [closure_news]: "NewPermanentClosure_method_1_3 p obj func a1 = new_object p (MethodClosure_1_3 False obj func a1)"

definition NewPermanentClosure_method_2_2 :: "addr \<Rightarrow> addr \<Rightarrow> fn \<Rightarrow> 'v \<Rightarrow> 'v \<Rightarrow> ('v, 'w) cstate \<Rightarrow> addr \<times> ('v, 'w) cstate" where
  [closure_news]: "NewPermanentClosure_method_2_2 p obj func a1 a2 = new_object p (MethodClosure_2_2 False obj func a1 a2)"

definition NewPermanentClosure_method_3_1 :: "addr \<Rightarrow> addr \<Rightarrow> fn \<Rightarrow> 'v \<Rightarrow> 'v \<Rightarrow> 'v \<Rightarrow> ('v, 'w) cstate \<Rightarrow> addr \<times> ('v, 'w) cstate" where
  [closure_news]: "NewPermanentClosure_method_3_1 p obj func a1 a2 a3 = new_object p (MethodClosure_3_1 False obj func a1 a2 a3)"

definition NewPermanentClosure_method_4_0 :: "addr \<Rightarrow> addr \<Rightarrow> fn \<Rightarrow> 'v \<Rightarrow> 'v \<Rightarrow> 'v \<Rightarrow> 'v \<Rightarrow> ('v, 'w) cstate \<Rightarrow> addr \<times> ('v, 'w) cstate" where
  [closure_news]: "NewPermanentClosure_method_4_0 p obj func a1 a2 a3 a4 = new_object p (MethodClosure_4_0 False obj func a1 a2 a3 a4)"

definition NewPermanentClosure_method_0_5 :: "addr \<Rightarrow> addr \<Rightarrow> fn \<Rightarrow> ('v, 'w) cstate \<Rightarrow> addr \<times> ('v, 'w) cstate" where
  [closure_news]: "NewPermanentClosure_method_0_5 p obj func = new_object p (MethodClosure_0_5 False obj func)"

definition NewPermanentClosure_method_1_4 :: "addr \<Rightarrow> addr \<Rightarrow> fn \<Rightarrow> 'v \<Rightarrow> ('v, 'w) cstate \<Rightarrow> addr \<times> ('v, 'w) cstate" where
  [closure_news]: "NewPermanentClosure_method_1_4 p obj func a1 = new_object p (MethodClosure_1_4 False obj func a1)"

definition NewPermanentClosure_method_2_3 :: "addr \<Rightarrow> addr \<Rightarrow> fn \<Rightarrow> 'v \<Rightarrow> 'v \<Rightarrow> ('v, 'w) cstate \<Rightarrow> addr \<times> ('v, 'w) cstate" where
  [closure_news]: "NewPermanentClosure_method_2_3 p obj func a1 a2 = new_object p (MethodClosure_2_3 False obj func a1 a2)"

definition NewPermanentClosure_method_3_2 :: "addr \<Rightarrow> addr \<Rightarrow> fn \<Rightarrow> 'v \<Rightarrow> 'v \<Rightarrow> 'v \<Rightarrow> ('v, 'w) cstate \<Rightarrow> addr \<times> ('v, 'w) cstate" where
  [closure_news]: "NewPermanentClosure_method_3_2 p obj func a1 a2 a3 = new_object p (MethodClosure_3_2 False obj func a1 a2 a3)"

definition NewPermanentClosure_method_4_1 :: "addr \<Rightarrow> addr \<Rightarrow> fn \<Rightarrow> 'v \<Rightarrow> 'v \<Rightarrow> 'v \<Rightarrow> 'v \<Rightarrow> ('v, 'w) cstate \<Rightarrow> addr \<times> ('v, 'w) cstate" where
  [closure_news]: "NewPermanentClosure_method_4_1 p obj func a1 a2 a3 a4 = new_object p (MethodClosure_4_1 False obj func a1 a2 a3 a4)"

definition NewPermanentClosure_method_5_0 :: "addr \<Rightarrow> addr \<Rightarrow> fn \<Rightarrow> 'v \<Rightarrow> 'v \<Rightarrow> 'v \<Rightarrow> 'v \<Rightarrow> 'v \<Rightarrow> ('v, 'w) cstate \<Rightarrow> addr \<times> ('v, 'w) cstate" where
  [closure_news]: "NewPermanentClosure_method_5_0 p obj func a1 a2 a3 a4 a5 = new_object p (MethodClosure_5_0 False obj func a1 a2 a3 a4 a5)"

definition NewPermanentClosure_method_0_6 :: "addr \<Rightarrow> addr \<Rightarrow> fn \<Rightarrow> ('v, 'w) cstate \<Rightarrow> addr \<times> ('v, 'w) cstate" where
  [closure_news]: "NewPermanentClosure_method_0_6 p obj func = new_object p (MethodClosure_0_6 False obj func)"

definition NewPermanentClosure_method_1_5 :: "addr \<Rightarrow> addr \<Rightarrow> fn \<Rightarrow> 'v \<Rightarrow> ('v, 'w) cstate \<Rightarrow> addr \<times> ('v, 'w) cstate" where
  [closure_news]: "NewPermanentClosure_method_1_5 p obj func a1 = new_object p (MethodClosure_1_5 False obj func a1)"

definition NewPermanentClosure_method_2_4 :: "addr \<Rightarrow> addr \<Rightarrow> fn \<Rightarrow> 'v \<Rightarrow> 'v \<Rightarrow> ('v, 'w) cstate \<Rightarrow> addr \<times> ('v, 'w) cstate" where
  [closure_news]: "NewPermanentClosure_method_2_4 p obj func a1 a2 = new_object p (MethodClosure_2_4 False obj func a1 a2)"

definition NewPermanentClosure_method_3_3 :: "addr \<Rightarrow> addr \<Rightarrow> fn \<Rightarrow> 'v \<Rightarrow> 'v \<Rightarrow> 'v \<Rightarrow> ('v, 'w) cstate \<Rightarrow> addr \<times> ('v, 'w) cstate" where
  [closure_news]: "NewPermanentClosure_method_3_3 p obj func a1 a2 a3 = new_object p (MethodClosure_3_3 False obj func a1 a2 a3)"

definition NewPermanentClosure_method_4_2 :: "addr \<Rightarrow> addr \<Rightarrow> fn \<Rightarrow> 'v \<Rightarrow> 'v \<Rightarrow> 'v \<Rightarrow> 'v \<Rightarrow> ('v, 'w) cstate \<Rightarrow> addr \<times> ('v, 'w) cstate" where
  [closure_news]: "NewPermanentClosure_method_4_2 p obj func a1 a2 a3 a4 = new_object p (MethodClosure_4_2 False obj func a1 a2 a3 a4)"

definition NewPermanentClosure_method_5_1 :: "addr \<Rightarrow> addr \<Rightarrow> fn \<Rightarrow> 'v \<Rightarrow> 'v \<Rightarrow> 'v \<Rightarrow> 'v \<Rightarrow> 'v \<Rightarrow> ('v, 'w) cstate \<Rightarrow> addr \<times> ('v, 'w) cstate" where
  [closure_news]: "NewPermanentClosure_method_5_1 p obj func a1 a2 a3 a4 a5 = new_object p (MethodClosure_5_1 False obj func a1 a2 a3 a4 a5)"

definition NewPermanentClosure_method_6_0 :: "addr \<Rightarrow> addr \<Rightarrow> fn \<Rightarrow> 'v \<Rightarrow> 'v \<Rightarrow> 'v \<Rightarrow> 'v \<Rightarrow> 'v \<Rightarrow> 'v \<Rightarrow> ('v, 'w) cstate \<Rightarrow> addr \<times> ('v, 'w) cstate" where
  [closure_news]: "NewPermanentClosure_method_6_0 p obj func a1 a2 a3 a4 a5 a6 = new_object p (MethodClosure_6_0 False obj func a1 a2 a3 a4 a5 a6)"

definition NewPermanentClosure_method_0_7 :: "addr \<Rightarrow> addr \<Rightarrow> fn \<Rightarrow> ('v, 'w) cstate \<Rightarrow> addr \<times> ('v, 'w) cstate" where
  [closure_news]: "NewPermanentClosure_method_0_7 p obj func = new_object p (MethodClosure_0_7 False obj func)"

definition NewPermanentClosure_method_1_6 :: "addr \<Rightarrow> addr \<Rightarrow> fn \<Rightarrow> 'v \<Rightarrow> ('v, 'w) cstate \<Rightarrow> addr \<times> ('v, 'w) cstate" where
  [closure_news]: "NewPermanentClosure_method_1_6 p obj func a1 = new_object p (MethodClosure_1_6 False obj func a1)"

definition NewPermanentClosure_method_2_5 :: "addr \<Rightarrow> addr \<Rightarrow> fn \<Rightarrow> 'v \<Rightarrow> 'v \<Rightarrow> ('v, 'w) cstate \<Rightarrow> addr \<times> ('v, 'w) cstate" where
  [closure_news]: "NewPermanentClosure_method_2_5 p obj func a1 a2 = new_object p (MethodClosure_2_5 False obj func a1 a2)"

definition NewPermanentClosure_method_3_4 :: "addr \<Rightarrow> addr \<Rightarrow> fn \<Rightarrow> 'v \<Rightarrow> 'v \<Rightarrow> 'v \<Rightarrow> ('v, 'w) cstate \<Rightarrow> addr \<times> ('v, 'w) cstate" where
  [closure_news]: "NewPermanentClosure_method_3_4 p obj func a1 a2 a3 = new_object p (MethodClosure_3_4 False obj func a1 a2 a3)"

definition NewPermanentClosure_method_4_3 :: "addr \<Rightarrow> addr \<Rightarrow> fn \<Rightarrow> 'v \<Rightarrow> 'v \<Rightarrow> 'v \<Rightarrow> 'v \<Rightarrow> ('v, 'w) cstate \<Rightarrow> addr \<times> ('v, 'w) cstate" where
  [closure_news]: "NewPermanentClosure_method_4_3 p obj func a1 a2 a3 a4 = new_object p (MethodClosure_4_3 False obj func a1 a2 a3 a4)"

definition NewPermanentClosure_method_5_2 :: "addr \<Rightarrow> addr \<Rightarrow> fn \<Rightarrow> 'v \<Rightarrow> 'v \<Rightarrow> 'v \<Rightarrow> 'v \<Rightarrow> 'v \<Rightarrow> ('v, 'w) cstate \<Rightarrow> addr \<times> ('v, 'w) cstate" where
  [closure_news]: "NewPermanentClosure_method_5_2 p obj func a1 a2 a3 a4 a5 = new_object p (MethodClosure_5_2 False obj func a1 a2 a3 a4 a5)"

definition NewPermanentClosure_method_6_1 :: "addr \<Rightarrow> addr \<Rightarrow> fn \<Rightarrow> 'v \<Rightarrow> 'v \<Rightarrow> 'v \<Rightarrow> 'v \<Rightarrow> 'v \<Rightarrow> 'v \<Rightarrow> ('v, 'w) cstate \<Rightarrow> addr \<times> ('v, 'w) cstate" where
  [closure_news]: "NewPermanentClosure_method_6_1 p obj func a1 a2 a3 a4 a5 a6 = new_object p (MethodClosure_6_1 False obj func a1 a2 a3 a4 a5 a6)"

definition NewPermanentClosure_method_7_0 :: "addr \<Rightarrow> addr \<Rightarrow> fn \<Rightarrow> 'v \<Rightarrow> 'v \<Rightarrow> 'v \<Rightarrow> 'v \<Rightarrow> 'v \<Rightarrow> 'v \<Rightarrow> 'v \<Rightarrow> ('v, 'w) cstate \<Rightarrow> addr \<times> ('v, 'w) cstate" where
  [closure_news]: "NewPermanentClosure_method_7_0 p obj func a1 a2 a3 a4 a5 a6 a7 = new_object p (MethodClosure_7_0 False obj func a1 a2 a3 a4 a5 a6 a7)"

section \<open>NewClosure for functions\<close>

definition NewClosure_function_0_0 :: "addr \<Rightarrow> fn \<Rightarrow> ('v, 'w) cstate \<Rightarrow> addr \<times> ('v, 'w) cstate" where
  [closure_news]: "NewClosure_function_0_0 p func = new_object p (FunctionClosure_0_0 True func)"

definition NewClosure_function_0_1 :: "addr \<Rightarrow> fn \<Rightarrow> ('v, 'w) cstate \<Rightarrow> addr \<times> ('v, 'w) cstate" where
  [closure_news]: "NewClosure_function_0_1 p func = new_object p (FunctionClosure_0_1 True func)"

definition NewClosure_function_1_0 :: "addr \<Rightarrow> fn \<Rightarrow> 'v \<Rightarrow> ('v, 'w) cstate \<Rightarrow> addr \<times> ('v, 'w) cstate" where
  [closure_news]: "NewClosure_function_1_0 p func a1 = new_object p (FunctionClosure_1_0 True func a1)"

definition NewClosure_function_0_2 :: "addr \<Rightarrow> fn \<Rightarrow> ('v, 'w) cstate \<Rightarrow> addr \<times> ('v, 'w) cstate" where
  [closure_news]: "NewClosure_function_0_2 p func = new_object p (FunctionClosure_0_2 True func)"

definition NewClosure_function_1_1 :: "addr \<Rightarrow> fn \<Rightarrow> 'v \<Rightarrow> ('v, 'w) cstate \<Rightarrow> addr \<times> ('v, 'w) cstate" where
  [closure_news]: "NewClosure_function_1_1 p func a1 = new_object p (FunctionClosure_1_1 True func a1)"

definition NewClosure_function_2_0 :: "addr \<Rightarrow> fn \<Rightarrow> 'v \<Rightarrow> 'v \<Rightarrow> ('v, 'w) cstate \<Rightarrow> addr \<times> ('v, 'w) cstate" where
  [closure_news]: "NewClosure_function_2_0 p func a1 a2 = new_object p (FunctionClosure_2_0 True func a1 a2)"

definition NewClosure_function_0_3 :: "addr \<Rightarrow> fn \<Rightarrow> ('v, 'w) cstate \<Rightarrow> addr \<times> ('v, 'w) cstate" where
  [closure_news]: "NewClosure_function_0_3 p func = new_object p (FunctionClosure_0_3 True func)"

definition NewClosure_function_1_2 :: "addr \<Rightarrow> fn \<Rightarrow> 'v \<Rightarrow> ('v, 'w) cstate \<Rightarrow> addr \<times> ('v, 'w) cstate" where
  [closure_news]: "NewClosure_function_1_2 p func a1 = new_object p (FunctionClosure_1_2 True func a1)"

definition NewClosure_function_2_1 :: "addr \<Rightarrow> fn \<Rightarrow> 'v \<Rightarrow> 'v \<Rightarrow> ('v, 'w) cstate \<Rightarrow> addr \<times> ('v, 'w) cstate" where
  [closure_news]: "NewClosure_function_2_1 p func a1 a2 = new_object p (FunctionClosure_2_1 True func a1 a2)"

definition NewClosure_function_3_0 :: "addr \<Rightarrow> fn \<Rightarrow> 'v \<Rightarrow> 'v \<Rightarrow> 'v \<Rightarrow> ('v, 'w) cstate \<Rightarrow> addr \<times> ('v, 'w) cstate" where
  [closure_news]: "NewClosure_function_3_0 p func a1 a2 a3 = new_object p (FunctionClosure_3_0 True func a1 a2 a3)"

definition NewClosure_function_0_4 :: "addr \<Rightarrow> fn \<Rightarrow> ('v, 'w) cstate \<Rightarrow> addr \<times> ('v, 'w) cstate" where
  [closure_news]: "NewClosure_function_0_4 p func = new_object p (FunctionClosure_0_4 True func)"

definition NewClosure_function_1_3 :: "addr \<Rightarrow> fn \<Rightarrow> 'v \<Rightarrow> ('v, 'w) cstate \<Rightarrow> addr \<times> ('v, 'w) cstate" where
  [closure_news]: "NewClosure_function_1_3 p func a1 = new_object p (FunctionClosure_1_3 True func a1)"

definition NewClosure_function_2_2 :: "addr \<Rightarrow> fn \<Rightarrow> 'v \<Rightarrow> 'v \<Rightarrow> ('v, 'w) cstate \<Rightarrow> addr \<times> ('v, 'w) cstate" where
  [closure_news]: "NewClosure_function_2_2 p func a1 a2 = new_object p (FunctionClosure_2_2 True func a1 a2)"

definition NewClosure_function_3_1 :: "addr \<Rightarrow> fn \<Rightarrow> 'v \<Rightarrow> 'v \<Rightarrow> 'v \<Rightarrow> ('v, 'w) cstate \<Rightarrow> addr \<times> ('v, 'w) cstate" where
  [closure_news]: "NewClosure_function_3_1 p func a1 a2 a3 = new_object p (FunctionClosure_3_1 True func a1 a2 a3)"

definition NewClosure_function_4_0 :: "addr \<Rightarrow> fn \<Rightarrow> 'v \<Rightarrow> 'v \<Rightarrow> 'v \<Rightarrow> 'v \<Rightarrow> ('v, 'w) cstate \<Rightarrow> addr \<times> ('v, 'w) cstate" where
  [closure_news]: "NewClosure_function_4_0 p func a1 a2 a3 a4 = new_object p (FunctionClosure_4_0 True func a1 a2 a3 a4)"

definition NewClosure_function_0_5 :: "addr \<Rightarrow> fn \<Rightarrow> ('v, 'w) cstate \<Rightarrow> addr \<times> ('v, 'w) cstate" where
  [closure_news]: "NewClosure_function_0_5 p func = new_object p (FunctionClosure_0_5 True func)"

definition NewClosure_function_1_4 :: "addr \<Rightarrow> fn \<Rightarrow> 'v \<Rightarrow> ('v, 'w) cstate \<Rightarrow> addr \<times> ('v, 'w) cstate" where
  [closure_news]: "NewClosure_function_1_4 p func a1 = new_object p (FunctionClosure_1_4 True func a1)"

definition NewClosure_function_2_3 :: "addr \<Rightarrow> fn \<Rightarrow> 'v \<Rightarrow> 'v \<Rightarrow> ('v, 'w) cstate \<Rightarrow> addr \<times> ('v, 'w) cstate" where
  [closure_news]: "NewClosure_function_2_3 p func a1 a2 = new_object p (FunctionClosure_2_3 True func a1 a2)"

definition NewClosure_function_3_2 :: "addr \<Rightarrow> fn \<Rightarrow> 'v \<Rightarrow> 'v \<Rightarrow> 'v \<Rightarrow> ('v, 'w) cstate \<Rightarrow> addr \<times> ('v, 'w) cstate" where
  [closure_news]: "NewClosure_function_3_2 p func a1 a2 a3 = new_object p (FunctionClosure_3_2 True func a1 a2 a3)"

definition NewClosure_function_4_1 :: "addr \<Rightarrow> fn \<Rightarrow> 'v \<Rightarrow> 'v \<Rightarrow> 'v \<Rightarrow> 'v \<Rightarrow> ('v, 'w) cstate \<Rightarrow> addr \<times> ('v, 'w) cstate" where
  [closure_news]: "NewClosure_function_4_1 p func a1 a2 a3 a4 = new_object p (FunctionClosure_4_1 True func a1 a2 a3 a4)"

definition NewClosure_function_5_0 :: "addr \<Rightarrow> fn \<Rightarrow> 'v \<Rightarrow> 'v \<Rightarrow> 'v \<Rightarrow> 'v \<Rightarrow> 'v \<Rightarrow> ('v, 'w) cstate \<Rightarrow> addr \<times> ('v, 'w) cstate" where
  [closure_news]: "NewClosure_function_5_0 p func a1 a2 a3 a4 a5 = new_object p (FunctionClosure_5_0 True func a1 a2 a3 a4 a5)"

definition NewClosure_function_0_6 :: "addr \<Rightarrow> fn \<Rightarrow> ('v, 'w) cstate \<Rightarrow> addr \<times> ('v, 'w) cstate" where
  [closure_news]: "NewClosure_function_0_6 p func = new_object p (FunctionClosure_0_6 True func)"

definition NewClosure_function_1_5 :: "addr \<Rightarrow> fn \<Rightarrow> 'v \<Rightarrow> ('v, 'w) cstate \<Rightarrow> addr \<times> ('v, 'w) cstate" where
  [closure_news]: "NewClosure_function_1_5 p func a1 = new_object p (FunctionClosure_1_5 True func a1)"

definition NewClosure_function_2_4 :: "addr \<Rightarrow> fn \<Rightarrow> 'v \<Rightarrow> 'v \<Rightarrow> ('v, 'w) cstate \<Rightarrow> addr \<times> ('v, 'w) cstate" where
  [closure_news]: "NewClosure_function_2_4 p func a1 a2 = new_object p (FunctionClosure_2_4 True func a1 a2)"

definition NewClosure_function_3_3 :: "addr \<Rightarrow> fn \<Rightarrow> 'v \<Rightarrow> 'v \<Rightarrow> 'v \<Rightarrow> ('v, 'w) cstate \<Rightarrow> addr \<times> ('v, 'w) cstate" where
  [closure_news]: "NewClosure_function_3_3 p func a1 a2 a3 = new_object p (FunctionClosure_3_3 True func a1 a2 a3)"

definition NewClosure_function_4_2 :: "addr \<Rightarrow> fn \<Rightarrow> 'v \<Rightarrow> 'v \<Rightarrow> 'v \<Rightarrow> 'v \<Rightarrow> ('v, 'w) cstate \<Rightarrow> addr \<times> ('v, 'w) cstate" where
  [closure_news]: "NewClosure_function_4_2 p func a1 a2 a3 a4 = new_object p (FunctionClosure_4_2 True func a1 a2 a3 a4)"

definition NewClosure_function_5_1 :: "addr \<Rightarrow> fn \<Rightarrow> 'v \<Rightarrow> 'v \<Rightarrow> 'v \<Rightarrow> 'v \<Rightarrow> 'v \<Rightarrow> ('v, 'w) cstate \<Rightarrow> addr \<times> ('v, 'w) cstate" where
  [closure_news]: "NewClosure_function_5_1 p func a1 a2 a3 a4 a5 = new_object p (FunctionClosure_5_1 True func a1 a2 a3 a4 a5)"

definition NewClosure_function_6_0 :: "addr \<Rightarrow> fn \<Rightarrow> 'v \<Rightarrow> 'v \<Rightarrow> 'v \<Rightarrow> 'v \<Rightarrow> 'v \<Rightarrow> 'v \<Rightarrow> ('v, 'w) cstate \<Rightarrow> addr \<times> ('v, 'w) cstate" where
  [closure_news]: "NewClosure_function_6_0 p func a1 a2 a3 a4 a5 a6 = new_object p (FunctionClosure_6_0 True func a1 a2 a3 a4 a5 a6)"

definition NewClosure_function_0_7 :: "addr \<Rightarrow> fn \<Rightarrow> ('v, 'w) cstate \<Rightarrow> addr \<times> ('v, 'w) cstate" where
  [closure_news]: "NewClosure_function_0_7 p func = new_object p (FunctionClosure_0_7 True func)"

definition NewClosure_function_1_6 :: "addr \<Rightarrow> fn \<Rightarrow> 'v \<Rightarrow> ('v, 'w) cstate \<Rightarrow> addr \<times> ('v, 'w) cstate" where
  [closure_news]: "NewClosure_function_1_6 p func a1 = new_object p (FunctionClosure_1_6 True func a1)"

definition NewClosure_function_2_5 :: "addr \<Rightarrow> fn \<Rightarrow> 'v \<Rightarrow> 'v \<Rightarrow> ('v, 'w) cstate \<Rightarrow> addr \<times> ('v, 'w) cstate" where
  [closure_news]: "NewClosure_function_2_5 p func a1 a2 = new_object p (FunctionClosure_2_5 True func a1 a2)"

definition NewClosure_function_3_4 :: "addr \<Rightarrow> fn \<Rightarrow> 'v \<Rightarrow> 'v \<Rightarrow> 'v \<Rightarrow> ('v, 'w) cstate \<Rightarrow> addr \<times> ('v, 'w) cstate" where
  [closure_news]: "NewClosure_function_3_4 p func a1 a2 a3 = new_object p (FunctionClosure_3_4 True func a1 a2 a3)"

definition NewClosure_function_4_3 :: "addr \<Rightarrow> fn \<Rightarrow> 'v \<Rightarrow> 'v \<Rightarrow> 'v \<Rightarrow> 'v \<Rightarrow> ('v, 'w) cstate \<Rightarrow> addr \<times> ('v, 'w) cstate" where
  [closure_news]: "NewClosure_function_4_3 p func a1 a2 a3 a4 = new_object p (FunctionClosure_4_3 True func a1 a2 a3 a4)"

definition NewClosure_function_5_2 :: "addr \<Rightarrow> fn \<Rightarrow> 'v \<Rightarrow> 'v \<Rightarrow> 'v \<Rightarrow> 'v \<Rightarrow> 'v \<Rightarrow> ('v, 'w) cstate \<Rightarrow> addr \<times> ('v, 'w) cstate" where
  [closure_news]: "NewClosure_function_5_2 p func a1 a2 a3 a4 a5 = new_object p (FunctionClosure_5_2 True func a1 a2 a3 a4 a5)"

definition NewClosure_function_6_1 :: "addr \<Rightarrow> fn \<Rightarrow> 'v \<Rightarrow> 'v \<Rightarrow> 'v \<Rightarrow> 'v \<Rightarrow> 'v \<Rightarrow> 'v \<Rightarrow> ('v, 'w) cstate \<Rightarrow> addr \<times> ('v, 'w) cstate" where
  [closure_news]: "NewClosure_function_6_1 p func a1 a2 a3 a4 a5 a6 = new_object p (FunctionClosure_6_1 True func a1 a2 a3 a4 a5 a6)"

definition NewClosure_function_7_0 :: "addr \<Rightarrow> fn \<Rightarrow> 'v \<Rightarrow> 'v \<Rightarrow> 'v \<Rightarrow> 'v \<Rightarrow> 'v \<Rightarrow> 'v \<Rightarrow> 'v \<Rightarrow> ('v, 'w) cstate \<Rightarrow> addr \<times> ('v, 'w) cstate" where
  [closure_news]: "NewClosure_function_7_0 p func a1 a2 a3 a4 a5 a6 a7 = new_object p (FunctionClosure_7_0 True func a1 a2 a3 a4 a5 a6 a7)"

section \<open>NewPermanentClosure for functions\<close>

definition NewPermanentClosure_function_0_0 :: "addr \<Rightarrow> fn \<Rightarrow> ('v, 'w) cstate \<Rightarrow> addr \<times> ('v, 'w) cstate" where
  [closure_news]: "NewPermanentClosure_function_0_0 p func = new_object p (FunctionClosure_0_0 False func)"

definition NewPermanentClosure_function_0_1 :: "addr \<Rightarrow> fn \<Rightarrow> ('v, 'w) cstate \<Rightarrow> addr \<times> ('v, 'w) cstate" where
  [closure_news]: "NewPermanentClosure_function_0_1 p func = new_object p (FunctionClosure_0_1 False func)"

definition NewPermanentClosure_function_1_0 :: "addr \<Rightarrow> fn \<Rightarrow> 'v \<Rightarrow> ('v, 'w) cstate \<Rightarrow> addr \<times> ('v, 'w) cstate" where
  [closure_news]: "NewPermanentClosure_function_1_0 p func a1 = new_object p (FunctionClosure_1_0 False func a1)"

definition NewPermanentClosure_function_0_2 :: "addr \<Rightarrow> fn \<Rightarrow> ('v, 'w) cstate \<Rightarrow> addr \<times> ('v, 'w) cstate" where
  [closure_news]: "NewPermanentClosure_function_0_2 p func = new_object p (FunctionClosure_0_2 False func)"

definition NewPermanentClosure_function_1_1 :: "addr \<Rightarrow> fn \<Rightarrow> 'v \<Rightarrow> ('v, 'w) cstate \<Rightarrow> addr \<times> ('v, 'w) cstate" where
  [closure_news]: "NewPermanentClosure_function_1_1 p func a1 = new_object p (FunctionClosure_1_1 False func a1)"

definition NewPermanentClosure_function_2_0 :: "addr \<Rightarrow> fn \<Rightarrow> 'v \<Rightarrow> 'v \<Rightarrow> ('v, 'w) cstate \<Rightarrow> addr \<times> ('v, 'w) cstate" where
  [closure_news]: "NewPermanentClosure_function_2_0 p func a1 a2 = new_object p (FunctionClosure_2_0 False func a1 a2)"

definition NewPermanentClosure_function_0_3 :: "addr \<Rightarrow> fn \<Rightarrow> ('v, 'w) cstate \<Rightarrow> addr \<times> ('v, 'w) cstate" where
  [closure_news]: "NewPermanentClosure_function_0_3 p func = new_object p (FunctionClosure_0_3 False func)"

definition NewPermanentClosure_function_1_2 :: "addr \<Rightarrow> fn \<Rightarrow> 'v \<Rightarrow> ('v, 'w) cstate \<Rightarrow> addr \<times> ('v, 'w) cstate" where
  [closure_news]: "NewPermanentClosure_function_1_2 p func a1 = new_object p (FunctionClosure_1_2 False func a1)"

definition NewPermanentClosure_function_2_1 :: "addr \<Rightarrow> fn \<Rightarrow> 'v \<Rightarrow> 'v \<Rightarrow> ('v, 'w) cstate \<Rightarrow> addr \<times> ('v, 'w) cstate" where
  [closure_news]: "NewPermanentClosure_function_2_1 p func a1 a2 = new_object p (FunctionClosure_2_1 False func a1 a2)"

definition NewPermanentClosure_function_3_0 :: "addr \<Rightarrow> fn \<Rightarrow> 'v \<Rightarrow> 'v \<Rightarrow> 'v \<Rightarrow> ('v, 'w) cstate \<Rightarrow> addr \<times> ('v, 'w) cstate" where
  [closure_news]: "NewPermanentClosure_function_3_0 p func a1 a2 a3 = new_object p (FunctionClosure_3_0 False func a1 a2 a3)"

definition NewPermanentClosure_function_0_4 :: "addr \<Rightarrow> fn \<Rightarrow> ('v, 'w) cstate \<Rightarrow> addr \<times> ('v, 'w) cstate" where
  [closure_news]: "NewPermanentClosure_function_0_4 p func = new_object p (FunctionClosure_0_4 False func)"

definition NewPermanentClosure_function_1_3 :: "addr \<Rightarrow> fn \<Rightarrow> 'v \<Rightarrow> ('v, 'w) cstate \<Rightarrow> addr \<times> ('v, 'w) cstate" where
  [closure_news]: "NewPermanentClosure_function_1_3 p func a1 = new_object p (FunctionClosure_1_3 False func a1)"

definition NewPermanentClosure_function_2_2 :: "addr \<Rightarrow> fn \<Rightarrow> 'v \<Rightarrow> 'v \<Rightarrow> ('v, 'w) cstate \<Rightarrow> addr \<times> ('v, 'w) cstate" where
  [closure_news]: "NewPermanentClosure_function_2_2 p func a1 a2 = new_object p (FunctionClosure_2_2 False func a1 a2)"

definition NewPermanentClosure_function_3_1 :: "addr \<Rightarrow> fn \<Rightarrow> 'v \<Rightarrow> 'v \<Rightarrow> 'v \<Rightarrow> ('v, 'w) cstate \<Rightarrow> addr \<times> ('v, 'w) cstate" where
  [closure_news]: "NewPermanentClosure_function_3_1 p func a1 a2 a3 = new_object p (FunctionClosure_3_1 False func a1 a2 a3)"

definition NewPermanentClosure_function_4_0 :: "addr \<Rightarrow> fn \<Rightarrow> 'v \<Rightarrow> 'v \<Rightarrow> 'v \<Rightarrow> 'v \<Rightarrow> ('v, 'w) cstate \<Rightarrow> addr \<times> ('v, 'w) cstate" where
  [closure_news]: "NewPermanentClosure_function_4_0 p func a1 a2 a3 a4 = new_object p (FunctionClosure_4_0 False func a1 a2 a3 a4)"

definition NewPermanentClosure_function_0_5 :: "addr \<Rightarrow> fn \<Rightarrow> ('v, 'w) cstate \<Rightarrow> addr \<times> ('v, 'w) cstate" where
  [closure_news]: "NewPermanentClosure_function_0_5 p func = new_object p (FunctionClosure_0_5 False func)"

definition NewPermanentClosure_function_1_4 :: "addr \<Rightarrow> fn \<Rightarrow> 'v \<Rightarrow> ('v, 'w) cstate \<Rightarrow> addr \<times> ('v, 'w) cstate" where
  [closure_news]: "NewPermanentClosure_function_1_4 p func a1 = new_object p (FunctionClosure_1_4 False func a1)"

definition NewPermanentClosure_function_2_3 :: "addr \<Rightarrow> fn \<Rightarrow> 'v \<Rightarrow> 'v \<Rightarrow> ('v, 'w) cstate \<Rightarrow> addr \<times> ('v, 'w) cstate" where
  [closure_news]: "NewPermanentClosure_function_2_3 p func a1 a2 = new_object p (FunctionClosure_2_3 False func a1 a2)"

definition NewPermanentClosure_function_3_2 :: "addr \<Rightarrow> fn \<Rightarrow> 'v \<Rightarrow> 'v \<Rightarrow> 'v \<Rightarrow> ('v, 'w) cstate \<Rightarrow> addr \<times> ('v, 'w) cstate" where
  [closure_news]: "NewPermanentClosure_function_3_2 p func a1 a2 a3 = new_object p (FunctionClosure_3_2 False func a1 a2 a3)"

definition NewPermanentClosure_function_4_1 :: "addr \<Rightarrow> fn \<Rightarrow> 'v \<Rightarrow> 'v \<Rightarrow> 'v \<Rightarrow> 'v \<Rightarrow> ('v, 'w) cstate \<Rightarrow> addr \<times> ('v, 'w) cstate" where
  [closure_news]: "NewPermanentClosure_function_4_1 p func a1 a2 a3 a4 = new_object p (FunctionClosure_4_1 False func a1 a2 a3 a4)"

definition NewPermanentClosure_function_5_0 :: "addr \<Rightarrow> fn \<Rightarrow> 'v \<Rightarrow> 'v \<Rightarrow> 'v \<Rightarrow> 'v \<Rightarrow> 'v \<Rightarrow> ('v, 'w) cstate \<Rightarrow> addr \<times> ('v, 'w) cstate" where
  [closure_news]: "NewPermanentClosure_function_5_0 p func a1 a2 a3 a4 a5 = new_object p (FunctionClosure_5_0 False func a1 a2 a3 a4 a5)"

definition NewPermanentClosure_function_0_6 :: "addr \<Rightarrow> fn \<Rightarrow> ('v, 'w) cstate \<Rightarrow> addr \<times> ('v, 'w) cstate" where
  [closure_news]: "NewPermanentClosure_function_0_6 p func = new_object p (FunctionClosure_0_6 False func)"

definition NewPermanentClosure_function_1_5 :: "addr \<Rightarrow> fn \<Rightarrow> 'v \<Rightarrow> ('v, 'w) cstate \<Rightarrow> addr \<times> ('v, 'w) cstate" where
  [closure_news]: "NewPermanentClosure_function_1_5 p func a1 = new_object p (FunctionClosure_1_5 False func a1)"

definition NewPermanentClosure_function_2_4 :: "addr \<Rightarrow> fn \<Rightarrow> 'v \<Rightarrow> 'v \<Rightarrow> ('v, 'w) cstate \<Rightarrow> addr \<times> ('v, 'w) cstate" where
  [closure_news]: "NewPermanentClosure_function_2_4 p func a1 a2 = new_object p (FunctionClosure_2_4 False func a1 a2)"

definition NewPermanentClosure_function_3_3 :: "addr \<Rightarrow> fn \<Rightarrow> 'v \<Rightarrow> 'v \<Rightarrow> 'v \<Rightarrow> ('v, 'w) cstate \<Rightarrow> addr \<times> ('v, 'w) cstate" where
  [closure_news]: "NewPermanentClosure_function_3_3 p func a1 a2 a3 = new_object p (FunctionClosure_3_3 False func a1 a2 a3)"

definition NewPermanentClosure_function_4_2 :: "addr \<Rightarrow> fn \<Rightarrow> 'v \<Rightarrow> 'v \<Rightarrow> 'v \<Rightarrow> 'v \<Rightarrow> ('v, 'w) cstate \<Rightarrow> addr \<times> ('v, 'w) cstate" where
  [closure_news]: "NewPermanentClosure_function_4_2 p func a1 a2 a3 a4 = new_object p (FunctionClosure_4_2 False func a1 a2 a3 a4)"

definition NewPermanentClosure_function_5_1 :: "addr \<Rightarrow> fn \<Rightarrow> 'v \<Rightarrow> 'v \<Rightarrow> 'v \<Rightarrow> 'v \<Rightarrow> 'v \<Rightarrow> ('v, 'w) cstate \<Rightarrow> addr \<times> ('v, 'w) cstate" where
  [closure_news]: "NewPermanentClosure_function_5_1 p func a1 a2 a3 a4 a5 = new_object p (FunctionClosure_5_1 False func a1 a2 a3 a4 a5)"

definition NewPermanentClosure_function_6_0 :: "addr \<Rightarrow> fn \<Rightarrow> 'v \<Rightarrow> 'v \<Rightarrow> 'v \<Rightarrow> 'v \<Rightarrow> 'v \<Rightarrow> 'v \<Rightarrow> ('v, 'w) cstate \<Rightarrow> addr \<times> ('v, 'w) cstate" where
  [closure_news]: "NewPermanentClosure_function_6_0 p func a1 a2 a3 a4 a5 a6 = new_object p (FunctionClosure_6_0 False func a1 a2 a3 a4 a5 a6)"

definition NewPermanentClosure_function_0_7 :: "addr \<Rightarrow> fn \<Rightarrow> ('v, 'w) cstate \<Rightarrow> addr \<times> ('v, 'w) cstate" where
  [closure_news]: "NewPermanentClosure_function_0_7 p func = new_object p (FunctionClosure_0_7 False func)"

definition NewPermanentClosure_function_1_6 :: "addr \<Rightarrow> fn \<Rightarrow> 'v \<Rightarrow> ('v, 'w) cstate \<Rightarrow> addr \<times> ('v, 'w) cstate" where
  [closure_news]: "NewPermanentClosure_function_1_6 p func a1 = new_object p (FunctionClosure_1_6 False func a1)"

definition NewPermanentClosure_function_2_5 :: "addr \<Rightarrow> fn \<Rightarrow> 'v \<Rightarrow> 'v \<Rightarrow> ('v, 'w) cstate \<Rightarrow> addr \<times> ('v, 'w) cstate" where
  [closure_news]: "NewPermanentClosure_function_2_5 p func a1 a2 = new_object p (FunctionClosure_2_5 False func a1 a2)"

definition NewPermanentClosure_function_3_4 :: "addr \<Rightarrow> fn \<Rightarrow> 'v \<Rightarrow> 'v \<Rightarrow> 'v \<Rightarrow> ('v, 'w) cstate \<Rightarrow> addr \<times> ('v, 'w) cstate" where
  [closure_news]: "NewPermanentClosure_function_3_4 p func a1 a2 a3 = new_object p (FunctionClosure_3_4 False func a1 a2 a3)"

definition NewPermanentClosure_function_4_3 :: "addr \<Rightarrow> fn \<Rightarrow> 'v \<Rightarrow> 'v \<Rightarrow> 'v \<Rightarrow> 'v \<Rightarrow> ('v, 'w) cstate \<Rightarrow> addr \<times> ('v, 'w) cstate" where
  [closure_news]: "NewPermanentClosure_function_4_3 p func a1 a2 a3 a4 = new_object p (FunctionClosure_4_3 False func a1 a2 a3 a4)"

definition NewPermanentClosure_function_5_2 :: "addr \<Rightarrow> fn \<Rightarrow> 'v \<Rightarrow> 'v \<Rightarrow> 'v \<Rightarrow> 'v \<Rightarrow> 'v \<Rightarrow> ('v, 'w) cstate \<Rightarrow> addr \<times> ('v, 'w) cstate" where
  [closure_news]: "NewPermanentClosure_function_5_2 p func a1 a2 a3 a4 a5 = new_object p (FunctionClosure_5_2 False func a1 a2 a3 a4 a5)"

definition NewPermanentClosure_function_6_1 :: "addr \<Rightarrow> fn \<Rightarrow> 'v \<Rightarrow> 'v \<Rightarrow> 'v \<Rightarrow> 'v \<Rightarrow> 'v \<Rightarrow> 'v \<Rightarrow> ('v, 'w) cstate \<Rightarrow> addr \<times> ('v, 'w) cstate" where
  [closure_news]: "NewPermanentClosure_function_6_1 p func a1 a2 a3 a4 a5 a6 = new_object p (FunctionClosure_6_1 False func a1 a2 a3 a4 a5 a6)"

definition NewPermanentClosure_function_7_0 :: "addr \<Rightarrow> fn \<Rightarrow> 'v \<Rightarrow> 'v \<Rightarrow> 'v \<Rightarrow> 'v \<Rightarrow> 'v \<Rightarrow> 'v \<Rightarrow> 'v \<Rightarrow> ('v, 'w) cstate \<Rightarrow> addr \<times> ('v, 'w) cstate" where
  [closure_news]: "NewPermanentClosure_function_7_0 p func a1 a2 a3 a4 a5 a6 a7 = new_object p (FunctionClosure_7_0 False func a1 a2 a3 a4 a5 a6 a7)"

definition NewClosure_method_table ::
  "((nat \<times> nat) \<times> (addr \<Rightarrow> addr \<Rightarrow> fn \<Rightarrow> 'v list \<Rightarrow> ('v, 'w) cstate \<Rightarrow> addr \<times> ('v, 'w) cstate)) list" where
  "NewClosure_method_table = [
     ((0, 0), \<lambda>p obj func. app0 (NewClosure_method_0_0 p obj func)),
     ((0, 1), \<lambda>p obj func. app0 (NewClosure_method_0_1 p obj func)),
     ((1, 0), \<lambda>p obj func. app1 (NewClosure_method_1_0 p obj func)),
     ((0, 2), \<lambda>p obj func. app0 (NewClosure_method_0_2 p obj func)),
     ((1, 1), \<lambda>p obj func. app1 (NewClosure_method_1_1 p obj func)),
     ((2, 0), \<lambda>p obj func. app2 (NewClosure_method_2_0 p obj func)),
     ((0, 3), \<lambda>p obj func. app0 (NewClosure_method_0_3 p obj func)),
     ((1, 2), \<lambda>p obj func. app1 (NewClosure_method_1_2 p obj func)),
     ((2, 1), \<lambda>p obj func. app2 (NewClosure_method_2_1 p obj func)),
     ((3, 0), \<lambda>p obj func. app3 (NewClosure_method_3_0 p obj func)),
     ((0, 4), \<lambda>p obj func. app0 (NewClosure_method_0_4 p obj func)),
     ((1, 3), \<lambda>p obj func. app1 (NewClosure_method_1_3 p obj func)),
     ((2, 2), \<lambda>p obj func. app2 (NewClosure_method_2_2 p obj func)),
     ((3, 1), \<lambda>p obj func. app3 (NewClosure_method_3_1 p obj func)),
     ((4, 0), \<lambda>p obj func. app4 (NewClosure_method_4_0 p obj func)),
     ((0, 5), \<lambda>p obj func. app0 (NewClosure_method_0_5 p obj func)),
     ((1, 4), \<lambda>p obj func. app1 (NewClosure_method_1_4 p obj func)),
     ((2, 3), \<lambda>p obj func. app2 (NewClosure_method_2_3 p obj func)),
     ((3, 2), \<lambda>p obj func. app3 (NewClosure_method_3_2 p obj func)),
     ((4, 1), \<lambda>p obj func. app4 (NewClosure_method_4_1 p obj func)),
     ((5, 0), \<lambda>p obj func. app5 (NewClosure_method_5_0 p obj func)),
     ((0, 6), \<lambda>p obj func. app0 (NewClosure_method_0_6 p obj func)),
     ((1, 5), \<lambda>p obj func. app1 (NewClosure_method_1_5 p obj func)),
     ((2, 4), \<lambda>p obj func. app2 (NewClosure_method_2_4 p obj func)),
     ((3, 3), \<lambda>p obj func. app3 (NewClosure_method_3_3 p obj func)),
     ((4, 2), \<lambda>p obj func. app4 (NewClosure_method_4_2 p obj func)),
     ((5, 1), \<lambda>p obj func. app5 (NewClosure_method_5_1 p obj func)),
     ((6, 0), \<lambda>p obj func. app6 (NewClosure_method_6_0 p obj func)),
     ((0, 7), \<lambda>p obj func. app0 (NewClosure_method_0_7 p obj func)),
     ((1, 6), \<lambda>p obj func. app1 (NewClosure_method_1_6 p obj func)),
     ((2, 5), \<lambda>p obj func. app2 (NewClosure_method_2_5 p obj func)),
     ((3, 4), \<lambda>p obj func. app3 (NewClosure_method_3_4 p obj func)),
     ((4, 3), \<lambda>p obj func. app4 (NewClosure_method_4_3 p obj func)),
     ((5, 2), \<lambda>p obj func. app5 (NewClosure_method_5_2 p obj func)),
     ((6, 1), \<lambda>p obj func. app6 (NewClosure_method_6_1 p obj func)),
     ((7, 0), \<lambda>p obj func. app7 (NewClosure_method_7_0 p obj func))]"

definition NewPermanentClosure_method_table ::
  "((nat \<times> nat) \<times> (addr \<Rightarrow> addr \<Rightarrow> fn \<Rightarrow> 'v list \<Rightarrow> ('v, 'w) cstate \<Rightarrow> addr \<times> ('v, 'w) cstate)) list" where
  "NewPermanentClosure_method_table = [
     ((0, 0), \<lambda>p obj func. app0 (NewPermanentClosure_method_0_0 p obj func)),
     ((0, 1), \<lambda>p obj func. app0 (NewPermanentClosure_method_0_1 p obj func)),
     ((1, 0), \<lambda>p obj func. app1 (NewPermanentClosure_method_1_0 p obj func)),
     ((0, 2), \<lambda>p obj func. app0 (NewPermanentClosure_method_0_2 p obj func)),
     ((1, 1), \<lambda>p obj func. app1 (NewPermanentClosure_method_1_1 p obj func)),
     ((2, 0), \<lambda>p obj func. app2 (NewPermanentClosure_method_2_0 p obj func)),
     ((0, 3), \<lambda>p obj func. app0 (NewPermanentClosure_method_0_3 p obj func)),
     ((1, 2), \<lambda>p obj func. app1 (NewPermanentClosure_method_1_2 p obj func)),
     ((2, 1), \<lambda>p obj func. app2 (NewPermanentClosure_method_2_1 p obj func)),
     ((3, 0), \<lambda>p obj func. app3 (NewPermanentClosure_method_3_0 p obj func)),
     ((0, 4), \<lambda>p obj func. app0 (NewPermanentClosure_method_0_4 p obj func)),
     ((1, 3), \<lambda>p obj func. app1 (NewPermanentClosure_method_1_3 p obj func)),
     ((2, 2), \<lambda>p obj func. app2 (NewPermanentClosure_method_2_2 p obj func)),
     ((3, 1), \<lambda>p obj func. app3 (NewPermanentClosure_method_3_1 p obj func)),
     ((4, 0), \<lambda>p obj func. app4 (NewPermanentClosure_method_4_0 p obj func)),
     ((0, 5), \<lambda>p obj func. app0 (NewPermanentClosure_method_0_5 p obj func)),
     ((1, 4), \<lambda>p obj func. app1 (NewPermanentClosure_method_1_4 p obj func)),
     ((2, 3), \<lambda>p obj func. app2 (NewPermanentClosure_method_2_3 p obj func)),
     ((3, 2), \<lambda>p obj func. app3 (NewPermanentClosure_method_3_2 p obj func)),
     ((4, 1), \<lambda>p obj func. app4 (NewPermanentClosure_method_4_1 p obj func)),
     ((5, 0), \<lambda>p obj func. app5 (NewPermanentClosure_method_5_0 p obj func)),
     ((0, 6), \<lambda>p obj func. app0 (NewPermanentClosure_method_0_6 p obj func)),
     ((1, 5), \<lambda>p obj func. app1 (NewPermanentClosure_method_1_5 p obj func)),
     ((2, 4), \<lambda>p obj func. app2 (NewPermanentClosure_method_2_4 p obj func)),
     ((3, 3), \<lambda>p obj func. app3 (NewPermanentClosure_method_3_3 p obj func)),
     ((4, 2), \<lambda>p obj func. app4 (NewPermanentClosure_method_4_2 p obj func)),
     ((5, 1), \<lambda>p obj func. app5 (NewPermanentClosure_method_5_1 p obj func)),
     ((6, 0), \<lambda>p obj func. app6 (NewPermanentClosure_method_6_0 p obj func)),
     ((0, 7), \<lambda>p obj func. app0 (NewPermanentClosure_method_0_7 p obj func)),
     ((1, 6), \<lambda>p obj func. app1 (NewPermanentClosure_method_1_6 p obj func)),
     ((2, 5), \<lambda>p obj func. app2 (NewPermanentClosure_method_2_5 p obj func)),
     ((3, 4), \<lambda>p obj func. app3 (NewPermanentClosure_method_3_4 p obj func)),
     ((4, 3), \<lambda>p obj func. app4 (NewPermanentClosure_method_4_3 p obj func)),
     ((5, 2), \<lambda>p obj func. app5 (NewPermanentClosure_method_5_2 p obj func)),
     ((6, 1), \<lambda>p obj func. app6 (NewPermanentClosure_method_6_1 p obj func)),
     ((7, 0), \<lambda>p obj func. app7 (NewPermanentClosure_method_7_0 p obj func))]"

definition NewClosure_function_table ::
  "((nat \<times> nat) \<times> (addr \<Rightarrow> fn \<Rightarrow> 'v list \<Rightarrow> ('v, 'w) cstate \<Rightarrow> addr \<times> ('v, 'w) cstate)) list" where
  "NewClosure_function_table = [
     ((0, 0), \<lambda>p func. app0 (NewClosure_function_0_0 p func)),
     ((0, 1), \<lambda>p func. app0 (NewClosure_function_0_1 p func)),
     ((1, 0), \<lambda>p func. app1 (NewClosure_function_1_0 p func)),
     ((0, 2), \<lambda>p func. app0 (NewClosure_function_0_2 p func)),
     ((1, 1), \<lambda>p func. app1 (NewClosure_function_1_1 p func)),
     ((2, 0), \<lambda>p func. app2 (NewClosure_function_2_0 p func)),
     ((0, 3), \<lambda>p func. app0 (NewClosure_function_0_3 p func)),
     ((1, 2), \<lambda>p func. app1 (NewClosure_function_1_2 p func)),
     ((2, 1), \<lambda>p func. app2 (NewClosure_function_2_1 p func)),
     ((3, 0), \<lambda>p func. app3 (NewClosure_function_3_0 p func)),
     ((0, 4), \<lambda>p func. app0 (NewClosure_function_0_4 p func)),
     ((1, 3), \<lambda>p func. app1 (NewClosure_function_1_3 p func)),
     ((2, 2), \<lambda>p func. app2 (NewClosure_function_2_2 p func)),
     ((3, 1), \<lambda>p func. app3 (NewClosure_function_3_1 p func)),
     ((4, 0), \<lambda>p func. app4 (NewClosure_function_4_0 p func)),
     ((0, 5), \<lambda>p func. app0 (NewClosure_function_0_5 p func)),
     ((1, 4), \<lambda>p func. app1 (NewClosure_function_1_4 p func)),
     ((2, 3), \<lambda>p func. app2 (NewClosure_function_2_3 p func)),
     ((3, 2), \<lambda>p func. app3 (NewClosure_function_3_2 p func)),
     ((4, 1), \<lambda>p func. app4 (NewClosure_function_4_1 p func)),
     ((5, 0), \<lambda>p func. app5 (NewClosure_function_5_0 p func)),
     ((0, 6), \<lambda>p func. app0 (NewClosure_function_0_6 p func)),
     ((1, 5), \<lambda>p func. app1 (NewClosure_function_1_5 p func)),
     ((2, 4), \<lambda>p func. app2 (NewClosure_function_2_4 p func)),
     ((3, 3), \<lambda>p func. app3 (NewClosure_function_3_3 p func)),
     ((4, 2), \<lambda>p func. app4 (NewClosure_function_4_2 p func)),
     ((5, 1), \<lambda>p func. app5 (NewClosure_function_5_1 p func)),
     ((6, 0), \<lambda>p func. app6 (NewClosure_function_6_0 p func)),
     ((0, 7), \<lambda>p func. app0 (NewClosure_function_0_7 p func)),
     ((1, 6), \<lambda>p func. app1 (NewClosure_function_1_6 p func)),
     ((2, 5), \<lambda>p func. app2 (NewClosure_function_2_5 p func)),
     ((3, 4), \<lambda>p func. app3 (NewClosure_function_3_4 p func)),
     ((4, 3), \<lambda>p func. app4 (NewClosure_function_4_3 p func)),
     ((5, 2), \<lambda>p func. app5 (NewClosure_function_5_2 p func)),
     ((6, 1), \<lambda>p func. app6 (NewClosure_function_6_1 p func)),
     ((7, 0), \<lambda>p func. app7 (NewClosure_function_7_0 p func))]"

definition NewPermanentClosure_function_table ::
  "((nat \<times> nat) \<times> (addr \<Rightarrow> fn \<Rightarrow> 'v list \<Rightarrow> ('v, 'w) cstate \<Rightarrow> addr \<times> ('v, 'w) cstate)) list" where
  "NewPermanentClosure_function_table = [
     ((0, 0), \<lambda>p func. app0 (NewPermanentClosure_function_0_0 p func)),
     ((0, 1), \<lambda>p func. app0 (NewPermanentClosure_function_0_1 p func)),
     ((1, 0), \<lambda>p func. app1 (NewPermanentClosure_function_1_0 p func)),
     ((0, 2), \<lambda>p func. app0 (NewPermanentClosure_function_0_2 p func)),
     ((1, 1), \<lambda>p func. app1 (NewPermanentClosure_function_1_1 p func)),
     ((2, 0), \<lambda>p func. app2 (NewPermanentClosure_function_2_0 p func)),
     ((0, 3), \<lambda>p func. app0 (NewPermanentClosure_function_0_3 p func)),
     ((1, 2), \<lambda>p func. app1 (NewPermanentClosure_function_1_2 p func)),
     ((2, 1), \<lambda>p func. app2 (NewPermanentClosure_function_2_1 p func)),
     ((3, 0), \<lambda>p func. app3 (NewPermanentClosure_function_3_0 p func)),
     ((0, 4), \<lambda>p func. app0 (NewPermanentClosure_function_0_4 p func)),
     ((1, 3), \<lambda>p func. app1 (NewPermanentClosure_function_1_3 p func)),
     ((2, 2), \<lambda>p func. app2 (NewPermanentClosure_function_2_2 p func)),
     ((3, 1), \<lambda>p func. app3 (NewPermanentClosure_function_3_1 p func)),
     ((4, 0), \<lambda>p func. app4 (NewPermanentClosure_function_4_0 p func)),
     ((0, 5), \<lambda>p func. app0 (NewPermanentClosure_function_0_5 p func)),
     ((1, 4), \<lambda>p func. app1 (NewPermanentClosure_function_1_4 p func)),
     ((2, 3), \<lambda>p func. app2 (NewPermanentClosure_function_2_3 p func)),
     ((3, 2), \<lambda>p func. app3 (NewPermanentClosure_function_3_2 p func)),
     ((4, 1), \<lambda>p func. app4 (NewPermanentClosure_function_4_1 p func)),
     ((5, 0), \<lambda>p func. app5 (NewPermanentClosure_function_5_0 p func)),
     ((0, 6), \<lambda>p func. app0 (NewPermanentClosure_function_0_6 p func)),
     ((1, 5), \<lambda>p func. app1 (NewPermanentClosure_function_1_5 p func)),
     ((2, 4), \<lambda>p func. app2 (NewPermanentClosure_function_2_4 p func)),
     ((3, 3), \<lambda>p func. app3 (NewPermanentClosure_function_3_3 p func)),
     ((4, 2), \<lambda>p func. app4 (NewPermanentClosure_function_4_2 p func)),
     ((5, 1), \<lambda>p func. app5 (NewPermanentClosure_function_5_1 p func)),
     ((6, 0), \<lambda>p func. app6 (NewPermanentClosure_function_6_0 p func)),
     ((0, 7), \<lambda>p func. app0 (NewPermanentClosure_function_0_7 p func)),
     ((1, 6), \<lambda>p func. app1 (NewPermanentClosure_function_1_6 p func)),
     ((2, 5), \<lambda>p func. app2 (NewPermanentClosure_function_2_5 p func)),
     ((3, 4), \<lambda>p func. app3 (NewPermanentClosure_function_3_4 p func)),
     ((4, 3), \<lambda>p func. app4 (NewPermanentClosure_function_4_3 p func)),
     ((5, 2), \<lambda>p func. app5 (NewPermanentClosure_function_5_2 p func)),
     ((6, 1), \<lambda>p func. app6 (NewPermanentClosure_function_6_1 p func)),
     ((7, 0), \<lambda>p func. app7 (NewPermanentClosure_function_7_0 p func))]"

lemma NewClosure_method_table_lookup:
  "map_of NewClosure_method_table (0, 0) = Some (\<lambda>p obj func. app0 (NewClosure_method_0_0 p obj func))"
  "map_of NewClosure_method_table (0, Suc 0) = Some (\<lambda>p obj func. app0 (NewClosure_method_0_1 p obj func))"
  "map_of NewClosure_method_table (Suc 0, 0) = Some (\<lambda>p obj func. app1 (NewClosure_method_1_0 p obj func))"
  "map_of NewClosure_method_table (0, 2) = Some (\<lambda>p obj func. app0 (NewClosure_method_0_2 p obj func))"
  "map_of NewClosure_method_table (Suc 0, Suc 0) = Some (\<lambda>p obj func. app1 (NewClosure_method_1_1 p obj func))"
  "map_of NewClosure_method_table (2, 0) = Some (\<lambda>p obj func. app2 (NewClosure_method_2_0 p obj func))"
  "map_of NewClosure_method_table (0, 3) = Some (\<lambda>p obj func. app0 (NewClosure_method_0_3 p obj func))"
  "map_of NewClosure_method_table (Suc 0, 2) = Some (\<lambda>p obj func. app1 (NewClosure_method_1_2 p obj func))"
  "map_of NewClosure_method_table (2, Suc 0) = Some (\<lambda>p obj func. app2 (NewClosure_method_2_1 p obj func))"
  "map_of NewClosure_method_table (3, 0) = Some (\<lambda>p obj func. app3 (NewClosure_method_3_0 p obj func))"
  "map_of NewClosure_method_table (0, 4) = Some (\<lambda>p obj func. app0 (NewClosure_method_0_4 p obj func))"
  "map_of NewClosure_method_table (Suc 0, 3) = Some (\<lambda>p obj func. app1 (NewClosure_method_1_3 p obj func))"
  "map_of NewClosure_method_table (2, 2) = Some (\<lambda>p obj func. app2 (NewClosure_method_2_2 p obj func))"
  "map_of NewClosure_method_table (3, Suc 0) = Some (\<lambda>p obj func. app3 (NewClosure_method_3_1 p obj func))"
  "map_of NewClosure_method_table (4, 0) = Some (\<lambda>p obj func. app4 (NewClosure_method_4_0 p obj func))"
  "map_of NewClosure_method_table (0, 5) = Some (\<lambda>p obj func. app0 (NewClosure_method_0_5 p obj func))"
  "map_of NewClosure_method_table (Suc 0, 4) = Some (\<lambda>p obj func. app1 (NewClosure_method_1_4 p obj func))"
  "map_of NewClosure_method_table (2, 3) = Some (\<lambda>p obj func. app2 (NewClosure_method_2_3 p obj func))"
  "map_of NewClosure_method_table (3, 2) = Some (\<lambda>p obj func. app3 (NewClosure_method_3_2 p obj func))"
  "map_of NewClosure_method_table (4, Suc 0) = Some (\<lambda>p obj func. app4 (NewClosure_method_4_1 p obj func))"
  "map_of NewClosure_method_table (5, 0) = Some (\<lambda>p obj func. app5 (NewClosure_method_5_0 p obj func))"
  "map_of NewClosure_method_table (0, 6) = Some (\<lambda>p obj func. app0 (NewClosure_method_0_6 p obj func))"
  "map_of NewClosure_method_table (Suc 0, 5) = Some (\<lambda>p obj func. app1 (NewClosure_method_1_5 p obj func))"
  "map_of NewClosure_method_table (2, 4) = Some (\<lambda>p obj func. app2 (NewClosure_method_2_4 p obj func))"
  "map_of NewClosure_method_table (3, 3) = Some (\<lambda>p obj func. app3 (NewClosure_method_3_3 p obj func))"
  "map_of NewClosure_method_table (4, 2) = Some (\<lambda>p obj func. app4 (NewClosure_method_4_2 p obj func))"
  "map_of NewClosure_method_table (5, Suc 0) = Some (\<lambda>p obj func. app5 (NewClosure_method_5_1 p obj func))"
  "map_of NewClosure_method_table (6, 0) = Some (\<lambda>p obj func. app6 (NewClosure_method_6_0 p obj func))"
  "map_of NewClosure_method_table (0, 7) = Some (\<lambda>p obj func. app0 (NewClosure_method_0_7 p obj func))"
  "map_of NewClosure_method_table (Suc 0, 6) = Some (\<lambda>p obj func. app1 (NewClosure_method_1_6 p obj func))"
  "map_of NewClosure_method_table (2, 5) = Some (\<lambda>p obj func. app2 (NewClosure_method_2_5 p obj func))"
  "map_of NewClosure_method_table (3, 4) = Some (\<lambda>p obj func. app3 (NewClosure_method_3_4 p obj func))"
  "map_of NewClosure_method_table (4, 3) = Some (\<lambda>p obj func. app4 (NewClosure_method_4_3 p obj func))"
  "map_of NewClosure_method_table (5, 2) = Some (\<lambda>p obj func. app5 (NewClosure_method_5_2 p obj func))"
  "map_of NewClosure_method_table (6, Suc 0) = Some (\<lambda>p obj func. app6 (NewClosure_method_6_1 p obj func))"
  "map_of NewClosure_method_table (7, 0) = Some (\<lambda>p obj func. app7 (NewClosure_method_7_0 p obj func))"
  by (simp_all add: NewClosure_method_table_def)

definition NewClosure_method ::
  "addr \<Rightarrow> addr \<Rightarrow> fn \<Rightarrow> 'v list \<Rightarrow> nat \<Rightarrow> ('v, 'w) cstate \<Rightarrow> (addr \<times> ('v, 'w) cstate) result" where
  "NewClosure_method p obj func as j s =
     (case map_of NewClosure_method_table (length as, j) of Some f \<Rightarrow> Inr (f p obj func as s) | None \<Rightarrow> Inl Ill_typed)"

lemma NewClosure_method_eq:
  assumes "length as + j \<le> 7"
  shows "NewClosure_method p obj func as j s = Inr (new_object p
    \<lparr>dyn_class = (Method, length as, j), tmpl_del = True, mObj = obj, mFunc = func, mA = as\<rparr> s)"
proof -
  have "as = map (\<lambda>q. as ! q) [0..<length as]" by (rule map_nth [symmetric])
  then have *: "mA_update (\<lambda>_. as) c = mA_update (\<lambda>_. map (\<lambda>q. as ! q) [0..<length as]) c"
    for c :: "'a closure_obj" by metis
  have "NewClosure_method p obj func as j s = Inr (new_object p
    (mA_update (\<lambda>_. as) \<lparr>dyn_class = (Method, length as, j), tmpl_del = True, mObj = obj, mFunc = func, mA = []\<rparr>) s)"
    unfolding * using arity_cases [OF assms]
    by (elim disjE) (simp_all add: NewClosure_method_def NewClosure_method_table_lookup closure_news closure_ctors
      closure_runs upt_0_to_7 del: upt_Suc)
  then show ?thesis by simp
qed

lemma NewPermanentClosure_method_table_lookup:
  "map_of NewPermanentClosure_method_table (0, 0) = Some (\<lambda>p obj func. app0 (NewPermanentClosure_method_0_0 p obj func))"
  "map_of NewPermanentClosure_method_table (0, Suc 0) = Some (\<lambda>p obj func. app0 (NewPermanentClosure_method_0_1 p obj func))"
  "map_of NewPermanentClosure_method_table (Suc 0, 0) = Some (\<lambda>p obj func. app1 (NewPermanentClosure_method_1_0 p obj func))"
  "map_of NewPermanentClosure_method_table (0, 2) = Some (\<lambda>p obj func. app0 (NewPermanentClosure_method_0_2 p obj func))"
  "map_of NewPermanentClosure_method_table (Suc 0, Suc 0) = Some (\<lambda>p obj func. app1 (NewPermanentClosure_method_1_1 p obj func))"
  "map_of NewPermanentClosure_method_table (2, 0) = Some (\<lambda>p obj func. app2 (NewPermanentClosure_method_2_0 p obj func))"
  "map_of NewPermanentClosure_method_table (0, 3) = Some (\<lambda>p obj func. app0 (NewPermanentClosure_method_0_3 p obj func))"
  "map_of NewPermanentClosure_method_table (Suc 0, 2) = Some (\<lambda>p obj func. app1 (NewPermanentClosure_method_1_2 p obj func))"
  "map_of NewPermanentClosure_method_table (2, Suc 0) = Some (\<lambda>p obj func. app2 (NewPermanentClosure_method_2_1 p obj func))"
  "map_of NewPermanentClosure_method_table (3, 0) = Some (\<lambda>p obj func. app3 (NewPermanentClosure_method_3_0 p obj func))"
  "map_of NewPermanentClosure_method_table (0, 4) = Some (\<lambda>p obj func. app0 (NewPermanentClosure_method_0_4 p obj func))"
  "map_of NewPermanentClosure_method_table (Suc 0, 3) = Some (\<lambda>p obj func. app1 (NewPermanentClosure_method_1_3 p obj func))"
  "map_of NewPermanentClosure_method_table (2, 2) = Some (\<lambda>p obj func. app2 (NewPermanentClosure_method_2_2 p obj func))"
  "map_of NewPermanentClosure_method_table (3, Suc 0) = Some (\<lambda>p obj func. app3 (NewPermanentClosure_method_3_1 p obj func))"
  "map_of NewPermanentClosure_method_table (4, 0) = Some (\<lambda>p obj func. app4 (NewPermanentClosure_method_4_0 p obj func))"
  "map_of NewPermanentClosure_method_table (0, 5) = Some (\<lambda>p obj func. app0 (NewPermanentClosure_method_0_5 p obj func))"
  "map_of NewPermanentClosure_method_table (Suc 0, 4) = Some (\<lambda>p obj func. app1 (NewPermanentClosure_method_1_4 p obj func))"
  "map_of NewPermanentClosure_method_table (2, 3) = Some (\<lambda>p obj func. app2 (NewPermanentClosure_method_2_3 p obj func))"
  "map_of NewPermanentClosure_method_table (3, 2) = Some (\<lambda>p obj func. app3 (NewPermanentClosure_method_3_2 p obj func))"
  "map_of NewPermanentClosure_method_table (4, Suc 0) = Some (\<lambda>p obj func. app4 (NewPermanentClosure_method_4_1 p obj func))"
  "map_of NewPermanentClosure_method_table (5, 0) = Some (\<lambda>p obj func. app5 (NewPermanentClosure_method_5_0 p obj func))"
  "map_of NewPermanentClosure_method_table (0, 6) = Some (\<lambda>p obj func. app0 (NewPermanentClosure_method_0_6 p obj func))"
  "map_of NewPermanentClosure_method_table (Suc 0, 5) = Some (\<lambda>p obj func. app1 (NewPermanentClosure_method_1_5 p obj func))"
  "map_of NewPermanentClosure_method_table (2, 4) = Some (\<lambda>p obj func. app2 (NewPermanentClosure_method_2_4 p obj func))"
  "map_of NewPermanentClosure_method_table (3, 3) = Some (\<lambda>p obj func. app3 (NewPermanentClosure_method_3_3 p obj func))"
  "map_of NewPermanentClosure_method_table (4, 2) = Some (\<lambda>p obj func. app4 (NewPermanentClosure_method_4_2 p obj func))"
  "map_of NewPermanentClosure_method_table (5, Suc 0) = Some (\<lambda>p obj func. app5 (NewPermanentClosure_method_5_1 p obj func))"
  "map_of NewPermanentClosure_method_table (6, 0) = Some (\<lambda>p obj func. app6 (NewPermanentClosure_method_6_0 p obj func))"
  "map_of NewPermanentClosure_method_table (0, 7) = Some (\<lambda>p obj func. app0 (NewPermanentClosure_method_0_7 p obj func))"
  "map_of NewPermanentClosure_method_table (Suc 0, 6) = Some (\<lambda>p obj func. app1 (NewPermanentClosure_method_1_6 p obj func))"
  "map_of NewPermanentClosure_method_table (2, 5) = Some (\<lambda>p obj func. app2 (NewPermanentClosure_method_2_5 p obj func))"
  "map_of NewPermanentClosure_method_table (3, 4) = Some (\<lambda>p obj func. app3 (NewPermanentClosure_method_3_4 p obj func))"
  "map_of NewPermanentClosure_method_table (4, 3) = Some (\<lambda>p obj func. app4 (NewPermanentClosure_method_4_3 p obj func))"
  "map_of NewPermanentClosure_method_table (5, 2) = Some (\<lambda>p obj func. app5 (NewPermanentClosure_method_5_2 p obj func))"
  "map_of NewPermanentClosure_method_table (6, Suc 0) = Some (\<lambda>p obj func. app6 (NewPermanentClosure_method_6_1 p obj func))"
  "map_of NewPermanentClosure_method_table (7, 0) = Some (\<lambda>p obj func. app7 (NewPermanentClosure_method_7_0 p obj func))"
  by (simp_all add: NewPermanentClosure_method_table_def)

definition NewPermanentClosure_method ::
  "addr \<Rightarrow> addr \<Rightarrow> fn \<Rightarrow> 'v list \<Rightarrow> nat \<Rightarrow> ('v, 'w) cstate \<Rightarrow> (addr \<times> ('v, 'w) cstate) result" where
  "NewPermanentClosure_method p obj func as j s =
     (case map_of NewPermanentClosure_method_table (length as, j) of Some f \<Rightarrow> Inr (f p obj func as s) | None \<Rightarrow> Inl Ill_typed)"

lemma NewPermanentClosure_method_eq:
  assumes "length as + j \<le> 7"
  shows "NewPermanentClosure_method p obj func as j s = Inr (new_object p
    \<lparr>dyn_class = (Method, length as, j), tmpl_del = False, mObj = obj, mFunc = func, mA = as\<rparr> s)"
proof -
  have "as = map (\<lambda>q. as ! q) [0..<length as]" by (rule map_nth [symmetric])
  then have *: "mA_update (\<lambda>_. as) c = mA_update (\<lambda>_. map (\<lambda>q. as ! q) [0..<length as]) c"
    for c :: "'a closure_obj" by metis
  have "NewPermanentClosure_method p obj func as j s = Inr (new_object p
    (mA_update (\<lambda>_. as) \<lparr>dyn_class = (Method, length as, j), tmpl_del = False, mObj = obj, mFunc = func, mA = []\<rparr>) s)"
    unfolding * using arity_cases [OF assms]
    by (elim disjE) (simp_all add: NewPermanentClosure_method_def NewPermanentClosure_method_table_lookup closure_news closure_ctors
      closure_runs upt_0_to_7 del: upt_Suc)
  then show ?thesis by simp
qed

lemma NewClosure_function_table_lookup:
  "map_of NewClosure_function_table (0, 0) = Some (\<lambda>p func. app0 (NewClosure_function_0_0 p func))"
  "map_of NewClosure_function_table (0, Suc 0) = Some (\<lambda>p func. app0 (NewClosure_function_0_1 p func))"
  "map_of NewClosure_function_table (Suc 0, 0) = Some (\<lambda>p func. app1 (NewClosure_function_1_0 p func))"
  "map_of NewClosure_function_table (0, 2) = Some (\<lambda>p func. app0 (NewClosure_function_0_2 p func))"
  "map_of NewClosure_function_table (Suc 0, Suc 0) = Some (\<lambda>p func. app1 (NewClosure_function_1_1 p func))"
  "map_of NewClosure_function_table (2, 0) = Some (\<lambda>p func. app2 (NewClosure_function_2_0 p func))"
  "map_of NewClosure_function_table (0, 3) = Some (\<lambda>p func. app0 (NewClosure_function_0_3 p func))"
  "map_of NewClosure_function_table (Suc 0, 2) = Some (\<lambda>p func. app1 (NewClosure_function_1_2 p func))"
  "map_of NewClosure_function_table (2, Suc 0) = Some (\<lambda>p func. app2 (NewClosure_function_2_1 p func))"
  "map_of NewClosure_function_table (3, 0) = Some (\<lambda>p func. app3 (NewClosure_function_3_0 p func))"
  "map_of NewClosure_function_table (0, 4) = Some (\<lambda>p func. app0 (NewClosure_function_0_4 p func))"
  "map_of NewClosure_function_table (Suc 0, 3) = Some (\<lambda>p func. app1 (NewClosure_function_1_3 p func))"
  "map_of NewClosure_function_table (2, 2) = Some (\<lambda>p func. app2 (NewClosure_function_2_2 p func))"
  "map_of NewClosure_function_table (3, Suc 0) = Some (\<lambda>p func. app3 (NewClosure_function_3_1 p func))"
  "map_of NewClosure_function_table (4, 0) = Some (\<lambda>p func. app4 (NewClosure_function_4_0 p func))"
  "map_of NewClosure_function_table (0, 5) = Some (\<lambda>p func. app0 (NewClosure_function_0_5 p func))"
  "map_of NewClosure_function_table (Suc 0, 4) = Some (\<lambda>p func. app1 (NewClosure_function_1_4 p func))"
  "map_of NewClosure_function_table (2, 3) = Some (\<lambda>p func. app2 (NewClosure_function_2_3 p func))"
  "map_of NewClosure_function_table (3, 2) = Some (\<lambda>p func. app3 (NewClosure_function_3_2 p func))"
  "map_of NewClosure_function_table (4, Suc 0) = Some (\<lambda>p func. app4 (NewClosure_function_4_1 p func))"
  "map_of NewClosure_function_table (5, 0) = Some (\<lambda>p func. app5 (NewClosure_function_5_0 p func))"
  "map_of NewClosure_function_table (0, 6) = Some (\<lambda>p func. app0 (NewClosure_function_0_6 p func))"
  "map_of NewClosure_function_table (Suc 0, 5) = Some (\<lambda>p func. app1 (NewClosure_function_1_5 p func))"
  "map_of NewClosure_function_table (2, 4) = Some (\<lambda>p func. app2 (NewClosure_function_2_4 p func))"
  "map_of NewClosure_function_table (3, 3) = Some (\<lambda>p func. app3 (NewClosure_function_3_3 p func))"
  "map_of NewClosure_function_table (4, 2) = Some (\<lambda>p func. app4 (NewClosure_function_4_2 p func))"
  "map_of NewClosure_function_table (5, Suc 0) = Some (\<lambda>p func. app5 (NewClosure_function_5_1 p func))"
  "map_of NewClosure_function_table (6, 0) = Some (\<lambda>p func. app6 (NewClosure_function_6_0 p func))"
  "map_of NewClosure_function_table (0, 7) = Some (\<lambda>p func. app0 (NewClosure_function_0_7 p func))"
  "map_of NewClosure_function_table (Suc 0, 6) = Some (\<lambda>p func. app1 (NewClosure_function_1_6 p func))"
  "map_of NewClosure_function_table (2, 5) = Some (\<lambda>p func. app2 (NewClosure_function_2_5 p func))"
  "map_of NewClosure_function_table (3, 4) = Some (\<lambda>p func. app3 (NewClosure_function_3_4 p func))"
  "map_of NewClosure_function_table (4, 3) = Some (\<lambda>p func. app4 (NewClosure_function_4_3 p func))"
  "map_of NewClosure_function_table (5, 2) = Some (\<lambda>p func. app5 (NewClosure_function_5_2 p func))"
  "map_of NewClosure_function_table (6, Suc 0) = Some (\<lambda>p func. app6 (NewClosure_function_6_1 p func))"
  "map_of NewClosure_function_table (7, 0) = Some (\<lambda>p func. app7 (NewClosure_function_7_0 p func))"
  by (simp_all add: NewClosure_function_table_def)

definition NewClosure_function ::
  "addr \<Rightarrow> fn \<Rightarrow> 'v list \<Rightarrow> nat \<Rightarrow> ('v, 'w) cstate \<Rightarrow> (addr \<times> ('v, 'w) cstate) result" where
  "NewClosure_function p func as j s =
     (case map_of NewClosure_function_table (length as, j) of Some f \<Rightarrow> Inr (f p func as s) | None \<Rightarrow> Inl Ill_typed)"

lemma NewClosure_function_eq:
  assumes "length as + j \<le> 7"
  shows "NewClosure_function p func as j s = Inr (new_object p
    \<lparr>dyn_class = (Function, length as, j), tmpl_del = True, mObj = 0, mFunc = func, mA = as\<rparr> s)"
proof -
  have "as = map (\<lambda>q. as ! q) [0..<length as]" by (rule map_nth [symmetric])
  then have *: "mA_update (\<lambda>_. as) c = mA_update (\<lambda>_. map (\<lambda>q. as ! q) [0..<length as]) c"
    for c :: "'a closure_obj" by metis
  have "NewClosure_function p func as j s = Inr (new_object p
    (mA_update (\<lambda>_. as) \<lparr>dyn_class = (Function, length as, j), tmpl_del = True, mObj = 0, mFunc = func, mA = []\<rparr>) s)"
    unfolding * using arity_cases [OF assms]
    by (elim disjE) (simp_all add: NewClosure_function_def NewClosure_function_table_lookup closure_news closure_ctors
      closure_runs upt_0_to_7 del: upt_Suc)
  then show ?thesis by simp
qed

lemma NewPermanentClosure_function_table_lookup:
  "map_of NewPermanentClosure_function_table (0, 0) = Some (\<lambda>p func. app0 (NewPermanentClosure_function_0_0 p func))"
  "map_of NewPermanentClosure_function_table (0, Suc 0) = Some (\<lambda>p func. app0 (NewPermanentClosure_function_0_1 p func))"
  "map_of NewPermanentClosure_function_table (Suc 0, 0) = Some (\<lambda>p func. app1 (NewPermanentClosure_function_1_0 p func))"
  "map_of NewPermanentClosure_function_table (0, 2) = Some (\<lambda>p func. app0 (NewPermanentClosure_function_0_2 p func))"
  "map_of NewPermanentClosure_function_table (Suc 0, Suc 0) = Some (\<lambda>p func. app1 (NewPermanentClosure_function_1_1 p func))"
  "map_of NewPermanentClosure_function_table (2, 0) = Some (\<lambda>p func. app2 (NewPermanentClosure_function_2_0 p func))"
  "map_of NewPermanentClosure_function_table (0, 3) = Some (\<lambda>p func. app0 (NewPermanentClosure_function_0_3 p func))"
  "map_of NewPermanentClosure_function_table (Suc 0, 2) = Some (\<lambda>p func. app1 (NewPermanentClosure_function_1_2 p func))"
  "map_of NewPermanentClosure_function_table (2, Suc 0) = Some (\<lambda>p func. app2 (NewPermanentClosure_function_2_1 p func))"
  "map_of NewPermanentClosure_function_table (3, 0) = Some (\<lambda>p func. app3 (NewPermanentClosure_function_3_0 p func))"
  "map_of NewPermanentClosure_function_table (0, 4) = Some (\<lambda>p func. app0 (NewPermanentClosure_function_0_4 p func))"
  "map_of NewPermanentClosure_function_table (Suc 0, 3) = Some (\<lambda>p func. app1 (NewPermanentClosure_function_1_3 p func))"
  "map_of NewPermanentClosure_function_table (2, 2) = Some (\<lambda>p func. app2 (NewPermanentClosure_function_2_2 p func))"
  "map_of NewPermanentClosure_function_table (3, Suc 0) = Some (\<lambda>p func. app3 (NewPermanentClosure_function_3_1 p func))"
  "map_of NewPermanentClosure_function_table (4, 0) = Some (\<lambda>p func. app4 (NewPermanentClosure_function_4_0 p func))"
  "map_of NewPermanentClosure_function_table (0, 5) = Some (\<lambda>p func. app0 (NewPermanentClosure_function_0_5 p func))"
  "map_of NewPermanentClosure_function_table (Suc 0, 4) = Some (\<lambda>p func. app1 (NewPermanentClosure_function_1_4 p func))"
  "map_of NewPermanentClosure_function_table (2, 3) = Some (\<lambda>p func. app2 (NewPermanentClosure_function_2_3 p func))"
  "map_of NewPermanentClosure_function_table (3, 2) = Some (\<lambda>p func. app3 (NewPermanentClosure_function_3_2 p func))"
  "map_of NewPermanentClosure_function_table (4, Suc 0) = Some (\<lambda>p func. app4 (NewPermanentClosure_function_4_1 p func))"
  "map_of NewPermanentClosure_function_table (5, 0) = Some (\<lambda>p func. app5 (NewPermanentClosure_function_5_0 p func))"
  "map_of NewPermanentClosure_function_table (0, 6) = Some (\<lambda>p func. app0 (NewPermanentClosure_function_0_6 p func))"
  "map_of NewPermanentClosure_function_table (Suc 0, 5) = Some (\<lambda>p func. app1 (NewPermanentClosure_function_1_5 p func))"
  "map_of NewPermanentClosure_function_table (2, 4) = Some (\<lambda>p func. app2 (NewPermanentClosure_function_2_4 p func))"
  "map_of NewPermanentClosure_function_table (3, 3) = Some (\<lambda>p func. app3 (NewPermanentClosure_function_3_3 p func))"
  "map_of NewPermanentClosure_function_table (4, 2) = Some (\<lambda>p func. app4 (NewPermanentClosure_function_4_2 p func))"
  "map_of NewPermanentClosure_function_table (5, Suc 0) = Some (\<lambda>p func. app5 (NewPermanentClosure_function_5_1 p func))"
  "map_of NewPermanentClosure_function_table (6, 0) = Some (\<lambda>p func. app6 (NewPermanentClosure_function_6_0 p func))"
  "map_of NewPermanentClosure_function_table (0, 7) = Some (\<lambda>p func. app0 (NewPermanentClosure_function_0_7 p func))"
  "map_of NewPermanentClosure_function_table (Suc 0, 6) = Some (\<lambda>p func. app1 (NewPermanentClosure_function_1_6 p func))"
  "map_of NewPermanentClosure_function_table (2, 5) = Some (\<lambda>p func. app2 (NewPermanentClosure_function_2_5 p func))"
  "map_of NewPermanentClosure_function_table (3, 4) = Some (\<lambda>p func. app3 (NewPermanentClosure_function_3_4 p func))"
  "map_of NewPermanentClosure_function_table (4, 3) = Some (\<lambda>p func. app4 (NewPermanentClosure_function_4_3 p func))"
  "map_of NewPermanentClosure_function_table (5, 2) = Some (\<lambda>p func. app5 (NewPermanentClosure_function_5_2 p func))"
  "map_of NewPermanentClosure_function_table (6, Suc 0) = Some (\<lambda>p func. app6 (NewPermanentClosure_function_6_1 p func))"
  "map_of NewPermanentClosure_function_table (7, 0) = Some (\<lambda>p func. app7 (NewPermanentClosure_function_7_0 p func))"
  by (simp_all add: NewPermanentClosure_function_table_def)

definition NewPermanentClosure_function ::
  "addr \<Rightarrow> fn \<Rightarrow> 'v list \<Rightarrow> nat \<Rightarrow> ('v, 'w) cstate \<Rightarrow> (addr \<times> ('v, 'w) cstate) result" where
  "NewPermanentClosure_function p func as j s =
     (case map_of NewPermanentClosure_function_table (length as, j) of Some f \<Rightarrow> Inr (f p func as s) | None \<Rightarrow> Inl Ill_typed)"

lemma NewPermanentClosure_function_eq:
  assumes "length as + j \<le> 7"
  shows "NewPermanentClosure_function p func as j s = Inr (new_object p
    \<lparr>dyn_class = (Function, length as, j), tmpl_del = False, mObj = 0, mFunc = func, mA = as\<rparr> s)"
proof -
  have "as = map (\<lambda>q. as ! q) [0..<length as]" by (rule map_nth [symmetric])
  then have *: "mA_update (\<lambda>_. as) c = mA_update (\<lambda>_. map (\<lambda>q. as ! q) [0..<length as]) c"
    for c :: "'a closure_obj" by metis
  have "NewPermanentClosure_function p func as j s = Inr (new_object p
    (mA_update (\<lambda>_. as) \<lparr>dyn_class = (Function, length as, j), tmpl_del = False, mObj = 0, mFunc = func, mA = []\<rparr>) s)"
    unfolding * using arity_cases [OF assms]
    by (elim disjE) (simp_all add: NewPermanentClosure_function_def NewPermanentClosure_function_table_lookup closure_news closure_ctors
      closure_runs upt_0_to_7 del: upt_Suc)
  then show ?thesis by simp
qed

section \<open>What a closure factory promises\<close>

lemma SelfDeleter_False [simp]: "SelfDeleter False p body s = body s"
  by (cases "body s") (auto simp: SelfDeleter_def)

lemma ClosureBase_delete_live [simp]:
  "p \<noteq> NULL \<Longrightarrow> objects s p = Some obj \<Longrightarrow> ClosureBase_delete p s =
     Inr (s\<lparr>objects := (objects s)(p := None), freed := (freed s)(p \<mapsto> ClosureBase_dtor obj)\<rparr>)"
  by (simp add: ClosureBase_delete_def)

lemma dead_closure [simp]:
  assumes "p \<noteq> NULL" and "objects s p = None"
  shows "Closure_Run code p args s = Inl Use_after_free" and "ClosureBase_delete p s = Inl Use_after_free"
  using assms by (simp_all add: Closure_Run_def ClosureBase_delete_def)

primrec runs :: "('v, 'w) run list \<Rightarrow> ('v, 'w) cstate \<Rightarrow> ('v outcome list \<times> ('v, 'w) cstate) result" where
  "runs [] s = Inr ([], s)"
| "runs (r # rs) s = bind_result (r s) (\<lambda>(out, s').
     bind_result (runs rs s') (\<lambda>(outs, s''). Inr (out # outs, s'')))"

locale closure_factory =
  fixes make :: "addr \<Rightarrow> 'v list \<Rightarrow> nat \<Rightarrow> ('v, 'w) cstate \<Rightarrow> (addr \<times> ('v, 'w) cstate) result"
    and target :: "('v, 'w) code \<Rightarrow> 'v list \<Rightarrow> ('v, 'w) run"
    and del :: bool
  assumes make_new: "length as + j \<le> 7 \<Longrightarrow> \<exists>obj. make p as j s = Inr (new_object p obj s) \<and>
      wf_closure obj \<and> snd (snd (dyn_class obj)) = j \<and> mA obj = as \<and> tmpl_del obj = del \<and>
      (\<forall>code. call_target code obj = target code)"
begin

definition holds_closure :: "addr \<Rightarrow> 'v list \<Rightarrow> nat \<Rightarrow> ('v, 'w) cstate \<Rightarrow> bool" where
  "holds_closure p as j s \<longleftrightarrow> (\<exists>obj. objects s p = Some obj \<and> wf_closure obj \<and>
     snd (snd (dyn_class obj)) = j \<and> mA obj = as \<and> tmpl_del obj = del \<and>
     (\<forall>code. call_target code obj = target code))"

lemma make_holds:
  assumes "length as + j \<le> 7"
  shows "\<exists>s1. make p as j s = Inr (p, s1) \<and> holds_closure p as j s1 \<and> world s1 = world s \<and>
    (\<forall>q. q \<noteq> p \<longrightarrow> objects s1 q = objects s q)"
  using make_new [OF assms, of p s] by (auto simp: new_object_def holds_closure_def)

lemma run_holding:
  assumes "holds_closure p as (length fs) s" and "p \<noteq> NULL"
  shows "Closure_Run code p fs s = SelfDeleter del p (target code (as @ fs)) s"
proof -
  obtain obj where "objects s p = Some obj" "wf_closure obj" "snd (snd (dyn_class obj)) = length fs"
    "mA obj = as" "tmpl_del obj = del" "call_target code obj = target code"
    using assms(1) by (auto simp: holds_closure_def)
  then show ?thesis using Closure_Run_live [OF assms(2), of s obj fs code] by simp
qed

lemma run_one_shot:
  assumes "holds_closure p as (length fs) s" and "p \<noteq> NULL" and "del"
    and "target code (as @ fs) s = Inr (out, s2)" and "objects s2 p = objects s p"
  shows "\<exists>s3. Closure_Run code p fs s = Inr (out, s3) \<and> objects s3 = (objects s2)(p := None) \<and>
    world s3 = world s2"
proof -
  obtain obj where "objects s2 p = Some obj" using assms(1,5) by (auto simp: holds_closure_def)
  then show ?thesis
    using assms(2-4) run_holding [OF assms(1,2)] by (simp add: SelfDeleter_def)
qed

lemma run_permanent:
  assumes "holds_closure p as j s" and "p \<noteq> NULL" and "\<not> del"
    and "\<forall>args s out s'. target code args s = Inr (out, s') \<longrightarrow> objects s' p = objects s p"
    and "\<forall>fs \<in> set fss. length fs = j"
  shows "runs (map (Closure_Run code p) fss) s = runs (map (\<lambda>fs. target code (as @ fs)) fss) s \<and>
    (\<forall>outs s'. runs (map (Closure_Run code p) fss) s = Inr (outs, s') \<longrightarrow> holds_closure p as j s')"
  using assms
proof (induction fss arbitrary: s)
  case (Cons fs fss)
  have r: "Closure_Run code p fs s = target code (as @ fs) s"
    using run_holding [of p as fs s code] Cons.prems by simp
  show ?case
  proof (cases "target code (as @ fs) s")
    case (Inr os)
    obtain out s' where os: "os = (out, s')" by (cases os)
    have "holds_closure p as j s'"
      using Cons.prems(1,4) Inr os by (fastforce simp: holds_closure_def)
    then show ?thesis
      using Cons.IH [of s'] Cons.prems r Inr os by (auto split: sum.splits)
  qed (simp add: r)
qed simp

end

interpretation one_shot_method: closure_factory
    "\<lambda>p. NewClosure_method p obj func" "\<lambda>code. call_method code obj func" True
  for obj func
  by unfold_locales (force simp: NewClosure_method_eq wf_closure_def call_target_def)

interpretation permanent_method: closure_factory
    "\<lambda>p. NewPermanentClosure_method p obj func" "\<lambda>code. call_method code obj func" False
  for obj func
  by unfold_locales (force simp: NewPermanentClosure_method_eq wf_closure_def call_target_def)

interpretation one_shot_function: closure_factory
    "\<lambda>p. NewClosure_function p func" "\<lambda>code. call_function code func" True
  for func
  by unfold_locales (force simp: NewClosure_function_eq wf_closure_def call_target_def)

interpretation permanent_function: closure_factory
    "\<lambda>p. NewPermanentClosure_function p func" "\<lambda>code. call_function code func" False
  for func
  by unfold_locales (force simp: NewPermanentClosure_function_eq wf_closure_def call_target_def)


section \<open>Properties of closures\<close>

lemma call_method_ok [simp]:
  "obj \<noteq> NULL \<Longrightarrow> func \<noteq> 0 \<Longrightarrow> call_method code obj func args = code func obj args"
  by (rule ext) (simp add: call_method_def)

lemma call_function_ok [simp]:
  "func \<noteq> 0 \<Longrightarrow> call_function code func args = code func NULL args"
  by (rule ext) (simp add: call_function_def)

text \<open>
  C5. For every overload of \<open>NewClosure\<close> and \<open>NewPermanentClosure\<close>, with any number of bound and of free
  arguments (seven in all at most), the closure is created without touching another object, and
  \<open>Run\<close> calls the function with the bound arguments first, in order, and then the free ones; a closure
  of \<open>NewClosure\<close> deletes itself after that call and a permanent one only makes the call.
\<close>

theorem closure_binds_arguments:
  assumes "length as + length fs \<le> 7" and "p \<noteq> NULL" and "obj \<noteq> NULL" and "func \<noteq> 0"
  shows "(\<exists>s1. NewClosure_method p obj func as (length fs) s = Inr (p, s1) \<and> world s1 = world s \<and>
      (\<forall>q. q \<noteq> p \<longrightarrow> objects s1 q = objects s q) \<and>
      Closure_Run code p fs s1 = SelfDeleter True p (code func obj (as @ fs)) s1) \<and>
    (\<exists>s1. NewPermanentClosure_method p obj func as (length fs) s = Inr (p, s1) \<and> world s1 = world s \<and>
      (\<forall>q. q \<noteq> p \<longrightarrow> objects s1 q = objects s q) \<and>
      Closure_Run code p fs s1 = code func obj (as @ fs) s1) \<and>
    (\<exists>s1. NewClosure_function p func as (length fs) s = Inr (p, s1) \<and> world s1 = world s \<and>
      (\<forall>q. q \<noteq> p \<longrightarrow> objects s1 q = objects s q) \<and>
      Closure_Run code p fs s1 = SelfDeleter True p (code func NULL (as @ fs)) s1) \<and>
    (\<exists>s1. NewPermanentClosure_function p func as (length fs) s = Inr (p, s1) \<and> world s1 = world s \<and>
      (\<forall>q. q \<noteq> p \<longrightarrow> objects s1 q = objects s q) \<and>
      Closure_Run code p fs s1 = code func NULL (as @ fs) s1)"
proof -
  obtain s1 where "NewClosure_method p obj func as (length fs) s = Inr (p, s1)" "world s1 = world s"
      "\<forall>q. q \<noteq> p \<longrightarrow> objects s1 q = objects s q" "one_shot_method.holds_closure obj func p as (length fs) s1"
    using one_shot_method.make_holds [OF assms(1), of p obj func s] by blast
  note m1 = this(1-3) one_shot_method.run_holding [OF this(4) assms(2), of code]
  obtain s2 where "NewPermanentClosure_method p obj func as (length fs) s = Inr (p, s2)" "world s2 = world s"
      "\<forall>q. q \<noteq> p \<longrightarrow> objects s2 q = objects s q" "permanent_method.holds_closure obj func p as (length fs) s2"
    using permanent_method.make_holds [OF assms(1), of p obj func s] by blast
  note m2 = this(1-3) permanent_method.run_holding [OF this(4) assms(2), of code]
  obtain s3 where "NewClosure_function p func as (length fs) s = Inr (p, s3)" "world s3 = world s"
      "\<forall>q. q \<noteq> p \<longrightarrow> objects s3 q = objects s q" "one_shot_function.holds_closure func p as (length fs) s3"
    using one_shot_function.make_holds [OF assms(1), of p func s] by blast
  note m3 = this(1-3) one_shot_function.run_holding [OF this(4) assms(2), of code]
  obtain s4 where "NewPermanentClosure_function p func as (length fs) s = Inr (p, s4)" "world s4 = world s"
      "\<forall>q. q \<noteq> p \<longrightarrow> objects s4 q = objects s q" "permanent_function.holds_closure func p as (length fs) s4"
    using permanent_function.make_holds [OF assms(1), of p func s] by blast
  note m4 = this(1-3) permanent_function.run_holding [OF this(4) assms(2), of code]
  show ?thesis
    using m1 m2 m3 m4 assms(3,4) by (intro conjI exI) (assumption | simp)+
qed

definition sum_code :: "(nat, nat list) code" where
  \<comment> \<open>a program of one function: it logs the object and returns the sum of its arguments\<close>
  "sum_code func obj args s = Inr (Return (sum_list args), s\<lparr>world := obj # world s\<rparr>)"

definition no_closures :: "(nat, nat list) cstate" where
  "no_closures = \<lparr>objects = (\<lambda>_. None), freed = (\<lambda>_. None), world = []\<rparr>"

theorem closure_binds_arguments_witness:
  "\<exists>s1. NewPermanentClosure_method 4 8 1 [1, 2] 1 no_closures = Inr (4, s1) \<and>
     Closure_Run sum_code 4 [3] s1 = Inr (Return 6, s1\<lparr>world := [8]\<rparr>)"
  using closure_binds_arguments [of "[1, 2]" "[3]" 4 8 1 no_closures sum_code]
  by (auto simp: sum_code_def no_closures_def)

text \<open>
  C11. A closure made by \<open>NewClosure\<close> runs exactly once, for methods and for functions: when the call
  returns or throws and has left the closure alone, the outcome is passed on, the closure is gone and
  nothing else has changed, and running or deleting it again is a use of a deleted object.
\<close>

theorem one_shot_closure_runs_once:
  assumes "length as + length fs \<le> 7" and "p \<noteq> NULL" and "obj \<noteq> NULL" and "func \<noteq> 0"
    and "NewClosure_method p obj func as (length fs) s = Inr (q, s1)"
    and "NewClosure_function p func as (length fs) s = Inr (q', t1)"
    and "code func obj (as @ fs) s1 = Inr (out, s2)" and "objects s2 p = objects s1 p"
    and "code func NULL (as @ fs) t1 = Inr (out', t2)" and "objects t2 p = objects t1 p"
  shows "(\<exists>s3. Closure_Run code q fs s1 = Inr (out, s3) \<and> objects s3 = (objects s2)(p := None) \<and>
      world s3 = world s2 \<and> Closure_Run code q fs' s3 = Inl Use_after_free \<and>
      ClosureBase_delete q s3 = Inl Use_after_free) \<and>
    (\<exists>t3. Closure_Run code q' fs t1 = Inr (out', t3) \<and> objects t3 = (objects t2)(p := None) \<and>
      world t3 = world t2 \<and> Closure_Run code q' fs' t3 = Inl Use_after_free \<and>
      ClosureBase_delete q' t3 = Inl Use_after_free)"
proof -
  have h: "q = p" "q' = p" "one_shot_method.holds_closure obj func p as (length fs) s1"
      "one_shot_function.holds_closure func p as (length fs) t1"
    using one_shot_method.make_holds [OF assms(1), of p obj func s]
      one_shot_function.make_holds [OF assms(1), of p func s] assms(5,6) by auto
  obtain s3 where "Closure_Run code p fs s1 = Inr (out, s3)" "objects s3 = (objects s2)(p := None)"
      "world s3 = world s2"
    using one_shot_method.run_one_shot [OF h(3) assms(2) TrueI _ assms(8), of code out] assms(3,4,7) by auto
  moreover obtain t3 where "Closure_Run code p fs t1 = Inr (out', t3)" "objects t3 = (objects t2)(p := None)"
      "world t3 = world t2"
    using one_shot_function.run_one_shot [OF h(4) assms(2) TrueI _ assms(10), of code out'] assms(4,9) by auto
  ultimately show ?thesis using h(1,2) assms(2) by simp
qed

theorem one_shot_closure_runs_once_witness:
  "\<exists>s1 s3. NewClosure_method 4 8 1 [1, 2] 1 no_closures = Inr (4, s1) \<and>
     Closure_Run sum_code 4 [3] s1 = Inr (Return 6, s3) \<and> Closure_Run sum_code 4 [3] s3 = Inl Use_after_free"
proof -
  obtain s1 t1 where n: "NewClosure_method 4 8 1 [1, 2] (length [3 :: nat]) no_closures = Inr (4, s1)"
      "NewClosure_function 4 1 [1, 2] (length [3 :: nat]) no_closures = Inr (4, t1)"
    by (simp add: NewClosure_method_eq NewClosure_function_eq new_object_def)
  show ?thesis
    using one_shot_closure_runs_once [OF _ _ _ _ n, of sum_code "Return 6" "s1\<lparr>world := 8 # world s1\<rparr>" "Return 6"
        "t1\<lparr>world := 0 # world t1\<rparr>" "[3]"] n
    by (auto simp: sum_code_def)
qed

text \<open>
  C13. A closure made by \<open>NewPermanentClosure\<close>, for a method or for a function, can be run any number of times: if no call of the
  function changes or deletes the closure, a sequence of runs, each with its own free arguments, does exactly what the sequence of calls with the bound
  arguments prepended does, up to the first call that fails, and when it is over the closure is still there to be deleted by its owner.
\<close>

theorem permanent_closure_runs_any_number_of_times:
  assumes "length as + j \<le> 7" and "p \<noteq> NULL" and "obj \<noteq> NULL" and "func \<noteq> 0"
    and "NewPermanentClosure_method p obj func as j s = Inr (q, s1)" and "NewPermanentClosure_function p func as j s = Inr (q', t1)"
    and "\<forall>this \<in> {obj, NULL}. \<forall>args t out t'. code func this args t = Inr (out, t') \<longrightarrow> objects t' p = objects t p"
    and "\<forall>fs \<in> set fss. length fs = j"
  shows "runs (map (Closure_Run code q) fss) s1 = runs (map (\<lambda>fs. code func obj (as @ fs)) fss) s1 \<and>
    (\<forall>outs t. runs (map (Closure_Run code q) fss) s1 = Inr (outs, t) \<longrightarrow> (\<exists>t'. ClosureBase_delete q t = Inr t')) \<and>
    runs (map (Closure_Run code q') fss) t1 = runs (map (\<lambda>fs. code func NULL (as @ fs)) fss) t1 \<and>
    (\<forall>outs t. runs (map (Closure_Run code q') fss) t1 = Inr (outs, t) \<longrightarrow> (\<exists>t'. ClosureBase_delete q' t = Inr t'))"
proof -
  have h: "q = p" "q' = p" "permanent_method.holds_closure obj func p as j s1" "permanent_function.holds_closure func p as j t1"
    using permanent_method.make_holds [OF assms(1), of p obj func s] permanent_function.make_holds [OF assms(1), of p func s] assms(5,6) by auto
  have keep: "\<forall>args t out t'. call_method code obj func args t = Inr (out, t') \<longrightarrow> objects t' p = objects t p"
    "\<forall>args t out t'. call_function code func args t = Inr (out, t') \<longrightarrow> objects t' p = objects t p"
    using assms(3,4,7) by simp_all
  have "permanent_method.holds_closure obj func p as j t \<Longrightarrow> \<exists>t'. ClosureBase_delete p t = Inr t'"
    "permanent_function.holds_closure func p as j t \<Longrightarrow> \<exists>t'. ClosureBase_delete p t = Inr t'" for t
    using assms(2) by (auto simp: permanent_method.holds_closure_def permanent_function.holds_closure_def)
  then show ?thesis
    using permanent_method.run_permanent [OF h(3) assms(2) _ keep(1) assms(8)] permanent_function.run_permanent [OF h(4) assms(2) _ keep(2) assms(8)]
      assms(3,4) h(1,2) by auto
qed

theorem permanent_closure_runs_any_number_of_times_witness:
  "\<exists>s1. NewPermanentClosure_method 4 8 1 [1, 2] 1 no_closures = Inr (4, s1) \<and>
     runs (map (Closure_Run sum_code 4) [[3], [4]]) s1 =
       Inr ([Return 6, Return 7], s1\<lparr>world := [8, 8]\<rparr>)"
proof -
  obtain s1 t1 where n: "NewPermanentClosure_method 4 8 1 [1, 2] 1 no_closures = Inr (4, s1)"
      "NewPermanentClosure_function 4 1 [1, 2] 1 no_closures = Inr (4, t1)" and "world s1 = []"
    by (simp add: NewPermanentClosure_method_eq NewPermanentClosure_function_eq new_object_def no_closures_def)
  then show ?thesis
    using permanent_closure_runs_any_number_of_times [OF _ _ _ _ n, of sum_code "[[3], [4]]"]
    by (simp add: sum_code_def)
qed

end
