(* ===== verification/Stone_Containers.thy ===== *)
theory Stone_Containers
  imports Stone_Prelude
begin

text \<open>
  The contracts that the library's containers share: a queue that gives its elements back in the order in
  which they went in, and a stack that gives them back in the reverse order. A provider names the
  relation between its state and a list, when an element may be added and which element an addition rules
  out (an intrusive container cannot hold an element twice), how much room it has, and its two operations; the
  lemmas on adding and draining any number of elements are proved here once.
\<close>

section \<open>Repeated operations\<close>

primrec push_all :: "('a \<Rightarrow> 's \<Rightarrow> 's result) \<Rightarrow> 'a list \<Rightarrow> 's \<Rightarrow> 's result" where
  "push_all push [] s = Inr s"
| "push_all push (x # xs) s = bind_result (push x s) (push_all push xs)"

primrec pop_n :: "('s \<Rightarrow> ('a \<times> 's) result) \<Rightarrow> nat \<Rightarrow> 's \<Rightarrow> ('a list \<times> 's) result" where
  "pop_n pop 0 s = Inr ([], s)"
| "pop_n pop (Suc n) s = bind_result (pop s) (\<lambda>(x, s').
     bind_result (pop_n pop n s') (\<lambda>(xs, s''). Inr (x # xs, s'')))"

lemma sorted_wrt_neq_distinct: "sorted_wrt (\<noteq>) xs \<longleftrightarrow> distinct xs"
  by (induction xs) auto

section \<open>Containers that represent lists\<close>

locale list_container =
  fixes rep :: "'s \<Rightarrow> 'a list \<Rightarrow> bool"
    and addable :: "'s \<Rightarrow> 'a \<Rightarrow> bool"
    and clash :: "'a \<Rightarrow> 'a \<Rightarrow> bool"
    and room :: "nat \<Rightarrow> bool"
    and pop :: "'s \<Rightarrow> ('a \<times> 's) result"
  assumes pop_first: "rep s (x # xs) \<Longrightarrow> \<exists>s'. pop s = Inr (x, s') \<and> rep s' xs"
    and room_mono: "room n \<Longrightarrow> m \<le> n \<Longrightarrow> room m"
begin

lemma pop_n_prefix:
  "rep s (xs @ ys) \<Longrightarrow> \<exists>s'. pop_n pop (length xs) s = Inr (xs, s') \<and> rep s' ys"
proof (induction xs arbitrary: s)
  case (Cons x xs)
  obtain s1 where s1: "pop s = Inr (x, s1)" "rep s1 (xs @ ys)"
    using pop_first Cons.prems by fastforce
  show ?case using Cons.IH [OF s1(2)] s1(1) by auto
qed simp

end

locale fifo_container = list_container +
  fixes push :: "'a \<Rightarrow> 's \<Rightarrow> 's result"
  assumes push_last: "rep s xs \<Longrightarrow> addable s x \<Longrightarrow> room (length xs + 1) \<Longrightarrow>
      \<exists>s'. push x s = Inr s' \<and> rep s' (xs @ [x]) \<and> (\<forall>y. addable s y \<and> \<not> clash x y \<longrightarrow> addable s' y)"
begin

lemma push_all_appends:
  "rep s xs \<Longrightarrow> \<forall>y \<in> set ys. addable s y \<Longrightarrow> sorted_wrt (\<lambda>x y. \<not> clash x y) ys \<Longrightarrow> room (length xs + length ys) \<Longrightarrow>
    \<exists>s'. push_all push ys s = Inr s' \<and> rep s' (xs @ ys)"
proof (induction ys arbitrary: s xs)
  case (Cons y ys)
  obtain s1 where s1: "push y s = Inr s1" "rep s1 (xs @ [y])"
      "\<forall>z. addable s z \<and> \<not> clash y z \<longrightarrow> addable s1 z"
    using push_last [of s xs y] room_mono [OF Cons.prems(4), of "length xs + 1"] Cons.prems(1,2) by auto
  show ?case
    using Cons.IH [OF s1(2)] Cons.prems(2-4) s1(1,3) by (fastforce simp: Suc_le_eq)
qed simp

lemma fifo_order:
  assumes "rep s []" and "\<forall>y \<in> set ys. addable s y" and "sorted_wrt (\<lambda>x y. \<not> clash x y) ys" and "room (length ys)"
  shows "\<exists>s' s''. push_all push ys s = Inr s' \<and> pop_n pop (length ys) s' = Inr (ys, s'') \<and> rep s'' []"
proof -
  obtain s' where "push_all push ys s = Inr s'" "rep s' ys"
    using push_all_appends [OF assms(1-3)] assms(4) by auto
  then show ?thesis using pop_n_prefix [of s' ys "[]"] by auto
qed

end

locale lifo_container = list_container +
  fixes push :: "'a \<Rightarrow> 's \<Rightarrow> 's result"
  assumes push_first: "rep s xs \<Longrightarrow> addable s x \<Longrightarrow> room (length xs + 1) \<Longrightarrow>
      \<exists>s'. push x s = Inr s' \<and> rep s' (x # xs) \<and> (\<forall>y. addable s y \<and> \<not> clash x y \<longrightarrow> addable s' y)"
begin

lemma push_all_prepends:
  "rep s xs \<Longrightarrow> \<forall>y \<in> set ys. addable s y \<Longrightarrow> sorted_wrt (\<lambda>x y. \<not> clash x y) ys \<Longrightarrow> room (length xs + length ys) \<Longrightarrow>
    \<exists>s'. push_all push ys s = Inr s' \<and> rep s' (rev ys @ xs)"
proof (induction ys arbitrary: s xs)
  case (Cons y ys)
  obtain s1 where s1: "push y s = Inr s1" "rep s1 (y # xs)"
      "\<forall>z. addable s z \<and> \<not> clash y z \<longrightarrow> addable s1 z"
    using push_first [of s xs y] room_mono [OF Cons.prems(4), of "length xs + 1"] Cons.prems(1,2) by auto
  show ?case
    using Cons.IH [OF s1(2)] Cons.prems(2-4) s1(1,3) by fastforce
qed simp

lemma lifo_order:
  assumes "rep s []" and "\<forall>y \<in> set ys. addable s y" and "sorted_wrt (\<lambda>x y. \<not> clash x y) ys" and "room (length ys)"
  shows "\<exists>s' s''. push_all push ys s = Inr s' \<and> pop_n pop (length ys) s' = Inr (rev ys, s'') \<and> rep s'' []"
proof -
  obtain s' where "push_all push ys s = Inr s'" "rep s' (rev ys)"
    using push_all_prepends [OF assms(1-3)] assms(4) by auto
  then show ?thesis using pop_n_prefix [of s' "rev ys" "[]"] by auto
qed

end

end
