(* ===== verification/Stone_Intrusive_List.thy ===== *)
theory Stone_Intrusive_List
  imports Stone_Containers
begin

text \<open>
  \<^verbatim>\<open>containers/intrusive_list.h\<close>, the singly linked half: \<open>LinkNode\<close> and \<open>IntrusiveList\<close>, with
  \<^verbatim>\<open>utility/member_to_object.h\<close>. The heap maps the address of every live node to its \<open>next\<close> pointer.
  An element is the address of an object of type \<open>T\<close> and \<open>off\<close> is the offset of its link member \<open>M\<close>, so
  its node is at \<open>elem + off\<close>. An access through the null pointer or to a deleted node is an error value.

  The representation relation \<open>list_rep\<close> says which list of nodes a list object holds; every operation
  is shown to act on that list, and \<open>IntrusiveList\<close> is an instance of the queue and the stack contract.
\<close>

section \<open>Nodes in the heap\<close>

type_synonym link_heap = "addr \<Rightarrow> addr option"

definition read_next :: "link_heap \<Rightarrow> addr \<Rightarrow> addr result" where
  "read_next h p = (if p = NULL then Inl Null_dereference
     else case h p of None \<Rightarrow> Inl Use_after_free | Some n \<Rightarrow> Inr n)"

definition write_next :: "link_heap \<Rightarrow> addr \<Rightarrow> addr \<Rightarrow> link_heap result" where
  "write_next h p n = (if p = NULL then Inl Null_dereference
     else case h p of None \<Rightarrow> Inl Use_after_free | Some _ \<Rightarrow> Inr (h(p \<mapsto> n)))"

definition LinkNode_new :: "link_heap \<Rightarrow> addr \<Rightarrow> link_heap" where
  \<comment> \<open>the constructor, for a node placed at \<open>p\<close>\<close>
  "LinkNode_new h p = h(p \<mapsto> 0)"

definition LinkNode_Unlink :: "link_heap \<Rightarrow> addr \<Rightarrow> link_heap result" where
  "LinkNode_Unlink h this = write_next h this 0"

definition LinkNode_dtor :: "link_heap \<Rightarrow> addr \<Rightarrow> link_heap result" where
  "LinkNode_dtor h this = LinkNode_Unlink h this"

definition MemberToObject :: "nat \<Rightarrow> addr \<Rightarrow> addr" where
  "MemberToObject off member = member - off"

definition delete_elem :: "nat \<Rightarrow> link_heap \<Rightarrow> addr \<Rightarrow> link_heap result" where
  \<comment> \<open>a delete expression: the destructor of the link member runs, then the object's storage is freed\<close>
  "delete_elem off h elem = bind_result (LinkNode_dtor h (elem + off)) (\<lambda>h'. Inr (h'(elem + off := None)))"

section \<open>The class IntrusiveList\<close>

record IntrusiveList =
  mHead :: addr
  mTail :: addr
  mCount :: u32

definition IntrusiveList_new :: IntrusiveList where
  "IntrusiveList_new = \<lparr>mHead = 0, mTail = 0, mCount = 0\<rparr>"

definition IntrusiveList_begin :: "IntrusiveList \<Rightarrow> addr" where
  "IntrusiveList_begin l = mHead l"

definition IntrusiveList_end :: "IntrusiveList \<Rightarrow> addr" where
  "IntrusiveList_end l = NULL"

definition IntrusiveList_iterator_incr :: "link_heap \<Rightarrow> addr \<Rightarrow> addr result" where
  "IntrusiveList_iterator_incr h mNode = (if mNode \<noteq> NULL then read_next h mNode else Inr mNode)"

definition IntrusiveList_iterator_postincr :: "link_heap \<Rightarrow> addr \<Rightarrow> (addr \<times> addr) result" where
  \<comment> \<open>the returned copy and the advanced iterator\<close>
  "IntrusiveList_iterator_postincr h mNode =
     bind_result (IntrusiveList_iterator_incr h mNode) (\<lambda>n. Inr (mNode, n))"

definition IntrusiveList_iterator_deref :: "nat \<Rightarrow> addr \<Rightarrow> addr" where
  "IntrusiveList_iterator_deref off mNode = MemberToObject off mNode"

definition IntrusiveList_iterator_eq :: "addr \<Rightarrow> addr \<Rightarrow> bool" where
  "IntrusiveList_iterator_eq mNode that = (mNode = that)"

definition IntrusiveList_iterator_neq :: "addr \<Rightarrow> addr \<Rightarrow> bool" where
  "IntrusiveList_iterator_neq mNode that = (\<not> IntrusiveList_iterator_eq mNode that)"

definition IntrusiveList_empty :: "IntrusiveList \<Rightarrow> bool" where
  "IntrusiveList_empty l \<longleftrightarrow> mCount l = 0"

definition IntrusiveList_size :: "IntrusiveList \<Rightarrow> u64" where
  "IntrusiveList_size l = scast (mCount l)"

definition IntrusiveList_max_size :: "IntrusiveList \<Rightarrow> u64" where
  "IntrusiveList_max_size l = 0x7FFFFFFF"

definition IntrusiveList_front :: "nat \<Rightarrow> IntrusiveList \<Rightarrow> addr result" where
  "IntrusiveList_front off l = (if mHead l = NULL then Inl Null_dereference else Inr (MemberToObject off (mHead l)))"

definition IntrusiveList_back :: "nat \<Rightarrow> IntrusiveList \<Rightarrow> addr result" where
  "IntrusiveList_back off l = (if mTail l = NULL then Inl Null_dereference else Inr (MemberToObject off (mTail l)))"

definition IntrusiveList_push_front ::
  "nat \<Rightarrow> link_heap \<Rightarrow> IntrusiveList \<Rightarrow> addr \<Rightarrow> (link_heap \<times> IntrusiveList) result" where
  "IntrusiveList_push_front off h l elem =
     (let node = elem + off in
      bind_result (write_next h node (mHead l)) (\<lambda>h'.
        let l1 = l\<lparr>mHead := node, mCount := mCount l + 1\<rparr>
        in Inr (h', if mCount l1 = 1 then l1\<lparr>mTail := node\<rparr> else l1)))"

definition IntrusiveList_pop_front ::
  "link_heap \<Rightarrow> IntrusiveList \<Rightarrow> (link_heap \<times> IntrusiveList) result" where
  "IntrusiveList_pop_front h l =
     bind_result (read_next h (mHead l)) (\<lambda>nxt.
     bind_result (LinkNode_Unlink h (mHead l)) (\<lambda>h'.
       let l1 = l\<lparr>mHead := nxt, mCount := mCount l - 1\<rparr>;
           l2 = (if mCount l1 = 0 then l1\<lparr>mTail := 0\<rparr> else l1)
       in assert_that (0 \<le> sint (mCount l2)) (h', l2)))"

definition IntrusiveList_push_back ::
  "nat \<Rightarrow> link_heap \<Rightarrow> IntrusiveList \<Rightarrow> addr \<Rightarrow> (link_heap \<times> IntrusiveList) result" where
  "IntrusiveList_push_back off h l elem =
     (let node = elem + off in
      bind_result (if mTail l \<noteq> NULL then write_next h (mTail l) node else Inr h) (\<lambda>h'.
        let l1 = l\<lparr>mTail := node, mCount := mCount l + 1\<rparr>
        in Inr (h', if mCount l1 = 1 then l1\<lparr>mHead := node\<rparr> else l1)))"

definition IntrusiveList_swap :: "IntrusiveList \<Rightarrow> IntrusiveList \<Rightarrow> IntrusiveList \<times> IntrusiveList" where
  "IntrusiveList_swap this that =
     (this\<lparr>mHead := mHead that, mTail := mTail that, mCount := mCount that\<rparr>,
      that\<lparr>mHead := mHead this, mTail := mTail this, mCount := mCount this\<rparr>)"

definition std_swap_IntrusiveList :: "IntrusiveList \<Rightarrow> IntrusiveList \<Rightarrow> IntrusiveList \<times> IntrusiveList" where
  "std_swap_IntrusiveList left right = IntrusiveList_swap left right"

lemma pop_front_mCount:
  "IntrusiveList_pop_front h l = Inr (h', l') \<Longrightarrow> mCount l' = mCount l - 1"
  by (auto simp: IntrusiveList_pop_front_def assert_that_def Let_def split: if_splits)

function IntrusiveList_clear ::
  "nat \<Rightarrow> link_heap \<Rightarrow> IntrusiveList \<Rightarrow> (link_heap \<times> IntrusiveList) result" where
  "IntrusiveList_clear off h l =
     (if IntrusiveList_empty l then Inr (h, l)
      else case IntrusiveList_front off l of
        Inl e \<Rightarrow> Inl e
      | Inr elem \<Rightarrow>
          (case IntrusiveList_pop_front h l of
            Inl e \<Rightarrow> Inl e
          | Inr (h1, l1) \<Rightarrow>
              (case delete_elem off h1 elem of
                Inl e \<Rightarrow> Inl e
              | Inr h2 \<Rightarrow> IntrusiveList_clear off h2 l1)))"
  by pat_completeness auto
termination
proof (relation "measure (\<lambda>(off, h, l). unat (mCount l))", goal_cases)
  case (2 off h l x2 x2a x y x2b)
  then have "mCount y = mCount l - 1" "mCount l \<noteq> 0"
    by (auto simp: IntrusiveList_empty_def dest: pop_front_mCount)
  then show ?case by (simp add: unat_gt_0 unat_minus_one)
qed simp

declare IntrusiveList_clear.simps [simp del]

definition IntrusiveList_dtor :: "nat \<Rightarrow> link_heap \<Rightarrow> IntrusiveList \<Rightarrow> (link_heap \<times> IntrusiveList) result" where
  "IntrusiveList_dtor off h l = IntrusiveList_clear off h l"


section \<open>The list that a list object holds\<close>

primrec path :: "link_heap \<Rightarrow> addr \<Rightarrow> addr list \<Rightarrow> bool" where
  "path h p [] \<longleftrightarrow> p = NULL"
| "path h p (x # xs) \<longleftrightarrow> p = x \<and> x \<noteq> NULL \<and> (\<exists>n. h x = Some n \<and> path h n xs)"

definition list_rep :: "link_heap \<Rightarrow> IntrusiveList \<Rightarrow> addr list \<Rightarrow> bool" where
  "list_rep h l xs \<longleftrightarrow> path h (mHead l) xs \<and> distinct xs \<and>
     mTail l = (if xs = [] then NULL else last xs) \<and>
     mCount l = of_nat (length xs) \<and> length xs < 2 ^ 31"

lemma path_cong: "(\<And>x. x \<in> set xs \<Longrightarrow> h' x = h x) \<Longrightarrow> path h' p xs = path h p xs"
  by (induction xs arbitrary: p) auto

lemma path_notin: "p \<notin> set xs \<Longrightarrow> path (h(p := v)) q xs = path h q xs"
  by (rule path_cong) auto

lemma path_live: "path h p xs \<Longrightarrow> x \<in> set xs \<Longrightarrow> x \<noteq> NULL \<and> (\<exists>n. h x = Some n)"
  by (induction xs arbitrary: p) auto

lemma path_null_next: "path h p xs \<Longrightarrow> x \<in> set xs \<Longrightarrow> h x = Some NULL \<Longrightarrow> x = last xs"
proof (induction xs arbitrary: p)
  case (Cons y ys)
  then show ?case by (cases ys) auto
qed simp

lemma path_snoc:
  assumes "path h p (xs @ [y])" and "distinct (xs @ [y])" and "z \<noteq> NULL" and "z \<notin> set (xs @ [y])"
    and "h z = Some NULL"
  shows "path (h(y \<mapsto> z)) p (xs @ [y, z])"
  using assms by (induction xs arbitrary: p) auto

lemma read_next_live [simp]: "p \<noteq> NULL \<Longrightarrow> h p = Some n \<Longrightarrow> read_next h p = Inr n"
  by (simp add: read_next_def)

lemma write_next_live [simp]: "p \<noteq> NULL \<Longrightarrow> h p = Some n \<Longrightarrow> write_next h p m = Inr (h(p \<mapsto> m))"
  by (simp add: write_next_def)

lemma count_eq_one [simp]:
  "n < 2 ^ 31 \<Longrightarrow> (of_nat n + 1 :: u32) = 1 \<longleftrightarrow> n = 0"
  using of_nat_eq_0_small [where 'a = 32, of n] by simp

lemma count_eq_zero [simp]:
  "n < 2 ^ 31 \<Longrightarrow> (of_nat n :: u32) = 0 \<longleftrightarrow> n = 0"
  using of_nat_eq_0_small [where 'a = 32, of n] by simp

lemma count_nonneg [simp]: "n < 2 ^ 31 \<Longrightarrow> 0 \<le> sint (of_nat n :: u32)"
  using sint_of_nat_small [where 'a = 32, of n] by simp

section \<open>What the operations do to that list\<close>

lemma list_rep_new: "list_rep h IntrusiveList_new []"
  by (simp add: list_rep_def IntrusiveList_new_def)

lemma push_front_rep:
  assumes "list_rep h l xs" and "elem + off \<noteq> NULL" and "h (elem + off) = Some n"
    and "elem + off \<notin> set xs" and "length xs + 1 < 2 ^ 31"
  shows "\<exists>l'. IntrusiveList_push_front off h l elem = Inr (h(elem + off \<mapsto> mHead l), l') \<and>
    list_rep (h(elem + off \<mapsto> mHead l)) l' ((elem + off) # xs) \<and>
    mTail l' = (if xs = [] then elem + off else mTail l)"
  using assms by (auto simp: IntrusiveList_push_front_def list_rep_def Let_def path_notin)

lemma push_back_rep:
  assumes "list_rep h l xs" and "elem + off \<noteq> NULL" and "h (elem + off) = Some NULL"
    and "elem + off \<notin> set xs" and "length xs + 1 < 2 ^ 31"
  shows "\<exists>h' l'. IntrusiveList_push_back off h l elem = Inr (h', l') \<and>
    list_rep h' l' (xs @ [elem + off]) \<and> mTail l' = elem + off \<and> (\<forall>p. p \<noteq> mTail l \<longrightarrow> h' p = h p)"
proof (cases xs rule: rev_cases)
  case Nil
  then show ?thesis using assms by (auto simp: IntrusiveList_push_back_def list_rep_def Let_def)
next
  case (snoc ys y)
  then have y: "mTail l = y" "path h (mHead l) (ys @ [y])" "distinct (ys @ [y])"
    using assms(1) by (auto simp: list_rep_def)
  then obtain n where n: "h y = Some n" "y \<noteq> NULL" using path_live [OF y(2), of y] by auto
  have "path (h(y \<mapsto> elem + off)) (mHead l) (ys @ [y, elem + off])"
    using path_snoc [OF y(2,3) assms(2) _ assms(3)] assms(4) snoc by auto
  moreover have "mCount l + 1 = of_nat (length (xs @ [elem + off]))" "mCount l \<noteq> 0"
    using assms(1) snoc by (simp_all add: list_rep_def del: of_nat_Suc length_append) simp
  ultimately show ?thesis
    using assms(1,4,5) snoc y(1) n by (auto simp: IntrusiveList_push_back_def list_rep_def Let_def)
qed

lemma pop_front_rep:
  assumes "list_rep h l (x # xs)"
  shows "\<exists>l'. IntrusiveList_pop_front h l = Inr (h(x \<mapsto> NULL), l') \<and> list_rep (h(x \<mapsto> NULL)) l' xs \<and>
    mTail l' = (if xs = [] then NULL else mTail l)"
proof -
  obtain n where "h x = Some n" "x \<noteq> NULL" "mHead l = x" "path h n xs" "x \<notin> set xs"
    using assms by (auto simp: list_rep_def)
  then show ?thesis
    using assms by (auto simp: IntrusiveList_pop_front_def LinkNode_Unlink_def list_rep_def Let_def path_notin)
qed

lemma clear_rep:
  assumes "list_rep h l xs" and "\<forall>x \<in> set xs. off \<le> x"
  shows "\<exists>l'. IntrusiveList_clear off h l = Inr (h |` (- set xs), l') \<and>
    list_rep (h |` (- set xs)) l' []"
  using assms
proof (induction xs arbitrary: h l)
  case Nil
  then show ?case
    by (simp add: IntrusiveList_clear.simps IntrusiveList_empty_def list_rep_def)
next
  case (Cons x xs)
  obtain l1 where l1: "IntrusiveList_pop_front h l = Inr (h(x \<mapsto> NULL), l1)"
      "list_rep (h(x \<mapsto> NULL)) l1 xs"
    using pop_front_rep [OF Cons.prems(1)] by blast
  have x: "x \<noteq> NULL" "x \<notin> set xs" "mHead l = x" "off \<le> x" "\<not> IntrusiveList_empty l"
    using Cons.prems by (auto simp: list_rep_def IntrusiveList_empty_def simp del: of_nat_Suc)
  then have d: "delete_elem off (h(x \<mapsto> NULL)) (MemberToObject off x) = Inr (h(x := None))"
    by (simp add: delete_elem_def MemberToObject_def LinkNode_dtor_def LinkNode_Unlink_def)
  have "list_rep (h(x := None)) l1 xs"
    using l1(2) x(2) by (simp add: list_rep_def path_notin)
  moreover have "(h(x := None)) |` (- set xs) = h |` (- set (x # xs))"
    by (rule ext) (simp add: restrict_map_def)
  ultimately show ?case
    using Cons.IH [of "h(x := None)" l1] Cons.prems(2) x l1(1) d
    by (subst IntrusiveList_clear.simps) (simp add: IntrusiveList_front_def del: fun_upd_apply)
qed


section \<open>IntrusiveList as a queue and as a stack\<close>

definition ilist_rep :: "nat \<Rightarrow> link_heap \<times> IntrusiveList \<Rightarrow> addr list \<Rightarrow> bool" where
  "ilist_rep off s es \<longleftrightarrow> list_rep (fst s) (snd s) (map (\<lambda>e. e + off) es)"

definition ilist_unlinked :: "nat \<Rightarrow> link_heap \<times> IntrusiveList \<Rightarrow> addr \<Rightarrow> bool" where
  \<comment> \<open>a live node that is in no list: its next pointer is null and it is not the tail\<close>
  "ilist_unlinked off s e \<longleftrightarrow> e + off \<noteq> NULL \<and> fst s (e + off) = Some NULL \<and> mTail (snd s) \<noteq> e + off"

definition ilist_pop :: "nat \<Rightarrow> link_heap \<times> IntrusiveList \<Rightarrow> (addr \<times> (link_heap \<times> IntrusiveList)) result" where
  "ilist_pop off s = bind_result (IntrusiveList_front off (snd s)) (\<lambda>e.
     bind_result (IntrusiveList_pop_front (fst s) (snd s)) (\<lambda>s'. Inr (e, s')))"

definition count_ok :: "nat \<Rightarrow> bool" where
  "count_ok n \<longleftrightarrow> n < 2 ^ 31"

lemma unlinked_notin:
  assumes "ilist_rep off s es" and "ilist_unlinked off s e"
  shows "e + off \<notin> set (map (\<lambda>e. e + off) es)"
proof
  assume "e + off \<in> set (map (\<lambda>e. e + off) es)"
  then have "e + off = last (map (\<lambda>e. e + off) es)" "es \<noteq> []"
    using path_null_next assms unfolding ilist_rep_def ilist_unlinked_def list_rep_def by auto
  then show False using assms by (auto simp: ilist_rep_def ilist_unlinked_def list_rep_def)
qed

lemma ilist_pop_first:
  assumes "ilist_rep off s (e # es)"
  shows "\<exists>s'. ilist_pop off s = Inr (e, s') \<and> ilist_rep off s' es"
proof -
  obtain l' where "IntrusiveList_pop_front (fst s) (snd s) = Inr ((fst s)(e + off \<mapsto> NULL), l')"
      "list_rep ((fst s)(e + off \<mapsto> NULL)) l' (map (\<lambda>e. e + off) es)"
    using pop_front_rep [of "fst s" "snd s" "e + off" "map (\<lambda>e. e + off) es"] assms
    by (auto simp: ilist_rep_def)
  moreover have "IntrusiveList_front off (snd s) = Inr e"
    using assms by (auto simp: ilist_rep_def list_rep_def IntrusiveList_front_def MemberToObject_def)
  ultimately show ?thesis by (simp add: ilist_pop_def ilist_rep_def)
qed

lemma ilist_push_back:
  assumes "ilist_rep off s es" and "ilist_unlinked off s e" and "count_ok (length es + 1)"
  shows "\<exists>s'. IntrusiveList_push_back off (fst s) (snd s) e = Inr s' \<and> ilist_rep off s' (es @ [e]) \<and>
    (\<forall>y. ilist_unlinked off s y \<and> \<not> e = y \<longrightarrow> ilist_unlinked off s' y)"
  using push_back_rep [of "fst s" "snd s" "map (\<lambda>e. e + off) es" e off] unlinked_notin [OF assms(1,2)] assms
  by (auto simp: ilist_rep_def ilist_unlinked_def count_ok_def)

lemma ilist_push_front:
  assumes "ilist_rep off s es" and "ilist_unlinked off s e" and "count_ok (length es + 1)"
  shows "\<exists>s'. IntrusiveList_push_front off (fst s) (snd s) e = Inr s' \<and> ilist_rep off s' (e # es) \<and>
    (\<forall>y. ilist_unlinked off s y \<and> \<not> e = y \<longrightarrow> ilist_unlinked off s' y)"
  using push_front_rep [of "fst s" "snd s" "map (\<lambda>e. e + off) es" e off NULL] unlinked_notin [OF assms(1,2)] assms
  by (fastforce simp: ilist_rep_def ilist_unlinked_def count_ok_def)

interpretation ilist_queue: fifo_container
    "ilist_rep off" "ilist_unlinked off" "(=)" count_ok "ilist_pop off"
    "\<lambda>e s. IntrusiveList_push_back off (fst s) (snd s) e"
  for off
  by unfold_locales (rule ilist_pop_first, assumption, simp add: count_ok_def, rule ilist_push_back)

interpretation ilist_stack: lifo_container
    "ilist_rep off" "ilist_unlinked off" "(=)" count_ok "ilist_pop off"
    "\<lambda>e s. IntrusiveList_push_front off (fst s) (snd s) e"
  for off
  by unfold_locales (rule ilist_push_front)

section \<open>Properties of IntrusiveList\<close>

primrec IntrusiveList_walk :: "link_heap \<Rightarrow> nat \<Rightarrow> addr \<Rightarrow> (addr list \<times> addr) result" where
  \<comment> \<open>the nodes an iterator stands on while it is advanced \<open>n\<close> times, and where it ends\<close>
  "IntrusiveList_walk h 0 it = Inr ([], it)"
| "IntrusiveList_walk h (Suc n) it = bind_result (IntrusiveList_iterator_incr h it) (\<lambda>it'.
     bind_result (IntrusiveList_walk h n it') (\<lambda>(its, e). Inr (it # its, e)))"

lemma walk_path: "path h p xs \<Longrightarrow> IntrusiveList_walk h (length xs) p = Inr (xs, NULL)"
  by (induction xs arbitrary: p) (auto simp: IntrusiveList_iterator_incr_def)

text \<open>
  C33. An \<open>IntrusiveList\<close> that starts empty is a queue and a stack: any elements that are in no list, pushed
  at the back (fewer than \<open>2^31\<close> of them) and popped from the front, come out in the order in which they
  went in, and pushed at the front they come out in the reverse order; no operation fails and the list is
  empty again.
\<close>

theorem intrusive_list_queue_and_stack:
  assumes "\<forall>e \<in> set es. e + off \<noteq> NULL \<and> h (e + off) = Some NULL" and "distinct es" and "length es < 2 ^ 31"
  shows "(\<exists>s s'. push_all (\<lambda>e s. IntrusiveList_push_back off (fst s) (snd s) e) es (h, IntrusiveList_new) = Inr s \<and>
      pop_n (ilist_pop off) (length es) s = Inr (es, s') \<and> ilist_rep off s' []) \<and>
    (\<exists>s s'. push_all (\<lambda>e s. IntrusiveList_push_front off (fst s) (snd s) e) es (h, IntrusiveList_new) = Inr s \<and>
      pop_n (ilist_pop off) (length es) s = Inr (rev es, s') \<and> ilist_rep off s' [])"
proof -
  have "ilist_rep off (h, IntrusiveList_new) []" "\<forall>e \<in> set es. ilist_unlinked off (h, IntrusiveList_new) e"
    using assms(1) list_rep_new [of h] by (auto simp: ilist_rep_def ilist_unlinked_def IntrusiveList_new_def)
  then show ?thesis
    using ilist_queue.fifo_order [of off _ es] ilist_stack.lifo_order [of off _ es] assms(2,3)
    by (simp add: count_ok_def sorted_wrt_neq_distinct)
qed

theorem intrusive_list_queue_and_stack_witness:
  "\<exists>s s'. push_all (\<lambda>e s. IntrusiveList_push_back 8 (fst s) (snd s) e) [16, 32, 64]
       ([24 \<mapsto> 0, 40 \<mapsto> 0, 72 \<mapsto> 0], IntrusiveList_new) = Inr s \<and>
     pop_n (ilist_pop 8) (length [16, 32, 64 :: nat]) s = Inr ([16, 32, 64], s')"
proof -
  have "\<forall>e \<in> set [16, 32, 64]. e + 8 \<noteq> NULL \<and> [24 \<mapsto> NULL, 40 \<mapsto> NULL, 72 \<mapsto> NULL] (e + 8) = Some NULL"
    "distinct [16, 32, 64 :: nat]" "length [16, 32, 64 :: nat] < 2 ^ 31"
    by simp_all
  from intrusive_list_queue_and_stack [OF this] show ?thesis by blast
qed

text \<open>
  On a list object that holds the nodes \<open>xs\<close>, the accessors read the first and the last element, the size
  and emptiness; an iterator started at \<open>begin()\<close> stands on the nodes of \<open>xs\<close> one after the other and then
  equals \<open>end()\<close>; \<open>pop_front\<close> removes the first node and unlinks it; and \<open>clear\<close> and the destructor delete
  exactly the elements of the list and leave every other node of the heap as it was.
\<close>

theorem intrusive_list_observers_and_clear:
  assumes "list_rep h l xs" and "xs \<noteq> []" and "\<forall>x \<in> set xs. off \<le> x"
  shows "IntrusiveList_front off l = Inr (hd xs - off) \<and> IntrusiveList_back off l = Inr (last xs - off) \<and>
    IntrusiveList_size l = of_nat (length xs) \<and> \<not> IntrusiveList_empty l \<and>
    IntrusiveList_walk h (length xs) (IntrusiveList_begin l) = Inr (xs, IntrusiveList_end l) \<and>
    (\<exists>l'. IntrusiveList_pop_front h l = Inr (h(hd xs \<mapsto> NULL), l') \<and> list_rep (h(hd xs \<mapsto> NULL)) l' (tl xs)) \<and>
    (\<exists>l'. IntrusiveList_dtor off h l = Inr (h |` (- set xs), l') \<and> list_rep (h |` (- set xs)) l' [])"
proof -
  have sz: "scast (of_nat n :: u32) = (of_nat n :: u64)" if "n < 2 ^ 31" for n
    using sint_of_nat_small [where 'a = 32, of n] that by (simp add: scast_eq)
  have "path h (mHead l) xs" "mHead l = hd xs" "mTail l = last xs" "mCount l = of_nat (length xs)" "length xs < 2 ^ 31"
      "hd xs \<noteq> NULL" "last xs \<noteq> NULL"
    using assms(1,2) path_live [of h "mHead l" xs "last xs"] by (cases xs; auto simp: list_rep_def)+
  moreover have "\<exists>l'. IntrusiveList_pop_front h l = Inr (h(hd xs \<mapsto> NULL), l') \<and> list_rep (h(hd xs \<mapsto> NULL)) l' (tl xs)"
    using pop_front_rep [of h l "hd xs" "tl xs"] assms(1,2) by auto
  ultimately show ?thesis
    using assms(2) clear_rep [OF assms(1,3)]
    by (simp add: IntrusiveList_front_def IntrusiveList_back_def MemberToObject_def IntrusiveList_size_def sz
        IntrusiveList_empty_def IntrusiveList_begin_def IntrusiveList_end_def walk_path IntrusiveList_dtor_def)
qed

theorem intrusive_list_observers_and_clear_witness:
  "IntrusiveList_back 8 \<lparr>mHead = 24, mTail = 40, mCount = 2\<rparr> = Inr 32 \<and>
   (\<exists>l'. IntrusiveList_dtor 8 [24 \<mapsto> 40, 40 \<mapsto> 0, 72 \<mapsto> 0] \<lparr>mHead = 24, mTail = 40, mCount = 2\<rparr> = Inr ([72 \<mapsto> 0], l'))"
proof -
  have "[24 \<mapsto> 40, 40 \<mapsto> 0, 72 \<mapsto> 0] |` (- set [24, 40]) = ([72 \<mapsto> 0] :: link_heap)"
    by (rule ext) (simp add: restrict_map_def)
  moreover have "list_rep [24 \<mapsto> 40, 40 \<mapsto> 0, 72 \<mapsto> 0] \<lparr>mHead = 24, mTail = 40, mCount = 2\<rparr> [24, 40]"
    by (simp add: list_rep_def)
  ultimately show ?thesis
    using intrusive_list_observers_and_clear
      [of "[24 \<mapsto> 40, 40 \<mapsto> 0, 72 \<mapsto> 0]" "\<lparr>mHead = 24, mTail = 40, mCount = 2\<rparr>" "[24, 40]" 8]
    by (auto simp del: fun_upd_apply)
qed

end
