(* ===== verification/Stone_Intrusive_DList.thy ===== *)
theory Stone_Intrusive_DList
  imports Stone_Containers
begin

text \<open>
  \<^verbatim>\<open>containers/intrusive_list.h\<close>, the doubly linked half: \<open>DLinkNode\<close> and \<open>IntrusiveDList\<close>. The heap maps
  the address of every live node to its \<open>prev\<close> and \<open>next\<close> pointers; a list is a ring through its root
  node. As in the singly linked half an element is the address of an object and \<open>off\<close> the offset of its
  link member. Every assignment of the source is one write of the model, in the order of the source, so
  that the aliasing of the neighbours (an empty or a one-element ring) is what the heap makes of it.
\<close>

section \<open>Nodes in the heap\<close>

record DLinkNode =
  prev :: addr
  nxt :: addr

type_synonym dlink_heap = "addr \<Rightarrow> DLinkNode option"

definition read_node :: "dlink_heap \<Rightarrow> addr \<Rightarrow> DLinkNode result" where
  "read_node h p = (if p = NULL then Inl Null_dereference
     else case h p of None \<Rightarrow> Inl Use_after_free | Some n \<Rightarrow> Inr n)"

definition set_prev :: "dlink_heap \<Rightarrow> addr \<Rightarrow> addr \<Rightarrow> dlink_heap result" where
  "set_prev h p v = bind_result (read_node h p) (\<lambda>n. Inr (h(p \<mapsto> n\<lparr>prev := v\<rparr>)))"

definition set_next :: "dlink_heap \<Rightarrow> addr \<Rightarrow> addr \<Rightarrow> dlink_heap result" where
  "set_next h p v = bind_result (read_node h p) (\<lambda>n. Inr (h(p \<mapsto> n\<lparr>nxt := v\<rparr>)))"

definition DLinkNode_new :: "dlink_heap \<Rightarrow> addr \<Rightarrow> dlink_heap" where
  "DLinkNode_new h p = h(p \<mapsto> \<lparr>prev = p, nxt = p\<rparr>)"

definition DLinkNode_Unlink :: "dlink_heap \<Rightarrow> addr \<Rightarrow> dlink_heap result" where
  "DLinkNode_Unlink h this =
     bind_result (read_node h this) (\<lambda>n.
     bind_result (set_prev h (nxt n) (prev n)) (\<lambda>h1.
     bind_result (read_node h1 this) (\<lambda>n1.
     bind_result (set_next h1 (prev n1) (nxt n1)) (\<lambda>h2.
     bind_result (set_next h2 this this) (\<lambda>h3.
     set_prev h3 this this)))))"

definition DLinkNode_dtor :: "dlink_heap \<Rightarrow> addr \<Rightarrow> dlink_heap result" where
  "DLinkNode_dtor h this = DLinkNode_Unlink h this"

definition delete_node :: "dlink_heap \<Rightarrow> addr \<Rightarrow> dlink_heap result" where
  \<comment> \<open>a delete expression on the node or on the object around it: the node's destructor, then its storage is freed\<close>
  "delete_node h p = bind_result (DLinkNode_dtor h p) (\<lambda>h'. Inr (h'(p := None)))"

section \<open>The class IntrusiveDList\<close>

record IntrusiveDList =
  mRoot :: addr
  mCount :: u32

definition IntrusiveDList_new :: "dlink_heap \<Rightarrow> addr \<Rightarrow> dlink_heap \<times> IntrusiveDList" where
  \<comment> \<open>\<open>root\<close> is the address that \<open>new DLinkNode\<close> returns\<close>
  "IntrusiveDList_new h root = (DLinkNode_new h root, \<lparr>mRoot = root, mCount = 0\<rparr>)"

definition IntrusiveDList_begin :: "dlink_heap \<Rightarrow> IntrusiveDList \<Rightarrow> addr result" where
  "IntrusiveDList_begin h l = bind_result (read_node h (mRoot l)) (\<lambda>n. Inr (nxt n))"

definition IntrusiveDList_end :: "IntrusiveDList \<Rightarrow> addr" where
  "IntrusiveDList_end l = mRoot l"

definition IntrusiveDList_iterator_incr :: "dlink_heap \<Rightarrow> addr \<Rightarrow> addr result" where
  "IntrusiveDList_iterator_incr h mNode =
     (if mNode \<noteq> NULL then bind_result (read_node h mNode) (\<lambda>n. Inr (nxt n)) else Inr mNode)"

definition IntrusiveDList_iterator_decr :: "dlink_heap \<Rightarrow> addr \<Rightarrow> addr result" where
  "IntrusiveDList_iterator_decr h mNode =
     (if mNode \<noteq> NULL then bind_result (read_node h mNode) (\<lambda>n. Inr (prev n)) else Inr mNode)"

definition IntrusiveDList_iterator_postincr :: "dlink_heap \<Rightarrow> addr \<Rightarrow> (addr \<times> addr) result" where
  "IntrusiveDList_iterator_postincr h mNode =
     bind_result (IntrusiveDList_iterator_incr h mNode) (\<lambda>n. Inr (mNode, n))"

definition IntrusiveDList_iterator_postdecr :: "dlink_heap \<Rightarrow> addr \<Rightarrow> (addr \<times> addr) result" where
  "IntrusiveDList_iterator_postdecr h mNode =
     bind_result (IntrusiveDList_iterator_decr h mNode) (\<lambda>n. Inr (mNode, n))"

definition IntrusiveDList_iterator_eq :: "addr \<Rightarrow> addr \<Rightarrow> bool" where
  "IntrusiveDList_iterator_eq a b \<longleftrightarrow> a = b"

definition IntrusiveDList_iterator_neq :: "addr \<Rightarrow> addr \<Rightarrow> bool" where
  "IntrusiveDList_iterator_neq a b \<longleftrightarrow> \<not> IntrusiveDList_iterator_eq a b"

definition IntrusiveDList_iterator_deref :: "nat \<Rightarrow> addr \<Rightarrow> addr" where
  "IntrusiveDList_iterator_deref off node = node - off"

definition IntrusiveDList_rbegin :: "IntrusiveDList \<Rightarrow> addr" where
  \<comment> \<open>a reverse iterator is its base; it dereferences the iterator before the base\<close>
  "IntrusiveDList_rbegin l = IntrusiveDList_end l"

definition IntrusiveDList_rend :: "dlink_heap \<Rightarrow> IntrusiveDList \<Rightarrow> addr result" where
  "IntrusiveDList_rend h l = IntrusiveDList_begin h l"

definition IntrusiveDList_empty :: "IntrusiveDList \<Rightarrow> bool" where
  "IntrusiveDList_empty l \<longleftrightarrow> mCount l = 0"

definition IntrusiveDList_size :: "IntrusiveDList \<Rightarrow> u64" where
  "IntrusiveDList_size l = scast (mCount l)"

definition IntrusiveDList_max_size :: "IntrusiveDList \<Rightarrow> u64" where
  "IntrusiveDList_max_size l = 0x7FFFFFFF"

definition IntrusiveDList_front :: "nat \<Rightarrow> dlink_heap \<Rightarrow> IntrusiveDList \<Rightarrow> addr result" where
  "IntrusiveDList_front off h l = bind_result (read_node h (mRoot l)) (\<lambda>n. Inr (nxt n - off))"

definition IntrusiveDList_back :: "nat \<Rightarrow> dlink_heap \<Rightarrow> IntrusiveDList \<Rightarrow> addr result" where
  "IntrusiveDList_back off h l = bind_result (read_node h (mRoot l)) (\<lambda>n. Inr (prev n - off))"

definition IntrusiveDList_insert ::
  "nat \<Rightarrow> dlink_heap \<Rightarrow> IntrusiveDList \<Rightarrow> addr \<Rightarrow> addr \<Rightarrow> (addr \<times> dlink_heap \<times> IntrusiveDList) result" where
  "IntrusiveDList_insert off h l cur elem =
     (let node = elem + off in
      bind_result (read_node h cur) (\<lambda>c.
      bind_result (set_prev h node (prev c)) (\<lambda>h1.
      bind_result (set_next h1 node cur) (\<lambda>h2.
      bind_result (read_node h2 cur) (\<lambda>c2.
      bind_result (set_next h2 (prev c2) node) (\<lambda>h3.
      bind_result (set_prev h3 cur node) (\<lambda>h4.
        Inr (node, h4, l\<lparr>mCount := mCount l + 1\<rparr>))))))))"

definition IntrusiveDList_erase ::
  "bool \<Rightarrow> dlink_heap \<Rightarrow> IntrusiveDList \<Rightarrow> addr \<Rightarrow> (addr \<times> dlink_heap \<times> IntrusiveDList) result" where
  "IntrusiveDList_erase auto_delete h l it =
     (if it = IntrusiveDList_end l then Inr (it, h, l)
      else bind_result (read_node h it) (\<lambda>n.
        let next_node = nxt n in
        bind_result (DLinkNode_Unlink h it) (\<lambda>h1.
        bind_result (if auto_delete then delete_node h1 it else Inr h1) (\<lambda>h2.
          let l' = l\<lparr>mCount := mCount l - 1\<rparr>
          in assert_that (0 \<le> sint (mCount l')) (next_node, h2, l')))))"

definition IntrusiveDList_push_front ::
  "nat \<Rightarrow> dlink_heap \<Rightarrow> IntrusiveDList \<Rightarrow> addr \<Rightarrow> (dlink_heap \<times> IntrusiveDList) result" where
  "IntrusiveDList_push_front off h l elem =
     bind_result (IntrusiveDList_begin h l) (\<lambda>it.
     bind_result (IntrusiveDList_insert off h l it elem) (\<lambda>(_, h', l'). Inr (h', l')))"

definition IntrusiveDList_push_back ::
  "nat \<Rightarrow> dlink_heap \<Rightarrow> IntrusiveDList \<Rightarrow> addr \<Rightarrow> (dlink_heap \<times> IntrusiveDList) result" where
  "IntrusiveDList_push_back off h l elem =
     bind_result (IntrusiveDList_insert off h l (IntrusiveDList_end l) elem) (\<lambda>(_, h', l'). Inr (h', l'))"

definition IntrusiveDList_unlink_node ::
  "dlink_heap \<Rightarrow> IntrusiveDList \<Rightarrow> addr \<Rightarrow> (dlink_heap \<times> IntrusiveDList) result" where
  \<comment> \<open>the lines that \<open>pop_front\<close>, \<open>pop_back\<close> and \<open>unlink\<close> share\<close>
  "IntrusiveDList_unlink_node h l node =
     bind_result (DLinkNode_Unlink h node) (\<lambda>h'.
       let l' = l\<lparr>mCount := mCount l - 1\<rparr> in assert_that (0 \<le> sint (mCount l')) (h', l'))"

definition IntrusiveDList_pop_front :: "dlink_heap \<Rightarrow> IntrusiveDList \<Rightarrow> (dlink_heap \<times> IntrusiveDList) result" where
  "IntrusiveDList_pop_front h l =
     bind_result (read_node h (mRoot l)) (\<lambda>n. IntrusiveDList_unlink_node h l (nxt n))"

definition IntrusiveDList_pop_back :: "dlink_heap \<Rightarrow> IntrusiveDList \<Rightarrow> (dlink_heap \<times> IntrusiveDList) result" where
  "IntrusiveDList_pop_back h l =
     bind_result (read_node h (mRoot l)) (\<lambda>n. IntrusiveDList_unlink_node h l (prev n))"

definition IntrusiveDList_unlink ::
  "nat \<Rightarrow> dlink_heap \<Rightarrow> IntrusiveDList \<Rightarrow> addr \<Rightarrow> (dlink_heap \<times> IntrusiveDList) result" where
  "IntrusiveDList_unlink off h l elem = IntrusiveDList_unlink_node h l (elem + off)"

definition IntrusiveDList_swap :: "IntrusiveDList \<Rightarrow> IntrusiveDList \<Rightarrow> IntrusiveDList \<times> IntrusiveDList" where
  "IntrusiveDList_swap this that =
     (this\<lparr>mRoot := mRoot that, mCount := mCount that\<rparr>, that\<lparr>mRoot := mRoot this, mCount := mCount this\<rparr>)"

definition std_swap_IntrusiveDList :: "IntrusiveDList \<Rightarrow> IntrusiveDList \<Rightarrow> IntrusiveDList \<times> IntrusiveDList" where
  "std_swap_IntrusiveDList left right = IntrusiveDList_swap left right"

text \<open>
  The loop of \<open>clear\<close> ends when the iterator comes back to the root, which a broken ring need not do:
  \<open>None\<close> is a loop that does not end.
\<close>

partial_function (option) IntrusiveDList_clear_loop ::
  "bool \<Rightarrow> dlink_heap \<Rightarrow> IntrusiveDList \<Rightarrow> addr \<Rightarrow> (dlink_heap \<times> IntrusiveDList) result option" where
  "IntrusiveDList_clear_loop auto_delete h l it =
     (if it = IntrusiveDList_end l then Some (Inr (h, l))
      else case IntrusiveDList_erase auto_delete h l it of
        Inl e \<Rightarrow> Some (Inl e)
      | Inr (it', h', l') \<Rightarrow> IntrusiveDList_clear_loop auto_delete h' l' it')"

definition IntrusiveDList_clear ::
  "bool \<Rightarrow> dlink_heap \<Rightarrow> IntrusiveDList \<Rightarrow> (dlink_heap \<times> IntrusiveDList) result option" where
  "IntrusiveDList_clear auto_delete h l =
     (case IntrusiveDList_begin h l of
       Inl e \<Rightarrow> Some (Inl e)
     | Inr it \<Rightarrow> IntrusiveDList_clear_loop auto_delete h l it)"

definition IntrusiveDList_dtor :: "bool \<Rightarrow> dlink_heap \<Rightarrow> IntrusiveDList \<Rightarrow> dlink_heap result option" where
  "IntrusiveDList_dtor auto_delete h l =
     map_option (\<lambda>r. bind_result r (\<lambda>(h', l'). delete_node h' (mRoot l'))) (IntrusiveDList_clear auto_delete h l)"


section \<open>Rings of nodes\<close>

definition nx :: "dlink_heap \<Rightarrow> addr \<Rightarrow> addr option" where
  "nx h p = map_option nxt (h p)"

definition pv :: "dlink_heap \<Rightarrow> addr \<Rightarrow> addr option" where
  "pv h p = map_option prev (h p)"

definition link :: "dlink_heap \<Rightarrow> addr \<Rightarrow> addr \<Rightarrow> bool" where
  "link h p q \<longleftrightarrow> nx h p = Some q \<and> pv h q = Some p"

primrec dseg :: "dlink_heap \<Rightarrow> addr \<Rightarrow> addr list \<Rightarrow> addr \<Rightarrow> bool" where
  "dseg h p [] q \<longleftrightarrow> link h p q"
| "dseg h p (x # xs) q \<longleftrightarrow> link h p x \<and> dseg h x xs q"

definition dlist_rep :: "dlink_heap \<Rightarrow> IntrusiveDList \<Rightarrow> addr list \<Rightarrow> bool" where
  "dlist_rep h l xs \<longleftrightarrow> dseg h (mRoot l) xs (mRoot l) \<and> distinct (mRoot l # xs) \<and>
     NULL \<notin> set (mRoot l # xs) \<and> mCount l = of_nat (length xs) \<and> length xs < 2 ^ 31"

lemma dseg_append: "dseg h p (as @ x # bs) q \<longleftrightarrow> dseg h p as x \<and> dseg h x bs q"
  by (induction as arbitrary: p) auto

lemma dseg_frame:
  "dseg h p xs q \<Longrightarrow> (\<And>y. y \<in> set (p # xs) \<Longrightarrow> nx h' y = nx h y) \<Longrightarrow>
   (\<And>y. y \<in> set (xs @ [q]) \<Longrightarrow> pv h' y = pv h y) \<Longrightarrow> dseg h' p xs q"
  by (induction xs arbitrary: p) (auto simp: link_def)

lemma link_live: "link h p q \<Longrightarrow> (\<exists>n. h p = Some n \<and> nxt n = q) \<and> (\<exists>n. h q = Some n \<and> prev n = p)"
  by (auto simp: link_def nx_def pv_def)

lemma dseg_live: "dseg h p xs q \<Longrightarrow> y \<in> set (p # xs @ [q]) \<Longrightarrow> \<exists>n. h y = Some n"
  by (induction xs arbitrary: p) (auto dest: link_live)

lemma dseg_middle:
  "dseg h p (as @ bs) q \<Longrightarrow> link h (last (p # as)) (hd (bs @ [q]))"
  by (induction as arbitrary: p) (cases bs; auto)+

lemma read_node_live [simp]: "p \<noteq> NULL \<Longrightarrow> h p = Some n \<Longrightarrow> read_node h p = Inr n"
  by (simp add: read_node_def)

lemma set_live [simp]:
  "p \<noteq> NULL \<Longrightarrow> h p = Some n \<Longrightarrow> set_prev h p v = Inr (h(p \<mapsto> n\<lparr>prev := v\<rparr>))"
  "p \<noteq> NULL \<Longrightarrow> h p = Some n \<Longrightarrow> set_next h p v = Inr (h(p \<mapsto> n\<lparr>nxt := v\<rparr>))"
  by (simp_all add: set_prev_def set_next_def)

lemma neighbours:
  obtains a c where "a \<in> set (p # as)" and "c \<in> set (q # bs)" and "last (p # as) = a" and "hd (bs @ [q]) = c"
proof (rule that)
  show "last (p # as) \<in> set (p # as)" by (rule last_in_set) simp
  show "hd (bs @ [q]) \<in> set (q # bs)" by (cases bs) auto
qed (rule refl)+

lemma dseg_insert:
  assumes "dseg h p (as @ bs) q" and "distinct (p # as @ bs)" and "q \<notin> set (as @ bs)"
    and "n \<notin> set (p # as @ bs @ [q])"
    and nx': "nx h' = (nx h)(n \<mapsto> hd (bs @ [q]), last (p # as) \<mapsto> n)"
    and pv': "pv h' = (pv h)(n \<mapsto> last (p # as), hd (bs @ [q]) \<mapsto> n)"
  shows "dseg h' p (as @ n # bs) q"
proof -
  obtain a where a: "a \<in> set (p # as)" and "last (p # as) = a" by (rule neighbours)
  with nx' have nx'': "nx h' = (nx h)(n \<mapsto> hd (bs @ [q]), a \<mapsto> n)" by simp
  have "link h' n (hd (bs @ [q]))" "link h' (last (p # as)) n"
    using assms(2-4) by (auto simp: link_def nx' pv' hd_append split: if_splits)
  moreover have "dseg h' p as' (last (p # as))" if "as = as' @ [a]" for as' a
    by (rule dseg_frame [of h]) (use assms(1-4) that in \<open>auto simp: nx' pv' dseg_append hd_append split: if_splits\<close>)
  moreover have "dseg h' (hd (bs @ [q])) bs' q" if "bs = b # bs'" for b bs'
    by (rule dseg_frame [of h]) (use assms(1-4) that a in \<open>auto simp: nx'' pv' dseg_append\<close>)
  ultimately show ?thesis
    by (cases as rule: rev_cases; cases bs) (simp_all add: dseg_append)
qed

lemma dseg_remove:
  assumes "dseg h p (as @ n # bs) q" and "distinct (p # as @ n # bs)" and "q \<notin> set (as @ n # bs)"
    and nx': "nx h' = (nx h)(last (p # as) \<mapsto> hd (bs @ [q]), n \<mapsto> n)"
    and pv': "pv h' = (pv h)(hd (bs @ [q]) \<mapsto> last (p # as), n \<mapsto> n)"
  shows "dseg h' p (as @ bs) q"
proof -
  obtain a where a: "a \<in> set (p # as)" and "last (p # as) = a" by (rule neighbours)
  with nx' have nx'': "nx h' = (nx h)(a \<mapsto> hd (bs @ [q]), n \<mapsto> n)" by simp
  have "link h' (last (p # as)) (hd (bs @ [q]))"
    using assms(2,3) by (auto simp: link_def nx' pv' hd_append split: if_splits)
  moreover have "dseg h' p as' (last (p # as))" if "as = as' @ [a]" for as' a
    by (rule dseg_frame [of h]) (use assms(1-3) that in \<open>auto simp: nx' pv' dseg_append hd_append split: if_splits\<close>)
  moreover have "dseg h' (hd (bs @ [q])) bs' q" if "bs = b # bs'" for b bs'
    by (rule dseg_frame [of h]) (use assms(1-3) that a in \<open>auto simp: nx'' pv' dseg_append\<close>)
  ultimately show ?thesis
    by (cases as rule: rev_cases; cases bs) (simp_all add: dseg_append)
qed

section \<open>What the operations do to the ring\<close>

lemma fields_upd [simp]:
  "nx (h(p \<mapsto> n)) = (nx h)(p \<mapsto> nxt n)" "pv (h(p \<mapsto> n)) = (pv h)(p \<mapsto> prev n)"
  by (simp_all add: nx_def pv_def fun_eq_iff)

lemma insert_fields:
  assumes "link h a cur" and "a \<noteq> NULL" and "cur \<noteq> NULL" and "h (elem + off) = Some n"
    and "elem + off \<noteq> NULL" and "elem + off \<noteq> a" and "elem + off \<noteq> cur"
  shows "\<exists>h'. IntrusiveDList_insert off h l cur elem = Inr (elem + off, h', l\<lparr>mCount := mCount l + 1\<rparr>) \<and>
    nx h' = (nx h)(elem + off \<mapsto> cur, a \<mapsto> elem + off) \<and>
    pv h' = (pv h)(elem + off \<mapsto> a, cur \<mapsto> elem + off)"
proof -
  obtain na nc where "h a = Some na" "nxt na = cur" "h cur = Some nc" "prev nc = a"
    using link_live [OF assms(1)] by blast
  then show ?thesis
    using assms(2-) by (cases "a = cur"; simp add: IntrusiveDList_insert_def Let_def)
      (auto simp: fun_eq_iff nx_def pv_def)
qed

lemma Unlink_fields:
  assumes "link h a n" and "link h n b" and "a \<noteq> NULL" and "n \<noteq> NULL" and "b \<noteq> NULL"
    and "n \<noteq> a" and "n \<noteq> b"
  shows "\<exists>h'. DLinkNode_Unlink h n = Inr h' \<and> dom h' = dom h \<and>
    nx h' = (nx h)(a \<mapsto> b, n \<mapsto> n) \<and> pv h' = (pv h)(b \<mapsto> a, n \<mapsto> n)"
proof -
  obtain na nn nb where "h a = Some na" "nxt na = n" "h n = Some nn" "nxt nn = b" "prev nn = a" "h b = Some nb" "prev nb = n"
    using link_live [OF assms(1)] link_live [OF assms(2)] by auto
  then show ?thesis
    using assms(3-) by (cases "a = b"; simp add: DLinkNode_Unlink_def)
      (auto simp: fun_eq_iff nx_def pv_def)
qed

lemma Unlink_alone:
  "h n = Some \<lparr>prev = n, nxt = n\<rparr> \<Longrightarrow> n \<noteq> NULL \<Longrightarrow> DLinkNode_Unlink h n = Inr h"
  by (auto simp: DLinkNode_Unlink_def fun_eq_iff)

lemma fields_alone: "nx h n = Some n \<Longrightarrow> pv h n = Some n \<Longrightarrow> h n = Some \<lparr>prev = n, nxt = n\<rparr>"
  by (auto simp: nx_def pv_def)


lemma fields_eq: "nx h' y = nx h y \<Longrightarrow> pv h' y = pv h y \<Longrightarrow> h' y = h y"
  by (cases "h y"; cases "h' y") (auto simp: nx_def pv_def)

lemma insert_rep:
  assumes "dlist_rep h l (as @ bs)" and "h (elem + off) = Some n" and "elem + off \<notin> set (NULL # mRoot l # as @ bs)"
    and "length (as @ bs) + 1 < 2 ^ 31"
  shows "\<exists>h' l'. IntrusiveDList_insert off h l (hd (bs @ [mRoot l])) elem = Inr (elem + off, h', l') \<and>
    mRoot l' = mRoot l \<and> dlist_rep h' l' (as @ (elem + off) # bs) \<and>
    (\<forall>y. y \<notin> set ((elem + off) # mRoot l # as @ bs) \<longrightarrow> h' y = h y)"
proof -
  let ?n = "elem + off"
  obtain a c where ac: "a \<in> set (mRoot l # as)" "c \<in> set (mRoot l # bs)"
    and ac': "last (mRoot l # as) = a" "hd (bs @ [mRoot l]) = c" by (rule neighbours)
  have d: "dseg h (mRoot l) (as @ bs) (mRoot l)" "distinct (mRoot l # as @ bs)" "NULL \<notin> set (mRoot l # as @ bs)"
    using assms(1) by (auto simp: dlist_rep_def)
  have ne: "a \<noteq> NULL" "c \<noteq> NULL" "?n \<noteq> NULL" "?n \<noteq> a" "?n \<noteq> c"
    using ac d(3) assms(3) by (auto intro!: gr0I)
  obtain h' where h': "IntrusiveDList_insert off h l c elem = Inr (?n, h', l\<lparr>mCount := mCount l + 1\<rparr>)"
      "nx h' = (nx h)(?n \<mapsto> c, a \<mapsto> ?n)" "pv h' = (pv h)(?n \<mapsto> a, c \<mapsto> ?n)"
    using insert_fields [OF dseg_middle [OF d(1), unfolded ac'] ne(1,2) assms(2) ne(3-5)] by blast
  have "dseg h' (mRoot l) (as @ ?n # bs) (mRoot l)"
    using dseg_insert [OF d(1,2) _ _ h'(2,3) [folded ac']] d(2) assms(3) by auto
  moreover have "\<forall>y. y \<notin> set (?n # mRoot l # as @ bs) \<longrightarrow> h' y = h y"
    using ac by (intro allI impI fields_eq) (auto simp: h'(2,3))
  ultimately show ?thesis
    using h'(1) assms ac' by (auto simp: dlist_rep_def)
qed

lemma unlink_rep:
  assumes "dlist_rep h l (as @ n # bs)"
  shows "\<exists>h'. DLinkNode_Unlink h n = Inr h' \<and> dseg h' (mRoot l) (as @ bs) (mRoot l) \<and>
    h' n = Some \<lparr>prev = n, nxt = n\<rparr> \<and> (\<forall>y. y \<notin> set (mRoot l # as @ n # bs) \<longrightarrow> h' y = h y)"
proof -
  obtain a c where ac: "a \<in> set (mRoot l # as)" "c \<in> set (mRoot l # bs)"
    and ac': "last (mRoot l # as) = a" "hd (bs @ [mRoot l]) = c" by (rule neighbours)
  have d: "dseg h (mRoot l) (as @ n # bs) (mRoot l)" "distinct (mRoot l # as @ n # bs)" "NULL \<notin> set (mRoot l # as @ n # bs)"
    using assms by (auto simp: dlist_rep_def)
  have ne: "a \<noteq> NULL" "n \<noteq> NULL" "c \<noteq> NULL" "n \<noteq> a" "n \<noteq> c"
    using ac d(2,3) by (auto intro!: gr0I)
  have "link h a n" "link h n c"
    using dseg_middle [OF d(1)] dseg_middle [of h "mRoot l" "as @ [n]" bs "mRoot l"] d(1) ac'
    by (simp_all del: last.simps) (simp add: ac')
  then obtain h' where h': "DLinkNode_Unlink h n = Inr h'"
      "nx h' = (nx h)(a \<mapsto> c, n \<mapsto> n)" "pv h' = (pv h)(c \<mapsto> a, n \<mapsto> n)"
    using Unlink_fields [OF _ _ ne] by blast
  have "dseg h' (mRoot l) (as @ bs) (mRoot l)"
    using dseg_remove [OF d(1,2) _ h'(2,3) [folded ac']] d(2) by auto
  moreover have "h' n = Some \<lparr>prev = n, nxt = n\<rparr>"
    by (rule fields_alone) (simp_all add: h'(2,3))
  moreover have "\<forall>y. y \<notin> set (mRoot l # as @ n # bs) \<longrightarrow> h' y = h y"
    using ac by (intro allI impI fields_eq) (auto simp: h'(2,3))
  ultimately show ?thesis using h'(1) by blast
qed


lemma count_pred:
  "length xs = Suc n \<Longrightarrow> mCount l = of_nat (length xs) \<Longrightarrow> n < 2 ^ 31 \<Longrightarrow>
     mCount l - 1 = of_nat n \<and> 0 \<le> sint (mCount l - 1)"
  using sint_of_nat_small [where 'a = 32, of n] by simp

lemma unlink_node_rep:
  assumes "dlist_rep h l (as @ n # bs)"
  shows "\<exists>h' l'. IntrusiveDList_unlink_node h l n = Inr (h', l') \<and> dlist_rep h' l' (as @ bs) \<and>
    mRoot l' = mRoot l \<and> h' n = Some \<lparr>prev = n, nxt = n\<rparr> \<and>
    (\<forall>y. y \<notin> set (mRoot l # as @ n # bs) \<longrightarrow> h' y = h y)"
  using unlink_rep [OF assms] count_pred [of "as @ n # bs" "length (as @ bs)" l] assms
  by (auto simp: IntrusiveDList_unlink_node_def dlist_rep_def Let_def)

lemma dseg_forget: "n \<notin> set (p # xs @ [q]) \<Longrightarrow> dseg h p xs q \<Longrightarrow> dseg (h(n := None)) p xs q"
  by (erule dseg_frame) (auto simp: nx_def pv_def)

lemma erase_rep:
  assumes "dlist_rep h l (as @ n # bs)"
  shows "\<exists>h' l'. IntrusiveDList_erase ad h l n = Inr (hd (bs @ [mRoot l]), h', l') \<and> dlist_rep h' l' (as @ bs) \<and>
    mRoot l' = mRoot l \<and> h' n = (if ad then None else Some \<lparr>prev = n, nxt = n\<rparr>) \<and>
    (\<forall>y. y \<notin> set (mRoot l # as @ n # bs) \<longrightarrow> h' y = h y)"
proof -
  have d: "dseg h (mRoot l) (as @ n # bs) (mRoot l)" "n \<noteq> mRoot l" "n \<noteq> NULL" "n \<notin> set (mRoot l # (as @ bs) @ [mRoot l])"
    using assms by (auto simp: dlist_rep_def intro!: gr0I)
  obtain h1 where h1: "DLinkNode_Unlink h n = Inr h1" "dseg h1 (mRoot l) (as @ bs) (mRoot l)"
      "h1 n = Some \<lparr>prev = n, nxt = n\<rparr>" "\<forall>y. y \<notin> set (mRoot l # as @ n # bs) \<longrightarrow> h1 y = h y"
    using unlink_rep [OF assms] by blast
  have del: "delete_node h1 n = Inr (h1(n := None))"
    by (simp add: delete_node_def DLinkNode_dtor_def Unlink_alone [of h1 n, OF h1(3) d(3)])
  obtain nd where "h n = Some nd" "nxt nd = hd (bs @ [mRoot l])"
    using link_live [OF dseg_middle [of h "mRoot l" "as @ [n]" bs "mRoot l"]] d(1) by auto
  moreover have "dseg (h1(n := None)) (mRoot l) (as @ bs) (mRoot l)"
    using dseg_forget [OF d(4) h1(2)] .
  ultimately show ?thesis
    using count_pred [of "as @ n # bs" "length (as @ bs)" l] assms h1 d(2,3) del
    by (auto simp: IntrusiveDList_erase_def IntrusiveDList_end_def dlist_rep_def Let_def)
qed

lemma clear_loop_rep:
  assumes "dlist_rep h l xs"
  shows "\<exists>h' l'. IntrusiveDList_clear_loop ad h l (hd (xs @ [mRoot l])) = Some (Inr (h', l')) \<and>
    dlist_rep h' l' [] \<and> mRoot l' = mRoot l \<and>
    (\<forall>x \<in> set xs. h' x = (if ad then None else Some \<lparr>prev = x, nxt = x\<rparr>)) \<and>
    (\<forall>y. y \<notin> set (mRoot l # xs) \<longrightarrow> h' y = h y)"
  using assms
proof (induction xs arbitrary: h l)
  case Nil
  then show ?case by (simp add: IntrusiveDList_clear_loop.simps IntrusiveDList_end_def)
next
  case (Cons x xs)
  obtain h1 l1 where e: "IntrusiveDList_erase ad h l x = Inr (hd (xs @ [mRoot l]), h1, l1)"
      "dlist_rep h1 l1 xs" "mRoot l1 = mRoot l" "h1 x = (if ad then None else Some \<lparr>prev = x, nxt = x\<rparr>)"
      "\<forall>y. y \<notin> set (mRoot l # x # xs) \<longrightarrow> h1 y = h y"
    using erase_rep [of h l "[]" x xs ad] Cons.prems by auto
  have x: "x \<noteq> mRoot l" "x \<notin> set xs" using Cons.prems by (auto simp: dlist_rep_def)
  obtain h' l' where i: "IntrusiveDList_clear_loop ad h1 l1 (hd (xs @ [mRoot l])) = Some (Inr (h', l'))"
      "dlist_rep h' l' []" "mRoot l' = mRoot l" "\<forall>x \<in> set xs. h' x = (if ad then None else Some \<lparr>prev = x, nxt = x\<rparr>)"
      "\<forall>y. y \<notin> set (mRoot l # xs) \<longrightarrow> h' y = h1 y"
    using Cons.IH [OF e(2)] e(3) by auto
  have "IntrusiveDList_clear_loop ad h l x = Some (Inr (h', l'))"
    using e(1) i(1) x(1) by (subst IntrusiveDList_clear_loop.simps) (simp add: IntrusiveDList_end_def)
  then show ?case using i(2-) e(4,5) x by auto
qed

lemma begin_rep: "dlist_rep h l xs \<Longrightarrow> IntrusiveDList_begin h l = Inr (hd (xs @ [mRoot l]))"
  using link_live [OF dseg_middle [of h "mRoot l" "[]" xs "mRoot l"]]
  by (auto simp: IntrusiveDList_begin_def dlist_rep_def)

lemma root_rep:
  assumes "dlist_rep h l xs"
  shows "\<exists>n. h (mRoot l) = Some n \<and> mRoot l \<noteq> NULL \<and> nxt n = hd (xs @ [mRoot l]) \<and> prev n = last (mRoot l # xs)"
  using link_live [OF dseg_middle [of h "mRoot l" "[]" xs "mRoot l"]]
    link_live [OF dseg_middle [of h "mRoot l" xs "[]" "mRoot l"]] assms
  by (auto simp: dlist_rep_def)


lemma insert_first_rep:
  "dlist_rep h l xs \<Longrightarrow> h (elem + off) = Some n \<Longrightarrow> elem + off \<notin> set (NULL # mRoot l # xs) \<Longrightarrow> length xs + 1 < 2 ^ 31 \<Longrightarrow>
   \<exists>h' l'. IntrusiveDList_push_front off h l elem = Inr (h', l') \<and> mRoot l' = mRoot l \<and>
     dlist_rep h' l' ((elem + off) # xs) \<and> (\<forall>y. y \<notin> set ((elem + off) # mRoot l # xs) \<longrightarrow> h' y = h y)"
  using insert_rep [of h l "[]" xs elem off n]
  by (auto simp: IntrusiveDList_push_front_def begin_rep)

lemma insert_last_rep:
  "dlist_rep h l xs \<Longrightarrow> h (elem + off) = Some n \<Longrightarrow> elem + off \<notin> set (NULL # mRoot l # xs) \<Longrightarrow> length xs + 1 < 2 ^ 31 \<Longrightarrow>
   \<exists>h' l'. IntrusiveDList_push_back off h l elem = Inr (h', l') \<and> mRoot l' = mRoot l \<and>
     dlist_rep h' l' (xs @ [elem + off]) \<and> (\<forall>y. y \<notin> set ((elem + off) # mRoot l # xs) \<longrightarrow> h' y = h y)"
  using insert_rep [of h l xs "[]" elem off n]
  by (auto simp: IntrusiveDList_push_back_def IntrusiveDList_end_def)

lemma pop_front_drep:
  assumes "dlist_rep h l (x # xs)"
  shows "\<exists>h' l'. IntrusiveDList_pop_front h l = Inr (h', l') \<and> dlist_rep h' l' xs \<and>
    mRoot l' = mRoot l \<and> h' x = Some \<lparr>prev = x, nxt = x\<rparr>"
  using root_rep [OF assms] unlink_node_rep [of h l "[]" x xs] assms
  by (auto simp: IntrusiveDList_pop_front_def)

lemma pop_back_drep:
  assumes "dlist_rep h l (xs @ [x])"
  shows "\<exists>h' l'. IntrusiveDList_pop_back h l = Inr (h', l') \<and> dlist_rep h' l' xs \<and>
    mRoot l' = mRoot l \<and> h' x = Some \<lparr>prev = x, nxt = x\<rparr>"
  using root_rep [OF assms] unlink_node_rep [of h l xs x "[]"] assms
  by (auto simp: IntrusiveDList_pop_back_def)

section \<open>IntrusiveDList as a queue and as a stack\<close>

definition idlist_rep :: "nat \<Rightarrow> dlink_heap \<times> IntrusiveDList \<Rightarrow> addr list \<Rightarrow> bool" where
  "idlist_rep off s es \<longleftrightarrow> dlist_rep (fst s) (snd s) (map (\<lambda>e. e + off) es)"

definition idlist_unlinked :: "nat \<Rightarrow> dlink_heap \<times> IntrusiveDList \<Rightarrow> addr \<Rightarrow> bool" where
  "idlist_unlinked off s e \<longleftrightarrow> e + off \<noteq> NULL \<and> e + off \<noteq> mRoot (snd s) \<and>
     fst s (e + off) = Some \<lparr>prev = e + off, nxt = e + off\<rparr>"

definition idlist_pop :: "nat \<Rightarrow> dlink_heap \<times> IntrusiveDList \<Rightarrow> (addr \<times> (dlink_heap \<times> IntrusiveDList)) result" where
  "idlist_pop off s = bind_result (IntrusiveDList_front off (fst s) (snd s)) (\<lambda>e.
     bind_result (IntrusiveDList_pop_front (fst s) (snd s)) (\<lambda>s'. Inr (e, s')))"

definition dcount_ok :: "nat \<Rightarrow> bool" where
  "dcount_ok n \<longleftrightarrow> n < 2 ^ 31"

lemma self_linked_notin:
  assumes "dlist_rep h l xs" and "h n = Some \<lparr>prev = n, nxt = n\<rparr>"
  shows "n \<notin> set xs"
proof
  assume "n \<in> set xs"
  then obtain as bs where xs: "xs = as @ n # bs" by (auto simp: in_set_conv_decomp)
  then have "dseg h (mRoot l) ((as @ [n]) @ bs) (mRoot l)"
    using assms(1) by (simp add: dlist_rep_def)
  from link_live [OF dseg_middle [OF this]] obtain nd where "h n = Some nd" "nxt nd = hd (bs @ [mRoot l])"
    by auto
  then have n: "n = hd (bs @ [mRoot l])" by (metis DLinkNode.select_convs(2) assms(2) option.inject)
  have "hd (bs @ [mRoot l]) \<in> set (mRoot l # bs)" by (cases bs) auto
  then have "n \<in> set (mRoot l # bs)" using n by metis
  then show False using assms(1) xs by (auto simp: dlist_rep_def)
qed

lemma idlist_pop_first:
  assumes "idlist_rep off s (e # es)"
  shows "\<exists>s'. idlist_pop off s = Inr (e, s') \<and> idlist_rep off s' es"
  using pop_front_drep [of "fst s" "snd s" "e + off" "map (\<lambda>e. e + off) es"]
    root_rep [of "fst s" "snd s" "(e + off) # map (\<lambda>e. e + off) es"] assms
  by (auto simp: idlist_rep_def idlist_pop_def IntrusiveDList_front_def)

lemma idlist_push_back:
  assumes "idlist_rep off s es" and "idlist_unlinked off s e" and "dcount_ok (length es + 1)"
  shows "\<exists>s'. IntrusiveDList_push_back off (fst s) (snd s) e = Inr s' \<and> idlist_rep off s' (es @ [e]) \<and>
    (\<forall>y. idlist_unlinked off s y \<and> \<not> e = y \<longrightarrow> idlist_unlinked off s' y)"
proof -
  let ?xs = "map (\<lambda>e. e + off) es"
  obtain h' l' where "IntrusiveDList_push_back off (fst s) (snd s) e = Inr (h', l')" "mRoot l' = mRoot (snd s)"
      "dlist_rep h' l' (?xs @ [e + off])" "\<forall>y. y \<notin> set ((e + off) # mRoot (snd s) # ?xs) \<longrightarrow> h' y = fst s y"
    using insert_last_rep [of "fst s" "snd s" ?xs e off] self_linked_notin [of "fst s" "snd s" ?xs "e + off"] assms
    by (auto simp: idlist_rep_def idlist_unlinked_def dcount_ok_def)
  moreover have "\<forall>y. idlist_unlinked off s y \<and> y \<noteq> e \<longrightarrow> y + off \<notin> set ((e + off) # mRoot (snd s) # ?xs)"
    using self_linked_notin [of "fst s" "snd s" ?xs] assms(1) by (auto simp: idlist_rep_def idlist_unlinked_def)
  ultimately show ?thesis by (simp add: idlist_rep_def idlist_unlinked_def)
qed

lemma idlist_push_front:
  assumes "idlist_rep off s es" and "idlist_unlinked off s e" and "dcount_ok (length es + 1)"
  shows "\<exists>s'. IntrusiveDList_push_front off (fst s) (snd s) e = Inr s' \<and> idlist_rep off s' (e # es) \<and>
    (\<forall>y. idlist_unlinked off s y \<and> \<not> e = y \<longrightarrow> idlist_unlinked off s' y)"
proof -
  let ?xs = "map (\<lambda>e. e + off) es"
  obtain h' l' where "IntrusiveDList_push_front off (fst s) (snd s) e = Inr (h', l')" "mRoot l' = mRoot (snd s)"
      "dlist_rep h' l' ((e + off) # ?xs)" "\<forall>y. y \<notin> set ((e + off) # mRoot (snd s) # ?xs) \<longrightarrow> h' y = fst s y"
    using insert_first_rep [of "fst s" "snd s" ?xs e off] self_linked_notin [of "fst s" "snd s" ?xs "e + off"] assms
    by (auto simp: idlist_rep_def idlist_unlinked_def dcount_ok_def)
  moreover have "\<forall>y. idlist_unlinked off s y \<and> y \<noteq> e \<longrightarrow> y + off \<notin> set ((e + off) # mRoot (snd s) # ?xs)"
    using self_linked_notin [of "fst s" "snd s" ?xs] assms(1) by (auto simp: idlist_rep_def idlist_unlinked_def)
  ultimately show ?thesis by (simp add: idlist_rep_def idlist_unlinked_def)
qed

interpretation idlist_queue: fifo_container
    "idlist_rep off" "idlist_unlinked off" "(=)" dcount_ok "idlist_pop off"
    "\<lambda>e s. IntrusiveDList_push_back off (fst s) (snd s) e"
  for off
  by unfold_locales (rule idlist_pop_first, assumption, simp add: dcount_ok_def, rule idlist_push_back)

interpretation idlist_stack: lifo_container
    "idlist_rep off" "idlist_unlinked off" "(=)" dcount_ok "idlist_pop off"
    "\<lambda>e s. IntrusiveDList_push_front off (fst s) (snd s) e"
  for off
  by unfold_locales (rule idlist_push_front)


section \<open>Properties of IntrusiveDList\<close>

primrec IntrusiveDList_walk :: "(addr \<Rightarrow> addr result) \<Rightarrow> nat \<Rightarrow> addr \<Rightarrow> addr list result" where
  \<comment> \<open>the nodes an iterator stands on after each of \<open>n\<close> steps\<close>
  "IntrusiveDList_walk step 0 it = Inr []"
| "IntrusiveDList_walk step (Suc n) it = bind_result (step it) (\<lambda>it'.
     bind_result (IntrusiveDList_walk step n it') (\<lambda>its. Inr (it' # its)))"

lemma walk_forward:
  "dseg h p xs q \<Longrightarrow> NULL \<notin> set (p # xs) \<Longrightarrow>
   IntrusiveDList_walk (IntrusiveDList_iterator_incr h) (length xs + 1) p = Inr (xs @ [q])"
  by (induction xs arbitrary: p) (auto simp: IntrusiveDList_iterator_incr_def dest!: link_live)

lemma walk_backward:
  "dseg h p xs q \<Longrightarrow> NULL \<notin> set (q # xs) \<Longrightarrow>
   IntrusiveDList_walk (IntrusiveDList_iterator_decr h) (length xs + 1) q = Inr (rev (p # xs))"
proof (induction xs arbitrary: q rule: rev_induct)
  case Nil
  then show ?case by (auto simp: IntrusiveDList_iterator_decr_def dest!: link_live)
next
  case (snoc x xs)
  then have "dseg h p xs x" "link h x q" by (simp_all add: dseg_append)
  then show ?case
    using snoc.IH [of x] snoc.prems(2) link_live [of h x q]
    by (auto simp: IntrusiveDList_iterator_decr_def)
qed

partial_function (option) IntrusiveDList_visit ::
  "nat \<Rightarrow> dlink_heap \<Rightarrow> addr \<Rightarrow> addr list \<Rightarrow> addr \<Rightarrow> addr list result option" where
  \<comment> \<open>the loop \<open>for (it = begin(); it != end(); ++it) use(*it)\<close> of a client, and the elements it has used\<close>
  "IntrusiveDList_visit off h end_it used it =
     (if IntrusiveDList_iterator_neq it end_it
      then (case IntrusiveDList_iterator_incr h it of
              Inl e \<Rightarrow> Some (Inl e)
            | Inr it' \<Rightarrow> IntrusiveDList_visit off h end_it (used @ [IntrusiveDList_iterator_deref off it]) it')
      else Some (Inr used))"

lemma visit_segment:
  "dseg h p xs q \<Longrightarrow> p \<noteq> q \<Longrightarrow> q \<notin> set xs \<Longrightarrow> NULL \<notin> set (p # xs) \<Longrightarrow>
   IntrusiveDList_visit off h q used p = Some (Inr (used @ map (\<lambda>x. x - off) (p # xs)))"
proof (induction xs arbitrary: p used)
  case Nil
  then have "IntrusiveDList_iterator_incr h p = Inr q"
    using link_live [of h p q] by (auto simp: IntrusiveDList_iterator_incr_def)
  with Nil show ?case
    by (simp add: IntrusiveDList_visit.simps [of off h q _ p] IntrusiveDList_visit.simps [of off h q _ q]
        IntrusiveDList_iterator_neq_def IntrusiveDList_iterator_eq_def IntrusiveDList_iterator_deref_def)
next
  case (Cons x xs)
  then have "IntrusiveDList_iterator_incr h p = Inr x"
    using link_live [of h p x] by (auto simp: IntrusiveDList_iterator_incr_def)
  with Cons show ?case
    by (simp add: IntrusiveDList_visit.simps [of off h q _ p]
        IntrusiveDList_iterator_neq_def IntrusiveDList_iterator_eq_def IntrusiveDList_iterator_deref_def)
qed

lemma visit_all:
  \<comment> \<open>the loop ends and uses every element once, in order, also on the empty list\<close>
  assumes "dlist_rep h l xs"
  shows "\<exists>first. IntrusiveDList_begin h l = Inr first \<and>
    IntrusiveDList_visit off h (IntrusiveDList_end l) [] first = Some (Inr (map (\<lambda>x. x - off) xs))"
proof -
  have root: "IntrusiveDList_begin h l = Inr (hd (xs @ [mRoot l]))"
    using root_rep [OF assms] by (auto simp: IntrusiveDList_begin_def)
  show ?thesis
  proof (cases xs)
    case Nil
    then show ?thesis
      using root by (simp add: IntrusiveDList_end_def IntrusiveDList_visit.simps
          IntrusiveDList_iterator_neq_def IntrusiveDList_iterator_eq_def)
  next
    case (Cons x ys)
    then have "dseg h x ys (mRoot l)" "x \<noteq> mRoot l" "mRoot l \<notin> set ys" "NULL \<notin> set (x # ys)"
      using assms by (auto simp: dlist_rep_def)
    then show ?thesis using root Cons visit_segment [of h x ys "mRoot l" off "[]"] by (simp add: IntrusiveDList_end_def)
  qed
qed

text \<open>
  C9. A doubly linked list supports insertion and removal anywhere: on a list that holds \<open>as @ bs\<close>, inserting an
  unlinked element before the first node of \<open>bs\<close> (before \<open>end()\<close> when \<open>bs\<close> is empty) makes it
  \<open>as @ node # bs\<close> and returns the iterator to it, and erasing that iterator gives \<open>as @ bs\<close> back, returns the
  iterator to the node after it and deletes the element exactly when \<open>AutoDelete\<close> is set. No other node of
  the heap outside of the list is changed, and the checks on the count never fail.
\<close>

theorem dlist_insert_erase:
  assumes "dlist_rep h l (as @ bs)" and "h (elem + off) = Some n"
    and "elem + off \<notin> set (NULL # mRoot l # as @ bs)" and "length (as @ bs) + 1 < 2 ^ 31"
  shows "\<exists>h1 l1 h2 l2. IntrusiveDList_insert off h l (hd (bs @ [mRoot l])) elem = Inr (elem + off, h1, l1) \<and>
    dlist_rep h1 l1 (as @ (elem + off) # bs) \<and>
    IntrusiveDList_erase ad h1 l1 (elem + off) = Inr (hd (bs @ [mRoot l]), h2, l2) \<and> dlist_rep h2 l2 (as @ bs) \<and>
    h2 (elem + off) = (if ad then None else Some \<lparr>prev = elem + off, nxt = elem + off\<rparr>) \<and>
    (\<forall>y. y \<notin> set ((elem + off) # mRoot l # as @ bs) \<longrightarrow> h1 y = h y \<and> h2 y = h y)"
proof -
  obtain h1 l1 where i: "IntrusiveDList_insert off h l (hd (bs @ [mRoot l])) elem = Inr (elem + off, h1, l1)"
      "mRoot l1 = mRoot l" "dlist_rep h1 l1 (as @ (elem + off) # bs)"
      "\<forall>y. y \<notin> set ((elem + off) # mRoot l # as @ bs) \<longrightarrow> h1 y = h y"
    using insert_rep [OF assms] by blast
  moreover obtain h2 l2 where "IntrusiveDList_erase ad h1 l1 (elem + off) = Inr (hd (bs @ [mRoot l]), h2, l2)"
      "dlist_rep h2 l2 (as @ bs)" "h2 (elem + off) = (if ad then None else Some \<lparr>prev = elem + off, nxt = elem + off\<rparr>)"
      "\<forall>y. y \<notin> set (mRoot l # as @ (elem + off) # bs) \<longrightarrow> h2 y = h1 y"
    using erase_rep [OF i(3), of ad] i(2) by auto
  ultimately show ?thesis by auto
qed

theorem dlist_insert_erase_witness:
  "\<exists>h1 l1 h2 l2. IntrusiveDList_insert 8 [4 \<mapsto> \<lparr>prev = 24, nxt = 24\<rparr>, 24 \<mapsto> \<lparr>prev = 4, nxt = 4\<rparr>, 40 \<mapsto> \<lparr>prev = 40, nxt = 40\<rparr>]
       \<lparr>mRoot = 4, mCount = 1\<rparr> 4 32 = Inr (40, h1, l1) \<and> dlist_rep h1 l1 [24, 40] \<and>
     IntrusiveDList_erase True h1 l1 40 = Inr (4, h2, l2) \<and> dlist_rep h2 l2 [24]"
proof -
  let ?h = "[4 \<mapsto> \<lparr>prev = 24, nxt = 24\<rparr>, 24 \<mapsto> \<lparr>prev = 4, nxt = 4\<rparr>, 40 \<mapsto> \<lparr>prev = 40, nxt = 40\<rparr>] :: dlink_heap"
  have "dlist_rep ?h \<lparr>mRoot = 4, mCount = 1\<rparr> ([24] @ [])"
    by (simp add: dlist_rep_def link_def nx_def pv_def)
  moreover have "?h (32 + 8) = Some \<lparr>prev = 40, nxt = 40\<rparr>" by simp
  ultimately show ?thesis
    using dlist_insert_erase [of ?h "\<lparr>mRoot = 4, mCount = 1\<rparr>" "[24]" "[]" 32 8 "\<lparr>prev = 40, nxt = 40\<rparr>" True]
    by (auto simp del: fun_upd_apply)
qed

text \<open>
  On a non-empty doubly linked list \<open>front\<close> and \<open>back\<close> read its ends, stepping an iterator forward from
  \<open>end()\<close> goes through the list in order and back to \<open>end()\<close>, and stepping it backward goes through
  the reverse; \<open>pop_front\<close>, \<open>pop_back\<close> and \<open>unlink\<close> of any member take exactly that node out and leave it
  unlinked.
\<close>

theorem dlist_ends_and_traversal:
  assumes "dlist_rep h l xs" and "xs \<noteq> []" and "elem + off \<in> set xs"
  shows "IntrusiveDList_front off h l = Inr (hd xs - off) \<and> IntrusiveDList_back off h l = Inr (last xs - off) \<and>
    IntrusiveDList_walk (IntrusiveDList_iterator_incr h) (length xs + 1) (IntrusiveDList_end l) = Inr (xs @ [IntrusiveDList_end l]) \<and>
    IntrusiveDList_walk (IntrusiveDList_iterator_decr h) (length xs + 1) (IntrusiveDList_end l) = Inr (rev xs @ [IntrusiveDList_end l]) \<and>
    (\<exists>h' l'. IntrusiveDList_pop_front h l = Inr (h', l') \<and> dlist_rep h' l' (tl xs) \<and> idlist_unlinked 0 (h', l') (hd xs)) \<and>
    (\<exists>h' l'. IntrusiveDList_pop_back h l = Inr (h', l') \<and> dlist_rep h' l' (butlast xs) \<and> idlist_unlinked 0 (h', l') (last xs)) \<and>
    (\<exists>h' l'. IntrusiveDList_unlink off h l elem = Inr (h', l') \<and> dlist_rep h' l' (remove1 (elem + off) xs) \<and>
       idlist_unlinked off (h', l') elem)"
proof -
  have d: "dseg h (mRoot l) xs (mRoot l)" "distinct (mRoot l # xs)" "NULL \<notin> set (mRoot l # xs)"
    using assms(1) by (auto simp: dlist_rep_def)
  have "\<exists>h' l'. IntrusiveDList_pop_front h l = Inr (h', l') \<and> dlist_rep h' l' (tl xs) \<and> idlist_unlinked 0 (h', l') (hd xs)"
    using pop_front_drep [of h l "hd xs" "tl xs"] assms(1,2) d by (cases xs) (auto simp: idlist_unlinked_def)
  moreover have "\<exists>h' l'. IntrusiveDList_pop_back h l = Inr (h', l') \<and> dlist_rep h' l' (butlast xs) \<and> idlist_unlinked 0 (h', l') (last xs)"
    using pop_back_drep [of h l "butlast xs" "last xs"] assms(1,2) d by (cases xs rule: rev_cases) (auto simp: idlist_unlinked_def)
  moreover have "\<exists>h' l'. IntrusiveDList_unlink off h l elem = Inr (h', l') \<and> dlist_rep h' l' (remove1 (elem + off) xs) \<and>
       idlist_unlinked off (h', l') elem"
  proof -
    obtain as bs where xs: "xs = as @ (elem + off) # bs" using assms(3) by (auto simp: in_set_conv_decomp)
    then show ?thesis
      using unlink_node_rep [of h l as "elem + off" bs] assms(1) d(2,3)
      by (auto simp: IntrusiveDList_unlink_def idlist_unlinked_def remove1_append)
  qed
  ultimately show ?thesis
    using root_rep [OF assms(1)] walk_forward [OF d(1,3)] walk_backward [OF d(1,3)] assms(2)
    by (auto simp: IntrusiveDList_front_def IntrusiveDList_back_def IntrusiveDList_end_def hd_append)
qed

theorem dlist_ends_and_traversal_witness:
  "IntrusiveDList_back 8 [4 \<mapsto> \<lparr>prev = 24, nxt = 24\<rparr>, 24 \<mapsto> \<lparr>prev = 4, nxt = 4\<rparr>] \<lparr>mRoot = 4, mCount = 1\<rparr> = Inr 16"
proof -
  have "dlist_rep [4 \<mapsto> \<lparr>prev = 24, nxt = 24\<rparr>, 24 \<mapsto> \<lparr>prev = 4, nxt = 4\<rparr>] \<lparr>mRoot = 4, mCount = 1\<rparr> [24]"
    by (simp add: dlist_rep_def link_def nx_def pv_def)
  then show ?thesis using dlist_ends_and_traversal [where elem = 16 and off = 8] by fastforce
qed

text \<open>
  The loop of \<open>clear\<close> ends on every well-formed doubly linked list and the destructor succeeds: afterwards
  the root is deleted, every element is deleted when \<open>AutoDelete\<close> is set and is left alive and unlinked when
  it is not, and no other node has changed.
\<close>

theorem dlist_clear_terminates:
  assumes "dlist_rep h l xs"
  shows "\<exists>h' l' h''. IntrusiveDList_clear ad h l = Some (Inr (h', l')) \<and> dlist_rep h' l' [] \<and>
    IntrusiveDList_dtor ad h l = Some (Inr h'') \<and> h'' (mRoot l) = None \<and>
    (\<forall>x \<in> set xs. h'' x = (if ad then None else Some \<lparr>prev = x, nxt = x\<rparr>)) \<and>
    (\<forall>y. y \<notin> set (mRoot l # xs) \<longrightarrow> h'' y = h y)"
proof -
  obtain h' l' where c: "IntrusiveDList_clear_loop ad h l (hd (xs @ [mRoot l])) = Some (Inr (h', l'))"
      "dlist_rep h' l' []" "mRoot l' = mRoot l"
      "\<forall>x \<in> set xs. h' x = (if ad then None else Some \<lparr>prev = x, nxt = x\<rparr>)"
      "\<forall>y. y \<notin> set (mRoot l # xs) \<longrightarrow> h' y = h y"
    using clear_loop_rep [OF assms] by blast
  have r: "h' (mRoot l) = Some \<lparr>prev = mRoot l, nxt = mRoot l\<rparr>" "mRoot l \<noteq> NULL" "mRoot l \<notin> set xs"
    using root_rep [OF c(2)] c(3) assms by (auto simp: dlist_rep_def)
  then have "delete_node h' (mRoot l) = Inr (h'(mRoot l := None))"
    using Unlink_alone [of h' "mRoot l"] by (simp add: delete_node_def DLinkNode_dtor_def)
  then show ?thesis
    using c r(3) by (auto simp: IntrusiveDList_dtor_def IntrusiveDList_clear_def begin_rep [OF assms])
qed

theorem dlist_clear_terminates_witness:
  "\<exists>h' l'. IntrusiveDList_clear True [4 \<mapsto> \<lparr>prev = 24, nxt = 24\<rparr>, 24 \<mapsto> \<lparr>prev = 4, nxt = 4\<rparr>] \<lparr>mRoot = 4, mCount = 1\<rparr> = Some (Inr (h', l')) \<and>
     dlist_rep h' l' []"
proof -
  have "dlist_rep [4 \<mapsto> \<lparr>prev = 24, nxt = 24\<rparr>, 24 \<mapsto> \<lparr>prev = 4, nxt = 4\<rparr>] \<lparr>mRoot = 4, mCount = 1\<rparr> [24]"
    by (simp add: dlist_rep_def link_def nx_def pv_def)
  from dlist_clear_terminates [OF this, of True] show ?thesis by blast
qed

end
