(* ===== verification/Stone_Lock.thy ===== *)
theory Stone_Lock
  imports Stone_Atomic
begin

text \<open>
  \<^verbatim>\<open>threading/sync/lock.h\<close> with \<^verbatim>\<open>base/error_check.h\<close>: the scoped lockers, \<open>NullLock\<close>, the locks built
  on pthreads, and \<open>SpinRWLock\<close> as seen by one thread. The pthread functions are not part of the library:
  each is an argument that takes the state of the pthread object and returns its status code and the new
  state. The interleaved executions of \<open>SpinRWLock\<close> are in the theory \<open>Stone_Spin_RWLock\<close>.
\<close>

section \<open>error_check.h\<close>

definition EBUSY :: int where
  "EBUSY = 16"

definition CheckPthreadError :: "int \<Rightarrow> unit result" where
  "CheckPthreadError status = (if status \<noteq> 0 then Inl Abort else Inr ())"

definition CheckPthreadTryLockError :: "int \<Rightarrow> bool result" where
  "CheckPthreadTryLockError status =
     (if status \<noteq> 0 then (if status = EBUSY then Inr False else Inl Abort) else Inr True)"

type_synonym 'm pthread_fn = "'m \<Rightarrow> int \<times> 'm"

definition checked :: "'m pthread_fn \<Rightarrow> 'm \<Rightarrow> 'm result" where
  \<comment> \<open>\<open>CheckPthreadError(f(&m))\<close>\<close>
  "checked f m = (let (status, m') = f m in bind_result (CheckPthreadError status) (\<lambda>_. Inr m'))"

section \<open>Scoped lockers\<close>

text \<open>
  A scoped locker is an object on the stack: \<open>scope\<close> is the construction, the rest of the block and the
  destruction. The block returns normally with a value or leaves by an exception, which is a value too, so
  that the destructor runs in both cases.
\<close>

definition ScopedLocker :: "('s \<Rightarrow> 's result) \<Rightarrow> ('s \<Rightarrow> 's result) \<Rightarrow> ('s \<Rightarrow> ('a \<times> 's) result) \<Rightarrow> 's \<Rightarrow> ('a \<times> 's) result" where
  "ScopedLocker Lock Unlock body s =
     bind_result (Lock s) (\<lambda>s1. bind_result (body s1) (\<lambda>(out, s2).
       bind_result (Unlock s2) (\<lambda>s3. Inr (out, s3))))"

definition ScopedUnlocker :: "('s \<Rightarrow> 's result) \<Rightarrow> ('s \<Rightarrow> 's result) \<Rightarrow> ('s \<Rightarrow> ('a \<times> 's) result) \<Rightarrow> 's \<Rightarrow> ('a \<times> 's) result" where
  "ScopedUnlocker Lock Unlock body s =
     bind_result (Unlock s) (\<lambda>s1. bind_result (body s1) (\<lambda>(out, s2).
       bind_result (Lock s2) (\<lambda>s3. Inr (out, s3))))"

definition ScopedReaderLocker :: "('s \<Rightarrow> 's result) \<Rightarrow> ('s \<Rightarrow> 's result) \<Rightarrow> ('s \<Rightarrow> ('a \<times> 's) result) \<Rightarrow> 's \<Rightarrow> ('a \<times> 's) result" where
  "ScopedReaderLocker ReadLock ReadUnlock body s =
     bind_result (ReadLock s) (\<lambda>s1. bind_result (body s1) (\<lambda>(out, s2).
       bind_result (ReadUnlock s2) (\<lambda>s3. Inr (out, s3))))"

definition ScopedWriterLocker :: "('s \<Rightarrow> 's result) \<Rightarrow> ('s \<Rightarrow> 's result) \<Rightarrow> ('s \<Rightarrow> ('a \<times> 's) result) \<Rightarrow> 's \<Rightarrow> ('a \<times> 's) result" where
  "ScopedWriterLocker WriteLock WriteUnlock body s =
     bind_result (WriteLock s) (\<lambda>s1. bind_result (body s1) (\<lambda>(out, s2).
       bind_result (WriteUnlock s2) (\<lambda>s3. Inr (out, s3))))"

text \<open>
  The macro \<open>STONE_SCOPED_LOCK_X\<close> is a \<open>for\<close> statement: the helper object holds the locker and a flag, the
  flag is tested before and set after each execution of the statement that follows the macro.
\<close>

function scoped_lock_loop :: "bool \<Rightarrow> ('s \<Rightarrow> 's result) \<Rightarrow> 's \<Rightarrow> 's result" where
  "scoped_lock_loop flag stmt s =
     (if \<not> flag then bind_result (stmt s) (\<lambda>s'. scoped_lock_loop True stmt s') else Inr s)"
  by pat_completeness auto
termination by (relation "measure (\<lambda>(flag, stmt, s). if flag then 0 else 1)") auto

declare scoped_lock_loop.simps [simp del]

definition STONE_SCOPED_LOCK_X :: "('s \<Rightarrow> 's result) \<Rightarrow> ('s \<Rightarrow> 's result) \<Rightarrow> ('s \<Rightarrow> 's result) \<Rightarrow> 's \<Rightarrow> 's result" where
  "STONE_SCOPED_LOCK_X Lock Unlock stmt s =
     bind_result (ScopedLocker Lock Unlock (\<lambda>s1. bind_result (scoped_lock_loop False stmt s1) (\<lambda>s2. Inr ((), s2))) s)
       (\<lambda>(_, s3). Inr s3)"

section \<open>NullLock\<close>

record NullLock =
  mLocked :: bool

definition NullLock_new :: NullLock where
  "NullLock_new = \<lparr>mLocked = False\<rparr>"

definition NullLock_Lock :: "NullLock \<Rightarrow> NullLock result" where
  "NullLock_Lock l = Inr (l\<lparr>mLocked := True\<rparr>)"

definition NullLock_Unlock :: "NullLock \<Rightarrow> NullLock result" where
  "NullLock_Unlock l = Inr (l\<lparr>mLocked := False\<rparr>)"

definition NullLock_IsLocked :: "NullLock \<Rightarrow> bool" where
  "NullLock_IsLocked l = mLocked l"

section \<open>Locks on pthreads\<close>

definition SpinLock_new :: "(int \<Rightarrow> 'm pthread_fn) \<Rightarrow> 'm \<Rightarrow> 'm result" where
  \<comment> \<open>\<open>PTHREAD_PROCESS_PRIVATE\<close> is 0\<close>
  "SpinLock_new pthread_spin_init = checked (pthread_spin_init 0)"

definition SpinLock_dtor :: "'m pthread_fn \<Rightarrow> 'm \<Rightarrow> 'm result" where
  "SpinLock_dtor pthread_spin_destroy = checked pthread_spin_destroy"

definition SpinLock_Lock :: "'m pthread_fn \<Rightarrow> 'm \<Rightarrow> 'm result" where
  "SpinLock_Lock pthread_spin_lock = checked pthread_spin_lock"

definition SpinLock_Unlock :: "'m pthread_fn \<Rightarrow> 'm \<Rightarrow> 'm result" where
  "SpinLock_Unlock pthread_spin_unlock = checked pthread_spin_unlock"

definition SpinLock_IsLocked :: "int \<Rightarrow> bool" where
  "SpinLock_IsLocked mSpin \<longleftrightarrow> mSpin = 0"

definition MutexBase_new ::
  "('a pthread_fn) \<Rightarrow> (int \<Rightarrow> 'a pthread_fn) \<Rightarrow> ('a \<Rightarrow> 'm pthread_fn) \<Rightarrow> ('a pthread_fn) \<Rightarrow> int \<Rightarrow> 'a \<Rightarrow> 'm \<Rightarrow> 'm result" where
  "MutexBase_new attr_init attr_settype mutex_init attr_destroy type attr mMutex =
     bind_result (checked attr_init attr) (\<lambda>attr1.
     bind_result (checked (attr_settype type) attr1) (\<lambda>attr2.
     bind_result (checked (mutex_init attr2) mMutex) (\<lambda>m.
     bind_result (checked attr_destroy attr2) (\<lambda>_. Inr m))))"

definition MutexBase_dtor :: "'m pthread_fn \<Rightarrow> 'm \<Rightarrow> 'm result" where
  "MutexBase_dtor pthread_mutex_destroy = checked pthread_mutex_destroy"

definition MutexBase_Lock :: "'m pthread_fn \<Rightarrow> 'm \<Rightarrow> 'm result" where
  "MutexBase_Lock pthread_mutex_lock = checked pthread_mutex_lock"

definition MutexBase_Unlock :: "'m pthread_fn \<Rightarrow> 'm \<Rightarrow> 'm result" where
  "MutexBase_Unlock pthread_mutex_unlock = checked pthread_mutex_unlock"

definition MutexBase_IsLocked :: "int \<Rightarrow> bool" where
  \<comment> \<open>on the member \<open>__data.__lock\<close> of the pthread object\<close>
  "MutexBase_IsLocked lock \<longleftrightarrow> lock > 0"

text \<open>The constants of \<^verbatim>\<open>pthread.h\<close> that select the kind of a mutex and of a reader-writer lock.\<close>

definition PTHREAD_MUTEX_NORMAL :: int where "PTHREAD_MUTEX_NORMAL = 0"
definition PTHREAD_MUTEX_RECURSIVE :: int where "PTHREAD_MUTEX_RECURSIVE = 1"
definition PTHREAD_MUTEX_ERRORCHECK :: int where "PTHREAD_MUTEX_ERRORCHECK = 2"
definition PTHREAD_MUTEX_ADAPTIVE_NP :: int where "PTHREAD_MUTEX_ADAPTIVE_NP = 3"
definition PTHREAD_RWLOCK_PREFER_READER_NP :: int where "PTHREAD_RWLOCK_PREFER_READER_NP = 0"
definition PTHREAD_RWLOCK_PREFER_WRITER_NONRECURSIVE_NP :: int where "PTHREAD_RWLOCK_PREFER_WRITER_NONRECURSIVE_NP = 2"
definition PTHREAD_RWLOCK_DEFAULT_NP :: int where "PTHREAD_RWLOCK_DEFAULT_NP = PTHREAD_RWLOCK_PREFER_READER_NP"

definition SimpleMutex_new ::
  "('a pthread_fn) \<Rightarrow> (int \<Rightarrow> 'a pthread_fn) \<Rightarrow> ('a \<Rightarrow> 'm pthread_fn) \<Rightarrow> ('a pthread_fn) \<Rightarrow> 'a \<Rightarrow> 'm \<Rightarrow> 'm result" where
  "SimpleMutex_new attr_init attr_settype mutex_init attr_destroy =
     MutexBase_new attr_init attr_settype mutex_init attr_destroy PTHREAD_MUTEX_NORMAL"

definition RestrictMutex_new ::
  "('a pthread_fn) \<Rightarrow> (int \<Rightarrow> 'a pthread_fn) \<Rightarrow> ('a \<Rightarrow> 'm pthread_fn) \<Rightarrow> ('a pthread_fn) \<Rightarrow> 'a \<Rightarrow> 'm \<Rightarrow> 'm result" where
  "RestrictMutex_new attr_init attr_settype mutex_init attr_destroy =
     MutexBase_new attr_init attr_settype mutex_init attr_destroy PTHREAD_MUTEX_ERRORCHECK"

definition RecursiveMutex_new ::
  "('a pthread_fn) \<Rightarrow> (int \<Rightarrow> 'a pthread_fn) \<Rightarrow> ('a \<Rightarrow> 'm pthread_fn) \<Rightarrow> ('a pthread_fn) \<Rightarrow> 'a \<Rightarrow> 'm \<Rightarrow> 'm result" where
  "RecursiveMutex_new attr_init attr_settype mutex_init attr_destroy =
     MutexBase_new attr_init attr_settype mutex_init attr_destroy PTHREAD_MUTEX_RECURSIVE"

definition AdaptiveMutex_new ::
  "('a pthread_fn) \<Rightarrow> (int \<Rightarrow> 'a pthread_fn) \<Rightarrow> ('a \<Rightarrow> 'm pthread_fn) \<Rightarrow> ('a pthread_fn) \<Rightarrow> 'a \<Rightarrow> 'm \<Rightarrow> 'm result" where
  "AdaptiveMutex_new attr_init attr_settype mutex_init attr_destroy =
     MutexBase_new attr_init attr_settype mutex_init attr_destroy PTHREAD_MUTEX_ADAPTIVE_NP"

definition ScopedLocker_pthread_mutex ::
  "'m pthread_fn \<Rightarrow> 'm pthread_fn \<Rightarrow> ('m \<Rightarrow> ('a \<times> 'm) result) \<Rightarrow> 'm \<Rightarrow> ('a \<times> 'm) result" where
  "ScopedLocker_pthread_mutex pthread_mutex_lock pthread_mutex_unlock body m =
     bind_result (checked pthread_mutex_lock m) (\<lambda>m1. bind_result (body m1) (\<lambda>(out, m2).
       bind_result (checked pthread_mutex_unlock m2) (\<lambda>m3. Inr (out, m3))))"

datatype RWLock_Mode = kModePreferReader | kModePreferWriter | kModeDefault

primrec RWLock_Mode_value :: "RWLock_Mode \<Rightarrow> int" where
  "RWLock_Mode_value kModePreferReader = PTHREAD_RWLOCK_PREFER_READER_NP"
| "RWLock_Mode_value kModePreferWriter = PTHREAD_RWLOCK_PREFER_WRITER_NONRECURSIVE_NP"
| "RWLock_Mode_value kModeDefault = PTHREAD_RWLOCK_DEFAULT_NP"

definition RWLock_new ::
  "('a pthread_fn) \<Rightarrow> (int \<Rightarrow> 'a pthread_fn) \<Rightarrow> ('a \<Rightarrow> 'm pthread_fn) \<Rightarrow> ('a pthread_fn) \<Rightarrow> RWLock_Mode \<Rightarrow> 'a \<Rightarrow> 'm \<Rightarrow> 'm result" where
  "RWLock_new attr_init attr_setkind rwlock_init attr_destroy mode attr mLock =
     bind_result (checked attr_init attr) (\<lambda>attr1.
     bind_result (checked (attr_setkind (RWLock_Mode_value mode)) attr1) (\<lambda>attr2.
     bind_result (checked (rwlock_init attr2) mLock) (\<lambda>m.
     bind_result (checked attr_destroy attr2) (\<lambda>_. Inr m))))"

definition RWLock_dtor :: "'m pthread_fn \<Rightarrow> 'm \<Rightarrow> 'm result" where
  "RWLock_dtor pthread_rwlock_destroy = checked pthread_rwlock_destroy"

definition RWLock_ReadLock :: "'m pthread_fn \<Rightarrow> 'm \<Rightarrow> 'm result" where
  "RWLock_ReadLock pthread_rwlock_rdlock = checked pthread_rwlock_rdlock"

definition RWLock_WriteLock :: "'m pthread_fn \<Rightarrow> 'm \<Rightarrow> 'm result" where
  "RWLock_WriteLock pthread_rwlock_wrlock = checked pthread_rwlock_wrlock"

definition RWLock_TryReadLock :: "'m pthread_fn \<Rightarrow> 'm \<Rightarrow> (bool \<times> 'm) result" where
  "RWLock_TryReadLock pthread_rwlock_tryrdlock m =
     (let (status, m') = pthread_rwlock_tryrdlock m
      in bind_result (CheckPthreadTryLockError status) (\<lambda>b. Inr (b, m')))"

definition RWLock_TryWriteLock :: "'m pthread_fn \<Rightarrow> 'm \<Rightarrow> (bool \<times> 'm) result" where
  "RWLock_TryWriteLock pthread_rwlock_trywrlock m =
     (let (status, m') = pthread_rwlock_trywrlock m
      in bind_result (CheckPthreadTryLockError status) (\<lambda>b. Inr (b, m')))"

definition RWLock_Unlock :: "'m pthread_fn \<Rightarrow> 'm \<Rightarrow> 'm result" where
  "RWLock_Unlock pthread_rwlock_unlock = checked pthread_rwlock_unlock"

definition RWLock_ReadUnlock :: "'m pthread_fn \<Rightarrow> 'm \<Rightarrow> 'm result" where
  "RWLock_ReadUnlock pthread_rwlock_unlock = RWLock_Unlock pthread_rwlock_unlock"

definition RWLock_WriteUnlock :: "'m pthread_fn \<Rightarrow> 'm \<Rightarrow> 'm result" where
  "RWLock_WriteUnlock pthread_rwlock_unlock = RWLock_Unlock pthread_rwlock_unlock"

section \<open>SpinRWLock\<close>

text \<open>The lock is the word \<open>mQuota\<close>; it is an \<open>int\<close>, so it is read with \<^const>\<open>sint\<close>.\<close>

definition kInitQuota :: u32 where
  "kInitQuota = 0x01000000"

definition kWrite :: u32 where
  "kWrite = 0x01000000"

definition kRead :: u32 where
  "kRead = 0x00000001"

definition SpinRWLock_new :: "u32 \<Rightarrow> u32" where
  "SpinRWLock_new mQuota = AtomicSet mQuota kInitQuota"

definition SpinRWLock_TryReadLock :: "u32 \<Rightarrow> bool \<times> u32" where
  "SpinRWLock_TryReadLock mQuota =
     (let (v, q) = AtomicSub mQuota kRead
      in if 0 \<le> sint v then (True, q) else (False, snd (AtomicAdd q kRead)))"

definition SpinRWLock_TryWriteLock :: "u32 \<Rightarrow> bool \<times> u32" where
  "SpinRWLock_TryWriteLock mQuota =
     (let (v, q) = AtomicSub mQuota kWrite
      in if 0 \<le> sint v then (True, q) else (False, snd (AtomicAdd q kWrite)))"

definition SpinRWLock_ReadUnlock :: "u32 \<Rightarrow> u32" where
  "SpinRWLock_ReadUnlock mQuota = snd (AtomicAdd mQuota kRead)"

definition SpinRWLock_WriteUnlock :: "u32 \<Rightarrow> u32" where
  "SpinRWLock_WriteUnlock mQuota = snd (AtomicAdd mQuota kWrite)"

partial_function (option) SpinRWLock_ReadLock :: "u32 \<Rightarrow> u32 option" where
  \<comment> \<open>the loop of one thread while no other thread runs; \<open>None\<close> is a loop that does not end\<close>
  "SpinRWLock_ReadLock mQuota =
     (let (ok, q) = SpinRWLock_TryReadLock mQuota in if ok then Some q else SpinRWLock_ReadLock q)"

partial_function (option) SpinRWLock_WriteLock :: "u32 \<Rightarrow> u32 option" where
  "SpinRWLock_WriteLock mQuota =
     (let (ok, q) = SpinRWLock_TryWriteLock mQuota in if ok then Some q else SpinRWLock_WriteLock q)"


section \<open>What scoped lockers rely on\<close>

lemma scoped_lock_loop_once: "scoped_lock_loop False stmt s = stmt s"
  by (cases "stmt s") (simp_all add: scoped_lock_loop.simps)

lemma MutexBase_new_result:
  \<comment> \<open>a mutex of the given kind, or an abort when one of the four calls fails\<close>
  "MutexBase_new attr_init attr_settype mutex_init attr_destroy type attr m =
     (let (c1, a1) = attr_init attr; (c2, a2) = attr_settype type a1; (c3, m1) = mutex_init a2 m; (c4, a3) = attr_destroy a2
      in if c1 = 0 \<and> c2 = 0 \<and> c3 = 0 \<and> c4 = 0 then Inr m1 else Inl Abort)"
  by (simp add: MutexBase_new_def checked_def CheckPthreadError_def split: prod.splits)

lemma mutex_kinds_differ:
  "distinct [PTHREAD_MUTEX_NORMAL, PTHREAD_MUTEX_RECURSIVE, PTHREAD_MUTEX_ERRORCHECK, PTHREAD_MUTEX_ADAPTIVE_NP]"
  by (simp add: PTHREAD_MUTEX_NORMAL_def PTHREAD_MUTEX_RECURSIVE_def PTHREAD_MUTEX_ERRORCHECK_def PTHREAD_MUTEX_ADAPTIVE_NP_def)

locale lockable =
  fixes Lock :: "'s \<Rightarrow> 's result" and Unlock :: "'s \<Rightarrow> 's result"
    and available :: "'s \<Rightarrow> bool" and held :: "'s \<Rightarrow> bool"
  assumes Lock_available: "available s \<Longrightarrow> \<exists>s'. Lock s = Inr s' \<and> held s'"
    and Unlock_held: "held s \<Longrightarrow> \<exists>s'. Unlock s = Inr s' \<and> available s'"
begin

lemma scoped_section:
  assumes "available s" and "\<forall>s. held s \<longrightarrow> (\<exists>out s'. body s = Inr (out, s') \<and> held s')"
  shows "\<exists>s1 out s2 s3. Lock s = Inr s1 \<and> held s1 \<and> body s1 = Inr (out, s2) \<and>
    ScopedLocker Lock Unlock body s = Inr (out, s3) \<and> available s3"
proof -
  obtain s1 where s1: "Lock s = Inr s1" "held s1" using Lock_available [OF assms(1)] by blast
  obtain out s2 where s2: "body s1 = Inr (out, s2)" "held s2" using assms(2) s1(2) by blast
  obtain s3 where "Unlock s2 = Inr s3" "available s3" using Unlock_held [OF s2(2)] by blast
  then show ?thesis using s1 s2 by (simp add: ScopedLocker_def)
qed

lemma unscoped_section:
  assumes "held s" and "\<forall>s. available s \<longrightarrow> (\<exists>out s'. body s = Inr (out, s') \<and> available s')"
  shows "\<exists>out s3. ScopedUnlocker Lock Unlock body s = Inr (out, s3) \<and> held s3"
proof -
  obtain s1 where s1: "Unlock s = Inr s1" "available s1" using Unlock_held [OF assms(1)] by blast
  obtain out s2 where s2: "body s1 = Inr (out, s2)" "available s2" using assms(2) s1(2) by blast
  obtain s3 where "Lock s2 = Inr s3" "held s3" using Lock_available [OF s2(2)] by blast
  then show ?thesis using s1 s2 by (simp add: ScopedUnlocker_def)
qed

end

interpretation null_lock: lockable NullLock_Lock NullLock_Unlock "\<lambda>l. \<not> NullLock_IsLocked l" NullLock_IsLocked
  by unfold_locales (simp_all add: NullLock_Lock_def NullLock_Unlock_def NullLock_IsLocked_def)

subsection \<open>SpinRWLock without contention\<close>

definition spin_result :: "u32 option \<Rightarrow> u32 result" where
  "spin_result r = (case r of None \<Rightarrow> Inl No_return | Some q \<Rightarrow> Inr q)"

definition readers_quota :: "nat \<Rightarrow> u32" where
  \<comment> \<open>the quota while \<open>r\<close> readers hold the lock\<close>
  "readers_quota r = kInitQuota - of_nat r"

lemma sint_readers_quota:
  assumes "r \<le> 2 ^ 24"
  shows "readers_quota r = of_nat (2 ^ 24 - r)" and "sint (readers_quota r) = 2 ^ 24 - int r"
proof -
  show "readers_quota r = of_nat (2 ^ 24 - r)"
    using assms by (simp add: readers_quota_def kInitQuota_def of_nat_diff)
  then have "sint (readers_quota r) = int (2 ^ 24 - r)"
    using sint_of_nat_small [where 'a = 32, of "2 ^ 24 - r"] by simp
  then show "sint (readers_quota r) = 2 ^ 24 - int r" using assms by simp
qed

lemma try_lock_unfold:
  "SpinRWLock_TryReadLock q = (if 0 \<le> sint (q - kRead) then (True, q - kRead) else (False, q))"
  "SpinRWLock_TryWriteLock q = (if 0 \<le> sint (q - kWrite) then (True, q - kWrite) else (False, q))"
  by (simp_all add: SpinRWLock_TryReadLock_def SpinRWLock_TryWriteLock_def stone_defs)

lemma sint_below_kWrite:
  assumes "r \<le> 2 ^ 24"
  shows "0 \<le> sint (readers_quota r - kWrite) \<longleftrightarrow> r = 0"
proof -
  have "readers_quota r - kWrite = - of_nat r" by (simp add: readers_quota_def kInitQuota_def kWrite_def)
  moreover have "sint (- of_nat r :: u32) = - int r"
    using sint_u32_of_int [of "- int r"] assms by simp
  ultimately show ?thesis by simp
qed


lemma try_read_readers:
  assumes "r \<le> 2 ^ 24"
  shows "SpinRWLock_TryReadLock (readers_quota r) =
    (if r < 2 ^ 24 then (True, readers_quota (r + 1)) else (False, readers_quota r))"
proof -
  have e: "readers_quota r - kRead = readers_quota (r + 1)"
    by (simp add: readers_quota_def kRead_def)
  show ?thesis
  proof (cases "r < 2 ^ 24")
    case True
    then have "0 \<le> sint (readers_quota (r + 1))"
      using sint_readers_quota(2) [of "r + 1"] by simp
    then show ?thesis using True by (simp add: try_lock_unfold e)
  next
    case False
    then have "r = 2 ^ 24" using assms by simp
    then have "readers_quota (r + 1) = of_int (- 1)"
      by (simp add: readers_quota_def kInitQuota_def)
    then have "sint (readers_quota (r + 1)) = - 1" by (simp only: sint_u32_of_int)
    then show ?thesis using False by (simp add: try_lock_unfold e)
  qed
qed

lemma try_write_readers:
  assumes "r \<le> 2 ^ 24"
  shows "SpinRWLock_TryWriteLock (readers_quota r) = (if r = 0 then (True, 0) else (False, readers_quota r))"
  using sint_below_kWrite [OF assms]
  by (simp add: try_lock_unfold) (simp add: readers_quota_def kInitQuota_def kWrite_def)

lemma try_locks_held:
  "SpinRWLock_TryReadLock 0 = (False, 0)" "SpinRWLock_TryWriteLock 0 = (False, 0)"
proof -
  have "sint (0 - kRead) = - 1" using sint_u32_of_int [of "- 1"] by (simp add: kRead_def)
  moreover have "sint (0 - kWrite) = - 16777216" using sint_u32_of_int [of "- 16777216"] by (simp add: kWrite_def)
  ultimately show "SpinRWLock_TryReadLock 0 = (False, 0)" "SpinRWLock_TryWriteLock 0 = (False, 0)"
    by (simp_all only: try_lock_unfold) simp_all
qed

lemma readers_quota_eq_0: "readers_quota (2 ^ 24) = 0" "readers_quota 0 = kInitQuota"
  by (simp_all add: readers_quota_def kInitQuota_def)

interpretation spin_writer: lockable
    "\<lambda>q. spin_result (SpinRWLock_WriteLock q)" "\<lambda>q. Inr (SpinRWLock_WriteUnlock q)"
    "\<lambda>q. q = readers_quota 0" "\<lambda>q. q = 0"
proof
  show "\<exists>s'. spin_result (SpinRWLock_WriteLock s) = Inr s' \<and> s' = 0" if "s = readers_quota 0" for s
    using that try_write_readers [of 0] by (subst SpinRWLock_WriteLock.simps) (simp add: spin_result_def)
  show "\<exists>s'. Inr (SpinRWLock_WriteUnlock s) = (Inr s' :: u32 result) \<and> s' = readers_quota 0" if "s = 0" for s
    using that by (simp add: SpinRWLock_WriteUnlock_def stone_defs readers_quota_eq_0 kWrite_def kInitQuota_def)
qed

interpretation spin_reader: lockable
    "\<lambda>q. spin_result (SpinRWLock_ReadLock q)" "\<lambda>q. Inr (SpinRWLock_ReadUnlock q)"
    "\<lambda>q. r < 2 ^ 24 \<and> q = readers_quota r" "\<lambda>q. r < 2 ^ 24 \<and> q = readers_quota (r + 1)"
  for r
proof
  show "\<exists>s'. spin_result (SpinRWLock_ReadLock s) = Inr s' \<and> r < 2 ^ 24 \<and> s' = readers_quota (r + 1)"
    if "r < 2 ^ 24 \<and> s = readers_quota r" for s
    using that try_read_readers [of r]
    by (subst SpinRWLock_ReadLock.simps) (simp add: spin_result_def)
  show "\<exists>s'. Inr (SpinRWLock_ReadUnlock s) = (Inr s' :: u32 result) \<and> r < 2 ^ 24 \<and> s' = readers_quota r"
    if "r < 2 ^ 24 \<and> s = readers_quota (r + 1)" for s
    using that by (simp add: SpinRWLock_ReadUnlock_def stone_defs readers_quota_def kRead_def)
qed

section \<open>Properties of the locks\<close>

text \<open>
  The scoped-lock macros run the statement after them exactly once, between locking and unlocking, and
  the scope of a \<open>ScopedLocker\<close> on a free \<open>SpinRWLock\<close> (a writer, or a reader beside fewer than \<open>2^24\<close>
  others) or \<open>NullLock\<close> runs its block with the lock held and leaves the lock as it found it.
\<close>

theorem scoped_lock_runs_once:
  assumes "\<forall>q. \<exists>out. wbody q = Inr (out, q)" and "\<forall>l. \<exists>out. nbody l = Inr (out, l)" and "r < 2 ^ 24"
  shows "STONE_SCOPED_LOCK_X Lock Unlock stmt s = bind_result (Lock s) (\<lambda>s1. bind_result (stmt s1) Unlock) \<and>
    (\<exists>out. wbody 0 = Inr (out, 0) \<and> ScopedLocker (\<lambda>q. spin_result (SpinRWLock_WriteLock q))
       (\<lambda>q. Inr (SpinRWLock_WriteUnlock q)) wbody (SpinRWLock_new q0) = Inr (out, SpinRWLock_new q0)) \<and>
    (\<exists>out. wbody (readers_quota (r + 1)) = Inr (out, readers_quota (r + 1)) \<and>
       ScopedLocker (\<lambda>q. spin_result (SpinRWLock_ReadLock q))
       (\<lambda>q. Inr (SpinRWLock_ReadUnlock q)) wbody (readers_quota r) = Inr (out, readers_quota r)) \<and>
    (\<exists>out l. ScopedLocker NullLock_Lock NullLock_Unlock nbody NullLock_new = Inr (out, l) \<and> \<not> NullLock_IsLocked l)"
proof (intro conjI)
  show "STONE_SCOPED_LOCK_X Lock Unlock stmt s = bind_result (Lock s) (\<lambda>s1. bind_result (stmt s1) Unlock)"
    by (auto simp: STONE_SCOPED_LOCK_X_def ScopedLocker_def scoped_lock_loop_once bind_result_def split: sum.splits)
  have keep: "\<exists>out. wbody q = Inr (out, q)" for q using assms(1) by blast
  have "SpinRWLock_new q0 = readers_quota 0" by (simp add: SpinRWLock_new_def readers_quota_eq_0 stone_defs)
  then show "\<exists>out. wbody 0 = Inr (out, 0) \<and> ScopedLocker (\<lambda>q. spin_result (SpinRWLock_WriteLock q))
       (\<lambda>q. Inr (SpinRWLock_WriteUnlock q)) wbody (SpinRWLock_new q0) = Inr (out, SpinRWLock_new q0)"
    using spin_writer.scoped_section [of "readers_quota 0" wbody] keep [of 0] by auto
  show "\<exists>out. wbody (readers_quota (r + 1)) = Inr (out, readers_quota (r + 1)) \<and>
       ScopedLocker (\<lambda>q. spin_result (SpinRWLock_ReadLock q))
       (\<lambda>q. Inr (SpinRWLock_ReadUnlock q)) wbody (readers_quota r) = Inr (out, readers_quota r)"
    using spin_reader.scoped_section [of r "readers_quota r" wbody] keep [of "readers_quota (r + 1)"] assms(3)
    by auto
  show "\<exists>out l. ScopedLocker NullLock_Lock NullLock_Unlock nbody NullLock_new = Inr (out, l) \<and> \<not> NullLock_IsLocked l"
  proof -
    have "\<forall>l. NullLock_IsLocked l \<longrightarrow> (\<exists>out l'. nbody l = Inr (out, l') \<and> NullLock_IsLocked l')"
      using assms(2) by metis
    then show ?thesis
      using null_lock.scoped_section [of NullLock_new nbody] by (auto simp: NullLock_IsLocked_def NullLock_new_def)
  qed
qed

theorem scoped_lock_runs_once_witness:
  "ScopedLocker (\<lambda>q. spin_result (SpinRWLock_WriteLock q)) (\<lambda>q. Inr (SpinRWLock_WriteUnlock q))
     (\<lambda>q. Inr (7 :: nat, q)) (SpinRWLock_new 0) = Inr (7, SpinRWLock_new 0)"
  using scoped_lock_runs_once [of "\<lambda>q. Inr (7 :: nat, q)" "\<lambda>l. Inr ((), l)" 0 Inr Inr Inr "()" 0]
  by auto

text \<open>
  One thread at a time, the quota of a \<open>SpinRWLock\<close> decides exactly as a reader-writer lock should: with
  \<open>r\<close> readers inside, another reader gets in while \<open>r < 2^24\<close>, a writer gets in only when \<open>r = 0\<close>; with a
  writer inside nobody gets in; and an attempt that fails leaves the quota as it was.
\<close>

theorem spin_rwlock_try_locks:
  assumes "r \<le> 2 ^ 24"
  shows "SpinRWLock_TryReadLock (readers_quota r) =
      (if r < 2 ^ 24 then (True, readers_quota (r + 1)) else (False, readers_quota r)) \<and>
    SpinRWLock_TryWriteLock (readers_quota r) = (if r = 0 then (True, 0) else (False, readers_quota r)) \<and>
    SpinRWLock_TryReadLock 0 = (False, 0) \<and> SpinRWLock_TryWriteLock 0 = (False, 0) \<and>
    SpinRWLock_ReadUnlock (readers_quota (r + 1)) = readers_quota r \<and>
    SpinRWLock_WriteUnlock 0 = readers_quota 0 \<and> SpinRWLock_new q = readers_quota 0"
  using try_read_readers [OF assms] try_write_readers [OF assms] try_locks_held
  by (simp add: SpinRWLock_ReadUnlock_def SpinRWLock_WriteUnlock_def SpinRWLock_new_def stone_defs
      readers_quota_def kRead_def kWrite_def kInitQuota_def)

theorem spin_rwlock_try_locks_witness:
  "SpinRWLock_TryReadLock (readers_quota 3) = (True, readers_quota 4) \<and>
   SpinRWLock_TryWriteLock (readers_quota 3) = (False, readers_quota 3)"
  using spin_rwlock_try_locks [of 3 0] by simp

text \<open>
  Every failure of a pthread call ends the program, except that a try-lock of \<open>RWLock\<close> answers \<open>false\<close>
  when the status is \<open>EBUSY\<close>: it answers \<open>true\<close> for status 0 and aborts for every other status.
\<close>

theorem pthread_status_handling:
  "checked f m = (if fst (f m) = 0 then Inr (snd (f m)) else Inl Abort) \<and>
   RWLock_TryReadLock f m = (if fst (f m) = 0 then Inr (True, snd (f m))
     else if fst (f m) = EBUSY then Inr (False, snd (f m)) else Inl Abort) \<and>
   RWLock_TryWriteLock f m = RWLock_TryReadLock f m \<and>
   RWLock_ReadUnlock f m = checked f m \<and> RWLock_WriteUnlock f m = checked f m"
  by (simp add: checked_def CheckPthreadError_def CheckPthreadTryLockError_def RWLock_TryReadLock_def
      RWLock_TryWriteLock_def RWLock_ReadUnlock_def RWLock_WriteUnlock_def RWLock_Unlock_def split_beta)

end
