(* ===== verification/Stone_Spin_RWLock.thy ===== *)
theory Stone_Spin_RWLock
  imports Stone_Lock
begin

text \<open>
  \<^verbatim>\<open>threading/sync/lock.h\<close>: \<open>SpinRWLock\<close> used by \<open>N\<close> threads at once. Each atomic operation of the source is
  one step: the subtraction of an attempt, the addition that takes a failed attempt back, and the addition
  of an unlock. Between these steps the other threads run. A thread is \<open>Idle\<close> outside of the lock (also
  while it yields between two attempts), in a backoff phase between a failed subtraction and its repair,
  or inside as a reader or the writer. The quota is an \<open>int\<close>, whose arithmetic is undefined when it overflows; the words wrap around instead,
  and \<open>spin_rwlock_no_overflow\<close> shows for how many threads that makes no difference.
\<close>

section \<open>The step relation\<close>

datatype phase = Idle | Read_backoff | Reading | Write_backoff | Writing

record rwstate =
  quota :: u32
  pc :: "nat \<Rightarrow> phase"

definition rw_init :: "u32 \<Rightarrow> rwstate" where
  "rw_init q0 = \<lparr>quota = SpinRWLock_new q0, pc = (\<lambda>_. Idle)\<rparr>"

definition try_read_step :: "nat \<Rightarrow> rwstate \<Rightarrow> rwstate" where
  \<comment> \<open>the condition of \<open>TryReadLock\<close>\<close>
  "try_read_step t s = (let (v, q) = AtomicSub (quota s) kRead
     in s\<lparr>quota := q, pc := (pc s)(t := if 0 \<le> sint v then Reading else Read_backoff)\<rparr>)"

definition undo_read_step :: "nat \<Rightarrow> rwstate \<Rightarrow> rwstate" where
  "undo_read_step t s = s\<lparr>quota := snd (AtomicAdd (quota s) kRead), pc := (pc s)(t := Idle)\<rparr>"

definition read_unlock_step :: "nat \<Rightarrow> rwstate \<Rightarrow> rwstate" where
  "read_unlock_step t s = s\<lparr>quota := SpinRWLock_ReadUnlock (quota s), pc := (pc s)(t := Idle)\<rparr>"

definition try_write_step :: "nat \<Rightarrow> rwstate \<Rightarrow> rwstate" where
  "try_write_step t s = (let (v, q) = AtomicSub (quota s) kWrite
     in s\<lparr>quota := q, pc := (pc s)(t := if 0 \<le> sint v then Writing else Write_backoff)\<rparr>)"

definition undo_write_step :: "nat \<Rightarrow> rwstate \<Rightarrow> rwstate" where
  "undo_write_step t s = s\<lparr>quota := snd (AtomicAdd (quota s) kWrite), pc := (pc s)(t := Idle)\<rparr>"

definition write_unlock_step :: "nat \<Rightarrow> rwstate \<Rightarrow> rwstate" where
  "write_unlock_step t s = s\<lparr>quota := SpinRWLock_WriteUnlock (quota s), pc := (pc s)(t := Idle)\<rparr>"

inductive rw_step :: "nat \<Rightarrow> rwstate \<Rightarrow> rwstate \<Rightarrow> bool" for N where
  try_read: "t < N \<Longrightarrow> pc s t = Idle \<Longrightarrow> rw_step N s (try_read_step t s)"
| undo_read: "t < N \<Longrightarrow> pc s t = Read_backoff \<Longrightarrow> rw_step N s (undo_read_step t s)"
| read_unlock: "t < N \<Longrightarrow> pc s t = Reading \<Longrightarrow> rw_step N s (read_unlock_step t s)"
| try_write: "t < N \<Longrightarrow> pc s t = Idle \<Longrightarrow> rw_step N s (try_write_step t s)"
| undo_write: "t < N \<Longrightarrow> pc s t = Write_backoff \<Longrightarrow> rw_step N s (undo_write_step t s)"
| write_unlock: "t < N \<Longrightarrow> pc s t = Writing \<Longrightarrow> rw_step N s (write_unlock_step t s)"

inductive rw_reach :: "nat \<Rightarrow> u32 \<Rightarrow> rwstate \<Rightarrow> bool" for N q0 where
  reach_init: "rw_reach N q0 (rw_init q0)"
| reach_step: "rw_reach N q0 s \<Longrightarrow> rw_step N s s' \<Longrightarrow> rw_reach N q0 s'"

lemmas rw_step_defs = try_read_step_def undo_read_step_def read_unlock_step_def
  try_write_step_def undo_write_step_def write_unlock_step_def
  SpinRWLock_ReadUnlock_def SpinRWLock_WriteUnlock_def

section \<open>Counting threads\<close>

definition threads :: "nat \<Rightarrow> (phase \<Rightarrow> bool) \<Rightarrow> (nat \<Rightarrow> phase) \<Rightarrow> nat" where
  "threads N P f = (\<Sum>t<N. if P (f t) then 1 else 0)"

definition readish :: "phase \<Rightarrow> bool" where
  "readish p \<longleftrightarrow> p = Reading \<or> p = Read_backoff"

definition writish :: "phase \<Rightarrow> bool" where
  "writish p \<longleftrightarrow> p = Writing \<or> p = Write_backoff"

lemma threads_upd:
  assumes "t < N"
  shows "threads N P (f(t := x)) + (if P (f t) then 1 else 0) = threads N P f + (if P x then 1 else 0)"
proof -
  have "threads N P g = (if P (g t) then 1 else 0) + (\<Sum>u \<in> {..<N} - {t}. if P (g u) then 1 else 0)" for g
    using assms by (simp add: threads_def sum.remove [of _ t])
  moreover have "(\<Sum>u \<in> {..<N} - {t}. if P ((f(t := x)) u) then 1 else 0) = (\<Sum>u \<in> {..<N} - {t}. if P (f u) then 1 else 0 :: nat)"
    by (rule sum.cong) auto
  ultimately show ?thesis by simp
qed

lemma threads_pos: "t < N \<Longrightarrow> P (f t) \<Longrightarrow> 1 \<le> threads N P f"
  using threads_upd [of t N P f "f t"] by (simp add: threads_def sum.remove [of _ t])

lemma threads_two:
  assumes "t < N" and "u < N" and "t \<noteq> u" and "P (f t)" and "P (f u)"
  shows "2 \<le> threads N P f"
proof -
  have "(\<Sum>v \<in> {t, u}. if P (f v) then 1 else 0) \<le> threads N P f"
    unfolding threads_def by (rule sum_mono2) (use assms in auto)
  then show ?thesis using assms by simp
qed

lemma threads_disjoint:
  assumes "\<And>p. \<not> (P p \<and> Q p)"
  shows "threads N P f + threads N Q f \<le> N"
proof -
  have "threads N P f + threads N Q f = (\<Sum>t<N. (if P (f t) then 1 else 0) + (if Q (f t) then 1 else 0))"
    by (simp add: threads_def sum.distrib)
  also have "\<dots> \<le> (\<Sum>t<N. 1)" by (rule sum_mono) (use assms in auto)
  finally show ?thesis by simp
qed

section \<open>The quota counts the threads in and around the lock\<close>

definition quota_of :: "nat \<Rightarrow> nat \<Rightarrow> int" where
  "quota_of r w = 2 ^ 24 - int r - int w * 2 ^ 24"

definition quota_inv :: "nat \<Rightarrow> rwstate \<Rightarrow> bool" where
  "quota_inv N s \<longleftrightarrow> quota s = of_int (quota_of (threads N readish (pc s)) (threads N writish (pc s)))"

lemma quota_inv_init: "quota_inv N (rw_init q0)"
  by (simp add: quota_inv_def rw_init_def threads_def quota_of_def readish_def writish_def
      SpinRWLock_new_def kInitQuota_def stone_defs)

definition cost :: "phase \<Rightarrow> int" where
  "cost p = (if readish p then 1 else 0) + (if writish p then 2 ^ 24 else 0)"

lemma quota_inv_upd:
  assumes "quota_inv N s" and "t < N" and "q = quota s + of_int (cost (pc s t) - cost x)"
  shows "quota_inv N (s\<lparr>quota := q, pc := (pc s)(t := x)\<rparr>)"
proof -
  have "int (threads N readish ((pc s)(t := x))) =
      int (threads N readish (pc s)) + (if readish x then 1 else 0) - (if readish (pc s t) then 1 else 0)"
    using threads_upd [OF assms(2), of readish "pc s" x] by (auto split: if_splits)
  moreover have "int (threads N writish ((pc s)(t := x))) =
      int (threads N writish (pc s)) + (if writish x then 1 else 0) - (if writish (pc s t) then 1 else 0)"
    using threads_upd [OF assms(2), of writish "pc s" x] by (auto split: if_splits)
  ultimately have "quota_of (threads N readish ((pc s)(t := x))) (threads N writish ((pc s)(t := x))) =
      quota_of (threads N readish (pc s)) (threads N writish (pc s)) + (cost (pc s t) - cost x)"
    unfolding quota_of_def cost_def by (simp only:) simp
  then show ?thesis using assms(1,3) by (simp add: quota_inv_def del: of_int_add of_int_diff) (simp only: of_int_add)
qed

lemmas cost_simps = cost_def readish_def writish_def kRead_def kWrite_def

lemma quota_inv_step:
  assumes "rw_step N s s'" and "quota_inv N s"
  shows "quota_inv N s'"
  using assms
  by (induction rule: rw_step.cases)
     (auto simp: rw_step_defs stone_defs Let_def cost_simps intro!: quota_inv_upd)

section \<open>Mutual exclusion\<close>

definition exclusion :: "nat \<Rightarrow> rwstate \<Rightarrow> bool" where
  "exclusion N s \<longleftrightarrow> (\<forall>t < N. pc s t = Writing \<longrightarrow> (\<forall>u < N. u \<noteq> t \<longrightarrow> pc s u \<noteq> Reading \<and> pc s u \<noteq> Writing))"

lemma quota_in_range:
  assumes "quota_inv N s" and "N \<le> 129"
  shows "sint (quota s) = quota_of (threads N readish (pc s)) (threads N writish (pc s))"
proof -
  have "threads N readish (pc s) + threads N writish (pc s) \<le> 129"
  proof -
    have "\<not> (readish p \<and> writish p)" for p by (cases p) (simp_all add: readish_def writish_def)
    then show ?thesis using threads_disjoint [of readish writish N "pc s"] assms(2) by simp
  qed
  then have "quota_of (threads N readish (pc s)) (threads N writish (pc s)) \<ge> - 2147483648"
      "quota_of (threads N readish (pc s)) (threads N writish (pc s)) < 2147483648"
    by (simp_all add: quota_of_def)
  then show ?thesis using assms(1) by (simp add: quota_inv_def sint_u32_of_int)
qed

lemma enter_quota:
  assumes "quota_of r w \<ge> 0"
  shows "w = 0 \<or> (w = 1 \<and> r = 0)"
proof -
  have "int w * 2 ^ 24 \<le> 2 ^ 24 - int r" using assms by (simp add: quota_of_def)
  then show ?thesis by (cases "w = 0"; cases "w = 1") auto
qed

lemma exclusion_step:
  assumes "rw_step N s s'" and "exclusion N s" and "quota_inv N s'" and "N \<le> 129"
  shows "exclusion N s'"
proof -
  have *: "sint (quota s') = quota_of (threads N readish (pc s')) (threads N writish (pc s'))"
    by (rule quota_in_range [OF assms(3,4)])
  have enter: "exclusion N s'" if "0 \<le> sint (quota s')" "t < N" "readish (pc s' t) \<or> writish (pc s' t)" for t
  proof -
    have "threads N writish (pc s') = 0 \<or> threads N writish (pc s') = 1 \<and> threads N readish (pc s') = 0"
      using enter_quota that(1) * by simp
    then show ?thesis
      using threads_pos [of _ N writish "pc s'"] threads_pos [of _ N readish "pc s'"] threads_two [of _ N _ writish "pc s'"]
      unfolding exclusion_def readish_def writish_def by (metis One_nat_def Suc_1 not_less_eq_eq order_refl zero_neq_one le_zero_eq)
  qed
  from assms(1) show ?thesis
  proof cases
    case (try_read t)
    then show ?thesis
      using enter [of t] assms(2)
      by (auto simp: try_read_step_def AtomicSub_def exclusion_def readish_def Let_def split: if_splits prod.splits)
  next
    case (try_write t)
    then show ?thesis
      using enter [of t] assms(2)
      by (auto simp: try_write_step_def AtomicSub_def exclusion_def writish_def Let_def split: if_splits prod.splits)
  qed (use assms(2) in \<open>auto simp: exclusion_def rw_step_defs\<close>)
qed

lemma reach_invariants:
  assumes "rw_reach N q0 s" and "N \<le> 129"
  shows "quota_inv N s \<and> exclusion N s"
  using assms(1)
proof induction
  case reach_init
  then show ?case using quota_inv_init by (simp add: exclusion_def rw_init_def)
next
  case (reach_step s s')
  then show ?case using quota_inv_step exclusion_step assms(2) by blast
qed


section \<open>Progress\<close>

lemma retreat_step:
  assumes "t < N" and "pc s t \<noteq> Idle"
  shows "\<exists>s'. rw_step N s s' \<and> pc s' = (pc s)(t := Idle)"
proof (cases "pc s t")
  case Read_backoff
  then show ?thesis using rw_step.undo_read [OF assms(1), of s] by (intro exI [of _ "undo_read_step t s"]) (simp add: undo_read_step_def)
next
  case Reading
  then show ?thesis using rw_step.read_unlock [OF assms(1), of s] by (intro exI [of _ "read_unlock_step t s"]) (simp add: read_unlock_step_def)
next
  case Write_backoff
  then show ?thesis using rw_step.undo_write [OF assms(1), of s] by (intro exI [of _ "undo_write_step t s"]) (simp add: undo_write_step_def)
next
  case Writing
  then show ?thesis using rw_step.write_unlock [OF assms(1), of s] by (intro exI [of _ "write_unlock_step t s"]) (simp add: write_unlock_step_def)
qed (use assms(2) in simp)

lemma all_retreat:
  "\<exists>s'. (rw_step N)\<^sup>*\<^sup>* s s' \<and> (\<forall>t < N. pc s' t = Idle)"
proof (induction "threads N (\<lambda>p. p \<noteq> Idle) (pc s)" arbitrary: s rule: less_induct)
  case less
  show ?case
  proof (cases "\<exists>t < N. pc s t \<noteq> Idle")
    case True
    then obtain t s1 where s1: "t < N" "pc s t \<noteq> Idle" "rw_step N s s1" "pc s1 = (pc s)(t := Idle)"
      using retreat_step by blast
    then have "threads N (\<lambda>p. p \<noteq> Idle) (pc s1) < threads N (\<lambda>p. p \<noteq> Idle) (pc s)"
      using threads_upd [of t N "\<lambda>p. p \<noteq> Idle" "pc s" Idle] by simp
    then show ?thesis using less s1(3) by (meson converse_rtranclp_into_rtranclp)
  qed auto
qed

lemma reach_steps: "(rw_step N)\<^sup>*\<^sup>* s s' \<Longrightarrow> rw_reach N q0 s \<Longrightarrow> rw_reach N q0 s'"
  by (induction rule: rtranclp_induct) (auto intro: rw_reach.reach_step)

lemma quota_all_idle:
  assumes "quota_inv N s" and "\<forall>t < N. pc s t = Idle"
  shows "quota s = kInitQuota"
  using assms by (simp add: quota_inv_def threads_def readish_def writish_def quota_of_def kInitQuota_def)

section \<open>Properties of SpinRWLock under concurrency\<close>

text \<open>
  C1. Mutual exclusion of \<open>SpinRWLock\<close>: however the atomic steps of up to 129 threads interleave, while a
  thread holds the lock for writing no other thread holds it for reading or writing; and whenever no
  thread is using the lock its quota is the initial one.
\<close>

theorem spin_rwlock_mutual_exclusion:
  assumes "rw_reach N q0 s" and "N \<le> 129" and "t < N" and "u < N" and "t \<noteq> u"
  shows "(pc s t = Writing \<longrightarrow> pc s u \<noteq> Reading \<and> pc s u \<noteq> Writing) \<and>
    ((\<forall>v < N. pc s v = Idle) \<longrightarrow> quota s = kInitQuota)"
  using reach_invariants [OF assms(1,2)] assms(3-5) quota_all_idle [of N s] unfolding exclusion_def by blast

theorem spin_rwlock_mutual_exclusion_witness:
  "pc (try_write_step 0 (rw_init 0)) 0 = Writing \<and> pc (try_write_step 1 (try_write_step 0 (rw_init 0))) 1 \<noteq> Writing"
proof -
  have "rw_reach 2 0 (try_write_step 0 (rw_init 0))"
    by (intro rw_reach.reach_step [OF rw_reach.reach_init] rw_step.try_write) (simp_all add: rw_init_def)
  then have r: "rw_reach 2 0 (try_write_step 1 (try_write_step 0 (rw_init 0)))"
    by (rule rw_reach.reach_step) (rule rw_step.try_write, simp_all add: rw_init_def try_write_step_def split_beta)
  have w: "pc (try_write_step 0 (rw_init 0)) 0 = Writing"
    by (simp add: try_write_step_def rw_init_def SpinRWLock_new_def kInitQuota_def kWrite_def stone_defs)
  then have "pc (try_write_step 1 (try_write_step 0 (rw_init 0))) 0 = Writing"
    by (subst try_write_step_def) (simp add: split_beta)
  then show ?thesis using spin_rwlock_mutual_exclusion [OF r, of 0 1] w by simp
qed

text \<open>
  C12. \<open>SpinRWLock\<close> does not deadlock: from every reachable state of up to 129 threads the threads can go on so
  that any chosen thread holds the lock for writing.
\<close>

theorem spin_rwlock_no_deadlock:
  assumes "rw_reach N q0 s" and "N \<le> 129" and "t < N"
  shows "\<exists>s'. (rw_step N)\<^sup>*\<^sup>* s s' \<and> pc s' t = Writing"
proof -
  obtain s1 where s1: "(rw_step N)\<^sup>*\<^sup>* s s1" "\<forall>v < N. pc s1 v = Idle" using all_retreat by blast
  then have "quota s1 = kInitQuota"
    using reach_invariants [OF reach_steps [OF s1(1) assms(1)] assms(2)] quota_all_idle by blast
  then have "pc (try_write_step t s1) t = Writing"
    by (simp add: try_write_step_def kInitQuota_def kWrite_def stone_defs)
  moreover have "rw_step N s1 (try_write_step t s1)" using s1(2) assms(3) by (auto intro: rw_step.try_write)
  ultimately show ?thesis using s1(1) by (meson rtranclp.rtrancl_into_rtrancl)
qed

theorem spin_rwlock_no_deadlock_witness:
  "\<exists>s'. (rw_step 2)\<^sup>*\<^sup>* (try_write_step 0 (rw_init 0)) s' \<and> pc s' 1 = Writing"
proof -
  have "rw_reach 2 0 (try_write_step 0 (rw_init 0))"
    by (intro rw_reach.reach_step [OF rw_reach.reach_init] rw_step.try_write) (simp_all add: rw_init_def)
  from spin_rwlock_no_deadlock [OF this, of 1] show ?thesis by simp
qed

text \<open>
  The steps are those of the code: an undisturbed \<open>TryReadLock\<close> or \<open>TryWriteLock\<close> of an idle thread is one
  step into the lock when it returns true and two steps (the attempt and its repair) back to idle when it
  returns false, with the quota that the call leaves.
\<close>

theorem try_lock_is_steps:
  assumes "pc s t = Idle"
  shows "(fst (SpinRWLock_TryReadLock (quota s)) \<longrightarrow>
      try_read_step t s = s\<lparr>quota := snd (SpinRWLock_TryReadLock (quota s)), pc := (pc s)(t := Reading)\<rparr>) \<and>
    (\<not> fst (SpinRWLock_TryReadLock (quota s)) \<longrightarrow> pc (try_read_step t s) t = Read_backoff \<and>
      undo_read_step t (try_read_step t s) = s\<lparr>quota := snd (SpinRWLock_TryReadLock (quota s))\<rparr>) \<and>
    (fst (SpinRWLock_TryWriteLock (quota s)) \<longrightarrow>
      try_write_step t s = s\<lparr>quota := snd (SpinRWLock_TryWriteLock (quota s)), pc := (pc s)(t := Writing)\<rparr>) \<and>
    (\<not> fst (SpinRWLock_TryWriteLock (quota s)) \<longrightarrow> pc (try_write_step t s) t = Write_backoff \<and>
      undo_write_step t (try_write_step t s) = s\<lparr>quota := snd (SpinRWLock_TryWriteLock (quota s))\<rparr>)"
proof -
  have [simp]: "(pc s)(t := Idle) = pc s" using assms by auto
  show ?thesis
    by (simp add: rw_step_defs SpinRWLock_TryReadLock_def SpinRWLock_TryWriteLock_def stone_defs)
qed

theorem try_lock_is_steps_witness:
  "pc (try_read_step 0 (rw_init 0)) 0 = Reading"
proof -
  have "fst (SpinRWLock_TryReadLock (quota (rw_init 0)))"
    by (simp add: rw_init_def SpinRWLock_new_def SpinRWLock_TryReadLock_def kInitQuota_def kRead_def stone_defs)
  then show ?thesis using try_lock_is_steps [of "rw_init 0" 0] by (simp add: rw_init_def)
qed

definition crowd :: "nat \<Rightarrow> rwstate" where
  \<comment> \<open>\<open>k\<close> threads have tried to write: thread 0 got in, the others are about to take their attempt back\<close>
  "crowd k = \<lparr>quota = of_int (2 ^ 24 - int k * 2 ^ 24),
     pc = (\<lambda>t. if t = 0 then Writing else if t < k then Write_backoff else Idle)\<rparr>"

lemma crowd_first: "try_write_step 0 (rw_init q0) = crowd 1"
  by (auto simp: try_write_step_def rw_init_def crowd_def SpinRWLock_new_def kInitQuota_def kWrite_def stone_defs)

lemma crowd_next:
  assumes "1 \<le> k" and "k < 129"
  shows "try_write_step k (crowd k) = crowd (k + 1)"
proof -
  have "quota (crowd k) - kWrite = of_int (2 ^ 24 - int (k + 1) * 2 ^ 24)"
    by (simp add: crowd_def kWrite_def)
  moreover have "sint (of_int (2 ^ 24 - int (k + 1) * 2 ^ 24) :: u32) = 2 ^ 24 - int (k + 1) * 2 ^ 24"
    using assms by (intro sint_u32_of_int) simp_all
  ultimately show ?thesis using assms
    by (auto simp: try_write_step_def stone_defs crowd_def fun_eq_iff Let_def simp del: of_int_diff of_int_mult)
qed

lemma crowd_reachable: "1 \<le> k \<Longrightarrow> k \<le> 129 \<Longrightarrow> rw_reach 130 q0 (crowd k)"
proof (induction k rule: nat_induct_at_least)
  case base
  have "rw_step 130 (rw_init q0) (crowd 1)"
    using rw_step.try_write [of 0 130 "rw_init q0"] by (simp add: crowd_first) (simp add: rw_init_def)
  then show ?case using rw_reach.reach_step [OF rw_reach.reach_init] by blast
next
  case (Suc k)
  then have "rw_step 130 (crowd k) (crowd (Suc k))"
    using rw_step.try_write [of k 130 "crowd k"] crowd_next [of k] by (simp add: crowd_def)
  then show ?case using Suc rw_reach.reach_step by simp
qed

definition in_int :: "int \<Rightarrow> bool" where
  "in_int x \<longleftrightarrow> - (2 ^ 31) \<le> x \<and> x < 2 ^ 31"

lemma threads_around: "threads N readish f + threads N writish f + threads N (\<lambda>p. p = Idle) f = N"
proof -
  have "threads N readish f + threads N writish f + threads N (\<lambda>p. p = Idle) f =
      (\<Sum>t<N. (if readish (f t) then 1 else 0) + (if writish (f t) then 1 else 0) + (if f t = Idle then 1 else 0))"
    by (simp add: threads_def sum.distrib)
  also have "\<dots> = (\<Sum>t<N. 1)"
    by (rule sum.cong) (auto simp: readish_def writish_def intro: phase.exhaust)
  finally show ?thesis by simp
qed

lemma const_sint: "sint kRead = 1" "sint kWrite = 2 ^ 24"
  by (simp_all add: kRead_def kWrite_def)

text \<open>
  C18. No subtraction and no addition of the quota overflows, whatever up to 129 threads do: the result of every atomic operation that a
  thread makes next is an \<open>int\<close>, so that the machine, in which the quota wraps around, is the code.
\<close>

theorem spin_rwlock_no_overflow:
  assumes "rw_reach N q0 s" and "N \<le> 129" and "t < N"
  shows "(pc s t = Idle \<longrightarrow> in_int (sint (quota s) - sint kRead) \<and> in_int (sint (quota s) - sint kWrite)) \<and>
    (pc s t \<in> {Read_backoff, Reading} \<longrightarrow> in_int (sint (quota s) + sint kRead)) \<and>
    (pc s t \<in> {Write_backoff, Writing} \<longrightarrow> in_int (sint (quota s) + sint kWrite))"
proof -
  let ?r = "threads N readish (pc s)" and ?w = "threads N writish (pc s)" and ?i = "threads N (\<lambda>p. p = Idle) (pc s)"
  have q: "sint (quota s) = quota_of ?r ?w" using reach_invariants [OF assms(1,2)] quota_in_range assms(2) by blast
  have all: "?r + ?w + ?i \<le> 129" using threads_around [of N "pc s"] assms(2) by simp
  have "pc s t = Idle \<Longrightarrow> 1 \<le> ?i" using threads_pos [of t N "\<lambda>p. p = Idle" "pc s"] assms(3) by simp
  moreover have "pc s t \<in> {Write_backoff, Writing} \<Longrightarrow> 1 \<le> ?w" using threads_pos [of t N writish "pc s"] assms(3) by (auto simp: writish_def)
  ultimately show ?thesis
    using all unfolding q const_sint in_int_def quota_of_def by auto
qed

theorem spin_rwlock_no_overflow_witness:
  "in_int (sint (quota (try_write_step 0 (rw_init 0))) - sint kWrite)"
proof -
  have "rw_reach 2 0 (try_write_step 0 (rw_init 0))"
    by (intro rw_reach.reach_step [OF rw_reach.reach_init] rw_step.try_write) (simp_all add: rw_init_def)
  from spin_rwlock_no_overflow [OF this, of 1] show ?thesis by (simp add: try_write_step_def rw_init_def split_beta)
qed

text \<open>
  C37. The bound of 129 threads is sharp: 130 threads can reach a state in which thread 0 holds the lock for writing, 128 failed attempts to write
  have not been taken back, and the subtraction of the next attempt is below \<open>-2^31\<close>. The code computes it as an \<open>int\<close>, so that from there on its behaviour is
  undefined; and if the subtraction wraps around, as the processor's does, that attempt succeeds and two threads hold the lock for writing.
\<close>

theorem spin_rwlock_130_threads_two_writers:
  "\<exists>s s'. rw_reach 130 q0 s \<and> {t. pc s t = Writing} = {0} \<and> {t. pc s t = Write_backoff} = {1..128} \<and> pc s 129 = Idle \<and>
     sint (quota s) - sint kWrite < - (2 ^ 31) \<and>
     rw_step 130 s s' \<and> s' = try_write_step 129 s \<and> pc s' 0 = Writing \<and> pc s' 129 = Writing"
proof (intro exI conjI)
  have q: "quota (crowd 129) = 0x80000000" by (simp add: crowd_def)
  then show "pc (try_write_step 129 (crowd 129)) 129 = Writing"
    by (simp add: try_write_step_def stone_defs kWrite_def)
  show "pc (try_write_step 129 (crowd 129)) 0 = Writing"
    by (simp add: try_write_step_def crowd_def stone_defs)
  show "rw_reach 130 q0 (crowd 129)" by (rule crowd_reachable) simp_all
  show "rw_step 130 (crowd 129) (try_write_step 129 (crowd 129))" by (rule rw_step.try_write) (simp_all add: crowd_def)
  show "sint (quota (crowd 129)) - sint kWrite < - (2 ^ 31)" by (simp add: q const_sint)
qed (auto simp: crowd_def)

end
