(* ===== verification/Stone_Scoped_Ptr.thy ===== *)
theory Stone_Scoped_Ptr
  imports Stone_Prelude
begin

text \<open>
  \<^verbatim>\<open>memory/scoped_ptr.h\<close>: the three destructor policies, \<open>scoped_ptr\<close> and \<open>scoped_array\<close>. The heap maps the
  address of every allocated block to the way it was allocated; disposing of a block that is not
  allocated, or with the policy of another allocation, is an error. Disposing of the null pointer does nothing.
  The contract that both classes meet is the locale \<open>owning_pointer\<close>: every pointer handed to it is
  disposed of exactly once, at the end of its scope at the latest, unless it was released.
\<close>

section \<open>Blocks and destructor policies\<close>

datatype allocation = By_new | By_new_array | By_malloc

type_synonym block_heap = "addr \<Rightarrow> allocation option"

definition dispose :: "allocation \<Rightarrow> addr \<Rightarrow> block_heap \<Rightarrow> block_heap result" where
  "dispose k p h = (if p = NULL then Inr h
     else case h p of None \<Rightarrow> Inl Use_after_free
     | Some k' \<Rightarrow> if k' = k then Inr (h(p := None)) else Inl Abort)"

definition ScopedPtrDelete :: "addr \<Rightarrow> block_heap \<Rightarrow> block_heap result" where
  "ScopedPtrDelete p h = dispose By_new p h"

definition ScopedPtrDeleteArray :: "addr \<Rightarrow> block_heap \<Rightarrow> block_heap result" where
  "ScopedPtrDeleteArray p h = dispose By_new_array p h"

definition ScopedPtrFree :: "addr \<Rightarrow> block_heap \<Rightarrow> block_heap result" where
  "ScopedPtrFree p h = dispose By_malloc p h"

type_synonym policy = "addr \<Rightarrow> block_heap \<Rightarrow> block_heap result"

section \<open>scoped\_ptr\<close>

record scoped_ptr =
  mPtr :: addr

definition scoped_ptr_new :: "addr \<Rightarrow> scoped_ptr" where
  "scoped_ptr_new ptr = \<lparr>mPtr = ptr\<rparr>"

definition scoped_ptr_dtor :: "policy \<Rightarrow> scoped_ptr \<Rightarrow> block_heap \<Rightarrow> block_heap result" where
  "scoped_ptr_dtor destructor this h = destructor (mPtr this) h"

definition scoped_ptr_swap :: "scoped_ptr \<Rightarrow> scoped_ptr \<Rightarrow> scoped_ptr \<times> scoped_ptr" where
  \<comment> \<open>\<open>*this\<close> and \<open>other\<close> afterwards\<close>
  "scoped_ptr_swap this other = (let tmp = mPtr other in (this\<lparr>mPtr := tmp\<rparr>, other\<lparr>mPtr := mPtr this\<rparr>))"

definition scoped_ptr_reset :: "policy \<Rightarrow> scoped_ptr \<Rightarrow> addr \<Rightarrow> block_heap \<Rightarrow> (scoped_ptr \<times> block_heap) result" where
  \<comment> \<open>the temporary \<open>this_type(ptr)\<close> is destroyed at the end of the statement\<close>
  "scoped_ptr_reset destructor this ptr h =
     bind_result (assert_that (ptr = NULL \<or> ptr \<noteq> mPtr this) ()) (\<lambda>_.
       let (temporary, this') = scoped_ptr_swap (scoped_ptr_new ptr) this
       in bind_result (scoped_ptr_dtor destructor temporary h) (\<lambda>h'. Inr (this', h')))"

definition scoped_ptr_assign :: "policy \<Rightarrow> scoped_ptr \<Rightarrow> addr \<Rightarrow> block_heap \<Rightarrow> (scoped_ptr \<times> block_heap) result" where
  "scoped_ptr_assign destructor this ptr h = scoped_ptr_reset destructor this ptr h"

definition scoped_ptr_deref :: "scoped_ptr \<Rightarrow> addr result" where
  "scoped_ptr_deref this = assert_that (mPtr this \<noteq> NULL) (mPtr this)"

definition scoped_ptr_arrow :: "scoped_ptr \<Rightarrow> addr result" where
  "scoped_ptr_arrow this = assert_that (mPtr this \<noteq> NULL) (mPtr this)"

definition scoped_ptr_get :: "scoped_ptr \<Rightarrow> addr" where
  "scoped_ptr_get this = mPtr this"

definition scoped_ptr_bool :: "scoped_ptr \<Rightarrow> bool" where
  "scoped_ptr_bool this \<longleftrightarrow> mPtr this \<noteq> NULL"

definition scoped_ptr_release :: "scoped_ptr \<Rightarrow> addr \<times> scoped_ptr" where
  "scoped_ptr_release this = (let old = mPtr this in (old, this\<lparr>mPtr := 0\<rparr>))"

section \<open>scoped\_array\<close>

record scoped_array =
  aPtr :: addr

definition scoped_array_new :: "addr \<Rightarrow> scoped_array" where
  "scoped_array_new ptr = \<lparr>aPtr = ptr\<rparr>"

definition scoped_array_dtor :: "policy \<Rightarrow> scoped_array \<Rightarrow> block_heap \<Rightarrow> block_heap result" where
  "scoped_array_dtor destructor this h = destructor (aPtr this) h"

definition scoped_array_swap :: "scoped_array \<Rightarrow> scoped_array \<Rightarrow> scoped_array \<times> scoped_array" where
  "scoped_array_swap this other = (let tmp = aPtr other in (this\<lparr>aPtr := tmp\<rparr>, other\<lparr>aPtr := aPtr this\<rparr>))"

definition scoped_array_reset :: "policy \<Rightarrow> scoped_array \<Rightarrow> addr \<Rightarrow> block_heap \<Rightarrow> (scoped_array \<times> block_heap) result" where
  "scoped_array_reset destructor this ptr h =
     bind_result (assert_that (ptr = NULL \<or> ptr \<noteq> aPtr this) ()) (\<lambda>_.
       let (temporary, this') = scoped_array_swap (scoped_array_new ptr) this
       in bind_result (scoped_array_dtor destructor temporary h) (\<lambda>h'. Inr (this', h')))"

definition scoped_array_assign :: "policy \<Rightarrow> scoped_array \<Rightarrow> addr \<Rightarrow> block_heap \<Rightarrow> (scoped_array \<times> block_heap) result" where
  "scoped_array_assign destructor this ptr h = scoped_array_reset destructor this ptr h"

definition scoped_array_index :: "nat \<Rightarrow> scoped_array \<Rightarrow> int \<Rightarrow> addr result" where
  \<comment> \<open>the address of the element, for elements of \<open>sz\<close> bytes\<close>
  "scoped_array_index sz this i = assert_that (aPtr this \<noteq> NULL) (nat (int (aPtr this) + i * int sz))"

definition scoped_array_get :: "scoped_array \<Rightarrow> addr" where
  "scoped_array_get this = aPtr this"

definition scoped_array_bool :: "scoped_array \<Rightarrow> bool" where
  "scoped_array_bool this \<longleftrightarrow> aPtr this \<noteq> NULL"

definition scoped_array_release :: "scoped_array \<Rightarrow> addr \<times> scoped_array" where
  "scoped_array_release this = (let old = aPtr this in (old, this\<lparr>aPtr := NULL\<rparr>))"

section \<open>The contract of an owning pointer\<close>

datatype owner_op = Reset addr | Release

primrec owner_run ::
  "('s \<Rightarrow> addr \<Rightarrow> block_heap \<Rightarrow> ('s \<times> block_heap) result) \<Rightarrow> ('s \<Rightarrow> addr \<times> 's) \<Rightarrow> owner_op list \<Rightarrow>
   's \<Rightarrow> block_heap \<Rightarrow> (addr list \<times> 's \<times> block_heap) result" where
  \<comment> \<open>runs the operations and collects the pointers that \<open>release\<close> returned\<close>
  "owner_run reset release [] s h = Inr ([], s, h)"
| "owner_run reset release (op # ops) s h =
     (case op of
       Reset p \<Rightarrow> bind_result (reset s p h) (\<lambda>(s', h'). owner_run reset release ops s' h')
     | Release \<Rightarrow> let (p, s') = release s in
         bind_result (owner_run reset release ops s' h) (\<lambda>(ps, r). Inr (p # ps, r)))"

fun handed :: "owner_op list \<Rightarrow> addr list" where
  "handed [] = []"
| "handed (Reset p # ops) = (if p = NULL then handed ops else p # handed ops)"
| "handed (Release # ops) = handed ops"

lemma null_not_handed: "NULL \<notin> set (handed ops)"
  by (induction ops rule: handed.induct) auto

locale owning_pointer =
  fixes make :: "addr \<Rightarrow> 's" and get :: "'s \<Rightarrow> addr" and kind :: allocation
    and reset :: "'s \<Rightarrow> addr \<Rightarrow> block_heap \<Rightarrow> ('s \<times> block_heap) result"
    and release :: "'s \<Rightarrow> addr \<times> 's"
    and destroy :: "'s \<Rightarrow> block_heap \<Rightarrow> block_heap result"
  assumes get_make: "get (make p) = p"
    and reset_spec: "p = NULL \<or> p \<noteq> get s \<Longrightarrow>
      reset s p h = bind_result (dispose kind (get s) h) (\<lambda>h'. Inr (make p, h'))"
    and release_spec: "\<exists>s'. release s = (get s, s') \<and> get s' = NULL"
    and destroy_spec: "destroy s h = dispose kind (get s) h"
begin

lemma dispose_owned:
  "get s = NULL \<or> h (get s) = Some kind \<Longrightarrow>
     dispose kind (get s) h = Inr (if get s = NULL then h else h(get s := None))"
  by (auto simp: dispose_def)

lemma exactly_once:
  assumes "distinct (handed (Reset (get s) # ops))" and "\<forall>p \<in> set (handed (Reset (get s) # ops)). h p = Some kind"
  shows "\<exists>ps s' h'. owner_run reset release ops s h = Inr (ps, s', h') \<and>
    set ps \<subseteq> insert NULL (set (handed (Reset (get s) # ops))) \<and>
    destroy s' h' = Inr (\<lambda>p. if p \<in> set (handed (Reset (get s) # ops)) \<and> p \<notin> set ps then None else h p)"
  using assms
proof (induction ops arbitrary: s h)
  case Nil
  then show ?case using dispose_owned [of s h] by (auto simp: destroy_spec fun_eq_iff split: if_splits)
next
  case (Cons op ops)
  show ?case
  proof (cases op)
    case (Reset p)
    then have ne: "p = NULL \<or> p \<noteq> get s" using Cons.prems(1) by (auto split: if_splits)
    obtain s1 where s1: "get s1 = p" "reset s p h = bind_result (dispose kind (get s) h) (\<lambda>h'. Inr (s1, h'))"
      using reset_spec [OF ne] get_make by blast
    define h1 where "h1 = (if get s = NULL then h else h(get s := None))"
    have r: "reset s p h = Inr (s1, h1)"
      using dispose_owned [of s h] Cons.prems(2) s1(2) by (auto simp: h1_def split: if_splits)
    have "distinct (handed (Reset (get s1) # ops))" "\<forall>q \<in> set (handed (Reset (get s1) # ops)). h1 q = Some kind"
      using Cons.prems Reset s1(1) by (auto simp: h1_def split: if_splits)
    from Cons.IH [OF this] obtain ps s' h' where i: "owner_run reset release ops s1 h1 = Inr (ps, s', h')"
      "set ps \<subseteq> insert NULL (set (handed (Reset p # ops)))"
      "destroy s' h' = Inr (\<lambda>q. if q \<in> set (handed (Reset p # ops)) \<and> q \<notin> set ps then None else h1 q)"
      using s1(1) by auto
    have "get s \<noteq> NULL \<Longrightarrow> get s \<notin> set ps" using i(2) Cons.prems(1) Reset by (auto split: if_splits)
    then have "(\<lambda>q. if q \<in> set (handed (Reset p # ops)) \<and> q \<notin> set ps then None else h1 q) =
        (\<lambda>q. if q \<in> set (handed (Reset (get s) # op # ops)) \<and> q \<notin> set ps then None else h q)"
      using Reset by (auto simp: h1_def fun_eq_iff)
    then show ?thesis using i Reset r by (auto split: if_splits)
  next
    case Release
    obtain s1 where s1: "release s = (get s, s1)" "get s1 = NULL" using release_spec by blast
    have "distinct (handed (Reset (get s1) # ops))" "\<forall>q \<in> set (handed (Reset (get s1) # ops)). h q = Some kind"
      using Cons.prems Release s1(2) by (auto split: if_splits)
    from Cons.IH [OF this] obtain ps s' h' where i: "owner_run reset release ops s1 h = Inr (ps, s', h')"
      "set ps \<subseteq> insert NULL (set (handed ops))"
      "destroy s' h' = Inr (\<lambda>q. if q \<in> set (handed ops) \<and> q \<notin> set ps then None else h q)"
      using s1(2) by auto
    have "(\<lambda>q. if q \<in> set (handed ops) \<and> q \<notin> set ps then None else h q) =
        (\<lambda>q. if q \<in> set (handed (Reset (get s) # op # ops)) \<and> q \<notin> set (get s # ps) then None else h q)"
      using Release Cons.prems(1) null_not_handed [of ops] by (auto simp: fun_eq_iff split: if_splits)
    then show ?thesis using i Release s1 by (auto split: if_splits)
  qed
qed

end

lemma owner_records [simp]: "(s :: scoped_ptr)\<lparr>mPtr := p\<rparr> = \<lparr>mPtr = p\<rparr>" "(a :: scoped_array)\<lparr>aPtr := p\<rparr> = \<lparr>aPtr = p\<rparr>"
  by (cases s, simp) (cases a, simp)

interpretation ptr_owner: owning_pointer scoped_ptr_new scoped_ptr_get By_new
    "scoped_ptr_reset ScopedPtrDelete" scoped_ptr_release "scoped_ptr_dtor ScopedPtrDelete"
  by unfold_locales (auto simp: scoped_ptr_new_def scoped_ptr_get_def scoped_ptr_reset_def scoped_ptr_release_def
      scoped_ptr_dtor_def scoped_ptr_swap_def ScopedPtrDelete_def Let_def)

interpretation array_owner: owning_pointer scoped_array_new scoped_array_get By_new_array
    "scoped_array_reset ScopedPtrDeleteArray" scoped_array_release "scoped_array_dtor ScopedPtrDeleteArray"
  by unfold_locales (auto simp: scoped_array_new_def scoped_array_get_def scoped_array_reset_def scoped_array_release_def
      scoped_array_dtor_def scoped_array_swap_def ScopedPtrDeleteArray_def Let_def)

interpretation free_owner: owning_pointer scoped_ptr_new scoped_ptr_get By_malloc
    "scoped_ptr_reset ScopedPtrFree" scoped_ptr_release "scoped_ptr_dtor ScopedPtrFree"
  by unfold_locales (auto simp: scoped_ptr_new_def scoped_ptr_get_def scoped_ptr_reset_def scoped_ptr_release_def
      scoped_ptr_dtor_def scoped_ptr_swap_def ScopedPtrFree_def Let_def)

section \<open>Properties of scoped pointers\<close>

text \<open>
  C30. A \<open>scoped_ptr\<close> and a \<open>scoped_array\<close> dispose of every block handed to them exactly once: for any sequence of
  \<open>reset\<close> (to distinct allocated blocks or null) and \<open>release\<close> calls after the construction, no operation
  fails, and when the object's scope ends exactly the blocks that were handed over and not released are
  gone from the heap; nothing else has changed.
\<close>

theorem scoped_pointers_delete_exactly_once:
  assumes "distinct (handed (Reset p # ops))" and "\<forall>q \<in> set (handed (Reset p # ops)). h q = Some By_new"
    and "\<forall>q \<in> set (handed (Reset p # ops)). g q = Some By_new_array"
  shows "(\<exists>ps s' h'. owner_run (scoped_ptr_reset ScopedPtrDelete) scoped_ptr_release ops (scoped_ptr_new p) h = Inr (ps, s', h') \<and>
      set ps \<subseteq> insert NULL (set (handed (Reset p # ops))) \<and>
      scoped_ptr_dtor ScopedPtrDelete s' h' =
        Inr (\<lambda>q. if q \<in> set (handed (Reset p # ops)) \<and> q \<notin> set ps then None else h q)) \<and>
    (\<exists>ps s' h'. owner_run (scoped_array_reset ScopedPtrDeleteArray) scoped_array_release ops (scoped_array_new p) g = Inr (ps, s', h') \<and>
      set ps \<subseteq> insert NULL (set (handed (Reset p # ops))) \<and>
      scoped_array_dtor ScopedPtrDeleteArray s' h' =
        Inr (\<lambda>q. if q \<in> set (handed (Reset p # ops)) \<and> q \<notin> set ps then None else g q))"
  using ptr_owner.exactly_once [of "scoped_ptr_new p" ops h] array_owner.exactly_once [of "scoped_array_new p" ops g] assms
  by (simp add: ptr_owner.get_make array_owner.get_make del: handed.simps)

theorem scoped_pointers_delete_exactly_once_witness:
  "\<exists>ps s' h'. owner_run (scoped_ptr_reset ScopedPtrDelete) scoped_ptr_release [Reset 16, Release, Reset 24]
       (scoped_ptr_new 8) [8 \<mapsto> By_new, 16 \<mapsto> By_new, 24 \<mapsto> By_new] = Inr (ps, s', h')"
  using scoped_pointers_delete_exactly_once [of 8 "[Reset 16, Release, Reset 24]"
      "[8 \<mapsto> By_new, 16 \<mapsto> By_new, 24 \<mapsto> By_new]" "[8 \<mapsto> By_new_array, 16 \<mapsto> By_new_array, 24 \<mapsto> By_new_array]"]
  by (auto simp del: owner_run.simps)

end
