(* ===== verification/Stone_Ref_Counted.thy ===== *)
theory Stone_Ref_Counted
  imports Stone_Atomic
begin

text \<open>
  \<^verbatim>\<open>memory/ref_counted.h\<close>: \<open>RefCounted\<close> and \<open>RefCountedUnsafe\<close>. The heap maps the address of every live object to
  its counter \<open>mRefCnt\<close>. A \<open>size_t\<close> counter wraps, so the properties bound the number of references by
  \<open>2^64\<close>.
\<close>

section \<open>The classes\<close>

type_synonym ref_heap = "addr \<Rightarrow> u64 option"

definition live_count :: "ref_heap \<Rightarrow> addr \<Rightarrow> u64 result" where
  "live_count h p = (if p = NULL then Inl Null_dereference
     else case h p of None \<Rightarrow> Inl Use_after_free | Some n \<Rightarrow> Inr n)"

definition RefCounted_new :: "ref_heap \<Rightarrow> addr \<Rightarrow> ref_heap" where
  "RefCounted_new h p = h(p \<mapsto> 0)"

definition RefCounted_AddRef :: "addr \<Rightarrow> ref_heap \<Rightarrow> ref_heap result" where
  "RefCounted_AddRef this h =
     bind_result (live_count h this) (\<lambda>n. let (_, n') = AtomicIncrement n in Inr (h(this \<mapsto> n')))"

definition RefCounted_Release :: "addr \<Rightarrow> ref_heap \<Rightarrow> (u64 \<times> ref_heap) result" where
  "RefCounted_Release this h =
     bind_result (live_count h this) (\<lambda>n.
       let (refCnt, n') = AtomicDecrement n; h' = h(this \<mapsto> n')
       in Inr (refCnt, if refCnt = 0 then h'(this := None) else h'))"

definition RefCounted_HasOneRef :: "addr \<Rightarrow> ref_heap \<Rightarrow> bool result" where
  "RefCounted_HasOneRef this h = bind_result (live_count h this) (\<lambda>n. Inr (AtomicGet n = 1))"

definition RefCountedUnsafe_new :: "ref_heap \<Rightarrow> addr \<Rightarrow> ref_heap" where
  "RefCountedUnsafe_new h p = h(p \<mapsto> 0)"

definition RefCountedUnsafe_AddRef :: "addr \<Rightarrow> ref_heap \<Rightarrow> ref_heap result" where
  "RefCountedUnsafe_AddRef this h = bind_result (live_count h this) (\<lambda>n. Inr (h(this \<mapsto> n + 1)))"

definition RefCountedUnsafe_Release :: "addr \<Rightarrow> ref_heap \<Rightarrow> (u64 \<times> ref_heap) result" where
  \<comment> \<open>the return statement reads the member \<open>mRefCnt\<close> again, after the delete\<close>
  "RefCountedUnsafe_Release this h =
     bind_result (live_count h this) (\<lambda>n.
       let h1 = h(this \<mapsto> n - 1);
           h2 = (if n - 1 = 0 then h1(this := None) else h1)
       in bind_result (live_count h2 this) (\<lambda>m. Inr (m, h2)))"

definition RefCountedUnsafe_HasOneRef :: "addr \<Rightarrow> ref_heap \<Rightarrow> bool result" where
  "RefCountedUnsafe_HasOneRef this h = bind_result (live_count h this) (\<lambda>n. Inr (n = 1))"

section \<open>The contract of a counted reference\<close>

datatype ref_op = Add_ref | Release_ref

primrec ref_run ::
  "(ref_heap \<Rightarrow> ref_heap result) \<Rightarrow> (ref_heap \<Rightarrow> (u64 \<times> ref_heap) result) \<Rightarrow> ref_op list \<Rightarrow> ref_heap \<Rightarrow> (u64 list \<times> ref_heap) result" where
  \<comment> \<open>a sequence of calls, from whatever threads, with the values that \<open>Release\<close> returned\<close>
  "ref_run add rel [] h = Inr ([], h)"
| "ref_run add rel (op # ops) h =
     (case op of
       Add_ref \<Rightarrow> bind_result (add h) (ref_run add rel ops)
     | Release_ref \<Rightarrow> bind_result (rel h) (\<lambda>(n, h').
         bind_result (ref_run add rel ops h') (\<lambda>(ns, h''). Inr (n # ns, h''))))"

fun held_until_end :: "nat \<Rightarrow> ref_op list \<Rightarrow> bool" where
  \<comment> \<open>with \<open>n\<close> references now, the calls only touch the object while a reference is held, and the last one gives up the last reference\<close>
  "held_until_end n [] \<longleftrightarrow> n = 0"
| "held_until_end n (Add_ref # ops) \<longleftrightarrow> held_until_end (n + 1) ops"
| "held_until_end n (Release_ref # ops) \<longleftrightarrow> (if n = 0 then False else if n = 1 then ops = [] else held_until_end (n - 1) ops)"

locale shared_reference =
  fixes add :: "addr \<Rightarrow> ref_heap \<Rightarrow> ref_heap result" and rel :: "addr \<Rightarrow> ref_heap \<Rightarrow> (u64 \<times> ref_heap) result"
  assumes add_live: "p \<noteq> NULL \<Longrightarrow> h p = Some n \<Longrightarrow> add p h = Inr (h(p \<mapsto> n + 1))"
    and rel_shared: "p \<noteq> NULL \<Longrightarrow> h p = Some n \<Longrightarrow> n \<noteq> 1 \<Longrightarrow> rel p h = Inr (n - 1, h(p \<mapsto> n - 1))"

locale counted_reference = shared_reference +
  assumes rel_last: "p \<noteq> NULL \<Longrightarrow> h p = Some 1 \<Longrightarrow> rel p h = Inr (0, h(p := None))"
begin

lemma deleted_by_last_release:
  assumes "held_until_end n ops" and "n > 0" and "p \<noteq> NULL" and "h p = Some (of_nat n)" and "n + length ops < 2 ^ 64"
  shows "\<exists>ns. ref_run (add p) (rel p) ops h = Inr (ns @ [0], h(p := None)) \<and> 0 \<notin> set ns"
  using assms
proof (induction n ops arbitrary: h rule: held_until_end.induct)
  case (2 n ops)
  have "add p h = Inr (h(p \<mapsto> of_nat (n + 1)))" using 2(4,5) by (simp add: add_live add.commute)
  moreover have "\<exists>ns. ref_run (add p) (rel p) ops (h(p \<mapsto> of_nat (n + 1))) =
      Inr (ns @ [0], (h(p \<mapsto> of_nat (n + 1)))(p := None)) \<and> 0 \<notin> set ns"
    by (rule 2(1)) (use 2(2-6) in simp_all)
  ultimately show ?case by (simp del: fun_upd_apply)
next
  case (3 n ops)
  show ?case
  proof (cases "n = 1")
    case True
    then show ?thesis using 3 by (simp add: rel_last del: fun_upd_apply)
  next
    case False
    then have n: "(of_nat n :: u64) \<noteq> 1" "(of_nat n :: u64) - 1 = of_nat (n - 1)" "of_nat (n - 1) \<noteq> (0 :: u64)"
      using 3(3,6) of_nat_eq_1_small [where 'a = 64, of n] of_nat_eq_0_small [where 'a = 64, of "n - 1"]
      by (simp_all add: of_nat_diff)
    have "held_until_end (n - 1) ops" using 3(2,3) False by (simp split: if_splits)
    then have "\<exists>ns. ref_run (add p) (rel p) ops (h(p \<mapsto> of_nat (n - 1))) =
        Inr (ns @ [0], (h(p \<mapsto> of_nat (n - 1)))(p := None)) \<and> 0 \<notin> set ns"
      by (intro 3(1)) (use 3(3-6) False in simp_all)
    then obtain ns where "ref_run (add p) (rel p) ops (h(p \<mapsto> of_nat (n - 1))) = Inr (ns @ [0], h(p := None))" "0 \<notin> set ns"
      by (auto simp del: fun_upd_apply)
    then show ?thesis
      using n 3(4,5) by (intro exI [of _ "of_nat (n - 1) # ns"]) (simp add: rel_shared del: fun_upd_apply)
  qed
qed simp

end

interpretation atomic_ref: counted_reference RefCounted_AddRef RefCounted_Release
  by unfold_locales (simp_all add: RefCounted_AddRef_def RefCounted_Release_def live_count_def stone_defs)

interpretation unsafe_ref: shared_reference RefCountedUnsafe_AddRef RefCountedUnsafe_Release
  by unfold_locales (simp_all add: RefCountedUnsafe_AddRef_def RefCountedUnsafe_Release_def live_count_def)

section \<open>Properties of reference counting\<close>

text \<open>
  A \<open>RefCounted\<close> object lives exactly as long as it is referenced: for every sequence of \<open>AddRef\<close> and
  \<open>Release\<close> calls, in whatever order the threads make them, that starts with an \<open>AddRef\<close> on a new object, only
  touches the object while references are held and gives up the last one at its end, no call fails, no
  \<open>Release\<close> but the last returns 0, and the last returns 0 and deletes the object.
\<close>

theorem ref_counted_deleted_by_last_release:
  assumes "held_until_end 1 ops" and "p \<noteq> NULL" and "length ops + 1 < 2 ^ 64"
  shows "\<exists>ns. ref_run (RefCounted_AddRef p) (RefCounted_Release p) (Add_ref # ops) (RefCounted_new h p) =
      Inr (ns @ [0], h(p := None)) \<and> 0 \<notin> set ns"
  using atomic_ref.deleted_by_last_release [of 1 ops p "h(p \<mapsto> 1)"] assms
  by (simp add: RefCounted_new_def atomic_ref.add_live)

theorem ref_counted_deleted_by_last_release_witness:
  "\<exists>ns. ref_run (RefCounted_AddRef 8) (RefCounted_Release 8) [Add_ref, Add_ref, Release_ref, Release_ref]
     (RefCounted_new (\<lambda>_. None) 8) = Inr (ns @ [0], \<lambda>_. None) \<and> 0 \<notin> set ns"
  using ref_counted_deleted_by_last_release [of "[Add_ref, Release_ref, Release_ref]" 8 "\<lambda>_. None"]
  by (simp add: fun_upd_idem del: ref_run.simps)

text \<open>
  \<open>RefCountedUnsafe::Release\<close> behaves like \<open>RefCounted::Release\<close> while other references exist, but the call
  that gives up the last reference deletes the object and then reads its counter: it is always an access to a
  deleted object.
\<close>

theorem ref_counted_unsafe_reads_deleted_object:
  assumes "p \<noteq> NULL" and "h p = Some n"
  shows "RefCountedUnsafe_Release p h = (if n = 1 then Inl Use_after_free else RefCounted_Release p h)"
  using assms unsafe_ref.rel_shared [of p h n] atomic_ref.rel_shared [of p h n]
  by (simp add: RefCountedUnsafe_Release_def live_count_def)

theorem ref_counted_unsafe_reads_deleted_object_witness:
  "RefCountedUnsafe_Release 8 [8 \<mapsto> 1] = Inl Use_after_free"
  using ref_counted_unsafe_reads_deleted_object [of 8 "[8 \<mapsto> 1]" 1] by simp

end
