(* ===== verification/Stone_Ref_Counted_Threads.thy ===== *)
theory Stone_Ref_Counted_Threads
  imports Stone_Ref_Counted
begin

text \<open>
  \<open>RefCounted\<close> (\<^verbatim>\<open>memory/ref_counted.h\<close>) used by many threads at once, on any number of objects in one heap. \<open>Release\<close> is two steps,
  the atomic decrement and, when it returned 0, the deletion; between them the other threads run. The component \<open>refs\<close> says how many
  references to an object a thread holds: it may add a reference to an object or release one only while it holds one, and it may
  hand one over to another thread.
\<close>

section \<open>The two steps of Release\<close>

definition Release_decrement :: "addr \<Rightarrow> ref_heap \<Rightarrow> (u64 \<times> ref_heap) result" where
  "Release_decrement this h =
     bind_result (live_count h this) (\<lambda>n. let (refCnt, n') = AtomicDecrement n in Inr (refCnt, h(this \<mapsto> n')))"

definition Release_delete :: "addr \<Rightarrow> u64 \<Rightarrow> ref_heap \<Rightarrow> ref_heap result" where
  "Release_delete this refCnt h =
     (if refCnt = 0 then bind_result (live_count h this) (\<lambda>_. Inr (h(this := None))) else Inr h)"

lemma Release_in_steps:
  "RefCounted_Release this h =
     bind_result (Release_decrement this h) (\<lambda>(refCnt, h1). bind_result (Release_delete this refCnt h1) (\<lambda>h2. Inr (refCnt, h2)))"
  by (simp add: RefCounted_Release_def Release_decrement_def Release_delete_def live_count_def split: option.split)

section \<open>The machine\<close>

datatype rc_pc =
    RC_Idle
  | RC_Created addr          \<comment> \<open>the object was constructed, the first \<open>AddRef\<close> is to come\<close>
  | RC_Released addr u64     \<comment> \<open>between the decrement and the deletion\<close>

record rc_state =
  heap :: ref_heap
  refs :: "nat \<Rightarrow> addr \<Rightarrow> nat"
  rpc :: "nat \<Rightarrow> rc_pc"

definition rc_set :: "nat \<Rightarrow> addr \<Rightarrow> nat \<Rightarrow> rc_pc \<Rightarrow> ref_heap \<Rightarrow> rc_state \<Rightarrow> rc_state" where
  "rc_set t p k c h s = s\<lparr>heap := h, refs := (refs s)(t := (refs s t)(p := k)), rpc := (rpc s)(t := c)\<rparr>"

inductive rc_step :: "nat \<Rightarrow> nat \<Rightarrow> rc_state \<Rightarrow> rc_state \<Rightarrow> bool" for N t where
  new: "t < N \<Longrightarrow> rpc s t = RC_Idle \<Longrightarrow> p \<noteq> NULL \<Longrightarrow> heap s p = None \<Longrightarrow>
    rc_step N t s (rc_set t p (refs s t p) (RC_Created p) (RefCounted_new (heap s) p) s)"
| first_ref: "t < N \<Longrightarrow> rpc s t = RC_Created p \<Longrightarrow> RefCounted_AddRef p (heap s) = Inr h \<Longrightarrow>
    rc_step N t s (rc_set t p (refs s t p + 1) RC_Idle h s)"
| add_ref: "t < N \<Longrightarrow> rpc s t = RC_Idle \<Longrightarrow> 0 < refs s t p \<Longrightarrow> RefCounted_AddRef p (heap s) = Inr h \<Longrightarrow>
    rc_step N t s (rc_set t p (refs s t p + 1) RC_Idle h s)"
| hand_over: "t < N \<Longrightarrow> u < N \<Longrightarrow> t \<noteq> u \<Longrightarrow> 0 < refs s t p \<Longrightarrow>
    rc_step N t s (rc_set u p (refs s u p + 1) (rpc s u) (heap s) (rc_set t p (refs s t p - 1) (rpc s t) (heap s) s))"
| decrement: "t < N \<Longrightarrow> rpc s t = RC_Idle \<Longrightarrow> 0 < refs s t p \<Longrightarrow> Release_decrement p (heap s) = Inr (r, h) \<Longrightarrow>
    rc_step N t s (rc_set t p (refs s t p - 1) (RC_Released p r) h s)"
| delete: "t < N \<Longrightarrow> rpc s t = RC_Released p r \<Longrightarrow> Release_delete p r (heap s) = Inr h \<Longrightarrow>
    rc_step N t s (rc_set t p (refs s t p) RC_Idle h s)"

definition rc_init :: rc_state where
  "rc_init = \<lparr>heap = (\<lambda>_. None), refs = (\<lambda>_ _. 0), rpc = (\<lambda>_. RC_Idle)\<rparr>"

definition rc_total :: "nat \<Rightarrow> rc_state \<Rightarrow> addr \<Rightarrow> int" where
  "rc_total N s p = (\<Sum>t < N. int (refs s t p))"

inductive rc_reach :: "nat \<Rightarrow> rc_state \<Rightarrow> bool" for N where
  start: "rc_reach N rc_init"
| step: "rc_reach N s \<Longrightarrow> rc_step N t s s' \<Longrightarrow> \<forall>p. rc_total N s' p < 2 ^ 64 \<Longrightarrow> rc_reach N s'"

section \<open>The invariant\<close>

fun in_charge :: "addr \<Rightarrow> rc_pc \<Rightarrow> bool" where
  \<comment> \<open>a thread that has to do something with an object to which there is no reference\<close>
  "in_charge p RC_Idle = False"
| "in_charge p (RC_Created q) = (p = q)"
| "in_charge p (RC_Released q r) = (p = q \<and> r = 0)"

definition charges :: "nat \<Rightarrow> rc_state \<Rightarrow> addr \<Rightarrow> int" where
  "charges N s p = (\<Sum>t < N. if in_charge p (rpc s t) then 1 else 0)"

definition rc_ok :: "nat \<Rightarrow> rc_state \<Rightarrow> addr \<Rightarrow> bool" where
  "rc_ok N s p \<longleftrightarrow>
     (case heap s p of None \<Rightarrow> rc_total N s p = 0 \<and> charges N s p = 0
      | Some n \<Rightarrow> p \<noteq> NULL \<and> n = of_int (rc_total N s p) \<and> charges N s p = (if rc_total N s p = 0 then 1 else 0))"

lemma rc_total_nonneg: "0 \<le> rc_total N s p"
  by (simp add: rc_total_def sum_nonneg)

lemma rc_total_set:
  assumes "t < N"
  shows "rc_total N (rc_set t p k c h s) q = (if q = p then rc_total N s p - int (refs s t p) + int k else rc_total N s q)"
  using sum_fun_upd [OF assms, of "\<lambda>f. int (f p)" "refs s" "(refs s t)(p := k)"]
  by (auto simp: rc_total_def rc_set_def intro!: sum.cong)

lemma charges_set:
  assumes "t < N"
  shows "charges N (rc_set t p k c h s) q = charges N s q - (if in_charge q (rpc s t) then 1 else 0) + (if in_charge q c then 1 else 0)"
  using sum_fun_upd [OF assms, of "\<lambda>c. if in_charge q c then 1 else 0 :: int" "rpc s" c] by (simp add: charges_def rc_set_def)

lemma rc_total_ge:
  assumes "t < N"
  shows "int (refs s t p) \<le> rc_total N s p"
  unfolding rc_total_def using assms by (intro member_le_sum) auto

lemma charges_ge:
  assumes "t < N" and "in_charge p (rpc s t)"
  shows "1 \<le> charges N s p"
proof -
  have "(if in_charge p (rpc s t) then 1 else 0 :: int) \<le> charges N s p"
    unfolding charges_def by (rule member_le_sum) (use assms(1) in auto)
  then show ?thesis using assms(2) by simp
qed

lemma charges_two:
  assumes "t < N" and "u < N" and "t \<noteq> u" and "in_charge p (rpc s t)" and "in_charge p (rpc s u)"
  shows "2 \<le> charges N s p"
proof -
  have "(\<Sum>v \<in> {t, u}. if in_charge p (rpc s v) then 1 else 0 :: int) \<le> charges N s p"
    unfolding charges_def by (rule sum_mono2) (use assms in auto)
  then show ?thesis using assms by simp
qed

lemma u64_of_int_eq_0: "0 \<le> k \<Longrightarrow> k < 2 ^ 64 \<Longrightarrow> (of_int k :: u64) = 0 \<longleftrightarrow> k = 0"
proof -
  assume "0 \<le> k" "k < 2 ^ 64"
  then have "uint (of_int k :: u64) = k" by (simp add: unsigned_of_int take_bit_int_eq_self)
  then show ?thesis by (metis of_int_0 unsigned_0)
qed

lemma rc_ok_set_other:
  assumes "t < N" and "q \<noteq> p" and "in_charge q c = in_charge q (rpc s t)" and "h q = heap s q" and "rc_ok N s q"
  shows "rc_ok N (rc_set t p k c h s) q"
  using assms(5) unfolding rc_ok_def rc_total_set [OF assms(1)] charges_set [OF assms(1)]
  by (simp add: assms(2-4) rc_set_def split: option.splits)

lemma rc_ok_set:
  assumes "t < N" and "h p = Some n" and "p \<noteq> NULL" and "n = of_int (rc_total N s p - int (refs s t p) + int k)"
    and "charges N s p - (if in_charge p (rpc s t) then 1 else 0) + (if in_charge p c then 1 else 0) =
      (if rc_total N s p - int (refs s t p) + int k = 0 then 1 else 0)"
  shows "rc_ok N (rc_set t p k c h s) p"
  unfolding rc_ok_def rc_total_set [OF assms(1)] charges_set [OF assms(1)] using assms(2-5) by (simp add: rc_set_def)

lemma rc_ok_referenced:
  assumes "rc_ok N s p" and "t < N" and "0 < refs s t p"
  shows "heap s p = Some (of_int (rc_total N s p))" and "1 \<le> rc_total N s p" and "p \<noteq> NULL" and "charges N s p = 0"
  using assms(1,3) rc_total_ge [OF assms(2), of s p] by (auto simp: rc_ok_def split: option.splits)

lemma rc_ok_in_charge:
  assumes "rc_ok N s p" and "t < N" and "in_charge p (rpc s t)"
  shows "heap s p = Some 0" and "rc_total N s p = 0" and "p \<noteq> NULL" and "charges N s p = 1"
  using assms(1) charges_ge [OF assms(2,3)] by (auto simp: rc_ok_def split: option.splits if_splits)

lemma rc_ok_decrement:
  assumes "rc_ok N s p" and "t < N" and "rpc s t = RC_Idle" and "0 < refs s t p" and "rc_total N s p < 2 ^ 64"
    and "Release_decrement p (heap s) = Inr (r, h)"
  shows "rc_ok N (rc_set t p (refs s t p - 1) (RC_Released p r) h s) p"
proof -
  note r = rc_ok_referenced [OF assms(1,2,4)]
  have h: "r = of_int (rc_total N s p - 1)" "h = (heap s)(p \<mapsto> of_int (rc_total N s p - 1))"
    using assms(6) r(1,3) by (auto simp: Release_decrement_def live_count_def)
  have k: "int (refs s t p - 1) = int (refs s t p) - 1" using assms(4) by simp
  have "r = 0 \<longleftrightarrow> rc_total N s p - 1 = 0" unfolding h(1) by (rule u64_of_int_eq_0) (use r(2) assms(5) in simp_all)
  then show ?thesis
    by (intro rc_ok_set [OF assms(2), where n = "of_int (rc_total N s p - 1)"]) (use r(3,4) h k assms(3) in simp_all)
qed

lemma rc_ok_delete:
  assumes "rc_ok N s p" and "t < N" and "rpc s t = RC_Released p r" and "Release_delete p r (heap s) = Inr h"
  shows "rc_ok N (rc_set t p (refs s t p) RC_Idle h s) p"
proof (cases "r = 0")
  case True
  then have "in_charge p (rpc s t)" using assms(3) by simp
  note c = rc_ok_in_charge [OF assms(1,2) this]
  have "h p = None" using assms(4) True c(1,3) by (auto simp: Release_delete_def live_count_def)
  then show ?thesis
    using c(2,4) assms(3) True unfolding rc_ok_def rc_total_set [OF assms(2)] charges_set [OF assms(2)] by (simp add: rc_set_def)
next
  case False
  then show ?thesis
    using assms(1,3,4) unfolding rc_ok_def rc_total_set [OF assms(2)] charges_set [OF assms(2)] by (simp add: rc_set_def Release_delete_def split: option.splits)
qed

lemma rc_ok_step:
  assumes st: "rc_step N t s s'" and ok: "\<And>p. rc_ok N s p" and bound: "\<And>p. rc_total N s p < 2 ^ 64"
  shows "rc_ok N s' q"
  using st
proof cases
  case (new p)
  have "rc_ok N (rc_set t p (refs s t p) (RC_Created p) (RefCounted_new (heap s) p) s) p"
    by (rule rc_ok_set [OF new(2), where n = 0]) (use ok [of p] new in \<open>simp_all add: rc_ok_def RefCounted_new_def\<close>)
  then show ?thesis
    using new ok by (cases "q = p") (simp_all add: rc_ok_set_other RefCounted_new_def)
next
  case (first_ref p h)
  have "in_charge p (rpc s t)" using first_ref(3) by simp
  note c = rc_ok_in_charge [OF ok first_ref(2) this]
  have h: "h = (heap s)(p \<mapsto> 1)" using first_ref(4) c(1,3) by (simp add: RefCounted_AddRef_def live_count_def)
  have "rc_ok N (rc_set t p (refs s t p + 1) RC_Idle h s) p"
    by (rule rc_ok_set [OF first_ref(2), where n = 1]) (use c first_ref(3) h in simp_all)
  then show ?thesis
    using first_ref h ok by (cases "q = p") (simp_all add: rc_ok_set_other)
next
  case (add_ref p h)
  note r = rc_ok_referenced [OF ok add_ref(2,4)]
  have h: "h = (heap s)(p \<mapsto> of_int (rc_total N s p + 1))" using add_ref(5) r(1,3) by (simp add: RefCounted_AddRef_def live_count_def)
  have "rc_ok N (rc_set t p (refs s t p + 1) RC_Idle h s) p"
    by (rule rc_ok_set [OF add_ref(2), where n = "of_int (rc_total N s p + 1)"]) (use r add_ref(3) h in simp_all)
  then show ?thesis
    using add_ref h ok by (cases "q = p") (simp_all add: rc_ok_set_other)
next
  case (hand_over u p)
  then have "int (refs s t p - 1) = int (refs s t p) - 1" by simp
  then have "rc_total N s' q = rc_total N s q" "charges N s' q = charges N s q"
    unfolding hand_over(1) rc_total_set [OF hand_over(3)] rc_total_set [OF hand_over(2)] charges_set [OF hand_over(3)]
      charges_set [OF hand_over(2)] using hand_over(4) by (simp_all add: rc_set_def)
  moreover have "heap s' q = heap s q" by (simp add: hand_over(1) rc_set_def)
  ultimately show ?thesis using ok [of q] by (simp add: rc_ok_def split: option.splits)
next
  case (decrement p r h)
  have "h q = heap s q" if "q \<noteq> p"
    using decrement(5) that by (auto simp: Release_decrement_def live_count_def split: option.splits if_splits)
  then show ?thesis
    using decrement ok rc_ok_decrement [OF ok decrement(2-4) bound decrement(5)] by (cases "q = p") (simp_all add: rc_ok_set_other)
next
  case (delete p r h)
  have "h q = heap s q" if "q \<noteq> p"
    using delete(4) that by (auto simp: Release_delete_def live_count_def split: option.splits if_splits)
  then show ?thesis
    using delete ok rc_ok_delete [OF ok delete(2-4)] by (cases "q = p") (simp_all add: rc_ok_set_other)
qed

lemma rc_reach_ok:
  assumes "rc_reach N s"
  shows "(\<forall>p. rc_ok N s p) \<and> (\<forall>p. rc_total N s p < 2 ^ 64)"
  using assms
proof induction
  case start
  show ?case by (simp add: rc_ok_def rc_init_def rc_total_def charges_def)
next
  case (step s t s')
  then show ?case using rc_ok_step [OF step(2)] by blast
qed

section \<open>Properties of RefCounted with many threads\<close>

text \<open>
  C15. However the steps of any number of threads interleave, as long as there are fewer than \<open>2^64\<close> references to an object: an object to which a
  thread holds a reference exists; no call of \<open>AddRef\<close> or \<open>Release\<close> that a thread may make touches a deleted object, also in the
  deletion that follows the decrement; an object is deleted by one thread only, the one whose decrement returned 0, and every
  object to which no reference is held is deleted when the threads have finished their calls; and
  \<open>HasOneRef\<close> is true exactly when the caller holds the only reference.
\<close>

theorem ref_counted_threads_safe:
  assumes "rc_reach N s" and "t < N"
  shows "(0 < refs s t p \<longrightarrow> (\<exists>h r h'. RefCounted_AddRef p (heap s) = Inr h \<and> Release_decrement p (heap s) = Inr (r, h')) \<and>
      (RefCounted_HasOneRef p (heap s) = Inr True \<longleftrightarrow> refs s t p = 1 \<and> (\<forall>u < N. u \<noteq> t \<longrightarrow> refs s u p = 0))) \<and>
    (rpc s t = RC_Created p \<longrightarrow> (\<exists>h. RefCounted_AddRef p (heap s) = Inr h)) \<and>
    (rpc s t = RC_Released p r \<longrightarrow> (\<exists>h. Release_delete p r (heap s) = Inr h) \<and>
      (r = 0 \<longrightarrow> (\<forall>u < N. refs s u p = 0 \<and> (u \<noteq> t \<longrightarrow> \<not> in_charge p (rpc s u))))) \<and>
    ((\<forall>u < N. refs s u p = 0 \<and> rpc s u = RC_Idle) \<longrightarrow> heap s p = None)"
proof -
  have ok: "rc_ok N s p" and bound: "rc_total N s p < 2 ^ 64" using rc_reach_ok [OF assms(1)] by blast+
  have none: "refs s u p = 0" if "rc_total N s p = 0" "u < N" for u using rc_total_ge [OF that(2), of s p] that(1) by simp
  have one: "rc_total N s p = 1 \<longleftrightarrow> refs s t p = 1 \<and> (\<forall>u < N. u \<noteq> t \<longrightarrow> refs s u p = 0)" if "0 < refs s t p"
  proof -
    have split: "rc_total N s p = int (refs s t p) + (\<Sum>u \<in> {..<N} - {t}. int (refs s u p))"
      unfolding rc_total_def using assms(2) by (intro sum.remove) auto
    have rest: "0 \<le> (\<Sum>u \<in> {..<N} - {t}. int (refs s u p))" by (simp add: sum_nonneg)
    have "(\<Sum>u \<in> {..<N} - {t}. int (refs s u p)) = 0 \<longleftrightarrow> (\<forall>u < N. u \<noteq> t \<longrightarrow> refs s u p = 0)"
      by (subst sum_nonneg_eq_0_iff) auto
    then show ?thesis using split rest that by (smt (verit) of_nat_0_less_iff int_one_le_iff_zero_less of_nat_1 of_nat_eq_iff)
  qed
  have held: "(\<exists>h r h'. RefCounted_AddRef p (heap s) = Inr h \<and> Release_decrement p (heap s) = Inr (r, h')) \<and>
      (RefCounted_HasOneRef p (heap s) = Inr True \<longleftrightarrow> rc_total N s p = 1)" if "0 < refs s t p"
    using rc_ok_referenced [OF ok assms(2) that] bound u64_of_int_eq_0 [of "rc_total N s p - 1"]
    by (auto simp: RefCounted_AddRef_def Release_decrement_def RefCounted_HasOneRef_def live_count_def)
  have charge: "heap s p = Some 0 \<and> p \<noteq> NULL \<and> rc_total N s p = 0 \<and> (\<forall>u < N. u \<noteq> t \<longrightarrow> \<not> in_charge p (rpc s u))" if "in_charge p (rpc s t)"
    using rc_ok_in_charge [OF ok assms(2) that] charges_two [OF assms(2) _ _ that] by fastforce
  have left: "heap s p = None" if "\<forall>u < N. refs s u p = 0 \<and> rpc s u = RC_Idle"
    using ok that by (auto simp: rc_ok_def rc_total_def charges_def split: option.splits)
  show ?thesis
    using held one charge none left by (auto simp: RefCounted_AddRef_def Release_delete_def live_count_def)
qed

definition rc_example :: "u64 \<Rightarrow> nat \<Rightarrow> nat \<Rightarrow> rc_pc \<Rightarrow> rc_state" where
  \<comment> \<open>an object at address 8 with the count \<open>n\<close>, of which thread 0 holds \<open>a\<close> references and thread 1 holds \<open>b\<close>\<close>
  "rc_example n a b c = \<lparr>heap = [8 \<mapsto> n], refs = (\<lambda>_ _. 0)(0 := (\<lambda>_. 0)(8 := a), 1 := (\<lambda>_. 0)(8 := b)), rpc = (\<lambda>_. RC_Idle)(0 := c)\<rparr>"

lemma rc_example_total: "a + b < 10 \<Longrightarrow> \<forall>p. rc_total 2 (rc_example n a b c) p < 2 ^ 64"
  by (auto simp: rc_total_def rc_example_def numeral_2_eq_2)

lemma rc_example_reach: "rc_reach 2 (rc_example 2 1 1 RC_Idle)"
proof -
  have idle: "(\<lambda>_ :: nat. RC_Idle)(t := RC_Idle) = (\<lambda>_. RC_Idle)" for t by auto
  have "rc_step 2 0 rc_init (rc_example 0 0 0 (RC_Created 8))"
    using rc_step.new [of 0 2 rc_init 8]
    by (simp add: rc_init_def rc_example_def rc_set_def RefCounted_new_def fun_upd_idem)
  then have "rc_reach 2 (rc_example 0 0 0 (RC_Created 8))"
    by (rule rc_reach.step [OF rc_reach.start]) (rule rc_example_total, simp)
  moreover have "rc_step 2 0 (rc_example 0 0 0 (RC_Created 8)) (rc_example 1 1 0 RC_Idle)"
    using rc_step.first_ref [of 0 2 "rc_example 0 0 0 (RC_Created 8)" 8 "[8 \<mapsto> 1]"]
    by (simp add: rc_example_def rc_set_def RefCounted_AddRef_def live_count_def fun_upd_twist)
  ultimately have "rc_reach 2 (rc_example 1 1 0 RC_Idle)" by (rule rc_reach.step) (rule rc_example_total, simp)
  moreover have "rc_step 2 0 (rc_example 1 1 0 RC_Idle) (rc_example 2 2 0 RC_Idle)"
    using rc_step.add_ref [of 0 2 "rc_example 1 1 0 RC_Idle" 8 "[8 \<mapsto> 2]"]
    by (simp add: rc_example_def rc_set_def RefCounted_AddRef_def live_count_def fun_upd_twist numeral_2_eq_2)
  ultimately have "rc_reach 2 (rc_example 2 2 0 RC_Idle)" by (rule rc_reach.step) (rule rc_example_total, simp)
  moreover have "rc_step 2 0 (rc_example 2 2 0 RC_Idle) (rc_example 2 1 1 RC_Idle)"
    using rc_step.hand_over [of 0 2 1 "rc_example 2 2 0 RC_Idle" 8]
    by (simp add: rc_example_def rc_set_def fun_upd_twist idle)
  ultimately show ?thesis by (rule rc_reach.step) (rule rc_example_total, simp)
qed

theorem ref_counted_threads_safe_witness:
  "\<exists>s. rc_reach 2 s \<and> refs s 0 8 = 1 \<and> refs s 1 8 = 1 \<and> RefCounted_HasOneRef 8 (heap s) \<noteq> Inr True \<and>
     (\<exists>r h. Release_decrement 8 (heap s) = Inr (r, h))"
proof -
  have r: "refs (rc_example 2 1 1 RC_Idle) 0 8 = 1" "refs (rc_example 2 1 1 RC_Idle) 1 8 = 1" by (simp_all add: rc_example_def)
  have "\<not> (\<forall>u < 2. u \<noteq> 0 \<longrightarrow> refs (rc_example 2 1 1 RC_Idle) u 8 = 0)" using r(2) by (auto intro: exI [of _ 1])
  then show ?thesis
    using ref_counted_threads_safe [OF rc_example_reach, of 0 8] r rc_example_reach by (intro exI [of _ "rc_example 2 1 1 RC_Idle"]) auto
qed

end
