(* ===== verification/Stone_Singleton.thy ===== *)
theory Stone_Singleton
  imports Stone_Prelude
begin

text \<open>
  \<^verbatim>\<open>memory/singleton.h\<close>: \<open>Singleton<T>::Instance\<close> called by any number of threads, and \<open>Destroy\<close>, which runs at
  exit. A thread's position in \<open>Instance\<close> is its program counter; every read or write of the static
  members, the lock operations and the construction of \<open>T\<close> are steps, and the threads interleave between
  them. Memory is sequentially consistent: the members are \<open>volatile\<close>, and what a weaker memory does to the
  double check is outside of the model.
\<close>

section \<open>The states of Instance\<close>

datatype singleton_pc =
    First_check          \<comment> \<open>before line 32\<close>
  | Want_lock            \<comment> \<open>before the locker is constructed\<close>
  | Second_check         \<comment> \<open>lock held, before line 34\<close>
  | Construct            \<comment> \<open>lock held, before \<open>new T\<close>\<close>
  | Publish addr         \<comment> \<open>lock held, \<open>p\<close> constructed, before \<open>sInstance = p\<close>\<close>
  | Register             \<comment> \<open>lock held, before \<open>atexit(Destroy)\<close>\<close>
  | Unlock               \<comment> \<open>before the locker is destroyed\<close>
  | Read_instance        \<comment> \<open>before line 44\<close>
  | Returned addr

record singleton =
  sInstance :: addr
  sLock :: "nat option"       \<comment> \<open>the thread that holds the mutex\<close>
  sDestroyed :: bool
  constructed :: "addr list"  \<comment> \<open>every object that \<open>new T\<close> made, the latest first\<close>
  exit_hooks :: nat           \<comment> \<open>how often \<open>Destroy\<close> is registered with \<open>atexit\<close>\<close>
  at :: "nat \<Rightarrow> singleton_pc"

definition singleton_init :: singleton where
  "singleton_init = \<lparr>sInstance = NULL, sLock = None, sDestroyed = False, constructed = [], exit_hooks = 0, at = (\<lambda>_. First_check)\<rparr>"

abbreviation goto :: "nat \<Rightarrow> singleton_pc \<Rightarrow> singleton \<Rightarrow> singleton" where
  "goto t c s \<equiv> s\<lparr>at := (at s)(t := c)\<rparr>"

definition Instance_step :: "nat \<Rightarrow> addr \<Rightarrow> singleton \<Rightarrow> singleton option" where
  \<comment> \<open>the next step of thread \<open>t\<close>, where \<open>fresh\<close> is the address that \<open>new T\<close> would return; \<open>None\<close> when it cannot move\<close>
  "Instance_step t fresh s =
     (case at s t of
       First_check \<Rightarrow> Some (goto t (if sInstance s = NULL then Want_lock else Read_instance) s)
     | Want_lock \<Rightarrow> if sLock s = None then Some (goto t Second_check (s\<lparr>sLock := Some t\<rparr>)) else None
     | Second_check \<Rightarrow>
         if sInstance s = NULL
         then Some (goto t Construct (if sDestroyed s then s\<lparr>sDestroyed := False\<rparr> else s))
         else Some (goto t Unlock s)
     | Construct \<Rightarrow> Some (goto t (Publish fresh) (s\<lparr>constructed := fresh # constructed s\<rparr>))
     | Publish p \<Rightarrow> Some (goto t Register (s\<lparr>sInstance := p\<rparr>))
     | Register \<Rightarrow> Some (goto t Unlock (s\<lparr>exit_hooks := exit_hooks s + 1\<rparr>))
     | Unlock \<Rightarrow> Some (goto t Read_instance (s\<lparr>sLock := None\<rparr>))
     | Read_instance \<Rightarrow> Some (goto t (Returned (sInstance s)) s)
     | Returned _ \<Rightarrow> None)"

definition Singleton_Destroy :: "singleton \<Rightarrow> singleton" where
  "Singleton_Destroy s = s\<lparr>sDestroyed := True, constructed := remove1 (sInstance s) (constructed s), sInstance := NULL\<rparr>"

inductive singleton_reach :: "singleton \<Rightarrow> bool" where
  start: "singleton_reach singleton_init"
| step: "singleton_reach s \<Longrightarrow> fresh \<noteq> NULL \<Longrightarrow> Instance_step t fresh s = Some s' \<Longrightarrow> singleton_reach s'"

section \<open>The invariant\<close>

definition in_section :: "singleton_pc \<Rightarrow> bool" where
  "in_section c \<longleftrightarrow> (case c of Second_check \<Rightarrow> True | Construct \<Rightarrow> True | Publish _ \<Rightarrow> True | Register \<Rightarrow> True | Unlock \<Rightarrow> True | _ \<Rightarrow> False)"

definition thread_ok :: "singleton \<Rightarrow> singleton_pc \<Rightarrow> bool" where
  "thread_ok s c \<longleftrightarrow>
     (case c of
       Construct \<Rightarrow> sInstance s = NULL \<and> constructed s = []
     | Publish p \<Rightarrow> sInstance s = NULL \<and> p \<noteq> NULL \<and> constructed s = [p]
     | Register \<Rightarrow> sInstance s \<noteq> NULL \<and> exit_hooks s = 0
     | Unlock \<Rightarrow> sInstance s \<noteq> NULL
     | Read_instance \<Rightarrow> sInstance s \<noteq> NULL
     | Returned p \<Rightarrow> p = sInstance s \<and> p \<noteq> NULL
     | _ \<Rightarrow> True)"

definition instance_ok :: "singleton \<Rightarrow> bool" where
  "instance_ok s \<longleftrightarrow>
     (if sInstance s = NULL then exit_hooks s = 0 \<and> (constructed s = [] \<or> (\<exists>t p. at s t = Publish p))
      else constructed s = [sInstance s] \<and> (exit_hooks s = 1 \<or> exit_hooks s = 0 \<and> (\<exists>t. at s t = Register)))"

definition singleton_inv :: "singleton \<Rightarrow> bool" where
  "singleton_inv s \<longleftrightarrow> (\<forall>t. in_section (at s t) \<longleftrightarrow> sLock s = Some t) \<and> (\<forall>t. thread_ok s (at s t)) \<and> instance_ok s"

lemma singleton_inv_init: "singleton_inv singleton_init"
  by (simp add: singleton_inv_def singleton_init_def in_section_def thread_ok_def instance_ok_def)

lemma thread_ok_outside:
  "thread_ok s c \<Longrightarrow> \<not> in_section c \<Longrightarrow> sInstance s \<noteq> NULL \<longrightarrow> sInstance s' = sInstance s \<Longrightarrow> thread_ok s' c"
  by (cases c) (auto simp: thread_ok_def in_section_def)

lemma thread_ok_same:
  "thread_ok s c \<Longrightarrow> sInstance s' = sInstance s \<Longrightarrow> constructed s' = constructed s \<Longrightarrow> exit_hooks s' = exit_hooks s \<Longrightarrow> thread_ok s' c"
  by (cases c) (auto simp: thread_ok_def)

lemma singleton_inv_move:
  assumes "singleton_inv s" and "at s' = (at s)(t := c)"
    and "in_section c \<longleftrightarrow> sLock s' = Some t" and "\<forall>u. u \<noteq> t \<longrightarrow> (sLock s' = Some u \<longleftrightarrow> sLock s = Some u)"
    and "sInstance s' = sInstance s \<and> constructed s' = constructed s \<and> exit_hooks s' = exit_hooks s \<or>
      in_section (at s t) \<and> (sInstance s \<noteq> NULL \<longrightarrow> sInstance s' = sInstance s)"
    and "thread_ok s' c" and "instance_ok s'"
  shows "singleton_inv s'"
proof -
  have l: "in_section (at s u) \<longleftrightarrow> sLock s = Some u" and ok: "thread_ok s (at s u)" for u
    using assms(1) by (auto simp: singleton_inv_def)
  have "in_section (at s' u) \<longleftrightarrow> sLock s' = Some u" for u
    using assms(2-4) l [of u] by (cases "u = t") simp_all
  moreover have "thread_ok s' (at s' u)" for u
  proof (cases "u = t")
    case False
    then have "in_section (at s t) \<Longrightarrow> \<not> in_section (at s u)" using l by auto
    then show ?thesis
      using assms(2,5) False ok [of u] thread_ok_outside [of s "at s u" s'] thread_ok_same [of s "at s u" s'] by auto
  qed (use assms(2,6) in simp)
  ultimately show ?thesis using assms(7) by (simp add: singleton_inv_def)
qed

lemma instance_ok_keep:
  assumes "instance_ok s" and "sInstance s' = sInstance s" and "constructed s' = constructed s"
    and "exit_hooks s' = exit_hooks s" and "at s' = (at s)(t := c)" and "\<forall>p. at s t \<noteq> Publish p \<and> at s t \<noteq> Register"
  shows "instance_ok s'"
  using assms by (auto simp: instance_ok_def split: if_splits)

lemma singleton_inv_step:
  assumes "singleton_inv s" and "fresh \<noteq> NULL" and "Instance_step t fresh s = Some s'"
  shows "singleton_inv s'"
proof -
  have ok: "thread_ok s (at s t)" "instance_ok s" "in_section (at s t) \<longleftrightarrow> sLock s = Some t"
    using assms(1) by (auto simp: singleton_inv_def)
  have no_hook: "exit_hooks s = 0" if "at s t = Publish p" for p
    using that ok by (auto simp: instance_ok_def thread_ok_def split: if_splits)
  have no_publish: "constructed s = []" if "sInstance s = NULL" "at s t = Second_check"
    using that ok assms(1) by (auto simp: instance_ok_def singleton_inv_def in_section_def) (metis option.inject singleton_pc.distinct singleton_pc.simps)
  have "at s' = (at s)(t := at s' t)"
    using assms(3) by (auto simp: Instance_step_def split: singleton_pc.splits if_splits)
  moreover have "in_section (at s' t) \<longleftrightarrow> sLock s' = Some t" "\<forall>u. u \<noteq> t \<longrightarrow> (sLock s' = Some u \<longleftrightarrow> sLock s = Some u)"
    using assms(3) ok(3) by (auto simp: Instance_step_def in_section_def split: singleton_pc.splits if_splits)
  moreover have "sInstance s' = sInstance s \<and> constructed s' = constructed s \<and> exit_hooks s' = exit_hooks s \<or>
      in_section (at s t) \<and> (sInstance s \<noteq> NULL \<longrightarrow> sInstance s' = sInstance s)"
    using assms(3) ok(1) by (auto simp: Instance_step_def in_section_def thread_ok_def split: singleton_pc.splits if_splits)
  moreover have "thread_ok s' (at s' t)"
    using assms(2,3) ok(1) no_publish no_hook by (auto simp: Instance_step_def thread_ok_def split: singleton_pc.splits if_splits)
  moreover have "instance_ok s'"
  proof (cases "at s t = Construct \<or> (\<exists>p. at s t = Publish p) \<or> at s t = Register")
    case True
    then show ?thesis
      using assms(3) ok(1,2) by (auto simp: Instance_step_def thread_ok_def instance_ok_def) metis+
  next
    case False
    then have "sInstance s' = sInstance s" "constructed s' = constructed s" "exit_hooks s' = exit_hooks s"
      using assms(3) by (auto simp: Instance_step_def split: singleton_pc.splits if_splits)
    then show ?thesis using instance_ok_keep [OF ok(2) _ _ _ calculation(1)] False by auto
  qed
  ultimately show ?thesis using singleton_inv_move [OF assms(1)] by blast
qed


lemma reach_singleton_inv: "singleton_reach s \<Longrightarrow> singleton_inv s"
  by (induction rule: singleton_reach.induct) (auto intro: singleton_inv_init singleton_inv_step)

section \<open>Properties of Singleton\<close>

text \<open>
  C14. However the steps of any number of threads in \<open>Instance\<close> interleave, the double check constructs at most
  one object and registers \<open>Destroy\<close> at most once; every call that returns gives that object, never null; at
  most one thread is between the lock and the unlock; and \<open>Destroy\<close> afterwards deletes that object.
\<close>

theorem singleton_constructed_once:
  assumes "singleton_reach s"
  shows "length (constructed s) \<le> 1 \<and> exit_hooks s \<le> 1 \<and>
    (\<forall>t p. at s t = Returned p \<longrightarrow> p \<noteq> NULL \<and> constructed s = [p] \<and> constructed (Singleton_Destroy s) = []) \<and>
    (\<forall>t u. in_section (at s t) \<and> in_section (at s u) \<longrightarrow> t = u)"
proof -
  have i: "singleton_inv s" using reach_singleton_inv [OF assms] .
  then have ok: "thread_ok s (at s t)" "in_section (at s t) \<longleftrightarrow> sLock s = Some t" for t
    by (simp_all add: singleton_inv_def)
  have "length (constructed s) \<le> 1"
  proof (cases "\<exists>t p. at s t = Publish p")
    case True
    then obtain t p where "at s t = Publish p" by blast
    then show ?thesis using ok(1) [of t] by (simp add: thread_ok_def)
  qed (use i in \<open>auto simp: singleton_inv_def instance_ok_def split: if_splits\<close>)
  moreover have "exit_hooks s \<le> 1" using i by (auto simp: singleton_inv_def instance_ok_def split: if_splits)
  moreover have "p \<noteq> NULL \<and> constructed s = [p] \<and> constructed (Singleton_Destroy s) = []" if "at s t = Returned p" for t p
    using that ok(1) [of t] i by (auto simp: thread_ok_def singleton_inv_def instance_ok_def Singleton_Destroy_def split: if_splits)
  moreover have "t = u" if "in_section (at s t)" "in_section (at s u)" for t u
    using that ok(2) [of t] ok(2) [of u] by simp
  ultimately show ?thesis by blast
qed

fun Instance_steps :: "(nat \<times> addr) list \<Rightarrow> singleton \<Rightarrow> singleton option" where
  "Instance_steps [] s = Some s"
| "Instance_steps ((t, fresh) # sched) s = Option.bind (Instance_step t fresh s) (Instance_steps sched)"

lemma Instance_steps_reach:
  "singleton_reach s \<Longrightarrow> \<forall>(t, fresh) \<in> set sched. fresh \<noteq> NULL \<Longrightarrow> Instance_steps sched s = Some s' \<Longrightarrow> singleton_reach s'"
  by (induction sched s arbitrary: s' rule: Instance_steps.induct) (auto simp: bind_eq_Some_conv intro: singleton_reach.step)

theorem singleton_constructed_once_witness:
  "\<exists>s. Instance_steps [(0, 8), (1, 16), (0, 8), (0, 8), (0, 8), (0, 8), (0, 8), (0, 8), (1, 16), (1, 16), (1, 16), (0, 8), (1, 16)] singleton_init = Some s \<and>
     at s 0 = Returned 8 \<and> at s 1 = Returned 8 \<and> length (constructed s) \<le> 1"
proof -
  obtain s where s: "Instance_steps [(0, 8), (1, 16), (0, 8), (0, 8), (0, 8), (0, 8), (0, 8), (0, 8), (1, 16), (1, 16), (1, 16), (0, 8), (1, 16)] singleton_init = Some s"
    and r: "at s 0 = Returned 8" "at s 1 = Returned 8"
    by (simp add: singleton_init_def Instance_step_def)
  have "singleton_reach s" by (rule Instance_steps_reach [OF singleton_reach.start _ s]) simp
  from singleton_constructed_once [OF this] show ?thesis using s r by blast
qed

end
