(* ===== verification/Stone_Lockfree_Stack.thy ===== *)
theory Stone_Lockfree_Stack
  imports Stone_Atomic Stone_Tagged_Pointer Stone_Containers
begin

text \<open>
  \<^verbatim>\<open>threading/lockfree/lockfree_stack.h\<close>: the operations of \<open>LockFreeStack\<close> as one thread executes them while no
  other thread interferes. A \<open>Node*\<close> is its index in \<open>mNodeBuffer\<close>; an access outside of the buffer is an
  error value. Every compare-and-swap loop is a loop of the model too (\<open>None\<close> is a loop that does not end), and
  it is proved to end. The elements live in a chain of nodes through \<open>mNext\<close>, the unused nodes in a chain through
  \<open>mNextFreeNode\<close>; together they are all nodes of the buffer.
\<close>

section \<open>The class\<close>

record 'a stack_node =
  mNext :: u32
  mNextFreeNode :: u32
  mValue :: 'a

record 'a LockFreeStack =
  mLimit :: u64
  mSize :: u64
  mNodeBuffer :: "'a stack_node list"
  mHead :: u64
  mFreeNodeHead :: u64

definition kNullPointer :: u64 where
  "kNullPointer = 0xFFFFFFFF00000000"

definition buffer_at :: "'a LockFreeStack \<Rightarrow> nat \<Rightarrow> 'a stack_node result" where
  "buffer_at s i = (if i < length (mNodeBuffer s) then Inr (mNodeBuffer s ! i) else Inl Out_of_bounds)"

definition node_update :: "nat \<Rightarrow> ('a stack_node \<Rightarrow> 'a stack_node) \<Rightarrow> 'a LockFreeStack \<Rightarrow> 'a LockFreeStack result" where
  \<comment> \<open>an assignment to a member of \<open>mNodeBuffer[i]\<close>\<close>
  "node_update i f s = bind_result (buffer_at s i) (\<lambda>n. Inr (s\<lparr>mNodeBuffer := (mNodeBuffer s)[i := f n]\<rparr>))"

definition LockFreeStack_Normalize :: "u64 \<Rightarrow> u64 result" where
  "LockFreeStack_Normalize sz = (if sz = 0 \<or> sz \<ge> 2 ^ 24 then Inl Abort else Inr sz)"

definition LockFreeStack_GetIndex :: "nat \<Rightarrow> u32" where
  "LockFreeStack_GetIndex node = of_nat node"

partial_function (option) AcquireNode_loop :: "'a LockFreeStack \<Rightarrow> (nat option \<times> 'a LockFreeStack) result option" where
  "AcquireNode_loop s =
     (let head = mFreeNodeHead s; index = Index head in
      if index = kLockFreeNullPointer then Some (Inr (None, s))
      else case buffer_at s (unat index) of
        Inl e \<Rightarrow> Some (Inl e)
      | Inr pnode \<Rightarrow>
          (let tag = Tag head + 1;
               newhead = MakePointer_index (mNextFreeNode pnode) tag;
               (ok, v) = AtomicCompareExchange (mFreeNodeHead s) newhead head;
               s' = s\<lparr>mFreeNodeHead := v\<rparr>
           in if ok then Some (Inr (Some (unat index), s')) else AcquireNode_loop s'))"

definition LockFreeStack_AcquireNode :: "'a LockFreeStack \<Rightarrow> (nat option \<times> 'a LockFreeStack) result" where
  \<comment> \<open>\<open>Some node\<close> is the result \<open>true\<close> with \<open>*node\<close>, \<open>None\<close> the result \<open>false\<close>\<close>
  "LockFreeStack_AcquireNode s = loop_result (AcquireNode_loop s)"

partial_function (option) ReleaseNode_loop :: "nat \<Rightarrow> 'a LockFreeStack \<Rightarrow> 'a LockFreeStack result option" where
  "ReleaseNode_loop node s =
     (let head = mFreeNodeHead s;
          newhead = MakePointer_index (LockFreeStack_GetIndex node) (Tag head + 1)
      in case node_update node (\<lambda>n. n\<lparr>mNextFreeNode := Index head\<rparr>) s of
        Inl e \<Rightarrow> Some (Inl e)
      | Inr s1 \<Rightarrow>
          (let (ok, v) = AtomicCompareExchange (mFreeNodeHead s1) newhead head;
               s2 = s1\<lparr>mFreeNodeHead := v\<rparr>
           in if ok then Some (Inr s2) else ReleaseNode_loop node s2))"

definition LockFreeStack_ReleaseNode :: "'a \<Rightarrow> nat \<Rightarrow> 'a LockFreeStack \<Rightarrow> 'a LockFreeStack result" where
  \<comment> \<open>\<open>dflt\<close> is \<open>T()\<close>\<close>
  "LockFreeStack_ReleaseNode dflt node s =
     bind_result (node_update node (\<lambda>n. n\<lparr>mValue := dflt\<rparr>) s) (\<lambda>s1. loop_result (ReleaseNode_loop node s1))"

primrec init_nodes :: "'a \<Rightarrow> nat list \<Rightarrow> 'a LockFreeStack \<Rightarrow> 'a LockFreeStack result" where
  \<comment> \<open>the second loop of the constructor, over the shuffled indices\<close>
  "init_nodes dflt [] s = Inr s"
| "init_nodes dflt (i # is) s =
     bind_result (node_update i (\<lambda>n. n\<lparr>mNext := 0, mNextFreeNode := kLockFreeNullPointer\<rparr>) s) (\<lambda>s1.
     bind_result (LockFreeStack_ReleaseNode dflt i s1) (init_nodes dflt is))"

definition LockFreeStack_new ::
  "'a \<Rightarrow> (nat list \<Rightarrow> nat list) \<Rightarrow> (nat \<Rightarrow> 'a stack_node list) \<Rightarrow> u64 \<Rightarrow> u64 \<Rightarrow> 'a LockFreeStack result" where
  \<comment> \<open>\<open>shuffle\<close> is \<open>std::random_shuffle\<close>, \<open>raw n\<close> the nodes of \<open>new Node[n]\<close>, \<open>head0\<close> the member before it is set\<close>
  "LockFreeStack_new dflt shuffle raw head0 sz =
     bind_result (LockFreeStack_Normalize sz) (\<lambda>limit.
       let s0 = \<lparr>mLimit = limit, mSize = 0, mNodeBuffer = raw (unat limit), mHead = head0, mFreeNodeHead = kNullPointer\<rparr>;
           index = shuffle [0..<unat limit]
       in bind_result (init_nodes dflt index s0) (\<lambda>s1. Inr (s1\<lparr>mHead := kNullPointer\<rparr>)))"

partial_function (option) Push_loop :: "nat \<Rightarrow> u32 \<Rightarrow> 'a LockFreeStack \<Rightarrow> 'a LockFreeStack result option" where
  "Push_loop node index s =
     (let head = mHead s in
      case node_update node (\<lambda>n. n\<lparr>mNext := Index head\<rparr>) s of
        Inl e \<Rightarrow> Some (Inl e)
      | Inr s1 \<Rightarrow>
          (let newhead = MakePointer_index index (Tag head + 1);
               (ok, v) = AtomicCompareExchange (mHead s1) newhead head;
               s2 = s1\<lparr>mHead := v\<rparr>
           in if ok then Some (Inr s2) else Push_loop node index s2))"

definition LockFreeStack_Push :: "'a \<Rightarrow> 'a LockFreeStack \<Rightarrow> (bool \<times> 'a LockFreeStack) result" where
  "LockFreeStack_Push elem s =
     bind_result (LockFreeStack_AcquireNode s) (\<lambda>(r, s1).
       case r of
         None \<Rightarrow> Inr (False, s1)
       | Some node \<Rightarrow>
           bind_result (node_update node (\<lambda>n. n\<lparr>mValue := elem\<rparr>) s1) (\<lambda>s2.
           bind_result (loop_result (Push_loop node (LockFreeStack_GetIndex node) s2)) (\<lambda>s3.
             Inr (True, s3\<lparr>mSize := snd (AtomicIncrement (mSize s3))\<rparr>))))"

partial_function (option) Pop_loop :: "'a LockFreeStack \<Rightarrow> (nat option \<times> 'a LockFreeStack) result option" where
  "Pop_loop s =
     (let head = mHead s; index = Index head in
      if index = kLockFreeNullPointer then Some (Inr (None, s))
      else case buffer_at s (unat index) of
        Inl e \<Rightarrow> Some (Inl e)
      | Inr node \<Rightarrow>
          (let newhead = MakePointer_index (mNext node) (Tag head + 1);
               (ok, v) = AtomicCompareExchange (mHead s) newhead head;
               s' = s\<lparr>mHead := v\<rparr>
           in if ok then Some (Inr (Some (unat index), s')) else Pop_loop s'))"

definition LockFreeStack_Pop :: "'a \<Rightarrow> 'a LockFreeStack \<Rightarrow> ('a option \<times> 'a LockFreeStack) result" where
  \<comment> \<open>\<open>Some x\<close> is the result \<open>true\<close> with \<open>*elem = x\<close>\<close>
  "LockFreeStack_Pop dflt s =
     bind_result (loop_result (Pop_loop s)) (\<lambda>(r, s1).
       case r of
         None \<Rightarrow> Inr (None, s1)
       | Some node \<Rightarrow>
           bind_result (buffer_at s1 node) (\<lambda>n.
           bind_result (LockFreeStack_ReleaseNode dflt node s1) (\<lambda>s2.
             Inr (Some (mValue n), s2\<lparr>mSize := snd (AtomicDecrement (mSize s2))\<rparr>))))"

definition LockFreeStack_dtor :: "'a LockFreeStack \<Rightarrow> 'a LockFreeStack" where
  \<comment> \<open>after \<open>delete[]\<close> no index of the buffer can be accessed\<close>
  "LockFreeStack_dtor s = s\<lparr>mNodeBuffer := []\<rparr>"

definition LockFreeStack_Size :: "'a LockFreeStack \<Rightarrow> u64" where
  "LockFreeStack_Size s = AtomicGet (mSize s)"

definition LockFreeStack_Empty :: "'a LockFreeStack \<Rightarrow> bool" where
  "LockFreeStack_Empty s \<longleftrightarrow> LockFreeStack_Size s = 0"

section \<open>Chains of nodes\<close>

primrec chain :: "(nat \<Rightarrow> u32) \<Rightarrow> u32 \<Rightarrow> nat list \<Rightarrow> bool" where
  "chain f i [] \<longleftrightarrow> i = kLockFreeNullPointer"
| "chain f i (x # xs) \<longleftrightarrow> i = of_nat x \<and> x < 2 ^ 24 \<and> chain f (f x) xs"

definition next_of :: "'a LockFreeStack \<Rightarrow> nat \<Rightarrow> u32" where
  "next_of s i = mNext (mNodeBuffer s ! i)"

definition next_free_of :: "'a LockFreeStack \<Rightarrow> nat \<Rightarrow> u32" where
  "next_free_of s i = mNextFreeNode (mNodeBuffer s ! i)"

definition free_rep :: "'a LockFreeStack \<Rightarrow> nat list \<Rightarrow> bool" where
  "free_rep s fs \<longleftrightarrow> chain (next_free_of s) (Index (mFreeNodeHead s)) fs \<and> distinct fs"

definition stack_rep :: "'a LockFreeStack \<Rightarrow> 'a list \<Rightarrow> bool" where
  "stack_rep s xs \<longleftrightarrow> (\<exists>is fs.
     chain (next_of s) (Index (mHead s)) is \<and> free_rep s fs \<and> distinct (is @ fs) \<and>
     set (is @ fs) = {..<length (mNodeBuffer s)} \<and>
     xs = map (\<lambda>i. mValue (mNodeBuffer s ! i)) is \<and>
     mSize s = of_nat (length xs) \<and> mLimit s = of_nat (length (mNodeBuffer s)) \<and> length (mNodeBuffer s) < 2 ^ 24)"

lemma chain_cong: "(\<And>x. x \<in> set xs \<Longrightarrow> f x = g x) \<Longrightarrow> chain f i xs = chain g i xs"
  by (induction xs arbitrary: i) auto

lemma index_of_nat [simp]: "x < 2 ^ 24 \<Longrightarrow> unat (of_nat x :: u32) = x"
  by (simp add: unat_of_nat)

lemma of_nat_not_null [simp]:
  assumes "x < 2 ^ 24"
  shows "(of_nat x :: u32) \<noteq> kLockFreeNullPointer" "kLockFreeNullPointer \<noteq> (of_nat x :: u32)"
proof -
  have "unat (kLockFreeNullPointer) = 4294967295" by (simp add: kLockFreeNullPointer_def)
  then have "(of_nat x :: u32) \<noteq> kLockFreeNullPointer" using index_of_nat [OF assms] assms by fastforce
  then show "(of_nat x :: u32) \<noteq> kLockFreeNullPointer" "kLockFreeNullPointer \<noteq> (of_nat x :: u32)" by auto
qed

declare Index_MakePointer [simp]

lemma Index_kNullPointer [simp]: "Index kNullPointer = kLockFreeNullPointer"
  by (simp add: Index_def kNullPointer_def kLockFreeNullPointer_def)

section \<open>One operation after the other\<close>

lemma buffer_at_ok [simp]: "i < length (mNodeBuffer s) \<Longrightarrow> buffer_at s i = Inr (mNodeBuffer s ! i)"
  by (simp add: buffer_at_def)

lemma node_update_ok [simp]:
  "i < length (mNodeBuffer s) \<Longrightarrow> node_update i f s = Inr (s\<lparr>mNodeBuffer := (mNodeBuffer s)[i := f (mNodeBuffer s ! i)]\<rparr>)"
  by (simp add: node_update_def)

lemma AcquireNode_none:
  "Index (mFreeNodeHead s) = kLockFreeNullPointer \<Longrightarrow> LockFreeStack_AcquireNode s = Inr (None, s)"
  by (simp add: LockFreeStack_AcquireNode_def AcquireNode_loop.simps loop_result_def)

lemma AcquireNode_some:
  "Index (mFreeNodeHead s) = of_nat f \<Longrightarrow> f < length (mNodeBuffer s) \<Longrightarrow> f < 2 ^ 24 \<Longrightarrow>
   LockFreeStack_AcquireNode s =
     Inr (Some f, s\<lparr>mFreeNodeHead := MakePointer_index (next_free_of s f) (Tag (mFreeNodeHead s) + 1)\<rparr>)"
  by (simp add: LockFreeStack_AcquireNode_def AcquireNode_loop.simps loop_result_def Let_def next_free_of_def)

lemma ReleaseNode_eq:
  "node < length (mNodeBuffer s) \<Longrightarrow>
   LockFreeStack_ReleaseNode dflt node s =
     Inr (s\<lparr>mNodeBuffer := (mNodeBuffer s)[node := (mNodeBuffer s ! node)\<lparr>mValue := dflt, mNextFreeNode := Index (mFreeNodeHead s)\<rparr>],
            mFreeNodeHead := MakePointer_index (of_nat node) (Tag (mFreeNodeHead s) + 1)\<rparr>)"
  by (simp add: LockFreeStack_ReleaseNode_def ReleaseNode_loop.simps loop_result_def Let_def LockFreeStack_GetIndex_def)

lemma Push_loop_eq:
  "node < length (mNodeBuffer s) \<Longrightarrow>
   loop_result (Push_loop node index s) =
     Inr (s\<lparr>mNodeBuffer := (mNodeBuffer s)[node := (mNodeBuffer s ! node)\<lparr>mNext := Index (mHead s)\<rparr>],
            mHead := MakePointer_index index (Tag (mHead s) + 1)\<rparr>)"
  by (simp add: Push_loop.simps loop_result_def Let_def)

lemma Pop_loop_none:
  "Index (mHead s) = kLockFreeNullPointer \<Longrightarrow> loop_result (Pop_loop s) = Inr (None, s)"
  by (simp add: Pop_loop.simps loop_result_def)

lemma Pop_loop_some:
  "Index (mHead s) = of_nat i \<Longrightarrow> i < length (mNodeBuffer s) \<Longrightarrow> i < 2 ^ 24 \<Longrightarrow>
   loop_result (Pop_loop s) = Inr (Some i, s\<lparr>mHead := MakePointer_index (next_of s i) (Tag (mHead s) + 1)\<rparr>)"
  by (simp add: Pop_loop.simps loop_result_def Let_def next_of_def)

lemma chain_upd:
  "i \<notin> set xs \<Longrightarrow> chain (\<lambda>x. g (ns[i := n] ! x)) k xs = chain (\<lambda>x. g (ns ! x)) k xs"
  by (rule chain_cong) (metis nth_list_update_neq)

lemma map_upd:
  "i \<notin> set xs \<Longrightarrow> map (\<lambda>x. g (ns[i := n] ! x)) xs = map (\<lambda>x. g (ns ! x)) xs"
  by (auto intro!: map_cong) (metis nth_list_update_neq)

lemmas stack_rep_simps = stack_rep_def free_rep_def next_of_def [abs_def] next_free_of_def [abs_def]

lemma Push_ok:
  assumes "stack_rep s xs" and "length xs < length (mNodeBuffer s)"
  shows "\<exists>s'. LockFreeStack_Push x s = Inr (True, s') \<and> stack_rep s' (x # xs) \<and>
    length (mNodeBuffer s') = length (mNodeBuffer s)"
proof -
  obtain "is" fs where r: "chain (next_of s) (Index (mHead s)) is" "chain (next_free_of s) (Index (mFreeNodeHead s)) fs"
      "distinct (is @ fs)" "set (is @ fs) = {..<length (mNodeBuffer s)}" "xs = map (\<lambda>i. mValue (mNodeBuffer s ! i)) is"
      "mSize s = of_nat (length xs)" "mLimit s = of_nat (length (mNodeBuffer s))" "length (mNodeBuffer s) < 2 ^ 24"
    using assms(1) by (auto simp: stack_rep_def free_rep_def)
  have "fs \<noteq> []"
    using r(3-5) assms(2) distinct_card [of "is"] by auto
  then obtain f fs' where fs: "fs = f # fs'" by (cases fs) auto
  then have f: "f < length (mNodeBuffer s)" "f < 2 ^ 24" "f \<notin> set is" "f \<notin> set fs'" "Index (mFreeNodeHead s) = of_nat f"
    using r(2-4) by auto
  let ?s' = "s\<lparr>mNodeBuffer := (mNodeBuffer s)[f := (mNodeBuffer s ! f)\<lparr>mValue := x, mNext := Index (mHead s)\<rparr>],
      mHead := MakePointer_index (of_nat f) (Tag (mHead s) + 1),
      mFreeNodeHead := MakePointer_index (next_free_of s f) (Tag (mFreeNodeHead s) + 1), mSize := mSize s + 1\<rparr>"
  have "LockFreeStack_Push x s = Inr (True, ?s')"
    using f by (simp add: LockFreeStack_Push_def AcquireNode_some Push_loop_eq LockFreeStack_GetIndex_def stone_defs)
  moreover have "stack_rep ?s' (x # xs)"
    unfolding stack_rep_simps
    by (rule exI [of _ "f # is"], rule exI [of _ fs'])
       (use r f fs in \<open>auto simp: chain_upd map_upd next_of_def [abs_def] next_free_of_def [abs_def] add.commute\<close>)
  ultimately show ?thesis by simp
qed

lemma Push_full:
  assumes "stack_rep s xs" and "length xs = length (mNodeBuffer s)"
  shows "LockFreeStack_Push x s = Inr (False, s)"
proof -
  obtain "is" fs where r: "chain (next_free_of s) (Index (mFreeNodeHead s)) fs" "distinct (is @ fs)"
      "set (is @ fs) = {..<length (mNodeBuffer s)}" "length is = length (mNodeBuffer s)"
    using assms by (auto simp: stack_rep_def free_rep_def)
  have "card (set (is @ fs)) = length is + length fs" using r(2) distinct_card [of "is @ fs"] by simp
  then have "fs = []" using r(3,4) by simp
  then show ?thesis using r(1) by (simp add: LockFreeStack_Push_def AcquireNode_none)
qed

lemma Pop_ok:
  assumes "stack_rep s (x # xs)"
  shows "\<exists>s'. LockFreeStack_Pop dflt s = Inr (Some x, s') \<and> stack_rep s' xs \<and>
    length (mNodeBuffer s') = length (mNodeBuffer s)"
proof -
  obtain i "is" fs where r: "chain (next_of s) (Index (mHead s)) (i # is)" "chain (next_free_of s) (Index (mFreeNodeHead s)) fs"
      "distinct ((i # is) @ fs)" "set ((i # is) @ fs) = {..<length (mNodeBuffer s)}" "x = mValue (mNodeBuffer s ! i)"
      "xs = map (\<lambda>i. mValue (mNodeBuffer s ! i)) is"
      "mSize s = of_nat (Suc (length xs))" "mLimit s = of_nat (length (mNodeBuffer s))" "length (mNodeBuffer s) < 2 ^ 24"
    using assms by (auto simp: stack_rep_def free_rep_def)
  then have i: "i < length (mNodeBuffer s)" "i < 2 ^ 24" "i \<notin> set is" "i \<notin> set fs" "Index (mHead s) = of_nat i" by auto
  let ?s' = "s\<lparr>mNodeBuffer := (mNodeBuffer s)[i := (mNodeBuffer s ! i)\<lparr>mValue := dflt, mNextFreeNode := Index (mFreeNodeHead s)\<rparr>],
      mHead := MakePointer_index (next_of s i) (Tag (mHead s) + 1),
      mFreeNodeHead := MakePointer_index (of_nat i) (Tag (mFreeNodeHead s) + 1), mSize := mSize s - 1\<rparr>"
  have "LockFreeStack_Pop dflt s = Inr (Some x, ?s')"
    using i r(5) by (simp add: LockFreeStack_Pop_def Pop_loop_some ReleaseNode_eq stone_defs)
  moreover have "stack_rep ?s' xs"
    unfolding stack_rep_simps
    by (rule exI [of _ "is"], rule exI [of _ "i # fs"])
       (use r i in \<open>auto simp: chain_upd map_upd next_of_def [abs_def] next_free_of_def [abs_def]\<close>)
  ultimately show ?thesis by simp
qed

lemma Pop_empty: "stack_rep s [] \<Longrightarrow> LockFreeStack_Pop dflt s = Inr (None, s)"
  by (auto simp: stack_rep_def LockFreeStack_Pop_def Pop_loop_none)


section \<open>The constructor\<close>

lemma init_nodes_ok:
  assumes "free_rep s fs" and "distinct (is @ fs)" and "set is \<subseteq> {..<length (mNodeBuffer s)}"
    and "length (mNodeBuffer s) < 2 ^ 24"
  shows "\<exists>s'. init_nodes dflt is s = Inr s' \<and> free_rep s' (rev is @ fs) \<and>
    length (mNodeBuffer s') = length (mNodeBuffer s) \<and> mSize s' = mSize s \<and> mLimit s' = mLimit s"
  using assms
proof (induction "is" arbitrary: s fs)
  case (Cons i "is")
  then have i: "i < length (mNodeBuffer s)" "i < 2 ^ 24" "i \<notin> set fs" by auto
  define s1 where "s1 = s\<lparr>mNodeBuffer := (mNodeBuffer s)[i := (mNodeBuffer s ! i)
      \<lparr>mNext := 0, mValue := dflt, mNextFreeNode := Index (mFreeNodeHead s)\<rparr>],
    mFreeNodeHead := MakePointer_index (of_nat i) (Tag (mFreeNodeHead s) + 1)\<rparr>"
  have "init_nodes dflt (i # is) s = init_nodes dflt is s1"
    using i by (simp add: ReleaseNode_eq s1_def)
  moreover have "free_rep s1 (i # fs)"
    using Cons.prems(1) i by (auto simp: free_rep_def s1_def next_free_of_def [abs_def] chain_upd)
  then have "\<exists>s'. init_nodes dflt is s1 = Inr s' \<and> free_rep s' (rev is @ i # fs) \<and>
    length (mNodeBuffer s') = length (mNodeBuffer s1) \<and> mSize s' = mSize s1 \<and> mLimit s' = mLimit s1"
    by (rule Cons.IH) (use Cons.prems in \<open>auto simp: s1_def\<close>)
  ultimately show ?case by (simp add: s1_def)
qed simp

lemma new_ok:
  assumes "sz \<noteq> 0" and "sz < 2 ^ 24" and "mset (shuffle [0..<unat sz]) = mset [0..<unat sz]"
    and "length (raw (unat sz)) = unat sz"
  shows "\<exists>s. LockFreeStack_new dflt shuffle raw head0 sz = Inr s \<and> stack_rep s [] \<and> length (mNodeBuffer s) = unat sz"
proof -
  let ?s0 = "\<lparr>mLimit = sz, mSize = 0, mNodeBuffer = raw (unat sz), mHead = head0, mFreeNodeHead = kNullPointer\<rparr>"
  let ?ix = "shuffle [0..<unat sz]"
  have ix: "distinct ?ix" "set ?ix = {..<unat sz}"
    using assms(3) mset_eq_imp_distinct_iff [OF assms(3)] mset_eq_setD [OF assms(3)] by (simp_all add: lessThan_atLeast0)
  have sz: "unat sz < 2 ^ 24" using assms(2) by (simp add: word_less_nat_alt)
  have "\<exists>s'. init_nodes dflt ?ix ?s0 = Inr s' \<and> free_rep s' (rev ?ix @ []) \<and>
      length (mNodeBuffer s') = length (mNodeBuffer ?s0) \<and> mSize s' = mSize ?s0 \<and> mLimit s' = mLimit ?s0"
    by (rule init_nodes_ok) (use ix sz assms(4) in \<open>auto simp: free_rep_def\<close>)
  then obtain s1 where s1: "init_nodes dflt ?ix ?s0 = Inr s1" "free_rep s1 (rev ?ix)"
      "length (mNodeBuffer s1) = unat sz" "mSize s1 = 0" "mLimit s1 = sz"
    using assms(4) by auto
  have "stack_rep (s1\<lparr>mHead := kNullPointer\<rparr>) []"
    unfolding stack_rep_def
    by (rule exI [of _ "[]"], rule exI [of _ "rev ?ix"]) (use s1 ix sz in \<open>simp add: free_rep_def next_free_of_def [abs_def]\<close>)
  then show ?thesis
    using s1(1,3) assms(1,2) by (simp add: LockFreeStack_new_def LockFreeStack_Normalize_def)
qed

section \<open>LockFreeStack as a stack\<close>

definition stack_of_limit :: "nat \<Rightarrow> 'a LockFreeStack \<Rightarrow> 'a list \<Rightarrow> bool" where
  "stack_of_limit n s xs \<longleftrightarrow> stack_rep s xs \<and> length (mNodeBuffer s) = n"

definition stack_push :: "'a \<Rightarrow> 'a LockFreeStack \<Rightarrow> 'a LockFreeStack result" where
  "stack_push x s = bind_result (LockFreeStack_Push x s) (\<lambda>(ok, s'). if ok then Inr s' else Inl Out_of_range)"

definition stack_pop :: "'a \<Rightarrow> 'a LockFreeStack \<Rightarrow> ('a \<times> 'a LockFreeStack) result" where
  "stack_pop dflt s = bind_result (LockFreeStack_Pop dflt s) (\<lambda>(r, s').
     case r of Some x \<Rightarrow> Inr (x, s') | None \<Rightarrow> Inl Out_of_range)"

interpretation lf_stack: lifo_container
    "stack_of_limit n" "\<lambda>_ _. True" "\<lambda>_ _. False" "\<lambda>k. k \<le> n" "stack_pop dflt" stack_push
  for n dflt
proof
  show "\<exists>s'. stack_pop dflt s = Inr (x, s') \<and> stack_of_limit n s' xs" if "stack_of_limit n s (x # xs)" for s x xs
    using that Pop_ok [of s x xs dflt] by (auto simp: stack_of_limit_def stack_pop_def)
  show "\<exists>s'. stack_push x s = Inr s' \<and> stack_of_limit n s' (x # xs) \<and> (\<forall>y. True \<and> \<not> False \<longrightarrow> True)"
    if "stack_of_limit n s xs" "length xs + 1 \<le> n" for s x xs
    using that Push_ok [of s xs x] by (auto simp: stack_of_limit_def stack_push_def)
qed simp

section \<open>Properties of LockFreeStack\<close>

text \<open>
  A new \<open>LockFreeStack\<close> of capacity \<open>sz\<close> (between 1 and \<open>2^24 - 1\<close>), whatever order the shuffle gives the free
  nodes, takes up to \<open>sz\<close> elements and gives them back last in, first out; no compare-and-swap loop fails to
  end and no node index is out of bounds.
\<close>

theorem lockfree_stack_lifo:
  assumes "sz \<noteq> 0" and "sz < 2 ^ 24" and "mset (shuffle [0..<unat sz]) = mset [0..<unat sz]"
    and "length (raw (unat sz)) = unat sz" and "length ys \<le> unat sz"
  shows "\<exists>s s' s''. LockFreeStack_new dflt shuffle raw head0 sz = Inr s \<and> push_all stack_push ys s = Inr s' \<and>
    pop_n (stack_pop dflt) (length ys) s' = Inr (rev ys, s'') \<and> stack_rep s'' []"
proof -
  obtain s where s: "LockFreeStack_new dflt shuffle raw head0 sz = Inr s" "stack_of_limit (unat sz) s []"
    using new_ok [of sz shuffle raw dflt head0] assms(1-4) by (auto simp: stack_of_limit_def)
  have "sorted_wrt (\<lambda>x y. \<not> False) ys" by (induction ys) auto
  then show ?thesis
    using lf_stack.lifo_order [OF s(2), of ys dflt] s(1) assms(5) by (auto simp: stack_of_limit_def)
qed

theorem lockfree_stack_lifo_witness:
  "\<exists>s s' s''. LockFreeStack_new 0 rev (\<lambda>n. replicate n \<lparr>mNext = 7, mNextFreeNode = 7, mValue = 0\<rparr>) 5 3 = Inr s \<and>
     push_all stack_push [10, 20, 10 :: nat] s = Inr s' \<and>
     pop_n (stack_pop 0) (length [10, 20, 10 :: nat]) s' = Inr (rev [10, 20, 10], s'') \<and> stack_rep s'' []"
  by (rule lockfree_stack_lifo) simp_all

text \<open>
  On a stack that holds \<open>xs\<close>, \<open>Push\<close> returns false and changes nothing exactly when all nodes are in use, \<open>Pop\<close>
  returns false and changes nothing exactly when the stack is empty, otherwise they add and remove the top
  element; \<open>Size\<close> is the number of elements, and \<open>Normalize\<close> aborts for capacity 0 and for \<open>2^24\<close> and above.
\<close>

theorem lockfree_stack_operations:
  assumes "stack_rep s xs"
  shows "(length xs < length (mNodeBuffer s) \<longrightarrow> (\<exists>s'. LockFreeStack_Push x s = Inr (True, s') \<and> stack_rep s' (x # xs))) \<and>
    (length xs = length (mNodeBuffer s) \<longrightarrow> LockFreeStack_Push x s = Inr (False, s)) \<and>
    (xs \<noteq> [] \<longrightarrow> (\<exists>s'. LockFreeStack_Pop dflt s = Inr (Some (hd xs), s') \<and> stack_rep s' (tl xs))) \<and>
    (xs = [] \<longrightarrow> LockFreeStack_Pop dflt s = Inr (None, s)) \<and>
    unat (LockFreeStack_Size s) = length xs \<and> (LockFreeStack_Empty s \<longleftrightarrow> xs = []) \<and>
    length xs \<le> length (mNodeBuffer s) \<and>
    (LockFreeStack_Normalize 0 = Inl Abort \<and> (sz \<ge> 2 ^ 24 \<longrightarrow> LockFreeStack_Normalize sz = Inl Abort))"
proof -
  have l: "length xs \<le> length (mNodeBuffer s)" "length xs < 2 ^ 24" "mSize s = of_nat (length xs)"
  proof -
    obtain "is" fs where r: "distinct (is @ fs)" "set (is @ fs) = {..<length (mNodeBuffer s)}" "length is = length xs"
      "length (mNodeBuffer s) < 2 ^ 24" "mSize s = of_nat (length xs)"
      using assms by (auto simp: stack_rep_def)
    then have "length xs + length fs = length (mNodeBuffer s)" using distinct_card [of "is @ fs"] by simp
    then show "length xs \<le> length (mNodeBuffer s)" "length xs < 2 ^ 24" "mSize s = of_nat (length xs)" using r(4,5) by simp_all
  qed
  then have "unat (LockFreeStack_Size s) = length xs"
    by (simp add: LockFreeStack_Size_def stone_defs unat_of_nat)
  moreover from this have "LockFreeStack_Empty s \<longleftrightarrow> xs = []"
    unfolding LockFreeStack_Empty_def by (metis length_0_conv unsigned_eq_0_iff)
  moreover have "xs \<noteq> [] \<longrightarrow> (\<exists>s'. LockFreeStack_Pop dflt s = Inr (Some (hd xs), s') \<and> stack_rep s' (tl xs))"
    using Pop_ok [of s "hd xs" "tl xs" dflt] assms by auto
  ultimately show ?thesis
    using Push_ok [OF assms] Push_full [OF assms] Pop_empty [of s dflt] assms l(1)
    by (auto simp: LockFreeStack_Normalize_def)
qed

theorem lockfree_stack_operations_witness:
  "LockFreeStack_Push 9 \<lparr>mLimit = 1, mSize = 1, mNodeBuffer = [\<lparr>mNext = kLockFreeNullPointer, mNextFreeNode = 0, mValue = 4 :: nat\<rparr>],
     mHead = MakePointer_index 0 1, mFreeNodeHead = kNullPointer\<rparr> =
   Inr (False, \<lparr>mLimit = 1, mSize = 1, mNodeBuffer = [\<lparr>mNext = kLockFreeNullPointer, mNextFreeNode = 0, mValue = 4\<rparr>],
     mHead = MakePointer_index 0 1, mFreeNodeHead = kNullPointer\<rparr>)"
proof -
  let ?s = "\<lparr>mLimit = 1, mSize = 1, mNodeBuffer = [\<lparr>mNext = kLockFreeNullPointer, mNextFreeNode = 0, mValue = 4 :: nat\<rparr>],
     mHead = MakePointer_index 0 1, mFreeNodeHead = kNullPointer\<rparr>"
  have "stack_rep ?s [4]"
    unfolding stack_rep_def by (rule exI [of _ "[0]"], rule exI [of _ "[]"]) (simp add: free_rep_def next_of_def lessThan_Suc)
  then show ?thesis using lockfree_stack_operations [of ?s "[4]" 9 0 0] by simp
qed

end
