(* ===== verification/Stone_Lockfree_Stack_Threads.thy ===== *)
theory Stone_Lockfree_Stack_Threads
  imports Stone_Lockfree_Stack
begin

text \<open>
  \<open>LockFreeStack\<close> used by many threads at once. Every access of \<open>Push\<close>, \<open>Pop\<close>, \<open>AcquireNode\<close> and \<open>ReleaseNode\<close> to shared
  memory is one step of a thread, on the same record that the sequential definitions use. Four components record what happened
  and influence nothing: the number of successful compare-and-swaps on \<open>mHead\<close> (\<open>ver\<close>) and on \<open>mFreeNodeHead\<close>
  (\<open>fver\<close>), their value when a thread read the word it will compare (\<open>seen\<close>), and the operations in the order
  in which they took effect, with the nodes taken from and given back to the free list (\<open>log\<close>). In the control state \<open>LS_Pop_value\<close> the second component is the value of the node when it was
  taken off the stack; the thread reads the value only in the next step.
\<close>

section \<open>The machine\<close>

datatype 'a ls_pc =
    LS_Idle
  | LS_Acquire 'a              \<comment> \<open>\<open>Push(elem)\<close>, at the start of the loop of \<open>AcquireNode\<close>\<close>
  | LS_Acq_read 'a u64         \<comment> \<open>and the \<open>head\<close> that was read\<close>
  | LS_Acq_next 'a u64 u32     \<comment> \<open>and the \<open>mNextFreeNode\<close> that was read\<close>
  | LS_Push_value 'a nat       \<comment> \<open>the node was acquired\<close>
  | LS_Pushing 'a nat          \<comment> \<open>at the start of the loop of \<open>Push\<close>\<close>
  | LS_Push_read 'a nat u64
  | LS_Push_linked 'a nat u64
  | LS_Push_count
  | LS_Popping                 \<comment> \<open>at the start of the loop of \<open>Pop\<close>\<close>
  | LS_Pop_read u64
  | LS_Pop_next u64 u32
  | LS_Pop_value nat 'a
  | LS_Rel_value nat 'a        \<comment> \<open>in \<open>ReleaseNode\<close>, with \<open>*elem\<close>\<close>
  | LS_Releasing nat 'a
  | LS_Rel_read nat 'a u64
  | LS_Rel_linked nat 'a u64
  | LS_Pop_count 'a

datatype 'a ls_event =
    Acquired            \<comment> \<open>a \<open>Push\<close> took a node off the free list\<close>
  | Pushed 'a
  | Found_full          \<comment> \<open>a \<open>Push\<close> found no node and returns false\<close>
  | Popped 'a
  | Released            \<comment> \<open>a \<open>Pop\<close> put its node on the free list\<close>
  | Found_empty         \<comment> \<open>a \<open>Pop\<close> found no element and returns false\<close>

record 'a ls_state =
  stk :: "'a LockFreeStack"
  pcs :: "nat \<Rightarrow> 'a ls_pc"
  ver :: nat
  fver :: nat
  seen :: "nat \<Rightarrow> nat"
  log :: "'a ls_event list"

abbreviation node_at :: "'a ls_state \<Rightarrow> nat \<Rightarrow> 'a stack_node" where
  "node_at s i \<equiv> mNodeBuffer (stk s) ! i"

definition go :: "nat \<Rightarrow> 'a ls_pc \<Rightarrow> 'a ls_state \<Rightarrow> 'a ls_state" where
  "go t pc s = s\<lparr>pcs := (pcs s)(t := pc)\<rparr>"

definition write_node :: "nat \<Rightarrow> ('a stack_node \<Rightarrow> 'a stack_node) \<Rightarrow> 'a ls_state \<Rightarrow> 'a ls_state" where
  "write_node i f s = s\<lparr>stk := (stk s)\<lparr>mNodeBuffer := (mNodeBuffer (stk s))[i := f (node_at s i)]\<rparr>\<rparr>"

definition acq_read_step :: "nat \<Rightarrow> 'a \<Rightarrow> 'a ls_state \<Rightarrow> 'a ls_state" where
  "acq_read_step t x s =
     (let head = mFreeNodeHead (stk s)
      in if Index head = kLockFreeNullPointer then (go t LS_Idle s)\<lparr>log := Found_full # log s\<rparr>
         else (go t (LS_Acq_read x head) s)\<lparr>seen := (seen s)(t := fver s)\<rparr>)"

definition acq_next_step :: "nat \<Rightarrow> 'a \<Rightarrow> u64 \<Rightarrow> 'a ls_state \<Rightarrow> 'a ls_state" where
  "acq_next_step t x head s = go t (LS_Acq_next x head (mNextFreeNode (node_at s (unat (Index head))))) s"

definition acq_cas_step :: "nat \<Rightarrow> 'a \<Rightarrow> u64 \<Rightarrow> u32 \<Rightarrow> 'a ls_state \<Rightarrow> 'a ls_state" where
  "acq_cas_step t x head nxt s =
     (let (ok, v) = AtomicCompareExchange (mFreeNodeHead (stk s)) (MakePointer_index nxt (Tag head + 1)) head;
          s1 = s\<lparr>stk := (stk s)\<lparr>mFreeNodeHead := v\<rparr>\<rparr>
      in if ok then (go t (LS_Push_value x (unat (Index head))) s1)\<lparr>fver := fver s + 1, log := Acquired # log s\<rparr> else go t (LS_Acquire x) s1)"

definition push_value_step :: "nat \<Rightarrow> 'a \<Rightarrow> nat \<Rightarrow> 'a ls_state \<Rightarrow> 'a ls_state" where
  "push_value_step t x i s = go t (LS_Pushing x i) (write_node i (\<lambda>n. n\<lparr>mValue := x\<rparr>) s)"

definition stk_push_read_step :: "nat \<Rightarrow> 'a \<Rightarrow> nat \<Rightarrow> 'a ls_state \<Rightarrow> 'a ls_state" where
  "stk_push_read_step t x i s = (go t (LS_Push_read x i (mHead (stk s))) s)\<lparr>seen := (seen s)(t := ver s)\<rparr>"

definition stk_push_link_step :: "nat \<Rightarrow> 'a \<Rightarrow> nat \<Rightarrow> u64 \<Rightarrow> 'a ls_state \<Rightarrow> 'a ls_state" where
  "stk_push_link_step t x i head s = go t (LS_Push_linked x i head) (write_node i (\<lambda>n. n\<lparr>mNext := Index head\<rparr>) s)"

definition stk_push_cas_step :: "nat \<Rightarrow> 'a \<Rightarrow> nat \<Rightarrow> u64 \<Rightarrow> 'a ls_state \<Rightarrow> 'a ls_state" where
  "stk_push_cas_step t x i head s =
     (let (ok, v) = AtomicCompareExchange (mHead (stk s)) (MakePointer_index (LockFreeStack_GetIndex i) (Tag head + 1)) head;
          s1 = s\<lparr>stk := (stk s)\<lparr>mHead := v\<rparr>\<rparr>
      in if ok then (go t LS_Push_count s1)\<lparr>ver := ver s + 1, log := Pushed x # log s\<rparr> else go t (LS_Pushing x i) s1)"

definition stk_push_count_step :: "nat \<Rightarrow> 'a ls_state \<Rightarrow> 'a ls_state" where
  "stk_push_count_step t s = go t LS_Idle (s\<lparr>stk := (stk s)\<lparr>mSize := snd (AtomicIncrement (mSize (stk s)))\<rparr>\<rparr>)"

definition stk_pop_read_step :: "nat \<Rightarrow> 'a ls_state \<Rightarrow> 'a ls_state" where
  "stk_pop_read_step t s =
     (let head = mHead (stk s)
      in if Index head = kLockFreeNullPointer then (go t LS_Idle s)\<lparr>log := Found_empty # log s\<rparr>
         else (go t (LS_Pop_read head) s)\<lparr>seen := (seen s)(t := ver s)\<rparr>)"

definition stk_pop_next_step :: "nat \<Rightarrow> u64 \<Rightarrow> 'a ls_state \<Rightarrow> 'a ls_state" where
  "stk_pop_next_step t head s = go t (LS_Pop_next head (mNext (node_at s (unat (Index head))))) s"

definition stk_pop_cas_step :: "nat \<Rightarrow> u64 \<Rightarrow> u32 \<Rightarrow> 'a ls_state \<Rightarrow> 'a ls_state" where
  "stk_pop_cas_step t head nxt s =
     (let (ok, v) = AtomicCompareExchange (mHead (stk s)) (MakePointer_index nxt (Tag head + 1)) head;
          s1 = s\<lparr>stk := (stk s)\<lparr>mHead := v\<rparr>\<rparr>;
          x = mValue (node_at s (unat (Index head)))
      in if ok then (go t (LS_Pop_value (unat (Index head)) x) s1)\<lparr>ver := ver s + 1, log := Popped x # log s\<rparr> else go t LS_Popping s1)"

definition pop_value_step :: "nat \<Rightarrow> nat \<Rightarrow> 'a ls_state \<Rightarrow> 'a ls_state" where
  "pop_value_step t i s = go t (LS_Rel_value i (mValue (node_at s i))) s"

definition rel_value_step :: "'a \<Rightarrow> nat \<Rightarrow> nat \<Rightarrow> 'a \<Rightarrow> 'a ls_state \<Rightarrow> 'a ls_state" where
  "rel_value_step dflt t i x s = go t (LS_Releasing i x) (write_node i (\<lambda>n. n\<lparr>mValue := dflt\<rparr>) s)"

definition rel_read_step :: "nat \<Rightarrow> nat \<Rightarrow> 'a \<Rightarrow> 'a ls_state \<Rightarrow> 'a ls_state" where
  "rel_read_step t i x s = (go t (LS_Rel_read i x (mFreeNodeHead (stk s))) s)\<lparr>seen := (seen s)(t := fver s)\<rparr>"

definition rel_link_step :: "nat \<Rightarrow> nat \<Rightarrow> 'a \<Rightarrow> u64 \<Rightarrow> 'a ls_state \<Rightarrow> 'a ls_state" where
  "rel_link_step t i x head s = go t (LS_Rel_linked i x head) (write_node i (\<lambda>n. n\<lparr>mNextFreeNode := Index head\<rparr>) s)"

definition rel_cas_step :: "nat \<Rightarrow> nat \<Rightarrow> 'a \<Rightarrow> u64 \<Rightarrow> 'a ls_state \<Rightarrow> 'a ls_state" where
  "rel_cas_step t i x head s =
     (let (ok, v) = AtomicCompareExchange (mFreeNodeHead (stk s)) (MakePointer_index (LockFreeStack_GetIndex i) (Tag head + 1)) head;
          s1 = s\<lparr>stk := (stk s)\<lparr>mFreeNodeHead := v\<rparr>\<rparr>
      in if ok then (go t (LS_Pop_count x) s1)\<lparr>fver := fver s + 1, log := Released # log s\<rparr> else go t (LS_Releasing i x) s1)"

definition stk_pop_count_step :: "nat \<Rightarrow> 'a ls_state \<Rightarrow> 'a ls_state" where
  "stk_pop_count_step t s = go t LS_Idle (s\<lparr>stk := (stk s)\<lparr>mSize := snd (AtomicDecrement (mSize (stk s)))\<rparr>\<rparr>)"

lemmas ls_step_defs = go_def write_node_def acq_read_step_def acq_next_step_def acq_cas_step_def push_value_step_def
  stk_push_read_step_def stk_push_link_step_def stk_push_cas_step_def stk_push_count_step_def stk_pop_read_step_def stk_pop_next_step_def
  stk_pop_cas_step_def pop_value_step_def rel_value_step_def rel_read_step_def rel_link_step_def rel_cas_step_def stk_pop_count_step_def
  LockFreeStack_GetIndex_def Let_def

definition in_buffer :: "'a ls_state \<Rightarrow> nat \<Rightarrow> bool" where
  "in_buffer s i \<longleftrightarrow> i < length (mNodeBuffer (stk s))"

inductive ls_step :: "'a \<Rightarrow> nat \<Rightarrow> nat \<Rightarrow> 'a ls_state \<Rightarrow> 'a ls_state \<Rightarrow> bool" for dflt N t where
  push_begin: "t < N \<Longrightarrow> pcs s t = LS_Idle \<Longrightarrow> ls_step dflt N t s (go t (LS_Acquire x) s)"
| acq_read: "t < N \<Longrightarrow> pcs s t = LS_Acquire x \<Longrightarrow> ls_step dflt N t s (acq_read_step t x s)"
| acq_next: "t < N \<Longrightarrow> pcs s t = LS_Acq_read x h \<Longrightarrow> in_buffer s (unat (Index h)) \<Longrightarrow> ls_step dflt N t s (acq_next_step t x h s)"
| acq_cas: "t < N \<Longrightarrow> pcs s t = LS_Acq_next x h n \<Longrightarrow> ls_step dflt N t s (acq_cas_step t x h n s)"
| push_value: "t < N \<Longrightarrow> pcs s t = LS_Push_value x i \<Longrightarrow> in_buffer s i \<Longrightarrow> ls_step dflt N t s (push_value_step t x i s)"
| push_read: "t < N \<Longrightarrow> pcs s t = LS_Pushing x i \<Longrightarrow> ls_step dflt N t s (stk_push_read_step t x i s)"
| push_link: "t < N \<Longrightarrow> pcs s t = LS_Push_read x i h \<Longrightarrow> in_buffer s i \<Longrightarrow> ls_step dflt N t s (stk_push_link_step t x i h s)"
| push_cas: "t < N \<Longrightarrow> pcs s t = LS_Push_linked x i h \<Longrightarrow> ls_step dflt N t s (stk_push_cas_step t x i h s)"
| push_count: "t < N \<Longrightarrow> pcs s t = LS_Push_count \<Longrightarrow> ls_step dflt N t s (stk_push_count_step t s)"
| pop_begin: "t < N \<Longrightarrow> pcs s t = LS_Idle \<Longrightarrow> ls_step dflt N t s (go t LS_Popping s)"
| pop_read: "t < N \<Longrightarrow> pcs s t = LS_Popping \<Longrightarrow> ls_step dflt N t s (stk_pop_read_step t s)"
| pop_next: "t < N \<Longrightarrow> pcs s t = LS_Pop_read h \<Longrightarrow> in_buffer s (unat (Index h)) \<Longrightarrow> ls_step dflt N t s (stk_pop_next_step t h s)"
| pop_cas: "t < N \<Longrightarrow> pcs s t = LS_Pop_next h n \<Longrightarrow> ls_step dflt N t s (stk_pop_cas_step t h n s)"
| pop_value: "t < N \<Longrightarrow> pcs s t = LS_Pop_value i x \<Longrightarrow> in_buffer s i \<Longrightarrow> ls_step dflt N t s (pop_value_step t i s)"
| rel_value: "t < N \<Longrightarrow> pcs s t = LS_Rel_value i x \<Longrightarrow> in_buffer s i \<Longrightarrow> ls_step dflt N t s (rel_value_step dflt t i x s)"
| rel_read: "t < N \<Longrightarrow> pcs s t = LS_Releasing i x \<Longrightarrow> ls_step dflt N t s (rel_read_step t i x s)"
| rel_link: "t < N \<Longrightarrow> pcs s t = LS_Rel_read i x h \<Longrightarrow> in_buffer s i \<Longrightarrow> ls_step dflt N t s (rel_link_step t i x h s)"
| rel_cas: "t < N \<Longrightarrow> pcs s t = LS_Rel_linked i x h \<Longrightarrow> ls_step dflt N t s (rel_cas_step t i x h s)"
| pop_count: "t < N \<Longrightarrow> pcs s t = LS_Pop_count x \<Longrightarrow> ls_step dflt N t s (stk_pop_count_step t s)"

definition ls_init :: "'a ls_state \<Rightarrow> bool" where
  \<comment> \<open>a stack as its constructor leaves it, no operation under way; the versions start at the tags\<close>
  "ls_init s \<longleftrightarrow> stack_rep (stk s) [] \<and> (\<forall>t. pcs s t = LS_Idle) \<and> ver s = unat (Tag (mHead (stk s))) \<and>
     fver s = unat (Tag (mFreeNodeHead (stk s))) \<and> log s = []"

fun reads_head :: "'a ls_pc \<Rightarrow> bool" where
  "reads_head (LS_Push_read x i h) = True"
| "reads_head (LS_Push_linked x i h) = True"
| "reads_head (LS_Pop_read h) = True"
| "reads_head (LS_Pop_next h n) = True"
| "reads_head pc = False"

fun reads_free :: "'a ls_pc \<Rightarrow> bool" where
  "reads_free (LS_Acq_read x h) = True"
| "reads_free (LS_Acq_next x h n) = True"
| "reads_free (LS_Rel_read i x h) = True"
| "reads_free (LS_Rel_linked i x h) = True"
| "reads_free pc = False"

definition no_lap :: "nat \<Rightarrow> 'a ls_state \<Rightarrow> bool" where
  \<comment> \<open>no thread is overtaken by all \<open>2^32\<close> tags between its read of a head and its compare-and-swap\<close>
  "no_lap N s \<longleftrightarrow> (\<forall>t < N. (reads_head (pcs s t) \<longrightarrow> ver s - seen s t < 2 ^ 32) \<and> (reads_free (pcs s t) \<longrightarrow> fver s - seen s t < 2 ^ 32))"

inductive ls_reach :: "'a \<Rightarrow> nat \<Rightarrow> 'a ls_state \<Rightarrow> bool" for dflt N where
  init: "ls_init s \<Longrightarrow> ls_reach dflt N s"
| step: "ls_reach dflt N s \<Longrightarrow> no_lap N s \<Longrightarrow> ls_step dflt N t s s' \<Longrightarrow> ls_reach dflt N s'"

section \<open>The invariant\<close>

fun replay :: "nat \<Rightarrow> 'a ls_event list \<Rightarrow> ('a list \<times> nat) option" where
  \<comment> \<open>the operations, the latest first, executed one after the other on a stack with room for \<open>c\<close> elements: its elements and the
    number of nodes that are free\<close>
  "replay c [] = Some ([], c)"
| "replay c (Acquired # es) = (case replay c es of Some (st, Suc k) \<Rightarrow> Some (st, k) | _ \<Rightarrow> None)"
| "replay c (Pushed x # es) = (case replay c es of Some (st, k) \<Rightarrow> Some (x # st, k) | _ \<Rightarrow> None)"
| "replay c (Found_full # es) = (case replay c es of Some (st, 0) \<Rightarrow> Some (st, 0) | _ \<Rightarrow> None)"
| "replay c (Popped x # es) = (case replay c es of Some (y # st, k) \<Rightarrow> if x = y then Some (st, k) else None | _ \<Rightarrow> None)"
| "replay c (Released # es) = (case replay c es of Some (st, k) \<Rightarrow> Some (st, Suc k) | _ \<Rightarrow> None)"
| "replay c (Found_empty # es) = (case replay c es of Some ([], k) \<Rightarrow> Some ([], k) | _ \<Rightarrow> None)"

definition ls_replay :: "'a ls_state \<Rightarrow> ('a list \<times> nat) option" where
  "ls_replay s = replay (length (mNodeBuffer (stk s))) (log s)"

fun held :: "'a ls_pc \<Rightarrow> nat option" where
  \<comment> \<open>the node that an operation under way has in its hands\<close>
  "held (LS_Push_value x i) = Some i"
| "held (LS_Pushing x i) = Some i"
| "held (LS_Push_read x i h) = Some i"
| "held (LS_Push_linked x i h) = Some i"
| "held (LS_Pop_value i x) = Some i"
| "held (LS_Rel_value i x) = Some i"
| "held (LS_Releasing i x) = Some i"
| "held (LS_Rel_read i x h) = Some i"
| "held (LS_Rel_linked i x h) = Some i"
| "held pc = None"

fun pending :: "'a ls_pc \<Rightarrow> u64" where
  "pending LS_Push_count = 1"
| "pending (LS_Pop_value i x) = - 1"
| "pending (LS_Rel_value i x) = - 1"
| "pending (LS_Releasing i x) = - 1"
| "pending (LS_Rel_read i x h) = - 1"
| "pending (LS_Rel_linked i x h) = - 1"
| "pending (LS_Pop_count x) = - 1"
| "pending pc = 0"

definition saw :: "nat \<Rightarrow> nat \<Rightarrow> u64 \<Rightarrow> u64 \<Rightarrow> bool" where
  \<comment> \<open>\<open>h\<close> was read at version \<open>sn\<close> from a head that is now \<open>now\<close> at version \<open>v\<close>\<close>
  "saw sn v now h \<longleftrightarrow> Tag h = of_nat sn \<and> sn \<le> v \<and> (sn = v \<longrightarrow> h = now)"

fun pc_ok :: "'a ls_state \<Rightarrow> nat \<Rightarrow> 'a ls_pc \<Rightarrow> bool" where
  "pc_ok s sn (LS_Acq_read x h) \<longleftrightarrow> saw sn (fver s) (mFreeNodeHead (stk s)) h \<and> in_buffer s (unat (Index h))"
| "pc_ok s sn (LS_Acq_next x h n) \<longleftrightarrow> saw sn (fver s) (mFreeNodeHead (stk s)) h \<and> in_buffer s (unat (Index h)) \<and>
     (sn = fver s \<longrightarrow> mNextFreeNode (node_at s (unat (Index h))) = n)"
| "pc_ok s sn (LS_Pushing x i) \<longleftrightarrow> mValue (node_at s i) = x"
| "pc_ok s sn (LS_Push_read x i h) \<longleftrightarrow> mValue (node_at s i) = x \<and> saw sn (ver s) (mHead (stk s)) h"
| "pc_ok s sn (LS_Push_linked x i h) \<longleftrightarrow> mValue (node_at s i) = x \<and> saw sn (ver s) (mHead (stk s)) h \<and> mNext (node_at s i) = Index h"
| "pc_ok s sn (LS_Pop_read h) \<longleftrightarrow> saw sn (ver s) (mHead (stk s)) h \<and> in_buffer s (unat (Index h))"
| "pc_ok s sn (LS_Pop_next h n) \<longleftrightarrow> saw sn (ver s) (mHead (stk s)) h \<and> in_buffer s (unat (Index h)) \<and>
     (sn = ver s \<longrightarrow> mNext (node_at s (unat (Index h))) = n)"
| "pc_ok s sn (LS_Pop_value i x) \<longleftrightarrow> mValue (node_at s i) = x"
| "pc_ok s sn (LS_Rel_read i x h) \<longleftrightarrow> saw sn (fver s) (mFreeNodeHead (stk s)) h"
| "pc_ok s sn (LS_Rel_linked i x h) \<longleftrightarrow> saw sn (fver s) (mFreeNodeHead (stk s)) h \<and> mNextFreeNode (node_at s i) = Index h"
| "pc_ok s sn pc \<longleftrightarrow> True"

definition ls_inv :: "nat \<Rightarrow> 'a ls_state \<Rightarrow> nat list \<Rightarrow> nat list \<Rightarrow> bool" where
  "ls_inv N s ns fs \<longleftrightarrow>
     chain (next_of (stk s)) (Index (mHead (stk s))) ns \<and> chain (next_free_of (stk s)) (Index (mFreeNodeHead (stk s))) fs \<and>
     distinct (ns @ fs) \<and> length (mNodeBuffer (stk s)) < 2 ^ 24 \<and> mLimit (stk s) = of_nat (length (mNodeBuffer (stk s))) \<and>
     (\<forall>i. in_buffer s i \<longleftrightarrow> i \<in> set (ns @ fs) \<or> (\<exists>t < N. held (pcs s t) = Some i)) \<and>
     (\<forall>t < N. \<forall>i. held (pcs s t) = Some i \<longrightarrow> i \<notin> set (ns @ fs) \<and> (\<forall>u < N. held (pcs s u) = Some i \<longrightarrow> u = t)) \<and>
     ls_replay s = Some (map (\<lambda>i. mValue (node_at s i)) ns, length fs) \<and>
     Tag (mHead (stk s)) = of_nat (ver s) \<and> Tag (mFreeNodeHead (stk s)) = of_nat (fver s) \<and>
     (\<forall>t < N. pc_ok s (seen s t) (pcs s t)) \<and>
     mSize (stk s) + (\<Sum>t < N. pending (pcs s t)) = of_nat (length ns)"

section \<open>Every step keeps the invariant\<close>

lemma chain_null [simp]: "chain f kLockFreeNullPointer ns \<longleftrightarrow> ns = []"
  by (cases ns) auto

lemma chain_top:
  "chain f i ns \<Longrightarrow> i \<noteq> kLockFreeNullPointer \<Longrightarrow> \<exists>ns'. ns = unat i # ns' \<and> i = of_nat (unat i) \<and> unat i < 2 ^ 24 \<and> chain f (f (unat i)) ns'"
  by (cases ns) auto

lemma chain_head_in: "chain f i ns \<Longrightarrow> i = kLockFreeNullPointer \<or> unat i \<in> set ns"
  by (cases ns) auto

lemma pc_ok_frame:
  assumes "pc_ok s sn pc" and "length (mNodeBuffer (stk s')) = length (mNodeBuffer (stk s))"
    and "ver s \<le> ver s'" and "fver s \<le> fver s'"
    and "ver s' = ver s \<Longrightarrow> mHead (stk s') = mHead (stk s) \<and>
      (in_buffer s (unat (Index (mHead (stk s)))) \<longrightarrow> node_at s' (unat (Index (mHead (stk s)))) = node_at s (unat (Index (mHead (stk s)))))"
    and "fver s' = fver s \<Longrightarrow> mFreeNodeHead (stk s') = mFreeNodeHead (stk s) \<and>
      (in_buffer s (unat (Index (mFreeNodeHead (stk s)))) \<longrightarrow>
        node_at s' (unat (Index (mFreeNodeHead (stk s)))) = node_at s (unat (Index (mFreeNodeHead (stk s)))))"
    and "\<And>i. held pc = Some i \<Longrightarrow> node_at s' i = node_at s i"
  shows "pc_ok s' sn pc"
  using assms by (cases pc) (auto simp: saw_def in_buffer_def)

lemma null_not_in_buffer: "length (mNodeBuffer (stk s)) < 2 ^ 24 \<Longrightarrow> \<not> in_buffer s (unat kLockFreeNullPointer)"
  by (simp add: in_buffer_def kLockFreeNullPointer_def)

lemma ls_held_elsewhere:
  assumes "ls_inv N s ns fs" and "t < N" and "u < N" and "u \<noteq> t" and "held (pcs s u) = Some i"
  shows "i \<notin> set (ns @ fs)" and "held (pcs s t) \<noteq> Some i"
  using assms unfolding ls_inv_def by metis+

lemma ls_ok_update:
  assumes inv: "ls_inv N s ns fs" and t: "t < N" and u: "u < N" "u \<noteq> t"
    and len: "length (mNodeBuffer (stk s')) = length (mNodeBuffer (stk s))"
    and wr: "\<And>i. held (pcs s t) \<noteq> Some i \<Longrightarrow> node_at s' i = node_at s i"
    and hv: "ver s \<le> ver s'" "ver s' = ver s \<Longrightarrow> mHead (stk s') = mHead (stk s)"
    and fv: "fver s \<le> fver s'" "fver s' = fver s \<Longrightarrow> mFreeNodeHead (stk s') = mFreeNodeHead (stk s)"
  shows "pc_ok s' (seen s u) (pcs s u)"
proof -
  have "held (pcs s t) \<noteq> Some (unat (Index (mHead (stk s))))" if "in_buffer s (unat (Index (mHead (stk s))))"
    using inv t that chain_head_in [of "next_of (stk s)" "Index (mHead (stk s))" ns] null_not_in_buffer [of s] unfolding ls_inv_def by auto
  moreover have "held (pcs s t) \<noteq> Some (unat (Index (mFreeNodeHead (stk s))))" if "in_buffer s (unat (Index (mFreeNodeHead (stk s))))"
    using inv t that chain_head_in [of "next_free_of (stk s)" "Index (mFreeNodeHead (stk s))" fs] null_not_in_buffer [of s]
    unfolding ls_inv_def by auto
  moreover have "pc_ok s (seen s u) (pcs s u)" using inv u by (simp add: ls_inv_def)
  ultimately show ?thesis
    by (intro pc_ok_frame [of s "seen s u" "pcs s u" s']) (use len hv fv wr ls_held_elsewhere(2) [OF inv t u] in auto)
qed

lemma ls_places_update:
  assumes inv: "ls_inv N s ns fs" and t: "t < N" and pcs: "pcs s' = (pcs s)(t := p)"
    and part: "set (ns' @ fs') \<union> set_option (held p) = set (ns @ fs) \<union> set_option (held (pcs s t))"
    and disj: "\<And>i. held p = Some i \<Longrightarrow> i \<notin> set (ns' @ fs')"
  shows "i \<in> set (ns' @ fs') \<or> (\<exists>u < N. held (pcs s' u) = Some i) \<longleftrightarrow> i \<in> set (ns @ fs) \<or> (\<exists>u < N. held (pcs s u) = Some i)"
    and "u < N \<Longrightarrow> held (pcs s' u) = Some i \<Longrightarrow> i \<notin> set (ns' @ fs') \<and> (\<forall>v < N. held (pcs s' v) = Some i \<longrightarrow> v = u)"
proof -
  have "(\<exists>u < N. held (pcs s' u) = Some i) \<longleftrightarrow> held p = Some i \<or> (\<exists>u < N. u \<noteq> t \<and> held (pcs s u) = Some i)"
    using t pcs by auto
  moreover have "(\<exists>u < N. held (pcs s u) = Some i) \<longleftrightarrow> held (pcs s t) = Some i \<or> (\<exists>u < N. u \<noteq> t \<and> held (pcs s u) = Some i)"
    using t by auto
  moreover have "i \<in> set (ns' @ fs') \<or> held p = Some i \<longleftrightarrow> i \<in> set (ns @ fs) \<or> held (pcs s t) = Some i"
    using part by (auto simp: set_eq_iff)
  ultimately show "i \<in> set (ns' @ fs') \<or> (\<exists>u < N. held (pcs s' u) = Some i) \<longleftrightarrow> i \<in> set (ns @ fs) \<or> (\<exists>u < N. held (pcs s u) = Some i)"
    by blast
next
  assume u: "u < N" "held (pcs s' u) = Some i"
  have old: "w < N \<Longrightarrow> w \<noteq> t \<Longrightarrow> held (pcs s w) = Some i \<Longrightarrow> i \<notin> set (ns' @ fs') \<and> held p \<noteq> Some i" for w
    using ls_held_elsewhere [OF inv t, of w i] part by (auto simp: set_eq_iff)
  show "i \<notin> set (ns' @ fs') \<and> (\<forall>v < N. held (pcs s' v) = Some i \<longrightarrow> v = u)"
  proof (cases "u = t")
    case True
    then show ?thesis using u disj old pcs by auto
  next
    case False
    then show ?thesis using u old [of u] pcs inv unfolding ls_inv_def by (metis fun_upd_apply)
  qed
qed

lemma ls_inv_update:
  assumes inv: "ls_inv N s ns fs" and t: "t < N"
    and pcs: "pcs s' = (pcs s)(t := p)" and seen: "\<And>u. u \<noteq> t \<Longrightarrow> seen s' u = seen s u"
    and len: "length (mNodeBuffer (stk s')) = length (mNodeBuffer (stk s))" "mLimit (stk s') = mLimit (stk s)"
    and wr: "\<And>i. held (pcs s t) \<noteq> Some i \<Longrightarrow> node_at s' i = node_at s i"
    and hv: "ver s \<le> ver s'" "ver s' = ver s \<Longrightarrow> mHead (stk s') = mHead (stk s)" "Tag (mHead (stk s')) = of_nat (ver s')"
    and fv: "fver s \<le> fver s'" "fver s' = fver s \<Longrightarrow> mFreeNodeHead (stk s') = mFreeNodeHead (stk s)"
      "Tag (mFreeNodeHead (stk s')) = of_nat (fver s')"
    and ok: "pc_ok s' (seen s' t) p"
    and ch: "chain (next_of (stk s')) (Index (mHead (stk s'))) ns'" "chain (next_free_of (stk s')) (Index (mFreeNodeHead (stk s'))) fs'"
    and dist: "distinct (ns' @ fs')"
    and part: "set (ns' @ fs') \<union> set_option (held p) = set (ns @ fs) \<union> set_option (held (pcs s t))"
    and disj: "\<And>i. held p = Some i \<Longrightarrow> i \<notin> set (ns' @ fs')"
    and rp: "ls_replay s' = Some (map (\<lambda>i. mValue (node_at s' i)) ns', length fs')"
    and sz: "mSize (stk s') + pending p - of_nat (length ns') = mSize (stk s) + pending (pcs s t) - of_nat (length ns)"
  shows "ls_inv N s' ns' fs'"
proof -
  have ok': "pc_ok s' (seen s' u) (pcs s' u)" if u: "u < N" for u
  proof (cases "u = t")
    case True
    then show ?thesis using ok pcs by simp
  next
    case False
    then show ?thesis using ls_ok_update [OF inv t u False len(1) wr hv(1,2) fv(1,2)] seen pcs by simp
  qed
  have buf': "in_buffer s' i \<longleftrightarrow> i \<in> set (ns' @ fs') \<or> (\<exists>u < N. held (pcs s' u) = Some i)" for i
    using inv len ls_places_update(1) [OF inv t pcs part disj] by (simp add: ls_inv_def in_buffer_def)
  have size': "mSize (stk s') + (\<Sum>u < N. pending (pcs s' u)) = of_nat (length ns')"
  proof -
    have "mSize (stk s) + (\<Sum>u < N. pending (pcs s u)) = of_nat (length ns)" using inv by (simp add: ls_inv_def)
    from group_balance [OF this sz] show ?thesis unfolding pcs sum_fun_upd [where g = pending, OF t] .
  qed
  have "length (mNodeBuffer (stk s')) < 2 ^ 24" "mLimit (stk s') = of_nat (length (mNodeBuffer (stk s')))"
    using inv len by (simp_all add: ls_inv_def)
  then show ?thesis
    unfolding ls_inv_def using ok' buf' ls_places_update(2) [OF inv t pcs part disj]
    by (intro conjI ch dist rp hv(3) fv(3) size') blast+
qed

lemma ls_inv_same_lists:
  assumes inv: "ls_inv N s ns fs" and t: "t < N"
    and pcs: "pcs s' = (pcs s)(t := p)" and seen: "\<And>u. u \<noteq> t \<Longrightarrow> seen s' u = seen s u"
    and len: "length (mNodeBuffer (stk s')) = length (mNodeBuffer (stk s))" "mLimit (stk s') = mLimit (stk s)"
    and wr: "\<And>i. held (pcs s t) \<noteq> Some i \<Longrightarrow> node_at s' i = node_at s i"
    and heads: "ver s' = ver s" "fver s' = fver s" "mHead (stk s') = mHead (stk s)" "mFreeNodeHead (stk s') = mFreeNodeHead (stk s)"
    and ok: "pc_ok s' (seen s' t) p" and h: "held p = held (pcs s t)" and rp: "ls_replay s' = ls_replay s"
    and sz: "mSize (stk s') + pending p = mSize (stk s) + pending (pcs s t)"
  shows "ls_inv N s' ns fs"
proof -
  have out: "held (pcs s t) \<noteq> Some i" if "i \<in> set (ns @ fs)" for i using inv t that unfolding ls_inv_def by blast
  then have nodes: "node_at s' i = node_at s i" if "i \<in> set (ns @ fs)" for i using wr that by blast
  have "chain (next_of (stk s')) (Index (mHead (stk s'))) ns = chain (next_of (stk s)) (Index (mHead (stk s))) ns"
    unfolding heads by (rule chain_cong) (simp add: next_of_def nodes)
  moreover have "chain (next_free_of (stk s')) (Index (mFreeNodeHead (stk s'))) fs = chain (next_free_of (stk s)) (Index (mFreeNodeHead (stk s))) fs"
    unfolding heads by (rule chain_cong) (simp add: next_free_of_def nodes)
  moreover have "map (\<lambda>i. mValue (node_at s' i)) ns = map (\<lambda>i. mValue (node_at s i)) ns" using nodes by simp
  ultimately show ?thesis
    by (intro ls_inv_update [OF inv t pcs seen len wr, where ns' = ns and fs' = fs])
       (use inv heads ok h rp sz out in \<open>auto simp: ls_inv_def\<close>)
qed

lemma ls_inv_acq_cas:
  assumes inv: "ls_inv N s ns fs" and lap: "no_lap N s" and t: "t < N" and pc: "pcs s t = LS_Acq_next x h n"
    and h: "mFreeNodeHead (stk s) = h"
  shows "\<exists>fs'. ls_inv N (acq_cas_step t x h n s) ns fs'"
proof -
  let ?i = "unat (Index h)"
  have ok: "saw (seen s t) (fver s) (mFreeNodeHead (stk s)) h" "in_buffer s ?i" "seen s t = fver s \<longrightarrow> mNextFreeNode (node_at s ?i) = n"
    using inv t pc unfolding ls_inv_def by (metis pc_ok.simps(2))+
  have "fver s - seen s t < 2 ^ 32" using lap t pc unfolding no_lap_def by (metis reads_free.simps(2))
  then have "seen s t = fver s"
    using ok(1) inv h by (intro of_nat_eq_close [where 'a = 32]) (auto simp: saw_def ls_inv_def)
  then have n: "next_free_of (stk s) ?i = n" using ok(3) by (simp add: next_free_of_def)
  have "Index h \<noteq> kLockFreeNullPointer" using ok(2) inv null_not_in_buffer [of s] by (auto simp: ls_inv_def)
  then obtain fs' where fs: "fs = ?i # fs'" "chain (next_free_of (stk s)) n fs'"
    using inv h n chain_top [of "next_free_of (stk s)" "Index h" fs] by (auto simp: ls_inv_def)
  let ?s = "acq_cas_step t x h n s"
  have s': "?s = s\<lparr>stk := (stk s)\<lparr>mFreeNodeHead := MakePointer_index n (Tag h + 1)\<rparr>, pcs := (pcs s)(t := LS_Push_value x ?i), fver := fver s + 1,
      log := Acquired # log s\<rparr>"
    using h by (simp add: ls_step_defs)
  have "ls_inv N ?s ns fs'"
    by (rule ls_inv_update [OF inv t, where p = "LS_Push_value x ?i"])
       (use inv h fs pc in \<open>auto simp: s' ls_inv_def ls_replay_def Tag_MakePointer next_of_def [abs_def] next_free_of_def [abs_def]\<close>)
  then show ?thesis by blast
qed

lemma ls_inv_pop_cas:
  assumes inv: "ls_inv N s ns fs" and lap: "no_lap N s" and t: "t < N" and pc: "pcs s t = LS_Pop_next h n"
    and h: "mHead (stk s) = h"
  shows "\<exists>ns'. ls_inv N (stk_pop_cas_step t h n s) ns' fs"
proof -
  let ?i = "unat (Index h)"
  have ok: "saw (seen s t) (ver s) (mHead (stk s)) h" "in_buffer s ?i" "seen s t = ver s \<longrightarrow> mNext (node_at s ?i) = n"
    using inv t pc unfolding ls_inv_def by (metis pc_ok.simps(7))+
  have "ver s - seen s t < 2 ^ 32" using lap t pc unfolding no_lap_def by (metis reads_head.simps(4))
  then have "seen s t = ver s"
    using ok(1) inv h by (intro of_nat_eq_close [where 'a = 32]) (auto simp: saw_def ls_inv_def)
  then have n: "next_of (stk s) ?i = n" using ok(3) by (simp add: next_of_def)
  have "Index h \<noteq> kLockFreeNullPointer" using ok(2) inv null_not_in_buffer [of s] by (auto simp: ls_inv_def)
  then obtain ns' where ns: "ns = ?i # ns'" "chain (next_of (stk s)) n ns'"
    using inv h n chain_top [of "next_of (stk s)" "Index h" ns] by (auto simp: ls_inv_def)
  let ?s = "stk_pop_cas_step t h n s"
  let ?x = "mValue (node_at s ?i)"
  have s': "?s = s\<lparr>stk := (stk s)\<lparr>mHead := MakePointer_index n (Tag h + 1)\<rparr>, pcs := (pcs s)(t := LS_Pop_value ?i ?x),
      ver := ver s + 1, log := Popped ?x # log s\<rparr>"
    using h by (simp add: ls_step_defs)
  have "ls_inv N ?s ns' fs"
    by (rule ls_inv_update [OF inv t, where p = "LS_Pop_value ?i ?x"])
       (use inv h ns pc in \<open>auto simp: s' ls_inv_def ls_replay_def Tag_MakePointer next_of_def [abs_def] next_free_of_def [abs_def]\<close>)
  then show ?thesis by blast
qed

lemma ls_inv_push_cas:
  assumes inv: "ls_inv N s ns fs" and t: "t < N" and pc: "pcs s t = LS_Push_linked x i h" and h: "mHead (stk s) = h"
  shows "ls_inv N (stk_push_cas_step t x i h s) (i # ns) fs"
proof -
  have ok: "mValue (node_at s i) = x" "mNext (node_at s i) = Index h"
    using inv t pc unfolding ls_inv_def by (metis pc_ok.simps(5))+
  have i: "i \<notin> set (ns @ fs)" "i < 2 ^ 24"
    using inv t pc unfolding ls_inv_def in_buffer_def by (metis held.simps(4) less_trans)+
  let ?s = "stk_push_cas_step t x i h s"
  have s': "?s = s\<lparr>stk := (stk s)\<lparr>mHead := MakePointer_index (of_nat i) (Tag h + 1)\<rparr>, pcs := (pcs s)(t := LS_Push_count),
      ver := ver s + 1, log := Pushed x # log s\<rparr>"
    using h by (simp add: ls_step_defs)
  show ?thesis
    by (rule ls_inv_update [OF inv t, where p = LS_Push_count])
       (use inv h ok i pc in \<open>auto simp: s' ls_inv_def ls_replay_def Tag_MakePointer next_of_def [abs_def] next_free_of_def [abs_def]\<close>)
qed

lemma ls_inv_rel_cas:
  assumes inv: "ls_inv N s ns fs" and t: "t < N" and pc: "pcs s t = LS_Rel_linked i x h" and h: "mFreeNodeHead (stk s) = h"
  shows "ls_inv N (rel_cas_step t i x h s) ns (i # fs)"
proof -
  have ok: "mNextFreeNode (node_at s i) = Index h"
    using inv t pc unfolding ls_inv_def by (metis pc_ok.simps(10))
  have i: "i \<notin> set (ns @ fs)" "i < 2 ^ 24"
    using inv t pc unfolding ls_inv_def in_buffer_def by (metis held.simps(9) less_trans)+
  let ?s = "rel_cas_step t i x h s"
  have s': "?s = s\<lparr>stk := (stk s)\<lparr>mFreeNodeHead := MakePointer_index (of_nat i) (Tag h + 1)\<rparr>, pcs := (pcs s)(t := LS_Pop_count x),
      fver := fver s + 1, log := Released # log s\<rparr>"
    using h by (simp add: ls_step_defs)
  show ?thesis
    by (rule ls_inv_update [OF inv t, where p = "LS_Pop_count x"])
       (use inv h ok i pc in \<open>auto simp: s' ls_inv_def ls_replay_def Tag_MakePointer next_of_def [abs_def] next_free_of_def [abs_def]\<close>)
qed

lemma ls_inv_head_in_buffer:
  assumes "ls_inv N s ns fs"
  shows "Index (mHead (stk s)) \<noteq> kLockFreeNullPointer \<Longrightarrow> in_buffer s (unat (Index (mHead (stk s))))"
    and "Index (mFreeNodeHead (stk s)) \<noteq> kLockFreeNullPointer \<Longrightarrow> in_buffer s (unat (Index (mFreeNodeHead (stk s))))"
  using assms chain_head_in [of "next_of (stk s)" "Index (mHead (stk s))" ns]
    chain_head_in [of "next_free_of (stk s)" "Index (mFreeNodeHead (stk s))" fs] by (auto simp: ls_inv_def)

lemma ls_inv_head_node:
  assumes "ls_inv N s ns fs"
  shows "Index (mHead (stk s)) \<noteq> kLockFreeNullPointer \<Longrightarrow> \<exists>i. Index (mHead (stk s)) = of_nat i \<and> i < 2 ^ 24 \<and> in_buffer s i"
    and "Index (mFreeNodeHead (stk s)) \<noteq> kLockFreeNullPointer \<Longrightarrow>
      \<exists>i. Index (mFreeNodeHead (stk s)) = of_nat i \<and> i < 2 ^ 24 \<and> in_buffer s i"
proof -
  have "length (mNodeBuffer (stk s)) < 2 ^ 24" using assms by (simp add: ls_inv_def)
  then have "\<exists>i. j = of_nat i \<and> i < 2 ^ 24 \<and> in_buffer s i" if "in_buffer s (unat j)" for j :: u32
    using that by (intro exI [of _ "unat j"]) (simp add: in_buffer_def)
  then show "Index (mHead (stk s)) \<noteq> kLockFreeNullPointer \<Longrightarrow> \<exists>i. Index (mHead (stk s)) = of_nat i \<and> i < 2 ^ 24 \<and> in_buffer s i"
    "Index (mFreeNodeHead (stk s)) \<noteq> kLockFreeNullPointer \<Longrightarrow>
      \<exists>i. Index (mFreeNodeHead (stk s)) = of_nat i \<and> i < 2 ^ 24 \<and> in_buffer s i"
    using ls_inv_head_in_buffer [OF assms] by blast+
qed

lemma ls_inv_pc: "ls_inv N s ns fs \<Longrightarrow> t < N \<Longrightarrow> pc_ok s (seen s t) (pcs s t)"
  by (simp add: ls_inv_def)

lemma ls_inv_tags:
  "ls_inv N s ns fs \<Longrightarrow> saw (ver s) (ver s) (mHead (stk s)) (mHead (stk s)) \<and> saw (fver s) (fver s) (mFreeNodeHead (stk s)) (mFreeNodeHead (stk s))"
  by (simp add: ls_inv_def saw_def)

lemma ls_step_frame:
  assumes "ls_step dflt N t s s'"
  shows "t < N" and "pcs s' = (pcs s)(t := pcs s' t)" and "u \<noteq> t \<Longrightarrow> seen s' u = seen s u"
    and "length (mNodeBuffer (stk s')) = length (mNodeBuffer (stk s))" and "mLimit (stk s') = mLimit (stk s)"
    and "held (pcs s t) \<noteq> Some i \<Longrightarrow> node_at s' i = node_at s i"
  using assms by (cases; auto simp: ls_step_defs AtomicCompareExchange_cases)+

text \<open>A step is quiet when no compare-and-swap succeeds in it.\<close>

lemma ls_quiet_frame:
  assumes "ls_step dflt N t s s'" and "ver s' = ver s" and "fver s' = fver s"
  shows "mHead (stk s') = mHead (stk s)" and "mFreeNodeHead (stk s') = mFreeNodeHead (stk s)"
    and "held (pcs s' t) = held (pcs s t)" and "mSize (stk s') + pending (pcs s' t) = mSize (stk s) + pending (pcs s t)"
  using assms by (cases; auto simp: ls_step_defs AtomicCompareExchange_cases split: if_splits)+

lemma ls_quiet_ok:
  assumes inv: "ls_inv N s ns fs" and st: "ls_step dflt N t s s'" and q: "ver s' = ver s" "fver s' = fver s"
  shows "pc_ok s' (seen s' t) (pcs s' t)"
  using st ls_inv_pc [OF inv ls_step_frame(1) [OF st]] ls_inv_tags [OF inv] ls_inv_head_in_buffer [OF inv] q
  by cases (auto simp: ls_step_defs AtomicCompareExchange_cases in_buffer_def split: if_splits)

lemma ls_quiet_replay:
  assumes inv: "ls_inv N s ns fs" and st: "ls_step dflt N t s s'" and q: "ver s' = ver s" "fver s' = fver s"
  shows "ls_replay s' = ls_replay s"
proof -
  have "\<exists>st. ls_replay s = Some (st, 0)" if "Index (mFreeNodeHead (stk s)) = kLockFreeNullPointer"
    using inv that by (auto simp: ls_inv_def)
  moreover have "\<exists>k. ls_replay s = Some ([], k)" if "Index (mHead (stk s)) = kLockFreeNullPointer"
    using inv that by (auto simp: ls_inv_def)
  note empty = calculation this
  show ?thesis
    using st q empty by cases (auto simp: ls_step_defs ls_replay_def AtomicCompareExchange_cases split: if_splits)
qed

lemma ls_inv_quiet:
  assumes inv: "ls_inv N s ns fs" and st: "ls_step dflt N t s s'" and q: "ver s' = ver s" "fver s' = fver s"
  shows "ls_inv N s' ns fs"
  using ls_step_frame(1,3-6) [OF st] q ls_quiet_frame [OF st q] ls_quiet_ok [OF inv st q] ls_quiet_replay [OF inv st q]
  by (intro ls_inv_same_lists [OF inv _ ls_step_frame(2) [OF st]])

lemma ls_step_cases:
  \<comment> \<open>a step is quiet or one of the four successful compare-and-swaps\<close>
  assumes "ls_step dflt N t s s'"
  obtains (quiet) "ver s' = ver s" "fver s' = fver s"
  | (acquired) x h n where "pcs s t = LS_Acq_next x h n" "mFreeNodeHead (stk s) = h" "s' = acq_cas_step t x h n s"
  | (pushed) x i h where "pcs s t = LS_Push_linked x i h" "mHead (stk s) = h" "s' = stk_push_cas_step t x i h s"
  | (popped) h n where "pcs s t = LS_Pop_next h n" "mHead (stk s) = h" "s' = stk_pop_cas_step t h n s"
  | (released) x i h where "pcs s t = LS_Rel_linked i x h" "mFreeNodeHead (stk s) = h" "s' = rel_cas_step t i x h s"
proof -
  have "ver s' = ver s \<and> fver s' = fver s \<or>
      (\<exists>x h n. pcs s t = LS_Acq_next x h n \<and> mFreeNodeHead (stk s) = h \<and> s' = acq_cas_step t x h n s) \<or>
      (\<exists>x i h. pcs s t = LS_Push_linked x i h \<and> mHead (stk s) = h \<and> s' = stk_push_cas_step t x i h s) \<or>
      (\<exists>h n. pcs s t = LS_Pop_next h n \<and> mHead (stk s) = h \<and> s' = stk_pop_cas_step t h n s) \<or>
      (\<exists>x i h. pcs s t = LS_Rel_linked i x h \<and> mFreeNodeHead (stk s) = h \<and> s' = rel_cas_step t i x h s)"
    using assms by cases (auto simp: ls_step_defs AtomicCompareExchange_cases)
  then show thesis using that by blast
qed

lemma ls_inv_step:
  assumes inv: "ls_inv N s ns fs" and lap: "no_lap N s" and st: "ls_step dflt N t s s'"
  shows "\<exists>ns' fs'. ls_inv N s' ns' fs'"
  using st
proof (cases rule: ls_step_cases)
  case quiet
  then show ?thesis using ls_inv_quiet [OF inv st] by blast
next
  case (acquired x h n)
  then show ?thesis using ls_inv_acq_cas [OF inv lap ls_step_frame(1) [OF st]] by blast
next
  case (pushed x i h)
  then show ?thesis using ls_inv_push_cas [OF inv ls_step_frame(1) [OF st]] by blast
next
  case (popped h n)
  then show ?thesis using ls_inv_pop_cas [OF inv lap ls_step_frame(1) [OF st]] by blast
next
  case (released x i h)
  then show ?thesis using ls_inv_rel_cas [OF inv ls_step_frame(1) [OF st]] by blast
qed

lemma ls_inv_init:
  assumes "ls_init s"
  shows "\<exists>ns fs. ls_inv N s ns fs"
proof -
  obtain ns fs where r: "chain (next_of (stk s)) (Index (mHead (stk s))) ns" "free_rep (stk s) fs" "distinct (ns @ fs)"
      "set (ns @ fs) = {..<length (mNodeBuffer (stk s))}" "[] = map (\<lambda>i. mValue (node_at s i)) ns" "mSize (stk s) = 0"
      "mLimit (stk s) = of_nat (length (mNodeBuffer (stk s)))" "length (mNodeBuffer (stk s)) < 2 ^ 24"
    using assms by (auto simp: ls_init_def stack_rep_def)
  moreover have "length (ns @ fs) = length (mNodeBuffer (stk s))" using distinct_card [OF r(3)] by (simp only: r(4) card_lessThan)
  ultimately show ?thesis using assms
    by (intro exI [of _ ns] exI [of _ fs]) (auto simp: ls_inv_def ls_init_def ls_replay_def free_rep_def in_buffer_def)
qed

lemma ls_inv_reach: "ls_reach dflt N s \<Longrightarrow> \<exists>ns fs. ls_inv N s ns fs"
  by (induction rule: ls_reach.induct) (metis ls_inv_init, metis ls_inv_step)

lemma ls_inv_idle:
  assumes inv: "ls_inv N s ns fs" and "\<forall>t < N. pcs s t = LS_Idle"
  shows "stack_rep (stk s) (map (\<lambda>i. mValue (node_at s i)) ns)"
proof -
  have "(\<Sum>t < N. pending (pcs s t)) = 0" using assms(2) by (intro sum.neutral) auto
  moreover have "set (ns @ fs) = {..<length (mNodeBuffer (stk s))}" using assms by (auto simp: ls_inv_def in_buffer_def)
  ultimately show ?thesis
    using inv unfolding stack_rep_def free_rep_def by (intro exI [of _ ns] exI [of _ fs]) (simp add: ls_inv_def)
qed

lemma ls_acquire_free_list:
  \<comment> \<open>what \<open>AcquireNode\<close> finds is the free list\<close>
  assumes inv: "ls_inv N s ns fs" and "pcs s t = LS_Acquire x \<and> ls_step dflt N t s s'"
  shows "if fs = [] then pcs s' t = LS_Idle \<and> log s' = Found_full # log s else pcs s' t \<noteq> LS_Idle \<and> log s' = log s"
proof -
  have "s' = acq_read_step t x s" using assms(2) by (auto elim: ls_step.cases)
  moreover have "fs = [] \<longleftrightarrow> Index (mFreeNodeHead (stk s)) = kLockFreeNullPointer"
    using inv chain_head_in [of "next_free_of (stk s)" "Index (mFreeNodeHead (stk s))" fs] by (auto simp: ls_inv_def)
  ultimately show ?thesis by (simp add: ls_step_defs)
qed

section \<open>Properties of LockFreeStack with many threads\<close>

text \<open>
  C3. \<open>LockFreeStack\<close> is linearizable: however the steps of any number of threads interleave, as long as no thread is
  overtaken by \<open>2^32\<close> updates between its read of a head and its compare-and-swap, the pushes and pops, in the order of their
  successful compare-and-swaps, are a legal history of one stack with room for as many elements as the buffer has nodes, in which a push
  fails only when no node is free and a pop only when the stack is empty; and a pop returns the value it took off, although
  it reads it later. Every node is in exactly one place: on the stack, on the free list or in the hands of one thread. A \<open>Push\<close>
  that looks for a node returns false if the free list is empty at that moment and goes on if it is not. Whenever no
  operation is under way the object is a stack of the sequential model with exactly the elements of the history.
\<close>

theorem lockfree_stack_linearizable:
  assumes "ls_reach dflt N s"
  shows "\<exists>ns fs st. replay (length (mNodeBuffer (stk s))) (log s) = Some (st, length fs) \<and> st = map (\<lambda>i. mValue (node_at s i)) ns \<and>
    chain (next_of (stk s)) (Index (mHead (stk s))) ns \<and> chain (next_free_of (stk s)) (Index (mFreeNodeHead (stk s))) fs \<and>
    distinct (ns @ fs) \<and> (\<forall>i. in_buffer s i \<longleftrightarrow> i \<in> set (ns @ fs) \<or> (\<exists>t < N. held (pcs s t) = Some i)) \<and>
    (\<forall>t u i. t < N \<and> u < N \<and> held (pcs s t) = Some i \<and> held (pcs s u) = Some i \<longrightarrow> t = u \<and> i \<notin> set (ns @ fs)) \<and>
    (\<forall>t i x. t < N \<and> pcs s t = LS_Pop_value i x \<longrightarrow> mValue (node_at s i) = x) \<and>
    (\<forall>t x s'. pcs s t = LS_Acquire x \<and> ls_step dflt N t s s' \<longrightarrow>
      (if fs = [] then pcs s' t = LS_Idle \<and> log s' = Found_full # log s else pcs s' t \<noteq> LS_Idle \<and> log s' = log s)) \<and>
    ((\<forall>t < N. pcs s t = LS_Idle) \<longrightarrow> stack_rep (stk s) st)"
proof -
  obtain ns fs where inv: "ls_inv N s ns fs" using ls_inv_reach [OF assms] by blast
  have val: "mValue (node_at s i) = x" if "t < N" "pcs s t = LS_Pop_value i x" for t i x
    using ls_inv_pc [OF inv that(1)] that(2) by simp
  note idle = ls_inv_idle [OF inv] and full = ls_acquire_free_list [OF inv]
  show ?thesis
    by (rule exI [of _ ns], rule exI [of _ fs], rule exI [of _ "map (\<lambda>i. mValue (node_at s i)) ns"])
       (use inv val idle full in \<open>unfold ls_inv_def ls_replay_def, blast\<close>)
qed

lemma constructor_starts_machine:
  \<comment> \<open>what the constructor returns is an initial state of the machine\<close>
  assumes "sz \<noteq> 0" and "sz < 2 ^ 24" and "mset (shuffle [0..<unat sz]) = mset [0..<unat sz]" and "length (raw (unat sz)) = unat sz"
  shows "\<exists>b. LockFreeStack_new dflt shuffle raw head0 sz = Inr b \<and>
    ls_reach dflt N \<lparr>stk = b, pcs = (\<lambda>_. LS_Idle), ver = unat (Tag (mHead b)), fver = unat (Tag (mFreeNodeHead b)), seen = (\<lambda>_. 0), log = []\<rparr>"
proof -
  obtain b where "LockFreeStack_new dflt shuffle raw head0 sz = Inr b" "stack_rep b []" 
    using new_ok [of sz shuffle raw dflt head0] assms by blast
  then show ?thesis by (intro exI [of _ b]) (auto intro: ls_reach.init simp: ls_init_def)
qed

definition ls_example :: "nat ls_state" where
  \<comment> \<open>a new stack with room for one element\<close>
  "ls_example = \<lparr>stk = \<lparr>mLimit = 1, mSize = 0, mNodeBuffer = [\<lparr>mNext = 0, mNextFreeNode = kLockFreeNullPointer, mValue = 0\<rparr>],
       mHead = kNullPointer, mFreeNodeHead = MakePointer_index 0 1\<rparr>,
     pcs = (\<lambda>_. LS_Idle), ver = 0, fver = 1, seen = (\<lambda>_. 0), log = []\<rparr>"

lemma ls_example_init: "ls_init ls_example"
proof -
  have "stack_rep (stk ls_example) []"
    unfolding stack_rep_def free_rep_def
    by (rule exI [of _ "[]"], rule exI [of _ "[0]"]) (simp add: ls_example_def next_free_of_def lessThan_Suc)
  moreover have "Tag kNullPointer = 0" by (simp add: Tag_def kNullPointer_def)
  ultimately show ?thesis by (simp add: ls_init_def ls_example_def Tag_MakePointer)
qed

lemma ls_can_step:
  assumes "t < N" and "pc_ok s (seen s t) (pcs s t)" and "\<And>i. held (pcs s t) = Some i \<Longrightarrow> in_buffer s i"
  shows "\<exists>s'. ls_step dflt N t s s'"
  using assms by (cases "pcs s t") (auto intro!: exI intro: ls_step.intros)

text \<open>
  C21. \<open>LockFreeStack\<close> is lock-free: in every reachable state every thread can take its next step, so no operation waits for another thread or
  accesses a node outside of the buffer, and a compare-and-swap on either head fails only when another one succeeded since
  the thread read that head.
\<close>

theorem lockfree_stack_lock_free:
  assumes "ls_reach dflt N s" and "t < N"
  shows "(\<exists>s'. ls_step dflt N t s s') \<and>
    (\<forall>h x i n. pcs s t \<in> {LS_Push_linked x i h, LS_Pop_next h n} \<and> mHead (stk s) \<noteq> h \<longrightarrow> seen s t < ver s) \<and>
    (\<forall>h x i n. pcs s t \<in> {LS_Acq_next x h n, LS_Rel_linked i x h} \<and> mFreeNodeHead (stk s) \<noteq> h \<longrightarrow> seen s t < fver s)"
proof -
  obtain ns fs where inv: "ls_inv N s ns fs" using ls_inv_reach [OF assms(1)] by blast
  note ok = ls_inv_pc [OF inv assms(2)]
  have buf: "in_buffer s i" if "held (pcs s t) = Some i" for i using inv assms(2) that unfolding ls_inv_def by blast
  have "\<exists>s'. ls_step dflt N t s s'" using ls_can_step [OF assms(2) ok buf] .
  then show ?thesis using ok by (auto simp: saw_def le_less)
qed

theorem lockfree_stack_lock_free_witness: "\<exists>s'. ls_step 0 2 1 ls_example s'"
  using lockfree_stack_lock_free [OF ls_reach.init [OF ls_example_init], of 1 2] by simp

section \<open>The operations are sequences of these steps\<close>

lemma ls_push_steps:
  assumes "t < N" and "pcs s t = LS_Idle" and "Index (mFreeNodeHead (stk s)) = of_nat f" and "f < 2 ^ 24" and "in_buffer s f"
  shows "\<exists>s'. (ls_step dflt N t)\<^sup>*\<^sup>* s s' \<and> pcs s' t = LS_Idle \<and> log s' = [Pushed x, Acquired] @ log s \<and>
    LockFreeStack_Push x (stk s) = Inr (True, stk s')"
proof -
  let ?fh = "mFreeNodeHead (stk s)" and ?h = "mHead (stk s)"
  let ?n = "mNextFreeNode (node_at s f)"
  define s1 where "s1 = go t (LS_Acquire x) s"
  define s2 where "s2 = acq_read_step t x s1"
  define s3 where "s3 = acq_next_step t x ?fh s2"
  define s4 where "s4 = acq_cas_step t x ?fh ?n s3"
  define s5 where "s5 = push_value_step t x f s4"
  define s6 where "s6 = stk_push_read_step t x f s5"
  define s7 where "s7 = stk_push_link_step t x f ?h s6"
  define s8 where "s8 = stk_push_cas_step t x f ?h s7"
  define s9 where "s9 = stk_push_count_step t s8"
  note sd = s1_def s2_def s3_def s4_def s5_def s6_def s7_def s8_def s9_def
  have f: "f < length (mNodeBuffer (stk s))" using assms(5) by (simp add: in_buffer_def)
  have "ls_step dflt N t s s1" unfolding s1_def by (rule ls_step.push_begin) fact+
  moreover have "ls_step dflt N t s1 s2" unfolding s2_def by (rule ls_step.acq_read [OF assms(1)]) (simp add: s1_def go_def)
  moreover have "ls_step dflt N t s2 s3" unfolding s3_def
    by (rule ls_step.acq_next [OF assms(1)]) (use assms(3,4) f in \<open>simp_all add: s2_def s1_def ls_step_defs in_buffer_def\<close>)
  moreover have "ls_step dflt N t s3 s4" unfolding s4_def
    by (rule ls_step.acq_cas [OF assms(1)]) (use assms(3,4) in \<open>simp add: s3_def s2_def s1_def ls_step_defs\<close>)
  moreover have "ls_step dflt N t s4 s5" unfolding s5_def
    by (rule ls_step.push_value [OF assms(1)]) (use assms(3,4) f in \<open>simp_all add: s4_def s3_def s2_def s1_def ls_step_defs in_buffer_def\<close>)
  moreover have "ls_step dflt N t s5 s6" unfolding s6_def
    by (rule ls_step.push_read [OF assms(1)]) (simp add: s5_def ls_step_defs)
  moreover have "ls_step dflt N t s6 s7" unfolding s7_def
    by (rule ls_step.push_link [OF assms(1)])
       (use assms(3,4) f in \<open>simp_all add: s6_def s5_def s4_def s3_def s2_def s1_def ls_step_defs in_buffer_def\<close>)
  moreover have "ls_step dflt N t s7 s8" unfolding s8_def
    by (rule ls_step.push_cas [OF assms(1)]) (simp add: s7_def ls_step_defs)
  moreover have "ls_step dflt N t s8 s9" unfolding s9_def
    by (rule ls_step.push_count [OF assms(1)])
       (use assms(3,4) in \<open>simp add: s8_def s7_def s6_def s5_def s4_def s3_def s2_def s1_def ls_step_defs\<close>)
  ultimately have "(ls_step dflt N t)\<^sup>*\<^sup>* s s9"
    using rtranclp_chain [of "ls_step dflt N t" s "[s1, s2, s3, s4, s5, s6, s7, s8, s9]"] by simp
  moreover have "pcs s9 t = LS_Idle" "log s9 = [Pushed x, Acquired] @ log s" using assms(3,4) by (simp_all add: sd ls_step_defs)
  moreover have "LockFreeStack_Push x (stk s) = Inr (True, stk s9)"
    using assms(3,4) f
    by (simp add: LockFreeStack_Push_def AcquireNode_some Push_loop_eq LockFreeStack_GetIndex_def next_free_of_def sd ls_step_defs)
  ultimately show ?thesis by blast
qed

lemma ls_pop_steps:
  assumes "t < N" and "pcs s t = LS_Idle" and "Index (mHead (stk s)) = of_nat i" and "i < 2 ^ 24" and "in_buffer s i"
  shows "\<exists>s'. (ls_step dflt N t)\<^sup>*\<^sup>* s s' \<and> pcs s' t = LS_Idle \<and> log s' = [Released, Popped (mValue (node_at s i))] @ log s \<and>
    LockFreeStack_Pop dflt (stk s) = Inr (Some (mValue (node_at s i)), stk s')"
proof -
  let ?fh = "mFreeNodeHead (stk s)" and ?h = "mHead (stk s)"
  let ?n = "mNext (node_at s i)" and ?x = "mValue (node_at s i)"
  define s1 where "s1 = go t LS_Popping s"
  define s2 where "s2 = stk_pop_read_step t s1"
  define s3 where "s3 = stk_pop_next_step t ?h s2"
  define s4 where "s4 = stk_pop_cas_step t ?h ?n s3"
  define s5 where "s5 = pop_value_step t i s4"
  define s6 where "s6 = rel_value_step dflt t i ?x s5"
  define s7 where "s7 = rel_read_step t i ?x s6"
  define s8 where "s8 = rel_link_step t i ?x ?fh s7"
  define s9 where "s9 = rel_cas_step t i ?x ?fh s8"
  define s10 where "s10 = stk_pop_count_step t s9"
  note sd = s1_def s2_def s3_def s4_def s5_def s6_def s7_def s8_def s9_def s10_def
  have i: "i < length (mNodeBuffer (stk s))" using assms(5) by (simp add: in_buffer_def)
  have "ls_step dflt N t s s1" unfolding s1_def by (rule ls_step.pop_begin) fact+
  moreover have "ls_step dflt N t s1 s2" unfolding s2_def by (rule ls_step.pop_read [OF assms(1)]) (simp add: s1_def go_def)
  moreover have "ls_step dflt N t s2 s3" unfolding s3_def
    by (rule ls_step.pop_next [OF assms(1)]) (use assms(3,4) i in \<open>simp_all add: s2_def s1_def ls_step_defs in_buffer_def\<close>)
  moreover have "ls_step dflt N t s3 s4" unfolding s4_def
    by (rule ls_step.pop_cas [OF assms(1)]) (use assms(3,4) in \<open>simp add: s3_def s2_def s1_def ls_step_defs\<close>)
  moreover have "ls_step dflt N t s4 s5" unfolding s5_def
    by (rule ls_step.pop_value [OF assms(1), where x = ?x])
       (use assms(3,4) i in \<open>simp_all add: s4_def s3_def s2_def s1_def ls_step_defs in_buffer_def\<close>)
  moreover have "ls_step dflt N t s5 s6" unfolding s6_def
    by (rule ls_step.rel_value [OF assms(1)])
       (use assms(3,4) i in \<open>simp_all add: s5_def s4_def s3_def s2_def s1_def ls_step_defs in_buffer_def\<close>)
  moreover have "ls_step dflt N t s6 s7" unfolding s7_def
    by (rule ls_step.rel_read [OF assms(1)]) (simp add: s6_def ls_step_defs)
  moreover have "ls_step dflt N t s7 s8" unfolding s8_def
    by (rule ls_step.rel_link [OF assms(1)])
       (use assms(3,4) i in \<open>simp_all add: s7_def s6_def s5_def s4_def s3_def s2_def s1_def ls_step_defs in_buffer_def\<close>)
  moreover have "ls_step dflt N t s8 s9" unfolding s9_def
    by (rule ls_step.rel_cas [OF assms(1)]) (simp add: s8_def ls_step_defs)
  moreover have "ls_step dflt N t s9 s10" unfolding s10_def
    by (rule ls_step.pop_count [OF assms(1), where x = ?x])
       (use assms(3,4) in \<open>simp add: s9_def s8_def s7_def s6_def s5_def s4_def s3_def s2_def s1_def ls_step_defs\<close>)
  ultimately have "(ls_step dflt N t)\<^sup>*\<^sup>* s s10"
    using rtranclp_chain [of "ls_step dflt N t" s "[s1, s2, s3, s4, s5, s6, s7, s8, s9, s10]"] by simp
  moreover have "pcs s10 t = LS_Idle" "log s10 = [Released, Popped ?x] @ log s" using assms(3,4) by (simp_all add: sd ls_step_defs)
  moreover have "LockFreeStack_Pop dflt (stk s) = Inr (Some ?x, stk s10)"
    using assms(3,4) i
    by (simp add: LockFreeStack_Pop_def Pop_loop_some ReleaseNode_eq next_of_def sd ls_step_defs)
  ultimately show ?thesis by blast
qed

lemma ls_steps_frame:
  assumes "(ls_step dflt N t)\<^sup>*\<^sup>* s s'"
  shows "u \<noteq> t \<Longrightarrow> pcs s' u = pcs s u" and "ver s' + fver s' + length (log s) \<le> ver s + fver s + length (log s')"
proof -
  have frame: "(u \<noteq> t \<longrightarrow> pcs s2 u = pcs s1 u) \<and> ver s2 + fver s2 + length (log s1) \<le> ver s1 + fver s1 + length (log s2)"
    if "ls_step dflt N t s1 s2" for s1 s2
    using that by cases (auto simp: ls_step_defs AtomicCompareExchange_cases)
  from assms have "(u \<noteq> t \<longrightarrow> pcs s' u = pcs s u) \<and> ver s' + fver s' + length (log s) \<le> ver s + fver s + length (log s')"
  proof (induction rule: rtranclp_induct)
    case (step s1 s2)
    then show ?case using frame [OF step(2)] by simp
  qed simp
  then show "u \<noteq> t \<Longrightarrow> pcs s' u = pcs s u" "ver s' + fver s' + length (log s) \<le> ver s + fver s + length (log s')" by auto
qed

lemma ls_few_steps_reach:
  \<comment> \<open>before the first \<open>2^32\<close> updates no thread can have been overtaken by as many\<close>
  assumes "(ls_step dflt N t)\<^sup>*\<^sup>* s s'" and "ls_reach dflt N s" and "ver s' < 2 ^ 32" and "fver s' < 2 ^ 32"
  shows "ls_reach dflt N s'"
  using assms
proof (induction rule: rtranclp_induct)
  case (step s1 s2)
  have "ver s1 \<le> ver s2 \<and> fver s1 \<le> fver s2"
    using step(2) by cases (auto simp: ls_step_defs AtomicCompareExchange_cases)
  then have v: "ver s1 < 2 ^ 32" "fver s1 < 2 ^ 32" using step.prems(2,3) by linarith+
  then have "no_lap N s1" unfolding no_lap_def by (intro allI impI conjI less_imp_diff_less)
  then show ?case using ls_reach.step [OF step.IH [OF step.prems(1) v]] step(2) by blast
qed

theorem lockfree_stack_linearizable_witness:
  "\<exists>s. ls_reach (0 :: nat) 2 s \<and> log s = [Pushed 7, Acquired] \<and> stack_rep (stk s) [7]"
proof -
  have "\<exists>s'. (ls_step 0 2 1)\<^sup>*\<^sup>* ls_example s' \<and> pcs s' 1 = LS_Idle \<and> log s' = [Pushed 7, Acquired] @ log ls_example \<and>
      LockFreeStack_Push 7 (stk ls_example) = Inr (True, stk s')"
    by (rule ls_push_steps [where f = 0]) (simp_all add: ls_example_def in_buffer_def)
  then obtain s where s: "(ls_step 0 2 1)\<^sup>*\<^sup>* ls_example s" "pcs s 1 = LS_Idle" "log s = [Pushed 7, Acquired]"
    by (auto simp: ls_example_def)
  have "ver s + fver s \<le> 3" using ls_steps_frame(2) [OF s(1)] s(3) by (simp add: ls_example_def)
  then have r: "ls_reach 0 2 s" using ls_few_steps_reach [OF s(1) ls_reach.init [OF ls_example_init]] by simp
  have "pcs s u = LS_Idle" for u using ls_steps_frame(1) [OF s(1), of u] s(2) by (cases "u = 1") (simp_all add: ls_example_def)
  then obtain st k where "replay (length (mNodeBuffer (stk s))) (log s) = Some (st, k)" "stack_rep (stk s) st"
    using lockfree_stack_linearizable [OF r] by metis
  moreover from this(1) have "st = [7]" by (auto simp: s(3) split: nat.splits)
  ultimately show ?thesis using r s(3) by blast
qed

text \<open>
  C22. The steps are those of the code: in every reachable state a thread that runs undisturbed from the beginning to the end of an
  operation leaves the stack exactly as \<open>LockFreeStack::Push\<close> and \<open>LockFreeStack::Pop\<close> do when they are executed as a
  whole, with the same result.
\<close>

theorem lockfree_stack_operations_are_steps:
  assumes "ls_reach dflt N s" and "t < N" and "pcs s t = LS_Idle"
  shows "(\<exists>s' ok. (ls_step dflt N t)\<^sup>*\<^sup>* s s' \<and> pcs s' t = LS_Idle \<and> LockFreeStack_Push x (stk s) = Inr (ok, stk s') \<and>
      log s' = (if ok then [Pushed x, Acquired] else [Found_full]) @ log s) \<and>
    (\<exists>s' r. (ls_step dflt N t)\<^sup>*\<^sup>* s s' \<and> pcs s' t = LS_Idle \<and> LockFreeStack_Pop dflt (stk s) = Inr (r, stk s') \<and>
      log s' = (case r of None \<Rightarrow> [Found_empty] | Some y \<Rightarrow> [Released, Popped y]) @ log s)"
proof -
  obtain ns fs where inv: "ls_inv N s ns fs" using ls_inv_reach [OF assms(1)] by blast
  have "\<exists>s' ok. (ls_step dflt N t)\<^sup>*\<^sup>* s s' \<and> pcs s' t = LS_Idle \<and> LockFreeStack_Push x (stk s) = Inr (ok, stk s') \<and>
      log s' = (if ok then [Pushed x, Acquired] else [Found_full]) @ log s"
  proof (cases "Index (mFreeNodeHead (stk s)) = kLockFreeNullPointer")
    case True
    let ?s1 = "go t (LS_Acquire x) s" and ?s2 = "acq_read_step t x (go t (LS_Acquire x) s)"
    have "ls_step dflt N t s ?s1" by (rule ls_step.push_begin) fact+
    moreover have "ls_step dflt N t ?s1 ?s2" by (rule ls_step.acq_read [OF assms(2)]) (simp add: go_def)
    ultimately have "(ls_step dflt N t)\<^sup>*\<^sup>* s ?s2" using rtranclp_chain [of "ls_step dflt N t" s "[?s1, ?s2]"] by simp
    then show ?thesis
      using True by (intro exI [of _ ?s2] exI [of _ False]) (simp add: ls_step_defs LockFreeStack_Push_def AcquireNode_none)
  next
    case False
    then obtain f where "Index (mFreeNodeHead (stk s)) = of_nat f" "f < 2 ^ 24" "in_buffer s f"
      using ls_inv_head_node(2) [OF inv] by blast
    then obtain s' where "(ls_step dflt N t)\<^sup>*\<^sup>* s s'" "pcs s' t = LS_Idle" "log s' = [Pushed x, Acquired] @ log s"
        "LockFreeStack_Push x (stk s) = Inr (True, stk s')" using ls_push_steps [OF assms(2,3)] by blast
    then show ?thesis by (intro exI [of _ s'] exI [of _ True]) simp
  qed
  moreover have "\<exists>s' r. (ls_step dflt N t)\<^sup>*\<^sup>* s s' \<and> pcs s' t = LS_Idle \<and> LockFreeStack_Pop dflt (stk s) = Inr (r, stk s') \<and>
      log s' = (case r of None \<Rightarrow> [Found_empty] | Some y \<Rightarrow> [Released, Popped y]) @ log s"
  proof (cases "Index (mHead (stk s)) = kLockFreeNullPointer")
    case True
    let ?s1 = "go t LS_Popping s" and ?s2 = "stk_pop_read_step t (go t LS_Popping s)"
    have "ls_step dflt N t s ?s1" by (rule ls_step.pop_begin) fact+
    moreover have "ls_step dflt N t ?s1 ?s2" by (rule ls_step.pop_read [OF assms(2)]) (simp add: go_def)
    ultimately have "(ls_step dflt N t)\<^sup>*\<^sup>* s ?s2" using rtranclp_chain [of "ls_step dflt N t" s "[?s1, ?s2]"] by simp
    then show ?thesis
      using True by (intro exI [of _ ?s2] exI [of _ None]) (simp add: ls_step_defs LockFreeStack_Pop_def Pop_loop_none)
  next
    case False
    then obtain i where "Index (mHead (stk s)) = of_nat i" "i < 2 ^ 24" "in_buffer s i"
      using ls_inv_head_node(1) [OF inv] by blast
    then obtain s' where "(ls_step dflt N t)\<^sup>*\<^sup>* s s'" "pcs s' t = LS_Idle" "log s' = [Released, Popped (mValue (node_at s i))] @ log s"
        "LockFreeStack_Pop dflt (stk s) = Inr (Some (mValue (node_at s i)), stk s')" using ls_pop_steps [OF assms(2,3)] by blast
    then show ?thesis by (intro exI [of _ s'] exI [of _ "Some (mValue (node_at s i))"]) simp
  qed
  ultimately show ?thesis by blast
qed

theorem lockfree_stack_operations_are_steps_witness:
  "\<exists>s' ok. (ls_step 0 2 1)\<^sup>*\<^sup>* ls_example s' \<and> LockFreeStack_Push 7 (stk ls_example) = Inr (ok, stk s')"
proof -
  have "pcs ls_example 1 = LS_Idle" by (simp add: ls_example_def)
  from lockfree_stack_operations_are_steps [OF ls_reach.init [OF ls_example_init] _ this, of 2 0 7] show ?thesis by auto
qed

end
