(* ===== verification/Stone_Lockfree_Queue.thy ===== *)
theory Stone_Lockfree_Queue
  imports Stone_Atomic Stone_Tagged_Pointer Stone_Containers
begin

text \<open>
  \<^verbatim>\<open>threading/lockfree/lockfree_queue.h\<close>: the optimistic queue, as one thread executes its operations while no
  other thread interferes. Nodes are at 64-bit addresses; the words \<open>mHead\<close>, \<open>mTail\<close>, \<open>mPrev\<close> and \<open>mNext\<close> are
  tagged pointers. An access through null or to a freed node is an error value, and a loop that does not end is
  \<open>None\<close>. The address that \<open>new Node\<close> returns and the contents of the new storage are arguments (\<open>fresh\<close>, \<open>raw\<close>);
  \<open>dflt\<close> is \<open>T()\<close>.
\<close>

section \<open>The class\<close>

record 'a queue_node =
  mPrev :: u64
  mNext :: u64
  mNextFreeNode :: u64
  mValue :: 'a

record 'a LockFreeQueue =
  mSize :: u64
  mHead :: u64
  mTail :: u64
  mFreeNodeHead :: u64
  nodes :: "u64 \<Rightarrow> 'a queue_node option"

definition LockFreeQueue_kNullPointer :: u64 where
  "LockFreeQueue_kNullPointer = 0xFFFF000000000000"

definition ConvertToNode :: "u64 \<Rightarrow> u64" where
  "ConvertToNode pointer = GetPointer pointer"

definition node_at :: "'a LockFreeQueue \<Rightarrow> u64 \<Rightarrow> 'a queue_node result" where
  "node_at q p = (if p = 0 then Inl Null_dereference
     else case nodes q p of None \<Rightarrow> Inl Use_after_free | Some n \<Rightarrow> Inr n)"

definition node_set :: "u64 \<Rightarrow> ('a queue_node \<Rightarrow> 'a queue_node) \<Rightarrow> 'a LockFreeQueue \<Rightarrow> 'a LockFreeQueue result" where
  "node_set p f q = bind_result (node_at q p) (\<lambda>n. Inr (q\<lparr>nodes := (nodes q)(p \<mapsto> f n)\<rparr>))"

definition node_delete :: "u64 \<Rightarrow> 'a LockFreeQueue \<Rightarrow> 'a LockFreeQueue result" where
  "node_delete p q = (if p = 0 then Inr q else bind_result (node_at q p) (\<lambda>_. Inr (q\<lparr>nodes := (nodes q)(p := None)\<rparr>)))"

partial_function (option) queue_AcquireNode_loop ::
  "u64 \<Rightarrow> 'a queue_node \<Rightarrow> bool \<Rightarrow> 'a LockFreeQueue \<Rightarrow> (u64 option \<times> 'a LockFreeQueue) result option" where
  "queue_AcquireNode_loop fresh raw allocateIfBufferEmpty q =
     (let head = mFreeNodeHead q; pnode = ConvertToNode head in
      if pnode = 0 then
        (if allocateIfBufferEmpty
         then Some (Inr (Some fresh, q\<lparr>nodes := (nodes q)(fresh \<mapsto> raw\<lparr>mNextFreeNode := 0\<rparr>)\<rparr>))
         else Some (Inr (None, q)))
      else case node_at q pnode of
        Inl e \<Rightarrow> Some (Inl e)
      | Inr n \<Rightarrow>
          (let tag = GetNextTag head;
               newhead = MakePointer (mNextFreeNode n) tag;
               (ok, v) = AtomicCompareExchange (mFreeNodeHead q) newhead head;
               q' = q\<lparr>mFreeNodeHead := v\<rparr>
           in if ok then Some (Inr (Some pnode, q')) else queue_AcquireNode_loop fresh raw allocateIfBufferEmpty q'))"

definition LockFreeQueue_AcquireNode ::
  "u64 \<Rightarrow> 'a queue_node \<Rightarrow> bool \<Rightarrow> 'a LockFreeQueue \<Rightarrow> (u64 option \<times> 'a LockFreeQueue) result" where
  "LockFreeQueue_AcquireNode fresh raw allocateIfBufferEmpty q =
     loop_result (queue_AcquireNode_loop fresh raw allocateIfBufferEmpty q)"

partial_function (option) queue_ReleaseNode_loop :: "u64 \<Rightarrow> 'a LockFreeQueue \<Rightarrow> 'a LockFreeQueue result option" where
  "queue_ReleaseNode_loop node q =
     (let head = mFreeNodeHead q;
          newhead = MakePointer node (GetNextTag head)
      in case node_set node (\<lambda>n. n\<lparr>mPrev := MakePointer 0 kInvalidTag, mNextFreeNode := ConvertToNode head\<rparr>) q of
        Inl e \<Rightarrow> Some (Inl e)
      | Inr q1 \<Rightarrow>
          (let (ok, v) = AtomicCompareExchange (mFreeNodeHead q1) newhead head;
               q2 = q1\<lparr>mFreeNodeHead := v\<rparr>
           in if ok then Some (Inr q2) else queue_ReleaseNode_loop node q2))"

definition LockFreeQueue_ReleaseNode :: "'a \<Rightarrow> u64 \<Rightarrow> 'a LockFreeQueue \<Rightarrow> 'a LockFreeQueue result" where
  "LockFreeQueue_ReleaseNode dflt node q =
     bind_result (node_set node (\<lambda>n. n\<lparr>mValue := dflt\<rparr>) q) (\<lambda>q1. loop_result (queue_ReleaseNode_loop node q1))"

definition LockFreeQueue_new :: "u64 \<Rightarrow> 'a queue_node \<Rightarrow> 'a LockFreeQueue \<Rightarrow> 'a LockFreeQueue result" where
  \<comment> \<open>\<open>q\<close> has the members before they are set and the other nodes of the heap\<close>
  "LockFreeQueue_new fresh raw q =
     bind_result (LockFreeQueue_AcquireNode fresh raw True (q\<lparr>mSize := 0, mFreeNodeHead := LockFreeQueue_kNullPointer\<rparr>)) (\<lambda>(r, q1).
       case r of
         None \<Rightarrow> Inl Null_dereference
       | Some node \<Rightarrow>
           bind_result (node_set node (\<lambda>n. n\<lparr>mNext := LockFreeQueue_kNullPointer, mPrev := MakePointer node 0xFFFF\<rparr>) q1) (\<lambda>q2.
             let head = MakePointer node 0 in Inr (q2\<lparr>mHead := head, mTail := head\<rparr>)))"

partial_function (option) queue_Push_loop :: "u64 \<Rightarrow> 'a LockFreeQueue \<Rightarrow> 'a LockFreeQueue result option" where
  "queue_Push_loop node q =
     (let tail = mTail q in
      case node_set node (\<lambda>n. n\<lparr>mNext := MakePointer (GetPointer tail) (GetNextTag tail)\<rparr>) q of
        Inl e \<Rightarrow> Some (Inl e)
      | Inr q1 \<Rightarrow>
          (let newtail = MakePointer node (GetNextTag tail);
               (ok, v) = AtomicCompareExchange (mTail q1) newtail tail;
               q2 = q1\<lparr>mTail := v\<rparr>
           in if ok then
                (let prev = MakePointer node (GetTag tail); ptail = ConvertToNode tail
                 in Some (node_set ptail (\<lambda>n. n\<lparr>mPrev := prev\<rparr>) q2))
              else queue_Push_loop node q2))"

definition LockFreeQueue_Push :: "u64 \<Rightarrow> 'a queue_node \<Rightarrow> 'a \<Rightarrow> 'a LockFreeQueue \<Rightarrow> (u64 \<times> 'a LockFreeQueue) result" where
  "LockFreeQueue_Push fresh raw elem q =
     bind_result (LockFreeQueue_AcquireNode fresh raw True q) (\<lambda>(r, q1).
       case r of
         None \<Rightarrow> Inl Null_dereference
       | Some node \<Rightarrow>
           bind_result (node_set node (\<lambda>n. n\<lparr>mValue := elem\<rparr>) q1) (\<lambda>q2.
           bind_result (loop_result (queue_Push_loop node q2)) (\<lambda>q3.
             let (n, m) = AtomicIncrement (mSize q3) in Inr (n, q3\<lparr>mSize := m\<rparr>))))"

partial_function (option) queue_FixList_loop :: "u64 \<Rightarrow> u64 \<Rightarrow> 'a LockFreeQueue \<Rightarrow> 'a LockFreeQueue result option" where
  "queue_FixList_loop current head q =
     (if head = mHead q \<and> current \<noteq> head then
        (let pcurrent = ConvertToNode current in
         case node_at q pcurrent of
           Inl e \<Rightarrow> Some (Inl e)
         | Inr n \<Rightarrow>
             (let pnext = ConvertToNode (mNext n) in
              case node_set pnext (\<lambda>m. m\<lparr>mPrev := MakePointer pcurrent (GetPrevTag current)\<rparr>) q of
                Inl e \<Rightarrow> Some (Inl e)
              | Inr q' \<Rightarrow> queue_FixList_loop (MakePointer pnext (GetPrevTag current)) head q'))
      else Some (Inr q))"

definition LockFreeQueue_FixList :: "u64 \<Rightarrow> u64 \<Rightarrow> 'a LockFreeQueue \<Rightarrow> 'a LockFreeQueue result" where
  "LockFreeQueue_FixList tail head q = loop_result (queue_FixList_loop tail head q)"

partial_function (option) queue_Pop_loop :: "'a \<Rightarrow> 'a LockFreeQueue \<Rightarrow> ('a option \<times> 'a LockFreeQueue) result option" where
  "queue_Pop_loop dflt q =
     (let head = mHead q; tail = mTail q; phead = ConvertToNode head in
      case node_at q phead of
        Inl e \<Rightarrow> Some (Inl e)
      | Inr n \<Rightarrow>
          (let prev_of_first = mPrev n in
           if head = mHead q then
             if tail \<noteq> head then
               (let tag1 = GetTag prev_of_first; tag2 = GetTag head in
                if tag1 = kInvalidTag then queue_Pop_loop dflt q
                else if tag1 \<noteq> tag2 then
                  (case LockFreeQueue_FixList tail head q of Inl e \<Rightarrow> Some (Inl e) | Inr q' \<Rightarrow> queue_Pop_loop dflt q')
                else
                  (let ppof = ConvertToNode prev_of_first in
                   case node_at q ppof of
                     Inl e \<Rightarrow> Some (Inl e)
                   | Inr m \<Rightarrow>
                       (let newhead = MakePointer ppof (GetNextTag head);
                            (ok, v) = AtomicCompareExchange (mHead q) newhead head;
                            q1 = q\<lparr>mHead := v\<rparr>
                        in if ok then
                             Some (bind_result (LockFreeQueue_ReleaseNode dflt phead q1) (\<lambda>q2.
                               Inr (Some (mValue m), q2\<lparr>mSize := snd (AtomicDecrement (mSize q2))\<rparr>)))
                           else queue_Pop_loop dflt q1)))
             else Some (Inr (None, q))
           else queue_Pop_loop dflt q))"

definition LockFreeQueue_Pop :: "'a \<Rightarrow> 'a LockFreeQueue \<Rightarrow> ('a option \<times> 'a LockFreeQueue) result" where
  "LockFreeQueue_Pop dflt q = loop_result (queue_Pop_loop dflt q)"

definition LockFreeQueue_Size :: "'a LockFreeQueue \<Rightarrow> u64" where
  "LockFreeQueue_Size q = AtomicGet (mSize q)"

definition LockFreeQueue_Empty :: "'a LockFreeQueue \<Rightarrow> bool" where
  "LockFreeQueue_Empty q \<longleftrightarrow> LockFreeQueue_Size q = 0"

partial_function (option) queue_drain :: "'a \<Rightarrow> 'a LockFreeQueue \<Rightarrow> 'a LockFreeQueue result option" where
  \<comment> \<open>the first loop of the destructor\<close>
  "queue_drain dflt q =
     (case LockFreeQueue_Pop dflt q of
       Inl e \<Rightarrow> Some (Inl e)
     | Inr (r, q') \<Rightarrow> if r = None then Some (Inr q') else queue_drain dflt q')"

partial_function (option) queue_delete_free :: "u64 \<Rightarrow> 'a queue_node \<Rightarrow> 'a LockFreeQueue \<Rightarrow> 'a LockFreeQueue result option" where
  \<comment> \<open>the second loop of the destructor\<close>
  "queue_delete_free fresh raw q =
     (case LockFreeQueue_AcquireNode fresh raw False q of
       Inl e \<Rightarrow> Some (Inl e)
     | Inr (None, q') \<Rightarrow> Some (Inr q')
     | Inr (Some node, q') \<Rightarrow>
         (case node_delete node q' of Inl e \<Rightarrow> Some (Inl e) | Inr q'' \<Rightarrow> queue_delete_free fresh raw q''))"

definition LockFreeQueue_dtor :: "u64 \<Rightarrow> 'a queue_node \<Rightarrow> 'a \<Rightarrow> 'a LockFreeQueue \<Rightarrow> 'a LockFreeQueue result" where
  "LockFreeQueue_dtor fresh raw dflt q =
     bind_result (loop_result (queue_drain dflt q)) (\<lambda>q1.
     bind_result (loop_result (queue_delete_free fresh raw q1)) (\<lambda>q2.
       node_delete (ConvertToNode (mHead q2)) q2))"


section \<open>The list of nodes that a queue holds\<close>

primrec qchain :: "(u64 \<Rightarrow> 'a queue_node option) \<Rightarrow> u64 \<Rightarrow> u16 \<Rightarrow> u64 list \<Rightarrow> u64 \<Rightarrow> bool" where
  \<comment> \<open>from the node \<open>n\<close> with tag \<open>t\<close> the queue goes on through the nodes of the list to the word \<open>tw\<close>\<close>
  "qchain h n t [] tw \<longleftrightarrow> tw = MakePointer n t"
| "qchain h n t (m # ms) tw \<longleftrightarrow> (\<exists>nd. h n = Some nd \<and> mPrev nd = MakePointer m t) \<and>
     (\<exists>md. h m = Some md \<and> mNext md = MakePointer n (tag_next t)) \<and> qchain h m (tag_next t) ms tw"

primrec fchain :: "(u64 \<Rightarrow> 'a queue_node option) \<Rightarrow> u64 \<Rightarrow> u64 list \<Rightarrow> bool" where
  "fchain h p [] \<longleftrightarrow> p = 0"
| "fchain h p (x # xs) \<longleftrightarrow> p = x \<and> (\<exists>n. h x = Some n \<and> fchain h (mNextFreeNode n) xs)"

definition queue_holds :: "'a LockFreeQueue \<Rightarrow> u64 \<Rightarrow> u16 \<Rightarrow> u64 list \<Rightarrow> u64 list \<Rightarrow> bool" where
  "queue_holds q n t ms fs \<longleftrightarrow> mHead q = MakePointer n t \<and> t \<noteq> kInvalidTag \<and> qchain (nodes q) n t ms (mTail q) \<and>
     fchain (nodes q) (GetPointer (mFreeNodeHead q)) fs \<and> distinct (n # ms @ fs) \<and>
     (\<forall>p \<in> set (n # ms @ fs). good_addr p \<and> p \<in> dom (nodes q)) \<and> mSize q = of_nat (length ms)"

definition values_of :: "'a LockFreeQueue \<Rightarrow> u64 list \<Rightarrow> 'a list" where
  "values_of q ms = map (\<lambda>m. mValue (the (nodes q m))) ms"

definition queue_rep :: "'a LockFreeQueue \<Rightarrow> 'a list \<Rightarrow> bool" where
  "queue_rep q xs \<longleftrightarrow> (\<exists>n t ms fs. queue_holds q n t ms fs \<and> xs = values_of q ms)"

lemma qchain_frame: "(\<And>p. p \<in> set (n # ms) \<Longrightarrow> h' p = h p) \<Longrightarrow> qchain h' n t ms tw = qchain h n t ms tw"
  by (induction ms arbitrary: n t) auto

lemma fchain_frame: "(\<And>p. p \<in> set xs \<Longrightarrow> h' p = h p) \<Longrightarrow> fchain h' p xs = fchain h p xs"
  by (induction xs arbitrary: p) auto

lemma chain_upds [simp]:
  "p \<notin> set (n # ms) \<Longrightarrow> qchain (h(p := v)) n t ms tw = qchain h n t ms tw"
  "p \<notin> set fs \<Longrightarrow> fchain (h(p := v)) k fs = fchain h k fs"
proof -
  show "qchain (h(p := v)) n t ms tw = qchain h n t ms tw" if "p \<notin> set (n # ms)"
    by (rule qchain_frame) (use that in auto)
  show "fchain (h(p := v)) k fs = fchain h k fs" if "p \<notin> set fs"
    by (rule fchain_frame) (use that in auto)
qed

lemma values_frame: "(\<And>p. p \<in> set ms \<Longrightarrow> nodes q' p = nodes q p) \<Longrightarrow> values_of q' ms = values_of q ms"
  by (auto simp: values_of_def intro!: map_cong)

lemma qchain_tail:
  "qchain h n t ms tw \<Longrightarrow> \<forall>p \<in> set (n # ms). canonical p \<Longrightarrow> GetPointer tw = last (n # ms) \<and> tw = MakePointer (last (n # ms)) (GetTag tw)"
  by (induction ms arbitrary: n t) (auto simp: GetPointer_MakePointer_canonical GetTag_MakePointer)

lemma qchain_tail_differs:
  assumes "qchain h n t (m # ms) tw" and "\<forall>p \<in> set (n # m # ms). canonical p" and "distinct (n # m # ms)"
  shows "tw \<noteq> MakePointer n t"
proof
  assume "tw = MakePointer n t"
  then have "n = last (n # m # ms)"
    using qchain_tail [OF assms(1,2)] assms(2) by (simp add: GetPointer_MakePointer_canonical)
  moreover have "last (n # m # ms) \<in> set (m # ms)" by simp
  ultimately show False using assms(3) by (metis distinct.simps(2))
qed

lemma qchain_snoc:
  assumes "qchain h n t ms tw" and "distinct (n # ms)" and "m \<notin> set (n # ms)"
    and "h (last (n # ms)) = Some ld" and "mNext md = MakePointer (last (n # ms)) (tag_next (GetTag tw))"
    and "h' = h(m \<mapsto> md, last (n # ms) \<mapsto> ld\<lparr>mPrev := MakePointer m (GetTag tw)\<rparr>)"
  shows "qchain h' n t (ms @ [m]) (MakePointer m (tag_next (GetTag tw)))"
  using assms
proof (induction ms arbitrary: n t)
  case Nil
  then show ?case by (auto simp: GetTag_MakePointer)
next
  case (Cons a as)
  have l: "last (n # a # as) = last (a # as)" "last (a # as) \<in> set (a # as)" by simp_all
  then have "n \<noteq> last (a # as)" using Cons.prems(2) by (metis distinct.simps(2))
  moreover have "qchain h' a (tag_next t) (as @ [m]) (MakePointer m (tag_next (GetTag tw)))"
    by (rule Cons.IH) (use Cons.prems l(1) in simp_all)
  ultimately show ?case using Cons.prems l(1) by auto
qed

section \<open>One operation after the other\<close>

lemma node_ops [simp]:
  "p \<noteq> 0 \<Longrightarrow> nodes q p = Some n \<Longrightarrow> node_at q p = Inr n"
  "p \<noteq> 0 \<Longrightarrow> nodes q p = Some n \<Longrightarrow> node_set p f q = Inr (q\<lparr>nodes := (nodes q)(p \<mapsto> f n)\<rparr>)"
  "p \<noteq> 0 \<Longrightarrow> nodes q p = Some n \<Longrightarrow> node_delete p q = Inr (q\<lparr>nodes := (nodes q)(p := None)\<rparr>)"
  by (simp_all add: node_at_def node_set_def node_delete_def)

lemma Acquire_fresh:
  "GetPointer (mFreeNodeHead q) = 0 \<Longrightarrow> LockFreeQueue_AcquireNode fresh raw alloc q =
     (if alloc then Inr (Some fresh, q\<lparr>nodes := (nodes q)(fresh \<mapsto> raw\<lparr>mNextFreeNode := 0\<rparr>)\<rparr>) else Inr (None, q))"
  by (simp add: LockFreeQueue_AcquireNode_def queue_AcquireNode_loop.simps loop_result_def ConvertToNode_def)

lemma Acquire_free:
  "GetPointer (mFreeNodeHead q) = f \<Longrightarrow> f \<noteq> 0 \<Longrightarrow> nodes q f = Some n \<Longrightarrow>
   LockFreeQueue_AcquireNode fresh raw alloc q =
     Inr (Some f, q\<lparr>mFreeNodeHead := MakePointer (mNextFreeNode n) (GetNextTag (mFreeNodeHead q))\<rparr>)"
  by (simp add: LockFreeQueue_AcquireNode_def queue_AcquireNode_loop.simps loop_result_def ConvertToNode_def Let_def)

lemma Release_eq:
  "p \<noteq> 0 \<Longrightarrow> nodes q p = Some n \<Longrightarrow> LockFreeQueue_ReleaseNode dflt p q =
     Inr (q\<lparr>nodes := (nodes q)(p \<mapsto> n\<lparr>mValue := dflt, mPrev := MakePointer 0 kInvalidTag, mNextFreeNode := GetPointer (mFreeNodeHead q)\<rparr>),
            mFreeNodeHead := MakePointer p (GetNextTag (mFreeNodeHead q))\<rparr>)"
  by (simp add: LockFreeQueue_ReleaseNode_def queue_ReleaseNode_loop.simps loop_result_def ConvertToNode_def Let_def)

lemma Push_loop_seq:
  assumes "p \<noteq> 0" and "nodes q p = Some n" and "GetPointer (mTail q) = l" and "l \<noteq> 0" and "nodes q l = Some ld" and "p \<noteq> l"
  shows "loop_result (queue_Push_loop p q) = Inr (q\<lparr>mTail := MakePointer p (GetNextTag (mTail q)),
    nodes := (nodes q)(p \<mapsto> n\<lparr>mNext := MakePointer l (GetNextTag (mTail q))\<rparr>,
                       l \<mapsto> ld\<lparr>mPrev := MakePointer p (GetTag (mTail q))\<rparr>)\<rparr>)"
  using assms by (simp add: queue_Push_loop.simps loop_result_def ConvertToNode_def Let_def)


lemma fchain_head_canonical:
  "fchain h p fs \<Longrightarrow> \<forall>x \<in> set fs. good_addr x \<Longrightarrow> GetPointer (MakePointer p t) = p"
  by (cases fs) (auto simp: good_addr_def GetPointer_MakePointer_canonical)

lemma acquire_holds:
  assumes "queue_holds q n t ms fs" and "fs = [] \<Longrightarrow> good_addr fresh \<and> nodes q fresh = None"
  obtains m q1 md where "LockFreeQueue_AcquireNode fresh raw True q = Inr (Some m, q1)" and "good_addr m"
    and "nodes q1 m = Some md" and "queue_holds q1 n t ms (tl fs)" and "m \<notin> set (n # ms @ tl fs)"
    and "values_of q1 ms = values_of q ms" and "dom (nodes q1) = insert m (dom (nodes q))" and "fs = [] \<or> fs = m # tl fs"
proof (cases fs)
  case Nil
  then have f: "good_addr fresh" "nodes q fresh = None" using assms(2) by auto
  then have nin: "fresh \<notin> set (n # ms)" using assms(1) by (auto simp: queue_holds_def)
  let ?q = "q\<lparr>nodes := (nodes q)(fresh \<mapsto> raw\<lparr>mNextFreeNode := 0\<rparr>)\<rparr>"
  have "queue_holds ?q n t ms []"
    using assms(1) Nil nin by (auto simp: queue_holds_def)
  moreover have "values_of ?q ms = values_of q ms" by (rule values_frame) (use nin in auto)
  ultimately show thesis
    using assms(1) Nil f nin by (intro that [of fresh ?q]) (auto simp: queue_holds_def Acquire_fresh)
next
  case (Cons f fs')
  then obtain nf where f: "GetPointer (mFreeNodeHead q) = f" "nodes q f = Some nf" "fchain (nodes q) (mNextFreeNode nf) fs'"
    "good_addr f" "f \<notin> set (n # ms @ fs')"
    using assms(1) by (auto simp: queue_holds_def)
  let ?q = "q\<lparr>mFreeNodeHead := MakePointer (mNextFreeNode nf) (GetNextTag (mFreeNodeHead q))\<rparr>"
  have "GetPointer (MakePointer (mNextFreeNode nf) (GetNextTag (mFreeNodeHead q))) = mNextFreeNode nf"
    by (rule fchain_head_canonical [OF f(3)]) (use assms(1) Cons in \<open>auto simp: queue_holds_def\<close>)
  then have "queue_holds ?q n t ms fs'" using assms(1) Cons f(3) by (auto simp: queue_holds_def)
  moreover have "values_of ?q ms = values_of q ms" by (rule values_frame) simp
  moreover have "LockFreeQueue_AcquireNode fresh raw True q = Inr (Some f, ?q)"
    using Acquire_free [OF f(1) _ f(2)] f(4) by (simp add: good_addr_def)
  ultimately show thesis using Cons f by (intro that [of f ?q nf]) auto
qed

lemma push_holds:
  assumes "queue_holds q n t ms fs" and "fs = [] \<Longrightarrow> good_addr fresh \<and> nodes q fresh = None"
  shows "\<exists>m q'. LockFreeQueue_Push fresh raw x q = Inr (of_nat (length ms + 1), q') \<and>
    queue_holds q' n t (ms @ [m]) (tl fs) \<and> values_of q' (ms @ [m]) = values_of q ms @ [x] \<and>
    dom (nodes q') = insert m (dom (nodes q)) \<and> (fs = [] \<or> fs = m # tl fs)"
proof -
  obtain m q1 md where a: "LockFreeQueue_AcquireNode fresh raw True q = Inr (Some m, q1)" "good_addr m"
      "nodes q1 m = Some md" "queue_holds q1 n t ms (tl fs)" "m \<notin> set (n # ms @ tl fs)"
      "values_of q1 ms = values_of q ms" "dom (nodes q1) = insert m (dom (nodes q))"
      "fs = [] \<or> fs = m # tl fs"
    using acquire_holds [OF assms] by blast
  define l where "l = last (n # ms)"
  have l: "l \<in> set (n # ms)" unfolding l_def by (rule last_in_set) simp
  then have "l \<in> dom (nodes q1)" "l \<noteq> 0" "m \<noteq> l" using a(4,5) by (auto simp: queue_holds_def good_addr_def)
  then obtain ld where ld: "nodes q1 l = Some ld" "l \<noteq> 0" "m \<noteq> l" by auto
  have can: "\<forall>p \<in> set (n # ms). canonical p" using a(4) by (auto simp: queue_holds_def good_addr_def)
  have qc: "qchain (nodes q1) n t ms (mTail q1)" using a(4) by (simp add: queue_holds_def)
  have tw: "GetPointer (mTail q1) = l" using qchain_tail [OF qc can] by (simp only: l_def)
  let ?md = "md\<lparr>mValue := x, mNext := MakePointer l (tag_next (GetTag (mTail q1)))\<rparr>"
  let ?h = "(nodes q1)(m \<mapsto> ?md, l \<mapsto> ld\<lparr>mPrev := MakePointer m (GetTag (mTail q1))\<rparr>)"
  let ?q = "q1\<lparr>mTail := MakePointer m (tag_next (GetTag (mTail q1))), nodes := ?h, mSize := mSize q1 + 1\<rparr>"
  have "LockFreeQueue_Push fresh raw x q = Inr (mSize q1 + 1, ?q)"
    using a(1-3) ld tw Push_loop_seq [of m "q1\<lparr>nodes := (nodes q1)(m \<mapsto> md\<lparr>mValue := x\<rparr>)\<rparr>" "md\<lparr>mValue := x\<rparr>" l ld]
    by (simp add: LockFreeQueue_Push_def good_addr_def GetNextTag_eq)
  moreover have "qchain ?h n t (ms @ [m]) (MakePointer m (tag_next (GetTag (mTail q1))))"
  proof (rule qchain_snoc [OF qc])
    show "distinct (n # ms)" "m \<notin> set (n # ms)" using a(4,5) by (auto simp: queue_holds_def)
    show "nodes q1 (last (n # ms)) = Some ld" using ld(1) by (simp only: l_def)
    show "mNext ?md = MakePointer (last (n # ms)) (tag_next (GetTag (mTail q1)))" by (simp add: l_def)
    show "?h = (nodes q1)(m \<mapsto> ?md, last (n # ms) \<mapsto> ld\<lparr>mPrev := MakePointer m (GetTag (mTail q1))\<rparr>)"
      by (simp only: l_def)
  qed
  moreover have "l \<notin> set (tl fs)" using a(4) l by (auto simp: queue_holds_def)
  moreover have "values_of ?q (ms @ [m]) = values_of q ms @ [x]"
  proof -
    have "values_of ?q ms = values_of q1 ms"
      unfolding values_of_def by (rule map_cong [OF refl]) (use a(5) ld(1) in auto)
    moreover have "mValue (the (?h m)) = x" using ld(3) by simp
    ultimately show ?thesis using a(6) by (simp add: values_of_def)
  qed
  ultimately show ?thesis
    using a(2-5,7,8) ld by (intro exI [of _ m] exI [of _ ?q]) (auto simp: queue_holds_def dom_def)
qed

lemma pop_holds:
  assumes "queue_holds q n t (m # ms) fs"
  shows "\<exists>q'. LockFreeQueue_Pop dflt q = Inr (Some (mValue (the (nodes q m))), q') \<and>
    queue_holds q' m (tag_next t) ms (n # fs) \<and> values_of q' ms = values_of q ms \<and> dom (nodes q') = dom (nodes q)"
proof -
  obtain nd md where d: "mHead q = MakePointer n t" "nodes q n = Some nd" "mPrev nd = MakePointer m t" "nodes q m = Some md"
      "qchain (nodes q) m (tag_next t) ms (mTail q)" "t \<noteq> kInvalidTag" "good_addr n" "good_addr m" "n \<notin> set (m # ms @ fs)"
    using assms by (auto simp: queue_holds_def)
  have can: "\<forall>p \<in> set (n # m # ms). canonical p" using assms by (auto simp: queue_holds_def good_addr_def)
  have "mTail q \<noteq> mHead q"
    using qchain_tail_differs [OF _ can] assms by (auto simp: queue_holds_def)
  let ?h = "(nodes q)(n \<mapsto> nd\<lparr>mValue := dflt, mPrev := MakePointer 0 kInvalidTag, mNextFreeNode := GetPointer (mFreeNodeHead q)\<rparr>)"
  let ?q = "q\<lparr>mHead := MakePointer m (tag_next t), nodes := ?h,
      mFreeNodeHead := MakePointer n (GetNextTag (mFreeNodeHead q)), mSize := mSize q - 1\<rparr>"
  have "LockFreeQueue_Pop dflt q = Inr (Some (mValue md), ?q)"
    unfolding LockFreeQueue_Pop_def
    using d can \<open>mTail q \<noteq> mHead q\<close> Release_eq [of n "q\<lparr>mHead := MakePointer m (tag_next t)\<rparr>" nd dflt]
    by (subst queue_Pop_loop.simps)
       (simp add: loop_result_def ConvertToNode_def Let_def good_addr_def GetPointer_MakePointer_canonical
        GetTag_MakePointer GetNextTag_eq)
  moreover have "qchain ?h m (tag_next t) ms (mTail q)"
    using d(5,9) by simp
  moreover have "fchain ?h (GetPointer (mFreeNodeHead q)) fs"
    using assms d(9) by (simp add: queue_holds_def)
  moreover have "values_of ?q ms = values_of q ms" by (rule values_frame) (use d(9) in auto)
  moreover have "GetPointer (MakePointer n u) = n" for u
    using d(7) by (simp add: good_addr_def GetPointer_MakePointer_canonical)
  ultimately show ?thesis
    using assms d tag_next_valid [of t] by (intro exI [of _ ?q]) (auto simp: queue_holds_def)
qed

lemma pop_holds_empty:
  assumes "queue_holds q n t [] fs"
  shows "LockFreeQueue_Pop dflt q = Inr (None, q)"
proof -
  obtain nd where "nodes q n = Some nd" "good_addr n" using assms by (auto simp: queue_holds_def)
  then show ?thesis
    using assms unfolding LockFreeQueue_Pop_def
    by (subst queue_Pop_loop.simps)
       (simp add: queue_holds_def loop_result_def ConvertToNode_def Let_def good_addr_def GetPointer_MakePointer_canonical)
qed


section \<open>Destruction\<close>

lemma drain_holds:
  "queue_holds q n t ms fs \<Longrightarrow> \<exists>q' n' t' fs'. queue_drain dflt q = Some (Inr q') \<and> queue_holds q' n' t' [] fs' \<and>
     set (n' # fs') = set (n # ms @ fs) \<and> dom (nodes q') = dom (nodes q)"
proof (induction ms arbitrary: q n t fs)
  case Nil
  then show ?case
    using pop_holds_empty [OF Nil, of dflt]
    by (intro exI [of _ q] exI [of _ n] exI [of _ t] exI [of _ fs]) (simp add: queue_drain.simps)
next
  case (Cons m ms)
  obtain q1 where q1: "LockFreeQueue_Pop dflt q = Inr (Some (mValue (the (nodes q m))), q1)"
      "queue_holds q1 m (tag_next t) ms (n # fs)" "dom (nodes q1) = dom (nodes q)"
    using pop_holds [OF Cons.prems, of dflt] by blast
  have "queue_drain dflt q = queue_drain dflt q1" using q1(1) by (subst queue_drain.simps) simp
  moreover have "set (m # ms @ n # fs) = set (n # (m # ms) @ fs)" by auto
  ultimately show ?case using Cons.IH [OF q1(2)] q1(3) by metis
qed

lemma delete_free_holds:
  assumes "fchain (nodes q) (GetPointer (mFreeNodeHead q)) fs" and "distinct fs" and "\<forall>p \<in> set fs. good_addr p"
  shows "\<exists>q'. queue_delete_free fresh raw q = Some (Inr q') \<and> nodes q' = nodes q |` (- set fs) \<and> mHead q' = mHead q"
  using assms
proof (induction fs arbitrary: q)
  case Nil
  then show ?case by (subst queue_delete_free.simps) (simp add: Acquire_fresh restrict_map_def)
next
  case (Cons f fs)
  then obtain n where f: "GetPointer (mFreeNodeHead q) = f" "f \<noteq> 0" "nodes q f = Some n" "fchain (nodes q) (mNextFreeNode n) fs"
    by (auto simp: good_addr_def)
  let ?q = "q\<lparr>mFreeNodeHead := MakePointer (mNextFreeNode n) (GetNextTag (mFreeNodeHead q)), nodes := (nodes q)(f := None)\<rparr>"
  have "queue_delete_free fresh raw q = queue_delete_free fresh raw ?q"
    using f by (subst queue_delete_free.simps) (simp add: Acquire_free)
  moreover have "GetPointer (MakePointer (mNextFreeNode n) u) = mNextFreeNode n" for u
    by (rule fchain_head_canonical [OF f(4)]) (use Cons.prems(3) in simp)
  then have "\<exists>q'. queue_delete_free fresh raw ?q = Some (Inr q') \<and> nodes q' = nodes ?q |` (- set fs) \<and> mHead q' = mHead ?q"
    using Cons.prems f(4) by (intro Cons.IH) (simp_all del: fun_upd_apply)
  moreover have "nodes ?q |` (- set fs) = nodes q |` (- set (f # fs))"
    by (rule ext) (simp add: restrict_map_def)
  ultimately show ?case by auto
qed


section \<open>Repairing the backward links\<close>

primrec nchain :: "(u64 \<Rightarrow> 'a queue_node option) \<Rightarrow> u64 \<Rightarrow> u16 \<Rightarrow> u64 list \<Rightarrow> u64 \<Rightarrow> bool" where
  \<comment> \<open>as \<open>qchain\<close>, with \<open>mPrev\<close> of any value\<close>
  "nchain h n t [] tw \<longleftrightarrow> tw = MakePointer n t"
| "nchain h n t (m # ms) tw \<longleftrightarrow> n \<in> dom h \<and>
     (\<exists>md. h m = Some md \<and> mNext md = MakePointer n (tag_next t)) \<and> nchain h m (tag_next t) ms tw"

definition same_but_prev :: "(u64 \<Rightarrow> 'a queue_node option) \<Rightarrow> (u64 \<Rightarrow> 'a queue_node option) \<Rightarrow> bool" where
  "same_but_prev h' h \<longleftrightarrow> (\<forall>p. map_option (\<lambda>n. n\<lparr>mPrev := 0\<rparr>) (h' p) = map_option (\<lambda>n. n\<lparr>mPrev := 0\<rparr>) (h p))"

lemma same_but_prev_trans: "same_but_prev h'' h' \<Longrightarrow> same_but_prev h' h \<Longrightarrow> same_but_prev h'' h"
  by (simp add: same_but_prev_def)

lemma same_but_prev_upd: "h p = Some n \<Longrightarrow> same_but_prev (h(p \<mapsto> n\<lparr>mPrev := v\<rparr>)) h"
  by (simp add: same_but_prev_def)

lemma same_but_prev_fields:
  assumes "same_but_prev h' h" and "h p = Some n"
  obtains n' where "h' p = Some n'" and "mNext n' = mNext n" and "mNextFreeNode n' = mNextFreeNode n" and "mValue n' = mValue n"
proof -
  have "map_option (\<lambda>n. n\<lparr>mPrev := 0\<rparr>) (h' p) = Some (n\<lparr>mPrev := 0\<rparr>)" using assms by (simp add: same_but_prev_def)
  then obtain n' where "h' p = Some n'" "n'\<lparr>mPrev := 0\<rparr> = n\<lparr>mPrev := 0\<rparr>" by auto
  moreover from this(2) have "mNext n' = mNext n" "mNextFreeNode n' = mNextFreeNode n" "mValue n' = mValue n"
    by (metis (lifting) queue_node.update_convs(1) queue_node.select_convs(2-4) queue_node.surjective)+
  ultimately show thesis by (intro that)
qed

lemma nchain_snoc:
  "nchain h n t (ms @ [m]) tw \<Longrightarrow> nchain h n t ms (MakePointer (last (n # ms)) ((tag_next ^^ length ms) t)) \<and>
     last (n # ms) \<in> dom h \<and> (\<exists>md. h m = Some md \<and> mNext md = MakePointer (last (n # ms)) (tag_next ((tag_next ^^ length ms) t))) \<and>
     tw = MakePointer m (tag_next ((tag_next ^^ length ms) t))"
proof (induction ms arbitrary: n t)
  case (Cons a as)
  then have "nchain h a (tag_next t) (as @ [m]) tw" by simp
  from Cons.IH [OF this] Cons.prems show ?case by (simp add: funpow_swap1)
qed auto

lemma nchain_upd_prev:
  "nchain h n t ms tw \<Longrightarrow> h p = Some d \<Longrightarrow> nchain (h(p \<mapsto> d\<lparr>mPrev := v\<rparr>)) n t ms tw"
  by (induction ms arbitrary: n t) auto

lemma qchain_snocI:
  "qchain h n t ms (MakePointer (last (n # ms)) u) \<Longrightarrow> u = (tag_next ^^ length ms) t \<Longrightarrow>
   \<exists>nd. h (last (n # ms)) = Some nd \<and> mPrev nd = MakePointer m u \<Longrightarrow>
   \<exists>md. h m = Some md \<and> mNext md = MakePointer (last (n # ms)) (tag_next u) \<Longrightarrow>
   qchain h n t (ms @ [m]) (MakePointer m (tag_next u))"
  by (induction ms arbitrary: n t) (auto simp: funpow_swap1)

lemma FixList_loop_repairs:
  assumes "nchain (nodes q) n t ms tw" and "distinct (n # ms)" and "\<forall>p \<in> set (n # ms). good_addr p"
    and "t \<noteq> kInvalidTag" and "mHead q = MakePointer n t"
  shows "\<exists>h. queue_FixList_loop tw (mHead q) q = Some (Inr (q\<lparr>nodes := h\<rparr>)) \<and> qchain h n t ms tw \<and>
    same_but_prev h (nodes q) \<and> (\<forall>p. p \<notin> set (butlast (n # ms)) \<longrightarrow> h p = nodes q p)"
  using assms
proof (induction ms arbitrary: q tw rule: rev_induct)
  case Nil
  then show ?case
    by (intro exI [of _ "nodes q"], subst queue_FixList_loop.simps) (simp add: same_but_prev_def)
next
  case (snoc m ms)
  define l where "l = last (n # ms)"
  define u where "u = (tag_next ^^ length ms) t"
  obtain md ld where c: "nchain (nodes q) n t ms (MakePointer l u)" "nodes q l = Some ld" "nodes q m = Some md"
      "mNext md = MakePointer l (tag_next u)" "tw = MakePointer m (tag_next u)"
    using nchain_snoc [OF snoc.prems(1)] by (auto simp: l_def u_def)
  have ln: "l \<in> set (n # ms)" unfolding l_def by (rule last_in_set) simp
  then have a: "good_addr m" "good_addr l" "good_addr n" "m \<noteq> l" "m \<noteq> n" using snoc.prems(2,3) by auto
  then have ptr: "GetPointer (MakePointer m v) = m" "GetPointer (MakePointer l v) = l" "GetPointer (MakePointer n v) = n"
      "m \<noteq> 0" "l \<noteq> 0" for v
    by (simp_all add: good_addr_def GetPointer_MakePointer_canonical)
  have uv: "u \<noteq> kInvalidTag" using tag_next_funpow_rank [OF snoc.prems(4)] by (simp add: u_def)
  have differs: "tw \<noteq> mHead q" using ptr a(5) snoc.prems(5) c(5) by metis
  define q1 where "q1 = q\<lparr>nodes := (nodes q)(l \<mapsto> ld\<lparr>mPrev := MakePointer m u\<rparr>)\<rparr>"
  have step: "queue_FixList_loop tw (mHead q) q = queue_FixList_loop (MakePointer l u) (mHead q1) q1"
    using differs ptr c a(4) GetPrevTag_tag_next [OF uv]
    by (subst queue_FixList_loop.simps) (simp add: ConvertToNode_def Let_def q1_def)
  have "\<exists>h. queue_FixList_loop (MakePointer l u) (mHead q1) q1 = Some (Inr (q1\<lparr>nodes := h\<rparr>)) \<and>
    qchain h n t ms (MakePointer l u) \<and> same_but_prev h (nodes q1) \<and> (\<forall>p. p \<notin> set (butlast (n # ms)) \<longrightarrow> h p = nodes q1 p)"
  proof (rule snoc.IH)
    show "nchain (nodes q1) n t ms (MakePointer l u)" using nchain_upd_prev [OF c(1,2)] by (simp add: q1_def)
  qed (use snoc.prems in \<open>auto simp: q1_def\<close>)
  then obtain h where h: "queue_FixList_loop (MakePointer l u) (mHead q1) q1 = Some (Inr (q1\<lparr>nodes := h\<rparr>))"
    "qchain h n t ms (MakePointer l u)" "same_but_prev h (nodes q1)" "\<forall>p. p \<notin> set (butlast (n # ms)) \<longrightarrow> h p = nodes q1 p"
    by blast
  have "distinct (butlast (n # ms) @ [l])" using snoc.prems(2) unfolding l_def by (subst append_butlast_last_id) auto
  then have "h l = nodes q1 l" "h m = nodes q1 m"
    using h(4) snoc.prems(2) in_set_butlastD [of m "n # ms"] by auto
  then have "qchain h n t (ms @ [m]) tw"
    using qchain_snocI [of h n t ms u m] h(2) c a(4) by (simp add: u_def l_def q1_def)
  moreover have "same_but_prev h (nodes q)"
    by (rule same_but_prev_trans [OF h(3)]) (use same_but_prev_upd [of "nodes q" l ld] c(2) in \<open>simp add: q1_def\<close>)
  moreover have "\<forall>p. p \<notin> set (butlast (n # ms @ [m])) \<longrightarrow> h p = nodes q p"
  proof (intro allI impI)
    fix p assume "p \<notin> set (butlast (n # ms @ [m]))"
    then have p: "p \<notin> set (n # ms)" by (simp add: butlast_append)
    then have "p \<notin> set (butlast (n # ms))" "p \<noteq> l" using ln in_set_butlastD [of p "n # ms"] by blast+
    then show "h p = nodes q p" using h(4) by (simp add: q1_def del: butlast.simps)
  qed
  ultimately show ?case using step h(1) by (auto simp: q1_def)
qed

definition queue_behind :: "'a LockFreeQueue \<Rightarrow> u64 \<Rightarrow> u16 \<Rightarrow> u64 list \<Rightarrow> u64 list \<Rightarrow> bool" where
  \<comment> \<open>as \<open>queue_holds\<close>, while the stores to \<open>mPrev\<close> are late or lost\<close>
  "queue_behind q n t ms fs \<longleftrightarrow> mHead q = MakePointer n t \<and> t \<noteq> kInvalidTag \<and> nchain (nodes q) n t ms (mTail q) \<and>
     fchain (nodes q) (GetPointer (mFreeNodeHead q)) fs \<and> distinct (n # ms @ fs) \<and>
     (\<forall>p \<in> set (n # ms @ fs). good_addr p \<and> p \<in> dom (nodes q)) \<and> mSize q = of_nat (length ms)"

lemma fchain_same_but_prev:
  assumes "same_but_prev h' h"
  shows "fchain h p fs \<Longrightarrow> fchain h' p fs"
proof (induction fs arbitrary: p)
  case (Cons f fs)
  then obtain n where n: "p = f" "h f = Some n" "fchain h (mNextFreeNode n) fs" by auto
  obtain n' where "h' f = Some n'" "mNextFreeNode n' = mNextFreeNode n"
    using same_but_prev_fields [OF assms n(2)] by blast
  then show ?case using n Cons.IH [OF n(3)] by simp
qed simp

lemma same_but_prev_dom: "same_but_prev h' h \<Longrightarrow> dom h' = dom h"
  by (auto simp: same_but_prev_def dom_def) (metis map_option_is_None option.distinct(1) option.exhaust)+

lemma same_but_prev_values:
  assumes "same_but_prev h (nodes q)" and "set ms \<subseteq> dom (nodes q)"
  shows "values_of (q\<lparr>nodes := h\<rparr>) ms = values_of q ms"
proof -
  have "mValue (the (h m)) = mValue (the (nodes q m))" if m: "m \<in> set ms" for m
  proof -
    obtain d where d: "nodes q m = Some d" using m assms(2) by blast
    then show ?thesis using same_but_prev_fields [OF assms(1) d] by (metis option.sel)
  qed
  then show ?thesis by (simp add: values_of_def)
qed

lemma FixList_holds:
  assumes "queue_behind q n t ms fs"
  shows "\<exists>h. LockFreeQueue_FixList (mTail q) (mHead q) q = Inr (q\<lparr>nodes := h\<rparr>) \<and> queue_holds (q\<lparr>nodes := h\<rparr>) n t ms fs \<and>
    values_of (q\<lparr>nodes := h\<rparr>) ms = values_of q ms"
proof -
  have a: "nchain (nodes q) n t ms (mTail q)" "distinct (n # ms)" "\<forall>p \<in> set (n # ms). good_addr p"
      "t \<noteq> kInvalidTag" "mHead q = MakePointer n t" "set ms \<subseteq> dom (nodes q)"
    using assms by (auto simp: queue_behind_def)
  obtain h where h: "queue_FixList_loop (mTail q) (mHead q) q = Some (Inr (q\<lparr>nodes := h\<rparr>))" "qchain h n t ms (mTail q)"
      "same_but_prev h (nodes q)"
    using FixList_loop_repairs [OF a(1-5)] by blast
  have "queue_holds (q\<lparr>nodes := h\<rparr>) n t ms fs"
    using assms h(2) fchain_same_but_prev [OF h(3)] same_but_prev_dom [OF h(3)]
    by (simp add: queue_holds_def queue_behind_def)
  then show ?thesis
    using h(1) same_but_prev_values [OF h(3) a(6)]
    by (intro exI [of _ h]) (simp add: LockFreeQueue_FixList_def loop_result_def)
qed

lemma Pop_after_FixList:
  assumes "queue_behind q n t (m # ms) fs" and "nodes q n = Some nd" and "GetTag (mPrev nd) \<noteq> kInvalidTag"
    and "GetTag (mPrev nd) \<noteq> t" and "LockFreeQueue_FixList (mTail q) (mHead q) q = Inr q'"
  shows "LockFreeQueue_Pop dflt q = LockFreeQueue_Pop dflt q'"
proof -
  have h: "mHead q = MakePointer n t" "good_addr n" "nchain (nodes q) n t (m # ms) (mTail q)" "n \<notin> set (m # ms)"
      "\<forall>p \<in> set (m # ms). good_addr p"
    using assms(1) by (auto simp: queue_behind_def)
  define b where "b = butlast (m # ms)"
  have b: "m # ms = b @ [last (m # ms)]" "last (m # ms) \<in> set (m # ms)" by (simp_all add: b_def)
  obtain u where "mTail q = MakePointer (last (m # ms)) u" using nchain_snoc [of "nodes q" n t b] h(3) b(1) by metis
  moreover have "last (m # ms) \<noteq> n" "good_addr (last (m # ms))" using b(2) h(4,5) by (metis, blast)
  ultimately have "mTail q \<noteq> mHead q"
    using h(1,2) by (metis good_addr_def GetPointer_MakePointer_canonical)
  then show ?thesis
    using h(1,2) assms(2-5) unfolding LockFreeQueue_Pop_def
    by (subst queue_Pop_loop.simps)
       (simp add: ConvertToNode_def Let_def good_addr_def GetPointer_MakePointer_canonical GetTag_MakePointer)
qed


section \<open>LockFreeQueue as a queue\<close>

definition allocator_ok :: "(u64 set \<Rightarrow> u64) \<Rightarrow> nat \<Rightarrow> bool" where
  \<comment> \<open>\<open>operator new\<close>: with fewer than \<open>N\<close> nodes in use, a canonical non-null address that is not in use\<close>
  "allocator_ok new N \<longleftrightarrow> (\<forall>used. card used < N \<longrightarrow> good_addr (new used) \<and> new used \<notin> used)"

definition queue_push :: "(u64 set \<Rightarrow> u64) \<Rightarrow> 'a queue_node \<Rightarrow> 'a \<Rightarrow> 'a LockFreeQueue \<Rightarrow> 'a LockFreeQueue result" where
  "queue_push new raw x q = bind_result (LockFreeQueue_Push (new (dom (nodes q))) raw x q) (\<lambda>(_, q'). Inr q')"

definition queue_pop :: "'a \<Rightarrow> 'a LockFreeQueue \<Rightarrow> ('a \<times> 'a LockFreeQueue) result" where
  "queue_pop dflt q = bind_result (LockFreeQueue_Pop dflt q) (\<lambda>(r, q').
     case r of Some x \<Rightarrow> Inr (x, q') | None \<Rightarrow> Inl Out_of_range)"

definition queue_alone :: "(u64 set \<Rightarrow> u64) \<Rightarrow> nat \<Rightarrow> 'a LockFreeQueue \<Rightarrow> 'a list \<Rightarrow> bool" where
  \<comment> \<open>every node of the heap belongs to the queue\<close>
  "queue_alone new N q xs \<longleftrightarrow> allocator_ok new N \<and>
     (\<exists>n t ms fs. queue_holds q n t ms fs \<and> xs = values_of q ms \<and> dom (nodes q) = set (n # ms @ fs))"

lemma values_of_length [simp]: "length (values_of q ms) = length ms"
  by (simp add: values_of_def)

lemma values_of_Cons [simp]: "values_of q (m # ms) = mValue (the (nodes q m)) # values_of q ms"
  by (simp add: values_of_def)

lemma values_of_eq_Cons: "values_of q ms = x # xs \<longleftrightarrow> (\<exists>m ms'. ms = m # ms' \<and> x = mValue (the (nodes q m)) \<and> xs = values_of q ms')"
  by (cases ms) (auto simp: values_of_def)

lemma push_alone:
  assumes "queue_alone new N q xs" and "length xs + 1 < N"
  shows "\<exists>q'. queue_push new raw x q = Inr q' \<and> queue_alone new N q' (xs @ [x])"
proof -
  obtain n t ms fs where q: "allocator_ok new N" "queue_holds q n t ms fs" "xs = values_of q ms" "dom (nodes q) = set (n # ms @ fs)"
    using assms(1) by (auto simp: queue_alone_def)
  have "good_addr (new (dom (nodes q))) \<and> nodes q (new (dom (nodes q))) = None" if "fs = []"
  proof -
    have "card (dom (nodes q)) \<le> length (n # ms)" using that q(4) card_length [of "n # ms"] by simp
    then have "card (dom (nodes q)) < N" using q(3) assms(2) by simp
    then show ?thesis using q(1) unfolding allocator_ok_def by (metis domIff)
  qed
  then obtain m q' where q': "LockFreeQueue_Push (new (dom (nodes q))) raw x q = Inr (of_nat (length ms + 1), q')"
      "queue_holds q' n t (ms @ [m]) (tl fs)" "values_of q' (ms @ [m]) = values_of q ms @ [x]"
      "dom (nodes q') = insert m (dom (nodes q))" "fs = [] \<or> fs = m # tl fs"
    using push_holds [OF q(2)] by blast
  have "insert m (set fs) = set (m # tl fs)" using q'(5) by (metis insert_absorb2 list.simps(15) list.sel(2) list.set(1))
  then have "dom (nodes q') = set (n # (ms @ [m]) @ tl fs)" using q'(4) q(4) by auto
  then have "queue_alone new N q' (xs @ [x])" using q(1,3) q'(2,3) unfolding queue_alone_def by metis
  then show ?thesis using q'(1) by (simp add: queue_push_def)
qed

lemma pop_alone:
  assumes "queue_alone new N q (x # xs)"
  shows "\<exists>q'. queue_pop dflt q = Inr (x, q') \<and> queue_alone new N q' xs"
proof -
  obtain n t m ms fs where q: "allocator_ok new N" "queue_holds q n t (m # ms) fs" "x = mValue (the (nodes q m))"
      "xs = values_of q ms" "dom (nodes q) = set (n # m # ms @ fs)"
    using assms by (auto simp: queue_alone_def values_of_eq_Cons eq_commute [of "x # xs"])
  obtain q' where q': "LockFreeQueue_Pop dflt q = Inr (Some x, q')" "queue_holds q' m (tag_next t) ms (n # fs)"
      "values_of q' ms = values_of q ms" "dom (nodes q') = dom (nodes q)"
    using pop_holds [OF q(2), of dflt] q(3) by blast
  have "dom (nodes q') = set (m # ms @ n # fs)" using q'(4) q(5) by auto
  then have "queue_alone new N q' xs" using q(1,4) q'(2,3) unfolding queue_alone_def by metis
  then show ?thesis using q'(1) by (simp add: queue_pop_def)
qed

interpretation lf_queue: fifo_container
    "queue_alone new N" "\<lambda>_ _. True" "\<lambda>_ _. False" "\<lambda>k. k < N" "queue_pop dflt" "queue_push new raw"
  for new N dflt raw
  by unfold_locales (use pop_alone push_alone in auto)

lemma new_alone:
  assumes "allocator_ok new N" and "0 < N" and "nodes q0 = Map.empty"
  shows "\<exists>q. LockFreeQueue_new (new {}) raw q0 = Inr q \<and> queue_alone new N q []"
proof -
  let ?p = "new {}"
  have p: "good_addr ?p" using assms(1,2) by (simp add: allocator_ok_def)
  have null: "GetPointer LockFreeQueue_kNullPointer = 0"
    by (simp add: LockFreeQueue_kNullPointer_def GetPointer_def stone_defs kX64AddressSignBit_def)
  define d where "d = raw\<lparr>mNextFreeNode := 0, mNext := LockFreeQueue_kNullPointer, mPrev := MakePointer ?p 0xFFFF\<rparr>"
  define q where "q = q0\<lparr>mSize := 0, mFreeNodeHead := LockFreeQueue_kNullPointer, nodes := [?p \<mapsto> d],
      mHead := MakePointer ?p 0, mTail := MakePointer ?p 0\<rparr>"
  have "LockFreeQueue_new ?p raw q0 = Inr q"
    using p null assms(3) by (simp add: LockFreeQueue_new_def Acquire_fresh good_addr_def Let_def q_def d_def)
  moreover have "queue_holds q ?p 0 [] []"
    using p null by (simp add: queue_holds_def q_def kInvalidTag_def)
  then have "queue_alone new N q []"
    unfolding queue_alone_def using assms(1) by (intro conjI exI [of _ ?p] exI [of _ 0] exI [of _ "[]"]) (simp_all add: values_of_def q_def)
  ultimately show ?thesis by blast
qed

lemma queue_length_bound:
  assumes "queue_rep q xs"
  shows "length xs < 2 ^ 64"
proof -
  obtain n t ms fs where q: "queue_holds q n t ms fs" "xs = values_of q ms"
    using assms by (auto simp: queue_rep_def)
  then have "distinct (n # ms)" by (simp add: queue_holds_def)
  then show ?thesis
    using card_mono [of "UNIV :: u64 set" "set (n # ms)"] distinct_card [of "n # ms"] q(2) by (simp add: card_word)
qed

section \<open>Properties of LockFreeQueue\<close>

text \<open>
  C6. A new \<open>LockFreeQueue\<close> takes any number of elements for which there is memory and gives them back in the order
  in which they were pushed; no loop of \<open>Push\<close>, \<open>Pop\<close>, \<open>AcquireNode\<close> or \<open>ReleaseNode\<close> fails to end and no null or freed
  node is read.
\<close>

theorem lockfree_queue_fifo:
  assumes "allocator_ok new N" and "length ys < N" and "nodes q0 = Map.empty"
  shows "\<exists>q q' q''. LockFreeQueue_new (new {}) raw q0 = Inr q \<and> push_all (queue_push new raw) ys q = Inr q' \<and>
    pop_n (queue_pop dflt) (length ys) q' = Inr (ys, q'') \<and> queue_rep q'' []"
proof -
  obtain q where q: "LockFreeQueue_new (new {}) raw q0 = Inr q" "queue_alone new N q []"
    using new_alone [OF assms(1) _ assms(3)] assms(2) by auto
  have "sorted_wrt (\<lambda>x y. \<not> False) ys" by (induction ys) auto
  then obtain q' q'' where "push_all (queue_push new raw) ys q = Inr q'" "pop_n (queue_pop dflt) (length ys) q' = Inr (ys, q'')"
      "queue_alone new N q'' []"
    using lf_queue.fifo_order [OF q(2), of ys raw dflt] assms(2) by auto
  then show ?thesis using q(1) unfolding queue_alone_def queue_rep_def by metis
qed

theorem lockfree_queue_fifo_witness:
  "\<exists>q q' q''. LockFreeQueue_new (hd (filter (\<lambda>a. a \<notin> {}) [0x1000, 0x2000, 0x3000]))
       \<lparr>mPrev = 1, mNext = 2, mNextFreeNode = 3, mValue = 0\<rparr>
       \<lparr>mSize = 9, mHead = 9, mTail = 9, mFreeNodeHead = 9, nodes = Map.empty\<rparr> = Inr q \<and>
     push_all (queue_push (\<lambda>used. hd (filter (\<lambda>a. a \<notin> used) [0x1000, 0x2000, 0x3000]))
       \<lparr>mPrev = 1, mNext = 2, mNextFreeNode = 3, mValue = 0\<rparr>) [10, 20 :: nat] q = Inr q' \<and>
     pop_n (queue_pop 0) (length [10, 20 :: nat]) q' = Inr ([10, 20], q'') \<and> queue_rep q'' []"
proof (rule lockfree_queue_fifo)
  let ?as = "[0x1000, 0x2000, 0x3000] :: u64 list"
  have good: "\<forall>a \<in> set ?as. good_addr a" by (simp add: good_addr_def canonical_def atLeastLessThan_nat_numeral bit_numeral_simps)
  show "allocator_ok (\<lambda>used. hd (filter (\<lambda>a. a \<notin> used) ?as)) 3"
    unfolding allocator_ok_def
  proof (intro allI impI)
    fix used :: "u64 set"
    assume "card used < 3"
    moreover have "card (set ?as) = 3" by simp
    ultimately have "\<not> set ?as \<subseteq> used" using card_mono [of used "set ?as"] by fastforce
    then have "filter (\<lambda>a. a \<notin> used) ?as \<noteq> []" unfolding filter_empty_conv by blast
    then have "hd (filter (\<lambda>a. a \<notin> used) ?as) \<in> set (filter (\<lambda>a. a \<notin> used) ?as)" by (rule hd_in_set)
    then show "good_addr (hd (filter (\<lambda>a. a \<notin> used) ?as)) \<and> hd (filter (\<lambda>a. a \<notin> used) ?as) \<notin> used"
      using good by (simp only: set_filter mem_Collect_eq simp_thms)
  qed
qed simp_all

text \<open>
  On a queue that holds \<open>xs\<close>, \<open>Push\<close> appends its argument and returns the new number of elements, \<open>Pop\<close> removes the
  first element and returns false, changing nothing, exactly when there is none, and \<open>Size\<close> and \<open>Empty\<close> answer for
  the number of elements.
\<close>

theorem lockfree_queue_operations:
  assumes "queue_rep q xs" and "good_addr fresh" and "nodes q fresh = None"
  shows "(\<exists>q'. LockFreeQueue_Push fresh raw x q = Inr (of_nat (length xs + 1), q') \<and> queue_rep q' (xs @ [x])) \<and>
    (xs \<noteq> [] \<longrightarrow> (\<exists>q'. LockFreeQueue_Pop dflt q = Inr (Some (hd xs), q') \<and> queue_rep q' (tl xs))) \<and>
    (xs = [] \<longrightarrow> LockFreeQueue_Pop dflt q = Inr (None, q)) \<and>
    unat (LockFreeQueue_Size q) = length xs \<and> (LockFreeQueue_Empty q \<longleftrightarrow> xs = [])"
proof -
  obtain n t ms fs where q: "queue_holds q n t ms fs" "xs = values_of q ms"
    using assms(1) by (auto simp: queue_rep_def)
  have "\<exists>q'. LockFreeQueue_Push fresh raw x q = Inr (of_nat (length xs + 1), q') \<and> queue_rep q' (xs @ [x])"
    using push_holds [OF q(1), of fresh raw x] assms(2,3) q(2) unfolding queue_rep_def by (metis values_of_length)
  moreover have "\<exists>q'. LockFreeQueue_Pop dflt q = Inr (Some (hd xs), q') \<and> queue_rep q' (tl xs)" if ne: "xs \<noteq> []"
  proof -
    obtain m ms' where ms: "ms = m # ms'" using ne q(2) by (cases ms) (auto simp: values_of_def)
    then show ?thesis
      using pop_holds [of q n t m ms' fs dflt] q unfolding queue_rep_def by (metis list.sel(1,3) values_of_Cons)
  qed
  moreover have "LockFreeQueue_Pop dflt q = Inr (None, q)" if "xs = []"
    using pop_holds_empty [of q n t fs dflt] q that by (cases ms) (auto simp: values_of_def)
  moreover have size: "unat (LockFreeQueue_Size q) = length xs"
    using q queue_length_bound [OF assms(1)] by (simp add: LockFreeQueue_Size_def queue_holds_def unat_of_nat)
  moreover from this have "LockFreeQueue_Empty q \<longleftrightarrow> xs = []"
    unfolding LockFreeQueue_Empty_def by (metis length_0_conv unsigned_eq_0_iff)
  ultimately show ?thesis by blast
qed

theorem lockfree_queue_operations_witness:
  "unat (LockFreeQueue_Size \<lparr>mSize = 0, mHead = MakePointer 0x1000 5, mTail = MakePointer 0x1000 5, mFreeNodeHead = MakePointer 0 0,
     nodes = [0x1000 \<mapsto> \<lparr>mPrev = 1, mNext = 2, mNextFreeNode = 3, mValue = 0 :: nat\<rparr>]\<rparr>) = length ([] :: nat list)"
proof -
  let ?q = "\<lparr>mSize = 0, mHead = MakePointer 0x1000 5, mTail = MakePointer 0x1000 5, mFreeNodeHead = MakePointer 0 0,
     nodes = [0x1000 \<mapsto> \<lparr>mPrev = 1, mNext = 2, mNextFreeNode = 3, mValue = 0 :: nat\<rparr>]\<rparr>"
  have good: "good_addr 0x1000" "good_addr 0x2000" "canonical 0"
    by (simp_all add: good_addr_def canonical_def atLeastLessThan_nat_numeral bit_numeral_simps)
  then have "queue_holds ?q 0x1000 5 [] []"
    by (simp add: queue_holds_def kInvalidTag_def GetPointer_MakePointer_canonical)
  then have "queue_rep ?q []" unfolding queue_rep_def by (intro exI conjI) (auto simp: values_of_def)
  from lockfree_queue_operations [OF this good(2)] show ?thesis by simp
qed

text \<open>
  When the links \<open>mPrev\<close> of the queue are out of date (a pushing thread sets them after its compare-and-swap), \<open>Pop\<close>
  finds the wrong tag, \<open>FixList\<close> walks from the tail over \<open>mNext\<close>, ends, and leaves a queue with all links right and
  the same elements, and \<open>Pop\<close> then returns the first of them.
\<close>

theorem lockfree_queue_fixlist:
  assumes "queue_behind q n t (m # ms) fs" and "nodes q n = Some nd"
    and "GetTag (mPrev nd) \<noteq> kInvalidTag" and "GetTag (mPrev nd) \<noteq> t"
  shows "\<exists>q' q''. LockFreeQueue_FixList (mTail q) (mHead q) q = Inr q' \<and> queue_holds q' n t (m # ms) fs \<and>
    values_of q' (m # ms) = values_of q (m # ms) \<and>
    LockFreeQueue_Pop dflt q = Inr (Some (mValue (the (nodes q m))), q'') \<and> queue_rep q'' (values_of q ms)"
proof -
  obtain h where h: "LockFreeQueue_FixList (mTail q) (mHead q) q = Inr (q\<lparr>nodes := h\<rparr>)"
      "queue_holds (q\<lparr>nodes := h\<rparr>) n t (m # ms) fs" "values_of (q\<lparr>nodes := h\<rparr>) (m # ms) = values_of q (m # ms)"
    using FixList_holds [OF assms(1)] by blast
  obtain q'' where "LockFreeQueue_Pop dflt (q\<lparr>nodes := h\<rparr>) = Inr (Some (mValue (the (nodes q m))), q'')"
      "queue_holds q'' m (tag_next t) ms (n # fs)" "values_of q'' ms = values_of q ms"
    using pop_holds [OF h(2), of dflt] h(3) by auto
  then show ?thesis
    using h Pop_after_FixList [OF assms h(1), of dflt] unfolding queue_rep_def by metis
qed

theorem lockfree_queue_fixlist_witness:
  "\<exists>q''. LockFreeQueue_Pop 0 \<lparr>mSize = 1, mHead = MakePointer 0x1000 5, mTail = MakePointer 0x2000 6, mFreeNodeHead = MakePointer 0 0,
     nodes = [0x1000 \<mapsto> \<lparr>mPrev = MakePointer 0x1000 4, mNext = 0, mNextFreeNode = 0, mValue = 0\<rparr>,
              0x2000 \<mapsto> \<lparr>mPrev = 0, mNext = MakePointer 0x1000 6, mNextFreeNode = 0, mValue = 8 :: nat\<rparr>]\<rparr> = Inr (Some 8, q'')"
proof -
  let ?n = "\<lparr>mPrev = MakePointer 0x1000 4, mNext = 0, mNextFreeNode = 0, mValue = 0\<rparr>"
  let ?q = "\<lparr>mSize = 1, mHead = MakePointer 0x1000 5, mTail = MakePointer 0x2000 6, mFreeNodeHead = MakePointer 0 0,
     nodes = [0x1000 \<mapsto> ?n, 0x2000 \<mapsto> \<lparr>mPrev = 0, mNext = MakePointer 0x1000 6, mNextFreeNode = 0, mValue = 8 :: nat\<rparr>]\<rparr>"
  have good: "good_addr 0x1000" "good_addr 0x2000" "canonical 0"
    by (simp_all add: good_addr_def canonical_def atLeastLessThan_nat_numeral bit_numeral_simps)
  then have "queue_behind ?q 0x1000 5 [0x2000] []"
    by (simp add: queue_behind_def kInvalidTag_def GetPointer_MakePointer_canonical tag_next_eq)
  then show ?thesis
    using lockfree_queue_fixlist [of ?q "0x1000" 5 "0x2000" "[]" "[]" ?n 0] by (auto simp: GetTag_MakePointer kInvalidTag_def)
qed

text \<open>
  The destructor deletes every node of the queue exactly once, those of the elements, those of the free list and the
  dummy node, and no other node; a node deleted twice would be an error value.
\<close>

theorem lockfree_queue_dtor_frees_all:
  assumes "queue_holds q n t ms fs"
  shows "\<exists>q'. LockFreeQueue_dtor fresh raw dflt q = Inr q' \<and> dom (nodes q') = dom (nodes q) - set (n # ms @ fs)"
proof -
  obtain q1 n' t' fs' where q1: "queue_drain dflt q = Some (Inr q1)" "queue_holds q1 n' t' [] fs'"
      "set (n' # fs') = set (n # ms @ fs)" "dom (nodes q1) = dom (nodes q)"
    using drain_holds [OF assms] by blast
  then have h: "mHead q1 = MakePointer n' t'" "good_addr n'" "n' \<notin> set fs'" "distinct fs'" "\<forall>p \<in> set fs'. good_addr p"
      "fchain (nodes q1) (GetPointer (mFreeNodeHead q1)) fs'" "n' \<in> dom (nodes q1)"
    by (auto simp: queue_holds_def)
  obtain q2 where q2: "queue_delete_free fresh raw q1 = Some (Inr q2)" "nodes q2 = nodes q1 |` (- set fs')" "mHead q2 = mHead q1"
    using delete_free_holds [OF h(6,4,5)] by blast
  obtain nd where nd: "nodes q2 n' = Some nd" using q2(2) h(3,7) by (auto simp: restrict_map_def)
  have p: "ConvertToNode (mHead q2) = n'" "n' \<noteq> 0"
    using q2(3) h(1,2) by (simp_all add: ConvertToNode_def good_addr_def GetPointer_MakePointer_canonical)
  have "LockFreeQueue_dtor fresh raw dflt q = Inr (q2\<lparr>nodes := (nodes q2)(n' := None)\<rparr>)"
    using q1(1) q2(1) nd p by (simp add: LockFreeQueue_dtor_def loop_result_def)
  moreover have "dom ((nodes q2)(n' := None)) = dom (nodes q) - set (n # ms @ fs)"
    using q2(2) q1(3,4) by auto
  ultimately show ?thesis by simp
qed

theorem lockfree_queue_dtor_frees_all_witness:
  "\<exists>q'. LockFreeQueue_dtor 1 \<lparr>mPrev = 1, mNext = 2, mNextFreeNode = 3, mValue = 0\<rparr> 0
     \<lparr>mSize = 0, mHead = MakePointer 0x1000 5, mTail = MakePointer 0x1000 5, mFreeNodeHead = MakePointer 0x2000 7,
      nodes = [0x1000 \<mapsto> \<lparr>mPrev = 1, mNext = 2, mNextFreeNode = 3, mValue = 0 :: nat\<rparr>,
               0x2000 \<mapsto> \<lparr>mPrev = 1, mNext = 2, mNextFreeNode = 0, mValue = 0\<rparr>]\<rparr> = Inr q' \<and> dom (nodes q') = {}"
proof -
  let ?q = "\<lparr>mSize = 0, mHead = MakePointer 0x1000 5, mTail = MakePointer 0x1000 5, mFreeNodeHead = MakePointer 0x2000 7,
      nodes = [0x1000 \<mapsto> \<lparr>mPrev = 1, mNext = 2, mNextFreeNode = 3, mValue = 0 :: nat\<rparr>,
               0x2000 \<mapsto> \<lparr>mPrev = 1, mNext = 2, mNextFreeNode = 0, mValue = 0\<rparr>]\<rparr>"
  have good: "good_addr 0x1000" "good_addr 0x2000"
    by (simp_all add: good_addr_def canonical_def atLeastLessThan_nat_numeral bit_numeral_simps)
  then have "canonical 0x2000" by (simp add: good_addr_def)
  then have "queue_holds ?q 0x1000 5 [] [0x2000]"
    using good by (simp add: queue_holds_def kInvalidTag_def GetPointer_MakePointer_canonical)
  from lockfree_queue_dtor_frees_all [OF this] show ?thesis by simp
qed

end
