(* ===== verification/Stone_Lockfree_Queue_Threads.thy ===== *)
theory Stone_Lockfree_Queue_Threads
  imports Stone_Lockfree_Queue
begin

text \<open>
  \<open>LockFreeQueue\<close> used by many threads at once. Every access of \<open>Push\<close>, \<open>Pop\<close>, \<open>FixList\<close>, \<open>AcquireNode\<close> and \<open>ReleaseNode\<close> to
  shared memory is one step of a thread, on the record that the sequential definitions use; a step that would go through a null
  pointer or to an address without a node cannot be taken. The other components record what happened and influence nothing:
  the nodes in the order in which they were appended (\<open>hist\<close>, the constructor's node first), how many of them have been
  the dummy node at the head before (\<open>hver\<close>), the number of successful compare-and-swaps on \<open>mFreeNodeHead\<close> (\<open>fver\<close>), the
  position that a thread saw in the word it will compare (\<open>seen\<close>) and in its second word (\<open>cur\<close>), the position for which a node's
  \<open>mPrev\<close> was written (\<open>link\<close>, none if it was not written as a link), the operations in the order in which they took effect,
  the latest first (\<open>log\<close>), and how many of them preceded a thread's read of \<open>mTail\<close> (\<open>mark\<close>).
\<close>

section \<open>Tags by position\<close>

definition tag_at :: "nat \<Rightarrow> u16" where
  \<comment> \<open>the tag of the \<open>e\<close>-th value of a word that starts with tag 0 and takes the next tag in every update\<close>
  "tag_at e = (tag_next ^^ e) 0"

lemma tag_at_simps [simp]: "tag_at 0 = 0" "tag_next (tag_at e) = tag_at (Suc e)" "tag_at e \<noteq> kInvalidTag"
proof -
  have "(0 :: u16) \<noteq> kInvalidTag" by (simp add: kInvalidTag_def)
  then show "tag_at e \<noteq> kInvalidTag" using tag_next_funpow_rank by (simp add: tag_at_def)
qed (simp_all add: tag_at_def)

lemma tag_rank_at: "tag_rank (tag_at e) = e mod 65535"
proof -
  have "(0 :: u16) \<noteq> kInvalidTag" "tag_rank 0 = 0" by (simp_all add: kInvalidTag_def tag_rank_def)
  then show ?thesis using tag_next_funpow_rank [of 0 e] by (simp add: tag_at_def)
qed

lemma tag_at_rank: "t \<noteq> kInvalidTag \<Longrightarrow> tag_at (tag_rank t) = t"
  using tag_rank_inj [of "tag_at (tag_rank t)" t] tag_rank_less [of t] by (simp add: tag_rank_at)

lemma tag_at_close: "tag_at a = tag_at b \<Longrightarrow> a \<le> b \<Longrightarrow> b - a < 65535 \<Longrightarrow> a = b"
proof -
  assume "tag_at a = tag_at b" "a \<le> b" "b - a < 65535"
  then have "b mod 65535 = a mod 65535" by (metis tag_rank_at)
  then have "65535 dvd b - a" using \<open>a \<le> b\<close> by (simp add: mod_eq_dvd_iff_nat)
  then show "a = b" using \<open>a \<le> b\<close> \<open>b - a < 65535\<close> by (auto dest: dvd_imp_le)
qed

lemma GetPrevTag_at: "0 < e \<Longrightarrow> GetPrevTag (MakePointer a (tag_at e)) = tag_at (e - 1)"
  using GetPrevTag_tag_next [of "tag_at (e - 1)" a] by simp

section \<open>The machine\<close>

datatype 'a lq_pc =
    LQ_Idle
  | LQ_Acquire 'a                 \<comment> \<open>\<open>Push(elem)\<close>, at the start of the loop of \<open>AcquireNode\<close>\<close>
  | LQ_New 'a                     \<comment> \<open>the free list was empty\<close>
  | LQ_Acq_read 'a u64            \<comment> \<open>and the \<open>head\<close> that was read\<close>
  | LQ_Acq_next 'a u64 u64        \<comment> \<open>and the \<open>mNextFreeNode\<close> that was read\<close>
  | LQ_Push_value 'a u64          \<comment> \<open>the node was acquired\<close>
  | LQ_Pushing 'a u64             \<comment> \<open>at the start of the loop of \<open>Push\<close>\<close>
  | LQ_Push_read 'a u64 u64       \<comment> \<open>and the \<open>tail\<close> that was read\<close>
  | LQ_Push_linked 'a u64 u64     \<comment> \<open>\<open>mNext\<close> was written\<close>
  | LQ_Push_prev u64 u64          \<comment> \<open>after the compare-and-swap, before \<open>ptail->mPrev = prev\<close>\<close>
  | LQ_Push_count
  | LQ_Popping                    \<comment> \<open>at the start of the loop of \<open>Pop\<close>\<close>
  | LQ_Pop_head u64               \<comment> \<open>the \<open>head\<close> that was read\<close>
  | LQ_Pop_tail u64 u64           \<comment> \<open>and the \<open>tail\<close>\<close>
  | LQ_Pop_prev u64 u64 u64       \<comment> \<open>and \<open>prev_of_first\<close>\<close>
  | LQ_Pop_take u64 u64           \<comment> \<open>\<open>head\<close> and \<open>prev_of_first\<close>, all tests passed\<close>
  | LQ_Pop_value u64 u64 'a       \<comment> \<open>and \<open>*elem\<close>\<close>
  | LQ_Fix u64 u64                \<comment> \<open>at the loop condition of \<open>FixList\<close>, \<open>head\<close> and \<open>current\<close>\<close>
  | LQ_Fix_next u64 u64           \<comment> \<open>in the body of the loop\<close>
  | LQ_Fix_write u64 u64 u64      \<comment> \<open>and the \<open>next\<close> that was read\<close>
  | LQ_Rel_value u64 'a           \<comment> \<open>in \<open>ReleaseNode\<close>, with \<open>*elem\<close>\<close>
  | LQ_Releasing u64 'a           \<comment> \<open>at the start of its loop\<close>
  | LQ_Rel_read u64 'a u64        \<comment> \<open>and the \<open>head\<close> that was read\<close>
  | LQ_Rel_prev u64 'a u64        \<comment> \<open>\<open>mPrev\<close> was written\<close>
  | LQ_Rel_linked u64 'a u64      \<comment> \<open>\<open>mNextFreeNode\<close> was written\<close>
  | LQ_Pop_count 'a

datatype 'a lq_event = Enqueued 'a | Dequeued 'a | Queue_empty

record 'a lq_state =
  que :: "'a LockFreeQueue"
  pcs :: "nat \<Rightarrow> 'a lq_pc"
  hist :: "u64 list"
  hver :: nat
  fver :: nat
  seen :: "nat \<Rightarrow> nat"
  cur :: "nat \<Rightarrow> nat"
  mark :: "nat \<Rightarrow> nat"
  link :: "u64 \<Rightarrow> nat option"
  log :: "'a lq_event list"

definition lq_node :: "'a lq_state \<Rightarrow> u64 \<Rightarrow> 'a queue_node" where
  "lq_node s p = the (nodes (que s) p)"

definition lq_live :: "'a lq_state \<Rightarrow> u64 \<Rightarrow> bool" where
  \<comment> \<open>an access through \<open>p\<close> is to a node\<close>
  "lq_live s p \<longleftrightarrow> p \<noteq> 0 \<and> p \<in> dom (nodes (que s))"

definition lq_go :: "nat \<Rightarrow> 'a lq_pc \<Rightarrow> 'a lq_state \<Rightarrow> 'a lq_state" where
  "lq_go t pc s = s\<lparr>pcs := (pcs s)(t := pc)\<rparr>"

definition lq_write :: "u64 \<Rightarrow> ('a queue_node \<Rightarrow> 'a queue_node) \<Rightarrow> 'a lq_state \<Rightarrow> 'a lq_state" where
  "lq_write p f s = s\<lparr>que := (que s)\<lparr>nodes := (nodes (que s))(p \<mapsto> f (lq_node s p))\<rparr>\<rparr>"

definition lq_see :: "nat \<Rightarrow> nat \<Rightarrow> 'a lq_state \<Rightarrow> 'a lq_state" where
  "lq_see t v s = s\<lparr>seen := (seen s)(t := v)\<rparr>"

definition lq_tver :: "'a lq_state \<Rightarrow> nat" where
  \<comment> \<open>the position of the last node\<close>
  "lq_tver s = length (hist s) - 1"

subsection \<open>AcquireNode and Push\<close>

definition lq_acq_read_step :: "nat \<Rightarrow> 'a \<Rightarrow> 'a lq_state \<Rightarrow> 'a lq_state" where
  "lq_acq_read_step t x s =
     (let head = mFreeNodeHead (que s); pnode = ConvertToNode head
      in if pnode = 0 then lq_go t (LQ_New x) s else lq_see t (fver s) (lq_go t (LQ_Acq_read x head) s))"

definition lq_new_step :: "u64 \<Rightarrow> 'a queue_node \<Rightarrow> nat \<Rightarrow> 'a \<Rightarrow> 'a lq_state \<Rightarrow> 'a lq_state" where
  \<comment> \<open>\<open>fresh\<close> and \<open>raw\<close> are the address that \<open>new Node\<close> returns and what the storage contains\<close>
  "lq_new_step fresh raw t x s =
     lq_go t (LQ_Push_value x fresh) (s\<lparr>que := (que s)\<lparr>nodes := (nodes (que s))(fresh \<mapsto> raw\<lparr>mNextFreeNode := 0\<rparr>)\<rparr>,
       link := (link s)(fresh := None)\<rparr>)"

definition lq_acq_next_step :: "nat \<Rightarrow> 'a \<Rightarrow> u64 \<Rightarrow> 'a lq_state \<Rightarrow> 'a lq_state" where
  "lq_acq_next_step t x head s = lq_go t (LQ_Acq_next x head (mNextFreeNode (lq_node s (ConvertToNode head)))) s"

definition lq_acq_cas_step :: "nat \<Rightarrow> 'a \<Rightarrow> u64 \<Rightarrow> u64 \<Rightarrow> 'a lq_state \<Rightarrow> 'a lq_state" where
  "lq_acq_cas_step t x head nxt s =
     (let (ok, v) = AtomicCompareExchange (mFreeNodeHead (que s)) (MakePointer nxt (GetNextTag head)) head;
          s1 = s\<lparr>que := (que s)\<lparr>mFreeNodeHead := v\<rparr>\<rparr>
      in if ok then (lq_go t (LQ_Push_value x (ConvertToNode head)) s1)\<lparr>fver := fver s + 1\<rparr> else lq_go t (LQ_Acquire x) s1)"

definition lq_push_value_step :: "nat \<Rightarrow> 'a \<Rightarrow> u64 \<Rightarrow> 'a lq_state \<Rightarrow> 'a lq_state" where
  "lq_push_value_step t x p s = lq_go t (LQ_Pushing x p) (lq_write p (\<lambda>n. n\<lparr>mValue := x\<rparr>) s)"

definition lq_push_read_step :: "nat \<Rightarrow> 'a \<Rightarrow> u64 \<Rightarrow> 'a lq_state \<Rightarrow> 'a lq_state" where
  "lq_push_read_step t x p s = lq_see t (lq_tver s) (lq_go t (LQ_Push_read x p (mTail (que s))) s)"

definition lq_push_link_step :: "nat \<Rightarrow> 'a \<Rightarrow> u64 \<Rightarrow> u64 \<Rightarrow> 'a lq_state \<Rightarrow> 'a lq_state" where
  "lq_push_link_step t x p tail s =
     lq_go t (LQ_Push_linked x p tail) (lq_write p (\<lambda>n. n\<lparr>mNext := MakePointer (GetPointer tail) (GetNextTag tail)\<rparr>) s)"

definition lq_push_cas_step :: "nat \<Rightarrow> 'a \<Rightarrow> u64 \<Rightarrow> u64 \<Rightarrow> 'a lq_state \<Rightarrow> 'a lq_state" where
  "lq_push_cas_step t x p tail s =
     (let newtail = MakePointer p (GetNextTag tail);
          (ok, v) = AtomicCompareExchange (mTail (que s)) newtail tail;
          s1 = s\<lparr>que := (que s)\<lparr>mTail := v\<rparr>\<rparr>
      in if ok then (lq_go t (LQ_Push_prev p tail) s1)\<lparr>hist := hist s @ [p], log := Enqueued x # log s\<rparr>
         else lq_go t (LQ_Pushing x p) s1)"

definition lq_push_prev_step :: "nat \<Rightarrow> u64 \<Rightarrow> u64 \<Rightarrow> 'a lq_state \<Rightarrow> 'a lq_state" where
  "lq_push_prev_step t p tail s =
     (let prev = MakePointer p (GetTag tail); ptail = ConvertToNode tail;
          s1 = lq_write ptail (\<lambda>n. n\<lparr>mPrev := prev\<rparr>) s
      in (lq_go t LQ_Push_count s1)\<lparr>link := (link s)(ptail \<mapsto> seen s t)\<rparr>)"

definition lq_push_count_step :: "nat \<Rightarrow> 'a lq_state \<Rightarrow> 'a lq_state" where
  "lq_push_count_step t s = lq_go t LQ_Idle (s\<lparr>que := (que s)\<lparr>mSize := snd (AtomicIncrement (mSize (que s)))\<rparr>\<rparr>)"

subsection \<open>Pop, FixList and ReleaseNode\<close>

definition lq_pop_head_step :: "nat \<Rightarrow> 'a lq_state \<Rightarrow> 'a lq_state" where
  "lq_pop_head_step t s = lq_see t (hver s) (lq_go t (LQ_Pop_head (mHead (que s))) s)"

definition lq_pop_tail_step :: "nat \<Rightarrow> u64 \<Rightarrow> 'a lq_state \<Rightarrow> 'a lq_state" where
  "lq_pop_tail_step t head s = (lq_go t (LQ_Pop_tail head (mTail (que s))) s)
     \<lparr>cur := (cur s)(t := lq_tver s), mark := (mark s)(t := length (log s))\<rparr>"

definition lq_pop_prev_step :: "nat \<Rightarrow> u64 \<Rightarrow> u64 \<Rightarrow> 'a lq_state \<Rightarrow> 'a lq_state" where
  "lq_pop_prev_step t head tail s = lq_go t (LQ_Pop_prev head tail (mPrev (lq_node s (ConvertToNode head)))) s"

definition lq_insert_empty :: "nat \<Rightarrow> 'a lq_event list \<Rightarrow> 'a lq_event list" where
  \<comment> \<open>an answer that the queue is empty takes effect where \<open>m\<close> operations preceded it\<close>
  "lq_insert_empty m es = (let k = length es - m in take k es @ Queue_empty # drop k es)"

definition lq_return_false :: "nat \<Rightarrow> 'a lq_state \<Rightarrow> 'a lq_state" where
  "lq_return_false t s = (lq_go t LQ_Idle s)\<lparr>log := lq_insert_empty (mark s t) (log s),
     mark := (\<lambda>u. if mark s t < mark s u then mark s u + 1 else mark s u)\<rparr>"

definition lq_pop_check_step :: "nat \<Rightarrow> u64 \<Rightarrow> u64 \<Rightarrow> u64 \<Rightarrow> 'a lq_state \<Rightarrow> 'a lq_state" where
  "lq_pop_check_step t head tail prev_of_first s =
     (if head = mHead (que s) then
        if tail \<noteq> head then
          (let tag1 = GetTag prev_of_first; tag2 = GetTag head
           in if tag1 = kInvalidTag then lq_go t LQ_Popping s
              else if tag1 \<noteq> tag2 then lq_go t (LQ_Fix head tail) s
              else lq_go t (LQ_Pop_take head prev_of_first) s)
        else lq_return_false t s
      else lq_go t LQ_Popping s)"

definition lq_pop_value_step :: "nat \<Rightarrow> u64 \<Rightarrow> u64 \<Rightarrow> 'a lq_state \<Rightarrow> 'a lq_state" where
  "lq_pop_value_step t head prev_of_first s =
     (let ppof = ConvertToNode prev_of_first in lq_go t (LQ_Pop_value head prev_of_first (mValue (lq_node s ppof))) s)"

definition lq_pop_cas_step :: "nat \<Rightarrow> u64 \<Rightarrow> u64 \<Rightarrow> 'a \<Rightarrow> 'a lq_state \<Rightarrow> 'a lq_state" where
  "lq_pop_cas_step t head prev_of_first x s =
     (let ppof = ConvertToNode prev_of_first;
          newhead = MakePointer ppof (GetNextTag head);
          (ok, v) = AtomicCompareExchange (mHead (que s)) newhead head;
          s1 = s\<lparr>que := (que s)\<lparr>mHead := v\<rparr>\<rparr>
      in if ok then (lq_go t (LQ_Rel_value (ConvertToNode head) x) s1)\<lparr>hver := hver s + 1, log := Dequeued x # log s\<rparr>
         else lq_go t LQ_Popping s1)"

definition lq_fix_check_step :: "nat \<Rightarrow> u64 \<Rightarrow> u64 \<Rightarrow> 'a lq_state \<Rightarrow> 'a lq_state" where
  "lq_fix_check_step t head current s =
     (if head = mHead (que s) \<and> current \<noteq> head then lq_go t (LQ_Fix_next head current) s else lq_go t LQ_Popping s)"

definition lq_fix_next_step :: "nat \<Rightarrow> u64 \<Rightarrow> u64 \<Rightarrow> 'a lq_state \<Rightarrow> 'a lq_state" where
  "lq_fix_next_step t head current s =
     (let pcurrent = ConvertToNode current in lq_go t (LQ_Fix_write head current (mNext (lq_node s pcurrent))) s)"

definition lq_fix_write_step :: "nat \<Rightarrow> u64 \<Rightarrow> u64 \<Rightarrow> u64 \<Rightarrow> 'a lq_state \<Rightarrow> 'a lq_state" where
  "lq_fix_write_step t head current nxt s =
     (let pcurrent = ConvertToNode current; pnext = ConvertToNode nxt;
          s1 = lq_write pnext (\<lambda>n. n\<lparr>mPrev := MakePointer pcurrent (GetPrevTag current)\<rparr>) s
      in (lq_go t (LQ_Fix head (MakePointer pnext (GetPrevTag current))) s1)
           \<lparr>link := (link s)(pnext \<mapsto> cur s t - 1), cur := (cur s)(t := cur s t - 1)\<rparr>)"

definition lq_rel_value_step :: "'a \<Rightarrow> nat \<Rightarrow> u64 \<Rightarrow> 'a \<Rightarrow> 'a lq_state \<Rightarrow> 'a lq_state" where
  "lq_rel_value_step dflt t p x s = lq_go t (LQ_Releasing p x) (lq_write p (\<lambda>n. n\<lparr>mValue := dflt\<rparr>) s)"

definition lq_rel_read_step :: "nat \<Rightarrow> u64 \<Rightarrow> 'a \<Rightarrow> 'a lq_state \<Rightarrow> 'a lq_state" where
  "lq_rel_read_step t p x s = lq_see t (fver s) (lq_go t (LQ_Rel_read p x (mFreeNodeHead (que s))) s)"

definition lq_rel_prev_step :: "nat \<Rightarrow> u64 \<Rightarrow> 'a \<Rightarrow> u64 \<Rightarrow> 'a lq_state \<Rightarrow> 'a lq_state" where
  "lq_rel_prev_step t p x head s =
     (lq_go t (LQ_Rel_prev p x head) (lq_write p (\<lambda>n. n\<lparr>mPrev := MakePointer 0 kInvalidTag\<rparr>) s))\<lparr>link := (link s)(p := None)\<rparr>"

definition lq_rel_link_step :: "nat \<Rightarrow> u64 \<Rightarrow> 'a \<Rightarrow> u64 \<Rightarrow> 'a lq_state \<Rightarrow> 'a lq_state" where
  "lq_rel_link_step t p x head s =
     lq_go t (LQ_Rel_linked p x head) (lq_write p (\<lambda>n. n\<lparr>mNextFreeNode := ConvertToNode head\<rparr>) s)"

definition lq_rel_cas_step :: "nat \<Rightarrow> u64 \<Rightarrow> 'a \<Rightarrow> u64 \<Rightarrow> 'a lq_state \<Rightarrow> 'a lq_state" where
  "lq_rel_cas_step t p x head s =
     (let newhead = MakePointer p (GetNextTag head);
          (ok, v) = AtomicCompareExchange (mFreeNodeHead (que s)) newhead head;
          s1 = s\<lparr>que := (que s)\<lparr>mFreeNodeHead := v\<rparr>\<rparr>
      in if ok then (lq_go t (LQ_Pop_count x) s1)\<lparr>fver := fver s + 1\<rparr> else lq_go t (LQ_Releasing p x) s1)"

definition lq_pop_count_step :: "nat \<Rightarrow> 'a lq_state \<Rightarrow> 'a lq_state" where
  "lq_pop_count_step t s = lq_go t LQ_Idle (s\<lparr>que := (que s)\<lparr>mSize := snd (AtomicDecrement (mSize (que s)))\<rparr>\<rparr>)"

lemmas lq_step_defs = lq_go_def lq_write_def lq_see_def lq_acq_read_step_def lq_new_step_def lq_acq_next_step_def lq_acq_cas_step_def
  lq_push_value_step_def lq_push_read_step_def lq_push_link_step_def lq_push_cas_step_def lq_push_prev_step_def lq_push_count_step_def
  lq_pop_head_step_def lq_pop_tail_step_def lq_pop_prev_step_def lq_return_false_def lq_pop_check_step_def lq_pop_value_step_def
  lq_pop_cas_step_def lq_fix_check_step_def lq_fix_next_step_def lq_fix_write_step_def lq_rel_value_step_def lq_rel_read_step_def
  lq_rel_prev_step_def lq_rel_link_step_def lq_rel_cas_step_def lq_pop_count_step_def ConvertToNode_def Let_def

inductive lq_step :: "'a \<Rightarrow> nat \<Rightarrow> nat \<Rightarrow> 'a lq_state \<Rightarrow> 'a lq_state \<Rightarrow> bool" for dflt N t where
  push_begin: "t < N \<Longrightarrow> pcs s t = LQ_Idle \<Longrightarrow> lq_step dflt N t s (lq_go t (LQ_Acquire x) s)"
| acq_read: "t < N \<Longrightarrow> pcs s t = LQ_Acquire x \<Longrightarrow> lq_step dflt N t s (lq_acq_read_step t x s)"
| acq_new: "t < N \<Longrightarrow> pcs s t = LQ_New x \<Longrightarrow> good_addr fresh \<Longrightarrow> fresh \<notin> dom (nodes (que s)) \<Longrightarrow>
    lq_step dflt N t s (lq_new_step fresh raw t x s)"
| acq_next: "t < N \<Longrightarrow> pcs s t = LQ_Acq_read x h \<Longrightarrow> lq_live s (ConvertToNode h) \<Longrightarrow> lq_step dflt N t s (lq_acq_next_step t x h s)"
| acq_cas: "t < N \<Longrightarrow> pcs s t = LQ_Acq_next x h n \<Longrightarrow> lq_step dflt N t s (lq_acq_cas_step t x h n s)"
| push_value: "t < N \<Longrightarrow> pcs s t = LQ_Push_value x p \<Longrightarrow> lq_live s p \<Longrightarrow> lq_step dflt N t s (lq_push_value_step t x p s)"
| push_read: "t < N \<Longrightarrow> pcs s t = LQ_Pushing x p \<Longrightarrow> lq_step dflt N t s (lq_push_read_step t x p s)"
| push_link: "t < N \<Longrightarrow> pcs s t = LQ_Push_read x p h \<Longrightarrow> lq_live s p \<Longrightarrow> lq_step dflt N t s (lq_push_link_step t x p h s)"
| push_cas: "t < N \<Longrightarrow> pcs s t = LQ_Push_linked x p h \<Longrightarrow> lq_step dflt N t s (lq_push_cas_step t x p h s)"
| push_prev: "t < N \<Longrightarrow> pcs s t = LQ_Push_prev p h \<Longrightarrow> lq_live s (ConvertToNode h) \<Longrightarrow> lq_step dflt N t s (lq_push_prev_step t p h s)"
| push_count: "t < N \<Longrightarrow> pcs s t = LQ_Push_count \<Longrightarrow> lq_step dflt N t s (lq_push_count_step t s)"
| pop_begin: "t < N \<Longrightarrow> pcs s t = LQ_Idle \<Longrightarrow> lq_step dflt N t s (lq_go t LQ_Popping s)"
| pop_head: "t < N \<Longrightarrow> pcs s t = LQ_Popping \<Longrightarrow> lq_step dflt N t s (lq_pop_head_step t s)"
| pop_tail: "t < N \<Longrightarrow> pcs s t = LQ_Pop_head h \<Longrightarrow> lq_step dflt N t s (lq_pop_tail_step t h s)"
| pop_prev: "t < N \<Longrightarrow> pcs s t = LQ_Pop_tail h w \<Longrightarrow> lq_live s (ConvertToNode h) \<Longrightarrow> lq_step dflt N t s (lq_pop_prev_step t h w s)"
| pop_check: "t < N \<Longrightarrow> pcs s t = LQ_Pop_prev h w v \<Longrightarrow> lq_step dflt N t s (lq_pop_check_step t h w v s)"
| pop_value: "t < N \<Longrightarrow> pcs s t = LQ_Pop_take h v \<Longrightarrow> lq_live s (ConvertToNode v) \<Longrightarrow> lq_step dflt N t s (lq_pop_value_step t h v s)"
| pop_cas: "t < N \<Longrightarrow> pcs s t = LQ_Pop_value h v x \<Longrightarrow> lq_step dflt N t s (lq_pop_cas_step t h v x s)"
| fix_check: "t < N \<Longrightarrow> pcs s t = LQ_Fix h c \<Longrightarrow> lq_step dflt N t s (lq_fix_check_step t h c s)"
| fix_next: "t < N \<Longrightarrow> pcs s t = LQ_Fix_next h c \<Longrightarrow> lq_live s (ConvertToNode c) \<Longrightarrow> lq_step dflt N t s (lq_fix_next_step t h c s)"
| fix_write: "t < N \<Longrightarrow> pcs s t = LQ_Fix_write h c n \<Longrightarrow> lq_live s (ConvertToNode n) \<Longrightarrow> lq_step dflt N t s (lq_fix_write_step t h c n s)"
| rel_value: "t < N \<Longrightarrow> pcs s t = LQ_Rel_value p x \<Longrightarrow> lq_live s p \<Longrightarrow> lq_step dflt N t s (lq_rel_value_step dflt t p x s)"
| rel_read: "t < N \<Longrightarrow> pcs s t = LQ_Releasing p x \<Longrightarrow> lq_step dflt N t s (lq_rel_read_step t p x s)"
| rel_prev: "t < N \<Longrightarrow> pcs s t = LQ_Rel_read p x h \<Longrightarrow> lq_live s p \<Longrightarrow> lq_step dflt N t s (lq_rel_prev_step t p x h s)"
| rel_link: "t < N \<Longrightarrow> pcs s t = LQ_Rel_prev p x h \<Longrightarrow> lq_live s p \<Longrightarrow> lq_step dflt N t s (lq_rel_link_step t p x h s)"
| rel_cas: "t < N \<Longrightarrow> pcs s t = LQ_Rel_linked p x h \<Longrightarrow> lq_step dflt N t s (lq_rel_cas_step t p x h s)"
| pop_count: "t < N \<Longrightarrow> pcs s t = LQ_Pop_count x \<Longrightarrow> lq_step dflt N t s (lq_pop_count_step t s)"

definition lq_init :: "'a lq_state \<Rightarrow> bool" where
  \<comment> \<open>a queue as its constructor leaves it, no operation under way\<close>
  "lq_init s \<longleftrightarrow> (\<exists>n. queue_holds (que s) n 0 [] [] \<and> hist s = [n] \<and> dom (nodes (que s)) = {n}) \<and> (\<forall>t. pcs s t = LQ_Idle) \<and> hver s = 0 \<and>
     GetTag (mFreeNodeHead (que s)) \<noteq> kInvalidTag \<and> fver s = tag_rank (GetTag (mFreeNodeHead (que s))) \<and>
     (\<forall>t. mark s t = 0) \<and> link s = Map.empty \<and> log s = []"

fun lq_reads_head :: "'a lq_pc \<Rightarrow> bool" where
  "lq_reads_head (LQ_Pop_head h) = True"
| "lq_reads_head (LQ_Pop_tail h w) = True"
| "lq_reads_head (LQ_Pop_prev h w v) = True"
| "lq_reads_head (LQ_Pop_take h v) = True"
| "lq_reads_head (LQ_Pop_value h v x) = True"
| "lq_reads_head (LQ_Fix h c) = True"
| "lq_reads_head (LQ_Fix_next h c) = True"
| "lq_reads_head (LQ_Fix_write h c n) = True"
| "lq_reads_head pc = False"

fun lq_reads_tail :: "'a lq_pc \<Rightarrow> bool" where
  "lq_reads_tail (LQ_Push_read x p h) = True"
| "lq_reads_tail (LQ_Push_linked x p h) = True"
| "lq_reads_tail pc = False"

fun lq_reads_free :: "'a lq_pc \<Rightarrow> bool" where
  "lq_reads_free (LQ_Acq_read x h) = True"
| "lq_reads_free (LQ_Acq_next x h n) = True"
| "lq_reads_free (LQ_Rel_read p x h) = True"
| "lq_reads_free (LQ_Rel_prev p x h) = True"
| "lq_reads_free (LQ_Rel_linked p x h) = True"
| "lq_reads_free pc = False"

definition lq_no_lap :: "nat \<Rightarrow> 'a lq_state \<Rightarrow> bool" where
  \<comment> \<open>no thread is overtaken by all 65535 tags between its read of a word and its comparison with it\<close>
  "lq_no_lap N s \<longleftrightarrow> (\<forall>t < N. (lq_reads_head (pcs s t) \<longrightarrow> hver s - seen s t < 65535) \<and>
     (lq_reads_tail (pcs s t) \<longrightarrow> lq_tver s - seen s t < 65535) \<and> (lq_reads_free (pcs s t) \<longrightarrow> fver s - seen s t < 65535))"

definition lq_link_recent :: "'a lq_state \<Rightarrow> bool" where
  \<comment> \<open>the \<open>mPrev\<close> of the node at the head was not written as a link 65535 elements ago or more, and if it was not written as
    a link since the node was allocated or released, what it contains does not carry the tag of the head\<close>
  "lq_link_recent s \<longleftrightarrow>
     (case link s (hist s ! hver s) of
        None \<Rightarrow> GetTag (mPrev (lq_node s (hist s ! hver s))) \<noteq> tag_at (hver s)
      | Some e \<Rightarrow> hver s - e < 65535)"

inductive lq_reach :: "'a \<Rightarrow> nat \<Rightarrow> 'a lq_state \<Rightarrow> bool" for dflt N where
  init: "lq_init s \<Longrightarrow> lq_reach dflt N s"
| step: "lq_reach dflt N s \<Longrightarrow> lq_no_lap N s \<Longrightarrow> lq_link_recent s \<Longrightarrow> lq_step dflt N t s s' \<Longrightarrow> lq_reach dflt N s'"

section \<open>The invariant\<close>

fun lq_replay :: "'a lq_event list \<Rightarrow> 'a list option" where
  \<comment> \<open>the operations, the latest first, executed one after the other on a queue\<close>
  "lq_replay [] = Some []"
| "lq_replay (Enqueued x # es) = map_option (\<lambda>xs. xs @ [x]) (lq_replay es)"
| "lq_replay (Dequeued x # es) = (case lq_replay es of Some (y # xs) \<Rightarrow> if x = y then Some xs else None | _ \<Rightarrow> None)"
| "lq_replay (Queue_empty # es) = (case lq_replay es of Some [] \<Rightarrow> Some [] | _ \<Rightarrow> None)"

fun lq_held :: "'a lq_pc \<Rightarrow> u64 option" where
  \<comment> \<open>the node that an operation under way has in its hands\<close>
  "lq_held (LQ_Push_value x p) = Some p"
| "lq_held (LQ_Pushing x p) = Some p"
| "lq_held (LQ_Push_read x p h) = Some p"
| "lq_held (LQ_Push_linked x p h) = Some p"
| "lq_held (LQ_Rel_value p x) = Some p"
| "lq_held (LQ_Releasing p x) = Some p"
| "lq_held (LQ_Rel_read p x h) = Some p"
| "lq_held (LQ_Rel_prev p x h) = Some p"
| "lq_held (LQ_Rel_linked p x h) = Some p"
| "lq_held pc = None"

fun lq_pending :: "'a lq_pc \<Rightarrow> u64" where
  "lq_pending (LQ_Push_prev p h) = 1"
| "lq_pending LQ_Push_count = 1"
| "lq_pending (LQ_Rel_value p x) = - 1"
| "lq_pending (LQ_Releasing p x) = - 1"
| "lq_pending (LQ_Rel_read p x h) = - 1"
| "lq_pending (LQ_Rel_prev p x h) = - 1"
| "lq_pending (LQ_Rel_linked p x h) = - 1"
| "lq_pending (LQ_Pop_count x) = - 1"
| "lq_pending pc = 0"

definition lq_word :: "'a lq_state \<Rightarrow> nat \<Rightarrow> u64" where
  \<comment> \<open>the word that points to the \<open>i\<close>-th node\<close>
  "lq_word s i = MakePointer (hist s ! i) (tag_at i)"

definition lq_addr :: "'a lq_state \<Rightarrow> u64 \<Rightarrow> bool" where
  "lq_addr s p \<longleftrightarrow> good_addr p \<and> p \<in> dom (nodes (que s))"

definition lq_saw :: "'a lq_state \<Rightarrow> nat \<Rightarrow> u64 \<Rightarrow> bool" where
  \<comment> \<open>\<open>h\<close> was read from \<open>mFreeNodeHead\<close> at version \<open>sn\<close>\<close>
  "lq_saw s sn h \<longleftrightarrow> GetTag h = tag_at sn \<and> sn \<le> fver s \<and> (sn = fver s \<longrightarrow> h = mFreeNodeHead (que s))"

definition lq_saw_head :: "'a lq_state \<Rightarrow> nat \<Rightarrow> u64 \<Rightarrow> bool" where
  "lq_saw_head s sn h \<longleftrightarrow> sn \<le> hver s \<and> sn < length (hist s) \<and> h = lq_word s sn"

definition lq_past_empty :: "'a lq_state \<Rightarrow> nat \<Rightarrow> bool" where
  \<comment> \<open>the queue was empty when the thread read \<open>mTail\<close>\<close>
  "lq_past_empty s t \<longleftrightarrow> lq_replay (drop (length (log s) - mark s t) (log s)) = Some []"

definition lq_saw_tail :: "'a lq_state \<Rightarrow> nat \<Rightarrow> u64 \<Rightarrow> u64 \<Rightarrow> bool" where
  "lq_saw_tail s t h w \<longleftrightarrow> seen s t \<le> cur s t \<and> cur s t < length (hist s) \<and> w = lq_word s (cur s t) \<and>
     (hver s = seen s t \<and> w = h \<longrightarrow> lq_past_empty s t)"

definition lq_next_of_head :: "'a lq_state \<Rightarrow> nat \<Rightarrow> u64 \<Rightarrow> bool" where
  "lq_next_of_head s sn v \<longleftrightarrow> Suc sn < length (hist s) \<and> v = MakePointer (hist s ! Suc sn) (tag_at sn)"

fun lq_ok :: "'a lq_state \<Rightarrow> nat \<Rightarrow> 'a lq_pc \<Rightarrow> bool" where
  "lq_ok s t (LQ_Acq_read x h) \<longleftrightarrow> lq_saw s (seen s t) h \<and> lq_live s (GetPointer h)"
| "lq_ok s t (LQ_Acq_next x h n) \<longleftrightarrow> lq_saw s (seen s t) h \<and> lq_live s (GetPointer h) \<and>
     (seen s t = fver s \<longrightarrow> mNextFreeNode (lq_node s (GetPointer h)) = n)"
| "lq_ok s t (LQ_Pushing x p) \<longleftrightarrow> mValue (lq_node s p) = x"
| "lq_ok s t (LQ_Push_read x p w) \<longleftrightarrow> mValue (lq_node s p) = x \<and> seen s t < length (hist s) \<and> w = lq_word s (seen s t) \<and>
     p \<notin> set (drop (Suc (seen s t)) (hist s))"
| "lq_ok s t (LQ_Push_linked x p w) \<longleftrightarrow> mValue (lq_node s p) = x \<and> seen s t < length (hist s) \<and> w = lq_word s (seen s t) \<and>
     p \<notin> set (drop (Suc (seen s t)) (hist s)) \<and> mNext (lq_node s p) = MakePointer (hist s ! seen s t) (tag_at (Suc (seen s t)))"
| "lq_ok s t (LQ_Push_prev p w) \<longleftrightarrow> Suc (seen s t) < length (hist s) \<and> w = lq_word s (seen s t) \<and> hist s ! Suc (seen s t) = p"
| "lq_ok s t (LQ_Pop_head h) \<longleftrightarrow> lq_saw_head s (seen s t) h"
| "lq_ok s t (LQ_Pop_tail h w) \<longleftrightarrow> lq_saw_head s (seen s t) h \<and> lq_saw_tail s t h w"
| "lq_ok s t (LQ_Pop_prev h w v) \<longleftrightarrow> lq_saw_head s (seen s t) h \<and> lq_saw_tail s t h w \<and>
     (hver s = seen s t \<and> GetTag v = tag_at (seen s t) \<longrightarrow> lq_next_of_head s (seen s t) v)"
| "lq_ok s t (LQ_Pop_take h v) \<longleftrightarrow> lq_saw_head s (seen s t) h \<and> lq_next_of_head s (seen s t) v"
| "lq_ok s t (LQ_Pop_value h v x) \<longleftrightarrow> lq_saw_head s (seen s t) h \<and> lq_next_of_head s (seen s t) v \<and>
     (hver s = seen s t \<longrightarrow> mValue (lq_node s (hist s ! Suc (seen s t))) = x)"
| "lq_ok s t (LQ_Fix h c) \<longleftrightarrow> lq_saw_head s (seen s t) h \<and>
     (hver s = seen s t \<longrightarrow> seen s t \<le> cur s t \<and> cur s t < length (hist s) \<and> c = lq_word s (cur s t))"
| "lq_ok s t (LQ_Fix_next h c) \<longleftrightarrow> lq_saw_head s (seen s t) h \<and> seen s t < cur s t \<and> cur s t < length (hist s) \<and> c = lq_word s (cur s t)"
| "lq_ok s t (LQ_Fix_write h c n) \<longleftrightarrow> lq_saw_head s (seen s t) h \<and> seen s t < cur s t \<and> cur s t < length (hist s) \<and>
     c = lq_word s (cur s t) \<and> GetPointer n \<in> set (drop (cur s t - 1) (hist s)) \<and>
     (hver s = seen s t \<longrightarrow> GetPointer n = hist s ! (cur s t - 1))"
| "lq_ok s t (LQ_Rel_read p x h) \<longleftrightarrow> lq_saw s (seen s t) h"
| "lq_ok s t (LQ_Rel_prev p x h) \<longleftrightarrow> lq_saw s (seen s t) h"
| "lq_ok s t (LQ_Rel_linked p x h) \<longleftrightarrow> lq_saw s (seen s t) h \<and> mNextFreeNode (lq_node s p) = GetPointer h"
| "lq_ok s t pc \<longleftrightarrow> True"

definition lq_words :: "'a lq_state \<Rightarrow> u64 list \<Rightarrow> bool" where
  "lq_words s fs \<longleftrightarrow> hver s < length (hist s) \<and> mHead (que s) = lq_word s (hver s) \<and> mTail (que s) = lq_word s (lq_tver s) \<and>
     GetTag (mFreeNodeHead (que s)) = tag_at (fver s) \<and> fchain (nodes (que s)) (GetPointer (mFreeNodeHead (que s))) fs"

definition lq_places :: "nat \<Rightarrow> 'a lq_state \<Rightarrow> u64 list \<Rightarrow> bool" where
  \<comment> \<open>every node is in exactly one place\<close>
  "lq_places N s fs \<longleftrightarrow> distinct (drop (hver s) (hist s) @ fs) \<and>
     dom (nodes (que s)) = set (drop (hver s) (hist s) @ fs) \<union> {p. \<exists>t < N. lq_held (pcs s t) = Some p} \<and> (\<forall>p \<in> set (hist s @ fs). lq_addr s p) \<and>
     (\<forall>t < N. \<forall>p. lq_held (pcs s t) = Some p \<longrightarrow> p \<notin> set (drop (hver s) (hist s) @ fs) \<and> lq_addr s p \<and>
        (\<forall>u < N. lq_held (pcs s u) = Some p \<longrightarrow> u = t))"

definition lq_nexts :: "'a lq_state \<Rightarrow> bool" where
  \<comment> \<open>\<open>mNext\<close> of a node in the queue is the node before it; that of a node that was in the queue leads to no earlier node\<close>
  "lq_nexts s \<longleftrightarrow> (\<forall>i. hver s < i \<and> i < length (hist s) \<longrightarrow> mNext (lq_node s (hist s ! i)) = MakePointer (hist s ! (i - 1)) (tag_at i)) \<and>
     (\<forall>i. 0 < i \<and> i < length (hist s) \<longrightarrow> GetPointer (mNext (lq_node s (hist s ! i))) \<in> set (drop (i - 1) (hist s)))"

definition lq_links :: "'a lq_state \<Rightarrow> bool" where
  \<comment> \<open>a link that was written for position \<open>e\<close> leads to the node behind it and is in a node that has been at \<open>e\<close> or later\<close>
  "lq_links s \<longleftrightarrow> (\<forall>p e. link s p = Some e \<longrightarrow>
     lq_next_of_head s e (mPrev (lq_node s p)) \<and> p \<in> set (drop e (hist s)))"

definition lq_awaits_link :: "nat \<Rightarrow> 'a lq_state \<Rightarrow> nat \<Rightarrow> bool" where
  \<comment> \<open>a thread is about to write \<open>mPrev\<close> of the \<open>i\<close>-th node\<close>
  "lq_awaits_link N s i \<longleftrightarrow> (\<exists>t < N. \<exists>p w. pcs s t = LQ_Push_prev p w \<and> seen s t = i)"

definition lq_linked :: "nat \<Rightarrow> 'a lq_state \<Rightarrow> bool" where
  "lq_linked N s \<longleftrightarrow> (\<forall>i. hver s \<le> i \<and> Suc i < length (hist s) \<longrightarrow>
     GetTag (mPrev (lq_node s (hist s ! i))) \<noteq> kInvalidTag \<or> lq_awaits_link N s i)"

definition lq_values :: "'a lq_state \<Rightarrow> 'a list" where
  "lq_values s = map (\<lambda>p. mValue (lq_node s p)) (drop (Suc (hver s)) (hist s))"

definition lq_inv :: "nat \<Rightarrow> 'a lq_state \<Rightarrow> u64 list \<Rightarrow> bool" where
  "lq_inv N s fs \<longleftrightarrow> lq_words s fs \<and> lq_places N s fs \<and> lq_nexts s \<and> lq_links s \<and> lq_linked N s \<and>
     lq_replay (log s) = Some (lq_values s) \<and> (\<forall>t < N. lq_ok s t (pcs s t)) \<and> (\<forall>t < N. mark s t \<le> length (log s)) \<and>
     mSize (que s) + (\<Sum>t < N. lq_pending (pcs s t)) = of_nat (lq_tver s - hver s)"

section \<open>What a step leaves as it was\<close>

definition lq_same :: "'a lq_state \<Rightarrow> 'a lq_state \<Rightarrow> u64 \<Rightarrow> bool" where
  "lq_same s' s p \<longleftrightarrow> mValue (lq_node s' p) = mValue (lq_node s p) \<and> mNext (lq_node s' p) = mNext (lq_node s p) \<and>
     mNextFreeNode (lq_node s' p) = mNextFreeNode (lq_node s p)"

lemma lq_word_append [simp]: "hist s' = hist s @ es \<Longrightarrow> i < length (hist s) \<Longrightarrow> lq_word s' i = lq_word s i"
  by (simp add: lq_word_def nth_append)

lemma lq_ok_frame:
  assumes ok: "lq_ok s u pc" and hist: "hist s' = hist s @ es" and es: "\<And>p. lq_held pc = Some p \<Longrightarrow> p \<notin> set es"
    and ver: "hver s \<le> hver s'" "fver s \<le> fver s'"
    and free: "fver s' = fver s \<Longrightarrow> mFreeNodeHead (que s') = mFreeNodeHead (que s)"
    and fnode: "fver s' = fver s \<Longrightarrow> lq_live s (GetPointer (mFreeNodeHead (que s))) \<Longrightarrow> lq_same s' s (GetPointer (mFreeNodeHead (que s)))"
    and dom: "dom (nodes (que s)) \<subseteq> dom (nodes (que s'))"
    and held: "\<And>p. lq_held pc = Some p \<Longrightarrow> lq_same s' s p"
    and hnode: "hver s' = hver s \<Longrightarrow> Suc (hver s) < length (hist s) \<Longrightarrow> lq_same s' s (hist s ! Suc (hver s))"
    and ghost: "seen s' u = seen s u" "cur s' u = cur s u" "lq_past_empty s u \<Longrightarrow> lq_past_empty s' u"
  shows "lq_ok s' u pc"
proof -
  have live: "lq_live s p \<Longrightarrow> lq_live s' p" for p using dom by (auto simp: lq_live_def)
  have saw: "lq_saw s n h \<Longrightarrow> lq_saw s' n h" for n h using ver(2) free by (auto simp: lq_saw_def)
  have head: "lq_saw_head s n h \<Longrightarrow> lq_saw_head s' n h" for n h using ver(1) hist by (auto simp: lq_saw_head_def)
  have tail: "lq_saw_head s (seen s u) h \<Longrightarrow> lq_saw_tail s u h w \<Longrightarrow> lq_saw_tail s' u h w" for h w
    using ver(1) hist ghost by (auto simp: lq_saw_tail_def lq_saw_head_def)
  have nxt: "lq_next_of_head s n v \<Longrightarrow> lq_next_of_head s' n v" for n v
    using hist by (auto simp: lq_next_of_head_def nth_append)
  have hv: "lq_saw_head s n h \<Longrightarrow> hver s' = n \<Longrightarrow> hver s = n" for n h using ver(1) by (simp add: lq_saw_head_def)
  have fv: "lq_saw s n h \<Longrightarrow> n = fver s' \<Longrightarrow> n = fver s \<and> fver s' = fver s \<and> h = mFreeNodeHead (que s)" for n h
    using ver(2) by (simp add: lq_saw_def)
  show ?thesis
  proof (cases pc)
    case (LQ_Acq_next x h n)
    with ok have o: "lq_saw s (seen s u) h" "lq_live s (GetPointer h)" "seen s u = fver s \<longrightarrow> mNextFreeNode (lq_node s (GetPointer h)) = n"
      by simp_all
    have "mNextFreeNode (lq_node s' (GetPointer h)) = n" if "seen s u = fver s'"
      using fv [OF o(1) that] o(2,3) fnode by (simp add: lq_same_def)
    then show ?thesis using LQ_Acq_next saw [OF o(1)] live [OF o(2)] ghost(1) by simp
  next
    case (LQ_Pop_prev h w v)
    with ok have o: "lq_saw_head s (seen s u) h" "lq_saw_tail s u h w"
      "hver s = seen s u \<and> GetTag v = tag_at (seen s u) \<longrightarrow> lq_next_of_head s (seen s u) v" by simp_all
    then have "lq_next_of_head s' (seen s u) v" if "hver s' = seen s u" "GetTag v = tag_at (seen s u)"
      using hv [OF o(1) that(1)] that(2) nxt by blast
    then show ?thesis using LQ_Pop_prev head [OF o(1)] tail [OF o(1,2)] ghost(1) by simp
  next
    case (LQ_Pop_value h v x)
    with ok have o: "lq_saw_head s (seen s u) h" "lq_next_of_head s (seen s u) v"
      "hver s = seen s u \<longrightarrow> mValue (lq_node s (hist s ! Suc (seen s u))) = x" by simp_all
    have "mValue (lq_node s' (hist s' ! Suc (seen s u))) = x" if "hver s' = seen s u"
      using hv [OF o(1) that] that o(2,3) hnode hist by (simp add: lq_same_def lq_next_of_head_def nth_append)
    then show ?thesis using LQ_Pop_value head [OF o(1)] nxt [OF o(2)] ghost(1) by simp
  next
    case (LQ_Fix h c)
    with ok have o: "lq_saw_head s (seen s u) h"
      "hver s = seen s u \<longrightarrow> seen s u \<le> cur s u \<and> cur s u < length (hist s) \<and> c = lq_word s (cur s u)" by simp_all
    have "seen s u \<le> cur s u \<and> cur s u < length (hist s') \<and> c = lq_word s' (cur s u)" if "hver s' = seen s u"
      using hv [OF o(1) that] o(2) hist by simp
    then show ?thesis using LQ_Fix head [OF o(1)] ghost(1,2) by simp
  next
    case (LQ_Fix_write h c n)
    with ok have o: "lq_saw_head s (seen s u) h" "seen s u < cur s u" "cur s u < length (hist s)" "c = lq_word s (cur s u)"
      "GetPointer n \<in> set (drop (cur s u - 1) (hist s))" "hver s = seen s u \<longrightarrow> GetPointer n = hist s ! (cur s u - 1)" by simp_all
    have "GetPointer n = hist s' ! (cur s u - 1)" if "hver s' = seen s u"
      using hv [OF o(1) that] o(3,6) hist by (simp add: nth_append less_imp_diff_less)
    then show ?thesis using LQ_Fix_write head [OF o(1)] o(2-5) ghost(1,2) hist by simp
  qed (use ok live saw head tail nxt hist held es ghost in \<open>simp_all add: lq_same_def nth_append\<close>)
qed

section \<open>Every step keeps the invariant\<close>

lemma lq_inv_parts:
  assumes "lq_inv N s fs"
  shows "lq_words s fs" and "lq_places N s fs" and "lq_nexts s" and "lq_links s" and "lq_linked N s"
    and "lq_replay (log s) = Some (lq_values s)" and "\<And>t. t < N \<Longrightarrow> lq_ok s t (pcs s t)" and "\<And>t. t < N \<Longrightarrow> mark s t \<le> length (log s)"
    and "mSize (que s) + (\<Sum>t < N. lq_pending (pcs s t)) = of_nat (lq_tver s - hver s)"
  using assms by (auto simp: lq_inv_def)

lemma lq_inv_addr:
  assumes "lq_inv N s fs"
  shows "i < length (hist s) \<Longrightarrow> lq_addr s (hist s ! i)" and "p \<in> set fs \<Longrightarrow> lq_addr s p"
    and "t < N \<Longrightarrow> lq_held (pcs s t) = Some p \<Longrightarrow> lq_addr s p"
  using lq_inv_parts(2) [OF assms] by (auto simp: lq_places_def)

lemma lq_addr_live: "lq_addr s p \<Longrightarrow> lq_live s p"
  by (simp add: lq_addr_def lq_live_def good_addr_def)

lemma lq_addr_pointer: "lq_addr s p \<Longrightarrow> GetPointer (MakePointer p t) = p"
  by (simp add: lq_addr_def good_addr_def GetPointer_MakePointer_canonical)

lemma lq_word_ptr:
  assumes "lq_inv N s fs" and "i < length (hist s)"
  shows "GetPointer (lq_word s i) = hist s ! i" and "GetTag (lq_word s i) = tag_at i"
  using lq_addr_pointer [OF lq_inv_addr(1) [OF assms]] by (simp_all add: lq_word_def GetTag_MakePointer)

lemma lq_held_elsewhere:
  assumes "lq_inv N s fs" and "t < N" and "lq_held (pcs s t) = Some p"
  shows "i < length (hist s) \<Longrightarrow> hver s \<le> i \<Longrightarrow> hist s ! i \<noteq> p" and "p \<notin> set fs" and "p \<notin> set (drop (hver s) (hist s))"
proof -
  show p: "p \<notin> set (drop (hver s) (hist s))" "p \<notin> set fs" using lq_inv_parts(2) [OF assms(1)] assms(2,3) by (auto simp: lq_places_def)
  show "hist s ! i \<noteq> p" if "i < length (hist s)" "hver s \<le> i" using nth_in_set_drop [OF that(2,1)] p(1) by auto
qed

lemma places_union: "d = p \<union> (h \<union> oth) \<Longrightarrow> d' = d \<union> new \<Longrightarrow> p' \<union> h' = p \<union> h \<union> new \<Longrightarrow> d' = p' \<union> (h' \<union> oth)"
  by blast

lemma lq_places_update:
  assumes pl: "lq_places N s fs" and t: "t < N" and pcs: "pcs s' = (pcs s)(t := pc)"
    and hist: "hist s' = hist s @ es" "set es \<subseteq> set_option (lq_held (pcs s t))"
    and dom: "dom (nodes (que s)) \<subseteq> dom (nodes (que s'))"
    and dist: "distinct (drop (hver s') (hist s') @ fs')" and fs: "\<And>p. p \<in> set fs' \<Longrightarrow> lq_addr s' p"
    and held: "\<And>p. lq_held pc = Some p \<Longrightarrow> lq_addr s' p \<and> p \<notin> set (drop (hver s') (hist s') @ fs')"
    and part: "set (drop (hver s') (hist s') @ fs') \<union> set_option (lq_held pc) =
      set (drop (hver s) (hist s) @ fs) \<union> set_option (lq_held (pcs s t)) \<union> (dom (nodes (que s')) - dom (nodes (que s)))"
  shows "lq_places N s' fs'"
proof -
  have addr: "lq_addr s p \<Longrightarrow> lq_addr s' p" for p using dom by (auto simp: lq_addr_def)
  have old: "p \<notin> set (drop (hver s') (hist s') @ fs')" "lq_held pc \<noteq> Some p" "lq_addr s' p"
    if "u < N" "u \<noteq> t" "lq_held (pcs s u) = Some p" for u p
  proof -
    have p: "p \<notin> set (drop (hver s) (hist s) @ fs)" "lq_addr s p" "lq_held (pcs s t) \<noteq> Some p"
      using pl that t unfolding lq_places_def by metis+
    then have "p \<notin> set (drop (hver s) (hist s) @ fs) \<union> set_option (lq_held (pcs s t)) \<union> (dom (nodes (que s')) - dom (nodes (que s)))"
      by (auto simp: lq_addr_def)
    then have "p \<notin> set (drop (hver s') (hist s') @ fs') \<union> set_option (lq_held pc)" using part by blast
    then show "p \<notin> set (drop (hver s') (hist s') @ fs')" "lq_held pc \<noteq> Some p" "lq_addr s' p" using addr p(2) by auto
  qed
  have "lq_addr s' p" if "p \<in> set (hist s' @ fs')" for p
    using that hist fs addr pl t unfolding lq_places_def by (auto split: if_splits)
  moreover have "p \<notin> set (drop (hver s') (hist s') @ fs') \<and> lq_addr s' p \<and> (\<forall>v < N. lq_held (pcs s' v) = Some p \<longrightarrow> v = u)"
    if u: "u < N" "lq_held (pcs s' u) = Some p" for u p
  proof (cases "u = t")
    case True
    then have "lq_held pc = Some p" using u pcs by simp
    then show ?thesis using held [of p] old(2) pcs True by (metis fun_upd_apply)
  next
    case False
    then have h: "lq_held (pcs s u) = Some p" using u pcs by simp
    moreover have "v = u" if "v < N" "lq_held (pcs s' v) = Some p" for v
      using that old(2) [OF u(1) False h] pcs h u(1) pl unfolding lq_places_def by (metis fun_upd_apply)
    ultimately show ?thesis using old [OF u(1) False h] by blast
  qed
  moreover have "dom (nodes (que s')) = set (drop (hver s') (hist s') @ fs') \<union> {p. \<exists>u < N. lq_held (pcs s' u) = Some p}"
  proof -
    let ?others = "{p. \<exists>u < N. u \<noteq> t \<and> lq_held (pcs s u) = Some p}"
    have split: "{p. \<exists>u < N. lq_held (pcs s u) = Some p} = set_option (lq_held (pcs s t)) \<union> ?others"
      "{p. \<exists>u < N. lq_held (pcs s' u) = Some p} = set_option (lq_held pc) \<union> ?others"
      using t by (auto simp: pcs)
    have "dom (nodes (que s)) = set (drop (hver s) (hist s) @ fs) \<union> {p. \<exists>u < N. lq_held (pcs s u) = Some p}"
      using pl by (simp only: lq_places_def)
    moreover have "dom (nodes (que s')) = dom (nodes (que s)) \<union> (dom (nodes (que s')) - dom (nodes (que s)))" using dom by blast
    ultimately show ?thesis unfolding split by (rule places_union [OF _ _ part])
  qed
  ultimately show ?thesis using dist unfolding lq_places_def by blast
qed

lemma lq_inv_update:
  assumes inv: "lq_inv N s fs" and t: "t < N" and pcs: "pcs s' = (pcs s)(t := pc)"
    and ghost: "\<And>u. u \<noteq> t \<Longrightarrow> seen s' u = seen s u \<and> cur s' u = cur s u"
    and marks: "\<And>u. u < N \<Longrightarrow> mark s' u \<le> length (log s')" "\<And>u. u < N \<Longrightarrow> u \<noteq> t \<Longrightarrow> lq_past_empty s u \<Longrightarrow> lq_past_empty s' u"
    and hist: "hist s' = hist s @ es" "set es \<subseteq> set_option (lq_held (pcs s t))"
    and dom: "dom (nodes (que s)) \<subseteq> dom (nodes (que s'))"
    and wr: "\<And>p. lq_live s p \<Longrightarrow> lq_held (pcs s t) \<noteq> Some p \<Longrightarrow> lq_same s' s p"
    and ver: "hver s \<le> hver s'" "fver s \<le> fver s'" "fver s' = fver s \<Longrightarrow> mFreeNodeHead (que s') = mFreeNodeHead (que s)"
    and dist: "distinct (drop (hver s') (hist s') @ fs')" and fs: "\<And>p. p \<in> set fs' \<Longrightarrow> lq_addr s' p"
    and held: "\<And>p. lq_held pc = Some p \<Longrightarrow> lq_addr s' p \<and> p \<notin> set (drop (hver s') (hist s') @ fs')"
    and part: "set (drop (hver s') (hist s') @ fs') \<union> set_option (lq_held pc) =
      set (drop (hver s) (hist s) @ fs) \<union> set_option (lq_held (pcs s t)) \<union> (dom (nodes (que s')) - dom (nodes (que s)))"
    and parts: "lq_words s' fs'" "lq_nexts s'" "lq_links s'" "lq_linked N s'" "lq_replay (log s') = Some (lq_values s')" "lq_ok s' t pc"
    and size: "mSize (que s') + lq_pending pc - of_nat (lq_tver s' - hver s') =
      mSize (que s) + lq_pending (pcs s t) - of_nat (lq_tver s - hver s)"
  shows "lq_inv N s' fs'"
proof -
  note places = lq_places_update [OF lq_inv_parts(2) [OF inv] t pcs hist dom dist fs held part]
  have other: "lq_held (pcs s t) \<noteq> Some p" if "u < N" "u \<noteq> t" "lq_held (pcs s u) = Some p" for u p
    using lq_inv_parts(2) [OF inv] that t unfolding lq_places_def by metis
  have fhead: "lq_held (pcs s t) \<noteq> Some (GetPointer (mFreeNodeHead (que s)))" if "lq_live s (GetPointer (mFreeNodeHead (que s)))"
  proof -
    have "fchain (nodes (que s)) (GetPointer (mFreeNodeHead (que s))) fs" using lq_inv_parts(1) [OF inv] by (simp add: lq_words_def)
    then have "GetPointer (mFreeNodeHead (que s)) \<in> set fs" using that by (cases fs) (auto simp: lq_live_def)
    then show ?thesis using lq_held_elsewhere(2) [OF inv t] by blast
  qed
  have "lq_ok s' u (pcs s' u)" if u: "u < N" for u
  proof (cases "u = t")
    case False
    have "lq_ok s' u (pcs s u)"
    proof (rule lq_ok_frame [OF lq_inv_parts(7) [OF inv u] hist(1) _ ver])
      show "p \<notin> set es" if "lq_held (pcs s u) = Some p" for p using other [OF u False that] hist(2) by auto
      show "lq_same s' s p" if "lq_held (pcs s u) = Some p" for p
        using wr other [OF u False that] lq_addr_live [OF lq_inv_addr(3) [OF inv u that]] by blast
      show "lq_same s' s (hist s ! Suc (hver s))" if "Suc (hver s) < length (hist s)"
        using wr lq_addr_live [OF lq_inv_addr(1) [OF inv that]] lq_held_elsewhere(1) [OF inv t _ that] by fastforce
    qed (use wr fhead dom ghost [OF False] marks(2) [OF u False] in auto)
    then show ?thesis using False pcs by simp
  qed (use parts(6) pcs in simp)
  moreover have "mSize (que s') + (\<Sum>u < N. lq_pending (pcs s' u)) = of_nat (lq_tver s' - hver s')"
    unfolding pcs sum_fun_upd [where g = lq_pending, OF t] by (rule group_balance [OF lq_inv_parts(9) [OF inv] size])
  ultimately show ?thesis unfolding lq_inv_def using places parts marks(1) by blast
qed

lemma fchain_same:
  assumes "\<And>p. p \<in> set fs \<Longrightarrow> lq_addr s p \<and> lq_same s' s p" and "dom (nodes (que s)) \<subseteq> dom (nodes (que s'))"
  shows "fchain (nodes (que s')) k fs = fchain (nodes (que s)) k fs"
  using assms(1)
proof (induction fs arbitrary: k)
  case (Cons f fs)
  have "lq_addr s f" "lq_same s' s f" using Cons.prems by simp_all
  moreover from this obtain n n' where "nodes (que s) f = Some n" "nodes (que s') f = Some n'"
    using assms(2) by (auto simp: lq_addr_def)
  ultimately show ?case using Cons by (simp add: lq_same_def lq_node_def)
qed simp

lemma lq_words_keep:
  assumes "lq_words s fs" and "\<And>p. p \<in> set fs \<Longrightarrow> lq_addr s p \<and> lq_same s' s p" and "dom (nodes (que s)) \<subseteq> dom (nodes (que s'))"
    and "mHead (que s') = mHead (que s)" "mTail (que s') = mTail (que s)" "mFreeNodeHead (que s') = mFreeNodeHead (que s)"
    and "hist s' = hist s" "hver s' = hver s" "fver s' = fver s"
  shows "lq_words s' fs"
  using assms(1,4-9) fchain_same [of fs s s', OF assms(2,3)] by (simp add: lq_words_def lq_word_def lq_tver_def)

lemma lq_inv_keep:
  assumes inv: "lq_inv N s fs" and t: "t < N" and pcs: "pcs s' = (pcs s)(t := pc)"
    and ghost: "\<And>u. u \<noteq> t \<Longrightarrow> seen s' u = seen s u \<and> cur s' u = cur s u"
    and marks: "\<And>u. u < N \<Longrightarrow> mark s' u \<le> length (log s')" "\<And>u. u < N \<Longrightarrow> u \<noteq> t \<Longrightarrow> lq_past_empty s u \<Longrightarrow> lq_past_empty s' u"
    and heads: "mHead (que s') = mHead (que s)" "mTail (que s') = mTail (que s)" "mFreeNodeHead (que s') = mFreeNodeHead (que s)"
      "hist s' = hist s" "hver s' = hver s" "fver s' = fver s"
    and dom: "dom (nodes (que s')) = dom (nodes (que s))"
    and wr: "\<And>p. lq_live s p \<Longrightarrow> lq_held (pcs s t) \<noteq> Some p \<Longrightarrow> lq_same s' s p"
    and held: "lq_held pc = lq_held (pcs s t)"
    and parts: "lq_nexts s'" "lq_links s'" "lq_linked N s'" "lq_replay (log s') = lq_replay (log s)" "lq_ok s' t pc"
    and size: "mSize (que s') + lq_pending pc = mSize (que s) + lq_pending (pcs s t)"
  shows "lq_inv N s' fs"
proof -
  have addr: "lq_addr s p \<Longrightarrow> lq_addr s' p" for p using dom by (auto simp: lq_addr_def)
  have same: "lq_same s' s p" if "p \<in> set (drop (hver s) (hist s) @ fs)" for p
  proof (rule wr)
    have "p \<in> set (hist s @ fs)" using that by (auto dest: in_set_dropD)
    then show "lq_live s p" using lq_inv_parts(2) [OF inv] lq_addr_live unfolding lq_places_def by blast
    show "lq_held (pcs s t) \<noteq> Some p" using that lq_held_elsewhere(2,3) [OF inv t] by auto
  qed
  have "lq_words s' fs" by (rule lq_words_keep [OF lq_inv_parts(1) [OF inv]]) (use same heads dom lq_inv_addr(2) [OF inv] in auto)
  moreover have "p \<in> set (drop (Suc (hver s)) (hist s)) \<Longrightarrow> lq_same s' s p" for p
    using same set_drop_subset_set_drop [of "hver s" "Suc (hver s)" "hist s"] by auto
  then have "lq_values s' = lq_values s" unfolding lq_values_def heads by (intro map_cong) (auto simp: lq_same_def)
  moreover have "distinct (drop (hver s) (hist s) @ fs)" using lq_inv_parts(2) [OF inv] by (simp add: lq_places_def)
  ultimately show ?thesis
    by (intro lq_inv_update [OF inv t pcs ghost marks, where es = "[]"])
       (use heads dom wr held parts size addr lq_inv_parts(6) [OF inv] lq_inv_addr(2,3) [OF inv] lq_held_elsewhere(2,3) [OF inv t] t
        in \<open>auto simp: lq_tver_def\<close>)
qed

lemma lq_nexts_keep:
  assumes "lq_nexts s" and "hist s' = hist s" "hver s \<le> hver s'"
    and "\<And>i. 0 < i \<Longrightarrow> i < length (hist s) \<Longrightarrow> mNext (lq_node s' (hist s ! i)) = mNext (lq_node s (hist s ! i))"
  shows "lq_nexts s'"
  using assms by (auto simp: lq_nexts_def)

lemma lq_links_keep:
  assumes "lq_links s" and "hist s' = hist s @ es"
    and "\<And>p e. link s' p = Some e \<Longrightarrow> link s p = Some e \<and> mPrev (lq_node s' p) = mPrev (lq_node s p)"
  shows "lq_links s'"
  using assms by (auto simp: lq_links_def lq_next_of_head_def nth_append)

lemma lq_linked_keep:
  assumes "lq_linked N s" and "hist s' = hist s" "hver s \<le> hver s'" "pcs s' = (pcs s)(t := pc)" "\<And>p w. pcs s t \<noteq> LQ_Push_prev p w"
    and "\<And>u. u \<noteq> t \<Longrightarrow> seen s' u = seen s u"
    and "\<And>i. hver s' \<le> i \<Longrightarrow> i < length (hist s) \<Longrightarrow> mPrev (lq_node s' (hist s ! i)) = mPrev (lq_node s (hist s ! i))"
  shows "lq_linked N s'"
proof -
  have "lq_awaits_link N s i \<Longrightarrow> lq_awaits_link N s' i" for i
    unfolding lq_awaits_link_def using assms(4-6) by (metis fun_upd_apply)
  then show ?thesis using assms(1-3,7) by (auto simp: lq_linked_def)
qed

lemma lq_inv_local:
  \<comment> \<open>steps that change nothing but the control state of a thread and \<open>mSize\<close>\<close>
  assumes inv: "lq_inv N s fs" and t: "t < N" and pcs: "pcs s' = (pcs s)(t := pc)" and old: "\<And>p w. pcs s t \<noteq> LQ_Push_prev p w"
    and ghost: "\<And>u. u \<noteq> t \<Longrightarrow> seen s' u = seen s u \<and> cur s' u = cur s u"
    and marks: "\<And>u. u < N \<Longrightarrow> mark s' u \<le> length (log s')" "\<And>u. u < N \<Longrightarrow> u \<noteq> t \<Longrightarrow> lq_past_empty s u \<Longrightarrow> lq_past_empty s' u"
    and heads: "mHead (que s') = mHead (que s)" "mTail (que s') = mTail (que s)" "mFreeNodeHead (que s') = mFreeNodeHead (que s)"
      "hist s' = hist s" "hver s' = hver s" "fver s' = fver s" "nodes (que s') = nodes (que s)" "link s' = link s"
    and held: "lq_held pc = lq_held (pcs s t)" and ok: "lq_replay (log s') = lq_replay (log s)" "lq_ok s' t pc"
    and size: "mSize (que s') + lq_pending pc = mSize (que s) + lq_pending (pcs s t)"
  shows "lq_inv N s' fs"
proof -
  have n: "lq_node s' p = lq_node s p" for p by (simp add: lq_node_def heads)
  have "lq_nexts s'" by (rule lq_nexts_keep [OF lq_inv_parts(3) [OF inv]]) (use heads n in auto)
  moreover have "lq_links s'" by (rule lq_links_keep [OF lq_inv_parts(4) [OF inv], where es = "[]"]) (use heads n in auto)
  moreover have "lq_linked N s'" by (rule lq_linked_keep [OF lq_inv_parts(5) [OF inv], where t = t]) (use heads n pcs old ghost in auto)
  ultimately show ?thesis
    by (intro lq_inv_keep [OF inv t pcs ghost marks]) (use heads held ok size n in \<open>simp_all add: lq_same_def\<close>)
qed

lemma lq_inv_own:
  \<comment> \<open>steps that write the node in the hands of the thread\<close>
  assumes inv: "lq_inv N s fs" and t: "t < N" and p: "lq_held (pcs s t) = Some p"
    and s': "s' = (lq_go t pc (lq_write p f s))\<lparr>link := l\<rparr>" and l: "l = link s \<and> mPrev (f (lq_node s p)) = mPrev (lq_node s p) \<or> l = (link s)(p := None)"
    and nxt: "\<And>i. 0 < i \<Longrightarrow> i < length (hist s) \<Longrightarrow> hist s ! i = p \<Longrightarrow> GetPointer (mNext (f (lq_node s p))) \<in> set (drop (i - 1) (hist s))"
    and held: "lq_held pc = Some p" and ok: "lq_ok s' t pc" and size: "lq_pending pc = lq_pending (pcs s t)"
  shows "lq_inv N s' fs"
proof -
  have fields: "pcs s' = (pcs s)(t := pc)" "seen s' = seen s" "cur s' = cur s" "mark s' = mark s" "log s' = log s" "hist s' = hist s"
      "hver s' = hver s" "fver s' = fver s" "link s' = l" "mHead (que s') = mHead (que s)" "mTail (que s') = mTail (que s)"
      "mFreeNodeHead (que s') = mFreeNodeHead (que s)" "mSize (que s') = mSize (que s)"
      "nodes (que s') = (nodes (que s))(p \<mapsto> f (lq_node s p))"
    by (simp_all add: s' lq_go_def lq_write_def)
  have n: "lq_node s' q = (if q = p then f (lq_node s p) else lq_node s q)" for q by (simp add: lq_node_def fields(14))
  have out: "hist s ! i \<noteq> p" if "hver s \<le> i" "i < length (hist s)" for i using lq_held_elsewhere(1) [OF inv t p] that by simp
  have "lq_nexts s'" using lq_inv_parts(3) [OF inv] nxt out by (auto simp: lq_nexts_def fields(6,7) n)
  moreover have "lq_links s'"
    by (rule lq_links_keep [OF lq_inv_parts(4) [OF inv], where es = "[]"]) (use l in \<open>auto simp: fields(6,9) n split: if_splits\<close>)
  moreover have "lq_linked N s'"
    by (rule lq_linked_keep [OF lq_inv_parts(5) [OF inv], where t = t and pc = pc]) (use p out in \<open>auto simp: fields n\<close>)
  ultimately show ?thesis
    by (intro lq_inv_keep [OF inv t fields(1)])
       (use ok size held p n lq_inv_parts(8) [OF inv] lq_inv_addr(3) [OF inv t p] in
        \<open>auto simp: fields(2-13) fields(14) lq_same_def lq_past_empty_def lq_addr_def\<close>)
qed

lemma lq_inv_link:
  \<comment> \<open>steps that write a link into a node that has been in the queue, wherever it is now\<close>
  assumes inv: "lq_inv N s fs" and t: "t < N" and none: "lq_held (pcs s t) = None"
    and s': "s' = (lq_go t pc (lq_write q (\<lambda>n. n\<lparr>mPrev := MakePointer (hist s ! Suc e) (tag_at e)\<rparr>) s))\<lparr>link := (link s)(q \<mapsto> e), cur := (cur s)(t := c)\<rparr>"
    and q: "q \<in> set (drop e (hist s))" and e: "Suc e < length (hist s)"
    and old: "\<And>p w. pcs s t = LQ_Push_prev p w \<Longrightarrow> hist s ! seen s t = q"
    and held: "lq_held pc = None" and ok: "lq_ok s' t pc" and size: "lq_pending pc = lq_pending (pcs s t)"
  shows "lq_inv N s' fs"
proof -
  have fields: "pcs s' = (pcs s)(t := pc)" "seen s' = seen s" "cur s' = (cur s)(t := c)" "mark s' = mark s" "log s' = log s" "hist s' = hist s"
      "hver s' = hver s" "fver s' = fver s" "link s' = (link s)(q \<mapsto> e)" "mHead (que s') = mHead (que s)" "mTail (que s') = mTail (que s)"
      "mFreeNodeHead (que s') = mFreeNodeHead (que s)" "mSize (que s') = mSize (que s)"
      "nodes (que s') = (nodes (que s))(q \<mapsto> (lq_node s q)\<lparr>mPrev := MakePointer (hist s ! Suc e) (tag_at e)\<rparr>)"
    by (simp_all add: s' lq_go_def lq_write_def)
  have n: "lq_node s' p = (if p = q then (lq_node s q)\<lparr>mPrev := MakePointer (hist s ! Suc e) (tag_at e)\<rparr> else lq_node s p)" for p
    by (simp add: lq_node_def fields(14))
  have "lq_nexts s'" by (rule lq_nexts_keep [OF lq_inv_parts(3) [OF inv]]) (simp_all add: fields n)
  moreover have "lq_links s'"
    using lq_inv_parts(4) [OF inv] q e by (auto simp: lq_links_def lq_next_of_head_def fields(6,9) n)
  moreover have "lq_linked N s'"
    unfolding lq_linked_def fields(6,7)
  proof (intro allI impI)
    fix i assume i: "hver s \<le> i \<and> Suc i < length (hist s)"
    show "GetTag (mPrev (lq_node s' (hist s ! i))) \<noteq> kInvalidTag \<or> lq_awaits_link N s' i"
    proof (cases "hist s ! i = q")
      case False
      have "lq_awaits_link N s' i" if "lq_awaits_link N s i"
        using that False old unfolding lq_awaits_link_def fields(1,2) by (metis fun_upd_apply)
      then show ?thesis using i lq_inv_parts(5) [OF inv] False by (auto simp: lq_linked_def n)
    qed (simp add: n GetTag_MakePointer)
  qed
  moreover have "lq_addr s q" using lq_inv_parts(2) [OF inv] in_set_dropD [OF q] by (simp add: lq_places_def)
  ultimately show ?thesis
    by (intro lq_inv_keep [OF inv t fields(1)])
       (use ok size held none n lq_inv_parts(8) [OF inv] in \<open>auto simp: fields(2-13) fields(14) lq_same_def lq_past_empty_def lq_addr_def\<close>)
qed

lemma lq_head_unmoved:
  \<comment> \<open>a word read from \<open>mHead\<close> that is still there was there all the time\<close>
  assumes "lq_inv N s fs" and "lq_no_lap N s" and "t < N" and "lq_reads_head (pcs s t)" and "lq_saw_head s (seen s t) (mHead (que s))"
  shows "seen s t = hver s"
proof -
  have w: "mHead (que s) = lq_word s (hver s)" "hver s < length (hist s)" using lq_inv_parts(1) [OF assms(1)] by (simp_all add: lq_words_def)
  have sn: "seen s t \<le> hver s" "seen s t < length (hist s)" "lq_word s (hver s) = lq_word s (seen s t)"
    using assms(5) w by (simp_all add: lq_saw_head_def)
  have "tag_at (seen s t) = tag_at (hver s)" using lq_word_ptr(2) [OF assms(1)] sn w(2) by metis
  then show ?thesis using tag_at_close sn(1) assms(2-4) by (auto simp: lq_no_lap_def)
qed

lemma lq_position_unique:
  assumes "lq_inv N s fs" and "hver s \<le> i" "hver s \<le> j" "i < length (hist s)" "j < length (hist s)" and "lq_word s i = lq_word s j"
  shows "i = j"
proof -
  have "hist s ! i = hist s ! j" using lq_word_ptr(1) [OF assms(1)] assms(4-6) by metis
  then have "drop (hver s) (hist s) ! (i - hver s) = drop (hver s) (hist s) ! (j - hver s)" using assms(2-5) by simp
  moreover have "distinct (drop (hver s) (hist s))" using lq_inv_parts(2) [OF assms(1)] by (simp add: lq_places_def)
  ultimately have "i - hver s = j - hver s" using assms(2-5) nth_eq_iff_index_eq [of "drop (hver s) (hist s)" "i - hver s" "j - hver s"] by simp
  then show ?thesis using assms(2,3) by simp
qed

lemma lq_past_empty_Cons: "mark s' u = mark s u \<Longrightarrow> log s' = ev # log s \<Longrightarrow> mark s u \<le> length (log s) \<Longrightarrow> lq_past_empty s' u = lq_past_empty s u"
  by (simp add: lq_past_empty_def Suc_diff_le)

lemma lq_inv_acq_cas:
  assumes inv: "lq_inv N s fs" and lap: "lq_no_lap N s" and t: "t < N" and pc: "pcs s t = LQ_Acq_next x h n" and h: "mFreeNodeHead (que s) = h"
  shows "\<exists>fs'. lq_inv N (lq_acq_cas_step t x h n s) fs'"
proof -
  let ?s = "lq_acq_cas_step t x h n s" and ?p = "GetPointer h"
  have ok: "lq_saw s (seen s t) h" "lq_live s ?p" "seen s t = fver s \<longrightarrow> mNextFreeNode (lq_node s ?p) = n"
    using lq_inv_parts(7) [OF inv t] pc by simp_all
  have w: "GetTag h = tag_at (fver s)" "fchain (nodes (que s)) ?p fs" using lq_inv_parts(1) [OF inv] h by (simp_all add: lq_words_def)
  have "fver s - seen s t < 65535" using lap t pc by (auto simp: lq_no_lap_def)
  then have "seen s t = fver s" using tag_at_close [of "seen s t" "fver s"] ok(1) w(1) by (simp add: lq_saw_def)
  then have n: "mNextFreeNode (lq_node s ?p) = n" using ok(3) by simp
  obtain fs' where fs: "fs = ?p # fs'" "fchain (nodes (que s)) n fs'"
    using w(2) ok(2) n by (cases fs) (auto simp: lq_live_def lq_node_def)
  have s': "pcs ?s = (pcs s)(t := LQ_Push_value x ?p)" "seen ?s = seen s" "cur ?s = cur s" "mark ?s = mark s" "log ?s = log s"
      "hist ?s = hist s" "hver ?s = hver s" "fver ?s = fver s + 1" "link ?s = link s"
      "que ?s = (que s)\<lparr>mFreeNodeHead := MakePointer n (GetNextTag h)\<rparr>" "lq_node ?s p = lq_node s p" for p
    using h by (simp_all add: lq_step_defs lq_node_def)
  have ptr: "GetPointer (MakePointer n (GetNextTag h)) = n"
    by (rule fchain_head_canonical [OF fs(2)]) (use lq_inv_addr(2) [OF inv] fs(1) in \<open>auto simp: lq_addr_def\<close>)
  have "lq_inv N ?s fs'"
  proof (rule lq_inv_update [OF inv t s'(1), where es = "[]"])
    show "lq_words ?s fs'" using lq_inv_parts(1) [OF inv] fs(2) ptr w(1)
      by (simp add: lq_words_def s' lq_word_def lq_tver_def GetTag_MakePointer GetNextTag_eq)
    show "lq_nexts ?s" by (rule lq_nexts_keep [OF lq_inv_parts(3) [OF inv]]) (simp_all add: s')
    show "lq_links ?s" by (rule lq_links_keep [OF lq_inv_parts(4) [OF inv], where es = "[]"]) (simp_all add: s')
    show "lq_linked N ?s" by (rule lq_linked_keep [OF lq_inv_parts(5) [OF inv], where t = t]) (simp_all add: s' pc)
    show "distinct (drop (hver ?s) (hist ?s) @ fs')" using lq_inv_parts(2) [OF inv] by (simp add: lq_places_def s' fs(1))
    show "lq_addr ?s p \<and> p \<notin> set (drop (hver ?s) (hist ?s) @ fs')" if "lq_held (LQ_Push_value x ?p) = Some p" for p
      using that lq_inv_parts(2) [OF inv] lq_inv_addr(2) [OF inv] by (auto simp: lq_places_def s' fs(1) lq_addr_def)
  qed (use pc fs(1) lq_inv_parts(6,8) [OF inv] lq_inv_addr(2) [OF inv] in
       \<open>auto simp: s' lq_same_def lq_past_empty_def lq_addr_def lq_values_def lq_tver_def\<close>)
  then show ?thesis by blast
qed

lemma lq_inv_new:
  assumes inv: "lq_inv N s fs" and t: "t < N" and pc: "pcs s t = LQ_New x" and p: "good_addr p" "p \<notin> dom (nodes (que s))"
  shows "lq_inv N (lq_new_step p raw t x s) fs"
proof -
  let ?s = "lq_new_step p raw t x s"
  have s': "pcs ?s = (pcs s)(t := LQ_Push_value x p)" "seen ?s = seen s" "cur ?s = cur s" "mark ?s = mark s" "log ?s = log s"
      "hist ?s = hist s" "hver ?s = hver s" "fver ?s = fver s" "link ?s = (link s)(p := None)"
      "que ?s = (que s)\<lparr>nodes := (nodes (que s))(p \<mapsto> raw\<lparr>mNextFreeNode := 0\<rparr>)\<rparr>"
    by (simp_all add: lq_step_defs)
  have n: "lq_node ?s q = lq_node s q" if "q \<noteq> p" for q using that by (simp add: lq_node_def s')
  have out: "lq_addr s q \<Longrightarrow> q \<noteq> p" for q using p(2) by (auto simp: lq_addr_def)
  have nh: "lq_node ?s (hist s ! i) = lq_node s (hist s ! i)" if "i < length (hist s)" for i
    using n out lq_inv_addr(1) [OF inv that] by blast
  have same: "lq_same ?s s q" if "lq_live s q" for q
  proof -
    have "q \<noteq> p" using that p(2) by (auto simp: lq_live_def)
    then show ?thesis using n by (simp add: lq_same_def)
  qed
  have "lq_words ?s fs"
    by (rule lq_words_keep [OF lq_inv_parts(1) [OF inv]]) (use lq_inv_addr(2) [OF inv] lq_addr_live same in \<open>auto simp: s'\<close>)
  moreover have "lq_links ?s"
    by (rule lq_links_keep [OF lq_inv_parts(4) [OF inv], where es = "[]"]) (use n in \<open>auto simp: s' split: if_splits\<close>)
  moreover have "lq_values ?s = lq_values s"
    unfolding lq_values_def s'(6,7) by (rule map_cong) (use n out lq_inv_parts(2) [OF inv] in \<open>auto simp: lq_places_def dest!: in_set_dropD\<close>)
  moreover have "p \<notin> set (hist s @ fs)" using lq_inv_parts(2) [OF inv] out unfolding lq_places_def by blast
  moreover have "distinct (drop (hver s) (hist s) @ fs)" using lq_inv_parts(2) [OF inv] by (simp add: lq_places_def)
  moreover have "lq_nexts ?s" by (rule lq_nexts_keep [OF lq_inv_parts(3) [OF inv]]) (simp_all add: s' nh)
  moreover have "lq_linked N ?s" by (rule lq_linked_keep [OF lq_inv_parts(5) [OF inv], where t = t]) (simp_all add: s' pc nh)
  ultimately show ?thesis
    by (intro lq_inv_update [OF inv t s'(1), where es = "[]"])
       (use p pc same lq_inv_parts(6,8) [OF inv] lq_inv_addr(2) [OF inv] in
        \<open>auto simp: s' lq_past_empty_def lq_tver_def lq_addr_def dest: in_set_dropD\<close>)
qed

lemma lq_inv_rel_cas:
  assumes inv: "lq_inv N s fs" and t: "t < N" and pc: "pcs s t = LQ_Rel_linked p x h" and h: "mFreeNodeHead (que s) = h"
  shows "lq_inv N (lq_rel_cas_step t p x h s) (p # fs)"
proof -
  let ?s = "lq_rel_cas_step t p x h s"
  have ok: "mNextFreeNode (lq_node s p) = GetPointer h" using lq_inv_parts(7) [OF inv t] pc by simp
  have hp: "lq_held (pcs s t) = Some p" by (simp add: pc)
  have addr: "lq_addr s p" using lq_inv_addr(3) [OF inv t hp] .
  then obtain d where d: "nodes (que s) p = Some d" by (auto simp: lq_addr_def)
  have w: "GetTag h = tag_at (fver s)" "fchain (nodes (que s)) (GetPointer h) fs" using lq_inv_parts(1) [OF inv] h by (simp_all add: lq_words_def)
  have s': "pcs ?s = (pcs s)(t := LQ_Pop_count x)" "seen ?s = seen s" "cur ?s = cur s" "mark ?s = mark s" "log ?s = log s"
      "hist ?s = hist s" "hver ?s = hver s" "fver ?s = fver s + 1" "link ?s = link s"
      "que ?s = (que s)\<lparr>mFreeNodeHead := MakePointer p (GetNextTag h)\<rparr>" "lq_node ?s q = lq_node s q" for q
    using h by (simp_all add: lq_step_defs lq_node_def)
  show ?thesis
  proof (rule lq_inv_update [OF inv t s'(1), where es = "[]"])
    show "lq_words ?s (p # fs)" using lq_inv_parts(1) [OF inv] w ok d lq_addr_pointer [OF addr]
      by (simp add: lq_words_def s' lq_word_def lq_tver_def GetTag_MakePointer GetNextTag_eq lq_node_def)
    show "lq_nexts ?s" by (rule lq_nexts_keep [OF lq_inv_parts(3) [OF inv]]) (simp_all add: s')
    show "lq_links ?s" by (rule lq_links_keep [OF lq_inv_parts(4) [OF inv], where es = "[]"]) (simp_all add: s')
    show "lq_linked N ?s" by (rule lq_linked_keep [OF lq_inv_parts(5) [OF inv], where t = t]) (simp_all add: s' pc)
    show "distinct (drop (hver ?s) (hist ?s) @ p # fs)"
      using lq_inv_parts(2) [OF inv] lq_held_elsewhere(2,3) [OF inv t hp] by (simp add: lq_places_def s')
  qed (use pc addr lq_inv_parts(6,8) [OF inv] lq_inv_addr(2) [OF inv] in
       \<open>auto simp: s' lq_same_def lq_past_empty_def lq_addr_def lq_values_def lq_tver_def\<close>)
qed

lemma lq_tail_unmoved:
  assumes inv: "lq_inv N s fs" and lap: "lq_no_lap N s" and t: "t < N" and pc: "lq_reads_tail (pcs s t)"
    and saw: "seen s t < length (hist s)" "mTail (que s) = lq_word s (seen s t)"
  shows "seen s t = lq_tver s"
proof -
  have w: "lq_tver s < length (hist s)" "mTail (que s) = lq_word s (lq_tver s)"
    using lq_inv_parts(1) [OF inv] by (auto simp: lq_words_def lq_tver_def)
  have "lq_tver s - seen s t < 65535" using lap t pc by (auto simp: lq_no_lap_def)
  moreover have "tag_at (seen s t) = tag_at (lq_tver s)" using lq_word_ptr(2) [OF inv] saw w by metis
  ultimately show ?thesis using tag_at_close [of "seen s t" "lq_tver s"] saw(1) by (simp add: lq_tver_def)
qed

lemma lq_linked_push:
  \<comment> \<open>the node that was appended last is linked by the thread that appended it\<close>
  assumes linked: "lq_linked N s" and t: "t < N" "seen s t = lq_tver s" and pc: "pcs s t = LQ_Push_linked x p h"
    and s': "pcs s' = (pcs s)(t := LQ_Push_prev p h)" "seen s' = seen s" "hist s' = hist s @ [p]" "hver s' = hver s"
      "\<And>q. lq_node s' q = lq_node s q" and len: "length (hist s) = Suc (lq_tver s)"
  shows "lq_linked N s'"
  unfolding lq_linked_def
proof (intro allI impI)
  fix i assume i: "hver s' \<le> i \<and> Suc i < length (hist s')"
  show "GetTag (mPrev (lq_node s' (hist s' ! i))) \<noteq> kInvalidTag \<or> lq_awaits_link N s' i"
  proof (cases "i = lq_tver s")
    case True
    then show ?thesis using t unfolding lq_awaits_link_def s'(1,2) by (metis fun_upd_same)
  next
    case False
    have "lq_awaits_link N s' i" if "lq_awaits_link N s i"
      using that pc unfolding lq_awaits_link_def s'(1,2) by (auto simp: fun_upd_def)
    moreover have "Suc i < length (hist s)" "hver s \<le> i" using i False len by (simp_all add: s')
    ultimately show ?thesis using linked by (auto simp: lq_linked_def s' nth_append)
  qed
qed

lemma lq_inv_push_cas:
  assumes inv: "lq_inv N s fs" and lap: "lq_no_lap N s" and t: "t < N" and pc: "pcs s t = LQ_Push_linked x p h" and h: "mTail (que s) = h"
  shows "lq_inv N (lq_push_cas_step t x p h s) fs"
proof -
  let ?s = "lq_push_cas_step t x p h s"
  have ok: "mValue (lq_node s p) = x" "seen s t < length (hist s)" "h = lq_word s (seen s t)"
      "mNext (lq_node s p) = MakePointer (hist s ! seen s t) (tag_at (Suc (seen s t)))"
    using lq_inv_parts(7) [OF inv t] pc by simp_all
  have hp: "lq_held (pcs s t) = Some p" by (simp add: pc)
  note out = lq_held_elsewhere [OF inv t hp] and addr = lq_inv_addr(3) [OF inv t hp]
  have w: "hver s < length (hist s)" "h = lq_word s (lq_tver s)" using lq_inv_parts(1) [OF inv] h by (simp_all add: lq_words_def)
  then have len: "lq_tver s < length (hist s)" by (simp add: lq_tver_def)
  have sn: "seen s t = lq_tver s" using lq_tail_unmoved [OF inv lap t] pc ok(2,3) h by simp
  have tag: "GetTag h = tag_at (lq_tver s)" using lq_word_ptr(2) [OF inv len] w(2) by simp
  have s': "pcs ?s = (pcs s)(t := LQ_Push_prev p h)" "seen ?s = seen s" "cur ?s = cur s" "mark ?s = mark s" "log ?s = Enqueued x # log s"
      "hist ?s = hist s @ [p]" "hver ?s = hver s" "fver ?s = fver s" "link ?s = link s"
      "que ?s = (que s)\<lparr>mTail := MakePointer p (GetNextTag h)\<rparr>" "lq_node ?s q = lq_node s q" for q
    using h by (simp_all add: lq_step_defs lq_node_def)
  have tv: "lq_tver ?s = length (hist s)" "length (hist s) = Suc (lq_tver s)" using len by (simp_all add: lq_tver_def s')
  show ?thesis
  proof (rule lq_inv_update [OF inv t s'(1), where es = "[p]"])
    have "MakePointer p (GetNextTag h) = lq_word ?s (lq_tver ?s)"
      using tv tag by (simp add: lq_word_def s' GetNextTag_eq nth_append)
    then show "lq_words ?s fs"
      using lq_inv_parts(1) [OF inv] w(1) by (simp add: lq_words_def s' lq_word_def nth_append)
    show "lq_nexts ?s" using lq_inv_parts(3) [OF inv] ok(4) sn tv(2) lq_addr_pointer [OF lq_inv_addr(1) [OF inv len]]
      by (auto simp: lq_nexts_def s' nth_append less_Suc_eq less_imp_diff_less Cons_nth_drop_Suc [symmetric])
    show "lq_links ?s" by (rule lq_links_keep [OF lq_inv_parts(4) [OF inv], where es = "[p]"]) (simp_all add: s')
    show "lq_linked N ?s"
      by (rule lq_linked_push [OF lq_inv_parts(5) [OF inv] t sn pc s'(1,2,6,7)]) (simp_all add: s' tv)
    show "distinct (drop (hver ?s) (hist ?s) @ fs)" using lq_inv_parts(2) [OF inv] out(2,3) w(1) by (auto simp: lq_places_def s')
    show "lq_replay (log ?s) = Some (lq_values ?s)" using lq_inv_parts(6) [OF inv] ok(1) w(1) by (simp add: s' lq_values_def)
    have "h = lq_word ?s (lq_tver s)" by (metis lq_word_append [OF s'(6) len] w(2))
    moreover have "Suc (lq_tver s) < length (hist ?s)" "hist ?s ! Suc (lq_tver s) = p" by (simp_all add: s' tv(2) nth_append)
    ultimately show "lq_ok ?s t (LQ_Push_prev p h)" unfolding lq_ok.simps s'(2) sn by blast
    show "lq_past_empty ?s u" if "u < N" "lq_past_empty s u" for u
      using that lq_past_empty_Cons [of ?s u s] lq_inv_parts(8) [OF inv] by (simp add: s')
    show "mSize (que ?s) + lq_pending (LQ_Push_prev p h) - of_nat (lq_tver ?s - hver ?s) =
        mSize (que s) + lq_pending (pcs s t) - of_nat (lq_tver s - hver s)"
      using tv w(1) by (simp add: s' pc Suc_diff_le)
  qed (use pc addr w(1) lq_inv_parts(8) [OF inv] lq_inv_addr(2) [OF inv] in \<open>auto simp: s' lq_same_def lq_addr_def le_SucI\<close>)
qed

lemma lq_inv_pop_cas:
  assumes inv: "lq_inv N s fs" and lap: "lq_no_lap N s" and t: "t < N" and pc: "pcs s t = LQ_Pop_value h v x" and h: "mHead (que s) = h"
  shows "lq_inv N (lq_pop_cas_step t h v x s) fs"
proof -
  let ?s = "lq_pop_cas_step t h v x s" and ?k = "hver s"
  have ok: "lq_saw_head s (seen s t) h" "lq_next_of_head s (seen s t) v"
      "hver s = seen s t \<longrightarrow> mValue (lq_node s (hist s ! Suc (seen s t))) = x"
    using lq_inv_parts(7) [OF inv t] pc by simp_all
  have "seen s t = ?k" using lq_head_unmoved [OF inv lap t] pc ok(1) h by simp
  then have k: "Suc ?k < length (hist s)" "v = MakePointer (hist s ! Suc ?k) (tag_at ?k)" "mValue (lq_node s (hist s ! Suc ?k)) = x"
      "h = lq_word s ?k"
    using ok by (simp_all add: lq_next_of_head_def lq_saw_head_def)
  then have ptrs: "GetPointer v = hist s ! Suc ?k" "GetPointer h = hist s ! ?k" "GetTag h = tag_at ?k"
    using lq_addr_pointer [OF lq_inv_addr(1) [OF inv k(1)]] lq_word_ptr [OF inv, of ?k] by simp_all
  have s': "pcs ?s = (pcs s)(t := LQ_Rel_value (hist s ! ?k) x)" "seen ?s = seen s" "cur ?s = cur s" "mark ?s = mark s"
      "log ?s = Dequeued x # log s" "hist ?s = hist s" "hver ?s = Suc ?k" "fver ?s = fver s" "link ?s = link s"
      "que ?s = (que s)\<lparr>mHead := lq_word s (Suc ?k)\<rparr>" "lq_node ?s q = lq_node s q" for q
    using h ptrs by (simp_all add: lq_step_defs lq_node_def lq_word_def GetNextTag_eq)
  have d: "drop ?k (hist s) = hist s ! ?k # drop (Suc ?k) (hist s)" "drop (Suc ?k) (hist s) = hist s ! Suc ?k # drop (Suc (Suc ?k)) (hist s)"
    using k(1) by (simp_all add: Cons_nth_drop_Suc)
  have dist: "distinct (hist s ! ?k # drop (Suc ?k) (hist s) @ fs)" using lq_inv_parts(2) [OF inv] d(1) by (simp add: lq_places_def)
  show ?thesis
  proof (rule lq_inv_update [OF inv t s'(1), where es = "[]"])
    show "lq_words ?s fs" using lq_inv_parts(1) [OF inv] k(1) by (simp add: lq_words_def s' lq_word_def lq_tver_def)
    show "lq_nexts ?s" by (rule lq_nexts_keep [OF lq_inv_parts(3) [OF inv]]) (simp_all add: s')
    show "lq_links ?s" by (rule lq_links_keep [OF lq_inv_parts(4) [OF inv], where es = "[]"]) (simp_all add: s')
    show "lq_linked N ?s" by (rule lq_linked_keep [OF lq_inv_parts(5) [OF inv], where t = t]) (simp_all add: s' pc)
    show "distinct (drop (hver ?s) (hist ?s) @ fs)" using dist by (simp add: s')
    show "lq_replay (log ?s) = Some (lq_values ?s)" using lq_inv_parts(6) [OF inv] k(3) d(2) by (simp add: s' lq_values_def)
    show "lq_past_empty ?s u" if "u < N" "lq_past_empty s u" for u
      using that lq_past_empty_Cons [of ?s u s] lq_inv_parts(8) [OF inv] by (simp add: s')
    show "lq_addr ?s p \<and> p \<notin> set (drop (hver ?s) (hist ?s) @ fs)" if "lq_held (LQ_Rel_value (hist s ! ?k) x) = Some p" for p
      using that dist lq_inv_addr(1) [OF inv, of ?k] k(1) by (auto simp: s' lq_addr_def)
    have "lq_tver s - hver s = Suc (lq_tver s - Suc ?k)" using k(1) by (simp add: lq_tver_def)
    then show "mSize (que ?s) + lq_pending (LQ_Rel_value (hist s ! ?k) x) - of_nat (lq_tver ?s - hver ?s) =
        mSize (que s) + lq_pending (pcs s t) - of_nat (lq_tver s - hver s)"
      by (simp add: s' pc lq_tver_def)
  qed (use pc k(1) d(1) lq_inv_parts(8) [OF inv] lq_inv_addr(2) [OF inv] in \<open>auto simp: s' lq_same_def lq_addr_def le_SucI\<close>)
qed

lemma lq_ok_go [simp]: "lq_ok (lq_go t pc s) u p = lq_ok s u p"
proof -
  have "lq_node (lq_go t pc s) = lq_node s" "lq_word (lq_go t pc s) = lq_word s" "lq_live (lq_go t pc s) = lq_live s"
    "lq_saw (lq_go t pc s) = lq_saw s" "lq_saw_head (lq_go t pc s) = lq_saw_head s" "lq_saw_tail (lq_go t pc s) = lq_saw_tail s"
    "lq_next_of_head (lq_go t pc s) = lq_next_of_head s"
    by (simp_all add: fun_eq_iff lq_go_def lq_node_def lq_word_def lq_live_def lq_saw_def lq_saw_head_def lq_saw_tail_def lq_past_empty_def
        lq_next_of_head_def)
  then show ?thesis by (cases p) (simp_all add: lq_go_def)
qed

lemma lq_inv_go:
  assumes "lq_inv N s fs" and "t < N" and "\<And>p w. pcs s t \<noteq> LQ_Push_prev p w" and "lq_held pc = lq_held (pcs s t)"
    and "lq_ok s t pc" and "lq_pending pc = lq_pending (pcs s t)"
  shows "lq_inv N (lq_go t pc s) fs"
  by (rule lq_inv_local [OF assms(1,2), where pc = pc])
     (use assms lq_inv_parts(8) [OF assms(1)] in \<open>simp_all add: lq_past_empty_def, simp_all add: lq_go_def\<close>)

lemma lq_inv_see:
  assumes "lq_inv N s fs" and "t < N" and "\<And>p w. pcs s t \<noteq> LQ_Push_prev p w" and "lq_held pc = lq_held (pcs s t)"
    and "lq_ok (lq_see t v (lq_go t pc s)) t pc" and "lq_pending pc = lq_pending (pcs s t)"
  shows "lq_inv N (lq_see t v (lq_go t pc s)) fs"
  by (rule lq_inv_local [OF assms(1,2), where pc = pc])
     (use assms lq_inv_parts(8) [OF assms(1)] in \<open>simp_all add: lq_past_empty_def, simp_all add: lq_go_def lq_see_def\<close>)

lemma lq_replay_cong: "lq_replay a = lq_replay b \<Longrightarrow> lq_replay (es @ a) = lq_replay (es @ b)"
proof (induction es)
  case (Cons e es)
  then show ?case by (cases e) simp_all
qed simp

lemma lq_insert_empty_replay:
  assumes "lq_replay (drop (length es - m) es) = Some []"
  shows "lq_replay (lq_insert_empty m es) = lq_replay es"
proof -
  have "lq_replay (Queue_empty # drop (length es - m) es) = lq_replay (drop (length es - m) es)" using assms by simp
  from lq_replay_cong [OF this, of "take (length es - m) es"] show ?thesis by (simp add: lq_insert_empty_def Let_def)
qed

lemma lq_insert_empty_past:
  assumes "lq_replay (drop (length es - m) es) = Some []" and "m \<le> length es" and "k \<le> length es"
  shows "lq_replay (drop (length (lq_insert_empty m es) - (if m < k then k + 1 else k)) (lq_insert_empty m es)) =
    lq_replay (drop (length es - k) es)"
proof (cases "m < k")
  case True
  define i j where "i = length es - k" and "j = length es - m"
  have "i \<le> j" "j \<le> length es" using True assms(2) by (simp_all add: i_def j_def)
  then have "drop i (lq_insert_empty m es) = drop i (take j es) @ Queue_empty # drop j es"
    by (simp add: lq_insert_empty_def Let_def flip: j_def)
  moreover have "drop i (take j es @ drop j es) = drop i (take j es) @ drop j es"
    using \<open>i \<le> j\<close> \<open>j \<le> length es\<close> by (simp del: append_take_drop_id)
  then have "drop i es = drop i (take j es) @ drop j es" by simp
  moreover have "lq_replay (Queue_empty # drop j es) = lq_replay (drop j es)" using assms(1) by (simp add: j_def)
  ultimately have "lq_replay (drop i (lq_insert_empty m es)) = lq_replay (drop i es)" using lq_replay_cong by metis
  then show ?thesis using True assms(2) by (simp add: i_def lq_insert_empty_def Let_def)
next
  case False
  then have "drop (Suc (length es) - k) (lq_insert_empty m es) = drop (length es - k) es"
    using assms(2,3) by (simp add: lq_insert_empty_def Let_def Suc_diff_le)
  then show ?thesis using False assms(2) by (simp add: lq_insert_empty_def Let_def)
qed

lemma lq_insert_empty_length [simp]: "length (lq_insert_empty m es) = Suc (length es)"
  by (simp add: lq_insert_empty_def Let_def)

lemma lq_inv_return_false:
  assumes inv: "lq_inv N s fs" and t: "t < N" and pc: "pcs s t = LQ_Pop_prev h w v" and e: "lq_past_empty s t"
  shows "lq_inv N (lq_return_false t s) fs"
proof -
  have m: "mark s u \<le> length (log s)" if "u < N" for u using lq_inv_parts(8) [OF inv that] .
  have e': "lq_replay (drop (length (log s) - mark s t) (log s)) = Some []" using e by (simp add: lq_past_empty_def)
  have "lq_past_empty (lq_return_false t s) u" if "u < N" "lq_past_empty s u" for u
    using that lq_insert_empty_past [OF e' m [OF t] m [OF that(1)]] by (simp add: lq_past_empty_def lq_step_defs)
  moreover have "mark (lq_return_false t s) u \<le> length (log (lq_return_false t s))" if "u < N" for u
    using m [OF that] by (simp add: lq_step_defs)
  ultimately show ?thesis
    by (intro lq_inv_local [OF inv t, where pc = LQ_Idle]) (simp_all add: pc lq_step_defs lq_insert_empty_replay [OF e'])
qed

lemma lq_head_link:
  assumes inv: "lq_inv N s fs" and rec: "lq_link_recent s" and tag: "GetTag (mPrev (lq_node s (hist s ! hver s))) = tag_at (hver s)"
  shows "lq_next_of_head s (hver s) (mPrev (lq_node s (hist s ! hver s)))"
proof -
  have hv: "hver s < length (hist s)" using lq_inv_parts(1) [OF inv] by (simp add: lq_words_def)
  obtain e where e: "link s (hist s ! hver s) = Some e" "hver s - e < 65535" using rec tag by (auto simp: lq_link_recent_def split: option.splits)
  then have l: "lq_next_of_head s e (mPrev (lq_node s (hist s ! hver s)))" "hist s ! hver s \<in> set (drop e (hist s))"
    using lq_inv_parts(4) [OF inv] by (auto simp: lq_links_def)
  have "e \<le> hver s"
  proof (rule ccontr)
    assume c: "\<not> e \<le> hver s"
    then have "set (drop e (hist s)) \<subseteq> set (drop (Suc (hver s)) (hist s))" by (intro set_drop_subset_set_drop) simp
    moreover have "distinct (drop (hver s) (hist s))" using lq_inv_parts(2) [OF inv] by (simp add: lq_places_def)
    then have "hist s ! hver s \<notin> set (drop (Suc (hver s)) (hist s))" using hv by (simp add: Cons_nth_drop_Suc [symmetric])
    ultimately show False using l(2) by blast
  qed
  moreover have "tag_at e = tag_at (hver s)" using l(1) tag by (simp add: lq_next_of_head_def GetTag_MakePointer)
  ultimately have "e = hver s" using tag_at_close e(2) by blast
  then show ?thesis using l(1) by simp
qed

lemma lq_inv_pop_tail:
  assumes inv: "lq_inv N s fs" and t: "t < N" and pc: "pcs s t = LQ_Pop_head h"
  shows "lq_inv N (lq_pop_tail_step t h s) fs"
proof -
  let ?s = "lq_pop_tail_step t h s"
  have ok: "lq_saw_head s (seen s t) h" using lq_inv_parts(7) [OF inv t] pc by simp
  have w: "hver s < length (hist s)" "mTail (que s) = lq_word s (lq_tver s)" using lq_inv_parts(1) [OF inv] by (simp_all add: lq_words_def)
  then have tv: "lq_tver s < length (hist s)" "hver s \<le> lq_tver s" by (simp_all add: lq_tver_def)
  have "lq_replay (log s) = Some []" if "hver s = seen s t" "lq_word s (lq_tver s) = h"
  proof -
    have "lq_tver s = hver s"
      using lq_position_unique [OF inv tv(2) order_refl tv(1) w(1)] that ok by (simp add: lq_saw_head_def)
    then have "drop (Suc (hver s)) (hist s) = []" by (simp add: lq_tver_def)
    then show ?thesis using lq_inv_parts(6) [OF inv] by (simp add: lq_values_def)
  qed
  then have "lq_ok ?s t (LQ_Pop_tail h (mTail (que s)))"
    using ok w(2) tv by (auto simp: lq_step_defs lq_saw_head_def lq_saw_tail_def lq_word_def lq_past_empty_def)
  then show ?thesis
    by (intro lq_inv_local [OF inv t, where pc = "LQ_Pop_tail h (mTail (que s))"])
       (use lq_inv_parts(8) [OF inv] in \<open>simp_all add: pc lq_step_defs lq_past_empty_def\<close>)
qed

lemma lq_inv_pop_prev:
  assumes inv: "lq_inv N s fs" and rec: "lq_link_recent s" and t: "t < N" and pc: "pcs s t = LQ_Pop_tail h w"
  shows "lq_inv N (lq_pop_prev_step t h w s) fs"
proof -
  have ok: "lq_saw_head s (seen s t) h" "lq_saw_tail s t h w" using lq_inv_parts(7) [OF inv t] pc by simp_all
  then have p: "GetPointer h = hist s ! seen s t" using lq_word_ptr(1) [OF inv] by (simp add: lq_saw_head_def)
  have "lq_ok s t (LQ_Pop_prev h w (mPrev (lq_node s (GetPointer h))))" using ok lq_head_link [OF inv rec] by (auto simp: p)
  then show ?thesis unfolding lq_pop_prev_step_def ConvertToNode_def by (intro lq_inv_go [OF inv t]) (simp_all add: pc)
qed

lemma lq_inv_pop_check:
  assumes inv: "lq_inv N s fs" and lap: "lq_no_lap N s" and t: "t < N" and pc: "pcs s t = LQ_Pop_prev h w v"
  shows "lq_inv N (lq_pop_check_step t h w v s) fs"
proof -
  have ok: "lq_saw_head s (seen s t) h" "lq_saw_tail s t h w"
      "hver s = seen s t \<and> GetTag v = tag_at (seen s t) \<longrightarrow> lq_next_of_head s (seen s t) v"
    using lq_inv_parts(7) [OF inv t] pc by simp_all
  have sn: "seen s t = hver s" if "h = mHead (que s)" using lq_head_unmoved [OF inv lap t] pc ok(1) that by simp
  have tag: "GetTag h = tag_at (seen s t)" using ok(1) lq_word_ptr(2) [OF inv] by (simp add: lq_saw_head_def)
  have fix_ok: "lq_ok s t (LQ_Fix h w)" using ok by (simp add: lq_saw_tail_def)
  show ?thesis
  proof (cases "h = mHead (que s) \<and> w = h")
    case True
    then have "lq_past_empty s t" using ok(2) sn by (auto simp: lq_saw_tail_def)
    then show ?thesis using True lq_inv_return_false [OF inv t pc] by (simp add: lq_pop_check_step_def)
  next
    case False
    have "lq_ok s t (LQ_Pop_take h v)" if "h = mHead (que s)" "GetTag v = GetTag h" using ok(1,3) sn that tag by simp
    then show ?thesis
      using False fix_ok unfolding lq_pop_check_step_def Let_def
      by (auto intro!: lq_inv_go [OF inv t] simp: pc simp del: lq_ok.simps(10,12))
  qed
qed

lemma lq_inv_fix:
  assumes inv: "lq_inv N s fs" and lap: "lq_no_lap N s" and t: "t < N"
  shows "pcs s t = LQ_Fix h c \<Longrightarrow> lq_inv N (lq_fix_check_step t h c s) fs"
    and "pcs s t = LQ_Fix_next h c \<Longrightarrow> lq_inv N (lq_fix_next_step t h c s) fs"
proof -
  show "lq_inv N (lq_fix_check_step t h c s) fs" if pc: "pcs s t = LQ_Fix h c"
  proof (cases "h = mHead (que s) \<and> c \<noteq> h")
    case True
    have ok: "lq_saw_head s (seen s t) h"
        "hver s = seen s t \<longrightarrow> seen s t \<le> cur s t \<and> cur s t < length (hist s) \<and> c = lq_word s (cur s t)"
      using lq_inv_parts(7) [OF inv t] pc by simp_all
    moreover have "seen s t = hver s" using lq_head_unmoved [OF inv lap t] pc ok(1) True by simp
    moreover from this have "cur s t \<noteq> seen s t" using ok True by (auto simp: lq_saw_head_def)
    ultimately have "lq_ok s t (LQ_Fix_next h c)" by simp
    then show ?thesis using True by (auto simp: lq_fix_check_step_def pc simp del: lq_ok.simps intro!: lq_inv_go [OF inv t])
  next
    case False
    then show ?thesis by (auto simp: lq_fix_check_step_def pc intro!: lq_inv_go [OF inv t])
  qed
  show "lq_inv N (lq_fix_next_step t h c s) fs" if pc: "pcs s t = LQ_Fix_next h c"
  proof -
    have ok: "lq_saw_head s (seen s t) h" "seen s t < cur s t" "cur s t < length (hist s)" "c = lq_word s (cur s t)"
      using lq_inv_parts(7) [OF inv t] pc by simp_all
    let ?n = "mNext (lq_node s (hist s ! cur s t))"
    have p: "GetPointer c = hist s ! cur s t" using lq_word_ptr(1) [OF inv ok(3)] ok(4) by simp
    have "GetPointer ?n \<in> set (drop (cur s t - 1) (hist s))" using lq_inv_parts(3) [OF inv] ok(2,3) by (simp add: lq_nexts_def)
    moreover have "GetPointer ?n = hist s ! (cur s t - 1)" if "hver s = seen s t"
      using lq_inv_parts(3) [OF inv] ok(2,3) that lq_addr_pointer [OF lq_inv_addr(1) [OF inv, of "cur s t - 1"]] by (simp add: lq_nexts_def)
    ultimately have "lq_ok s t (LQ_Fix_write h c ?n)" using ok by simp
    then show ?thesis unfolding lq_fix_next_step_def Let_def ConvertToNode_def p by (intro lq_inv_go [OF inv t]) (simp_all add: pc)
  qed
qed

lemma lq_inv_fix_write:
  assumes inv: "lq_inv N s fs" and t: "t < N" and pc: "pcs s t = LQ_Fix_write h c n"
  shows "lq_inv N (lq_fix_write_step t h c n s) fs"
proof -
  have ok: "lq_saw_head s (seen s t) h" "seen s t < cur s t" "cur s t < length (hist s)" "c = lq_word s (cur s t)"
      "GetPointer n \<in> set (drop (cur s t - 1) (hist s))" "hver s = seen s t \<longrightarrow> GetPointer n = hist s ! (cur s t - 1)"
    using lq_inv_parts(7) [OF inv t] pc by simp_all
  have p: "GetPointer c = hist s ! cur s t" "GetPrevTag c = tag_at (cur s t - 1)"
    using lq_word_ptr(1) [OF inv ok(3)] ok(2,4) by (simp_all add: lq_word_def GetPrevTag_at)
  let ?pc = "LQ_Fix h (MakePointer (GetPointer n) (tag_at (cur s t - 1)))"
  define u where "u = lq_fix_write_step t h c n s"
  have s': "u = (lq_go t ?pc (lq_write (GetPointer n) (\<lambda>d. d\<lparr>mPrev := MakePointer (hist s ! Suc (cur s t - 1)) (tag_at (cur s t - 1))\<rparr>) s))
      \<lparr>link := (link s)(GetPointer n \<mapsto> cur s t - 1), cur := (cur s)(t := cur s t - 1)\<rparr>"
    using ok(2) by (simp add: u_def lq_fix_write_step_def Let_def ConvertToNode_def p)
  have "lq_saw_head u (seen s t) h" using ok(1) by (simp add: s' lq_go_def lq_write_def lq_saw_head_def lq_word_def)
  then have "lq_ok u t ?pc" using ok(2,3,6) by (simp add: s' lq_go_def lq_write_def lq_word_def) linarith
  then show ?thesis unfolding u_def [symmetric] by (intro lq_inv_link [OF inv t _ s']) (use ok in \<open>simp_all add: pc\<close>)
qed

lemma lq_inv_push_prev:
  assumes inv: "lq_inv N s fs" and t: "t < N" and pc: "pcs s t = LQ_Push_prev p h"
  shows "lq_inv N (lq_push_prev_step t p h s) fs"
proof -
  let ?s = "lq_push_prev_step t p h s" and ?k = "seen s t"
  have ok: "Suc ?k < length (hist s)" "h = lq_word s ?k" "hist s ! Suc ?k = p"
    using lq_inv_parts(7) [OF inv t] pc by simp_all
  have w: "GetPointer h = hist s ! ?k" "GetTag h = tag_at ?k" using lq_word_ptr [OF inv, of ?k] ok(1,2) by simp_all
  have s': "?s = (lq_go t LQ_Push_count (lq_write (hist s ! ?k) (\<lambda>d. d\<lparr>mPrev := MakePointer (hist s ! Suc ?k) (tag_at ?k)\<rparr>) s))
      \<lparr>link := (link s)(hist s ! ?k \<mapsto> ?k), cur := (cur s)(t := cur s t)\<rparr>"
    using ok(3) by (simp add: lq_push_prev_step_def Let_def ConvertToNode_def w lq_go_def lq_write_def)
  have "hist s ! ?k \<in> set (drop ?k (hist s))" using ok(1) by (simp add: Cons_nth_drop_Suc [symmetric])
  then show ?thesis by (intro lq_inv_link [OF inv t _ s']) (use ok in \<open>simp_all add: pc\<close>)
qed

lemma lq_free_head_live:
  assumes "lq_inv N s fs" and "GetPointer (mFreeNodeHead (que s)) \<noteq> 0"
  shows "lq_live s (GetPointer (mFreeNodeHead (que s)))"
proof -
  have "fchain (nodes (que s)) (GetPointer (mFreeNodeHead (que s))) fs" using lq_inv_parts(1) [OF assms(1)] by (simp add: lq_words_def)
  then have "GetPointer (mFreeNodeHead (que s)) \<in> set fs" using assms(2) by (cases fs) auto
  then show ?thesis using lq_addr_live lq_inv_addr(2) [OF assms(1)] by blast
qed

lemma lq_see_views [simp]:
  "lq_node (lq_see t v s) = lq_node s" "lq_word (lq_see t v s) = lq_word s" "lq_live (lq_see t v s) = lq_live s"
  "lq_node (lq_go t pc s) = lq_node s" "lq_word (lq_go t pc s) = lq_word s" "lq_live (lq_go t pc s) = lq_live s"
  "seen (lq_see t v s) t = v" "hist (lq_see t v s) = hist s" "hver (lq_see t v s) = hver s" "fver (lq_see t v s) = fver s" "que (lq_see t v s) = que s"
  "hist (lq_go t pc s) = hist s" "hver (lq_go t pc s) = hver s" "fver (lq_go t pc s) = fver s" "que (lq_go t pc s) = que s"
  by (simp_all add: fun_eq_iff lq_see_def lq_go_def lq_node_def lq_word_def lq_live_def)

lemma lq_inv_acquire:
  assumes inv: "lq_inv N s fs" and t: "t < N"
  shows "pcs s t = LQ_Acquire x \<Longrightarrow> lq_inv N (lq_acq_read_step t x s) fs"
    and "pcs s t = LQ_Acq_read x h \<Longrightarrow> lq_inv N (lq_acq_next_step t x h s) fs"
    and "pcs s t = LQ_Acq_next x h n \<Longrightarrow> lq_no_lap N s \<Longrightarrow> \<exists>fs'. lq_inv N (lq_acq_cas_step t x h n s) fs'"
proof -
  have w: "GetTag (mFreeNodeHead (que s)) = tag_at (fver s)" using lq_inv_parts(1) [OF inv] by (simp add: lq_words_def)
  show "lq_inv N (lq_acq_read_step t x s) fs" if pc: "pcs s t = LQ_Acquire x"
    using lq_free_head_live [OF inv] w unfolding lq_acq_read_step_def Let_def ConvertToNode_def
    by (auto simp: pc lq_saw_def intro!: lq_inv_go [OF inv t] lq_inv_see [OF inv t])
  show "lq_inv N (lq_acq_next_step t x h s) fs" if pc: "pcs s t = LQ_Acq_read x h"
    using lq_inv_parts(7) [OF inv t] unfolding lq_acq_next_step_def ConvertToNode_def
    by (intro lq_inv_go [OF inv t]) (simp_all add: pc)
  show "\<exists>fs'. lq_inv N (lq_acq_cas_step t x h n s) fs'" if pc: "pcs s t = LQ_Acq_next x h n" and lap: "lq_no_lap N s"
  proof (cases "mFreeNodeHead (que s) = h")
    case False
    then have "lq_acq_cas_step t x h n s = lq_go t (LQ_Acquire x) s" by (simp add: lq_step_defs)
    moreover have "lq_inv N (lq_go t (LQ_Acquire x) s) fs" by (rule lq_inv_go [OF inv t]) (simp_all add: pc)
    ultimately show ?thesis by auto
  qed (use lq_inv_acq_cas [OF inv lap t pc] in blast)
qed

lemma lq_inv_push_link:
  assumes inv: "lq_inv N s fs" and t: "t < N" and pc: "pcs s t = LQ_Push_read x p h"
  shows "lq_inv N (lq_push_link_step t x p h s) fs"
proof -
  let ?k = "seen s t"
  let ?w = "MakePointer (hist s ! ?k) (tag_at (Suc ?k))"
  have ok: "mValue (lq_node s p) = x" "?k < length (hist s)" "h = lq_word s ?k" "p \<notin> set (drop (Suc ?k) (hist s))"
    using lq_inv_parts(7) [OF inv t] pc by simp_all
  then have w: "GetPointer h = hist s ! ?k" "GetNextTag h = tag_at (Suc ?k)" "GetPointer ?w = hist s ! ?k"
    using lq_word_ptr [OF inv ok(2)] lq_addr_pointer [OF lq_inv_addr(1) [OF inv ok(2)]] by (simp_all add: GetNextTag_eq)
  define u where "u = lq_push_link_step t x p h s"
  have s': "u = (lq_go t (LQ_Push_linked x p h) (lq_write p (\<lambda>n. n\<lparr>mNext := ?w\<rparr>) s))\<lparr>link := link s\<rparr>"
    by (simp add: u_def lq_push_link_step_def lq_go_def lq_write_def w)
  have "hist s ! ?k \<in> set (drop (i - 1) (hist s))" if "0 < i" "i < length (hist s)" "hist s ! i = p" for i
  proof (rule nth_in_set_drop [OF _ ok(2)])
    show "i - 1 \<le> ?k" using nth_in_set_drop [of "Suc ?k" i "hist s"] ok(4) that(2,3) by (cases "i \<le> ?k") auto
  qed
  moreover have "lq_ok u t (LQ_Push_linked x p h)"
    using ok by (simp add: s' lq_go_def lq_write_def lq_word_def lq_node_def)
  ultimately show ?thesis unfolding u_def [symmetric] by (intro lq_inv_own [OF inv t _ s']) (simp_all add: pc w)
qed

lemma lq_inv_push:
  assumes inv: "lq_inv N s fs" and t: "t < N"
  shows "pcs s t = LQ_Push_value x p \<Longrightarrow> lq_inv N (lq_push_value_step t x p s) fs"
    and "pcs s t = LQ_Pushing x p \<Longrightarrow> lq_inv N (lq_push_read_step t x p s) fs"
    and "pcs s t = LQ_Push_read x p h \<Longrightarrow> lq_inv N (lq_push_link_step t x p h s) fs"
    and "pcs s t = LQ_Push_linked x p h \<Longrightarrow> lq_no_lap N s \<Longrightarrow> lq_inv N (lq_push_cas_step t x p h s) fs"
    and "pcs s t = LQ_Push_count \<Longrightarrow> lq_inv N (lq_push_count_step t s) fs"
proof -
  have nxt: "GetPointer (mNext (lq_node s p)) \<in> set (drop (i - 1) (hist s))" if "0 < i" "i < length (hist s)" "hist s ! i = p" for i
    using lq_inv_parts(3) [OF inv] that by (auto simp: lq_nexts_def)
  show "lq_inv N (lq_push_value_step t x p s) fs" if pc: "pcs s t = LQ_Push_value x p"
    by (rule lq_inv_own [OF inv t, where p = p and pc = "LQ_Pushing x p" and f = "\<lambda>n. n\<lparr>mValue := x\<rparr>" and l = "link s"])
       (use nxt in \<open>simp_all add: pc lq_step_defs lq_node_def\<close>)
  have w: "mTail (que s) = lq_word s (lq_tver s)" "lq_tver s < length (hist s)"
    using lq_inv_parts(1) [OF inv] by (auto simp: lq_words_def lq_tver_def)
  show "lq_inv N (lq_push_read_step t x p s) fs" if pc: "pcs s t = LQ_Pushing x p"
    using lq_inv_parts(7) [OF inv t] w unfolding lq_push_read_step_def
    by (intro lq_inv_see [OF inv t]) (simp_all add: pc lq_tver_def)
  show "lq_inv N (lq_push_link_step t x p h s) fs" if "pcs s t = LQ_Push_read x p h" using lq_inv_push_link [OF inv t that] .
  show "lq_inv N (lq_push_cas_step t x p h s) fs" if pc: "pcs s t = LQ_Push_linked x p h" and lap: "lq_no_lap N s"
  proof (cases "mTail (que s) = h")
    case False
    then have "lq_push_cas_step t x p h s = lq_go t (LQ_Pushing x p) s" by (simp add: lq_step_defs)
    moreover have "lq_inv N (lq_go t (LQ_Pushing x p) s) fs"
      by (rule lq_inv_go [OF inv t]) (use lq_inv_parts(7) [OF inv t] in \<open>simp_all add: pc\<close>)
    ultimately show ?thesis by simp
  qed (use lq_inv_push_cas [OF inv lap t pc] in blast)
  show "lq_inv N (lq_push_count_step t s) fs" if pc: "pcs s t = LQ_Push_count"
    by (rule lq_inv_local [OF inv t, where pc = LQ_Idle])
       (use lq_inv_parts(8) [OF inv] in \<open>simp_all add: pc lq_step_defs lq_past_empty_def\<close>)
qed

lemma lq_inv_pop:
  assumes inv: "lq_inv N s fs" and t: "t < N"
  shows "pcs s t = LQ_Popping \<Longrightarrow> lq_inv N (lq_pop_head_step t s) fs"
    and "pcs s t = LQ_Pop_take h v \<Longrightarrow> lq_inv N (lq_pop_value_step t h v s) fs"
    and "pcs s t = LQ_Pop_value h v x \<Longrightarrow> lq_no_lap N s \<Longrightarrow> lq_inv N (lq_pop_cas_step t h v x s) fs"
    and "pcs s t = LQ_Pop_count x \<Longrightarrow> lq_inv N (lq_pop_count_step t s) fs"
proof -
  show "lq_inv N (lq_pop_head_step t s) fs" if pc: "pcs s t = LQ_Popping"
    using lq_inv_parts(1) [OF inv] unfolding lq_pop_head_step_def
    by (intro lq_inv_see [OF inv t]) (simp_all add: pc lq_saw_head_def lq_words_def)
  show "lq_inv N (lq_pop_value_step t h v s) fs" if pc: "pcs s t = LQ_Pop_take h v"
  proof -
    have ok: "lq_saw_head s (seen s t) h" "lq_next_of_head s (seen s t) v" using lq_inv_parts(7) [OF inv t] pc by simp_all
    then have "GetPointer v = hist s ! Suc (seen s t)"
      using lq_addr_pointer [OF lq_inv_addr(1) [OF inv, of "Suc (seen s t)"]] by (simp add: lq_next_of_head_def)
    then show ?thesis using ok unfolding lq_pop_value_step_def Let_def ConvertToNode_def by (intro lq_inv_go [OF inv t]) (simp_all add: pc)
  qed
  show "lq_inv N (lq_pop_cas_step t h v x s) fs" if pc: "pcs s t = LQ_Pop_value h v x" and lap: "lq_no_lap N s"
  proof (cases "mHead (que s) = h")
    case False
    then have "lq_pop_cas_step t h v x s = lq_go t LQ_Popping s" by (simp add: lq_step_defs)
    moreover have "lq_inv N (lq_go t LQ_Popping s) fs" by (rule lq_inv_go [OF inv t]) (simp_all add: pc)
    ultimately show ?thesis by simp
  qed (use lq_inv_pop_cas [OF inv lap t pc] in blast)
  show "lq_inv N (lq_pop_count_step t s) fs" if pc: "pcs s t = LQ_Pop_count x"
    by (rule lq_inv_local [OF inv t, where pc = LQ_Idle])
       (use lq_inv_parts(8) [OF inv] in \<open>simp_all add: pc lq_step_defs lq_past_empty_def\<close>)
qed

lemma lq_inv_release:
  assumes inv: "lq_inv N s fs" and t: "t < N"
  shows "pcs s t = LQ_Rel_value p x \<Longrightarrow> lq_inv N (lq_rel_value_step dflt t p x s) fs"
    and "pcs s t = LQ_Releasing p x \<Longrightarrow> lq_inv N (lq_rel_read_step t p x s) fs"
    and "pcs s t = LQ_Rel_read p x h \<Longrightarrow> lq_inv N (lq_rel_prev_step t p x h s) fs"
    and "pcs s t = LQ_Rel_prev p x h \<Longrightarrow> lq_inv N (lq_rel_link_step t p x h s) fs"
    and "pcs s t = LQ_Rel_linked p x h \<Longrightarrow> \<exists>fs'. lq_inv N (lq_rel_cas_step t p x h s) fs'"
proof -
  have nxt: "GetPointer (mNext (lq_node s p)) \<in> set (drop (i - 1) (hist s))" if "0 < i" "i < length (hist s)" "hist s ! i = p" for i
    using lq_inv_parts(3) [OF inv] that by (auto simp: lq_nexts_def)
  have w: "GetTag (mFreeNodeHead (que s)) = tag_at (fver s)" using lq_inv_parts(1) [OF inv] by (simp add: lq_words_def)
  note ok = lq_inv_parts(7) [OF inv t]
  show "lq_inv N (lq_rel_value_step dflt t p x s) fs" if pc: "pcs s t = LQ_Rel_value p x"
    by (rule lq_inv_own [OF inv t, where p = p and pc = "LQ_Releasing p x" and f = "\<lambda>n. n\<lparr>mValue := dflt\<rparr>" and l = "link s"])
       (use nxt in \<open>simp_all add: pc lq_step_defs lq_node_def\<close>)
  show "lq_inv N (lq_rel_read_step t p x s) fs" if pc: "pcs s t = LQ_Releasing p x"
    using w unfolding lq_rel_read_step_def by (intro lq_inv_see [OF inv t]) (simp_all add: pc lq_saw_def)
  show "lq_inv N (lq_rel_prev_step t p x h s) fs" if pc: "pcs s t = LQ_Rel_read p x h"
    by (rule lq_inv_own [OF inv t, where p = p and pc = "LQ_Rel_prev p x h" and f = "\<lambda>n. n\<lparr>mPrev := MakePointer 0 kInvalidTag\<rparr>"
        and l = "(link s)(p := None)"])
       (use nxt ok in \<open>simp_all add: pc lq_step_defs lq_node_def lq_saw_def\<close>)
  show "lq_inv N (lq_rel_link_step t p x h s) fs" if pc: "pcs s t = LQ_Rel_prev p x h"
    by (rule lq_inv_own [OF inv t, where p = p and pc = "LQ_Rel_linked p x h" and f = "\<lambda>n. n\<lparr>mNextFreeNode := ConvertToNode h\<rparr>"
        and l = "link s"])
       (use nxt ok in \<open>simp_all add: pc lq_step_defs lq_node_def lq_saw_def\<close>)
  show "\<exists>fs'. lq_inv N (lq_rel_cas_step t p x h s) fs'" if pc: "pcs s t = LQ_Rel_linked p x h"
  proof (cases "mFreeNodeHead (que s) = h")
    case False
    then have "lq_rel_cas_step t p x h s = lq_go t (LQ_Releasing p x) s" by (simp add: lq_step_defs)
    moreover have "lq_inv N (lq_go t (LQ_Releasing p x) s) fs" by (rule lq_inv_go [OF inv t]) (simp_all add: pc)
    ultimately show ?thesis by auto
  qed (use lq_inv_rel_cas [OF inv t pc] in blast)
qed

lemma lq_inv_begin:
  assumes "lq_inv N s fs" and "t < N" and "pcs s t = LQ_Idle"
  shows "lq_inv N (lq_go t (LQ_Acquire x) s) fs" and "lq_inv N (lq_go t LQ_Popping s) fs"
  by (rule lq_inv_go [OF assms(1,2)]; simp add: assms(3))+

lemma lq_inv_step:
  assumes inv: "lq_inv N s fs" and lap: "lq_no_lap N s" and rec: "lq_link_recent s" and st: "lq_step dflt N t s s'"
  shows "\<exists>fs'. lq_inv N s' fs'"
  using st
  by cases
     (use lq_inv_begin [OF inv] lq_inv_acquire [OF inv] lq_inv_new [OF inv] lq_inv_push [OF inv] lq_inv_push_prev [OF inv] lq_inv_pop [OF inv]
        lq_inv_pop_tail [OF inv] lq_inv_pop_prev [OF inv rec] lq_inv_pop_check [OF inv lap] lq_inv_fix [OF inv lap] lq_inv_fix_write [OF inv]
        lq_inv_release [OF inv] lap in metis)+

lemma lq_inv_init: "lq_init s \<Longrightarrow> lq_inv N s []"
proof -
  assume i: "lq_init s"
  then obtain n where n: "queue_holds (que s) n 0 [] []" "hist s = [n]" by (auto simp: lq_init_def)
  then have d: "good_addr n" "n \<in> dom (nodes (que s))" "mHead (que s) = MakePointer n 0" "mTail (que s) = MakePointer n 0"
      "GetPointer (mFreeNodeHead (que s)) = 0" "mSize (que s) = 0"
    by (auto simp: queue_holds_def)
  have "lq_words s []" "lq_places N s []" using i n(2) d by (auto simp: lq_words_def lq_word_def lq_tver_def lq_places_def lq_addr_def lq_init_def tag_at_rank)
  moreover have "(\<Sum>t < N. lq_pending (pcs s t)) = 0" using i by (intro sum.neutral) (auto simp: lq_init_def)
  ultimately show "lq_inv N s []"
    using i n(2) d(6) by (auto simp: lq_inv_def lq_init_def lq_nexts_def lq_links_def lq_linked_def lq_values_def lq_tver_def)
qed

lemma lq_inv_reach: "lq_reach dflt N s \<Longrightarrow> \<exists>fs. lq_inv N s fs"
  by (induction rule: lq_reach.induct) (metis lq_inv_init, metis lq_inv_step)

lemma lq_nchain:
  assumes inv: "lq_inv N s fs" and k: "hver s \<le> k" "k < length (hist s)"
  shows "nchain (nodes (que s)) (hist s ! k) (tag_at k) (drop (Suc k) (hist s)) (mTail (que s))"
  using k
proof (induction "length (hist s) - k" arbitrary: k)
  case (Suc j)
  show ?case
  proof (cases "Suc k < length (hist s)")
    case True
    have "lq_addr s (hist s ! k)" "lq_addr s (hist s ! Suc k)" using lq_inv_addr(1) [OF inv] True Suc.prems(2) by blast+
    moreover have "mNext (lq_node s (hist s ! Suc k)) = MakePointer (hist s ! k) (tag_at (Suc k))"
      using lq_inv_parts(3) [OF inv] True Suc.prems(1) by (auto simp: lq_nexts_def)
    moreover have "nchain (nodes (que s)) (hist s ! Suc k) (tag_at (Suc k)) (drop (Suc (Suc k)) (hist s)) (mTail (que s))"
      by (rule Suc.hyps(1)) (use Suc.hyps(2) Suc.prems True in auto)
    ultimately show ?thesis using True by (auto simp: Cons_nth_drop_Suc [symmetric] lq_addr_def lq_node_def)
  next
    case False
    then have "k = lq_tver s" using Suc.prems(2) by (simp add: lq_tver_def)
    then show ?thesis using lq_inv_parts(1) [OF inv] False by (simp add: lq_words_def lq_word_def)
  qed
qed simp

lemma lq_quiescent:
  assumes inv: "lq_inv N s fs" and idle: "\<forall>t < N. pcs s t = LQ_Idle"
  shows "queue_behind (que s) (hist s ! hver s) (tag_at (hver s)) (drop (Suc (hver s)) (hist s)) fs"
proof -
  have w: "hver s < length (hist s)" "mHead (que s) = MakePointer (hist s ! hver s) (tag_at (hver s))"
      "fchain (nodes (que s)) (GetPointer (mFreeNodeHead (que s))) fs"
    using lq_inv_parts(1) [OF inv] by (simp_all add: lq_words_def lq_word_def)
  have "hist s ! hver s # drop (Suc (hver s)) (hist s) @ fs = drop (hver s) (hist s) @ fs" using w(1) by (simp add: Cons_nth_drop_Suc)
  moreover have "distinct (drop (hver s) (hist s) @ fs)" "\<forall>p \<in> set (drop (hver s) (hist s) @ fs). good_addr p \<and> p \<in> dom (nodes (que s))"
    using lq_inv_parts(2) [OF inv] by (auto simp: lq_places_def lq_addr_def dest: in_set_dropD)
  moreover have "(\<Sum>t < N. lq_pending (pcs s t)) = 0" using idle by (intro sum.neutral) auto
  then have "mSize (que s) = of_nat (length (drop (Suc (hver s)) (hist s)))" using lq_inv_parts(9) [OF inv] by (simp add: lq_tver_def)
  ultimately show ?thesis using w lq_nchain [OF inv order_refl w(1)] by (simp only: queue_behind_def tag_at_simps) simp
qed

lemma lq_values_eq: "lq_values s = values_of (que s) (drop (Suc (hver s)) (hist s))"
  by (simp add: lq_values_def values_of_def lq_node_def)

section \<open>Properties of LockFreeQueue with many threads\<close>

text \<open>
  C4. \<open>LockFreeQueue\<close> is linearizable: however the steps of any number of threads interleave, as long as no thread is overtaken by 65535
  updates between its read of a word and its comparison and no \<open>mPrev\<close> at the head is that old or left over from
  the memory of a new node, the pushes in the order of their compare-and-swaps on \<open>mTail\<close>, the pops in the order of theirs on \<open>mHead\<close> and
  the pops that found the queue empty, at their reads of \<open>mTail\<close>, are a legal history of one queue. This holds although \<open>mPrev\<close> is
  written late, to nodes that may have been released and reused. A pop whose compare-and-swap will succeed has read the first element of
  the queue. Every node that was ever allocated is in exactly one place, in the queue, on the free list or in the hands of one
  thread, so that none is lost; and whenever no operation is under way the object is a queue of the sequential
  model that holds exactly the elements of the history, with links that \<open>FixList\<close> repairs.
\<close>

theorem lockfree_queue_linearizable:
  assumes "lq_reach dflt N s"
  shows "\<exists>n k ms fs xs. lq_replay (log s) = Some xs \<and> xs = values_of (que s) ms \<and>
    mHead (que s) = MakePointer n k \<and> nchain (nodes (que s)) n k ms (mTail (que s)) \<and>
    fchain (nodes (que s)) (GetPointer (mFreeNodeHead (que s))) fs \<and> distinct (n # ms @ fs) \<and>
    dom (nodes (que s)) = set (n # ms @ fs) \<union> {p. \<exists>t < N. lq_held (pcs s t) = Some p} \<and>
    (\<forall>t u p. t < N \<and> u < N \<and> lq_held (pcs s t) = Some p \<and> lq_held (pcs s u) = Some p \<longrightarrow> t = u \<and> p \<notin> set (n # ms @ fs)) \<and>
    (\<forall>t h v x. t < N \<and> lq_no_lap N s \<and> pcs s t = LQ_Pop_value h v x \<and> mHead (que s) = h \<longrightarrow> xs \<noteq> [] \<and> x = hd xs) \<and>
    ((\<forall>t < N. pcs s t = LQ_Idle) \<longrightarrow> queue_behind (que s) n k ms fs)"
proof -
  obtain fs where inv: "lq_inv N s fs" using lq_inv_reach [OF assms] by blast
  define n ms where "n = hist s ! hver s" and "ms = drop (Suc (hver s)) (hist s)"
  have w: "hver s < length (hist s)" "mHead (que s) = MakePointer n (tag_at (hver s))" "fchain (nodes (que s)) (GetPointer (mFreeNodeHead (que s))) fs"
    using lq_inv_parts(1) [OF inv] by (simp_all add: lq_words_def lq_word_def n_def)
  have nms: "n # ms @ fs = drop (hver s) (hist s) @ fs" using w(1) by (simp add: Cons_nth_drop_Suc n_def ms_def)
  have places: "distinct (n # ms @ fs)"
      "t < N \<and> u < N \<and> lq_held (pcs s t) = Some p \<and> lq_held (pcs s u) = Some p \<longrightarrow> t = u \<and> p \<notin> set (n # ms @ fs)" for t u p
    using lq_inv_parts(2) [OF inv] unfolding nms lq_places_def by metis+
  have all: "dom (nodes (que s)) = set (n # ms @ fs) \<union> {p. \<exists>t < N. lq_held (pcs s t) = Some p}"
    using lq_inv_parts(2) [OF inv] unfolding nms lq_places_def by (elim conjE)
  have val: "lq_values s \<noteq> [] \<and> x = hd (lq_values s)"
    if t: "t < N" "lq_no_lap N s" "pcs s t = LQ_Pop_value h v x" "mHead (que s) = h" for t h v x
  proof -
    have ok: "lq_saw_head s (seen s t) h" "lq_next_of_head s (seen s t) v" "hver s = seen s t \<longrightarrow> mValue (lq_node s (hist s ! Suc (seen s t))) = x"
      using lq_inv_parts(7) [OF inv t(1)] t(3) by simp_all
    moreover have "seen s t = hver s" using lq_head_unmoved [OF inv t(2,1)] t(3,4) ok(1) by simp
    ultimately show ?thesis by (simp add: lq_values_def lq_next_of_head_def Cons_nth_drop_Suc [symmetric])
  qed
  note chain = lq_nchain [OF inv order_refl w(1), folded n_def ms_def] and quiet = lq_quiescent [OF inv, folded n_def ms_def]
  have hist: "lq_replay (log s) = Some (lq_values s)" "lq_values s = values_of (que s) ms"
    using lq_inv_parts(6) [OF inv] by (simp_all add: lq_values_eq ms_def)
  show ?thesis
    by (rule exI [of _ n], rule exI [of _ "tag_at (hver s)"], rule exI [of _ ms], rule exI [of _ fs], rule exI [of _ "lq_values s"])
       (use hist w(2,3) chain places all val quiet in \<open>intro conjI; blast\<close>)
qed

lemma lq_constructor_starts:
  \<comment> \<open>what the constructor returns is an initial state of the machine\<close>
  assumes "good_addr p" and "nodes q0 = Map.empty"
  shows "\<exists>q. LockFreeQueue_new p raw q0 = Inr q \<and> lq_link_recent
      \<lparr>que = q, pcs = (\<lambda>_. LQ_Idle), hist = [p], hver = 0, fver = 65534, seen = (\<lambda>_. 0), cur = (\<lambda>_. 0), mark = (\<lambda>_. 0), link = Map.empty, log = []\<rparr> \<and>
    lq_reach dflt N \<lparr>que = q, pcs = (\<lambda>_. LQ_Idle), hist = [p], hver = 0, fver = 65534, seen = (\<lambda>_. 0), cur = (\<lambda>_. 0), mark = (\<lambda>_. 0),
      link = Map.empty, log = []\<rparr>"
proof -
  have null: "GetPointer LockFreeQueue_kNullPointer = 0" "GetTag LockFreeQueue_kNullPointer = 0xFFFF"
    by (simp_all add: LockFreeQueue_kNullPointer_def GetPointer_def GetTag_def stone_defs kX64AddressSignBit_def)
  define d where "d = raw\<lparr>mNextFreeNode := 0, mNext := LockFreeQueue_kNullPointer, mPrev := MakePointer p 0xFFFF\<rparr>"
  define q where "q = q0\<lparr>mSize := 0, mFreeNodeHead := LockFreeQueue_kNullPointer, nodes := [p \<mapsto> d], mHead := MakePointer p 0, mTail := MakePointer p 0\<rparr>"
  have "LockFreeQueue_new p raw q0 = Inr q"
    using assms null by (simp add: LockFreeQueue_new_def Acquire_fresh good_addr_def Let_def q_def d_def)
  moreover have "queue_holds q p 0 [] []" using assms null by (simp add: queue_holds_def q_def kInvalidTag_def)
  ultimately show ?thesis
    using null by (intro exI [of _ q])
      (auto intro!: lq_reach.init simp: lq_init_def lq_link_recent_def lq_node_def tag_rank_def kInvalidTag_def q_def d_def GetTag_MakePointer)
qed

definition lq_example :: "nat lq_state" where
  \<comment> \<open>a new queue\<close>
  "lq_example = \<lparr>que = \<lparr>mSize = 0, mHead = MakePointer 0x1000 0, mTail = MakePointer 0x1000 0, mFreeNodeHead = LockFreeQueue_kNullPointer,
       nodes = [0x1000 \<mapsto> \<lparr>mPrev = MakePointer 0x1000 0xFFFF, mNext = LockFreeQueue_kNullPointer, mNextFreeNode = 0, mValue = 0\<rparr>]\<rparr>,
     pcs = (\<lambda>_. LQ_Idle), hist = [0x1000], hver = 0, fver = 65534, seen = (\<lambda>_. 0), cur = (\<lambda>_. 0), mark = (\<lambda>_. 0), link = Map.empty, log = []\<rparr>"

lemma lq_example_facts:
  "good_addr 0x1000" "good_addr 0x2000" "GetPointer LockFreeQueue_kNullPointer = 0" "GetTag LockFreeQueue_kNullPointer = 0xFFFF"
  by (simp_all add: good_addr_def canonical_def atLeastLessThan_nat_numeral bit_numeral_simps LockFreeQueue_kNullPointer_def GetPointer_def
      GetTag_def stone_defs kX64AddressSignBit_def)

lemma lq_example_init: "lq_init lq_example" "lq_link_recent lq_example"
proof -
  have "queue_holds (que lq_example) 0x1000 0 [] []" using lq_example_facts by (simp add: queue_holds_def lq_example_def kInvalidTag_def)
  then show "lq_init lq_example" using lq_example_facts(4) by (auto simp: lq_init_def lq_example_def kInvalidTag_def tag_rank_def)
  show "lq_link_recent lq_example" by (simp add: lq_link_recent_def lq_example_def lq_node_def GetTag_MakePointer)
qed

text \<open>An execution on the new queue: a thread pushes 5 with a node at \<open>0x2000\<close>, whose memory it finds empty, and takes it off again.\<close>

definition lq_at :: "nat lq_pc \<Rightarrow> nat LockFreeQueue \<Rightarrow> u64 list \<Rightarrow> nat \<Rightarrow> nat \<Rightarrow> nat \<Rightarrow> (u64 \<Rightarrow> nat option) \<Rightarrow> nat lq_event list \<Rightarrow> nat lq_state" where
  "lq_at pc q h hv c m l es = \<lparr>que = q, pcs = (\<lambda>_. LQ_Idle)(1 := pc), hist = h, hver = hv, fver = 65534, seen = (\<lambda>_. 0),
     cur = (\<lambda>_. 0)(1 := c), mark = (\<lambda>_. 0)(1 := m), link = l, log = es\<rparr>"

definition lq_queue :: "u64 \<Rightarrow> u64 \<Rightarrow> u64 \<Rightarrow> u64 \<Rightarrow> nat queue_node option \<Rightarrow> nat LockFreeQueue" where
  "lq_queue sz h t prv n = \<lparr>mSize = sz, mHead = h, mTail = t, mFreeNodeHead = LockFreeQueue_kNullPointer,
     nodes = [0x1000 \<mapsto> \<lparr>mPrev = prv, mNext = LockFreeQueue_kNullPointer, mNextFreeNode = 0, mValue = 0\<rparr>](0x2000 := n)\<rparr>"

lemma lq_early:
  \<comment> \<open>before the first 65535 updates no thread can have been overtaken by as many\<close>
  assumes "lq_reach 0 2 (lq_at pc q h hv c m l es)" and "hv < 65535" "length h < 65535" and "lq_link_recent (lq_at pc q h hv c m l es)"
    and "lq_step 0 2 1 (lq_at pc q h hv c m l es) s'"
  shows "lq_reach 0 2 s'"
proof (rule lq_reach.step [OF assms(1) _ assms(4,5)])
  show "lq_no_lap 2 (lq_at pc q h hv c m l es)"
    using assms(2,3) by (auto simp: lq_no_lap_def lq_at_def lq_tver_def less_imp_diff_less)
qed

lemma lq_at_words:
  "GetPointer (MakePointer 0x1000 k) = 0x1000" "GetPointer (MakePointer 0x2000 k) = 0x2000"
  "GetNextTag (MakePointer p 0) = 1" "MakePointer 0x2000 1 \<noteq> MakePointer 0x1000 0" "tag_at 0 = 0" "(0 :: u16) \<noteq> kInvalidTag"
  using lq_example_facts(1,2) addr_ptr.make_tag_neq [of 1 0 "0x2000" "0x1000"]
  by (simp_all add: good_addr_def GetPointer_MakePointer_canonical GetNextTag_eq GetTag_MakePointer tag_next_eq kInvalidTag_def)

lemmas lq_at_simps = lq_at_def lq_queue_def lq_link_recent_def lq_live_def lq_node_def lq_tver_def lq_example_facts lq_at_words
  GetTag_MakePointer fun_upd_idem fun_upd_twist

lemma lq_example_push:
  "lq_reach 0 2 (lq_at LQ_Idle (lq_queue 1 (MakePointer 0x1000 0) (MakePointer 0x2000 1) (MakePointer 0x2000 0)
     (Some \<lparr>mPrev = 0, mNext = MakePointer 0x1000 1, mNextFreeNode = 0, mValue = 5\<rparr>)) [0x1000, 0x2000] 0 0 0 [0x1000 \<mapsto> 0] [Enqueued 5])"
proof -
  let ?w = "MakePointer 0x1000 0" and ?p = "MakePointer 0x1000 0xFFFF" and ?raw = "\<lparr>mPrev = 0, mNext = 0, mNextFreeNode = 0, mValue = 0\<rparr> :: nat queue_node"
  let ?at = "\<lambda>pc n. lq_at pc (lq_queue 0 ?w ?w ?p n) [0x1000] 0 0 0 Map.empty []"
  let ?n = "?raw\<lparr>mValue := 5, mNext := MakePointer 0x1000 1\<rparr>"
  let ?at' = "\<lambda>pc prv l. lq_at pc (lq_queue 0 ?w (MakePointer 0x2000 1) prv (Some ?n)) [0x1000, 0x2000] 0 0 0 l [Enqueued 5]"
  have "?at LQ_Idle None = lq_example" by (simp add: lq_at_simps lq_example_def)
  then have "lq_reach 0 2 (?at LQ_Idle None)" using lq_reach.init [OF lq_example_init(1)] by simp
  then have "lq_reach 0 2 (lq_go 1 (LQ_Acquire 5) (?at LQ_Idle None))" by (rule lq_early) (simp_all add: lq_at_simps lq_step.push_begin)
  then have "lq_reach 0 2 (?at (LQ_Acquire 5) None)" by (simp add: lq_at_simps lq_go_def)
  then have "lq_reach 0 2 (lq_acq_read_step 1 5 (?at (LQ_Acquire 5) None))" by (rule lq_early) (simp_all add: lq_at_simps lq_step.acq_read)
  then have "lq_reach 0 2 (?at (LQ_New 5) None)" by (simp add: lq_at_simps lq_step_defs)
  then have "lq_reach 0 2 (lq_new_step 0x2000 ?raw 1 5 (?at (LQ_New 5) None))" by (rule lq_early) (simp_all add: lq_at_simps lq_step.acq_new)
  then have "lq_reach 0 2 (?at (LQ_Push_value 5 0x2000) (Some ?raw))" by (simp add: lq_at_simps lq_step_defs)
  then have "lq_reach 0 2 (lq_push_value_step 1 5 0x2000 (?at (LQ_Push_value 5 0x2000) (Some ?raw)))"
    by (rule lq_early) (simp_all add: lq_at_simps lq_step.push_value)
  then have "lq_reach 0 2 (?at (LQ_Pushing 5 0x2000) (Some (?raw\<lparr>mValue := 5\<rparr>)))" by (simp add: lq_at_simps lq_step_defs)
  then have "lq_reach 0 2 (lq_push_read_step 1 5 0x2000 (?at (LQ_Pushing 5 0x2000) (Some (?raw\<lparr>mValue := 5\<rparr>))))"
    by (rule lq_early) (simp_all add: lq_at_simps lq_step.push_read)
  then have "lq_reach 0 2 (?at (LQ_Push_read 5 0x2000 ?w) (Some (?raw\<lparr>mValue := 5\<rparr>)))" by (simp add: lq_at_simps lq_step_defs)
  then have "lq_reach 0 2 (lq_push_link_step 1 5 0x2000 ?w (?at (LQ_Push_read 5 0x2000 ?w) (Some (?raw\<lparr>mValue := 5\<rparr>))))"
    by (rule lq_early) (simp_all add: lq_at_simps lq_step.push_link)
  then have "lq_reach 0 2 (?at (LQ_Push_linked 5 0x2000 ?w) (Some ?n))" by (simp add: lq_at_simps lq_step_defs)
  then have "lq_reach 0 2 (lq_push_cas_step 1 5 0x2000 ?w (?at (LQ_Push_linked 5 0x2000 ?w) (Some ?n)))"
    by (rule lq_early) (simp_all add: lq_at_simps lq_step.push_cas)
  then have "lq_reach 0 2 (?at' (LQ_Push_prev 0x2000 ?w) ?p Map.empty)" by (simp add: lq_at_simps lq_step_defs)
  then have "lq_reach 0 2 (lq_push_prev_step 1 0x2000 ?w (?at' (LQ_Push_prev 0x2000 ?w) ?p Map.empty))"
    by (rule lq_early) (simp_all add: lq_at_simps lq_step.push_prev ConvertToNode_def)
  then have "lq_reach 0 2 (?at' LQ_Push_count (MakePointer 0x2000 0) [0x1000 \<mapsto> 0])" by (simp add: lq_at_simps lq_step_defs)
  then have "lq_reach 0 2 (lq_push_count_step 1 (?at' LQ_Push_count (MakePointer 0x2000 0) [0x1000 \<mapsto> 0]))"
    by (rule lq_early) (simp_all add: lq_at_simps lq_step.push_count)
  then show ?thesis by (simp add: lq_at_simps lq_step_defs)
qed

theorem lockfree_queue_linearizable_witness:
  "\<exists>s p. lq_reach (0 :: nat) 2 s \<and> pcs s 1 = LQ_Rel_value p 5 \<and> log s = [Dequeued 5, Enqueued 5] \<and> lq_replay (log s) = Some [] \<and>
     p \<in> dom (nodes (que s))"
proof -
  let ?h = "MakePointer 0x1000 0" and ?w = "MakePointer 0x2000 1" and ?v = "MakePointer 0x2000 0"
  let ?at = "\<lambda>pc c m. lq_at pc (lq_queue 1 ?h ?w ?v (Some \<lparr>mPrev = 0, mNext = MakePointer 0x1000 1, mNextFreeNode = 0, mValue = 5\<rparr>))
    [0x1000, 0x2000] 0 c m [0x1000 \<mapsto> 0] [Enqueued 5]"
  have "lq_reach 0 2 (lq_go 1 LQ_Popping (?at LQ_Idle 0 0))" by (rule lq_early [OF lq_example_push]) (simp_all add: lq_at_simps lq_step.pop_begin)
  then have "lq_reach 0 2 (?at LQ_Popping 0 0)" by (simp add: lq_at_simps lq_go_def)
  then have "lq_reach 0 2 (lq_pop_head_step 1 (?at LQ_Popping 0 0))" by (rule lq_early) (simp_all add: lq_at_simps lq_step.pop_head)
  then have "lq_reach 0 2 (?at (LQ_Pop_head ?h) 0 0)" by (simp add: lq_at_simps lq_step_defs)
  then have "lq_reach 0 2 (lq_pop_tail_step 1 ?h (?at (LQ_Pop_head ?h) 0 0))" by (rule lq_early) (simp_all add: lq_at_simps lq_step.pop_tail)
  then have "lq_reach 0 2 (?at (LQ_Pop_tail ?h ?w) 1 1)" by (simp add: lq_at_simps lq_step_defs)
  then have "lq_reach 0 2 (lq_pop_prev_step 1 ?h ?w (?at (LQ_Pop_tail ?h ?w) 1 1))"
    by (rule lq_early) (simp_all add: lq_at_simps lq_step.pop_prev ConvertToNode_def)
  then have "lq_reach 0 2 (?at (LQ_Pop_prev ?h ?w ?v) 1 1)" by (simp add: lq_at_simps lq_step_defs)
  then have "lq_reach 0 2 (lq_pop_check_step 1 ?h ?w ?v (?at (LQ_Pop_prev ?h ?w ?v) 1 1))"
    by (rule lq_early) (simp_all add: lq_at_simps lq_step.pop_check)
  then have "lq_reach 0 2 (?at (LQ_Pop_take ?h ?v) 1 1)" by (simp add: lq_at_simps lq_step_defs)
  then have "lq_reach 0 2 (lq_pop_value_step 1 ?h ?v (?at (LQ_Pop_take ?h ?v) 1 1))"
    by (rule lq_early) (simp_all add: lq_at_simps lq_step.pop_value ConvertToNode_def)
  then have "lq_reach 0 2 (?at (LQ_Pop_value ?h ?v 5) 1 1)" by (simp add: lq_at_simps lq_step_defs)
  then have "lq_reach 0 2 (lq_pop_cas_step 1 ?h ?v 5 (?at (LQ_Pop_value ?h ?v 5) 1 1))"
    by (rule lq_early) (simp_all add: lq_at_simps lq_step.pop_cas)
  moreover define s where "s = lq_pop_cas_step 1 ?h ?v 5 (?at (LQ_Pop_value ?h ?v 5) 1 1)"
  ultimately have r: "lq_reach 0 2 s" by simp
  have s: "pcs s 1 = LQ_Rel_value 0x1000 5" "log s = [Dequeued 5, Enqueued 5]"
    by (simp_all add: s_def lq_at_simps lq_step_defs)
  obtain n ms fs xs where t: "lq_replay (log s) = Some xs"
      "dom (nodes (que s)) = set (n # ms @ fs) \<union> {p. \<exists>t < 2. lq_held (pcs s t) = Some p}"
    using lockfree_queue_linearizable [OF r] by (elim exE conjE)
  have "\<exists>t < 2. lq_held (pcs s t) = Some 0x1000" by (rule exI [of _ 1]) (use s(1) in simp)
  then have "0x1000 \<in> dom (nodes (que s))" unfolding t(2) by simp
  then show ?thesis using r s(1,2) t(1) by (intro exI [of _ s] exI [of _ "0x1000"]) simp
qed

lemma lq_can_step:
  assumes inv: "lq_inv N s fs" and t: "t < N" and mem: "good_addr fresh" "fresh \<notin> dom (nodes (que s))"
  shows "\<exists>s'. lq_step dflt N t s s'"
proof -
  have head: "lq_live s (GetPointer h)" if "lq_saw_head s n h" for n h
    using that lq_word_ptr(1) [OF inv] lq_addr_live [OF lq_inv_addr(1) [OF inv]] by (simp add: lq_saw_head_def)
  have word: "lq_live s (GetPointer (lq_word s i))" if "i < length (hist s)" for i
    using that lq_word_ptr(1) [OF inv] lq_addr_live [OF lq_inv_addr(1) [OF inv]] by simp
  have nxt: "lq_live s (GetPointer v)" if "lq_next_of_head s n v" for n v
    using that lq_addr_pointer [OF lq_inv_addr(1) [OF inv]] lq_addr_live [OF lq_inv_addr(1) [OF inv]] by (simp add: lq_next_of_head_def)
  have old: "lq_live s p" if "p \<in> set (drop i (hist s))" for p i
    using in_set_dropD [OF that] lq_inv_parts(2) [OF inv] lq_addr_live unfolding lq_places_def by (metis Un_iff set_append)
  have held: "lq_live s p" if "lq_held (pcs s t) = Some p" for p using lq_addr_live [OF lq_inv_addr(3) [OF inv t that]] .
  note steps = lq_step.intros [OF t, unfolded ConvertToNode_def]
  show ?thesis
  proof (cases "pcs s t")
    case (LQ_New x)
    show ?thesis by (rule exI, rule lq_step.acq_new [OF t LQ_New mem])
  qed (use lq_inv_parts(7) [OF inv t] head word nxt old held in \<open>auto intro!: exI intro: steps\<close>)
qed

lemma lq_cas_interference:
  assumes inv: "lq_inv N s fs" and t: "t < N"
  shows "pcs s t = LQ_Push_linked x p w \<Longrightarrow> mTail (que s) \<noteq> w \<Longrightarrow> seen s t < lq_tver s"
    and "pcs s t = LQ_Pop_value w v x \<Longrightarrow> mHead (que s) \<noteq> w \<Longrightarrow> seen s t < hver s"
    and "pcs s t \<in> {LQ_Acq_next x w k, LQ_Rel_linked p x w} \<Longrightarrow> mFreeNodeHead (que s) \<noteq> w \<Longrightarrow> seen s t < fver s"
proof -
  have w: "mHead (que s) = lq_word s (hver s)" "mTail (que s) = lq_word s (lq_tver s)" "hver s < length (hist s)"
    using lq_inv_parts(1) [OF inv] by (simp_all add: lq_words_def)
  note ok = lq_inv_parts(7) [OF inv t]
  show "seen s t < lq_tver s" if pc: "pcs s t = LQ_Push_linked x p w" and ne: "mTail (que s) \<noteq> w"
  proof -
    have "seen s t < length (hist s)" "w = lq_word s (seen s t)" using ok pc by simp_all
    then show ?thesis using ne w(2) by (cases "seen s t = lq_tver s") (auto simp: lq_tver_def)
  qed
  show "seen s t < hver s" if pc: "pcs s t = LQ_Pop_value w v x" and ne: "mHead (que s) \<noteq> w"
    using ok pc ne w(1) by (cases "seen s t = hver s") (auto simp: lq_saw_head_def)
  show "seen s t < fver s" if pc: "pcs s t \<in> {LQ_Acq_next x w k, LQ_Rel_linked p x w}" and ne: "mFreeNodeHead (que s) \<noteq> w"
    using ok pc ne by (cases "seen s t = fver s") (auto simp: lq_saw_def)
qed

text \<open>
  C23. In every reachable state every thread can take its next step, as long as there is memory for a node: no operation goes through a
  null pointer or to an address without a node, although it may hold words that are long out of date. A compare-and-swap fails only when
  another one on the same word succeeded since the thread read it, and \<open>Pop\<close> sees the tag on which it starts over without
  repairing the queue only while another thread is between the compare-and-swap of its \<open>Push\<close> and its store to that \<open>mPrev\<close>.
\<close>

theorem lockfree_queue_progress:
  assumes "lq_reach dflt N s" and "t < N" and "good_addr fresh" and "fresh \<notin> dom (nodes (que s))"
  shows "(\<exists>s'. lq_step dflt N t s s') \<and>
    (\<forall>x p w. pcs s t = LQ_Push_linked x p w \<and> mTail (que s) \<noteq> w \<longrightarrow> seen s t < lq_tver s) \<and>
    (\<forall>w v x. pcs s t = LQ_Pop_value w v x \<and> mHead (que s) \<noteq> w \<longrightarrow> seen s t < hver s) \<and>
    (\<forall>x w k p. pcs s t \<in> {LQ_Acq_next x w k, LQ_Rel_linked p x w} \<and> mFreeNodeHead (que s) \<noteq> w \<longrightarrow> seen s t < fver s) \<and>
    (mHead (que s) \<noteq> mTail (que s) \<and> GetTag (mPrev (lq_node s (ConvertToNode (mHead (que s))))) = kInvalidTag \<longrightarrow>
      (\<exists>u < N. \<exists>p w. pcs s u = LQ_Push_prev p w \<and> ConvertToNode w = ConvertToNode (mHead (que s))))"
proof -
  obtain fs where inv: "lq_inv N s fs" using lq_inv_reach [OF assms(1)] by blast
  have w: "mHead (que s) = lq_word s (hver s)" "mTail (que s) = lq_word s (lq_tver s)" "hver s < length (hist s)"
    using lq_inv_parts(1) [OF inv] by (simp_all add: lq_words_def)
  have p: "GetPointer (mHead (que s)) = hist s ! hver s" using lq_word_ptr(1) [OF inv w(3)] w(1) by simp
  have "\<exists>u < N. \<exists>p w. pcs s u = LQ_Push_prev p w \<and> ConvertToNode w = ConvertToNode (mHead (que s))"
    if "mHead (que s) \<noteq> mTail (que s)" "GetTag (mPrev (lq_node s (ConvertToNode (mHead (que s))))) = kInvalidTag"
  proof -
    have "hver s \<noteq> lq_tver s" using that(1) w by auto
    then have "Suc (hver s) < length (hist s)" using w(3) by (simp add: lq_tver_def)
    then have "lq_awaits_link N s (hver s)" using lq_inv_parts(5) [OF inv] that(2) p by (auto simp: lq_linked_def ConvertToNode_def)
    then obtain u q v where u: "u < N" "pcs s u = LQ_Push_prev q v" "seen s u = hver s" by (auto simp: lq_awaits_link_def)
    then have "v = mHead (que s)" using lq_inv_parts(7) [OF inv u(1)] w(1) by simp
    then show ?thesis using u by blast
  qed
  then show ?thesis using lq_can_step [OF inv assms(2-4)] lq_cas_interference [OF inv assms(2)] by blast
qed

theorem lockfree_queue_progress_witness: "\<exists>s'. lq_step 0 2 1 lq_example s'"
proof -
  have "0x2000 \<notin> dom (nodes (que lq_example))" by (simp add: lq_example_def)
  from lockfree_queue_progress [OF lq_reach.init [OF lq_example_init(1)] _ lq_example_facts(2) this, of 1 2] show ?thesis by simp
qed

end
