(* ===== verification/Stone_Lockfree_Queue_Steps.thy ===== *)
theory Stone_Lockfree_Queue_Steps
  imports Stone_Lockfree_Queue_Threads
begin

text \<open>
  The steps of \<open>Stone_Lockfree_Queue_Threads\<close> and the operations of \<open>Stone_Lockfree_Queue\<close> are the same code: a thread that runs
  undisturbed takes the steps whose composition is the sequential operation. Then two executions with several threads that the code does
  not handle: \<open>Pop\<close> waits for a thread that was stopped in \<open>Push\<close>, and \<open>Pop\<close> follows an \<open>mPrev\<close> that was never written.
\<close>

section \<open>The operations are sequences of steps\<close>

lemma node_at_Inr_iff: "node_at q p = Inr n \<longleftrightarrow> p \<noteq> 0 \<and> nodes q p = Some n"
  by (auto simp: node_at_def split: option.splits)

lemma node_set_Inr_iff: "node_set p f q = Inr q' \<longleftrightarrow> (\<exists>n. p \<noteq> 0 \<and> nodes q p = Some n \<and> q' = q\<lparr>nodes := (nodes q)(p \<mapsto> f n)\<rparr>)"
  by (auto simp: node_set_def node_at_Inr_iff)

lemma lq_liveI: "p \<noteq> 0 \<Longrightarrow> nodes (que s) p = Some n \<Longrightarrow> lq_live s p \<and> lq_node s p = n"
  by (auto simp: lq_live_def lq_node_def)

definition lq_run :: "'a \<Rightarrow> nat \<Rightarrow> nat \<Rightarrow> 'a lq_state \<Rightarrow> 'a lq_pc \<Rightarrow> 'a LockFreeQueue \<Rightarrow> 'a lq_event list \<Rightarrow> bool" where
  \<comment> \<open>the thread alone comes to \<open>pc\<close> with the queue \<open>q\<close> and the history \<open>es\<close>\<close>
  "lq_run dflt N t s pc q es \<longleftrightarrow> (\<exists>s'. (lq_step dflt N t)\<^sup>*\<^sup>* s s' \<and> pcs s' t = pc \<and> que s' = q \<and> log s' = es)"

lemma lq_run_refl: "pcs s t = pc \<Longrightarrow> que s = q \<Longrightarrow> log s = es \<Longrightarrow> lq_run dflt N t s pc q es"
  unfolding lq_run_def by blast

lemma lq_run_step: "lq_step dflt N t s s' \<Longrightarrow> lq_run dflt N t s' pc q es \<Longrightarrow> lq_run dflt N t s pc q es"
  unfolding lq_run_def by (metis converse_rtranclp_into_rtranclp)

lemma lq_run_trans:
  assumes "lq_run dflt N t s pc q es"
    and "\<And>s'. pcs s' t = pc \<Longrightarrow> que s' = q \<Longrightarrow> log s' = es \<Longrightarrow> lq_run dflt N t s' pc' q' es'"
  shows "lq_run dflt N t s pc' q' es'"
proof -
  obtain s1 where s1: "(lq_step dflt N t)\<^sup>*\<^sup>* s s1" "pcs s1 t = pc" "que s1 = q" "log s1 = es" using assms(1) by (auto simp: lq_run_def)
  from assms(2) [OF s1(2-4)] s1(1) show ?thesis unfolding lq_run_def by (metis rtranclp_trans)
qed

lemma lq_fix_run:
  assumes "queue_FixList_loop c h q = Some r" and "r = Inr q'" and "t < N" and "pcs s t = LQ_Fix h c" and "que s = q"
  shows "lq_run dflt N t s LQ_Popping q' (log s)"
  using assms
proof (induction arbitrary: s rule: queue_FixList_loop.raw_induct [rotated, consumes 1, case_names 1])
  case (1 loop c h q r)
  let ?s1 = "lq_fix_check_step t h c s"
  have st1: "lq_step dflt N t s ?s1" using 1(4,5) by (rule lq_step.fix_check)
  show ?case
  proof (cases "h = mHead q \<and> c \<noteq> h")
    case False
    then have "q' = q" using 1(2,3) unfolding if_not_P [OF False] by simp
    then show ?thesis using False 1(6) by (intro lq_run_step [OF st1] lq_run_refl) (auto simp: lq_step_defs)
  next
    case True
    then obtain n q1 where n: "node_at q (ConvertToNode c) = Inr n"
      "node_set (ConvertToNode (mNext n)) (\<lambda>m. m\<lparr>mPrev := MakePointer (ConvertToNode c) (GetPrevTag c)\<rparr>) q = Inr q1"
      "loop (MakePointer (ConvertToNode (mNext n)) (GetPrevTag c)) h q1 = Some r"
      using 1(2,3) by (auto simp: Let_def split: sum.splits)
    have s1: "pcs ?s1 t = LQ_Fix_next h c" "que ?s1 = q" "log ?s1 = log s" using True 1(6) by (auto simp: lq_step_defs)
    define s2 where "s2 = lq_fix_next_step t h c ?s1"
    define s3 where "s3 = lq_fix_write_step t h c (mNext n) s2"
    have l1: "lq_live ?s1 (ConvertToNode c)" "lq_node ?s1 (ConvertToNode c) = n"
      using lq_liveI [of "ConvertToNode c" ?s1 n] n(1) s1(2) by (simp_all add: node_at_Inr_iff)
    have "lq_step dflt N t ?s1 s2" unfolding s2_def by (rule lq_step.fix_next) (use 1(4) s1 l1 in simp_all)
    moreover have s2: "pcs s2 t = LQ_Fix_write h c (mNext n)" "que s2 = q" "log s2 = log s"
      using s1 l1(2) by (simp_all add: s2_def lq_fix_next_step_def lq_go_def Let_def)
    obtain m where m: "ConvertToNode (mNext n) \<noteq> 0" "nodes q (ConvertToNode (mNext n)) = Some m"
      "q1 = q\<lparr>nodes := (nodes q)(ConvertToNode (mNext n) \<mapsto> m\<lparr>mPrev := MakePointer (ConvertToNode c) (GetPrevTag c)\<rparr>)\<rparr>"
      using n(2) by (auto simp: node_set_Inr_iff)
    then have l2: "lq_live s2 (ConvertToNode (mNext n))" "lq_node s2 (ConvertToNode (mNext n)) = m"
      using lq_liveI [of "ConvertToNode (mNext n)" s2 m] s2(2) by simp_all
    have "lq_step dflt N t s2 s3" unfolding s3_def by (rule lq_step.fix_write) (use 1(4) s2 l2 in simp_all)
    moreover have "pcs s3 t = LQ_Fix h (MakePointer (ConvertToNode (mNext n)) (GetPrevTag c))" "que s3 = q1" "log s3 = log s"
      using s2 l2 m(3) by (simp_all add: s3_def lq_fix_write_step_def lq_go_def lq_write_def Let_def)
    then have "lq_run dflt N t s3 LQ_Popping q' (log s)" using 1(1) [OF n(3) 1(3,4)] by metis
    ultimately show ?thesis using lq_run_step st1 by metis
  qed
qed

lemma lq_acquire_run:
  assumes acq: "LockFreeQueue_AcquireNode fresh raw True q = Inr (Some p, q1)" and t: "t < N" and pc: "pcs s t = LQ_Acquire x" and q: "que s = q"
    and mem: "good_addr fresh" "fresh \<notin> dom (nodes q)"
  shows "lq_run dflt N t s (LQ_Push_value x p) q1 (log s)"
proof (cases "ConvertToNode (mFreeNodeHead q) = 0")
  case True
  define s1 where "s1 = lq_acq_read_step t x s"
  have s1: "lq_step dflt N t s s1" unfolding s1_def by (rule lq_step.acq_read [OF t pc])
  have pc1: "pcs s1 t = LQ_New x" "que s1 = q" "log s1 = log s" using True q by (simp_all add: s1_def lq_step_defs)
  have "lq_step dflt N t s1 (lq_new_step fresh raw t x s1)" by (rule lq_step.acq_new [OF t pc1(1) mem(1)]) (use mem(2) pc1(2) in simp)
  moreover have "p = fresh" "q1 = q\<lparr>nodes := (nodes q)(fresh \<mapsto> raw\<lparr>mNextFreeNode := 0\<rparr>)\<rparr>"
    using acq Acquire_fresh [of q fresh raw True] True by (simp_all add: ConvertToNode_def)
  then have "lq_run dflt N t (lq_new_step fresh raw t x s1) (LQ_Push_value x p) q1 (log s)"
    using pc1 by (intro lq_run_refl) (simp_all add: lq_step_defs)
  ultimately show ?thesis using s1 lq_run_step by metis
next
  case False
  let ?h = "mFreeNodeHead q"
  have nz: "GetPointer ?h \<noteq> 0" using False by (simp add: ConvertToNode_def)
  obtain n where n: "nodes q (GetPointer ?h) = Some n"
    using acq nz by (auto simp: LockFreeQueue_AcquireNode_def queue_AcquireNode_loop.simps loop_result_def Let_def ConvertToNode_def node_at_def
        split: option.splits)
  have r: "p = GetPointer ?h" "q1 = q\<lparr>mFreeNodeHead := MakePointer (mNextFreeNode n) (GetNextTag ?h)\<rparr>"
    using acq Acquire_free [OF refl nz n] by simp_all
  define s1 s2 s3 where "s1 = lq_acq_read_step t x s" and "s2 = lq_acq_next_step t x ?h s1" and "s3 = lq_acq_cas_step t x ?h (mNextFreeNode n) s2"
  have "lq_step dflt N t s s1" unfolding s1_def by (rule lq_step.acq_read [OF t pc])
  moreover have pc1: "pcs s1 t = LQ_Acq_read x ?h" "que s1 = q" "log s1 = log s" using False q by (simp_all add: s1_def lq_step_defs)
  moreover have l: "lq_live s1 (GetPointer ?h)" "lq_node s1 (GetPointer ?h) = n" using lq_liveI [OF nz, of s1 n] n pc1(2) by simp_all
  then have "lq_step dflt N t s1 s2" unfolding s2_def by (intro lq_step.acq_next [OF t pc1(1)]) (simp add: ConvertToNode_def)
  moreover have pc2: "pcs s2 t = LQ_Acq_next x ?h (mNextFreeNode n)" "que s2 = q" "log s2 = log s"
    using pc1 l by (simp_all add: s2_def lq_acq_next_step_def lq_go_def ConvertToNode_def)
  moreover have "lq_step dflt N t s2 s3" unfolding s3_def by (rule lq_step.acq_cas [OF t pc2(1)])
  moreover have "lq_run dflt N t s3 (LQ_Push_value x p) q1 (log s)"
    using pc2 r by (intro lq_run_refl) (simp_all add: s3_def lq_step_defs)
  ultimately show ?thesis using lq_run_step by metis
qed

lemma lq_push_cas_run:
  assumes set: "node_set p (\<lambda>n. n\<lparr>mNext := MakePointer (GetPointer (mTail q)) (GetNextTag (mTail q))\<rparr>) q = Inr q1"
    and t: "t < N" and pc: "pcs s t = LQ_Pushing x p" and q: "que s = q"
  shows "lq_run dflt N t s (LQ_Push_prev p (mTail q)) (q1\<lparr>mTail := MakePointer p (GetNextTag (mTail q))\<rparr>) (Enqueued x # log s)"
proof -
  let ?w = "mTail q"
  obtain n where n: "p \<noteq> 0" "nodes q p = Some n" "q1 = q\<lparr>nodes := (nodes q)(p \<mapsto> n\<lparr>mNext := MakePointer (GetPointer ?w) (GetNextTag ?w)\<rparr>)\<rparr>"
    using set by (auto simp: node_set_Inr_iff)
  define s1 s2 s3 where "s1 = lq_push_read_step t x p s" and "s2 = lq_push_link_step t x p ?w s1" and "s3 = lq_push_cas_step t x p ?w s2"
  have "lq_step dflt N t s s1" unfolding s1_def by (rule lq_step.push_read [OF t pc])
  moreover have pc1: "pcs s1 t = LQ_Push_read x p ?w" "que s1 = q" "log s1 = log s" using q by (simp_all add: s1_def lq_step_defs)
  moreover have l: "lq_live s1 p" "lq_node s1 p = n" using lq_liveI [OF n(1), of s1 n] n(2) pc1(2) by simp_all
  then have "lq_step dflt N t s1 s2" unfolding s2_def by (intro lq_step.push_link [OF t pc1(1)])
  moreover have pc2: "pcs s2 t = LQ_Push_linked x p ?w" "que s2 = q1" "log s2 = log s" using pc1 l n(3) by (simp_all add: s2_def lq_step_defs)
  moreover have "lq_step dflt N t s2 s3" unfolding s3_def by (rule lq_step.push_cas [OF t pc2(1)])
  moreover have "lq_run dflt N t s3 (LQ_Push_prev p ?w) (q1\<lparr>mTail := MakePointer p (GetNextTag ?w)\<rparr>) (Enqueued x # log s)"
    using pc2 n(3) by (intro lq_run_refl) (simp_all add: s3_def lq_step_defs)
  ultimately show ?thesis using lq_run_step by metis
qed

lemma lq_push_loop_run:
  assumes push: "loop_result (queue_Push_loop p q) = Inr q'" and t: "t < N" and pc: "pcs s t = LQ_Pushing x p" and q: "que s = q"
  shows "lq_run dflt N t s LQ_Push_count q' (Enqueued x # log s)"
proof -
  let ?w = "mTail q"
  obtain q1 where q1: "node_set p (\<lambda>n. n\<lparr>mNext := MakePointer (GetPointer ?w) (GetNextTag ?w)\<rparr>) q = Inr q1"
      "node_set (ConvertToNode ?w) (\<lambda>n. n\<lparr>mPrev := MakePointer p (GetTag ?w)\<rparr>) (q1\<lparr>mTail := MakePointer p (GetNextTag ?w)\<rparr>) = Inr q'"
    using push by (auto simp: queue_Push_loop.simps loop_result_def Let_def node_set_def node_at_def split: if_splits option.splits)
  show ?thesis
  proof (rule lq_run_trans [OF lq_push_cas_run [OF q1(1) t pc q]])
    fix s3 :: "'a lq_state" assume s3: "pcs s3 t = LQ_Push_prev p ?w" "que s3 = q1\<lparr>mTail := MakePointer p (GetNextTag ?w)\<rparr>" "log s3 = Enqueued x # log s"
    obtain m where m: "ConvertToNode ?w \<noteq> 0" "nodes q1 (ConvertToNode ?w) = Some m"
        "q' = q1\<lparr>mTail := MakePointer p (GetNextTag ?w), nodes := (nodes q1)(ConvertToNode ?w \<mapsto> m\<lparr>mPrev := MakePointer p (GetTag ?w)\<rparr>)\<rparr>"
      using q1(2) by (auto simp: node_set_Inr_iff)
    then have l: "lq_live s3 (ConvertToNode ?w)" "lq_node s3 (ConvertToNode ?w) = m" using lq_liveI [OF m(1), of s3 m] s3(2) by simp_all
    show "lq_run dflt N t s3 LQ_Push_count q' (Enqueued x # log s)"
      by (rule lq_run_step [OF lq_step.push_prev [OF t s3(1) l(1)]], rule lq_run_refl)
         (use s3 l(2) m(3) in \<open>simp_all add: lq_push_prev_step_def lq_go_def lq_write_def Let_def\<close>)
  qed
qed

lemma lq_push_run:
  assumes push: "LockFreeQueue_Push fresh raw x (que s) = Inr (k, q')" and t: "t < N" and pc: "pcs s t = LQ_Idle"
    and mem: "good_addr fresh" "fresh \<notin> dom (nodes (que s))"
  shows "lq_run dflt N t s LQ_Idle q' (Enqueued x # log s)"
proof -
  obtain p q1 q2 q3 where q: "LockFreeQueue_AcquireNode fresh raw True (que s) = Inr (Some p, q1)" "node_set p (\<lambda>n. n\<lparr>mValue := x\<rparr>) q1 = Inr q2"
      "loop_result (queue_Push_loop p q2) = Inr q3" "q' = q3\<lparr>mSize := snd (AtomicIncrement (mSize q3))\<rparr>"
    using push by (auto simp: LockFreeQueue_Push_def split: option.splits prod.splits)
  have "lq_run dflt N t (lq_go t (LQ_Acquire x) s) (LQ_Push_value x p) q1 (log s)"
    using lq_acquire_run [OF q(1) t _ _ mem, of "lq_go t (LQ_Acquire x) s" x dflt] by (simp add: lq_go_def)
  then have "lq_run dflt N t s (LQ_Push_value x p) q1 (log s)" using lq_run_step lq_step.push_begin [OF t pc] by metis
  then show ?thesis
  proof (rule lq_run_trans)
    fix s1 :: "'a lq_state" assume s1: "pcs s1 t = LQ_Push_value x p" "que s1 = q1" "log s1 = log s"
    obtain n where n: "p \<noteq> 0" "nodes q1 p = Some n" "q2 = q1\<lparr>nodes := (nodes q1)(p \<mapsto> n\<lparr>mValue := x\<rparr>)\<rparr>" using q(2) by (auto simp: node_set_Inr_iff)
    define s2 where "s2 = lq_push_value_step t x p s1"
    have "lq_live s1 p" "lq_node s1 p = n" using lq_liveI [OF n(1), of s1 n] n(2) s1(2) by simp_all
    then have s2: "lq_step dflt N t s1 s2" "pcs s2 t = LQ_Pushing x p" "que s2 = q2" "log s2 = log s"
      using lq_step.push_value [OF t s1(1)] s1 n(3) by (simp_all add: s2_def lq_push_value_step_def lq_go_def lq_write_def)
    have "lq_run dflt N t s2 LQ_Push_count q3 (Enqueued x # log s)" using lq_push_loop_run [OF q(3) t s2(2,3)] s2(4) by simp
    then have "lq_run dflt N t s1 LQ_Push_count q3 (Enqueued x # log s)" using lq_run_step s2(1) by metis
    then show "lq_run dflt N t s1 LQ_Idle q' (Enqueued x # log s)"
    proof (rule lq_run_trans)
      fix s3 :: "'a lq_state" assume s3: "pcs s3 t = LQ_Push_count" "que s3 = q3" "log s3 = Enqueued x # log s"
      show "lq_run dflt N t s3 LQ_Idle q' (Enqueued x # log s)"
        by (rule lq_run_step [OF lq_step.push_count [OF t s3(1)]], rule lq_run_refl) (use s3 q(4) in \<open>simp_all add: lq_step_defs\<close>)
    qed
  qed
qed

lemma lq_release_run:
  assumes rel: "LockFreeQueue_ReleaseNode dflt p q = Inr q'" and t: "t < N" and pc: "pcs s t = LQ_Rel_value p x" and q: "que s = q"
  shows "lq_run dflt N t s (LQ_Pop_count x) q' (log s)"
proof -
  let ?h = "mFreeNodeHead q"
  obtain n where n: "p \<noteq> 0" "nodes q p = Some n" using rel by (auto simp: LockFreeQueue_ReleaseNode_def node_set_Inr_iff)
  define s1 s2 s3 s4 s5 where "s1 = lq_rel_value_step dflt t p x s" and "s2 = lq_rel_read_step t p x s1" and "s3 = lq_rel_prev_step t p x ?h s2"
    and "s4 = lq_rel_link_step t p x ?h s3" and "s5 = lq_rel_cas_step t p x ?h s4"
  have q': "q' = q\<lparr>nodes := (nodes q)(p \<mapsto> n\<lparr>mValue := dflt, mPrev := MakePointer 0 kInvalidTag, mNextFreeNode := GetPointer ?h\<rparr>),
      mFreeNodeHead := MakePointer p (GetNextTag ?h)\<rparr>"
    using rel Release_eq [OF n] by simp
  have l: "lq_live s p" "lq_node s p = n" using lq_liveI [OF n(1), of s n] n(2) q by simp_all
  have "lq_step dflt N t s s1" unfolding s1_def using l(1) by (rule lq_step.rel_value [OF t pc])
  moreover have p1: "pcs s1 t = LQ_Releasing p x" "lq_live s1 p" using n(1) by (simp_all add: s1_def lq_step_defs lq_live_def)
  moreover have "lq_step dflt N t s1 s2" unfolding s2_def by (rule lq_step.rel_read [OF t p1(1)])
  moreover have p2: "pcs s2 t = LQ_Rel_read p x ?h" "lq_live s2 p" using n(1) q by (simp_all add: s2_def s1_def lq_step_defs lq_live_def)
  moreover have "lq_step dflt N t s2 s3" unfolding s3_def by (rule lq_step.rel_prev [OF t p2])
  moreover have p3: "pcs s3 t = LQ_Rel_prev p x ?h" "lq_live s3 p" using n(1) by (simp_all add: s3_def lq_step_defs lq_live_def)
  moreover have "lq_step dflt N t s3 s4" unfolding s4_def by (rule lq_step.rel_link [OF t p3])
  moreover have p4: "pcs s4 t = LQ_Rel_linked p x ?h" by (simp add: s4_def lq_step_defs)
  moreover have "lq_step dflt N t s4 s5" unfolding s5_def by (rule lq_step.rel_cas [OF t p4])
  moreover have "lq_run dflt N t s5 (LQ_Pop_count x) q' (log s)"
    using q n l(2) q' by (intro lq_run_refl) (simp_all add: s5_def s4_def s3_def s2_def s1_def lq_step_defs lq_node_def)
  ultimately show ?thesis using lq_run_step by metis
qed

lemma lq_pop_start_run:
  \<comment> \<open>the reads at the start of the loop of \<open>Pop\<close>\<close>
  assumes t: "t < N" and pc: "pcs s t = LQ_Popping" and n: "ConvertToNode (mHead (que s)) \<noteq> 0" "nodes (que s) (ConvertToNode (mHead (que s))) = Some n"
  shows "\<exists>s'. (lq_step dflt N t)\<^sup>*\<^sup>* s s' \<and> pcs s' t = LQ_Pop_prev (mHead (que s)) (mTail (que s)) (mPrev n) \<and> que s' = que s \<and> log s' = log s \<and>
    mark s' t = length (log s)"
proof -
  let ?h = "mHead (que s)" and ?w = "mTail (que s)"
  define s1 s2 s3 where "s1 = lq_pop_head_step t s" and "s2 = lq_pop_tail_step t ?h s1" and "s3 = lq_pop_prev_step t ?h ?w s2"
  have "lq_step dflt N t s s1" unfolding s1_def by (rule lq_step.pop_head [OF t pc])
  moreover have p1: "pcs s1 t = LQ_Pop_head ?h" "que s1 = que s" "log s1 = log s" by (simp_all add: s1_def lq_step_defs)
  moreover have "lq_step dflt N t s1 s2" unfolding s2_def by (rule lq_step.pop_tail [OF t p1(1)])
  moreover have p2: "pcs s2 t = LQ_Pop_tail ?h ?w" "que s2 = que s" "log s2 = log s" "mark s2 t = length (log s)"
    using p1 by (simp_all add: s2_def lq_step_defs)
  moreover have l: "lq_live s2 (ConvertToNode ?h)" "lq_node s2 (ConvertToNode ?h) = n" using lq_liveI [OF n(1), of s2 n] n(2) p2(2) by simp_all
  moreover have "lq_step dflt N t s2 s3" unfolding s3_def by (rule lq_step.pop_prev [OF t p2(1) l(1)])
  moreover have "pcs s3 t = LQ_Pop_prev ?h ?w (mPrev n)" "que s3 = que s" "log s3 = log s" "mark s3 t = length (log s)"
    using p2 l(2) by (simp_all add: s3_def lq_pop_prev_step_def lq_go_def)
  moreover have "(lq_step dflt N t)\<^sup>*\<^sup>* s s3" using rtranclp_chain [of "lq_step dflt N t" s "[s1, s2, s3]"] calculation by simp
  ultimately show ?thesis by metis
qed

lemma lq_pop_take_run:
  \<comment> \<open>the end of \<open>Pop\<close> once all tests are passed\<close>
  assumes t: "t < N" and pc: "pcs s t = LQ_Pop_take (mHead q) v" and q: "que s = q" and m: "node_at q (ConvertToNode v) = Inr m"
    and rel: "LockFreeQueue_ReleaseNode dflt (ConvertToNode (mHead q)) (q\<lparr>mHead := MakePointer (ConvertToNode v) (GetNextTag (mHead q))\<rparr>) = Inr q2"
  shows "lq_run dflt N t s LQ_Idle (q2\<lparr>mSize := snd (AtomicDecrement (mSize q2))\<rparr>) (Dequeued (mValue m) # log s)"
proof -
  let ?h = "mHead q" and ?x = "mValue m"
  define s1 s2 where "s1 = lq_pop_value_step t ?h v s" and "s2 = lq_pop_cas_step t ?h v ?x s1"
  have l: "lq_live s (ConvertToNode v)" "lq_node s (ConvertToNode v) = m"
    using lq_liveI [of "ConvertToNode v" s m] m q by (simp_all add: node_at_Inr_iff)
  have "lq_step dflt N t s s1" unfolding s1_def by (rule lq_step.pop_value [OF t pc l(1)])
  moreover have p1: "pcs s1 t = LQ_Pop_value ?h v ?x" "que s1 = q" "log s1 = log s"
    using q l(2) by (simp_all add: s1_def lq_pop_value_step_def lq_go_def Let_def)
  moreover have "lq_step dflt N t s1 s2" unfolding s2_def by (rule lq_step.pop_cas [OF t p1(1)])
  moreover have p2: "pcs s2 t = LQ_Rel_value (ConvertToNode ?h) ?x" "que s2 = q\<lparr>mHead := MakePointer (ConvertToNode v) (GetNextTag ?h)\<rparr>"
      "log s2 = Dequeued ?x # log s"
    using p1 by (simp_all add: s2_def lq_pop_cas_step_def lq_go_def Let_def)
  moreover have "lq_run dflt N t s2 (LQ_Pop_count ?x) q2 (Dequeued ?x # log s)" using lq_release_run [OF rel t p2(1,2)] p2(3) by simp
  ultimately have "lq_run dflt N t s (LQ_Pop_count ?x) q2 (Dequeued ?x # log s)" using lq_run_step by metis
  then show ?thesis
  proof (rule lq_run_trans)
    fix s3 :: "'a lq_state" assume s3: "pcs s3 t = LQ_Pop_count ?x" "que s3 = q2" "log s3 = Dequeued ?x # log s"
    show "lq_run dflt N t s3 LQ_Idle (q2\<lparr>mSize := snd (AtomicDecrement (mSize q2))\<rparr>) (Dequeued ?x # log s)"
      by (rule lq_run_step [OF lq_step.pop_count [OF t s3(1)]], rule lq_run_refl) (use s3 in \<open>simp_all add: lq_step_defs\<close>)
  qed
qed

definition lq_pop_event :: "'a option \<Rightarrow> 'a lq_event" where
  "lq_pop_event r = (case r of None \<Rightarrow> Queue_empty | Some x \<Rightarrow> Dequeued x)"

lemma lq_run_prefix: "(lq_step dflt N t)\<^sup>*\<^sup>* s s' \<Longrightarrow> lq_run dflt N t s' pc q es \<Longrightarrow> lq_run dflt N t s pc q es"
  unfolding lq_run_def by (metis rtranclp_trans)

lemma lq_pop_run:
  assumes "queue_Pop_loop dflt q = Some r" and "r = Inr (res, q')" and "t < N" and "pcs s t = LQ_Popping" and "que s = q"
  shows "lq_run dflt N t s LQ_Idle q' (lq_pop_event res # log s)"
  using assms
proof (induction arbitrary: s rule: queue_Pop_loop.raw_induct [rotated, consumes 1, case_names 1])
  case (1 loop dflt q r)
  let ?h = "mHead q" and ?w = "mTail q"
  obtain n where n: "ConvertToNode ?h \<noteq> 0" "nodes q (ConvertToNode ?h) = Some n" "node_at q (ConvertToNode ?h) = Inr n"
    using 1(2,3) by (auto simp: Let_def node_at_Inr_iff split: sum.splits)
  let ?v = "mPrev n"
  obtain s3 where s3: "(lq_step dflt N t)\<^sup>*\<^sup>* s s3" "pcs s3 t = LQ_Pop_prev ?h ?w ?v" "que s3 = q" "log s3 = log s" "mark s3 t = length (log s)"
    using lq_pop_start_run [OF 1(4,5), of n dflt] n(1,2) 1(6) by auto
  define s4 where "s4 = lq_pop_check_step t ?h ?w ?v s3"
  have "lq_step dflt N t s3 s4" unfolding s4_def by (rule lq_step.pop_check [OF 1(4) s3(2)])
  with s3(1) have st: "(lq_step dflt N t)\<^sup>*\<^sup>* s s4" by (rule rtranclp.rtrancl_into_rtrancl)
  note body = 1(2) [unfolded 1(3) Let_def n(3) sum.case]
  show ?case
  proof (rule lq_run_prefix [OF st])
    consider (empty) "?w = ?h" | (wait) "?w \<noteq> ?h" "GetTag ?v = kInvalidTag" | (mend) "?w \<noteq> ?h" "GetTag ?v \<noteq> kInvalidTag" "GetTag ?v \<noteq> GetTag ?h"
      | (take) "?w \<noteq> ?h" "GetTag ?v = GetTag ?h" "GetTag ?v \<noteq> kInvalidTag" by blast
    then show "lq_run dflt N t s4 LQ_Idle q' (lq_pop_event res # log s)"
    proof cases
      case empty
      then have "res = None" "q' = q" using body by simp_all
      then show ?thesis
        using s3 empty by (intro lq_run_refl) (simp_all add: s4_def lq_pop_check_step_def lq_return_false_def lq_go_def lq_insert_empty_def lq_pop_event_def)
    next
      case wait
      then have "loop dflt q = Some r" using body 1(3) by simp
      moreover have "pcs s4 t = LQ_Popping" "que s4 = q" "log s4 = log s"
        using s3 wait by (simp_all add: s4_def lq_pop_check_step_def lq_go_def)
      ultimately show ?thesis using 1(1) [OF _ 1(3,4), of dflt q s4] by simp
    next
      case mend
      obtain q1 where q1: "LockFreeQueue_FixList ?w ?h q = Inr q1" "loop dflt q1 = Some r"
        using body mend 1(3) by (auto split: sum.splits)
      then have "queue_FixList_loop ?w ?h q = Some (Inr q1)"
        by (auto simp: LockFreeQueue_FixList_def loop_result_def split: option.splits)
      moreover have s4: "pcs s4 t = LQ_Fix ?h ?w" "que s4 = q" "log s4 = log s"
        using s3 mend by (auto simp: s4_def lq_pop_check_step_def lq_go_def)
      ultimately have "lq_run dflt N t s4 LQ_Popping q1 (log s)" using lq_fix_run [OF _ refl 1(4)] by metis
      then show ?thesis
      proof (rule lq_run_trans)
        fix s5 :: "'a lq_state" assume "pcs s5 t = LQ_Popping" "que s5 = q1" "log s5 = log s"
        then show "lq_run dflt N t s5 LQ_Idle q' (lq_pop_event res # log s)" using 1(1) [OF q1(2) 1(3,4)] by metis
      qed
    next
      case take
      obtain m q2 where m: "node_at q (ConvertToNode ?v) = Inr m" "res = Some (mValue m)"
          "LockFreeQueue_ReleaseNode dflt (ConvertToNode ?h) (q\<lparr>mHead := MakePointer (ConvertToNode ?v) (GetNextTag ?h)\<rparr>) = Inr q2"
          "q' = q2\<lparr>mSize := snd (AtomicDecrement (mSize q2))\<rparr>"
        using body take by (auto split: sum.splits)
      moreover have "pcs s4 t = LQ_Pop_take ?h ?v" "que s4 = q" "log s4 = log s"
        using s3 take by (auto simp: s4_def lq_pop_check_step_def lq_go_def)
      ultimately show ?thesis using lq_pop_take_run [OF 1(4), of s4 q ?v m dflt q2] by (simp add: lq_pop_event_def)
    qed
  qed
qed

text \<open>
  C24. The steps are those of the code: in any state, a thread that runs undisturbed from the beginning to the end of an operation
  changes the object exactly as \<open>LockFreeQueue::Push\<close> and \<open>LockFreeQueue::Pop\<close> do when they are executed as a whole,
  \<open>FixList\<close> included, whenever these return.
\<close>

theorem lockfree_queue_operations_are_steps:
  assumes "t < N" and "pcs s t = LQ_Idle"
  shows "(LockFreeQueue_Push fresh raw x (que s) = Inr (k, q') \<and> good_addr fresh \<and> fresh \<notin> dom (nodes (que s)) \<longrightarrow>
      (\<exists>s'. (lq_step dflt N t)\<^sup>*\<^sup>* s s' \<and> pcs s' t = LQ_Idle \<and> que s' = q' \<and> log s' = Enqueued x # log s)) \<and>
    (LockFreeQueue_Pop dflt (que s) = Inr (r, q') \<longrightarrow>
      (\<exists>s'. (lq_step dflt N t)\<^sup>*\<^sup>* s s' \<and> pcs s' t = LQ_Idle \<and> que s' = q' \<and>
        log s' = (case r of None \<Rightarrow> Queue_empty | Some y \<Rightarrow> Dequeued y) # log s))"
proof -
  have "lq_run dflt N t s LQ_Idle q' (Enqueued x # log s)"
    if "LockFreeQueue_Push fresh raw x (que s) = Inr (k, q')" "good_addr fresh" "fresh \<notin> dom (nodes (que s))"
    using lq_push_run [OF that(1) assms that(2,3)] .
  moreover have "lq_run dflt N t s LQ_Idle q' (lq_pop_event r # log s)" if "LockFreeQueue_Pop dflt (que s) = Inr (r, q')"
  proof -
    have "queue_Pop_loop dflt (que s) = Some (Inr (r, q'))"
      using that by (auto simp: LockFreeQueue_Pop_def loop_result_def split: option.splits)
    then have "lq_run dflt N t (lq_go t LQ_Popping s) LQ_Idle q' (lq_pop_event r # log (lq_go t LQ_Popping s))"
      by (rule lq_pop_run) (simp_all add: lq_go_def assms(1))
    then have "lq_run dflt N t (lq_go t LQ_Popping s) LQ_Idle q' (lq_pop_event r # log s)" by (simp add: lq_go_def)
    then show ?thesis using lq_run_step lq_step.pop_begin [OF assms] by metis
  qed
  ultimately show ?thesis unfolding lq_run_def lq_pop_event_def by blast
qed

theorem lockfree_queue_operations_are_steps_witness:
  "\<exists>s'. (lq_step 0 2 1)\<^sup>*\<^sup>* lq_example s' \<and> que s' = que lq_example \<and> log s' = [Queue_empty]"
proof -
  have "queue_holds (que lq_example) 0x1000 0 [] []" using lq_example_facts by (simp add: queue_holds_def lq_example_def kInvalidTag_def)
  then have "LockFreeQueue_Pop 0 (que lq_example) = Inr (None, que lq_example)" by (rule pop_holds_empty)
  moreover have "pcs lq_example 1 = LQ_Idle" "log lq_example = []" by (simp_all add: lq_example_def)
  ultimately show ?thesis using lockfree_queue_operations_are_steps [of 1 2 lq_example] by fastforce
qed

section \<open>Pop waits for a thread that was stopped in Push\<close>

lemma lq_pop_waits_step:
  assumes st: "lq_step dflt N t s1 s2" and same: "que s1 = que s" "log s1 = log s" and ne: "mHead (que s) \<noteq> mTail (que s)"
    and inv: "GetTag (mPrev (lq_node s (ConvertToNode (mHead (que s))))) = kInvalidTag"
    and pc: "pcs s1 t \<in> {LQ_Popping, LQ_Pop_head (mHead (que s)), LQ_Pop_tail (mHead (que s)) (mTail (que s)),
      LQ_Pop_prev (mHead (que s)) (mTail (que s)) (mPrev (lq_node s (ConvertToNode (mHead (que s)))))}"
  shows "que s2 = que s \<and> log s2 = log s \<and> pcs s2 t \<in> {LQ_Popping, LQ_Pop_head (mHead (que s)), LQ_Pop_tail (mHead (que s)) (mTail (que s)),
      LQ_Pop_prev (mHead (que s)) (mTail (que s)) (mPrev (lq_node s (ConvertToNode (mHead (que s)))))}"
proof -
  have n: "lq_node s1 = lq_node s" using same(1) by (simp add: lq_node_def fun_eq_iff)
  show ?thesis
    using st
  proof cases
    case pop_head
    then show ?thesis using pc same by (auto simp: lq_pop_head_step_def lq_see_def lq_go_def)
  next
    case (pop_tail h)
    then show ?thesis using pc same by (auto simp: lq_pop_tail_step_def lq_go_def)
  next
    case (pop_prev h w)
    then show ?thesis using pc same n by (auto simp: lq_pop_prev_step_def lq_go_def)
  next
    case (pop_check h w v)
    then show ?thesis using pc same n inv ne by (auto simp: lq_pop_check_step_def lq_go_def)
  qed (use pc in auto)
qed

text \<open>
  C26. \<open>Pop\<close> is not lock-free: when the queue is not empty and the \<open>mPrev\<close> of its head has the tag that \<open>ReleaseNode\<close> writes, which
  is so while a thread is between the compare-and-swap of its \<open>Push\<close> and its next store, a thread in \<open>Pop\<close> never returns on its own, however
  many steps it takes, and changes nothing.
\<close>

theorem lockfree_queue_pop_waits_for_push:
  assumes "pcs s t = LQ_Popping" and "mHead (que s) \<noteq> mTail (que s)"
    and "GetTag (mPrev (lq_node s (ConvertToNode (mHead (que s))))) = kInvalidTag" and "(lq_step dflt N t)\<^sup>*\<^sup>* s s'"
  shows "que s' = que s \<and> log s' = log s \<and> pcs s' t \<noteq> LQ_Idle"
proof -
  let ?P = "\<lambda>s'. que s' = que s \<and> log s' = log s \<and> pcs s' t \<in> {LQ_Popping, LQ_Pop_head (mHead (que s)), LQ_Pop_tail (mHead (que s)) (mTail (que s)),
      LQ_Pop_prev (mHead (que s)) (mTail (que s)) (mPrev (lq_node s (ConvertToNode (mHead (que s)))))}"
  have "?P s'" using assms(4)
  proof (induction rule: rtranclp_induct)
    case (step s1 s2)
    then show ?case using lq_pop_waits_step [OF step.hyps(2) _ _ assms(2,3)] by blast
  qed (use assms(1) in simp)
  then show ?thesis by auto
qed

section \<open>A link that was never written\<close>

lemma lq_step_others: "lq_step dflt N t s s' \<Longrightarrow> u \<noteq> t \<Longrightarrow> pcs s' u = pcs s u"
  by (erule lq_step.cases) (auto simp: lq_step_defs split: if_splits prod.splits)

lemma lq_steps_others: "(lq_step dflt N t)\<^sup>*\<^sup>* s s' \<Longrightarrow> u \<noteq> t \<Longrightarrow> pcs s' u = pcs s u"
  by (induction rule: rtranclp_induct) (auto simp: lq_step_others)

definition lq_any_step :: "'a \<Rightarrow> nat \<Rightarrow> 'a lq_state \<Rightarrow> 'a lq_state \<Rightarrow> bool" where
  "lq_any_step dflt N s s' \<longleftrightarrow> (\<exists>t. lq_step dflt N t s s')"

lemma lq_any_steps: "(lq_step dflt N t)\<^sup>*\<^sup>* s s' \<Longrightarrow> (lq_any_step dflt N)\<^sup>*\<^sup>* s s'"
  by (erule rtranclp_mono [THEN predicate2D, rotated]) (auto simp: lq_any_step_def)

lemma lq_run_any:
  assumes "lq_run dflt N t s pc q es"
  obtains s' where "(lq_any_step dflt N)\<^sup>*\<^sup>* s s'" and "pcs s' t = pc" and "que s' = q" and "\<And>u. u \<noteq> t \<Longrightarrow> pcs s' u = pcs s u"
  using assms lq_any_steps lq_steps_others unfolding lq_run_def by metis

lemma lq_example_tags:
  "GetNextTag (MakePointer p 0) = 1" "GetNextTag (MakePointer p 1) = 2" "GetNextTag LockFreeQueue_kNullPointer = 0"
  by (simp_all add: GetNextTag_eq GetTag_MakePointer tag_next_eq kInvalidTag_def lq_example_facts)

lemma lq_example_ptrs: "GetPointer (MakePointer 0x1000 k) = 0x1000" "GetPointer (MakePointer 0x2000 k) = 0x2000" "GetPointer (MakePointer 0 k) = 0"
  using lq_example_facts(1,2) by (simp_all add: good_addr_def GetPointer_MakePointer_canonical)

definition lq_example_queue :: "nat queue_node \<Rightarrow> nat LockFreeQueue" where
  \<comment> \<open>the new queue after \<open>Push(5)\<close> with a node at \<open>0x2000\<close>, whose storage contained \<open>raw\<close>, and \<open>Pop\<close>\<close>
  "lq_example_queue raw = \<lparr>mSize = 0, mHead = MakePointer 0x2000 1, mTail = MakePointer 0x2000 1, mFreeNodeHead = MakePointer 0x1000 0,
     nodes = [0x1000 \<mapsto> \<lparr>mPrev = MakePointer 0 kInvalidTag, mNext = LockFreeQueue_kNullPointer, mNextFreeNode = 0, mValue = 0\<rparr>,
       0x2000 \<mapsto> raw\<lparr>mNextFreeNode := 0, mValue := 5, mNext := MakePointer 0x1000 1\<rparr>]\<rparr>"

lemma lq_example_push_pop:
  "\<exists>q. LockFreeQueue_Push 0x2000 raw 5 (que lq_example) = Inr (1, q) \<and> LockFreeQueue_Pop 0 q = Inr (Some 5, lq_example_queue raw)"
proof -
  define q where "q = \<lparr>mSize = 1, mHead = MakePointer 0x1000 0, mTail = MakePointer 0x2000 1, mFreeNodeHead = LockFreeQueue_kNullPointer,
     nodes = [0x1000 \<mapsto> \<lparr>mPrev = MakePointer 0x2000 0, mNext = LockFreeQueue_kNullPointer, mNextFreeNode = 0, mValue = 0\<rparr>,
       0x2000 \<mapsto> raw\<lparr>mNextFreeNode := 0, mValue := 5, mNext := MakePointer 0x1000 1\<rparr>]\<rparr>"
  have "LockFreeQueue_Push 0x2000 raw 5 (que lq_example) = Inr (1, q)"
    by (simp add: LockFreeQueue_Push_def Acquire_fresh lq_example_def lq_example_facts Push_loop_seq lq_example_ptrs lq_example_tags
        GetTag_MakePointer q_def fun_upd_twist)
  moreover have "MakePointer 0x2000 1 \<noteq> MakePointer 0x1000 0" by (rule addr_ptr.make_tag_neq) simp
  then have "LockFreeQueue_Pop 0 q = Inr (Some 5, lq_example_queue raw)"
    by (simp add: LockFreeQueue_Pop_def queue_Pop_loop.simps loop_result_def Let_def q_def ConvertToNode_def lq_example_ptrs lq_example_tags
        GetTag_MakePointer kInvalidTag_def Release_eq lq_example_facts lq_example_queue_def fun_upd_twist)
  ultimately show ?thesis by blast
qed

lemma lq_example_half_push:
  \<comment> \<open>then thread 0 is stopped in \<open>Push(6)\<close> after its compare-and-swap\<close>
  assumes pc: "pcs s 0 = LQ_Idle" and q: "que s = lq_example_queue raw"
  obtains s' where "(lq_any_step 0 2)\<^sup>*\<^sup>* s s'" and "pcs s' 1 = pcs s 1" and "mHead (que s') = MakePointer 0x2000 1"
    and "mTail (que s') = MakePointer 0x1000 2" and "nodes (que s') 0x2000 = Some (raw\<lparr>mNextFreeNode := 0, mValue := 5, mNext := MakePointer 0x1000 1\<rparr>)"
    and "dom (nodes (que s')) = {0x1000, 0x2000}" and "pcs s' 0 = LQ_Push_prev 0x1000 (MakePointer 0x2000 1)"
proof -
  let ?q = "lq_example_queue raw"
  obtain d where d: "nodes ?q 0x1000 = Some d" "mNextFreeNode d = 0" by (simp add: lq_example_queue_def)
  define q1 q2 q3 where "q1 = ?q\<lparr>mFreeNodeHead := MakePointer 0 1\<rparr>" and "q2 = q1\<lparr>nodes := (nodes q1)(0x1000 \<mapsto> d\<lparr>mValue := 6\<rparr>)\<rparr>"
    and "q3 = q2\<lparr>nodes := (nodes q2)(0x1000 \<mapsto> d\<lparr>mValue := 6, mNext := MakePointer 0x2000 2\<rparr>)\<rparr>"
  have "LockFreeQueue_AcquireNode 0x3000 raw True ?q = Inr (Some 0x1000, q1)"
    using Acquire_free [of ?q "0x1000" d "0x3000" raw True] d by (simp add: lq_example_queue_def lq_example_ptrs lq_example_tags q1_def)
  moreover have "good_addr 0x3000" by (simp add: good_addr_def canonical_def atLeastLessThan_nat_numeral bit_numeral_simps)
  moreover have "0x3000 \<notin> dom (nodes ?q)" by (simp add: lq_example_queue_def)
  ultimately have "lq_run 0 2 0 (lq_go 0 (LQ_Acquire 6) s) (LQ_Push_value 6 0x1000) q1 (log s)"
    using lq_acquire_run [of "0x3000" raw ?q "0x1000" q1 0 2 "lq_go 0 (LQ_Acquire 6) s" 6 0] q by (simp add: lq_go_def)
  then have run1: "lq_run 0 2 0 s (LQ_Push_value 6 0x1000) q1 (log s)" using lq_run_step lq_step.push_begin [of 0 2 s] pc by force
  have run2: "lq_run 0 2 0 s1 (LQ_Pushing 6 0x1000) q2 (log s)" if s1: "pcs s1 0 = LQ_Push_value 6 0x1000" "que s1 = q1" "log s1 = log s" for s1
  proof -
    have l: "lq_live s1 0x1000" "lq_node s1 0x1000 = d" using lq_liveI [of "0x1000" s1 d] s1(2) d(1) by (simp_all add: q1_def)
    show ?thesis
      by (rule lq_run_step [OF lq_step.push_value [OF _ s1(1) l(1)]], simp, rule lq_run_refl)
         (use s1 l(2) in \<open>simp_all add: lq_push_value_step_def lq_go_def lq_write_def q2_def\<close>)
  qed
  have tail: "mTail q2 = MakePointer 0x2000 1" by (simp add: q2_def q1_def lq_example_queue_def)
  then have "node_set 0x1000 (\<lambda>n. n\<lparr>mNext := MakePointer (GetPointer (mTail q2)) (GetNextTag (mTail q2))\<rparr>) q2 = Inr q3"
    by (simp add: lq_example_ptrs lq_example_tags q2_def q3_def)
  then have run3: "lq_run 0 2 0 s2 (LQ_Push_prev 0x1000 (MakePointer 0x2000 1)) (q3\<lparr>mTail := MakePointer 0x1000 2\<rparr>) (Enqueued 6 # log s)"
    if s2: "pcs s2 0 = LQ_Pushing 6 0x1000" "que s2 = q2" "log s2 = log s" for s2
    using lq_push_cas_run [of "0x1000" q2 q3 0 2 s2 6 0] s2 by (simp add: tail lq_example_tags)
  have "lq_run 0 2 0 s (LQ_Push_prev 0x1000 (MakePointer 0x2000 1)) (q3\<lparr>mTail := MakePointer 0x1000 2\<rparr>) (Enqueued 6 # log s)"
    by (rule lq_run_trans [OF lq_run_trans [OF run1 run2] run3])
  from lq_run_any [OF this] obtain s' where s': "(lq_any_step 0 2)\<^sup>*\<^sup>* s s'" "pcs s' 0 = LQ_Push_prev 0x1000 (MakePointer 0x2000 1)"
      "que s' = q3\<lparr>mTail := MakePointer 0x1000 2\<rparr>" "pcs s' 1 = pcs s 1" by (metis zero_neq_one)
  then show thesis by (intro that [of s']) (auto simp: q3_def q2_def q1_def lq_example_queue_def)
qed

lemma lq_example_stopped:
  \<comment> \<open>a reachable state in which the node at \<open>0x2000\<close> is the dummy node and thread 0 has not yet written its \<open>mPrev\<close>\<close>
  obtains s where "(lq_any_step 0 2)\<^sup>*\<^sup>* lq_example s" and "pcs s 1 = LQ_Idle" and "mHead (que s) = MakePointer 0x2000 1"
    and "mTail (que s) = MakePointer 0x1000 2" and "nodes (que s) 0x2000 = Some (raw\<lparr>mNextFreeNode := 0, mValue := 5, mNext := MakePointer 0x1000 1\<rparr>)"
    and "dom (nodes (que s)) = {0x1000, 0x2000}"
proof -
  obtain q where q: "LockFreeQueue_Push 0x2000 raw 5 (que lq_example) = Inr (1, q)" "LockFreeQueue_Pop 0 q = Inr (Some 5, lq_example_queue raw)"
    using lq_example_push_pop by blast
  have idle: "pcs lq_example u = LQ_Idle" "0x2000 \<notin> dom (nodes (que lq_example))" for u by (simp_all add: lq_example_def)
  obtain s1 where s1: "(lq_any_step 0 2)\<^sup>*\<^sup>* lq_example s1" "pcs s1 0 = LQ_Idle" "que s1 = q" "pcs s1 1 = LQ_Idle"
    using lq_run_any [OF lq_push_run [OF q(1) _ idle(1) lq_example_facts(2) idle(2), of 0 2 0]] idle(1) by (metis zero_less_numeral zero_neq_one)
  have "queue_Pop_loop 0 (que (lq_go 0 LQ_Popping s1)) = Some (Inr (Some 5, lq_example_queue raw))"
    using q(2) s1(3) by (auto simp: LockFreeQueue_Pop_def loop_result_def lq_go_def split: option.splits)
  from lq_pop_run [OF this refl _ _ refl, of 0 2] have "lq_run 0 2 0 (lq_go 0 LQ_Popping s1) LQ_Idle (lq_example_queue raw) (Dequeued 5 # log s1)"
    by (simp add: lq_go_def lq_pop_event_def)
  then have "lq_run 0 2 0 s1 LQ_Idle (lq_example_queue raw) (Dequeued 5 # log s1)" using lq_run_step lq_step.pop_begin [of 0 2 s1] s1(2) by force
  from lq_run_any [OF this] obtain s2 where s2: "(lq_any_step 0 2)\<^sup>*\<^sup>* s1 s2" "pcs s2 0 = LQ_Idle" "que s2 = lq_example_queue raw" "pcs s2 1 = LQ_Idle"
    using s1(4) by (metis zero_neq_one)
  obtain s3 where s3: "(lq_any_step 0 2)\<^sup>*\<^sup>* s2 s3" "pcs s3 1 = LQ_Idle" "mHead (que s3) = MakePointer 0x2000 1" "mTail (que s3) = MakePointer 0x1000 2"
      "nodes (que s3) 0x2000 = Some (raw\<lparr>mNextFreeNode := 0, mValue := 5, mNext := MakePointer 0x1000 1\<rparr>)" "dom (nodes (que s3)) = {0x1000, 0x2000}"
    using lq_example_half_push [OF s2(2,3)] s2(4) by metis
  then have "(lq_any_step 0 2)\<^sup>*\<^sup>* lq_example s3" using s1(1) s2(1) by (metis rtranclp_trans)
  then show thesis using s3 by (intro that [of s3])
qed

theorem lockfree_queue_pop_waits_for_push_witness:
  "\<exists>s. (lq_any_step 0 2)\<^sup>*\<^sup>* lq_example s \<and> pcs s 1 = LQ_Popping \<and> \<not> (\<exists>s'. (lq_step 0 2 1)\<^sup>*\<^sup>* s s' \<and> pcs s' 1 = LQ_Idle)"
proof -
  obtain s where s: "(lq_any_step 0 2)\<^sup>*\<^sup>* lq_example s" "pcs s 1 = LQ_Idle" "mHead (que s) = MakePointer 0x2000 1" "mTail (que s) = MakePointer 0x1000 2"
      "nodes (que s) 0x2000 = Some \<lparr>mPrev = MakePointer 0 kInvalidTag, mNext = MakePointer 0x1000 1, mNextFreeNode = 0, mValue = 5\<rparr>"
    using lq_example_stopped [of "\<lparr>mPrev = MakePointer 0 kInvalidTag, mNext = 0, mNextFreeNode = 0, mValue = 0\<rparr>"] by auto
  let ?s = "lq_go 1 LQ_Popping s"
  have "lq_step 0 2 1 s ?s" by (rule lq_step.pop_begin) (use s(2) in simp_all)
  then have "lq_any_step 0 2 s ?s" unfolding lq_any_step_def by blast
  with s(1) have "(lq_any_step 0 2)\<^sup>*\<^sup>* lq_example ?s" by (rule rtranclp.rtrancl_into_rtrancl)
  moreover have "pcs ?s 1 = LQ_Popping" by (simp add: lq_go_def)
  moreover have "mHead (que ?s) \<noteq> mTail (que ?s)" using s(3,4) addr_ptr.make_tag_neq [of 1 2 "0x2000" "0x1000"] by (simp add: lq_go_def)
  moreover have "GetTag (mPrev (lq_node ?s (ConvertToNode (mHead (que ?s))))) = kInvalidTag"
    using s(3,5) by (simp add: ConvertToNode_def lq_example_ptrs GetTag_MakePointer lq_node_def)
  ultimately show ?thesis using lockfree_queue_pop_waits_for_push [of ?s 1 0 2] by metis
qed

text \<open>
  C25. The assumption that \<open>lockfree_queue_linearizable\<close> makes on the memory of new nodes is needed: \<open>new Node\<close> leaves \<open>mPrev\<close> as
  it finds it, and if this happens to carry the tag of the head when the node has become the dummy node, \<open>Pop\<close> takes it for a link. Here one thread
  pushes, pops and is stopped in its second \<open>Push\<close>; the other thread's \<open>Pop\<close> is then about to read through whatever pointer the memory of the first
  node contained, and if there is no node at that address, in particular when it is null, there is no such step.
\<close>

theorem lockfree_queue_uninitialised_link:
  fixes raw :: "nat queue_node"
  assumes "GetTag (mPrev raw) = 1"
  shows "\<exists>s. (lq_any_step 0 2)\<^sup>*\<^sup>* lq_example s \<and> pcs s 1 = LQ_Pop_take (mHead (que s)) (mPrev raw) \<and>
    (ConvertToNode (mPrev raw) \<notin> {0x1000, 0x2000} \<longrightarrow> \<not> (\<exists>s'. lq_step 0 2 1 s s'))"
proof -
  obtain s3 where s3: "(lq_any_step 0 2)\<^sup>*\<^sup>* lq_example s3" "pcs s3 1 = LQ_Idle" "mHead (que s3) = MakePointer 0x2000 1" "mTail (que s3) = MakePointer 0x1000 2"
      "nodes (que s3) 0x2000 = Some (raw\<lparr>mNextFreeNode := 0, mValue := 5, mNext := MakePointer 0x1000 1\<rparr>)" "dom (nodes (que s3)) = {0x1000, 0x2000}"
    using lq_example_stopped [of raw] by metis
  have ptr: "ConvertToNode (MakePointer 0x2000 1) = 0x2000" by (simp add: ConvertToNode_def lq_example_ptrs)
  let ?s4 = "lq_go 1 LQ_Popping s3"
  have st4: "lq_step 0 2 1 s3 ?s4" by (rule lq_step.pop_begin) (use s3(2) in simp_all)
  obtain s5 where s5: "(lq_step 0 2 1)\<^sup>*\<^sup>* ?s4 s5" "pcs s5 1 = LQ_Pop_prev (MakePointer 0x2000 1) (MakePointer 0x1000 2) (mPrev raw)" "que s5 = que s3"
    using lq_pop_start_run [of 1 2 ?s4 _ 0] s3(3-5) ptr by (auto simp: lq_go_def)
  define s6 where "s6 = lq_pop_check_step 1 (MakePointer 0x2000 1) (MakePointer 0x1000 2) (mPrev raw) s5"
  have "lq_step 0 2 1 s5 s6" unfolding s6_def by (rule lq_step.pop_check [OF _ s5(2)]) simp
  then have "(lq_step 0 2 1)\<^sup>*\<^sup>* s3 s6" using st4 s5(1) by (meson converse_rtranclp_into_rtranclp rtranclp.rtrancl_into_rtrancl)
  then have reach: "(lq_any_step 0 2)\<^sup>*\<^sup>* lq_example s6" using s3(1) lq_any_steps by (metis rtranclp_trans)
  have "MakePointer 0x1000 2 \<noteq> MakePointer 0x2000 1" by (rule addr_ptr.make_tag_neq) simp
  then have s6: "pcs s6 1 = LQ_Pop_take (mHead (que s6)) (mPrev raw)" "que s6 = que s3"
    using s5 s3(3) assms by (simp_all add: s6_def lq_pop_check_step_def lq_go_def GetTag_MakePointer kInvalidTag_def)
  moreover have "\<not> lq_step 0 2 1 s6 s'" if "ConvertToNode (mPrev raw) \<notin> {0x1000, 0x2000}" for s'
    using that s6 s3(6) by (auto elim!: lq_step.cases simp: lq_live_def)
  ultimately show ?thesis using reach by blast
qed

theorem lockfree_queue_uninitialised_link_witness:
  "\<exists>s. (lq_any_step 0 2)\<^sup>*\<^sup>* lq_example s \<and> pcs s 1 = LQ_Pop_take (mHead (que s)) (MakePointer 0 1) \<and> \<not> (\<exists>s'. lq_step 0 2 1 s s')"
  using lockfree_queue_uninitialised_link [of "\<lparr>mPrev = MakePointer 0 1, mNext = 0, mNextFreeNode = 0, mValue = 0\<rparr>"]
  by (simp add: GetTag_MakePointer ConvertToNode_def lq_example_ptrs)

end
