(* ===== verification/Stone_Free_List.thy ===== *)
theory Stone_Free_List
  imports Stone_Atomic Stone_Tagged_Pointer Stone_Containers
begin

text \<open>
  \<^verbatim>\<open>threading/lockfree/free_list.h\<close>: the intrusive lock-free stack \<open>FreeList\<close> as one thread executes its operations.
  An object of type \<open>T\<close> is its address and its member \<open>M\<close>, a \<open>LinkNode\<close>, is \<open>off\<close> bytes further; \<open>links\<close> is the
  memory of these link nodes. An access to a link node that does not exist is an error value.
\<close>

section \<open>The class\<close>

record FreeList =
  mHead :: u64
  mSize :: u64
  links :: "u64 \<Rightarrow> u64 option"

definition FreeList_new :: "(u64 \<Rightarrow> u64 option) \<Rightarrow> FreeList" where
  "FreeList_new mem = \<lparr>mHead = 0, mSize = 0, links = mem\<rparr>"

definition link_set :: "u64 \<Rightarrow> u64 \<Rightarrow> FreeList \<Rightarrow> FreeList result" where
  "link_set p v s = (if links s p = None then Inl Null_dereference else Inr (s\<lparr>links := (links s)(p \<mapsto> v)\<rparr>))"

definition link_get :: "FreeList \<Rightarrow> u64 \<Rightarrow> u64 result" where
  "link_get s p = (case links s p of None \<Rightarrow> Inl Null_dereference | Some v \<Rightarrow> Inr v)"

partial_function (option) FreeList_Push_loop :: "u64 \<Rightarrow> u64 \<Rightarrow> FreeList \<Rightarrow> FreeList result option" where
  "FreeList_Push_loop off elem s =
     (let head = mHead s;
          newhead = MakePointer elem (GetTag head + 1);
          node = GetPointer head
      in case link_set (elem + off) (node + off) s of
        Inl e \<Rightarrow> Some (Inl e)
      | Inr s1 \<Rightarrow>
          (let (ok, v) = AtomicCompareExchange (mHead s1) newhead head;
               s2 = s1\<lparr>mHead := v\<rparr>
           in if ok then Some (Inr s2) else FreeList_Push_loop off elem s2))"

definition FreeList_Push :: "u64 \<Rightarrow> u64 \<Rightarrow> FreeList \<Rightarrow> (bool \<times> FreeList) result" where
  "FreeList_Push off elem s =
     bind_result (loop_result (FreeList_Push_loop off elem s)) (\<lambda>s1.
       Inr (True, s1\<lparr>mSize := snd (AtomicIncrement (mSize s1))\<rparr>))"

partial_function (option) FreeList_Pop_loop :: "u64 \<Rightarrow> FreeList \<Rightarrow> (u64 option \<times> FreeList) result option" where
  "FreeList_Pop_loop off s =
     (let head = mHead s in
      if GetPointer head = 0 then Some (Inr (None, s))
      else
        (let node = GetPointer head in
         case link_get s (node + off) of
           Inl e \<Rightarrow> Some (Inl e)
         | Inr next \<Rightarrow>
             (let newhead = MakePointer (next - off) (GetTag head + 1);
                  (ok, v) = AtomicCompareExchange (mHead s) newhead head;
                  s1 = s\<lparr>mHead := v\<rparr>
              in if ok then Some (Inr (Some node, s1)) else FreeList_Pop_loop off s1)))"

definition FreeList_Pop :: "u64 \<Rightarrow> FreeList \<Rightarrow> (u64 option \<times> FreeList) result" where
  \<comment> \<open>\<open>Some x\<close> is the result \<open>true\<close> with \<open>*elem = x\<close>\<close>
  "FreeList_Pop off s =
     bind_result (loop_result (FreeList_Pop_loop off s)) (\<lambda>(r, s1).
       case r of
         None \<Rightarrow> Inr (None, s1)
       | Some x \<Rightarrow> Inr (Some x, s1\<lparr>mSize := snd (AtomicDecrement (mSize s1))\<rparr>))"

definition FreeList_Size :: "FreeList \<Rightarrow> u64" where
  "FreeList_Size s = AtomicGet (mSize s)"

definition FreeList_Empty :: "FreeList \<Rightarrow> bool" where
  "FreeList_Empty s \<longleftrightarrow> FreeList_Size s = 0"

section \<open>The objects on the list\<close>

primrec link_chain :: "(u64 \<Rightarrow> u64 option) \<Rightarrow> u64 \<Rightarrow> u64 \<Rightarrow> u64 list \<Rightarrow> bool" where
  "link_chain m off p [] \<longleftrightarrow> p = 0"
| "link_chain m off p (x # xs) \<longleftrightarrow> p = x \<and> good_addr x \<and> (\<exists>n. m (x + off) = Some (n + off) \<and> link_chain m off n xs)"

definition free_list_rep :: "u64 \<Rightarrow> FreeList \<Rightarrow> u64 list \<Rightarrow> bool" where
  "free_list_rep off s xs \<longleftrightarrow> link_chain (links s) off (GetPointer (mHead s)) xs \<and> distinct xs \<and> mSize s = of_nat (length xs)"

definition free_list_addable :: "u64 \<Rightarrow> FreeList \<Rightarrow> u64 \<Rightarrow> bool" where
  \<comment> \<open>an existing object that is not on the list\<close>
  "free_list_addable off s x \<longleftrightarrow> good_addr x \<and> links s (x + off) \<noteq> None \<and> (\<exists>xs. free_list_rep off s xs \<and> x \<notin> set xs)"

lemma link_chain_unique: "link_chain m off p xs \<Longrightarrow> link_chain m off p ys \<Longrightarrow> xs = ys"
proof (induction xs arbitrary: p ys)
  case Nil
  then show ?case by (cases ys) (auto simp: good_addr_def)
next
  case (Cons x xs)
  then show ?case by (cases ys) (auto simp: good_addr_def)
qed

lemma free_list_rep_unique: "free_list_rep off s xs \<Longrightarrow> free_list_rep off s ys \<Longrightarrow> xs = ys"
  using link_chain_unique by (auto simp: free_list_rep_def)

lemma link_chain_upd: "x \<notin> set xs \<Longrightarrow> link_chain (m(x + off \<mapsto> v)) off p xs = link_chain m off p xs"
  by (induction xs arbitrary: p) auto

lemma link_chain_head:
  "link_chain m off p xs \<Longrightarrow> GetPointer (MakePointer p t) = p"
  by (cases xs) (auto simp: good_addr_def GetPointer_MakePointer_canonical)

lemma Push_result:
  assumes "free_list_rep off s xs" and "free_list_addable off s x"
  shows "\<exists>s'. FreeList_Push off x s = Inr (True, s') \<and> free_list_rep off s' (x # xs) \<and>
    (\<forall>y. free_list_addable off s y \<and> y \<noteq> x \<longrightarrow> free_list_addable off s' y)"
proof -
  have x: "good_addr x" "links s (x + off) \<noteq> None" "x \<notin> set xs"
    using assms free_list_rep_unique by (auto simp: free_list_addable_def)
  let ?s = "s\<lparr>links := (links s)(x + off \<mapsto> GetPointer (mHead s) + off), mHead := MakePointer x (GetTag (mHead s) + 1),
    mSize := mSize s + 1\<rparr>"
  have "FreeList_Push off x s = Inr (True, ?s)"
    using x(2) by (subst FreeList_Push_def, subst FreeList_Push_loop.simps) (simp add: link_set_def Let_def loop_result_def)
  moreover have rep: "free_list_rep off ?s (x # xs)"
    using assms(1) x by (simp add: free_list_rep_def link_chain_upd good_addr_def GetPointer_MakePointer_canonical)
  moreover have "free_list_addable off ?s y" if "free_list_addable off s y \<and> y \<noteq> x" for y
  proof -
    have "y \<notin> set xs" using that assms(1) free_list_rep_unique by (auto simp: free_list_addable_def)
    then show ?thesis using that rep unfolding free_list_addable_def by (auto intro: exI [of _ "x # xs"])
  qed
  ultimately show ?thesis by blast
qed

lemma Pop_result:
  assumes "free_list_rep off s (x # xs)"
  shows "\<exists>s'. FreeList_Pop off s = Inr (Some x, s') \<and> free_list_rep off s' xs"
proof -
  obtain n where n: "links s (x + off) = Some (n + off)" "link_chain (links s) off n xs" "GetPointer (mHead s) = x" "x \<noteq> 0"
    using assms by (auto simp: free_list_rep_def good_addr_def)
  let ?s = "s\<lparr>mHead := MakePointer n (GetTag (mHead s) + 1), mSize := mSize s - 1\<rparr>"
  have "FreeList_Pop off s = Inr (Some x, ?s)"
    using n by (subst FreeList_Pop_def, subst FreeList_Pop_loop.simps) (simp add: link_get_def Let_def loop_result_def)
  moreover have "free_list_rep off ?s xs"
    using assms n(2) link_chain_head [OF n(2)] by (simp add: free_list_rep_def)
  ultimately show ?thesis by blast
qed

lemma Pop_none: "free_list_rep off s [] \<Longrightarrow> FreeList_Pop off s = Inr (None, s)"
  by (subst FreeList_Pop_def, subst FreeList_Pop_loop.simps) (simp add: free_list_rep_def loop_result_def)

section \<open>FreeList as a stack\<close>

definition free_list_push :: "u64 \<Rightarrow> u64 \<Rightarrow> FreeList \<Rightarrow> FreeList result" where
  "free_list_push off x s = bind_result (FreeList_Push off x s) (\<lambda>(_, s'). Inr s')"

definition free_list_pop :: "u64 \<Rightarrow> FreeList \<Rightarrow> (u64 \<times> FreeList) result" where
  "free_list_pop off s = bind_result (FreeList_Pop off s) (\<lambda>(r, s').
     case r of Some x \<Rightarrow> Inr (x, s') | None \<Rightarrow> Inl Out_of_range)"

interpretation free_list: lifo_container
    "free_list_rep off" "free_list_addable off" "(=)" "\<lambda>_. True" "free_list_pop off" "free_list_push off"
  for off
proof
  show "\<exists>s'. free_list_pop off s = Inr (x, s') \<and> free_list_rep off s' xs" if "free_list_rep off s (x # xs)" for s x xs
    using Pop_result [OF that] by (auto simp: free_list_pop_def)
  show "\<exists>s'. free_list_push off x s = Inr s' \<and> free_list_rep off s' (x # xs) \<and>
      (\<forall>y. free_list_addable off s y \<and> x \<noteq> y \<longrightarrow> free_list_addable off s' y)"
    if "free_list_rep off s xs" "free_list_addable off s x" for s xs x
    using Push_result [OF that] by (auto simp: free_list_push_def)
qed simp

lemma free_list_new_rep: "free_list_rep off (FreeList_new mem) []"
proof -
  have "GetPointer 0 = 0"
    by (simp add: GetPointer_def TaggedPointer_set_mTag_def)
  then show ?thesis by (simp add: free_list_rep_def FreeList_new_def)
qed

end
