(* ===== verification/Stone_Free_List_Threads.thy ===== *)
theory Stone_Free_List_Threads
  imports Stone_Free_List
begin

text \<open>
  \<open>FreeList\<close> used by many threads at once. Every access of \<open>Push\<close> and \<open>Pop\<close> to shared memory is one step of a thread: the
  read of \<open>mHead\<close>, the write or read of \<open>next\<close>, the compare-and-swap, the update of \<open>mSize\<close>. A thread pushes only an
  object it owns, and owns what it popped. Three components record what happened and influence nothing: the number of
  successful compare-and-swaps (\<open>version\<close>), its value when a thread read \<open>mHead\<close> (\<open>seen\<close>), and the completed
  operations in the order in which they took effect (\<open>history\<close>).
\<close>

section \<open>The machine\<close>

datatype fl_pc =
    FL_Idle
  | FL_Pushing u64           \<comment> \<open>at the start of the loop of \<open>Push\<close>\<close>
  | FL_Push_read u64 u64     \<comment> \<open>\<open>elem\<close> and the \<open>head\<close> that was read\<close>
  | FL_Push_linked u64 u64
  | FL_Push_count
  | FL_Popping
  | FL_Pop_read u64          \<comment> \<open>the \<open>head\<close> that was read\<close>
  | FL_Pop_next u64 u64      \<comment> \<open>and the \<open>next\<close> of its object\<close>
  | FL_Pop_count

datatype fl_event = Ev_push u64 | Ev_pop u64 | Ev_empty

record fl_state =
  head :: u64
  count :: u64
  mem :: "u64 \<Rightarrow> u64 option"
  pcs :: "nat \<Rightarrow> fl_pc"
  owner :: "u64 \<Rightarrow> nat option"
  version :: nat
  seen :: "nat \<Rightarrow> nat"
  history :: "fl_event list"

definition push_read_step :: "nat \<Rightarrow> u64 \<Rightarrow> fl_state \<Rightarrow> fl_state" where
  "push_read_step t x s = s\<lparr>pcs := (pcs s)(t := FL_Push_read x (head s)), seen := (seen s)(t := version s)\<rparr>"

definition push_link_step :: "u64 \<Rightarrow> nat \<Rightarrow> u64 \<Rightarrow> u64 \<Rightarrow> fl_state \<Rightarrow> fl_state" where
  "push_link_step off t x h s = s\<lparr>mem := (mem s)(x + off \<mapsto> GetPointer h + off), pcs := (pcs s)(t := FL_Push_linked x h)\<rparr>"

definition push_cas_step :: "nat \<Rightarrow> u64 \<Rightarrow> u64 \<Rightarrow> fl_state \<Rightarrow> fl_state" where
  "push_cas_step t x h s =
     (let (ok, v) = AtomicCompareExchange (head s) (MakePointer x (GetTag h + 1)) h
      in if ok then s\<lparr>head := v, pcs := (pcs s)(t := FL_Push_count), owner := (owner s)(x := None),
                      version := version s + 1, history := Ev_push x # history s\<rparr>
         else s\<lparr>head := v, pcs := (pcs s)(t := FL_Pushing x)\<rparr>)"

definition push_count_step :: "nat \<Rightarrow> fl_state \<Rightarrow> fl_state" where
  "push_count_step t s = s\<lparr>count := snd (AtomicIncrement (count s)), pcs := (pcs s)(t := FL_Idle)\<rparr>"

definition pop_read_step :: "nat \<Rightarrow> fl_state \<Rightarrow> fl_state" where
  "pop_read_step t s =
     (if GetPointer (head s) = 0 then s\<lparr>pcs := (pcs s)(t := FL_Idle), history := Ev_empty # history s\<rparr>
      else s\<lparr>pcs := (pcs s)(t := FL_Pop_read (head s)), seen := (seen s)(t := version s)\<rparr>)"

definition pop_next_step :: "nat \<Rightarrow> u64 \<Rightarrow> u64 \<Rightarrow> fl_state \<Rightarrow> fl_state" where
  "pop_next_step t h n s = s\<lparr>pcs := (pcs s)(t := FL_Pop_next h n)\<rparr>"

definition pop_cas_step :: "u64 \<Rightarrow> nat \<Rightarrow> u64 \<Rightarrow> u64 \<Rightarrow> fl_state \<Rightarrow> fl_state" where
  "pop_cas_step off t h n s =
     (let (ok, v) = AtomicCompareExchange (head s) (MakePointer (n - off) (GetTag h + 1)) h
      in if ok then s\<lparr>head := v, pcs := (pcs s)(t := FL_Pop_count), owner := (owner s)(GetPointer h \<mapsto> t),
                      version := version s + 1, history := Ev_pop (GetPointer h) # history s\<rparr>
         else s\<lparr>head := v, pcs := (pcs s)(t := FL_Popping)\<rparr>)"

definition pop_count_step :: "nat \<Rightarrow> fl_state \<Rightarrow> fl_state" where
  "pop_count_step t s = s\<lparr>count := snd (AtomicDecrement (count s)), pcs := (pcs s)(t := FL_Idle)\<rparr>"

inductive fl_step :: "u64 \<Rightarrow> nat \<Rightarrow> nat \<Rightarrow> fl_state \<Rightarrow> fl_state \<Rightarrow> bool" for off N t where
  push_begin: "t < N \<Longrightarrow> pcs s t = FL_Idle \<Longrightarrow> owner s x = Some t \<Longrightarrow> fl_step off N t s (s\<lparr>pcs := (pcs s)(t := FL_Pushing x)\<rparr>)"
| push_read: "t < N \<Longrightarrow> pcs s t = FL_Pushing x \<Longrightarrow> fl_step off N t s (push_read_step t x s)"
| push_link: "t < N \<Longrightarrow> pcs s t = FL_Push_read x h \<Longrightarrow> mem s (x + off) \<noteq> None \<Longrightarrow> fl_step off N t s (push_link_step off t x h s)"
| push_cas: "t < N \<Longrightarrow> pcs s t = FL_Push_linked x h \<Longrightarrow> fl_step off N t s (push_cas_step t x h s)"
| push_count: "t < N \<Longrightarrow> pcs s t = FL_Push_count \<Longrightarrow> fl_step off N t s (push_count_step t s)"
| pop_begin: "t < N \<Longrightarrow> pcs s t = FL_Idle \<Longrightarrow> fl_step off N t s (s\<lparr>pcs := (pcs s)(t := FL_Popping)\<rparr>)"
| pop_read: "t < N \<Longrightarrow> pcs s t = FL_Popping \<Longrightarrow> fl_step off N t s (pop_read_step t s)"
| pop_next: "t < N \<Longrightarrow> pcs s t = FL_Pop_read h \<Longrightarrow> mem s (GetPointer h + off) = Some n \<Longrightarrow> fl_step off N t s (pop_next_step t h n s)"
| pop_cas: "t < N \<Longrightarrow> pcs s t = FL_Pop_next h n \<Longrightarrow> fl_step off N t s (pop_cas_step off t h n s)"
| pop_count: "t < N \<Longrightarrow> pcs s t = FL_Pop_count \<Longrightarrow> fl_step off N t s (pop_count_step t s)"

definition fl_init :: "u64 \<Rightarrow> fl_state \<Rightarrow> bool" where
  \<comment> \<open>a new list; every object is owned by at most one thread and has a link node\<close>
  "fl_init off s \<longleftrightarrow> head s = 0 \<and> count s = 0 \<and> (\<forall>t. pcs s t = FL_Idle) \<and> version s = 0 \<and> history s = [] \<and>
     (\<forall>x t. owner s x = Some t \<longrightarrow> good_addr x \<and> mem s (x + off) \<noteq> None)"

fun reading :: "fl_pc \<Rightarrow> bool" where
  "reading (FL_Push_read x h) = True"
| "reading (FL_Push_linked x h) = True"
| "reading (FL_Pop_read h) = True"
| "reading (FL_Pop_next h n) = True"
| "reading pc = False"

definition no_lap :: "nat \<Rightarrow> fl_state \<Rightarrow> bool" where
  \<comment> \<open>no thread is overtaken by all \<open>2^16\<close> tags between its read of \<open>mHead\<close> and its compare-and-swap\<close>
  "no_lap N s \<longleftrightarrow> (\<forall>t < N. reading (pcs s t) \<longrightarrow> version s - seen s t < 2 ^ 16)"

inductive fl_reach :: "u64 \<Rightarrow> nat \<Rightarrow> fl_state \<Rightarrow> bool" for off N where
  init: "fl_init off s \<Longrightarrow> fl_reach off N s"
| step: "fl_reach off N s \<Longrightarrow> no_lap N s \<Longrightarrow> fl_step off N t s s' \<Longrightarrow> fl_reach off N s'"

section \<open>The abstract stack and the invariant\<close>

fun replay :: "fl_event list \<Rightarrow> u64 list option" where
  \<comment> \<open>the operations, the latest first, executed one after the other on a stack\<close>
  "replay [] = Some []"
| "replay (Ev_push x # es) = (case replay es of Some st \<Rightarrow> if x \<in> set st then None else Some (x # st) | None \<Rightarrow> None)"
| "replay (Ev_pop x # es) = (case replay es of Some (y # st) \<Rightarrow> if x = y then Some st else None | _ \<Rightarrow> None)"
| "replay (Ev_empty # es) = (case replay es of Some [] \<Rightarrow> Some [] | _ \<Rightarrow> None)"

definition head_seen :: "fl_state \<Rightarrow> nat \<Rightarrow> u64 \<Rightarrow> bool" where
  "head_seen s t h \<longleftrightarrow> GetTag h = of_nat (seen s t) \<and> seen s t \<le> version s \<and> (seen s t = version s \<longrightarrow> h = head s)"

fun pc_ok :: "u64 \<Rightarrow> fl_state \<Rightarrow> nat \<Rightarrow> fl_pc \<Rightarrow> bool" where
  "pc_ok off s t (FL_Pushing x) \<longleftrightarrow> owner s x = Some t"
| "pc_ok off s t (FL_Push_read x h) \<longleftrightarrow> owner s x = Some t \<and> head_seen s t h"
| "pc_ok off s t (FL_Push_linked x h) \<longleftrightarrow> owner s x = Some t \<and> head_seen s t h \<and> mem s (x + off) = Some (GetPointer h + off)"
| "pc_ok off s t (FL_Pop_read h) \<longleftrightarrow> head_seen s t h \<and> GetPointer h \<noteq> 0 \<and> mem s (GetPointer h + off) \<noteq> None"
| "pc_ok off s t (FL_Pop_next h n) \<longleftrightarrow> head_seen s t h \<and> GetPointer h \<noteq> 0 \<and>
     (seen s t = version s \<longrightarrow> mem s (GetPointer h + off) = Some n)"
| "pc_ok off s t pc \<longleftrightarrow> True"

fun pending :: "fl_pc \<Rightarrow> u64" where
  "pending FL_Push_count = 1"
| "pending FL_Pop_count = - 1"
| "pending pc = 0"

definition fl_inv :: "u64 \<Rightarrow> nat \<Rightarrow> fl_state \<Rightarrow> u64 list \<Rightarrow> bool" where
  "fl_inv off N s st \<longleftrightarrow> replay (history s) = Some st \<and>
     link_chain (mem s) off (GetPointer (head s)) st \<and> distinct st \<and> GetTag (head s) = of_nat (version s) \<and>
     (\<forall>x t. owner s x = Some t \<longrightarrow> x \<notin> set st \<and> good_addr x \<and> mem s (x + off) \<noteq> None) \<and>
     (\<forall>t < N. pc_ok off s t (pcs s t)) \<and>
     count s + (\<Sum>t < N. pending (pcs s t)) = of_nat (length st)"

section \<open>Every step keeps the invariant\<close>

lemma pc_ok_cong:
  "owner s' = owner s \<Longrightarrow> version s' = version s \<Longrightarrow> head s' = head s \<Longrightarrow> mem s' = mem s \<Longrightarrow> seen s' u = seen s u \<Longrightarrow>
   pc_ok off s' u pc = pc_ok off s u pc"
  by (cases pc) (simp_all add: head_seen_def)

lemma link_chain_top:
  "link_chain m off p st \<Longrightarrow> p \<noteq> 0 \<Longrightarrow> \<exists>n st'. st = p # st' \<and> good_addr p \<and> m (p + off) = Some (n + off) \<and> link_chain m off n st'"
  by (cases st) auto

lemma link_chain_empty: "link_chain m off 0 st \<longleftrightarrow> st = []"
  by (cases st) (auto simp: good_addr_def)

lemma inv_push_link:
  assumes "fl_inv off N s st" and "t < N" and "pcs s t = FL_Push_read x h"
  shows "fl_inv off N (push_link_step off t x h s) st"
proof -
  let ?s = "push_link_step off t x h s"
  have x: "owner s x = Some t" "head_seen s t h" "x \<notin> set st"
    using assms by (auto simp: fl_inv_def)
  have ok: "pc_ok off ?s u (pcs s u)" if u: "u < N" "u \<noteq> t" for u
  proof -
    have pc: "pc_ok off s u (pcs s u)" using assms(1) u(1) by (simp add: fl_inv_def)
    have hs: "head_seen ?s u h' = head_seen s u h'" for h' by (simp add: head_seen_def push_link_step_def)
    show ?thesis
    proof (cases "pcs s u")
      case (FL_Push_linked y h')
      then have "y \<noteq> x" using pc x(1) u(2) by auto
      then show ?thesis using pc FL_Push_linked hs by (simp add: push_link_step_def)
    next
      case (FL_Pop_next h' n)
      have "GetPointer h' \<noteq> x" if "seen s u = version s"
      proof -
        have "GetPointer (head s) \<noteq> 0" "h' = head s" using pc FL_Pop_next that by (auto simp: head_seen_def)
        then have "GetPointer h' \<in> set st"
          using assms(1) link_chain_top [of "mem s" off "GetPointer (head s)" st] by (auto simp: fl_inv_def)
        then show ?thesis using x(3) by blast
      qed
      then show ?thesis using pc FL_Pop_next hs by (auto simp: push_link_step_def)
    qed (use pc hs in \<open>auto simp: push_link_step_def\<close>)
  qed
  have "(\<Sum>u < N. pending (pcs ?s u)) = (\<Sum>u < N. pending (pcs s u))"
    using sum_fun_upd [where g = pending, OF assms(2), of "pcs s" "FL_Push_linked x h"] assms(3) by (simp add: push_link_step_def)
  moreover have "link_chain (mem ?s) off (GetPointer (head s)) st"
    using assms(1) x(3) by (simp add: push_link_step_def link_chain_upd fl_inv_def)
  moreover have "pc_ok off ?s u (pcs ?s u)" if "u < N" for u
    using ok [OF that] x by (cases "u = t") (auto simp: push_link_step_def head_seen_def)
  ultimately show ?thesis
    using assms(1) by (auto simp: fl_inv_def push_link_step_def)
qed

lemma inv_push_cas:
  assumes "fl_inv off N s st" and "t < N" and "pcs s t = FL_Push_linked x h" and "head s = h"
  shows "fl_inv off N (push_cas_step t x h s) (x # st)"
proof -
  let ?s = "push_cas_step t x h s"
  have x: "owner s x = Some t" "mem s (x + off) = Some (GetPointer h + off)" "x \<notin> set st" "good_addr x"
    using assms by (auto simp: fl_inv_def)
  have s': "?s = s\<lparr>head := MakePointer x (GetTag h + 1), pcs := (pcs s)(t := FL_Push_count), owner := (owner s)(x := None),
      version := version s + 1, history := Ev_push x # history s\<rparr>"
    using assms(4) by (simp add: push_cas_step_def)
  have ptr: "GetPointer (MakePointer x u) = x" for u
    using x(4) by (simp add: good_addr_def GetPointer_MakePointer_canonical)
  have "pc_ok off ?s u (pcs ?s u)" if u: "u < N" for u
  proof (cases "u = t")
    case True
    then show ?thesis by (simp add: s')
  next
    case False
    have "pc_ok off s u (pcs s u)" using assms(1) u by (simp add: fl_inv_def)
    then show ?thesis using False x(1) by (cases "pcs s u") (auto simp: s' head_seen_def)
  qed
  moreover have "(\<Sum>u < N. pending (pcs ?s u)) = (\<Sum>u < N. pending (pcs s u)) + 1"
    using sum_fun_upd [where g = pending, OF assms(2), of "pcs s" FL_Push_count] assms(3) by (simp add: s')
  ultimately show ?thesis
    using assms(1,4) x ptr by (auto simp: fl_inv_def s' GetTag_MakePointer)
qed

lemma inv_pop_cas:
  assumes "fl_inv off N s st" and "no_lap N s" and "t < N" and "pcs s t = FL_Pop_next h n" and "head s = h"
  shows "\<exists>st'. st = GetPointer h # st' \<and> fl_inv off N (pop_cas_step off t h n s) st'"
proof -
  have pc: "head_seen s t h" "GetPointer h \<noteq> 0" "seen s t = version s \<longrightarrow> mem s (GetPointer h + off) = Some n"
    using assms(1,3,4) by (auto simp: fl_inv_def)
  have "version s - seen s t < 2 ^ 16" using assms(2-4) unfolding no_lap_def by (metis reading.simps(4))
  then have "seen s t = version s"
    using pc(1) assms(1,5) by (intro of_nat_eq_close [where 'a = 16]) (auto simp: head_seen_def fl_inv_def)
  then have n: "mem s (GetPointer h + off) = Some n" using pc(3) by blast
  obtain k st' where st: "st = GetPointer h # st'" "good_addr (GetPointer h)" "n = k + off" "link_chain (mem s) off k st'"
    using link_chain_top [of "mem s" off "GetPointer h" st] assms(1,5) pc(2) n by (auto simp: fl_inv_def)
  define s1 where "s1 = s\<lparr>head := MakePointer k (GetTag h + 1), pcs := (pcs s)(t := FL_Pop_count), owner := (owner s)(GetPointer h \<mapsto> t),
      version := version s + 1, history := Ev_pop (GetPointer h) # history s\<rparr>"
  have s1: "pop_cas_step off t h n s = s1"
    using assms(5) st(3) by (simp add: pop_cas_step_def s1_def)
  have "pc_ok off s1 u (pcs s1 u)" if u: "u < N" for u
  proof (cases "u = t")
    case True
    then show ?thesis by (simp add: s1_def)
  next
    case False
    have "pc_ok off s u (pcs s u)" "owner s (GetPointer h) = None" using assms(1) u st(1) by (auto simp: fl_inv_def)
    then show ?thesis using False by (cases "pcs s u") (auto simp: s1_def head_seen_def)
  qed
  moreover have "count s1 + (\<Sum>u < N. pending (pcs s1 u)) = of_nat (length st')"
  proof -
    have "(\<Sum>u < N. pending (pcs s1 u)) = (\<Sum>u < N. pending (pcs s u)) - 1"
      using sum_fun_upd [where g = pending, OF assms(3), of "pcs s" FL_Pop_count] assms(4) by (simp add: s1_def)
    moreover have "count s + (\<Sum>u < N. pending (pcs s u)) = of_nat (length st') + 1"
      using assms(1) st(1) by (simp add: fl_inv_def add.commute)
    moreover have "count s1 = count s" by (simp add: s1_def)
    ultimately show ?thesis by (simp only: add_diff_eq add_diff_cancel_right')
  qed
  ultimately have "fl_inv off N s1 st'"
    using assms(1,5) st n link_chain_head [OF st(4)] by (auto simp: fl_inv_def s1_def GetTag_MakePointer)
  then show ?thesis using st(1) s1 by blast
qed

lemmas fl_step_defs = push_read_step_def push_link_step_def push_cas_step_def push_count_step_def pop_read_step_def pop_next_step_def pop_cas_step_def
  pop_count_step_def Let_def AtomicCompareExchange_cases

lemma fl_step_frame:
  assumes "fl_step off N t s s'"
  shows "t < N" and "pcs s' = (pcs s)(t := pcs s' t)" and "u \<noteq> t \<Longrightarrow> seen s' u = seen s u"
  using assms
  by (cases; auto simp: fl_step_defs)+

lemma fl_step_cases:
  \<comment> \<open>a step writes the link of an owned object, or is a successful compare-and-swap, or changes nothing that others see\<close>
  assumes "fl_step off N t s s'"
  obtains (linked) x h where "pcs s t = FL_Push_read x h" "s' = push_link_step off t x h s"
  | (pushed) x h where "pcs s t = FL_Push_linked x h" "head s = h" "s' = push_cas_step t x h s"
  | (popped) h n where "pcs s t = FL_Pop_next h n" "head s = h" "s' = pop_cas_step off t h n s"
  | (quiet) "head s' = head s" "mem s' = mem s" "owner s' = owner s" "version s' = version s"
      "count s' + pending (pcs s' t) = count s + pending (pcs s t)" "\<forall>x h. pcs s t \<noteq> FL_Push_read x h"
proof -
  have "(\<exists>x h. pcs s t = FL_Push_read x h \<and> s' = push_link_step off t x h s) \<or>
      (\<exists>x h. pcs s t = FL_Push_linked x h \<and> head s = h \<and> s' = push_cas_step t x h s) \<or>
      (\<exists>h n. pcs s t = FL_Pop_next h n \<and> head s = h \<and> s' = pop_cas_step off t h n s) \<or>
      head s' = head s \<and> mem s' = mem s \<and> owner s' = owner s \<and> version s' = version s \<and>
        count s' + pending (pcs s' t) = count s + pending (pcs s t) \<and> (\<forall>x h. pcs s t \<noteq> FL_Push_read x h)"
    using assms
  proof cases
    case (push_link x h)
    then show ?thesis by blast
  qed (auto simp: fl_step_defs)
  then show thesis using that by blast
qed

lemma fl_quiet_ok:
  assumes inv: "fl_inv off N s st" and st: "fl_step off N t s s'" and q: "version s' = version s" "\<forall>x h. pcs s t \<noteq> FL_Push_read x h"
  shows "pc_ok off s' t (pcs s' t)" and "replay (history s') = replay (history s)"
proof -
  have pc: "pc_ok off s t (pcs s t)" and tag: "GetTag (head s) = of_nat (version s)"
    using inv fl_step_frame(1) [OF st] by (simp_all add: fl_inv_def)
  have top: "GetPointer (head s) = 0 \<or> mem s (GetPointer (head s) + off) \<noteq> None"
    and empty: "GetPointer (head s) = 0 \<Longrightarrow> replay (history s) = Some []"
    using inv link_chain_top [of "mem s" off "GetPointer (head s)" st] by (auto simp: fl_inv_def link_chain_empty)
  show "pc_ok off s' t (pcs s' t)"
    using st pc tag top q
    by cases (auto simp: fl_step_defs head_seen_def)
  show "replay (history s') = replay (history s)"
    using st empty q
    by cases (auto simp: fl_step_defs)
qed

lemma fl_inv_quiet:
  assumes inv: "fl_inv off N s st" and st: "fl_step off N t s s'" and q: "head s' = head s" "mem s' = mem s" "owner s' = owner s"
    "version s' = version s" "count s' + pending (pcs s' t) = count s + pending (pcs s t)" "\<forall>x h. pcs s t \<noteq> FL_Push_read x h"
  shows "fl_inv off N s' st"
proof -
  have "pc_ok off s' u (pcs s' u)" if "u < N" for u
  proof (cases "u = t")
    case True
    then show ?thesis using fl_quiet_ok(1) [OF inv st q(4,6)] by simp
  next
    case False
    then have "pcs s' u = pcs s u" using fl_step_frame(2) [OF st] by (metis fun_upd_other)
    then show ?thesis
      using inv that pc_ok_cong [OF q(3,4,1,2) fl_step_frame(3) [OF st False]] by (simp add: fl_inv_def)
  qed
  moreover have "count s' + (\<Sum>u < N. pending (pcs s' u)) = of_nat (length st)"
  proof -
    have old: "count s + (\<Sum>u < N. pending (pcs s u)) = of_nat (length st)" using inv by (simp add: fl_inv_def)
    have change: "count s' + pending (pcs s' t) - of_nat (length st) = count s + pending (pcs s t) - of_nat (length st)" using q(5) by simp
    have "(\<Sum>u < N. pending (pcs s' u)) = (\<Sum>u < N. pending (pcs s u)) - pending (pcs s t) + pending (pcs s' t)"
      using sum_fun_upd [where g = pending, OF fl_step_frame(1) [OF st], of "pcs s" "pcs s' t"] fl_step_frame(2) [OF st] by metis
    then show ?thesis using group_balance [OF old change] by metis
  qed
  ultimately show ?thesis using inv q fl_quiet_ok(2) [OF inv st q(4,6)] by (simp add: fl_inv_def)
qed

lemma inv_step:
  assumes inv: "fl_inv off N s st" and lap: "no_lap N s" and st: "fl_step off N t s s'"
  shows "\<exists>st'. fl_inv off N s' st'"
  using st
proof (cases rule: fl_step_cases)
  case (linked x h)
  then show ?thesis using inv_push_link [OF inv fl_step_frame(1) [OF st]] by blast
next
  case (pushed x h)
  then show ?thesis using inv_push_cas [OF inv fl_step_frame(1) [OF st]] by blast
next
  case (popped h n)
  from inv_pop_cas [OF inv lap fl_step_frame(1) [OF st] popped(1,2)] show ?thesis using popped(3) by auto
next
  case quiet
  then show ?thesis using fl_inv_quiet [OF inv st] by blast
qed

lemma inv_init: "fl_init off s \<Longrightarrow> fl_inv off N s []"
proof -
  have "GetPointer 0 = 0" "GetTag 0 = 0"
    by (simp_all add: GetPointer_def TaggedPointer_set_mTag_def GetTag_def TaggedPointer_mTag_def)
  then show "fl_init off s \<Longrightarrow> fl_inv off N s []" by (auto simp: fl_init_def fl_inv_def)
qed

lemma inv_reach: "fl_reach off N s \<Longrightarrow> \<exists>st. fl_inv off N s st"
  by (induction rule: fl_reach.induct) (use inv_init inv_step in blast)+

section \<open>Properties of FreeList\<close>

text \<open>
  C2. \<open>FreeList\<close> is linearizable: however the steps of any number of threads interleave, as long as no thread is overtaken
  by \<open>2^16\<close> updates between its read of \<open>mHead\<close> and its compare-and-swap, the pushes and pops, in the order of their
  successful compare-and-swaps, are a legal history of one stack (every pop returned the object on top, a pop returned
  false only on the empty stack), the memory holds exactly that stack, no object is on it twice or while a thread
  owns it, and \<open>mSize\<close> counts it whenever no operation is under way.
\<close>

theorem free_list_linearizable:
  assumes "fl_reach off N s"
  shows "\<exists>st. replay (history s) = Some st \<and> link_chain (mem s) off (GetPointer (head s)) st \<and> distinct st \<and>
    (\<forall>x t. owner s x = Some t \<longrightarrow> x \<notin> set st) \<and> ((\<forall>t < N. pcs s t = FL_Idle) \<longrightarrow> count s = of_nat (length st))"
proof -
  obtain st where st: "fl_inv off N s st" using inv_reach [OF assms] by blast
  have "count s = of_nat (length st)" if "\<forall>t < N. pcs s t = FL_Idle"
  proof -
    have "(\<Sum>t < N. pending (pcs s t)) = 0" using that by (intro sum.neutral) auto
    then show ?thesis using st by (simp add: fl_inv_def)
  qed
  then show ?thesis using st by (auto simp: fl_inv_def)
qed

definition fl_example :: fl_state where
  \<comment> \<open>thread 0 owns the object at \<open>0x1000\<close>\<close>
  "fl_example = \<lparr>head = 0, count = 0, mem = [0x1008 \<mapsto> 7], pcs = (\<lambda>_. FL_Idle), owner = [0x1000 \<mapsto> 0], version = 0,
     seen = (\<lambda>_. 0), history = []\<rparr>"

lemma fl_example_init: "fl_init 8 fl_example"
  by (simp add: fl_init_def fl_example_def good_addr_def canonical_def atLeastLessThan_nat_numeral bit_numeral_simps)

theorem free_list_linearizable_witness:
  "\<exists>s st. fl_reach 8 2 s \<and> history s = [Ev_empty] \<and> replay (history s) = Some st \<and> link_chain (mem s) 8 (GetPointer (head s)) st"
proof -
  let ?s1 = "fl_example\<lparr>pcs := (pcs fl_example)(1 := FL_Popping)\<rparr>"
  have lap: "no_lap 2 fl_example" "no_lap 2 ?s1" by (simp_all add: no_lap_def fl_example_def)
  have "fl_reach 8 2 fl_example" by (rule fl_reach.init [OF fl_example_init])
  moreover have "fl_step 8 2 1 fl_example ?s1" by (rule fl_step.pop_begin) (simp_all add: fl_example_def)
  ultimately have "fl_reach 8 2 ?s1" using lap(1) fl_reach.step by blast
  moreover have "fl_step 8 2 1 ?s1 (pop_read_step 1 ?s1)" by (rule fl_step.pop_read) simp_all
  ultimately have r: "fl_reach 8 2 (pop_read_step 1 ?s1)" using lap(2) fl_reach.step by blast
  have "history (pop_read_step 1 ?s1) = [Ev_empty]"
    by (simp add: pop_read_step_def fl_example_def GetPointer_def TaggedPointer_set_mTag_def)
  then show ?thesis using free_list_linearizable [OF r] r by blast
qed

text \<open>
  C28. \<open>FreeList\<close> is lock-free: no step of a thread waits for another thread or touches memory that does not exist, and a
  compare-and-swap fails only when some other one succeeded since the thread read \<open>mHead\<close>.
\<close>

theorem free_list_lock_free:
  assumes "fl_reach off N s" and "t < N"
  shows "(\<exists>s'. fl_step off N t s s') \<and>
    (\<forall>x h. pcs s t = FL_Push_linked x h \<and> head s \<noteq> h \<longrightarrow> seen s t < version s) \<and>
    (\<forall>h n. pcs s t = FL_Pop_next h n \<and> head s \<noteq> h \<longrightarrow> seen s t < version s)"
proof -
  obtain st where st: "fl_inv off N s st" using inv_reach [OF assms(1)] by blast
  then have ok: "pc_ok off s t (pcs s t)" using assms(2) by (simp add: fl_inv_def)
  have "\<exists>s'. fl_step off N t s s'"
  proof (cases "pcs s t")
    case (FL_Push_read x h)
    then have "mem s (x + off) \<noteq> None" using ok st by (auto simp: fl_inv_def)
    then show ?thesis using FL_Push_read assms(2) fl_step.push_link by blast
  next
    case (FL_Pop_read h)
    then obtain n where "mem s (GetPointer h + off) = Some n" using ok by auto
    then show ?thesis using FL_Pop_read assms(2) fl_step.pop_next by blast
  qed (rule exI, (rule fl_step.pop_begin [OF assms(2)] fl_step.push_read [OF assms(2)] fl_step.push_cas [OF assms(2)]
         fl_step.push_count [OF assms(2)] fl_step.pop_read [OF assms(2)] fl_step.pop_cas [OF assms(2)]
         fl_step.pop_count [OF assms(2)], assumption))+
  moreover have "seen s t < version s" if "head_seen s t h" "head s \<noteq> h" for h
    using that by (auto simp: head_seen_def le_less)
  ultimately show ?thesis using ok by auto
qed

theorem free_list_lock_free_witness: "\<exists>s'. fl_step 8 2 1 fl_example s'"
  using free_list_lock_free [OF fl_reach.init [OF fl_example_init], of 1 2] by simp

definition list_of :: "fl_state \<Rightarrow> FreeList" where
  "list_of s = \<lparr>mHead = head s, mSize = count s, links = mem s\<rparr>"

lemma push_steps:
  assumes "t < N" and "pcs s t = FL_Idle" and "owner s x = Some t" and "mem s (x + off) \<noteq> None"
  shows "\<exists>s'. (fl_step off N t)\<^sup>*\<^sup>* s s' \<and> pcs s' t = FL_Idle \<and> history s' = Ev_push x # history s \<and>
    FreeList_Push off x (list_of s) = Inr (True, list_of s')"
proof -
  let ?s1 = "s\<lparr>pcs := (pcs s)(t := FL_Pushing x)\<rparr>"
  let ?s2 = "push_read_step t x ?s1"
  let ?s3 = "push_link_step off t x (head s) ?s2"
  let ?s4 = "push_cas_step t x (head s) ?s3"
  let ?s5 = "push_count_step t ?s4"
  have "fl_step off N t s ?s1" by (rule fl_step.push_begin) fact+
  moreover have "fl_step off N t ?s1 ?s2" by (rule fl_step.push_read) (use assms(1) in simp_all)
  moreover have "fl_step off N t ?s2 ?s3" by (rule fl_step.push_link) (use assms(1,4) in \<open>simp_all add: push_read_step_def\<close>)
  moreover have "fl_step off N t ?s3 ?s4" by (rule fl_step.push_cas) (use assms(1) in \<open>simp_all add: push_link_step_def\<close>)
  moreover have "fl_step off N t ?s4 ?s5"
    by (rule fl_step.push_count) (use assms(1) in \<open>simp_all add: push_cas_step_def push_link_step_def push_read_step_def\<close>)
  ultimately have "(fl_step off N t)\<^sup>*\<^sup>* s ?s5" by (meson rtranclp.rtrancl_into_rtrancl rtranclp.rtrancl_refl)
  moreover have "pcs ?s5 t = FL_Idle" "history ?s5 = Ev_push x # history s"
    by (simp_all add: push_count_step_def push_cas_step_def push_link_step_def push_read_step_def)
  moreover have "FreeList_Push off x (list_of s) = Inr (True, list_of ?s5)"
    using assms(4)
    by (subst FreeList_Push_def, subst FreeList_Push_loop.simps)
       (simp add: list_of_def link_set_def Let_def loop_result_def push_count_step_def push_cas_step_def push_link_step_def push_read_step_def)
  ultimately show ?thesis by blast
qed

lemma pop_steps:
  assumes "t < N" and "pcs s t = FL_Idle" and "GetPointer (head s) \<noteq> 0" and "mem s (GetPointer (head s) + off) = Some n"
  shows "\<exists>s'. (fl_step off N t)\<^sup>*\<^sup>* s s' \<and> pcs s' t = FL_Idle \<and> history s' = Ev_pop (GetPointer (head s)) # history s \<and>
    FreeList_Pop off (list_of s) = Inr (Some (GetPointer (head s)), list_of s')"
proof -
  let ?s1 = "s\<lparr>pcs := (pcs s)(t := FL_Popping)\<rparr>"
  let ?s2 = "pop_read_step t ?s1"
  let ?s3 = "pop_next_step t (head s) n ?s2"
  let ?s4 = "pop_cas_step off t (head s) n ?s3"
  let ?s5 = "pop_count_step t ?s4"
  have "fl_step off N t s ?s1" by (rule fl_step.pop_begin) fact+
  moreover have "fl_step off N t ?s1 ?s2" by (rule fl_step.pop_read) (use assms(1) in simp_all)
  moreover have "fl_step off N t ?s2 ?s3" by (rule fl_step.pop_next) (use assms(1,3,4) in \<open>simp_all add: pop_read_step_def\<close>)
  moreover have "fl_step off N t ?s3 ?s4" by (rule fl_step.pop_cas) (use assms(1) in \<open>simp_all add: pop_next_step_def\<close>)
  moreover have "fl_step off N t ?s4 ?s5"
    by (rule fl_step.pop_count) (use assms(1,3) in \<open>simp_all add: pop_cas_step_def pop_next_step_def pop_read_step_def\<close>)
  ultimately have "(fl_step off N t)\<^sup>*\<^sup>* s ?s5" by (meson rtranclp.rtrancl_into_rtrancl rtranclp.rtrancl_refl)
  moreover have "pcs ?s5 t = FL_Idle" "history ?s5 = Ev_pop (GetPointer (head s)) # history s"
    using assms(3) by (simp_all add: pop_count_step_def pop_cas_step_def pop_next_step_def pop_read_step_def)
  moreover have "FreeList_Pop off (list_of s) = Inr (Some (GetPointer (head s)), list_of ?s5)"
    using assms(3,4)
    by (subst FreeList_Pop_def, subst FreeList_Pop_loop.simps)
       (simp add: list_of_def link_get_def Let_def loop_result_def pop_count_step_def pop_cas_step_def pop_next_step_def pop_read_step_def)
  ultimately show ?thesis by blast
qed

text \<open>
  C29. The steps are those of the code: in every reachable state a thread that runs undisturbed from the beginning to
  the end of an operation leaves the list exactly as \<open>FreeList::Push\<close> and \<open>FreeList::Pop\<close> do when they are executed as a
  whole, with the same result.
\<close>

theorem free_list_operations_are_steps:
  assumes "fl_reach off N s" and "t < N" and "pcs s t = FL_Idle"
  shows "(\<forall>x. owner s x = Some t \<longrightarrow>
      (\<exists>s'. (fl_step off N t)\<^sup>*\<^sup>* s s' \<and> pcs s' t = FL_Idle \<and> FreeList_Push off x (list_of s) = Inr (True, list_of s'))) \<and>
    (\<exists>s' r. (fl_step off N t)\<^sup>*\<^sup>* s s' \<and> pcs s' t = FL_Idle \<and> FreeList_Pop off (list_of s) = Inr (r, list_of s') \<and>
      history s' = (case r of None \<Rightarrow> Ev_empty | Some x \<Rightarrow> Ev_pop x) # history s)"
proof -
  obtain st where st: "fl_inv off N s st" using inv_reach [OF assms(1)] by blast
  then have "mem s (x + off) \<noteq> None" if "owner s x = Some t" for x using that by (auto simp: fl_inv_def)
  then have push: "\<exists>s'. (fl_step off N t)\<^sup>*\<^sup>* s s' \<and> pcs s' t = FL_Idle \<and> FreeList_Push off x (list_of s) = Inr (True, list_of s')"
    if "owner s x = Some t" for x
    using push_steps [OF assms(2,3) that] that by blast
  have pop: "\<exists>s' r. (fl_step off N t)\<^sup>*\<^sup>* s s' \<and> pcs s' t = FL_Idle \<and> FreeList_Pop off (list_of s) = Inr (r, list_of s') \<and>
      history s' = (case r of None \<Rightarrow> Ev_empty | Some x \<Rightarrow> Ev_pop x) # history s"
  proof (cases "GetPointer (head s) = 0")
    case True
    let ?s1 = "s\<lparr>pcs := (pcs s)(t := FL_Popping)\<rparr>"
    have "fl_step off N t s ?s1" by (rule fl_step.pop_begin) fact+
    moreover have "fl_step off N t ?s1 (pop_read_step t ?s1)" by (rule fl_step.pop_read) (use assms(2) in simp_all)
    ultimately have "(fl_step off N t)\<^sup>*\<^sup>* s (pop_read_step t ?s1)"
      by (meson rtranclp.rtrancl_into_rtrancl rtranclp.rtrancl_refl)
    moreover have "FreeList_Pop off (list_of s) = Inr (None, list_of (pop_read_step t ?s1))"
      using True by (subst FreeList_Pop_def, subst FreeList_Pop_loop.simps) (simp add: list_of_def loop_result_def pop_read_step_def)
    moreover have "pcs (pop_read_step t ?s1) t = FL_Idle" "history (pop_read_step t ?s1) = Ev_empty # history s"
      using True by (simp_all add: pop_read_step_def)
    ultimately show ?thesis by (intro exI [of _ "pop_read_step t ?s1"] exI [of _ None]) simp
  next
    case False
    then obtain n where "mem s (GetPointer (head s) + off) = Some n"
      using st link_chain_top [of "mem s" off "GetPointer (head s)" st] by (auto simp: fl_inv_def)
    from pop_steps [OF assms(2,3) False this] show ?thesis by (metis option.simps(5))
  qed
  from push pop show ?thesis by blast
qed

theorem free_list_operations_are_steps_witness:
  "\<exists>s'. (fl_step 8 2 0)\<^sup>*\<^sup>* fl_example s' \<and> FreeList_Push 8 0x1000 (list_of fl_example) = Inr (True, list_of s')"
proof -
  have "pcs fl_example 0 = FL_Idle" "owner fl_example 0x1000 = Some 0" by (simp_all add: fl_example_def)
  then show ?thesis
    using free_list_operations_are_steps [OF fl_reach.init [OF fl_example_init], of 0 2] by auto
qed

end
