(* ===== verification/Stone_Logging.thy ===== *)
theory Stone_Logging
  imports Stone_Prelude "HOL-Library.Char_ord"
begin

text \<open>
  \<^verbatim>\<open>logging/logging.h\<close> and the configuration part of \<^verbatim>\<open>logging/logging_impl.h\<close>: levels, the state of a log
  statement, the logger, the logging macros and \<open>SinkConfig\<close>. A log statement is a site: the static \<open>LogInfo\<close>
  and the static \<open>sNext\<close> of its macro, absent until the statement is executed for the first time, and the calls of
  \<open>Logger::AppendLog\<close> it has made. The constructor of \<open>LogInfo\<close> and the text of a stack trace come from the binary
  library and are components of the environment; key-value pairs have values of any type \<open>'v\<close>. The \<open>int64_t\<close>
  counters are 64-bit words, and the properties stay below \<open>2^63\<close>, where signed and unsigned agree.
\<close>

named_theorems log_defs \<comment> \<open>the logging macros\<close>

section \<open>Levels\<close>

datatype LogLevel =
    LOG_LEVEL_ALL | LOG_LEVEL_PROFILE | LOG_LEVEL_DEBUG | LOG_LEVEL_INFO | LOG_LEVEL_WARNING | LOG_LEVEL_ERROR
  | LOG_LEVEL_FATAL | LOG_LEVEL_NONE | LOG_LEVEL_INHERIT

primrec level_value :: "LogLevel \<Rightarrow> int" where
  "level_value LOG_LEVEL_ALL = 0"
| "level_value LOG_LEVEL_PROFILE = 100"
| "level_value LOG_LEVEL_DEBUG = 200"
| "level_value LOG_LEVEL_INFO = 300"
| "level_value LOG_LEVEL_WARNING = 400"
| "level_value LOG_LEVEL_ERROR = 500"
| "level_value LOG_LEVEL_FATAL = 600"
| "level_value LOG_LEVEL_NONE = 10000"
| "level_value LOG_LEVEL_INHERIT = - 1"

lemma level_value_inj: "level_value a = level_value b \<Longrightarrow> a = b"
  by (cases a; cases b) simp_all

instantiation LogLevel :: linorder
begin

definition less_eq_LogLevel :: "LogLevel \<Rightarrow> LogLevel \<Rightarrow> bool" where
  "less_eq_LogLevel a b \<longleftrightarrow> level_value a \<le> level_value b"

definition less_LogLevel :: "LogLevel \<Rightarrow> LogLevel \<Rightarrow> bool" where
  "less_LogLevel a b \<longleftrightarrow> level_value a < level_value b"

instance
  by standard (auto simp: less_eq_LogLevel_def less_LogLevel_def level_value_inj)

end

section \<open>Sampling\<close>

definition CONST_NEXT :: "u64 \<Rightarrow> u64 \<Rightarrow> u64" where
  "CONST_NEXT init_next cur_next = init_next"

definition LINEAR_NEXT :: "u64 \<Rightarrow> u64 \<Rightarrow> u64" where
  "LINEAR_NEXT init_next cur_next = cur_next + init_next"

definition DOUBLE_NEXT :: "u64 \<Rightarrow> u64 \<Rightarrow> u64" where
  "DOUBLE_NEXT init_next cur_next = cur_next * 2"

section \<open>The state of a log statement\<close>

record LogInfo =
  mEnabled :: bool
  mStackTraceEnabled :: bool
  mDefaultLevel :: LogLevel
  mLevel :: LogLevel
  mCounter :: u64
  mFile :: string
  mLine :: int

definition LogInfo_Enable :: "bool \<Rightarrow> LogInfo \<Rightarrow> LogInfo" where
  "LogInfo_Enable enabled i = i\<lparr>mEnabled := enabled\<rparr>"

definition LogInfo_Enabled :: "LogInfo \<Rightarrow> bool" where
  [log_defs]: "LogInfo_Enabled i = mEnabled i"

definition LogInfo_EnableStackTrace :: "bool \<Rightarrow> LogInfo \<Rightarrow> LogInfo" where
  "LogInfo_EnableStackTrace enabled i = i\<lparr>mStackTraceEnabled := enabled\<rparr>"

definition LogInfo_StackTraceEnabled :: "LogInfo \<Rightarrow> bool" where
  [log_defs]: "LogInfo_StackTraceEnabled i = mStackTraceEnabled i"

definition LogInfo_Level :: "LogInfo \<Rightarrow> LogLevel" where
  [log_defs]: "LogInfo_Level i = mLevel i"

definition LogInfo_SetLevel :: "LogLevel \<Rightarrow> LogInfo \<Rightarrow> LogInfo" where
  "LogInfo_SetLevel level i = i\<lparr>mLevel := level\<rparr>"

definition LogInfo_File :: "LogInfo \<Rightarrow> string" where
  "LogInfo_File i = mFile i"

definition LogInfo_Line :: "LogInfo \<Rightarrow> int" where
  "LogInfo_Line i = mLine i"

definition LogInfo_Reset :: "LogInfo \<Rightarrow> LogInfo" where
  "LogInfo_Reset i = i\<lparr>mEnabled := True, mLevel := mDefaultLevel i\<rparr>"

definition LogInfo_Counter :: "LogInfo \<Rightarrow> u64" where
  "LogInfo_Counter i = mCounter i"

definition LogInfo_Touch :: "LogInfo \<Rightarrow> u64 \<times> LogInfo" where
  [log_defs]: "LogInfo_Touch i = (mCounter i + 1, i\<lparr>mCounter := mCounter i + 1\<rparr>)"

section \<open>The logger\<close>

record Logger =
  mPath :: string
  mMinLevel :: LogLevel
  mInherited :: bool
  mSinkMap :: "string \<rightharpoonup> LogLevel"

definition Logger_GetPath :: "Logger \<Rightarrow> string" where
  [log_defs]: "Logger_GetPath lg = mPath lg"

definition Logger_GetMinLevel :: "Logger \<Rightarrow> LogLevel" where
  [log_defs]: "Logger_GetMinLevel lg = mMinLevel lg"

definition Logger_SetMinLevel :: "LogLevel \<Rightarrow> Logger \<Rightarrow> Logger" where
  "Logger_SetMinLevel level lg = lg\<lparr>mMinLevel := level\<rparr>"

definition Logger_SetInherited :: "bool \<Rightarrow> Logger \<Rightarrow> Logger" where
  "Logger_SetInherited inherited lg = lg\<lparr>mInherited := inherited\<rparr>"

definition Logger_ClearSinkMap :: "Logger \<Rightarrow> Logger" where
  "Logger_ClearSinkMap lg = lg\<lparr>mSinkMap := Map.empty\<rparr>"

definition Logger_AddSink :: "string \<Rightarrow> LogLevel \<Rightarrow> Logger \<Rightarrow> Logger" where
  "Logger_AddSink key level lg = lg\<lparr>mSinkMap := (mSinkMap lg)(key \<mapsto> level)\<rparr>"

definition Logger_Inherit :: "Logger \<Rightarrow> Logger \<Rightarrow> bool \<times> Logger" where
  "Logger_Inherit parent lg =
     (mInherited lg, if mInherited lg then lg\<lparr>mSinkMap := mSinkMap parent, mMinLevel := mMinLevel parent\<rparr> else lg)"

section \<open>Log statements\<close>

type_synonym 'v fields = "(string \<times> 'v) list"

record 'v log_call =
  call_path :: string
  call_level :: LogLevel
  call_file :: string
  call_function :: string
  call_line :: int
  call_stacktrace :: string
  call_fields :: "'v fields"

record 'v log_site =
  sInfo :: "LogInfo option"
  sNext :: "u64 option"
  calls :: "'v log_call list"

record log_env =
  new_LogInfo :: "string \<Rightarrow> int \<Rightarrow> LogLevel \<Rightarrow> bool \<Rightarrow> LogInfo"
  gThreadLogEnabled :: bool
  env_file :: string
  env_function :: string
  env_line :: int
  env_stack :: string

definition EnableThreadLog :: "bool \<Rightarrow> log_env \<Rightarrow> log_env" where
  "EnableThreadLog enabled env = env\<lparr>gThreadLogEnabled := enabled\<rparr>"

definition ThreadLogEnabled :: "log_env \<Rightarrow> bool" where
  [log_defs]: "ThreadLogEnabled env = gThreadLogEnabled env"

definition static_info :: "log_env \<Rightarrow> LogLevel \<Rightarrow> bool \<Rightarrow> 'v log_site \<Rightarrow> LogInfo" where
  \<comment> \<open>the static \<open>sInfo\<close>, constructed by the first execution\<close>
  "static_info env level with_st site =
     (case sInfo site of Some i \<Rightarrow> i | None \<Rightarrow> new_LogInfo env (env_file env) (env_line env) level with_st)"

definition append_call :: "log_env \<Rightarrow> Logger \<Rightarrow> LogInfo \<Rightarrow> string \<Rightarrow> 'v fields \<Rightarrow> 'v log_call" where
  "append_call env logger i stacktrace kvs =
     \<lparr>call_path = Logger_GetPath logger, call_level = LogInfo_Level i, call_file = env_file env, call_function = env_function env,
      call_line = env_line env, call_stacktrace = stacktrace, call_fields = kvs\<rparr>"

definition STONE_LOG_X_IF ::
  \<comment> \<open>\<open>condition\<close> is an expression that binds stronger than \<open>&&\<close>: the macro does not put it into parentheses\<close>
  "log_env \<Rightarrow> Logger \<Rightarrow> bool \<Rightarrow> bool \<Rightarrow> LogLevel \<Rightarrow> 'v fields \<Rightarrow> 'v log_site \<Rightarrow> 'v log_site" where
  [log_defs]: "STONE_LOG_X_IF env logger condition with_st level kvs site =
     (let i = static_info env level with_st site;
          logEnabled = (condition \<and> Logger_GetMinLevel logger \<le> LogInfo_Level i \<and> LogInfo_Enabled i \<and> ThreadLogEnabled env);
          site1 = site\<lparr>sInfo := Some i\<rparr>
      in if logEnabled then
           (let stacktrace = (if LogInfo_StackTraceEnabled i then env_stack env else [])
            in site1\<lparr>calls := calls site @ [append_call env logger i stacktrace kvs]\<rparr>)
         else site1)"

definition STONE_LOG_X :: "log_env \<Rightarrow> Logger \<Rightarrow> LogLevel \<Rightarrow> 'v fields \<Rightarrow> 'v log_site \<Rightarrow> 'v log_site" where
  [log_defs]: "STONE_LOG_X env logger level kvs = STONE_LOG_X_IF env logger True False level kvs"

record 'v log_block =
  blk_enabled :: bool
  blk_level :: LogLevel
  blk_logger :: Logger
  blk_builder :: "'v log_call option"

definition STONE_LOG_X_BEGIN :: "log_env \<Rightarrow> Logger \<Rightarrow> LogLevel \<Rightarrow> 'v log_site \<Rightarrow> 'v log_block \<times> 'v log_site" where
  \<comment> \<open>the variables that live until \<open>STONE_LOG_X_END\<close>, and the site; a builder that was not initialised is \<open>None\<close>\<close>
  [log_defs]: "STONE_LOG_X_BEGIN env logger level site =
     (let i = static_info env level False site;
          lv = LogInfo_Level i;
          enabled = (Logger_GetMinLevel logger \<le> lv \<and> LogInfo_Enabled i \<and> ThreadLogEnabled env);
          builder = (if enabled then
             (let stacktrace = (if LogInfo_StackTraceEnabled i then env_stack env else [])
              in Some (append_call env logger i stacktrace [])) else None)
      in (\<lparr>blk_enabled = enabled, blk_level = lv, blk_logger = logger, blk_builder = builder\<rparr>, site\<lparr>sInfo := Some i\<rparr>))"

definition STONE_LOG_FIELD :: "string \<Rightarrow> 'v \<Rightarrow> 'v log_block \<Rightarrow> 'v log_block" where
  [log_defs]: "STONE_LOG_FIELD key val b =
     (if blk_enabled b
      then b\<lparr>blk_builder := map_option (\<lambda>c. c\<lparr>call_fields := call_fields c @ [(key, val)]\<rparr>) (blk_builder b)\<rparr>
      else b)"

definition STONE_LOG_X_END :: "'v log_block \<Rightarrow> 'v log_site \<Rightarrow> 'v log_site" where
  [log_defs]: "STONE_LOG_X_END b site =
     (if blk_enabled b then
        (case blk_builder b of Some c \<Rightarrow> site\<lparr>calls := calls site @ [c\<lparr>call_level := blk_level b\<rparr>]\<rparr> | None \<Rightarrow> site)
      else site)"

definition STONE_LOG_X_SAMPLED ::
  "log_env \<Rightarrow> Logger \<Rightarrow> u64 \<Rightarrow> (u64 \<Rightarrow> u64 \<Rightarrow> u64) \<Rightarrow> LogLevel \<Rightarrow> 'v fields \<Rightarrow> 'v log_site \<Rightarrow> 'v log_site" where
  \<comment> \<open>the part under \<open>STONE_SCOPED_LOCK(sLock)\<close> runs exactly once\<close>
  [log_defs]: "STONE_LOG_X_SAMPLED env logger init_next next_func level kvs site =
     (let i = static_info env level False site;
          logEnabled = (Logger_GetMinLevel logger \<le> LogInfo_Level i \<and> LogInfo_Enabled i \<and> ThreadLogEnabled env)
      in if logEnabled then
           (let stacktrace = (if LogInfo_StackTraceEnabled i then env_stack env else []);
                nxt = (case sNext site of Some n \<Rightarrow> n | None \<Rightarrow> init_next);
                (counter, i') = LogInfo_Touch i
            in if counter = nxt
               then site\<lparr>sInfo := Some i', sNext := Some (next_func init_next counter),
                         calls := calls site @ [append_call env logger i' stacktrace kvs]\<rparr>
               else site\<lparr>sInfo := Some i', sNext := Some nxt\<rparr>)
         else site\<lparr>sInfo := Some i\<rparr>)"

definition STONE_LOG_DEBUG :: "log_env \<Rightarrow> Logger \<Rightarrow> 'v fields \<Rightarrow> 'v log_site \<Rightarrow> 'v log_site" where
  [log_defs]: "STONE_LOG_DEBUG env logger kvs = STONE_LOG_X env logger LOG_LEVEL_DEBUG kvs"

definition STONE_LOG_DEBUG_IF :: "log_env \<Rightarrow> Logger \<Rightarrow> bool \<Rightarrow> bool \<Rightarrow> 'v fields \<Rightarrow> 'v log_site \<Rightarrow> 'v log_site" where
  [log_defs]: "STONE_LOG_DEBUG_IF env logger condition with_st kvs = STONE_LOG_X_IF env logger condition with_st LOG_LEVEL_DEBUG kvs"

definition STONE_LOG_DEBUG_BEGIN :: "log_env \<Rightarrow> Logger \<Rightarrow> 'v log_site \<Rightarrow> 'v log_block \<times> 'v log_site" where
  [log_defs]: "STONE_LOG_DEBUG_BEGIN env logger = STONE_LOG_X_BEGIN env logger LOG_LEVEL_DEBUG"

definition STONE_LOG_DEBUG_SAMPLED ::
  "log_env \<Rightarrow> Logger \<Rightarrow> u64 \<Rightarrow> (u64 \<Rightarrow> u64 \<Rightarrow> u64) \<Rightarrow> 'v fields \<Rightarrow> 'v log_site \<Rightarrow> 'v log_site" where
  [log_defs]: "STONE_LOG_DEBUG_SAMPLED env logger init_next next_func kvs = STONE_LOG_X_SAMPLED env logger init_next next_func LOG_LEVEL_DEBUG kvs"

definition STONE_LOG_INFO :: "log_env \<Rightarrow> Logger \<Rightarrow> 'v fields \<Rightarrow> 'v log_site \<Rightarrow> 'v log_site" where
  [log_defs]: "STONE_LOG_INFO env logger kvs = STONE_LOG_X env logger LOG_LEVEL_INFO kvs"

definition STONE_LOG_INFO_IF :: "log_env \<Rightarrow> Logger \<Rightarrow> bool \<Rightarrow> bool \<Rightarrow> 'v fields \<Rightarrow> 'v log_site \<Rightarrow> 'v log_site" where
  [log_defs]: "STONE_LOG_INFO_IF env logger condition with_st kvs = STONE_LOG_X_IF env logger condition with_st LOG_LEVEL_INFO kvs"

definition STONE_LOG_INFO_BEGIN :: "log_env \<Rightarrow> Logger \<Rightarrow> 'v log_site \<Rightarrow> 'v log_block \<times> 'v log_site" where
  [log_defs]: "STONE_LOG_INFO_BEGIN env logger = STONE_LOG_X_BEGIN env logger LOG_LEVEL_INFO"

definition STONE_LOG_INFO_SAMPLED ::
  "log_env \<Rightarrow> Logger \<Rightarrow> u64 \<Rightarrow> (u64 \<Rightarrow> u64 \<Rightarrow> u64) \<Rightarrow> 'v fields \<Rightarrow> 'v log_site \<Rightarrow> 'v log_site" where
  [log_defs]: "STONE_LOG_INFO_SAMPLED env logger init_next next_func kvs = STONE_LOG_X_SAMPLED env logger init_next next_func LOG_LEVEL_INFO kvs"

definition STONE_LOG_WARNING :: "log_env \<Rightarrow> Logger \<Rightarrow> 'v fields \<Rightarrow> 'v log_site \<Rightarrow> 'v log_site" where
  [log_defs]: "STONE_LOG_WARNING env logger kvs = STONE_LOG_X env logger LOG_LEVEL_WARNING kvs"

definition STONE_LOG_WARNING_IF :: "log_env \<Rightarrow> Logger \<Rightarrow> bool \<Rightarrow> bool \<Rightarrow> 'v fields \<Rightarrow> 'v log_site \<Rightarrow> 'v log_site" where
  [log_defs]: "STONE_LOG_WARNING_IF env logger condition with_st kvs = STONE_LOG_X_IF env logger condition with_st LOG_LEVEL_WARNING kvs"

definition STONE_LOG_WARNING_BEGIN :: "log_env \<Rightarrow> Logger \<Rightarrow> 'v log_site \<Rightarrow> 'v log_block \<times> 'v log_site" where
  [log_defs]: "STONE_LOG_WARNING_BEGIN env logger = STONE_LOG_X_BEGIN env logger LOG_LEVEL_WARNING"

definition STONE_LOG_WARNING_SAMPLED ::
  "log_env \<Rightarrow> Logger \<Rightarrow> u64 \<Rightarrow> (u64 \<Rightarrow> u64 \<Rightarrow> u64) \<Rightarrow> 'v fields \<Rightarrow> 'v log_site \<Rightarrow> 'v log_site" where
  [log_defs]: "STONE_LOG_WARNING_SAMPLED env logger init_next next_func kvs = STONE_LOG_X_SAMPLED env logger init_next next_func LOG_LEVEL_WARNING kvs"

definition STONE_LOG_ERROR :: "log_env \<Rightarrow> Logger \<Rightarrow> 'v fields \<Rightarrow> 'v log_site \<Rightarrow> 'v log_site" where
  [log_defs]: "STONE_LOG_ERROR env logger kvs = STONE_LOG_X env logger LOG_LEVEL_ERROR kvs"

definition STONE_LOG_ERROR_IF :: "log_env \<Rightarrow> Logger \<Rightarrow> bool \<Rightarrow> bool \<Rightarrow> 'v fields \<Rightarrow> 'v log_site \<Rightarrow> 'v log_site" where
  [log_defs]: "STONE_LOG_ERROR_IF env logger condition with_st kvs = STONE_LOG_X_IF env logger condition with_st LOG_LEVEL_ERROR kvs"

definition STONE_LOG_ERROR_BEGIN :: "log_env \<Rightarrow> Logger \<Rightarrow> 'v log_site \<Rightarrow> 'v log_block \<times> 'v log_site" where
  [log_defs]: "STONE_LOG_ERROR_BEGIN env logger = STONE_LOG_X_BEGIN env logger LOG_LEVEL_ERROR"

definition STONE_LOG_ERROR_SAMPLED ::
  "log_env \<Rightarrow> Logger \<Rightarrow> u64 \<Rightarrow> (u64 \<Rightarrow> u64 \<Rightarrow> u64) \<Rightarrow> 'v fields \<Rightarrow> 'v log_site \<Rightarrow> 'v log_site" where
  [log_defs]: "STONE_LOG_ERROR_SAMPLED env logger init_next next_func kvs = STONE_LOG_X_SAMPLED env logger init_next next_func LOG_LEVEL_ERROR kvs"

definition STONE_LOG_FATAL :: "log_env \<Rightarrow> Logger \<Rightarrow> 'v fields \<Rightarrow> 'v log_site \<Rightarrow> 'v log_site" where
  [log_defs]: "STONE_LOG_FATAL env logger kvs = STONE_LOG_X env logger LOG_LEVEL_FATAL kvs"

definition STONE_LOG_FATAL_IF :: "log_env \<Rightarrow> Logger \<Rightarrow> bool \<Rightarrow> bool \<Rightarrow> 'v fields \<Rightarrow> 'v log_site \<Rightarrow> 'v log_site" where
  [log_defs]: "STONE_LOG_FATAL_IF env logger condition with_st kvs = STONE_LOG_X_IF env logger condition with_st LOG_LEVEL_FATAL kvs"

definition STONE_LOG_FATAL_BEGIN :: "log_env \<Rightarrow> Logger \<Rightarrow> 'v log_site \<Rightarrow> 'v log_block \<times> 'v log_site" where
  [log_defs]: "STONE_LOG_FATAL_BEGIN env logger = STONE_LOG_X_BEGIN env logger LOG_LEVEL_FATAL"

section \<open>Log records\<close>

datatype Variant = BOOL bool | INT64 u64 | DOUBLE_bits u64 | STRING string

record LogRecord =
  mLogger :: string
  rec_level :: LogLevel
  rec_file :: string
  rec_function :: string
  rec_line :: int
  mTid :: int
  mTime :: "int \<times> int"
  mStackTrace :: string
  mItems :: "(string \<times> Variant) list"
  rec_mRefCnt :: int

definition LogRecord_GetLoggerName :: "LogRecord \<Rightarrow> string" where
  "LogRecord_GetLoggerName r = mLogger r"

definition LogRecord_GetLogLevel :: "LogRecord \<Rightarrow> LogLevel" where
  "LogRecord_GetLogLevel r = rec_level r"

definition LogRecord_GetFileName :: "LogRecord \<Rightarrow> string" where
  "LogRecord_GetFileName r = rec_file r"

definition LogRecord_GetFunctionName :: "LogRecord \<Rightarrow> string" where
  "LogRecord_GetFunctionName r = rec_function r"

definition LogRecord_GetLineNum :: "LogRecord \<Rightarrow> int" where
  "LogRecord_GetLineNum r = rec_line r"

definition LogRecord_GetTid :: "LogRecord \<Rightarrow> int" where
  "LogRecord_GetTid r = mTid r"

definition LogRecord_GetTime :: "LogRecord \<Rightarrow> int \<times> int" where
  "LogRecord_GetTime r = mTime r"

definition LogRecord_GetStackTrace :: "LogRecord \<Rightarrow> string" where
  "LogRecord_GetStackTrace r = mStackTrace r"

definition LogRecord_Add :: "string \<times> Variant \<Rightarrow> LogRecord \<Rightarrow> LogRecord" where
  "LogRecord_Add item r = r\<lparr>mItems := mItems r @ [item]\<rparr>"

definition LogRecord_Size :: "LogRecord \<Rightarrow> nat" where
  "LogRecord_Size r = length (mItems r)"

definition LogRecord_Item :: "nat \<Rightarrow> LogRecord \<Rightarrow> (string \<times> Variant) result" where
  "LogRecord_Item idx r = (if idx < length (mItems r) then Inr (mItems r ! idx) else Inl Out_of_bounds)"

section \<open>SinkConfig\<close>

type_synonym SinkConfig = "string \<rightharpoonup> string"

definition SinkConfig_Get_string :: "SinkConfig \<Rightarrow> string \<Rightarrow> string \<Rightarrow> bool \<times> string" where
  \<comment> \<open>the result and \<open>*val\<close>; the last argument is \<open>*val\<close> before the call\<close>
  "SinkConfig_Get_string c key val = (case c key of None \<Rightarrow> (False, val) | Some v \<Rightarrow> (True, v))"

definition SinkConfig_Get :: "(string \<Rightarrow> 'a \<Rightarrow> 'a) \<Rightarrow> SinkConfig \<Rightarrow> string \<Rightarrow> 'a \<Rightarrow> bool \<times> 'a" where
  \<comment> \<open>\<open>extract text val\<close> is \<open>ss >> *val\<close> for the type \<open>T\<close>\<close>
  "SinkConfig_Get extract c key val = (case c key of None \<Rightarrow> (False, val) | Some v \<Rightarrow> (True, extract v val))"

definition tolower_char :: "char \<Rightarrow> char" where
  "tolower_char ch = (if CHR ''A'' \<le> ch \<and> ch \<le> CHR ''Z'' then char_of (of_char ch + 32 :: nat) else ch)"

definition c_string :: "string \<Rightarrow> string" where
  \<comment> \<open>\<open>c_str()\<close> as a function on zero-terminated strings sees it\<close>
  "c_string s = takeWhile (\<lambda>ch. ch \<noteq> CHR 0x00) s"

definition strcasecmp_eq :: "string \<Rightarrow> string \<Rightarrow> bool" where
  \<comment> \<open>\<open>strcasecmp(a, b) == 0\<close>\<close>
  "strcasecmp_eq a b \<longleftrightarrow> map tolower_char (c_string a) = map tolower_char (c_string b)"

definition SinkConfig_Get_bool :: "SinkConfig \<Rightarrow> string \<Rightarrow> bool \<Rightarrow> bool \<times> bool" where
  "SinkConfig_Get_bool c key flag =
     (let (found, val) = SinkConfig_Get_string c key []
      in if \<not> found then (False, flag) else (True, strcasecmp_eq val ''true'' \<or> strcasecmp_eq val ''yes''))"

definition SinkConfig_Get_default :: "('a \<Rightarrow> bool \<times> 'a) \<Rightarrow> 'a \<Rightarrow> 'a \<Rightarrow> 'a" where
  \<comment> \<open>for any of the functions above, \<open>*val\<close> before the call and \<open>defVal\<close>\<close>
  "SinkConfig_Get_default get val defVal = (let (found, v) = get val in if found then v else defVal)"

definition SinkConfig_Add :: "SinkConfig \<Rightarrow> string \<Rightarrow> string \<Rightarrow> bool \<times> SinkConfig" where
  "SinkConfig_Add c key val = (case c key of None \<Rightarrow> (True, c(key \<mapsto> val)) | Some _ \<Rightarrow> (False, c))"

section \<open>Blocks and statements\<close>

lemma fields_enabled:
  "fold (\<lambda>(k, v). STONE_LOG_FIELD k v) kvs b =
   (if blk_enabled b then b\<lparr>blk_builder := map_option (\<lambda>c. c\<lparr>call_fields := call_fields c @ kvs\<rparr>) (blk_builder b)\<rparr> else b)"
  by (induction kvs arbitrary: b) (auto simp: STONE_LOG_FIELD_def option.map_comp comp_def option.map_ident)

text \<open>
  C36. A block \<open>STONE_LOG_X_BEGIN\<close>, any number of \<open>STONE_LOG_FIELD\<close>, \<open>STONE_LOG_X_END\<close> does exactly what one statement
  \<open>STONE_LOG_X\<close> with all the fields does, in every state of the site, the logger and the thread.
\<close>

theorem log_block_equals_statement:
  "(let (b, site1) = STONE_LOG_X_BEGIN env logger level site
    in STONE_LOG_X_END (fold (\<lambda>(k, v). STONE_LOG_FIELD k v) kvs b) site1) = STONE_LOG_X env logger level kvs site"
  by (simp add: fields_enabled log_defs append_call_def Let_def del: fold.simps)

section \<open>Sampled statements\<close>

definition const_next :: "nat \<Rightarrow> nat \<Rightarrow> nat" where "const_next i c = i"
definition linear_next :: "nat \<Rightarrow> nat \<Rightarrow> nat" where "linear_next i c = c + i"
definition double_next :: "nat \<Rightarrow> nat \<Rightarrow> nat" where "double_next i c = c * 2"

primrec nxt_after :: "(nat \<Rightarrow> nat \<Rightarrow> nat) \<Rightarrow> nat \<Rightarrow> nat \<Rightarrow> nat" where
  \<comment> \<open>the counter that is logged next, after \<open>n\<close> executions\<close>
  "nxt_after f i 0 = i"
| "nxt_after f i (Suc n) = (if Suc n = nxt_after f i n then f i (Suc n) else nxt_after f i n)"

lemma nxt_const: "nxt_after const_next i n = i"
  by (induction n) (simp_all add: const_next_def)

lemma nxt_linear:
  assumes "0 < i"
  shows "\<exists>m. nxt_after linear_next i n = m * i \<and> n < m * i \<and> m * i \<le> n + i"
proof (induction n)
  case 0
  then show ?case using assms by (intro exI [of _ 1]) simp
next
  case (Suc n)
  then obtain m where m: "nxt_after linear_next i n = m * i" "n < m * i" "m * i \<le> n + i" by blast
  show ?case
  proof (cases "Suc n = m * i")
    case True
    then have hit: "Suc n = nxt_after linear_next i n" using m(1) by simp
    have "nxt_after linear_next i (Suc n) = Suc n + i" unfolding nxt_after.simps if_P [OF hit] linear_next_def ..
    then show ?thesis using True assms by (intro exI [of _ "m + 1"]) simp
  next
    case False
    then show ?thesis using m by (intro exI [of _ m]) simp
  qed
qed

lemma nxt_linear_hit:
  assumes "0 < i"
  shows "Suc n = nxt_after linear_next i n \<longleftrightarrow> i dvd Suc n"
proof
  obtain m where m: "nxt_after linear_next i n = m * i" "n < m * i" "m * i \<le> n + i" using nxt_linear [OF assms] by blast
  show "i dvd Suc n" if "Suc n = nxt_after linear_next i n" using that m(1) by simp
  assume "i dvd Suc n"
  then obtain q where q: "Suc n = q * i" by (metis dvdE mult.commute)
  have "m * i < Suc q * i" using m(3) q by simp
  then have "m \<le> q" unfolding mult_less_cancel2 by simp
  moreover have "q \<le> m" using m(2) q assms by (metis Suc_leI mult_le_cancel2)
  ultimately show "Suc n = nxt_after linear_next i n" using q m(1) by simp
qed

lemma nxt_double:
  assumes "0 < i"
  shows "\<exists>j. nxt_after double_next i n = i * 2 ^ j \<and> n < i * 2 ^ j \<and> (j = 0 \<or> i * 2 ^ j \<le> 2 * n)"
proof (induction n)
  case 0
  then show ?case using assms by (intro exI [of _ 0]) simp
next
  case (Suc n)
  then obtain j where j: "nxt_after double_next i n = i * 2 ^ j" "n < i * 2 ^ j" "j = 0 \<or> i * 2 ^ j \<le> 2 * n" by blast
  show ?case
  proof (cases "Suc n = i * 2 ^ j")
    case True
    then have hit: "Suc n = nxt_after double_next i n" using j(1) by simp
    have "nxt_after double_next i (Suc n) = Suc n * 2" unfolding nxt_after.simps if_P [OF hit] double_next_def ..
    then show ?thesis using True assms by (intro exI [of _ "j + 1"]) simp
  next
    case False
    then show ?thesis using j by (intro exI [of _ j]) auto
  qed
qed

lemma nxt_double_hit:
  assumes "0 < i"
  shows "Suc n = nxt_after double_next i n \<longleftrightarrow> (\<exists>j. Suc n = i * 2 ^ j)"
proof
  obtain j where j: "nxt_after double_next i n = i * 2 ^ j" "n < i * 2 ^ j" "j = 0 \<or> i * 2 ^ j \<le> 2 * n"
    using nxt_double [OF assms] by blast
  show "\<exists>j. Suc n = i * 2 ^ j" if "Suc n = nxt_after double_next i n" using that j(1) by metis
  assume "\<exists>k. Suc n = i * 2 ^ k"
  then obtain k where k: "Suc n = i * 2 ^ k" by blast
  then have "i * 2 ^ k \<le> i * 2 ^ j" using j(2) by linarith
  then have "k \<le> j" using assms by simp
  moreover have False if "k < j"
  proof -
    have "(2 :: nat) ^ Suc k \<le> 2 ^ j" using that by (intro power_increasing) simp_all
    then have "i * 2 ^ Suc k \<le> i * 2 ^ j" by (rule mult_le_mono2)
    then have "2 * Suc n \<le> i * 2 ^ j" using k by simp
    then show False using j(3) that by simp
  qed
  ultimately show "Suc n = nxt_after double_next i n" using k j(1) by (metis le_neq_implies_less)
qed

definition sampling :: "log_env \<Rightarrow> Logger \<Rightarrow> LogLevel \<Rightarrow> 'v log_site \<Rightarrow> bool" where
  \<comment> \<open>a statement that was not executed yet, whose level is enabled\<close>
  "sampling env logger level site \<longleftrightarrow> sNext site = None \<and> mCounter (static_info env level False site) = 0 \<and>
     Logger_GetMinLevel logger \<le> LogInfo_Level (static_info env level False site) \<and>
     LogInfo_Enabled (static_info env level False site) \<and> ThreadLogEnabled env"

definition sampled_run ::
  "log_env \<Rightarrow> Logger \<Rightarrow> LogLevel \<Rightarrow> 'v fields \<Rightarrow> nat \<Rightarrow> (u64 \<Rightarrow> u64 \<Rightarrow> u64) \<Rightarrow> nat \<Rightarrow> 'v log_site \<Rightarrow> 'v log_site" where
  \<comment> \<open>\<open>n\<close> executions of the statement\<close>
  "sampled_run env logger level kvs i g n site = (STONE_LOG_X_SAMPLED env logger (of_nat i) g level kvs ^^ n) site"

lemma sampled_state:
  fixes kvs :: "'v fields" and site :: "'v log_site"
  assumes "sampling env logger level site" and "\<And>m. m \<le> n \<Longrightarrow> nxt_after f i m < 2 ^ 64" and "n < 2 ^ 64"
    and "\<And>m. m \<le> n \<Longrightarrow> g (of_nat i) (of_nat m) = of_nat (f i m)"
  defines "run \<equiv> \<lambda>m. sampled_run env logger level kvs i g m site"
  shows "(case sNext (run n) of None \<Rightarrow> of_nat i | Some k \<Rightarrow> k) = of_nat (nxt_after f i n) \<and>
    static_info env level False (run n) = (static_info env level False site)\<lparr>mCounter := of_nat n\<rparr>"
  using assms(2-4)
proof (induction n)
  case 0
  then show ?case using assms(1) by (cases "static_info env level False site") (simp add: run_def sampled_run_def sampling_def)
next
  case (Suc n)
  have IH: "(case sNext (run n) of None \<Rightarrow> of_nat i | Some k \<Rightarrow> k) = (of_nat (nxt_after f i n) :: u64)"
    "static_info env level False (run n) = (static_info env level False site)\<lparr>mCounter := of_nat n\<rparr>"
    using Suc.IH Suc.prems by simp_all
  have run: "run (Suc n) = STONE_LOG_X_SAMPLED env logger (of_nat i) g level kvs (run n)" by (simp add: run_def sampled_run_def)
  have eq: "(of_nat (Suc n) :: u64) = of_nat (nxt_after f i n) \<longleftrightarrow> Suc n = nxt_after f i n"
    using of_nat_eq_iff_small [of "Suc n" "nxt_after f i n", where 'a = 64] Suc.prems(1) [of n] Suc.prems(2) by simp
  show ?case
    using IH eq assms(1) Suc.prems(3) [of "Suc n"] unfolding run
    by (auto simp: log_defs Let_def sampling_def static_info_def add.commute)
qed

lemma sampled_logs:
  fixes kvs :: "'v fields" and site :: "'v log_site"
  assumes "sampling env logger level site" and "\<And>m. m \<le> n \<Longrightarrow> nxt_after f i m < 2 ^ 64" and "Suc n < 2 ^ 64"
    and "\<And>m. m \<le> n \<Longrightarrow> g (of_nat i) (of_nat m) = of_nat (f i m)"
  defines "run \<equiv> \<lambda>m. sampled_run env logger level kvs i g m site"
  shows "length (calls (run (Suc n))) = length (calls (run n)) + (if Suc n = nxt_after f i n then 1 else 0)"
proof -
  have st: "(case sNext (run n) of None \<Rightarrow> of_nat i | Some k \<Rightarrow> k) = (of_nat (nxt_after f i n) :: u64)"
    "static_info env level False (run n) = (static_info env level False site)\<lparr>mCounter := of_nat n\<rparr>"
    using sampled_state [of env logger level site n f i g kvs, OF assms(1)] assms(2-4) by (simp_all add: run_def)
  have eq: "1 + (of_nat n :: u64) = of_nat (nxt_after f i n) \<longleftrightarrow> Suc n = nxt_after f i n"
    using of_nat_eq_iff_small [of "Suc n" "nxt_after f i n", where 'a = 64] assms(2) [of n] assms(3) by simp
  have "run (Suc n) = STONE_LOG_X_SAMPLED env logger (of_nat i) g level kvs (run n)" by (simp add: run_def sampled_run_def)
  then show ?thesis
    using st eq assms(1) by (simp add: log_defs Let_def sampling_def add.commute)
qed

text \<open>
  A sampled statement, executed again and again with its level enabled: with \<open>LINEAR_NEXT\<close> exactly the executions whose
  number is a multiple of \<open>init\<close> are logged, with \<open>DOUBLE_NEXT\<close> exactly those with the numbers \<open>init\<close>, \<open>2 * init\<close>,
  \<open>4 * init\<close> and so on, and with \<open>CONST_NEXT\<close> only the one with number \<open>init\<close>, once and never again.
\<close>

theorem sampled_log_positions:
  assumes "sampling env logger level site" and "0 < i" and "i < 2 ^ 62" and "n < 2 ^ 62"
  shows "length (calls (sampled_run env logger level kvs i LINEAR_NEXT (Suc n) site)) = length (calls (sampled_run env logger level kvs i LINEAR_NEXT n site)) + (if i dvd Suc n then 1 else 0) \<and>
    length (calls (sampled_run env logger level kvs i DOUBLE_NEXT (Suc n) site)) = length (calls (sampled_run env logger level kvs i DOUBLE_NEXT n site)) + (if \<exists>j. Suc n = i * 2 ^ j then 1 else 0) \<and>
    length (calls (sampled_run env logger level kvs i CONST_NEXT (Suc n) site)) = length (calls (sampled_run env logger level kvs i CONST_NEXT n site)) + (if Suc n = i then 1 else 0)"
proof -
  have lin: "nxt_after linear_next i m < 2 ^ 64" if "m \<le> n" for m
    using nxt_linear [OF assms(2), of m] that assms(3,4) by auto
  have dbl: "nxt_after double_next i m < 2 ^ 64" if "m \<le> n" for m
    using nxt_double [OF assms(2), of m] that assms(3,4) by auto
  have n: "Suc n < 2 ^ 64" using assms(4) by simp
  have "length (calls (sampled_run env logger level kvs i LINEAR_NEXT (Suc n) site)) = length (calls (sampled_run env logger level kvs i LINEAR_NEXT n site)) + (if i dvd Suc n then 1 else 0)"
    using sampled_logs [OF assms(1) lin n, of LINEAR_NEXT kvs] nxt_linear_hit [OF assms(2), of n]
    by (simp add: LINEAR_NEXT_def linear_next_def)
  moreover have "length (calls (sampled_run env logger level kvs i DOUBLE_NEXT (Suc n) site)) = length (calls (sampled_run env logger level kvs i DOUBLE_NEXT n site)) + (if \<exists>j. Suc n = i * 2 ^ j then 1 else 0)"
    using sampled_logs [OF assms(1) dbl n, of DOUBLE_NEXT kvs] nxt_double_hit [OF assms(2), of n]
    by (simp add: DOUBLE_NEXT_def double_next_def)
  moreover have "length (calls (sampled_run env logger level kvs i CONST_NEXT (Suc n) site)) = length (calls (sampled_run env logger level kvs i CONST_NEXT n site)) + (if Suc n = i then 1 else 0)"
    using sampled_logs [of env logger level site n const_next i CONST_NEXT kvs, OF assms(1) _ n] assms(3)
    by (simp add: CONST_NEXT_def const_next_def nxt_const)
  ultimately show ?thesis by blast
qed

definition example_env :: log_env where
  "example_env = \<lparr>new_LogInfo = (\<lambda>f l lv st. \<lparr>mEnabled = True, mStackTraceEnabled = st, mDefaultLevel = lv, mLevel = lv,
     mCounter = 0, mFile = f, mLine = l\<rparr>), gThreadLogEnabled = True, env_file = ''a.cpp'', env_function = ''f'', env_line = 7,
     env_stack = []\<rparr>"

theorem sampled_log_positions_witness:
  "length (calls (sampled_run example_env \<lparr>mPath = ''/a'', mMinLevel = LOG_LEVEL_INFO, mInherited = False, mSinkMap = Map.empty\<rparr>
       LOG_LEVEL_ERROR [(''k'', 1 :: nat)] 3 LINEAR_NEXT (Suc 5) \<lparr>sInfo = None, sNext = None, calls = []\<rparr>)) =
   length (calls (sampled_run example_env \<lparr>mPath = ''/a'', mMinLevel = LOG_LEVEL_INFO, mInherited = False, mSinkMap = Map.empty\<rparr>
       LOG_LEVEL_ERROR [(''k'', 1 :: nat)] 3 LINEAR_NEXT 5 \<lparr>sInfo = None, sNext = None, calls = []\<rparr>)) + 1"
proof -
  let ?lg = "\<lparr>mPath = ''/a'', mMinLevel = LOG_LEVEL_INFO, mInherited = False, mSinkMap = Map.empty\<rparr>"
  let ?site = "\<lparr>sInfo = None, sNext = None, calls = []\<rparr> :: nat log_site"
  have "sampling example_env ?lg LOG_LEVEL_ERROR ?site"
    by (simp add: sampling_def static_info_def example_env_def log_defs less_eq_LogLevel_def)
  note pos = sampled_log_positions [of example_env ?lg LOG_LEVEL_ERROR ?site 3 5 "[(''k'', 1 :: nat)]", OF this]
  have "(3 :: nat) dvd Suc 5" by (rule dvdI [of _ _ 2]) simp
  then show ?thesis using pos [THEN conjunct1] by simp
qed

section \<open>Configuration of a sink\<close>

definition SinkConfig_of :: "(string \<times> string) list \<Rightarrow> SinkConfig" where
  \<comment> \<open>an empty configuration after one \<open>Add\<close> for every pair\<close>
  "SinkConfig_of kvs = fold (\<lambda>(k, v) c. snd (SinkConfig_Add c k v)) kvs Map.empty"

text \<open>
  \<open>SinkConfig\<close> keeps the first value that is added for a key: after any sequence of \<open>Add\<close>, \<open>Get\<close> finds a key exactly when
  it was added and yields the value of its first \<open>Add\<close>, a flag is true exactly when that value is \<open>true\<close> or \<open>yes\<close> in any
  mixture of cases, and \<open>Get\<close> with a default yields the default exactly for a missing key.
\<close>

theorem sink_config_lookup:
  shows "SinkConfig_Get_string (SinkConfig_of kvs) key val = (case map_of kvs key of None \<Rightarrow> (False, val) | Some v \<Rightarrow> (True, v)) \<and>
    SinkConfig_Get_bool (SinkConfig_of kvs) key flag = (case map_of kvs key of None \<Rightarrow> (False, flag)
      | Some v \<Rightarrow> (True, map tolower_char (c_string v) = ''true'' \<or> map tolower_char (c_string v) = ''yes'')) \<and>
    SinkConfig_Get_default (SinkConfig_Get_string (SinkConfig_of kvs) key) val d = (case map_of kvs key of None \<Rightarrow> d | Some v \<Rightarrow> v) \<and>
    fst (SinkConfig_Add (SinkConfig_of kvs) key val) = (map_of kvs key = None)"
proof -
  have "fold (\<lambda>(k, v) c. snd (SinkConfig_Add c k v)) kvs c0 = map_of kvs ++ c0" for c0 :: SinkConfig
    by (induction kvs arbitrary: c0) (auto simp: SinkConfig_Add_def map_add_def fun_eq_iff split: option.splits)
  then have c: "SinkConfig_of kvs = map_of kvs" by (simp add: SinkConfig_of_def)
  have "map tolower_char (c_string ''true'') = ''true''" "map tolower_char (c_string ''yes'') = ''yes''"
    by (simp_all add: c_string_def tolower_char_def less_eq_char_def)
  then show ?thesis
    unfolding c by (simp add: SinkConfig_Get_string_def SinkConfig_Get_bool_def SinkConfig_Get_default_def SinkConfig_Add_def
        strcasecmp_eq_def split: option.split)
qed

end
