(* ===== verification/Stone_Logging_Compat.thy ===== *)
theory Stone_Logging_Compat
  imports Stone_Logging
begin

text \<open>
  The rest of the macros of \<^verbatim>\<open>logging/logging.h\<close>: the ends of blocks and the formatted statements of each level,
  \<open>STONE_LOG_CALL\<close>, the old interface under \<open>ENABLE_LOGGING_COMPATIBILITY\<close> and the trace statements. What the
  \<^verbatim>\<open>printf\<close>-like operator of \<open>LogBuilder\<close> adds for a buffer size and arguments, and the constructor of
  \<open>CallTracer\<close>, come from the binary library and are arguments; the trace information of the thread, its id and
  the time are components of an extended environment. \<open>LOG_X\<close>, \<open>LOG_X_IF\<close>, \<open>STONE_LOG_FATAL_SAMPLED\<close> and
  \<open>LOG_FATAL_SAMPLED\<close> pass their arguments in an order that no use of them compiles with; they have no
  definition here.
\<close>

section \<open>Ends of blocks and formatted statements\<close>

definition kDefaultLogFormattedBufferSize :: "int" where
  "kDefaultLogFormattedBufferSize = 4096"

definition STONE_LOG_DEBUG_END :: "'v log_block \<Rightarrow> 'v log_site \<Rightarrow> 'v log_site" where
  [log_defs]: "STONE_LOG_DEBUG_END = STONE_LOG_X_END"

definition STONE_LOG_DEBUG_F :: "log_env \<Rightarrow> (int \<Rightarrow> 'a \<Rightarrow> 'v fields) \<Rightarrow> Logger \<Rightarrow> 'a \<Rightarrow> 'v log_site \<Rightarrow> 'v log_site" where
  [log_defs]: "STONE_LOG_DEBUG_F env fmt logger args = STONE_LOG_DEBUG env logger (fmt kDefaultLogFormattedBufferSize args)"

definition STONE_LOG_INFO_END :: "'v log_block \<Rightarrow> 'v log_site \<Rightarrow> 'v log_site" where
  [log_defs]: "STONE_LOG_INFO_END = STONE_LOG_X_END"

definition STONE_LOG_INFO_F :: "log_env \<Rightarrow> (int \<Rightarrow> 'a \<Rightarrow> 'v fields) \<Rightarrow> Logger \<Rightarrow> 'a \<Rightarrow> 'v log_site \<Rightarrow> 'v log_site" where
  [log_defs]: "STONE_LOG_INFO_F env fmt logger args = STONE_LOG_INFO env logger (fmt kDefaultLogFormattedBufferSize args)"

definition STONE_LOG_WARNING_END :: "'v log_block \<Rightarrow> 'v log_site \<Rightarrow> 'v log_site" where
  [log_defs]: "STONE_LOG_WARNING_END = STONE_LOG_X_END"

definition STONE_LOG_WARNING_F :: "log_env \<Rightarrow> (int \<Rightarrow> 'a \<Rightarrow> 'v fields) \<Rightarrow> Logger \<Rightarrow> 'a \<Rightarrow> 'v log_site \<Rightarrow> 'v log_site" where
  [log_defs]: "STONE_LOG_WARNING_F env fmt logger args = STONE_LOG_WARNING env logger (fmt kDefaultLogFormattedBufferSize args)"

definition STONE_LOG_ERROR_END :: "'v log_block \<Rightarrow> 'v log_site \<Rightarrow> 'v log_site" where
  [log_defs]: "STONE_LOG_ERROR_END = STONE_LOG_X_END"

definition STONE_LOG_ERROR_F :: "log_env \<Rightarrow> (int \<Rightarrow> 'a \<Rightarrow> 'v fields) \<Rightarrow> Logger \<Rightarrow> 'a \<Rightarrow> 'v log_site \<Rightarrow> 'v log_site" where
  [log_defs]: "STONE_LOG_ERROR_F env fmt logger args = STONE_LOG_ERROR env logger (fmt kDefaultLogFormattedBufferSize args)"

definition STONE_LOG_FATAL_END :: "'v log_block \<Rightarrow> 'v log_site \<Rightarrow> 'v log_site" where
  [log_defs]: "STONE_LOG_FATAL_END = STONE_LOG_X_END"

definition STONE_LOG_FATAL_F :: "log_env \<Rightarrow> (int \<Rightarrow> 'a \<Rightarrow> 'v fields) \<Rightarrow> Logger \<Rightarrow> 'a \<Rightarrow> 'v log_site \<Rightarrow> 'v log_site" where
  [log_defs]: "STONE_LOG_FATAL_F env fmt logger args = STONE_LOG_FATAL env logger (fmt kDefaultLogFormattedBufferSize args)"

section \<open>Call statements\<close>

definition STONE_LOG_CALL :: "log_env \<Rightarrow> (string \<Rightarrow> 'v) \<Rightarrow> (Logger \<Rightarrow> LogLevel \<Rightarrow> string \<Rightarrow> 't) \<Rightarrow> Logger \<Rightarrow> LogLevel \<Rightarrow> 'v fields \<Rightarrow> 'v log_site \<Rightarrow> 'v log_site \<times> 't" where
  [log_defs]: "STONE_LOG_CALL env str CallTracer logger level kvs site =
     (STONE_LOG_X env logger level ((''Enter'', str (env_function env)) # kvs) site,
      CallTracer logger level (env_function env))"

definition STONE_LOG_CALL_DEBUG :: "log_env \<Rightarrow> (string \<Rightarrow> 'v) \<Rightarrow> (Logger \<Rightarrow> LogLevel \<Rightarrow> string \<Rightarrow> 't) \<Rightarrow> Logger \<Rightarrow> 'v fields \<Rightarrow> 'v log_site \<Rightarrow> 'v log_site \<times> 't" where
  [log_defs]: "STONE_LOG_CALL_DEBUG env str CallTracer logger = STONE_LOG_CALL env str CallTracer logger LOG_LEVEL_DEBUG"

definition STONE_LOG_CALL_INFO :: "log_env \<Rightarrow> (string \<Rightarrow> 'v) \<Rightarrow> (Logger \<Rightarrow> LogLevel \<Rightarrow> string \<Rightarrow> 't) \<Rightarrow> Logger \<Rightarrow> 'v fields \<Rightarrow> 'v log_site \<Rightarrow> 'v log_site \<times> 't" where
  [log_defs]: "STONE_LOG_CALL_INFO env str CallTracer logger = STONE_LOG_CALL env str CallTracer logger LOG_LEVEL_INFO"

definition STONE_LOG_CALL_WARNING :: "log_env \<Rightarrow> (string \<Rightarrow> 'v) \<Rightarrow> (Logger \<Rightarrow> LogLevel \<Rightarrow> string \<Rightarrow> 't) \<Rightarrow> Logger \<Rightarrow> 'v fields \<Rightarrow> 'v log_site \<Rightarrow> 'v log_site \<times> 't" where
  [log_defs]: "STONE_LOG_CALL_WARNING env str CallTracer logger = STONE_LOG_CALL env str CallTracer logger LOG_LEVEL_WARNING"

definition STONE_LOG_CALL_ERROR :: "log_env \<Rightarrow> (string \<Rightarrow> 'v) \<Rightarrow> (Logger \<Rightarrow> LogLevel \<Rightarrow> string \<Rightarrow> 't) \<Rightarrow> Logger \<Rightarrow> 'v fields \<Rightarrow> 'v log_site \<Rightarrow> 'v log_site \<times> 't" where
  [log_defs]: "STONE_LOG_CALL_ERROR env str CallTracer logger = STONE_LOG_CALL env str CallTracer logger LOG_LEVEL_ERROR"

definition STONE_LOG_CALL_FATAL :: "log_env \<Rightarrow> (string \<Rightarrow> 'v) \<Rightarrow> (Logger \<Rightarrow> LogLevel \<Rightarrow> string \<Rightarrow> 't) \<Rightarrow> Logger \<Rightarrow> 'v fields \<Rightarrow> 'v log_site \<Rightarrow> 'v log_site \<times> 't" where
  [log_defs]: "STONE_LOG_CALL_FATAL env str CallTracer logger = STONE_LOG_CALL env str CallTracer logger LOG_LEVEL_FATAL"

section \<open>The old interface\<close>

definition LOG_X_BEGIN :: "log_env \<Rightarrow> Logger \<Rightarrow> LogLevel \<Rightarrow> 'v log_site \<Rightarrow> 'v log_block \<times> 'v log_site" where
  [log_defs]: "LOG_X_BEGIN = STONE_LOG_X_BEGIN"

definition LOG_FIELD :: "string \<Rightarrow> 'v \<Rightarrow> 'v log_block \<Rightarrow> 'v log_block" where
  [log_defs]: "LOG_FIELD = STONE_LOG_FIELD"

definition LOG_X_END :: "'v log_block \<Rightarrow> 'v log_site \<Rightarrow> 'v log_site" where
  [log_defs]: "LOG_X_END = STONE_LOG_X_END"

definition LOG_X_SAMPLED :: "log_env \<Rightarrow> Logger \<Rightarrow> u64 \<Rightarrow> (u64 \<Rightarrow> u64 \<Rightarrow> u64) \<Rightarrow> LogLevel \<Rightarrow> 'v fields \<Rightarrow> 'v log_site \<Rightarrow> 'v log_site" where
  [log_defs]: "LOG_X_SAMPLED = STONE_LOG_X_SAMPLED"

definition LOG_DEBUG :: "log_env \<Rightarrow> Logger \<Rightarrow> 'v fields \<Rightarrow> 'v log_site \<Rightarrow> 'v log_site" where
  [log_defs]: "LOG_DEBUG = STONE_LOG_DEBUG"

definition LOG_DEBUG_IF :: "log_env \<Rightarrow> Logger \<Rightarrow> bool \<Rightarrow> 'v fields \<Rightarrow> 'v log_site \<Rightarrow> 'v log_site" where
  [log_defs]: "LOG_DEBUG_IF env logger condition = STONE_LOG_DEBUG_IF env logger condition False"

definition LOG_DEBUG_BEGIN :: "log_env \<Rightarrow> Logger \<Rightarrow> 'v log_site \<Rightarrow> 'v log_block \<times> 'v log_site" where
  [log_defs]: "LOG_DEBUG_BEGIN = STONE_LOG_DEBUG_BEGIN"

definition LOG_DEBUG_END :: "'v log_block \<Rightarrow> 'v log_site \<Rightarrow> 'v log_site" where
  [log_defs]: "LOG_DEBUG_END = STONE_LOG_DEBUG_END"

definition LOG_DEBUG_SAMPLED :: "log_env \<Rightarrow> Logger \<Rightarrow> u64 \<Rightarrow> (u64 \<Rightarrow> u64 \<Rightarrow> u64) \<Rightarrow> 'v fields \<Rightarrow> 'v log_site \<Rightarrow> 'v log_site" where
  [log_defs]: "LOG_DEBUG_SAMPLED = STONE_LOG_DEBUG_SAMPLED"

definition LOG_DEBUG_F :: "log_env \<Rightarrow> (int \<Rightarrow> 'a \<Rightarrow> 'v fields) \<Rightarrow> Logger \<Rightarrow> 'a \<Rightarrow> 'v log_site \<Rightarrow> 'v log_site" where
  [log_defs]: "LOG_DEBUG_F = STONE_LOG_DEBUG_F"

definition LOG_INFO :: "log_env \<Rightarrow> Logger \<Rightarrow> 'v fields \<Rightarrow> 'v log_site \<Rightarrow> 'v log_site" where
  [log_defs]: "LOG_INFO = STONE_LOG_INFO"

definition LOG_INFO_IF :: "log_env \<Rightarrow> Logger \<Rightarrow> bool \<Rightarrow> 'v fields \<Rightarrow> 'v log_site \<Rightarrow> 'v log_site" where
  [log_defs]: "LOG_INFO_IF env logger condition = STONE_LOG_INFO_IF env logger condition False"

definition LOG_INFO_BEGIN :: "log_env \<Rightarrow> Logger \<Rightarrow> 'v log_site \<Rightarrow> 'v log_block \<times> 'v log_site" where
  [log_defs]: "LOG_INFO_BEGIN = STONE_LOG_INFO_BEGIN"

definition LOG_INFO_END :: "'v log_block \<Rightarrow> 'v log_site \<Rightarrow> 'v log_site" where
  [log_defs]: "LOG_INFO_END = STONE_LOG_INFO_END"

definition LOG_INFO_SAMPLED :: "log_env \<Rightarrow> Logger \<Rightarrow> u64 \<Rightarrow> (u64 \<Rightarrow> u64 \<Rightarrow> u64) \<Rightarrow> 'v fields \<Rightarrow> 'v log_site \<Rightarrow> 'v log_site" where
  [log_defs]: "LOG_INFO_SAMPLED = STONE_LOG_INFO_SAMPLED"

definition LOG_INFO_F :: "log_env \<Rightarrow> (int \<Rightarrow> 'a \<Rightarrow> 'v fields) \<Rightarrow> Logger \<Rightarrow> 'a \<Rightarrow> 'v log_site \<Rightarrow> 'v log_site" where
  [log_defs]: "LOG_INFO_F = STONE_LOG_INFO_F"

definition LOG_WARNING :: "log_env \<Rightarrow> Logger \<Rightarrow> 'v fields \<Rightarrow> 'v log_site \<Rightarrow> 'v log_site" where
  [log_defs]: "LOG_WARNING = STONE_LOG_WARNING"

definition LOG_WARNING_IF :: "log_env \<Rightarrow> Logger \<Rightarrow> bool \<Rightarrow> 'v fields \<Rightarrow> 'v log_site \<Rightarrow> 'v log_site" where
  [log_defs]: "LOG_WARNING_IF env logger condition = STONE_LOG_WARNING_IF env logger condition False"

definition LOG_WARNING_BEGIN :: "log_env \<Rightarrow> Logger \<Rightarrow> 'v log_site \<Rightarrow> 'v log_block \<times> 'v log_site" where
  [log_defs]: "LOG_WARNING_BEGIN = STONE_LOG_WARNING_BEGIN"

definition LOG_WARNING_END :: "'v log_block \<Rightarrow> 'v log_site \<Rightarrow> 'v log_site" where
  [log_defs]: "LOG_WARNING_END = STONE_LOG_WARNING_END"

definition LOG_WARNING_SAMPLED :: "log_env \<Rightarrow> Logger \<Rightarrow> u64 \<Rightarrow> (u64 \<Rightarrow> u64 \<Rightarrow> u64) \<Rightarrow> 'v fields \<Rightarrow> 'v log_site \<Rightarrow> 'v log_site" where
  [log_defs]: "LOG_WARNING_SAMPLED = STONE_LOG_WARNING_SAMPLED"

definition LOG_WARNING_F :: "log_env \<Rightarrow> (int \<Rightarrow> 'a \<Rightarrow> 'v fields) \<Rightarrow> Logger \<Rightarrow> 'a \<Rightarrow> 'v log_site \<Rightarrow> 'v log_site" where
  [log_defs]: "LOG_WARNING_F = STONE_LOG_WARNING_F"

definition LOG_ERROR :: "log_env \<Rightarrow> Logger \<Rightarrow> 'v fields \<Rightarrow> 'v log_site \<Rightarrow> 'v log_site" where
  [log_defs]: "LOG_ERROR = STONE_LOG_ERROR"

definition LOG_ERROR_IF :: "log_env \<Rightarrow> Logger \<Rightarrow> bool \<Rightarrow> 'v fields \<Rightarrow> 'v log_site \<Rightarrow> 'v log_site" where
  [log_defs]: "LOG_ERROR_IF env logger condition = STONE_LOG_ERROR_IF env logger condition False"

definition LOG_ERROR_BEGIN :: "log_env \<Rightarrow> Logger \<Rightarrow> 'v log_site \<Rightarrow> 'v log_block \<times> 'v log_site" where
  [log_defs]: "LOG_ERROR_BEGIN = STONE_LOG_ERROR_BEGIN"

definition LOG_ERROR_END :: "'v log_block \<Rightarrow> 'v log_site \<Rightarrow> 'v log_site" where
  [log_defs]: "LOG_ERROR_END = STONE_LOG_ERROR_END"

definition LOG_ERROR_SAMPLED :: "log_env \<Rightarrow> Logger \<Rightarrow> u64 \<Rightarrow> (u64 \<Rightarrow> u64 \<Rightarrow> u64) \<Rightarrow> 'v fields \<Rightarrow> 'v log_site \<Rightarrow> 'v log_site" where
  [log_defs]: "LOG_ERROR_SAMPLED = STONE_LOG_ERROR_SAMPLED"

definition LOG_ERROR_F :: "log_env \<Rightarrow> (int \<Rightarrow> 'a \<Rightarrow> 'v fields) \<Rightarrow> Logger \<Rightarrow> 'a \<Rightarrow> 'v log_site \<Rightarrow> 'v log_site" where
  [log_defs]: "LOG_ERROR_F = STONE_LOG_ERROR_F"

definition LOG_FATAL :: "log_env \<Rightarrow> Logger \<Rightarrow> 'v fields \<Rightarrow> 'v log_site \<Rightarrow> 'v log_site" where
  [log_defs]: "LOG_FATAL = STONE_LOG_FATAL"

definition LOG_FATAL_IF :: "log_env \<Rightarrow> Logger \<Rightarrow> bool \<Rightarrow> 'v fields \<Rightarrow> 'v log_site \<Rightarrow> 'v log_site" where
  [log_defs]: "LOG_FATAL_IF env logger condition = STONE_LOG_FATAL_IF env logger condition False"

definition LOG_FATAL_BEGIN :: "log_env \<Rightarrow> Logger \<Rightarrow> 'v log_site \<Rightarrow> 'v log_block \<times> 'v log_site" where
  [log_defs]: "LOG_FATAL_BEGIN = STONE_LOG_FATAL_BEGIN"

definition LOG_FATAL_END :: "'v log_block \<Rightarrow> 'v log_site \<Rightarrow> 'v log_site" where
  [log_defs]: "LOG_FATAL_END = STONE_LOG_FATAL_END"

definition LOG_FATAL_F :: "log_env \<Rightarrow> (int \<Rightarrow> 'a \<Rightarrow> 'v fields) \<Rightarrow> Logger \<Rightarrow> 'a \<Rightarrow> 'v log_site \<Rightarrow> 'v log_site" where
  [log_defs]: "LOG_FATAL_F = STONE_LOG_FATAL_F"

definition LOG_CALL_DEBUG :: "log_env \<Rightarrow> (string \<Rightarrow> 'v) \<Rightarrow> (Logger \<Rightarrow> LogLevel \<Rightarrow> string \<Rightarrow> 't) \<Rightarrow> Logger \<Rightarrow> 'v fields \<Rightarrow> 'v log_site \<Rightarrow> 'v log_site \<times> 't" where
  [log_defs]: "LOG_CALL_DEBUG = STONE_LOG_CALL_DEBUG"

definition LOG_CALL_INFO :: "log_env \<Rightarrow> (string \<Rightarrow> 'v) \<Rightarrow> (Logger \<Rightarrow> LogLevel \<Rightarrow> string \<Rightarrow> 't) \<Rightarrow> Logger \<Rightarrow> 'v fields \<Rightarrow> 'v log_site \<Rightarrow> 'v log_site \<times> 't" where
  [log_defs]: "LOG_CALL_INFO = STONE_LOG_CALL_INFO"

definition LOG_CALL_WARNING :: "log_env \<Rightarrow> (string \<Rightarrow> 'v) \<Rightarrow> (Logger \<Rightarrow> LogLevel \<Rightarrow> string \<Rightarrow> 't) \<Rightarrow> Logger \<Rightarrow> 'v fields \<Rightarrow> 'v log_site \<Rightarrow> 'v log_site \<times> 't" where
  [log_defs]: "LOG_CALL_WARNING = STONE_LOG_CALL_WARNING"

definition LOG_CALL_ERROR :: "log_env \<Rightarrow> (string \<Rightarrow> 'v) \<Rightarrow> (Logger \<Rightarrow> LogLevel \<Rightarrow> string \<Rightarrow> 't) \<Rightarrow> Logger \<Rightarrow> 'v fields \<Rightarrow> 'v log_site \<Rightarrow> 'v log_site \<times> 't" where
  [log_defs]: "LOG_CALL_ERROR = STONE_LOG_CALL_ERROR"

definition LOG_CALL_FATAL :: "log_env \<Rightarrow> (string \<Rightarrow> 'v) \<Rightarrow> (Logger \<Rightarrow> LogLevel \<Rightarrow> string \<Rightarrow> 't) \<Rightarrow> Logger \<Rightarrow> 'v fields \<Rightarrow> 'v log_site \<Rightarrow> 'v log_site \<times> 't" where
  [log_defs]: "LOG_CALL_FATAL = STONE_LOG_CALL_FATAL"

section \<open>Trace statements\<close>

record trace_info =
  ti_tid :: u64
  ti_sid :: u64

record 'v trace_env = log_env +
  TracerKey :: "trace_info option"
  APSARA_TRACER_LOG_PATH :: string
  env_gettid :: 'v
  GetCurrentTime :: 'v
  of_id :: "u64 \<Rightarrow> 'v"

record 'v trace_site = "'v log_site" +
  tracer_calls :: "'v log_call list"

definition traced :: "'v trace_env \<Rightarrow> trace_info option" where
  \<comment> \<open>the trace information of the thread, when there is one and its \<open>tid\<close> is not 0\<close>
  "traced env = (case TracerKey env of None \<Rightarrow> None | Some ti \<Rightarrow> if ti_tid ti \<noteq> 0 then Some ti else None)"

definition trace_call :: "'v trace_env \<Rightarrow> LogInfo \<Rightarrow> string \<Rightarrow> 'v fields \<Rightarrow> 'v log_call" where
  \<comment> \<open>the record of either branch: the two ids are there when the thread is traced\<close>
  "trace_call env i stacktrace kvs =
     \<lparr>call_path = APSARA_TRACER_LOG_PATH env, call_level = LogInfo_Level i, call_file = env_file env,
      call_function = env_function env, call_line = env_line env, call_stacktrace = stacktrace,
      call_fields =
        (case traced env of None \<Rightarrow> []
         | Some ti \<Rightarrow> [(''__TRACE_ID__'', of_id env (ti_tid ti)), (''__TRACE_SID__'', of_id env (ti_sid ti))])
        @ kvs @ [(''__THREAD__'', env_gettid env), (''__TIME__'', GetCurrentTime env)]\<rparr>"

definition LOG_TRACE_IF :: "'v trace_env \<Rightarrow> Logger \<Rightarrow> bool \<Rightarrow> 'v fields \<Rightarrow> LogLevel \<Rightarrow> 'v trace_site \<Rightarrow> 'v trace_site" where
  \<comment> \<open>\<open>tracer_calls\<close> are the calls of \<open>AppendLog\<close> on the logger of the tracer path, \<open>calls\<close> those on \<open>logger\<close>\<close>
  "LOG_TRACE_IF env logger condition kvs level site =
     (let i = (case sInfo site of Some i \<Rightarrow> i | None \<Rightarrow> new_LogInfo env (env_file env) (env_line env) level False);
          site1 = site\<lparr>sInfo := Some i\<rparr>
      in if condition then
           (let stacktrace = (if LogInfo_StackTraceEnabled i then env_stack env else []);
                record = trace_call env i stacktrace kvs;
                site2 = (if traced env \<noteq> None then site1\<lparr>tracer_calls := tracer_calls site @ [record]\<rparr> else site1)
            in if Logger_GetMinLevel logger \<le> level \<and> gThreadLogEnabled env
               then site2\<lparr>calls := calls site @ [record]\<rparr> else site2)
         else site1)"

definition LOG_TRACE :: "'v trace_env \<Rightarrow> Logger \<Rightarrow> 'v fields \<Rightarrow> 'v trace_site \<Rightarrow> 'v trace_site" where
  "LOG_TRACE env logger kvs = LOG_TRACE_IF env logger True kvs LOG_LEVEL_DEBUG"

section \<open>What the old interface does\<close>

lemma old_block_equals_statement:
  "(let (b, site1) = LOG_X_BEGIN env logger level site
    in LOG_X_END (fold (\<lambda>(k, v). LOG_FIELD k v) kvs b) site1) = STONE_LOG_X env logger level kvs site"
  by (simp add: fields_enabled log_defs append_call_def Let_def del: fold.simps)

lemma sampled_logs_subset:
  \<comment> \<open>a sampled statement logs at most what the plain one does, and the same record\<close>
  "calls (LOG_X_SAMPLED env logger n f level kvs site) \<in>
     {calls site, calls (STONE_LOG_X env logger level kvs site)}"
  by (auto simp: log_defs static_info_def append_call_def Let_def split: option.splits)

lemma trace_logs_when_disabled:
  \<comment> \<open>disabling the statement does not silence it: \<open>LOG_TRACE\<close> never asks \<open>sInfo.Enabled()\<close>\<close>
  assumes "Logger_GetMinLevel logger \<le> LOG_LEVEL_DEBUG" and "gThreadLogEnabled env" and "sInfo site = Some i"
  shows "length (calls (LOG_TRACE env logger kvs (site\<lparr>sInfo := Some (LogInfo_Enable False i)\<rparr>))) = Suc (length (calls site))"
  using assms by (simp add: LOG_TRACE_def LOG_TRACE_IF_def Let_def)

lemma trace_reaches_tracer:
  assumes "traced env = Some ti"
  shows "\<exists>c. tracer_calls (LOG_TRACE env logger kvs site) = tracer_calls site @ [c] \<and>
             call_fields c = [(''__TRACE_ID__'', of_id env (ti_tid ti)), (''__TRACE_SID__'', of_id env (ti_sid ti))] @ kvs
                             @ [(''__THREAD__'', env_gettid env), (''__TIME__'', GetCurrentTime env)]"
  using assms by (simp add: LOG_TRACE_def LOG_TRACE_IF_def trace_call_def Let_def)

lemma untraced_thread_leaves_tracer:
  assumes "traced env = None"
  shows "tracer_calls (LOG_TRACE_IF env logger c kvs level site) = tracer_calls site"
  using assms by (simp add: LOG_TRACE_IF_def Let_def)

end
