(* ===== verification/Stone_Logging_Threads.thy ===== *)
theory Stone_Logging_Threads
  imports Stone_Logging
begin

text \<open>
  A sampled statement of \<^verbatim>\<open>logging/logging.h\<close> executed by many threads at once. Every access to the static variables of the
  statement (\<open>sInfo\<close>, \<open>sNext\<close>, \<open>sLock\<close>) and every call of \<open>AppendLog\<close> is one step of a thread; the compiler guards the
  initialisation of a static variable, so that it is one step too, and \<open>++mCounter\<close> is a read and a write. A \<open>SimpleMutex\<close> is held by
  at most one thread, and a thread that wants it when it is held cannot take a step. The component \<open>order\<close> records the executions
  that have locked the mutex, in that order, and influences nothing.
\<close>

section \<open>The machine\<close>

datatype 'v slog_pc =
    SL_Idle
  | SL_Start log_env "'v fields"             \<comment> \<open>before the static \<open>sInfo\<close>\<close>
  | SL_Check log_env "'v fields"             \<comment> \<open>before \<open>logEnabled\<close> is computed\<close>
  | SL_Static log_env "'v fields" string     \<comment> \<open>with the stack trace, before the static \<open>sNext\<close>\<close>
  | SL_Want log_env "'v fields" string       \<comment> \<open>before the locker is constructed\<close>
  | SL_Locked log_env "'v fields" string     \<comment> \<open>before \<open>mCounter\<close> is read\<close>
  | SL_Read log_env "'v fields" string u64   \<comment> \<open>and the counter that was read\<close>
  | SL_Touched log_env "'v fields" string u64
  | SL_Append log_env "'v fields" string u64
  | SL_Next u64                              \<comment> \<open>before \<open>sNext\<close> is written\<close>
  | SL_Leave                                 \<comment> \<open>before the locker is destroyed\<close>

record 'v slog_state =
  site :: "'v log_site"
  sLock :: "nat option"
  pcs :: "nat \<Rightarrow> 'v slog_pc"
  order :: "(log_env \<times> 'v fields) list"

definition slog_go :: "nat \<Rightarrow> 'v slog_pc \<Rightarrow> 'v slog_state \<Rightarrow> 'v slog_state" where
  "slog_go t pc s = s\<lparr>pcs := (pcs s)(t := pc)\<rparr>"

definition slog_info_step :: "LogLevel \<Rightarrow> nat \<Rightarrow> log_env \<Rightarrow> 'v fields \<Rightarrow> 'v slog_state \<Rightarrow> 'v slog_state" where
  "slog_info_step level t env kvs s =
     slog_go t (SL_Check env kvs) (s\<lparr>site := (site s)\<lparr>sInfo := Some (static_info env level False (site s))\<rparr>\<rparr>)"

definition log_on :: "Logger \<Rightarrow> log_env \<Rightarrow> LogInfo \<Rightarrow> bool" where
  "log_on logger env i \<longleftrightarrow> Logger_GetMinLevel logger \<le> LogInfo_Level i \<and> LogInfo_Enabled i \<and> ThreadLogEnabled env"

definition slog_check_step :: "Logger \<Rightarrow> nat \<Rightarrow> log_env \<Rightarrow> 'v fields \<Rightarrow> LogInfo \<Rightarrow> 'v slog_state \<Rightarrow> 'v slog_state" where
  "slog_check_step logger t env kvs i s =
     slog_go t (if log_on logger env i then SL_Static env kvs (if LogInfo_StackTraceEnabled i then env_stack env else []) else SL_Idle) s"

definition slog_static_step :: "u64 \<Rightarrow> nat \<Rightarrow> log_env \<Rightarrow> 'v fields \<Rightarrow> string \<Rightarrow> 'v slog_state \<Rightarrow> 'v slog_state" where
  "slog_static_step init_next t env kvs st s =
     slog_go t (SL_Want env kvs st)
       (s\<lparr>site := (site s)\<lparr>sNext := Some (case sNext (site s) of Some n \<Rightarrow> n | None \<Rightarrow> init_next)\<rparr>\<rparr>)"

definition slog_lock_step :: "nat \<Rightarrow> log_env \<Rightarrow> 'v fields \<Rightarrow> string \<Rightarrow> 'v slog_state \<Rightarrow> 'v slog_state" where
  "slog_lock_step t env kvs st s = slog_go t (SL_Locked env kvs st) (s\<lparr>sLock := Some t, order := order s @ [(env, kvs)]\<rparr>)"

definition slog_read_step :: "nat \<Rightarrow> log_env \<Rightarrow> 'v fields \<Rightarrow> string \<Rightarrow> LogInfo \<Rightarrow> 'v slog_state \<Rightarrow> 'v slog_state" where
  "slog_read_step t env kvs st i s = slog_go t (SL_Read env kvs st (mCounter i)) s"

definition slog_touch_step :: "nat \<Rightarrow> log_env \<Rightarrow> 'v fields \<Rightarrow> string \<Rightarrow> u64 \<Rightarrow> LogInfo \<Rightarrow> 'v slog_state \<Rightarrow> 'v slog_state" where
  \<comment> \<open>\<open>Touch\<close> on the value of \<open>mCounter\<close> that was read\<close>
  "slog_touch_step t env kvs st c i s =
     (let (counter, i') = LogInfo_Touch (i\<lparr>mCounter := c\<rparr>)
      in slog_go t (SL_Touched env kvs st counter) (s\<lparr>site := (site s)\<lparr>sInfo := Some i'\<rparr>\<rparr>))"

definition slog_compare_step :: "nat \<Rightarrow> log_env \<Rightarrow> 'v fields \<Rightarrow> string \<Rightarrow> u64 \<Rightarrow> u64 \<Rightarrow> 'v slog_state \<Rightarrow> 'v slog_state" where
  "slog_compare_step t env kvs st c nxt s = slog_go t (if c = nxt then SL_Append env kvs st c else SL_Leave) s"

definition slog_append_step :: "Logger \<Rightarrow> nat \<Rightarrow> log_env \<Rightarrow> 'v fields \<Rightarrow> string \<Rightarrow> u64 \<Rightarrow> LogInfo \<Rightarrow> 'v slog_state \<Rightarrow> 'v slog_state" where
  "slog_append_step logger t env kvs st c i s =
     slog_go t (SL_Next c) (s\<lparr>site := (site s)\<lparr>calls := calls (site s) @ [append_call env logger i st kvs]\<rparr>\<rparr>)"

definition slog_next_step :: "u64 \<Rightarrow> (u64 \<Rightarrow> u64 \<Rightarrow> u64) \<Rightarrow> nat \<Rightarrow> u64 \<Rightarrow> 'v slog_state \<Rightarrow> 'v slog_state" where
  "slog_next_step init_next next_func t c s = slog_go t SL_Leave (s\<lparr>site := (site s)\<lparr>sNext := Some (next_func init_next c)\<rparr>\<rparr>)"

definition slog_leave_step :: "nat \<Rightarrow> 'v slog_state \<Rightarrow> 'v slog_state" where
  "slog_leave_step t s = slog_go t SL_Idle (s\<lparr>sLock := None\<rparr>)"

lemmas slog_step_defs = slog_go_def slog_info_step_def slog_check_step_def slog_static_step_def slog_lock_step_def slog_read_step_def
  slog_touch_step_def slog_compare_step_def slog_append_step_def slog_next_step_def slog_leave_step_def LogInfo_Touch_def Let_def

definition same_statement :: "log_env \<Rightarrow> log_env \<Rightarrow> bool" where
  \<comment> \<open>executions of one statement differ in the thread's switch and its stack only\<close>
  "same_statement env0 env \<longleftrightarrow> new_LogInfo env = new_LogInfo env0 \<and> env_file env = env_file env0 \<and>
     env_function env = env_function env0 \<and> env_line env = env_line env0"

inductive slog_step ::
  "log_env \<Rightarrow> Logger \<Rightarrow> LogLevel \<Rightarrow> u64 \<Rightarrow> (u64 \<Rightarrow> u64 \<Rightarrow> u64) \<Rightarrow> nat \<Rightarrow> 'v slog_state \<Rightarrow> 'v slog_state \<Rightarrow> bool"
  for env0 logger level init_next next_func t where
  start: "pcs s t = SL_Idle \<Longrightarrow> same_statement env0 env \<Longrightarrow>
    slog_step env0 logger level init_next next_func t s (slog_go t (SL_Start env kvs) s)"
| info: "pcs s t = SL_Start env kvs \<Longrightarrow> slog_step env0 logger level init_next next_func t s (slog_info_step level t env kvs s)"
| check: "pcs s t = SL_Check env kvs \<Longrightarrow> sInfo (site s) = Some i \<Longrightarrow>
    slog_step env0 logger level init_next next_func t s (slog_check_step logger t env kvs i s)"
| static: "pcs s t = SL_Static env kvs st \<Longrightarrow>
    slog_step env0 logger level init_next next_func t s (slog_static_step init_next t env kvs st s)"
| lock: "pcs s t = SL_Want env kvs st \<Longrightarrow> sLock s = None \<Longrightarrow>
    slog_step env0 logger level init_next next_func t s (slog_lock_step t env kvs st s)"
| read: "pcs s t = SL_Locked env kvs st \<Longrightarrow> sInfo (site s) = Some i \<Longrightarrow>
    slog_step env0 logger level init_next next_func t s (slog_read_step t env kvs st i s)"
| touch: "pcs s t = SL_Read env kvs st c \<Longrightarrow> sInfo (site s) = Some i \<Longrightarrow>
    slog_step env0 logger level init_next next_func t s (slog_touch_step t env kvs st c i s)"
| compare: "pcs s t = SL_Touched env kvs st c \<Longrightarrow> sNext (site s) = Some n \<Longrightarrow>
    slog_step env0 logger level init_next next_func t s (slog_compare_step t env kvs st c n s)"
| append: "pcs s t = SL_Append env kvs st c \<Longrightarrow> sInfo (site s) = Some i \<Longrightarrow>
    slog_step env0 logger level init_next next_func t s (slog_append_step logger t env kvs st c i s)"
| advance: "pcs s t = SL_Next c \<Longrightarrow>
    slog_step env0 logger level init_next next_func t s (slog_next_step init_next next_func t c s)"
| leave: "pcs s t = SL_Leave \<Longrightarrow> slog_step env0 logger level init_next next_func t s (slog_leave_step t s)"

definition slog_init :: "'v log_site \<Rightarrow> 'v slog_state" where
  "slog_init site0 = \<lparr>site = site0, sLock = None, pcs = (\<lambda>_. SL_Idle), order = []\<rparr>"

inductive slog_reach ::
  "log_env \<Rightarrow> Logger \<Rightarrow> LogLevel \<Rightarrow> u64 \<Rightarrow> (u64 \<Rightarrow> u64 \<Rightarrow> u64) \<Rightarrow> 'v log_site \<Rightarrow> 'v slog_state \<Rightarrow> bool"
  for env0 logger level init_next next_func site0 where
  begins: "slog_reach env0 logger level init_next next_func site0 (slog_init site0)"
| goes_on: "slog_reach env0 logger level init_next next_func site0 s \<Longrightarrow> slog_step env0 logger level init_next next_func t s s' \<Longrightarrow>
    slog_reach env0 logger level init_next next_func site0 s'"

section \<open>What an execution does to the statement\<close>

text \<open>
  The view of a statement is its \<open>LogInfo\<close> (as the first execution will construct it when it is still absent), the counter
  that is logged next and the calls it has made. An execution of the statement is a function of the view.
\<close>

type_synonym 'v slog_view = "LogInfo \<times> u64 \<times> 'v log_call list"

definition slog_view :: "log_env \<Rightarrow> LogLevel \<Rightarrow> u64 \<Rightarrow> 'v log_site \<Rightarrow> 'v slog_view" where
  "slog_view env0 level init_next st =
     (static_info env0 level False st, case sNext st of Some n \<Rightarrow> n | None \<Rightarrow> init_next, calls st)"

fun view_exec ::
  "Logger \<Rightarrow> u64 \<Rightarrow> (u64 \<Rightarrow> u64 \<Rightarrow> u64) \<Rightarrow> log_env \<times> 'v fields \<Rightarrow> 'v slog_view \<Rightarrow> 'v slog_view" where
  "view_exec logger init_next next_func (env, kvs) (i, n, cs) =
     (if log_on logger env i then
        (let i' = i\<lparr>mCounter := mCounter i + 1\<rparr>; st = (if LogInfo_StackTraceEnabled i then env_stack env else [])
         in if mCounter i + 1 = n then (i', next_func init_next (mCounter i + 1), cs @ [append_call env logger i' st kvs]) else (i', n, cs))
      else (i, n, cs))"

lemma same_statement_info: "same_statement env0 env \<Longrightarrow> static_info env level w st = static_info env0 level w st"
  by (simp add: same_statement_def static_info_def split: option.split)

lemma view_of_sampled:
  assumes "same_statement env0 env"
  shows "slog_view env0 level init_next (STONE_LOG_X_SAMPLED env logger init_next next_func level kvs st) =
    view_exec logger init_next next_func (env, kvs) (slog_view env0 level init_next st)"
proof -
  have "static_info env0 level False (STONE_LOG_X_SAMPLED env logger init_next next_func level kvs st) =
      the (sInfo (STONE_LOG_X_SAMPLED env logger init_next next_func level kvs st))"
    by (simp add: STONE_LOG_X_SAMPLED_def static_info_def LogInfo_Touch_def Let_def)
  then show ?thesis
    by (simp add: slog_view_def same_statement_info [OF assms] STONE_LOG_X_SAMPLED_def log_on_def log_defs Let_def)
qed

definition sampled_sequence ::
  "Logger \<Rightarrow> LogLevel \<Rightarrow> u64 \<Rightarrow> (u64 \<Rightarrow> u64 \<Rightarrow> u64) \<Rightarrow> (log_env \<times> 'v fields) list \<Rightarrow> 'v log_site \<Rightarrow> 'v log_site" where
  \<comment> \<open>the executions one after the other\<close>
  "sampled_sequence logger level init_next next_func xs st =
     fold (\<lambda>(env, kvs). STONE_LOG_X_SAMPLED env logger init_next next_func level kvs) xs st"

lemma view_of_sequence:
  assumes "\<forall>x \<in> set xs. same_statement env0 (fst x)"
  shows "slog_view env0 level init_next (sampled_sequence logger level init_next next_func xs st) =
    fold (view_exec logger init_next next_func) xs (slog_view env0 level init_next st)"
  using assms by (induction xs arbitrary: st) (auto simp: sampled_sequence_def view_of_sampled)

section \<open>The invariant\<close>

fun slog_section :: "'v slog_pc \<Rightarrow> bool" where
  "slog_section (SL_Locked env kvs st) = True"
| "slog_section (SL_Read env kvs st c) = True"
| "slog_section (SL_Touched env kvs st c) = True"
| "slog_section (SL_Append env kvs st c) = True"
| "slog_section (SL_Next c) = True"
| "slog_section SL_Leave = True"
| "slog_section pc = False"

fun slog_rest ::
  "Logger \<Rightarrow> u64 \<Rightarrow> (u64 \<Rightarrow> u64 \<Rightarrow> u64) \<Rightarrow> 'v slog_pc \<Rightarrow> 'v slog_view \<Rightarrow> 'v slog_view" where
  \<comment> \<open>what the thread that holds the mutex still does to the view\<close>
  "slog_rest logger init_next next_func (SL_Locked env kvs st) v = view_exec logger init_next next_func (env, kvs) v"
| "slog_rest logger init_next next_func (SL_Read env kvs st c) v = view_exec logger init_next next_func (env, kvs) v"
| "slog_rest logger init_next next_func (SL_Touched env kvs st c) (i, n, cs) =
     (if c = n then (i, next_func init_next c, cs @ [append_call env logger i st kvs]) else (i, n, cs))"
| "slog_rest logger init_next next_func (SL_Append env kvs st c) (i, n, cs) = (i, next_func init_next c, cs @ [append_call env logger i st kvs])"
| "slog_rest logger init_next next_func (SL_Next c) (i, n, cs) = (i, next_func init_next c, cs)"
| "slog_rest logger init_next next_func pc v = v"

definition slog_entered :: "Logger \<Rightarrow> log_env \<Rightarrow> string \<Rightarrow> 'v log_site \<Rightarrow> bool" where
  "slog_entered logger env st x \<longleftrightarrow>
     (\<exists>i. sInfo x = Some i \<and> log_on logger env i \<and> st = (if LogInfo_StackTraceEnabled i then env_stack env else []))"

fun slog_ok :: "log_env \<Rightarrow> Logger \<Rightarrow> 'v log_site \<Rightarrow> 'v slog_pc \<Rightarrow> bool" where
  "slog_ok env0 logger x SL_Idle \<longleftrightarrow> True"
| "slog_ok env0 logger x (SL_Start env kvs) \<longleftrightarrow> same_statement env0 env"
| "slog_ok env0 logger x (SL_Check env kvs) \<longleftrightarrow> same_statement env0 env \<and> sInfo x \<noteq> None"
| "slog_ok env0 logger x (SL_Static env kvs st) \<longleftrightarrow> same_statement env0 env \<and> slog_entered logger env st x"
| "slog_ok env0 logger x (SL_Want env kvs st) \<longleftrightarrow> same_statement env0 env \<and> slog_entered logger env st x \<and> sNext x \<noteq> None"
| "slog_ok env0 logger x (SL_Locked env kvs st) \<longleftrightarrow> slog_entered logger env st x \<and> sNext x \<noteq> None"
| "slog_ok env0 logger x (SL_Read env kvs st c) \<longleftrightarrow> slog_entered logger env st x \<and> sNext x \<noteq> None \<and> map_option mCounter (sInfo x) = Some c"
| "slog_ok env0 logger x (SL_Touched env kvs st c) \<longleftrightarrow> sInfo x \<noteq> None \<and> sNext x \<noteq> None"
| "slog_ok env0 logger x (SL_Append env kvs st c) \<longleftrightarrow> sInfo x \<noteq> None \<and> sNext x \<noteq> None"
| "slog_ok env0 logger x (SL_Next c) \<longleftrightarrow> sInfo x \<noteq> None"
| "slog_ok env0 logger x SL_Leave \<longleftrightarrow> sInfo x \<noteq> None"

definition slog_now :: "log_env \<Rightarrow> Logger \<Rightarrow> LogLevel \<Rightarrow> u64 \<Rightarrow> (u64 \<Rightarrow> u64 \<Rightarrow> u64) \<Rightarrow> 'v slog_state \<Rightarrow> 'v slog_view" where
  \<comment> \<open>the view when the execution that holds the mutex will have finished\<close>
  "slog_now env0 logger level init_next next_func s =
     (case sLock s of None \<Rightarrow> slog_view env0 level init_next (site s)
      | Some t \<Rightarrow> slog_rest logger init_next next_func (pcs s t) (slog_view env0 level init_next (site s)))"

definition slog_inv ::
  "log_env \<Rightarrow> Logger \<Rightarrow> LogLevel \<Rightarrow> u64 \<Rightarrow> (u64 \<Rightarrow> u64 \<Rightarrow> u64) \<Rightarrow> 'v log_site \<Rightarrow> 'v slog_state \<Rightarrow> bool" where
  "slog_inv env0 logger level init_next next_func site0 s \<longleftrightarrow>
     (\<forall>t. slog_section (pcs s t) \<longleftrightarrow> sLock s = Some t) \<and> (\<forall>t. slog_ok env0 logger (site s) (pcs s t)) \<and>
     (\<exists>c. static_info env0 level False (site s) = (static_info env0 level False site0)\<lparr>mCounter := c\<rparr>) \<and>
     (\<forall>x \<in> set (order s). same_statement env0 (fst x) \<and> log_on logger (fst x) (static_info env0 level False site0)) \<and>
     slog_now env0 logger level init_next next_func s =
       fold (view_exec logger init_next next_func) (order s) (slog_view env0 level init_next site0)"

definition slog_keeps :: "'v log_site \<Rightarrow> 'v log_site \<Rightarrow> bool" where
  \<comment> \<open>what no step of another thread takes away\<close>
  "slog_keeps x x' \<longleftrightarrow> (\<forall>i. sInfo x = Some i \<longrightarrow> (\<exists>c. sInfo x' = Some (i\<lparr>mCounter := c\<rparr>))) \<and> (sNext x \<noteq> None \<longrightarrow> sNext x' \<noteq> None)"

lemma same_up_to_counter [intro]: "\<exists>c. (i :: LogInfo) = i\<lparr>mCounter := c\<rparr>"
  by (rule exI [of _ "mCounter i"]) simp

lemma log_on_counter [simp]: "log_on logger env (i\<lparr>mCounter := c\<rparr>) = log_on logger env i"
  by (simp add: log_on_def log_defs)

lemma slog_entered_keeps: "slog_entered logger env st x \<Longrightarrow> slog_keeps x x' \<Longrightarrow> slog_entered logger env st x'"
  by (fastforce simp: slog_entered_def slog_keeps_def log_defs)

lemma slog_section_info: "slog_section pc \<Longrightarrow> slog_ok env0 logger x pc \<Longrightarrow> sInfo x \<noteq> None"
  by (cases pc) (auto simp: slog_entered_def)

lemma slog_ok_keeps:
  assumes "slog_ok env0 logger x pc" and "slog_keeps x x'" and "slog_section pc \<Longrightarrow> sInfo x' = sInfo x"
  shows "slog_ok env0 logger x' pc"
  using assms(1,3) slog_entered_keeps [OF _ assms(2)] assms(2) by (cases pc) (auto simp: slog_keeps_def)

section \<open>Every step keeps the invariant\<close>

lemma slog_step_frame:
  assumes "slog_step env0 logger level init_next next_func t s s'" and "slog_section (pcs s t) \<longleftrightarrow> sLock s = Some t"
  shows "pcs s' = (pcs s)(t := pcs s' t)" and "slog_section (pcs s' t) \<longleftrightarrow> sLock s' = Some t"
    and "u \<noteq> t \<Longrightarrow> sLock s' = Some u \<longleftrightarrow> sLock s = Some u"
    and "\<not> slog_section (pcs s t) \<Longrightarrow> sInfo (site s) \<noteq> None \<Longrightarrow> sInfo (site s') = sInfo (site s)"
  using assms by (cases; auto simp: slog_step_defs static_info_def)+

lemma slog_step_keeps:
  assumes "slog_step env0 logger level init_next next_func t s s'"
  shows "slog_keeps (site s) (site s')"
  using assms by cases (auto simp: slog_step_defs slog_keeps_def static_info_def)

lemma slog_step_ok:
  assumes "slog_step env0 logger level init_next next_func t s s'" and "slog_ok env0 logger (site s) (pcs s t)"
  shows "slog_ok env0 logger (site s') (pcs s' t)"
  using assms by cases (auto simp: slog_step_defs slog_entered_def)

lemma slog_step_info:
  assumes "slog_step env0 logger level init_next next_func t s s'" and "slog_ok env0 logger (site s) (pcs s t)"
  shows "\<exists>c. static_info env0 level False (site s') = (static_info env0 level False (site s))\<lparr>mCounter := c\<rparr>"
  using assms
proof cases
  case (info env kvs)
  then have "same_statement env0 env" using assms(2) by simp
  from same_statement_info [OF this] have "static_info env0 level False (site s') = static_info env0 level False (site s)"
    using info by (simp add: slog_step_defs static_info_def)
  then show ?thesis by auto
qed (auto simp: slog_step_defs static_info_def split: option.split)

lemma slog_outside:
  \<comment> \<open>a step outside of the critical section changes nothing that the view shows\<close>
  assumes "slog_step env0 logger level init_next next_func t s s'" and "slog_ok env0 logger (site s) (pcs s t)"
    and "\<not> slog_section (pcs s t)" and "\<not> slog_section (pcs s' t)"
  shows "slog_view env0 level init_next (site s') = slog_view env0 level init_next (site s)" and "sLock s' = sLock s" and "order s' = order s"
  using assms same_statement_info [of env0 _ level False "site s"]
  by (cases; fastforce simp: slog_step_defs slog_view_def static_info_def split: option.split)+

lemma slog_inside:
  \<comment> \<open>a step inside of it does a part of the rest of the execution\<close>
  assumes "slog_step env0 logger level init_next next_func t s s'" and "slog_ok env0 logger (site s) (pcs s t)"
    and "slog_section (pcs s t)" and "sLock s = Some t"
  shows "slog_now env0 logger level init_next next_func s' = slog_now env0 logger level init_next next_func s" and "order s' = order s"
  using assms
  by (cases; auto simp: slog_step_defs slog_now_def slog_view_def static_info_def slog_entered_def)+

lemma slog_step_now:
  assumes st: "slog_step env0 logger level init_next next_func t s s'" and ok: "slog_ok env0 logger (site s) (pcs s t)"
    and mutex: "\<forall>u. slog_section (pcs s u) \<longleftrightarrow> sLock s = Some u"
  shows "\<exists>xs. order s' = order s @ xs \<and> slog_now env0 logger level init_next next_func s' =
      fold (view_exec logger init_next next_func) xs (slog_now env0 logger level init_next next_func s) \<and>
    (\<forall>x \<in> set xs. same_statement env0 (fst x) \<and> log_on logger (fst x) (static_info env0 level False (site s)))"
proof -
  have t: "slog_section (pcs s t) \<longleftrightarrow> sLock s = Some t" using mutex by blast
  note frame = slog_step_frame [OF st t]
  consider (inside) "slog_section (pcs s t)" | (enters) "\<not> slog_section (pcs s t)" "slog_section (pcs s' t)"
    | (outside) "\<not> slog_section (pcs s t)" "\<not> slog_section (pcs s' t)" by blast
  then show ?thesis
  proof cases
    case inside
    then show ?thesis using slog_inside [OF st ok] t by (intro exI [of _ "[]"]) simp
  next
    case enters
    with st obtain env kvs st' where *: "pcs s t = SL_Want env kvs st'" "sLock s = None" "s' = slog_lock_step t env kvs st' s"
      by cases (auto simp: slog_step_defs split: if_splits)
    then have "same_statement env0 env" "log_on logger env (static_info env0 level False (site s))"
      using ok by (auto simp: slog_entered_def static_info_def)
    then show ?thesis using * by (intro exI [of _ "[(env, kvs)]"]) (simp add: slog_step_defs slog_now_def)
  next
    case outside
    have "pcs s' u = pcs s u" if "sLock s = Some u" for u
      using frame(1) that t outside(1) by (metis fun_upd_other)
    then show ?thesis
      using slog_outside [OF st ok outside] by (intro exI [of _ "[]"]) (simp add: slog_now_def split: option.split)
  qed
qed

lemma slog_inv_step:
  assumes inv: "slog_inv env0 logger level init_next next_func site0 s" and st: "slog_step env0 logger level init_next next_func t s s'"
  shows "slog_inv env0 logger level init_next next_func site0 s'"
proof -
  have mutex: "\<forall>u. slog_section (pcs s u) \<longleftrightarrow> sLock s = Some u" and ok: "\<And>u. slog_ok env0 logger (site s) (pcs s u)"
    using inv by (simp_all add: slog_inv_def)
  have t: "slog_section (pcs s t) \<longleftrightarrow> sLock s = Some t" using mutex by blast
  note frame = slog_step_frame [OF st t]
  have other: "pcs s' u = pcs s u" if "u \<noteq> t" for u using frame(1) that by (metis fun_upd_other)
  have "slog_section (pcs s' u) \<longleftrightarrow> sLock s' = Some u" for u
    using mutex other [of u] frame(2) frame(3) [of u] by (cases "u = t") auto
  moreover have "slog_ok env0 logger (site s') (pcs s' u)" for u
  proof (cases "u = t")
    case False
    have "sInfo (site s') = sInfo (site s)" if "slog_section (pcs s u)"
      using that False mutex frame(4) slog_section_info [OF that ok] by auto
    then show ?thesis using slog_ok_keeps [OF ok [of u] slog_step_keeps [OF st]] other [OF False] by simp
  qed (use slog_step_ok [OF st ok] in simp)
  moreover obtain c c' where "static_info env0 level False (site s) = (static_info env0 level False site0)\<lparr>mCounter := c\<rparr>"
    "static_info env0 level False (site s') = (static_info env0 level False (site s))\<lparr>mCounter := c'\<rparr>"
    using inv slog_step_info [OF st ok] by (auto simp: slog_inv_def)
  moreover obtain xs where "order s' = order s @ xs" "slog_now env0 logger level init_next next_func s' =
      fold (view_exec logger init_next next_func) xs (slog_now env0 logger level init_next next_func s)"
    "\<forall>x \<in> set xs. same_statement env0 (fst x) \<and> log_on logger (fst x) (static_info env0 level False (site s))"
    using slog_step_now [OF st ok mutex] by blast
  ultimately show ?thesis using inv by (auto simp: slog_inv_def)
qed

lemma slog_inv_reach:
  assumes "slog_reach env0 logger level init_next next_func site0 s"
  shows "slog_inv env0 logger level init_next next_func site0 s"
  using assms
proof induction
  case begins
  show ?case by (auto simp: slog_inv_def slog_init_def slog_now_def)
next
  case (goes_on s t s')
  then show ?case using slog_inv_step by blast
qed

lemma slog_can_step:
  assumes ok: "slog_ok env0 logger (site s) (pcs s t)"
  shows "(\<exists>s'. slog_step env0 logger level init_next next_func t s s') \<or> (\<exists>env kvs st. pcs s t = SL_Want env kvs st \<and> sLock s \<noteq> None)"
proof (cases "pcs s t")
  case SL_Idle
  then show ?thesis by (metis same_statement_def slog_step.start)
next
  case (SL_Start env kvs)
  then show ?thesis using slog_step.info by blast
next
  case (SL_Check env kvs)
  then show ?thesis using slog_step.check ok by fastforce
next
  case (SL_Static env kvs st)
  then show ?thesis using slog_step.static by blast
next
  case (SL_Want env kvs st)
  then show ?thesis using slog_step.lock by blast
next
  case (SL_Locked env kvs st)
  then show ?thesis using slog_step.read ok by (fastforce simp: slog_entered_def)
next
  case (SL_Read env kvs st c)
  then show ?thesis using slog_step.touch ok by (fastforce simp: slog_entered_def)
next
  case (SL_Touched env kvs st c)
  then show ?thesis using slog_step.compare ok by fastforce
next
  case (SL_Append env kvs st c)
  then show ?thesis using slog_step.append ok by fastforce
next
  case (SL_Next c)
  then show ?thesis using slog_step.advance by blast
next
  case SL_Leave
  then show ?thesis using slog_step.leave by blast
qed

section \<open>Which executions are logged\<close>

definition linear_logged :: "nat \<Rightarrow> nat \<Rightarrow> nat \<Rightarrow> bool" where
  \<comment> \<open>whether the execution at position \<open>k\<close> is logged, for a counter that starts at \<open>c0\<close>\<close>
  "linear_logged c0 i k \<longleftrightarrow> c0 < i \<and> i dvd (c0 + Suc k)"

definition linear_expected :: "nat \<Rightarrow> nat \<Rightarrow> nat \<Rightarrow> nat" where
  \<comment> \<open>the counter that is logged next, after \<open>m\<close> executions\<close>
  "linear_expected c0 i m = (if c0 < i then nxt_after linear_next i (c0 + m) else i)"

lemma linear_expected_steps:
  assumes "0 < i"
  shows "linear_expected c0 i 0 = i"
    and "Suc (c0 + m) = linear_expected c0 i m \<longleftrightarrow> linear_logged c0 i m"
    and "linear_expected c0 i (Suc m) = (if linear_logged c0 i m then Suc (c0 + m) + i else linear_expected c0 i m)"
    and "linear_expected c0 i m \<le> c0 + m + i"
proof -
  show "linear_expected c0 i 0 = i"
  proof (cases "c0 < i")
    case True
    obtain m where m: "nxt_after linear_next i c0 = m * i" "c0 < m * i" "m * i \<le> c0 + i" using nxt_linear [OF assms] by blast
    then have "m * i < 2 * i" using True by linarith
    moreover have "0 < m" using m(2) by (auto intro: gr0I)
    ultimately have "m < 2" using mult_less_cancel2 [of m i 2] by blast
    then have "m = 1" using \<open>0 < m\<close> by linarith
    then show ?thesis using m(1) True by (simp add: linear_expected_def)
  qed (simp add: linear_expected_def)
  show hit: "Suc (c0 + m) = linear_expected c0 i m \<longleftrightarrow> linear_logged c0 i m" for m
    using nxt_linear_hit [OF assms, of "c0 + m"] by (auto simp: linear_expected_def linear_logged_def)
  show "linear_expected c0 i (Suc m) = (if linear_logged c0 i m then Suc (c0 + m) + i else linear_expected c0 i m)"
    using hit [of m] nxt_linear_hit [OF assms, of "c0 + m"] by (auto simp: linear_expected_def linear_logged_def linear_next_def)
  show "linear_expected c0 i m \<le> c0 + m + i"
    using nxt_linear [OF assms, of "c0 + m"] by (auto simp: linear_expected_def)
qed

lemma linear_sequence:
  fixes xs :: "(log_env \<times> 'v fields) list"
  assumes "\<forall>x \<in> set xs. log_on logger (fst x) i0" and "c0 = unat (mCounter i0)" and "0 < i" and "i < 2 ^ 62" and "c0 + length xs < 2 ^ 62"
  shows "\<exists>cs. fold (view_exec logger (of_nat i) LINEAR_NEXT) xs (i0, of_nat i, []) =
      (i0\<lparr>mCounter := of_nat (c0 + length xs)\<rparr>, of_nat (linear_expected c0 i (length xs)), cs) \<and>
    map call_fields cs = map (\<lambda>k. snd (xs ! k)) (filter (linear_logged c0 i) [0..<length xs])"
  using assms(1,5)
proof (induction xs rule: rev_induct)
  case Nil
  then show ?case using assms(2) by (cases i0) (simp add: linear_expected_steps(1) [OF assms(3)])
next
  case (snoc x xs)
  obtain env kvs where x: "x = (env, kvs)" by fastforce
  let ?n = "length xs"
  note e = linear_expected_steps(2-4) [OF assms(3), of c0 ?n]
  obtain cs where cs: "fold (view_exec logger (of_nat i) LINEAR_NEXT) xs (i0, of_nat i, []) =
      (i0\<lparr>mCounter := of_nat (c0 + ?n)\<rparr>, of_nat (linear_expected c0 i ?n), cs)"
    "map call_fields cs = map (\<lambda>k. snd (xs ! k)) (filter (linear_logged c0 i) [0..<?n])"
    using snoc by auto
  have small: "linear_expected c0 i ?n < 2 ^ 64" "Suc (c0 + ?n) < 2 ^ 64" using e(3) assms(4) snoc.prems(2) by auto
  have hit: "(of_nat (Suc (c0 + ?n)) :: u64) = of_nat (linear_expected c0 i ?n) \<longleftrightarrow> linear_logged c0 i ?n"
    using of_nat_eq_iff_small [of "Suc (c0 + ?n)" "linear_expected c0 i ?n", where 'a = 64] small e(1) by simp
  have step: "(of_nat (c0 + ?n) :: u64) + 1 = of_nat (Suc (c0 + ?n))" "LINEAR_NEXT (of_nat i) (of_nat (Suc (c0 + ?n))) = of_nat (Suc (c0 + ?n) + i)"
    by (simp_all add: LINEAR_NEXT_def)
  have old: "map (\<lambda>k. snd ((xs @ [x]) ! k)) (filter (linear_logged c0 i) [0..<?n]) = map (\<lambda>k. snd (xs ! k)) (filter (linear_logged c0 i) [0..<?n])"
    by (simp add: nth_append)
  show ?case
    using snoc.prems(1) cs(1) by (simp add: x step hit e(2) Let_def append_call_def old cs(2) nth_append del: of_nat_Suc of_nat_add)
qed

section \<open>An undisturbed execution\<close>

definition slog_runs ::
  "log_env \<Rightarrow> Logger \<Rightarrow> LogLevel \<Rightarrow> u64 \<Rightarrow> (u64 \<Rightarrow> u64 \<Rightarrow> u64) \<Rightarrow> nat \<Rightarrow> 'v slog_state \<Rightarrow> 'v slog_state \<Rightarrow> bool" where
  "slog_runs env0 logger level init_next next_func t = (slog_step env0 logger level init_next next_func t)\<^sup>*\<^sup>*"

lemma slog_runs_refl: "s = s' \<Longrightarrow> slog_runs env0 logger level init_next next_func t s s'"
  by (simp add: slog_runs_def)

lemma slog_runs_step:
  "slog_step env0 logger level init_next next_func t s s1 \<Longrightarrow> slog_runs env0 logger level init_next next_func t s1 s' \<Longrightarrow>
   slog_runs env0 logger level init_next next_func t s s'"
  by (simp add: slog_runs_def)

lemma slog_runs_trans:
  "slog_runs env0 logger level init_next next_func t s s1 \<Longrightarrow> slog_runs env0 logger level init_next next_func t s1 s' \<Longrightarrow>
   slog_runs env0 logger level init_next next_func t s s'"
  by (simp add: slog_runs_def)

lemma slog_run_outside:
  assumes "pcs s t = SL_Idle" and "same_statement env0 env" and "i = static_info env level False (site s)"
  shows "slog_runs env0 logger level init_next next_func t s
    (slog_check_step logger t env kvs i (s\<lparr>site := (site s)\<lparr>sInfo := Some i\<rparr>\<rparr>))"
  by (rule slog_runs_step [OF slog_step.start [where env = env and kvs = kvs]], rule assms(1), rule assms(2),
      rule slog_runs_step [OF slog_step.info [where env = env and kvs = kvs]], simp add: slog_step_defs,
      rule slog_runs_step [OF slog_step.check [where env = env and kvs = kvs and i = i]], simp add: slog_step_defs,
      simp add: slog_step_defs assms(3), rule slog_runs_refl, simp add: slog_step_defs assms(3))

lemma slog_run_section:
  assumes "pcs s t = SL_Static env kvs st" and "sLock s = None" and "sInfo (site s) = Some i"
    and "n = (case sNext (site s) of Some n \<Rightarrow> n | None \<Rightarrow> init_next)" and "c = mCounter i + 1"
  shows "slog_runs env0 logger level init_next next_func t s
    (slog_compare_step t env kvs st c n (s\<lparr>site := (site s)\<lparr>sInfo := Some (i\<lparr>mCounter := c\<rparr>), sNext := Some n\<rparr>,
       sLock := Some t, order := order s @ [(env, kvs)]\<rparr>))"
  by (rule slog_runs_step [OF slog_step.static [where env = env and kvs = kvs and st = st]], rule assms(1),
      rule slog_runs_step [OF slog_step.lock [where env = env and kvs = kvs and st = st]], simp add: slog_step_defs,
      simp add: slog_step_defs assms(2),
      rule slog_runs_step [OF slog_step.read [where env = env and kvs = kvs and st = st and i = i]], simp add: slog_step_defs,
      simp add: slog_step_defs assms(3),
      rule slog_runs_step [OF slog_step.touch [where env = env and kvs = kvs and st = st and c = "mCounter i" and i = i]],
      simp add: slog_step_defs, simp add: slog_step_defs assms(3),
      rule slog_runs_step [OF slog_step.compare [where env = env and kvs = kvs and st = st and c = c and n = n]],
      simp add: slog_step_defs assms(5), simp add: slog_step_defs assms(4), rule slog_runs_refl,
      simp add: slog_step_defs assms(4,5))

lemma slog_run_append:
  assumes "pcs s t = SL_Append env kvs st c" and "sInfo (site s) = Some i"
  shows "slog_runs env0 logger level init_next next_func t s
    (s\<lparr>site := (site s)\<lparr>calls := calls (site s) @ [append_call env logger i st kvs], sNext := Some (next_func init_next c)\<rparr>,
       pcs := (pcs s)(t := SL_Leave)\<rparr>)"
  by (rule slog_runs_step [OF slog_step.append [where env = env and kvs = kvs and st = st and c = c and i = i]], rule assms(1),
      rule assms(2), rule slog_runs_step [OF slog_step.advance [where c = c]], simp add: slog_step_defs,
      rule slog_runs_refl, simp add: slog_step_defs)

lemma slog_run_leave: "pcs s t = SL_Leave \<Longrightarrow> slog_runs env0 logger level init_next next_func t s (slog_leave_step t s)"
  by (rule slog_runs_step [OF slog_step.leave]) (simp_all add: slog_runs_refl)

lemma sampled_cases:
  assumes "i = static_info env level False x" and "n = (case sNext x of Some n \<Rightarrow> n | None \<Rightarrow> init_next)" and "c = mCounter i + 1"
    and "st = (if LogInfo_StackTraceEnabled i then env_stack env else [])"
  shows "\<not> log_on logger env i \<Longrightarrow> STONE_LOG_X_SAMPLED env logger init_next next_func level kvs x = x\<lparr>sInfo := Some i\<rparr>"
    and "log_on logger env i \<Longrightarrow> c \<noteq> n \<Longrightarrow> STONE_LOG_X_SAMPLED env logger init_next next_func level kvs x =
      x\<lparr>sInfo := Some (i\<lparr>mCounter := c\<rparr>), sNext := Some n\<rparr>"
    and "log_on logger env i \<Longrightarrow> c = n \<Longrightarrow> STONE_LOG_X_SAMPLED env logger init_next next_func level kvs x =
      x\<lparr>sInfo := Some (i\<lparr>mCounter := c\<rparr>), sNext := Some (next_func init_next c),
        calls := calls x @ [append_call env logger (i\<lparr>mCounter := c\<rparr>) st kvs]\<rparr>"
  using assms unfolding STONE_LOG_X_SAMPLED_def log_on_def LogInfo_Touch_def Let_def by auto

lemma sampled_execution_run:
  assumes "pcs s t = SL_Idle" and "sLock s = None" and "same_statement env0 env"
    and i_def: "i = static_info env level False (site s)"
  shows "slog_runs env0 logger level init_next next_func t s
    (s\<lparr>site := STONE_LOG_X_SAMPLED env logger init_next next_func level kvs (site s),
       order := order s @ (if log_on logger env i then [(env, kvs)] else [])\<rparr>)"
proof -
  let ?n = "case sNext (site s) of Some n \<Rightarrow> n | None \<Rightarrow> init_next" and ?c = "mCounter i + 1"
    and ?st = "if LogInfo_StackTraceEnabled i then env_stack env else []"
  have idle: "(pcs s)(t := SL_Idle) = pcs s" using assms(1) by auto
  note out = slog_run_outside [where env = env and kvs = kvs, OF assms(1,3) i_def]
  show ?thesis
  proof (cases "log_on logger env i")
    case False
    then have "slog_check_step logger t env kvs i (s\<lparr>site := (site s)\<lparr>sInfo := Some i\<rparr>\<rparr>) =
        s\<lparr>site := STONE_LOG_X_SAMPLED env logger init_next next_func level kvs (site s), order := order s\<rparr>"
      using idle sampled_cases(1) [OF i_def refl refl refl False] by (simp add: slog_step_defs)
    then show ?thesis
      using out [where logger = logger and init_next = init_next and next_func = next_func] False by simp
  next
    case True
    define s2 where "s2 = slog_check_step logger t env kvs i (s\<lparr>site := (site s)\<lparr>sInfo := Some i\<rparr>\<rparr>)"
    have s2: "pcs s2 t = SL_Static env kvs ?st" "sLock s2 = None" "sInfo (site s2) = Some i" "?n = (case sNext (site s2) of Some n \<Rightarrow> n | None \<Rightarrow> init_next)"
      using True assms(2) by (simp_all add: s2_def slog_step_defs)
    define s3 where "s3 = slog_compare_step t env kvs ?st ?c ?n (s2\<lparr>site := (site s2)\<lparr>sInfo := Some (i\<lparr>mCounter := ?c\<rparr>), sNext := Some ?n\<rparr>,
       sLock := Some t, order := order s2 @ [(env, kvs)]\<rparr>)"
    have to3: "slog_runs env0 logger level init_next next_func t s s3"
      using slog_runs_trans [OF out slog_run_section [OF s2 [unfolded s2_def] refl]] by (simp add: s3_def s2_def)
    show ?thesis
    proof (cases "?c = ?n")
      case hit: True
      then have s3: "pcs s3 t = SL_Append env kvs ?st ?c" "sInfo (site s3) = Some (i\<lparr>mCounter := ?c\<rparr>)"
        by (simp_all add: s3_def slog_step_defs)
      show ?thesis
        by (rule slog_runs_trans [OF to3 slog_runs_trans [OF slog_run_append [OF s3] slog_runs_trans [OF slog_run_leave slog_runs_refl]]])
           (use True hit idle assms(2) sampled_cases(3) [OF i_def refl refl refl True hit] in \<open>simp_all add: s3_def s2_def slog_step_defs\<close>)
    next
      case miss: False
      show ?thesis
        by (rule slog_runs_trans [OF to3 slog_runs_trans [OF slog_run_leave slog_runs_refl]])
           (use True miss idle assms(2) sampled_cases(2) [OF i_def refl refl refl True miss] in \<open>simp_all add: s3_def s2_def slog_step_defs\<close>)
    qed
  qed
qed

lemma slog_runs_reach:
  assumes "slog_reach env0 logger level init_next next_func site0 s" and "slog_runs env0 logger level init_next next_func t s s'"
  shows "slog_reach env0 logger level init_next next_func site0 s'"
  using assms(2,1) unfolding slog_runs_def by (induction rule: rtranclp_induct) (auto intro: slog_reach.goes_on)

section \<open>Properties of sampled statements with many threads\<close>

text \<open>
  C16. However the steps of any number of threads that execute one sampled statement interleave, also the initialisation of its static
  variables, and whatever the threads' switches are: at most one thread is inside of the scoped lock; whenever none is, the
  statement is as if the executions that entered it had run one after the other, so that \<open>Touch\<close> and the update of \<open>sNext\<close>, which are not
  atomic, lose nothing; and a thread waits only while another one, which can go on, is inside.
\<close>

theorem sampled_log_serialized:
  assumes "slog_reach env0 logger level init_next next_func site0 s"
  shows "(\<forall>t u. slog_section (pcs s t) \<and> slog_section (pcs s u) \<longrightarrow> t = u) \<and>
    (sLock s = None \<longrightarrow> slog_view env0 level init_next (site s) =
       slog_view env0 level init_next (sampled_sequence logger level init_next next_func (order s) site0)) \<and>
    (\<forall>t. \<exists>u. (u = t \<or> slog_section (pcs s u)) \<and> (\<exists>s'. slog_step env0 logger level init_next next_func u s s'))"
proof -
  have inv: "slog_inv env0 logger level init_next next_func site0 s" using slog_inv_reach [OF assms] .
  then have mutex: "slog_section (pcs s t) \<longleftrightarrow> sLock s = Some t" and ok: "slog_ok env0 logger (site s) (pcs s t)" for t
    by (simp_all add: slog_inv_def)
  have "slog_view env0 level init_next (site s) =
       slog_view env0 level init_next (sampled_sequence logger level init_next next_func (order s) site0)" if "sLock s = None"
    using inv that by (subst view_of_sequence) (auto simp: slog_inv_def slog_now_def)
  moreover have "\<exists>u. (u = t \<or> slog_section (pcs s u)) \<and> (\<exists>s'. slog_step env0 logger level init_next next_func u s s')" for t
  proof (cases "sLock s")
    case None
    then show ?thesis using slog_can_step [OF ok [of t]] by blast
  next
    case (Some u)
    then have "slog_section (pcs s u)" using mutex by blast
    then show ?thesis using slog_can_step [OF ok [of u], of level init_next next_func] by fastforce
  qed
  moreover have "t = u" if "slog_section (pcs s t)" "slog_section (pcs s u)" for t u using mutex [of t] mutex [of u] that by simp
  ultimately show ?thesis by blast
qed

definition slog_example_logger :: Logger where
  "slog_example_logger = \<lparr>mPath = ''/a'', mMinLevel = LOG_LEVEL_INFO, mInherited = False, mSinkMap = Map.empty\<rparr>"

definition slog_example_site :: "nat log_site" where
  "slog_example_site = \<lparr>sInfo = None, sNext = None, calls = []\<rparr>"

lemma slog_example_reach:
  \<comment> \<open>thread 0 executes the statement, then thread 1 does\<close>
  "\<exists>s. slog_reach example_env slog_example_logger LOG_LEVEL_ERROR 2 LINEAR_NEXT slog_example_site s \<and> sLock s = None \<and>
     order s = [(example_env, [(''a'', 7)]), (example_env, [(''b'', 8)])]"
proof -
  let ?reach = "slog_reach example_env slog_example_logger LOG_LEVEL_ERROR 2 LINEAR_NEXT slog_example_site"
  let ?exec = "\<lambda>kvs. STONE_LOG_X_SAMPLED example_env slog_example_logger 2 LINEAR_NEXT LOG_LEVEL_ERROR kvs"
  have same: "same_statement example_env example_env" by (simp add: same_statement_def)
  have on: "log_on slog_example_logger example_env (static_info example_env LOG_LEVEL_ERROR False slog_example_site)"
    "log_on slog_example_logger example_env (static_info example_env LOG_LEVEL_ERROR False (?exec [(''a'', 7)] slog_example_site))"
    by (simp_all add: log_on_def static_info_def example_env_def log_defs less_eq_LogLevel_def slog_example_logger_def slog_example_site_def)
  let ?s1 = "(slog_init slog_example_site)\<lparr>site := ?exec [(''a'', 7)] slog_example_site, order := [(example_env, [(''a'', 7)])]\<rparr>"
  have "?reach ?s1"
    using sampled_execution_run [where t = 0 and s = "slog_init slog_example_site" and kvs = "[(''a'', 7)]" and logger = slog_example_logger and
        level = LOG_LEVEL_ERROR and init_next = 2 and next_func = LINEAR_NEXT, OF _ _ same refl] on(1)
    by (intro slog_runs_reach [OF slog_reach.begins, where t = 0]) (simp add: slog_init_def)
  moreover have "slog_runs example_env slog_example_logger LOG_LEVEL_ERROR 2 LINEAR_NEXT 1 ?s1
      (?s1\<lparr>site := ?exec [(''b'', 8)] (site ?s1), order := order ?s1 @ [(example_env, [(''b'', 8)])]\<rparr>)"
    using sampled_execution_run [where t = 1 and s = ?s1 and kvs = "[(''b'', 8)]" and logger = slog_example_logger and level = LOG_LEVEL_ERROR and
        init_next = 2 and next_func = LINEAR_NEXT, OF _ _ same refl] on(2) by (simp add: slog_init_def)
  ultimately have "?reach (?s1\<lparr>site := ?exec [(''b'', 8)] (site ?s1), order := order ?s1 @ [(example_env, [(''b'', 8)])]\<rparr>)"
    by (rule slog_runs_reach)
  then show ?thesis by (intro exI conjI) (assumption, simp_all add: slog_init_def)
qed

theorem sampled_log_serialized_witness:
  "\<exists>s. slog_reach example_env slog_example_logger LOG_LEVEL_ERROR 2 LINEAR_NEXT slog_example_site s \<and> length (order s) = 2 \<and>
     slog_view example_env LOG_LEVEL_ERROR 2 (site s) =
     slog_view example_env LOG_LEVEL_ERROR 2 (sampled_sequence slog_example_logger LOG_LEVEL_ERROR 2 LINEAR_NEXT (order s) slog_example_site)"
proof -
  obtain s where s: "slog_reach example_env slog_example_logger LOG_LEVEL_ERROR 2 LINEAR_NEXT slog_example_site s" "sLock s = None"
    "order s = [(example_env, [(''a'', 7)]), (example_env, [(''b'', 8)])]" using slog_example_reach by blast
  from sampled_log_serialized [OF s(1)] show ?thesis using s by (intro exI [of _ s]) simp
qed

text \<open>
  C17. With \<open>LINEAR_NEXT\<close> a statement that many threads execute logs, of the executions that find it enabled, counted over all threads in
  the order in which they lock the mutex, exactly those at which the statement's counter becomes a multiple of \<open>init\<close>, provided that the
  counter starts below \<open>init\<close>, and none otherwise; each record has the fields of the execution at its position. The counter starts at the value that
  the constructor of \<open>LogInfo\<close> in the binary library gives it, which the sources do not show: were it 0, every \<open>init\<close>-th execution would be
  logged. \<open>init\<close>, and the counter's first value together with the number of executions, are below \<open>2\<^sup>6\<^sup>2\<close>.
\<close>

theorem sampled_log_threads_positions:
  assumes "slog_reach env0 logger level (of_nat i) LINEAR_NEXT site0 s" and "sLock s = None"
    and "sNext site0 = None" and "calls site0 = []" and "c0 = unat (mCounter (static_info env0 level False site0))"
    and "0 < i" and "i < 2 ^ 62" and "c0 + length (order s) < 2 ^ 62"
  shows "map call_fields (calls (site s)) = map (\<lambda>k. snd (order s ! k)) (filter (\<lambda>k. c0 < i \<and> i dvd (c0 + Suc k)) [0..<length (order s)])"
proof -
  have inv: "slog_inv env0 logger level (of_nat i) LINEAR_NEXT site0 s" using slog_inv_reach [OF assms(1)] .
  then have "slog_view env0 level (of_nat i) (site s) =
      fold (view_exec logger (of_nat i) LINEAR_NEXT) (order s) (static_info env0 level False site0, of_nat i, [])"
    using assms(2-4) by (simp add: slog_inv_def slog_now_def slog_view_def)
  moreover have "\<forall>x \<in> set (order s). log_on logger (fst x) (static_info env0 level False site0)"
    using inv by (simp add: slog_inv_def)
  ultimately show ?thesis
    using linear_sequence [of "order s" logger "static_info env0 level False site0" c0 i] assms(5-8)
    by (auto simp: slog_view_def linear_logged_def [abs_def])
qed

theorem sampled_log_threads_positions_witness:
  "\<exists>s. slog_reach example_env slog_example_logger LOG_LEVEL_ERROR 2 LINEAR_NEXT slog_example_site s \<and>
     map call_fields (calls (site s)) = [[(''b'', 8)]]"
proof -
  obtain s where s: "slog_reach example_env slog_example_logger LOG_LEVEL_ERROR 2 LINEAR_NEXT slog_example_site s" "sLock s = None"
    "order s = [(example_env, [(''a'', 7)]), (example_env, [(''b'', 8)])]" using slog_example_reach by blast
  have "0 = unat (mCounter (static_info example_env LOG_LEVEL_ERROR False slog_example_site))"
    by (simp add: static_info_def slog_example_site_def example_env_def)
  then show ?thesis
    using sampled_log_threads_positions [of example_env slog_example_logger LOG_LEVEL_ERROR 2 slog_example_site s 0] s
    by (intro exI [of _ s]) (simp add: slog_example_site_def)
qed

text \<open>
  C27. The steps are those of the code: executions of the statement by any threads, one after the other, are an execution of the machine, and it
  leaves the statement exactly as the macro \<open>STONE_LOG_X_SAMPLED\<close> does when it is executed as a whole each time.
\<close>

theorem sampled_log_sequence_is_run:
  assumes "\<forall>x \<in> set xs. same_statement env0 (fst (snd x))"
  shows "\<exists>s. slog_reach env0 logger level init_next next_func site0 s \<and> sLock s = None \<and> (\<forall>t. pcs s t = SL_Idle) \<and>
    site s = sampled_sequence logger level init_next next_func (map snd (xs :: (nat \<times> log_env \<times> 'v fields) list)) site0"
  using assms
proof (induction xs rule: rev_induct)
  case Nil
  then show ?case
    by (intro exI [of _ "slog_init site0"]) (simp add: slog_reach.begins, simp add: slog_init_def sampled_sequence_def)
next
  case (snoc x xs)
  obtain t env kvs where x: "x = (t, env, kvs)" by (metis prod.exhaust)
  obtain s where s: "slog_reach env0 logger level init_next next_func site0 s" "sLock s = None" "\<forall>t. pcs s t = SL_Idle"
    "site s = sampled_sequence logger level init_next next_func (map snd xs) site0" using snoc by auto
  have "same_statement env0 env" using snoc.prems by (simp add: x)
  note next_state = slog_runs_reach [OF s(1) sampled_execution_run [where t = t and kvs = kvs, OF _ s(2) this refl]]
  show ?case
    by (rule exI, rule conjI, rule next_state) (use s(2-4) in \<open>simp_all add: x sampled_sequence_def\<close>)
qed

theorem sampled_log_sequence_is_run_witness:
  "\<exists>s. slog_reach example_env slog_example_logger LOG_LEVEL_ERROR 2 LINEAR_NEXT slog_example_site s \<and>
     site s = sampled_sequence slog_example_logger LOG_LEVEL_ERROR 2 LINEAR_NEXT [(example_env, [(''a'', 7)])] slog_example_site"
  using sampled_log_sequence_is_run [of "[(0, example_env, [(''a'', 7)])]" example_env slog_example_logger LOG_LEVEL_ERROR 2 LINEAR_NEXT slog_example_site]
  by (auto simp: same_statement_def)

end
