(* ===== verification/Stone_Future.thy ===== *)
theory Stone_Future
  imports Stone_Containers Stone_Closure_New
begin

text \<open>
  \<^verbatim>\<open>threading/sync/future.h\<close>: \<open>FuturePtr\<close>, the list of futures inside \<open>FutureGroup\<close>, \<open>FutureGroup::WaitOne\<close>,
  \<open>FutureClass\<close> and both forms of \<open>FutureClosure\<close>. The members of \<open>Future\<close> and \<open>FutureGroup\<close> are only declared in
  the header. Where their result matters they are parameters (\<open>future_api\<close>, functions on a world \<open>'w\<close>); \<open>FuturePtr\<close> ignores
  what \<open>Ref\<close> and \<open>Unref\<close> return, so there they are recorded as events in the order of the calls.
\<close>

section \<open>FuturePtr\<close>

datatype future_call = Ref addr | Unref addr

record fp_state =
  ptrs :: "addr \<rightharpoonup> addr"     \<comment> \<open>the living \<open>FuturePtr\<close> objects and their \<open>mFuture\<close>\<close>
  fcalls :: "future_call list"

definition fp_call :: "future_call \<Rightarrow> fp_state \<Rightarrow> fp_state" where
  "fp_call c s = s\<lparr>fcalls := fcalls s @ [c]\<rparr>"

definition fp_mFuture :: "addr \<Rightarrow> fp_state \<Rightarrow> addr result" where
  "fp_mFuture p s = (case ptrs s p of None \<Rightarrow> Inl Use_after_free | Some f \<Rightarrow> Inr f)"

definition FuturePtr_new :: "addr \<Rightarrow> fp_state \<Rightarrow> fp_state" where
  "FuturePtr_new p s = s\<lparr>ptrs := (ptrs s)(p \<mapsto> NULL)\<rparr>"

definition FuturePtr_from :: "addr \<Rightarrow> addr \<Rightarrow> fp_state \<Rightarrow> fp_state" where
  "FuturePtr_from p future s = s\<lparr>ptrs := (ptrs s)(p \<mapsto> future)\<rparr>"

definition FuturePtr_copy :: "addr \<Rightarrow> addr \<Rightarrow> fp_state \<Rightarrow> fp_state result" where
  "FuturePtr_copy p ptr s = bind_result (fp_mFuture ptr s) (\<lambda>future.
     let s1 = s\<lparr>ptrs := (ptrs s)(p \<mapsto> future)\<rparr>
     in Inr (if future \<noteq> NULL then fp_call (Ref future) s1 else s1))"

definition FuturePtr_Reset :: "addr \<Rightarrow> addr \<Rightarrow> fp_state \<Rightarrow> fp_state result" where
  "FuturePtr_Reset p future s = bind_result (fp_mFuture p s) (\<lambda>old.
     let s1 = (if old \<noteq> NULL then fp_call (Unref old) s else s)
     in Inr (s1\<lparr>ptrs := (ptrs s1)(p \<mapsto> future)\<rparr>))"

definition FuturePtr_dtor :: "addr \<Rightarrow> fp_state \<Rightarrow> fp_state result" where
  "FuturePtr_dtor p s = bind_result (FuturePtr_Reset p NULL s) (\<lambda>s1. Inr (s1\<lparr>ptrs := (ptrs s1)(p := None)\<rparr>))"

definition FuturePtr_assign :: "addr \<Rightarrow> addr \<Rightarrow> fp_state \<Rightarrow> fp_state result" where
  "FuturePtr_assign p ptr s = bind_result (fp_mFuture ptr s) (\<lambda>future.
     bind_result (fp_mFuture p s) (\<lambda>old.
       if old = future then Inr s
       else bind_result (FuturePtr_Reset p future s) (\<lambda>s1.
         Inr (if future \<noteq> NULL then fp_call (Ref future) s1 else s1))))"

definition FuturePtr_arrow :: "addr \<Rightarrow> fp_state \<Rightarrow> addr result" where
  "FuturePtr_arrow p s = fp_mFuture p s"

definition FuturePtr_bool :: "addr \<Rightarrow> fp_state \<Rightarrow> bool result" where
  "FuturePtr_bool p s = bind_result (fp_mFuture p s) (\<lambda>f. Inr (f \<noteq> NULL))"

definition FuturePtr_Release :: "addr \<Rightarrow> fp_state \<Rightarrow> (addr \<times> fp_state) result" where
  "FuturePtr_Release p s = bind_result (fp_mFuture p s) (\<lambda>future. Inr (future, s\<lparr>ptrs := (ptrs s)(p \<mapsto> NULL)\<rparr>))"

definition FuturePtr_Get :: "addr \<Rightarrow> fp_state \<Rightarrow> addr result" where
  "FuturePtr_Get p s = fp_mFuture p s"

lemmas future_ptr_defs = FuturePtr_new_def FuturePtr_from_def FuturePtr_copy_def FuturePtr_Reset_def FuturePtr_dtor_def
  FuturePtr_assign_def FuturePtr_Release_def fp_mFuture_def fp_call_def

section \<open>The list of a FutureGroup\<close>

record future_links =
  fPrev :: "addr \<rightharpoonup> addr"    \<comment> \<open>\<open>mPrev\<close> of every living \<open>Future\<close>\<close>
  fNext :: "addr \<rightharpoonup> addr"

definition get_field :: "(addr \<rightharpoonup> addr) \<Rightarrow> addr \<Rightarrow> addr result" where
  "get_field m a = (case m a of Some v \<Rightarrow> Inr v | None \<Rightarrow> Inl (if a = NULL then Null_dereference else Use_after_free))"

definition set_mPrev :: "addr \<Rightarrow> addr \<Rightarrow> future_links \<Rightarrow> future_links result" where
  "set_mPrev a v s = bind_result (get_field (fPrev s) a) (\<lambda>_. Inr (s\<lparr>fPrev := (fPrev s)(a \<mapsto> v)\<rparr>))"

definition set_mNext :: "addr \<Rightarrow> addr \<Rightarrow> future_links \<Rightarrow> future_links result" where
  "set_mNext a v s = bind_result (get_field (fNext s) a) (\<lambda>_. Inr (s\<lparr>fNext := (fNext s)(a \<mapsto> v)\<rparr>))"

definition FutureList_Empty :: "addr \<Rightarrow> addr \<Rightarrow> future_links \<Rightarrow> bool result" where
  "FutureList_Empty mHead mTail s = bind_result (get_field (fNext s) mHead) (\<lambda>n. Inr (n = mTail))"

definition FutureList_Reset :: "addr \<Rightarrow> addr \<Rightarrow> future_links \<Rightarrow> future_links result" where
  "FutureList_Reset mHead mTail s =
     bind_result (set_mPrev mHead NULL s) (\<lambda>s1. bind_result (set_mNext mHead mTail s1) (\<lambda>s2.
       bind_result (set_mPrev mTail mHead s2) (set_mNext mTail NULL)))"

definition FutureList_PushBack :: "addr \<Rightarrow> addr \<Rightarrow> addr \<Rightarrow> future_links \<Rightarrow> future_links result" where
  "FutureList_PushBack mHead mTail future s =
     bind_result (get_field (fPrev s) mTail) (\<lambda>last1. bind_result (set_mPrev future last1 s) (\<lambda>s1.
       bind_result (set_mNext future mTail s1) (\<lambda>s2. bind_result (get_field (fPrev s2) mTail) (\<lambda>last2.
         bind_result (set_mNext last2 future s2) (set_mPrev mTail future)))))"

definition FutureList_RemoveFront :: "addr \<Rightarrow> addr \<Rightarrow> future_links \<Rightarrow> (addr \<times> future_links) result" where
  "FutureList_RemoveFront mHead mTail s =
     bind_result (FutureList_Empty mHead mTail s) (\<lambda>empty.
       if empty then Inr (NULL, s)
       else bind_result (get_field (fNext s) mHead) (\<lambda>future.
         bind_result (get_field (fNext s) future) (\<lambda>next1. bind_result (set_mNext mHead next1 s) (\<lambda>s1.
         bind_result (get_field (fNext s1) future) (\<lambda>next2. bind_result (set_mPrev next2 mHead s1) (\<lambda>s2.
         bind_result (set_mPrev future NULL s2) (\<lambda>s3. bind_result (set_mNext future NULL s3) (\<lambda>s4.
           Inr (future, s4)))))))))"

lemmas future_list_defs = get_field_def set_mPrev_def set_mNext_def FutureList_Empty_def FutureList_Reset_def
  FutureList_PushBack_def FutureList_RemoveFront_def

section \<open>FutureGroup::WaitOne\<close>

definition FutureGroup_WaitOne :: "(int \<Rightarrow> int \<Rightarrow> 'w \<Rightarrow> int \<times> 'w) \<Rightarrow> int \<Rightarrow> 'w \<Rightarrow> bool \<times> 'w" where
  \<comment> \<open>\<open>wait size timeout\<close> is \<open>FutureGroup::Wait\<close>, which stores the completed futures in the world\<close>
  "FutureGroup_WaitOne wait timeout w = (let (cnt, w1) = wait 1 timeout w in if cnt = 1 then (True, w1) else (False, w1))"

section \<open>FutureClass\<close>

text \<open>The member \<open>mOwnFuture\<close> is neither read nor written by the class and is left out.\<close>

record FutureClass =
  mFuture :: addr
  mCompletionCallback :: addr

record 'w future_api =
  api_Unref :: "addr \<Rightarrow> 'w \<Rightarrow> 'w"
  api_Wait :: "addr \<Rightarrow> addr \<Rightarrow> int \<Rightarrow> 'w \<Rightarrow> bool \<times> 'w"
  api_IsCompleted :: "addr \<Rightarrow> 'w \<Rightarrow> bool"
  api_GetState :: "addr \<Rightarrow> 'w \<Rightarrow> addr"
  api_Complete :: "addr \<Rightarrow> addr \<Rightarrow> 'w \<Rightarrow> bool \<times> 'w"
  api_Reset :: "addr \<Rightarrow> 'w \<Rightarrow> 'w"
  api_SetCompletionCallback :: "addr \<Rightarrow> addr \<times> FutureClass \<Rightarrow> 'w \<Rightarrow> bool \<times> 'w"  \<comment> \<open>with \<open>this\<close> as it is at the call\<close>
  api_OnFutureComplete :: "addr \<Rightarrow> addr \<Rightarrow> 'w \<Rightarrow> 'w"   \<comment> \<open>the callback and the future\<close>

definition on_future :: "FutureClass \<Rightarrow> (addr \<Rightarrow> 'a) \<Rightarrow> 'a result" where
  \<comment> \<open>a call through \<open>mFuture\<close>\<close>
  "on_future this f = (if mFuture this = NULL then Inl Null_dereference else Inr (f (mFuture this)))"

definition FutureClass_new :: "addr \<Rightarrow> FutureClass result" where
  "FutureClass_new future = assert_that (future \<noteq> NULL) \<lparr>mFuture = future, mCompletionCallback = NULL\<rparr>"

definition FutureClass_dtor :: "'w future_api \<Rightarrow> FutureClass \<Rightarrow> 'w \<Rightarrow> (FutureClass \<times> 'w) result" where
  "FutureClass_dtor api this w = bind_result (on_future this (\<lambda>f. api_Unref api f w)) (\<lambda>w1. Inr (this\<lparr>mFuture := NULL\<rparr>, w1))"

definition FutureClass_Wait :: "'w future_api \<Rightarrow> addr \<Rightarrow> int \<Rightarrow> FutureClass \<Rightarrow> 'w \<Rightarrow> (bool \<times> 'w) result" where
  "FutureClass_Wait api pstate timeout this w = on_future this (\<lambda>f. api_Wait api f pstate timeout w)"

definition FutureClass_IsCompleted :: "'w future_api \<Rightarrow> FutureClass \<Rightarrow> 'w \<Rightarrow> bool result" where
  "FutureClass_IsCompleted api this w = on_future this (\<lambda>f. api_IsCompleted api f w)"

definition FutureClass_GetState :: "'w future_api \<Rightarrow> FutureClass \<Rightarrow> 'w \<Rightarrow> addr result" where
  "FutureClass_GetState api this w = on_future this (\<lambda>f. api_GetState api f w)"

definition FutureClass_Complete :: "'w future_api \<Rightarrow> addr \<Rightarrow> FutureClass \<Rightarrow> 'w \<Rightarrow> (bool \<times> 'w) result" where
  "FutureClass_Complete api state this w = on_future this (\<lambda>f. api_Complete api f state w)"

definition FutureClass_Reset :: "'w future_api \<Rightarrow> FutureClass \<Rightarrow> 'w \<Rightarrow> 'w result" where
  "FutureClass_Reset api this w = on_future this (\<lambda>f. api_Reset api f w)"

definition FutureClass_SetCompletionCallback ::
  "'w future_api \<Rightarrow> addr \<Rightarrow> addr \<Rightarrow> FutureClass \<Rightarrow> 'w \<Rightarrow> (bool \<times> FutureClass \<times> 'w) result" where
  "FutureClass_SetCompletionCallback api callback self this w =
     (let this1 = this\<lparr>mCompletionCallback := callback\<rparr>
      in bind_result (on_future this1 (\<lambda>f. api_SetCompletionCallback api f (self, this1) w)) (\<lambda>(ok, w1).
           if ok then Inr (True, this1, w1) else Inr (False, this1\<lparr>mCompletionCallback := NULL\<rparr>, w1)))"

definition FutureClass_OnFutureComplete :: "'w future_api \<Rightarrow> addr \<Rightarrow> addr \<Rightarrow> FutureClass \<Rightarrow> 'w \<Rightarrow> 'w" where
  "FutureClass_OnFutureComplete api future self this w =
     (if mCompletionCallback this \<noteq> NULL then api_OnFutureComplete api (mCompletionCallback this) self w else w)"

section \<open>FutureClosure\<close>

record 'v FutureClosure = FutureClass +
  mA1_arg :: 'v

definition FutureClosure_new :: "addr \<Rightarrow> 'v \<Rightarrow> 'v FutureClosure result" where
  \<comment> \<open>the new \<open>Future\<close>, and \<open>mA1\<close> as its default initialisation leaves it\<close>
  "FutureClosure_new future raw = bind_result (FutureClass_new future) (\<lambda>c. Inr (FutureClass.extend c \<lparr>mA1_arg = raw\<rparr>))"

definition FutureClosure_Run :: "'w future_api \<Rightarrow> 'v \<Rightarrow> 'v FutureClosure \<Rightarrow> 'w \<Rightarrow> ('v FutureClosure \<times> 'w) result" where
  "FutureClosure_Run api a1 this w =
     (let this1 = this\<lparr>mA1_arg := a1\<rparr>
      in bind_result (FutureClass_Complete api NULL (FutureClass.truncate this1) w) (\<lambda>(_, w1). Inr (this1, w1)))"

definition FutureClosure_IsAutoDelete :: "'v FutureClosure \<Rightarrow> bool" where
  "FutureClosure_IsAutoDelete this = False"

definition FutureClosure_A1 :: "'v FutureClosure \<Rightarrow> 'v" where
  "FutureClosure_A1 this = mA1_arg this"

record FutureClosureVoid = FutureClass +
  mClosure :: addr

definition FutureClosureVoid_new :: "addr \<Rightarrow> FutureClosureVoid result" where
  \<comment> \<open>the argument is the new \<open>Future\<close>\<close>
  "FutureClosureVoid_new future =
     bind_result (FutureClass_new future) (\<lambda>c. Inr (FutureClass.extend c \<lparr>mClosure = NULL\<rparr>))"

definition FutureClosureVoid_from :: "addr \<Rightarrow> addr \<Rightarrow> FutureClosureVoid result" where
  "FutureClosureVoid_from future closure =
     bind_result (FutureClass_new future) (\<lambda>c. Inr (FutureClass.extend c \<lparr>mClosure = closure\<rparr>))"

definition FutureClosureVoid_dtor ::
  "'w future_api \<Rightarrow> FutureClosureVoid \<Rightarrow> ('v, 'w) cstate \<Rightarrow> ('v, 'w) cstate result" where
  \<comment> \<open>the body, then the destructor of the base class\<close>
  "FutureClosureVoid_dtor api this s =
     bind_result
       (if mClosure this \<noteq> NULL then
          (case objects s (mClosure this) of
             None \<Rightarrow> Inl Use_after_free
           | Some obj \<Rightarrow> bind_result (ClosureBase_IsAutoDelete obj)
               (\<lambda>del. if del then ClosureBase_delete (mClosure this) s else Inr s))
        else Inr s)
       (\<lambda>s1. bind_result (FutureClass_dtor api (FutureClass.truncate this) (world s1)) (\<lambda>(_, w). Inr (s1\<lparr>world := w\<rparr>)))"

definition FutureClosureVoid_Run ::
  "('v, 'w) code \<Rightarrow> 'w future_api \<Rightarrow> FutureClosureVoid \<Rightarrow> ('v, 'w) cstate \<Rightarrow>
   ('v option \<times> FutureClosureVoid \<times> ('v, 'w) cstate) result" where
  \<comment> \<open>the exception that leaves the function, if any\<close>
  "FutureClosureVoid_Run code api this s =
     (let complete = (\<lambda>this s. bind_result (FutureClass_Complete api NULL (FutureClass.truncate this) (world s))
            (\<lambda>(_, w). Inr (None, this, s\<lparr>world := w\<rparr>)))
      in if mClosure this \<noteq> NULL then
           bind_result (Closure_Run code (mClosure this) [] s) (\<lambda>(out, s1).
             case out of Throw e \<Rightarrow> Inr (Some e, this, s1) | Return _ \<Rightarrow> complete (this\<lparr>mClosure := NULL\<rparr>) s1)
         else complete this s)"

definition FutureClosureVoid_Run_closure :: "('v, 'w) code \<Rightarrow> addr \<Rightarrow> ('v, 'w) run" where
  "FutureClosureVoid_Run_closure code closure s = Closure_Run code closure [] s"

definition FutureClosureVoid_IsAutoDelete :: "FutureClosureVoid \<Rightarrow> bool" where
  "FutureClosureVoid_IsAutoDelete this = False"

section \<open>The balance of references\<close>

text \<open>
  A program that uses \<open>FuturePtr\<close> hands references to the pointers (by the constructor from a raw pointer and by \<open>Reset\<close>), and \<open>Release\<close> hands
  one out. The history of a run is the sequence of these events and of the calls of \<open>Ref\<close> and \<open>Unref\<close>, in the order in which they happen.
\<close>

datatype ref_event = Handed_in addr | Call future_call | Handed_out addr

definition calls_since :: "fp_state \<Rightarrow> fp_state \<Rightarrow> ref_event list" where
  "calls_since s s' = map Call (drop (length (fcalls s)) (fcalls s'))"

inductive fp_reach :: "fp_state \<Rightarrow> ref_event list \<Rightarrow> bool" where
  init: "fp_reach \<lparr>ptrs = Map.empty, fcalls = []\<rparr> []"
| new: "fp_reach s h \<Longrightarrow> ptrs s p = None \<Longrightarrow> fp_reach (FuturePtr_new p s) h"
| adopt: "fp_reach s h \<Longrightarrow> ptrs s p = None \<Longrightarrow> fp_reach (FuturePtr_from p f s) (h @ [Handed_in f])"
| copy: "fp_reach s h \<Longrightarrow> ptrs s p = None \<Longrightarrow> FuturePtr_copy p q s = Inr s' \<Longrightarrow> fp_reach s' (h @ calls_since s s')"
| assign: "fp_reach s h \<Longrightarrow> FuturePtr_assign p q s = Inr s' \<Longrightarrow> fp_reach s' (h @ calls_since s s')"
| reset: "fp_reach s h \<Longrightarrow> FuturePtr_Reset p f s = Inr s' \<Longrightarrow> fp_reach s' (h @ Handed_in f # calls_since s s')"
| release: "fp_reach s h \<Longrightarrow> FuturePtr_Release p s = Inr (f, s') \<Longrightarrow> fp_reach s' (h @ [Handed_out f])"
| dtor: "fp_reach s h \<Longrightarrow> FuturePtr_dtor p s = Inr s' \<Longrightarrow> fp_reach s' (h @ calls_since s s')"

fun after_event :: "addr \<Rightarrow> ref_event \<Rightarrow> nat option \<Rightarrow> nat option" where
  \<comment> \<open>how many references to \<open>f\<close> the pointers own; only a reference that is still owned can be copied, given back or handed out\<close>
  "after_event f (Handed_in g) (Some k) = Some (if g = f then Suc k else k)"
| "after_event f (Call (Ref g)) (Some k) = (if g \<noteq> f then Some k else if k = 0 then None else Some (Suc k))"
| "after_event f (Call (Unref g)) (Some k) = (if g \<noteq> f then Some k else if k = 0 then None else Some (k - 1))"
| "after_event f (Handed_out g) (Some k) = (if g \<noteq> f then Some k else if k = 0 then None else Some (k - 1))"
| "after_event f ev None = None"

definition references :: "addr \<Rightarrow> ref_event list \<Rightarrow> nat option" where
  "references f h = fold (after_event f) h (Some 0)"

lemma references_Nil: "references f [] = Some 0"
  by (simp add: references_def)

lemma references_append: "references f (h @ evs) = fold (after_event f) evs (references f h)"
  by (simp add: references_def)

lemma after_events_None: "fold (after_event f) evs None = None"
  by (induction evs) simp_all

definition held :: "addr \<Rightarrow> (addr \<rightharpoonup> addr) \<Rightarrow> nat" where
  \<comment> \<open>how many pointers hold \<open>f\<close>\<close>
  "held f m = card {p. m p = Some f}"

lemma held_update:
  assumes "finite (dom m)"
  shows "held f (m(p := v)) + (if m p = Some f then 1 else 0) = held f m + (if v = Some f then 1 else 0)"
proof -
  let ?H = "{q. m q = Some f}"
  have fin: "finite ?H" by (rule finite_subset [OF _ assms]) auto
  have "{q. (m(p := v)) q = Some f} = (if v = Some f then insert p (?H - {p}) else ?H - {p})" by auto
  then have "held f (m(p := v)) = card (?H - {p}) + (if v = Some f then 1 else 0)"
    unfolding held_def using card_insert_disjoint [of "?H - {p}" p] fin by auto
  moreover have "card (?H - {p}) + (if m p = Some f then 1 else 0) = held f m"
    unfolding held_def using card_Suc_Diff1 [OF fin, of p] by auto
  ultimately show ?thesis by simp
qed

lemma held_positive:
  assumes "finite (dom m)" and "m p = Some f"
  shows "0 < held f m"
proof -
  have "finite {q. m q = Some f}" by (rule finite_subset [OF _ assms(1)]) auto
  then show ?thesis using assms(2) by (auto simp: held_def card_gt_0_iff)
qed

lemma held_when:
  assumes "finite (dom m)"
  shows "held f (m(p := v)) = held f m + (if v = Some f then 1 else 0) - (if m p = Some f then 1 else 0)"
  using held_update [OF assms, of f p v] by simp

definition references_ok :: "addr \<Rightarrow> fp_state \<Rightarrow> ref_event list \<Rightarrow> bool" where
  "references_ok f s h \<longleftrightarrow> finite (dom (ptrs s)) \<and> references f h = Some (held f (ptrs s)) \<and> [c. Call c \<leftarrow> h] = fcalls s"

lemmas reference_simps = references_ok_def references_append future_ptr_defs calls_since_def held_when Let_def

lemma references_reach: "fp_reach s h \<Longrightarrow> f \<noteq> NULL \<Longrightarrow> references_ok f s h"
proof (induction rule: fp_reach.induct)
  case init
  then show ?case by (simp add: references_ok_def references_Nil held_def)
next
  case (copy s h p q s')
  then obtain g where g: "ptrs s q = Some g" by (auto simp: future_ptr_defs split: option.splits)
  then have "g = f \<Longrightarrow> 0 < held f (ptrs s)" using copy.IH [OF copy.prems] held_positive by (auto simp: references_ok_def)
  then show ?case using copy g by (auto simp: reference_simps split: if_splits)
next
  case (assign s h p q s')
  then obtain g g' where g: "ptrs s q = Some g" "ptrs s p = Some g'" by (auto simp: future_ptr_defs split: option.splits)
  then have "f \<in> {g, g'} \<Longrightarrow> 0 < held f (ptrs s)" using assign.IH [OF assign.prems] held_positive by (auto simp: references_ok_def)
  then show ?case using assign g by (auto simp: reference_simps split: if_splits)
next
  case (reset s h p g s')
  then obtain g' where g: "ptrs s p = Some g'" by (auto simp: future_ptr_defs split: option.splits)
  then have "g' = f \<Longrightarrow> 0 < held f (ptrs s)" using reset.IH [OF reset.prems] held_positive by (auto simp: references_ok_def)
  then show ?case using reset g by (auto simp: reference_simps split: if_splits)
next
  case (release s h p g s')
  then have g: "ptrs s p = Some g" by (auto simp: future_ptr_defs split: option.splits)
  then have "g = f \<Longrightarrow> 0 < held f (ptrs s)" using release.IH [OF release.prems] held_positive by (auto simp: references_ok_def)
  then show ?case using release g by (auto simp: reference_simps split: if_splits)
next
  case (dtor s h p s')
  then obtain g where g: "ptrs s p = Some g" by (auto simp: future_ptr_defs split: option.splits)
  then have "g = f \<Longrightarrow> 0 < held f (ptrs s)" using dtor.IH [OF dtor.prems] held_positive by (auto simp: references_ok_def)
  then show ?case using dtor g by (auto simp: reference_simps split: if_splits)
qed (auto simp: reference_simps)

text \<open>
  C31. \<open>FuturePtr\<close> accounts for the references of every future, in every program that uses it and at every moment: the pointers own as many
  references to a future as there are pointers that hold it. Whenever \<open>Ref\<close> or \<open>Unref\<close> is called on a future the pointers still own a reference to
  it, so that in particular an assignment, also of a pointer to itself, does not give back the last reference before it takes its own; and
  once every pointer is destroyed, every reference was given back or handed out.
\<close>

theorem future_ptr_references_balance:
  assumes "fp_reach s h" and "f \<noteq> NULL"
  shows "references f h = Some (held f (ptrs s)) \<and> [c. Call c \<leftarrow> h] = fcalls s \<and>
    (\<forall>h1 c h2. h = h1 @ Call c # h2 \<and> c \<in> {Ref f, Unref f} \<longrightarrow> (\<exists>k. references f h1 = Some (Suc k))) \<and>
    (ptrs s = Map.empty \<longrightarrow> references f h = Some 0)"
proof -
  have ok: "references_ok f s h" using references_reach [OF assms] .
  have "\<exists>k. references f h1 = Some (Suc k)" if h: "h = h1 @ Call c # h2" "c \<in> {Ref f, Unref f}" for h1 c h2
  proof (rule ccontr)
    assume "\<nexists>k. references f h1 = Some (Suc k)"
    then have "references f h1 = None \<or> references f h1 = Some 0" by (metis not0_implies_Suc option.exhaust)
    then have "references f h = None" using h by (auto simp: references_append after_events_None)
    then show False using ok by (simp add: references_ok_def)
  qed
  then show ?thesis using ok by (auto simp: references_ok_def held_def)
qed

theorem future_ptr_references_balance_witness:
  "\<exists>s h. fp_reach s h \<and> ptrs s = Map.empty \<and> h = [Handed_in 100, Call (Ref 100), Call (Unref 100), Call (Unref 100)] \<and>
     references 100 h = Some 0"
proof -
  let ?s1 = "FuturePtr_from 1 100 \<lparr>ptrs = Map.empty, fcalls = []\<rparr>"
  let ?s2 = "\<lparr>ptrs = [1 \<mapsto> 100, 2 \<mapsto> 100], fcalls = [Ref 100]\<rparr>"
  let ?s3 = "\<lparr>ptrs = [2 \<mapsto> 100], fcalls = [Ref 100, Unref 100]\<rparr>"
  let ?s4 = "\<lparr>ptrs = Map.empty, fcalls = [Ref 100, Unref 100, Unref 100]\<rparr>"
  have "fp_reach ?s1 ([] @ [Handed_in 100])" by (rule fp_reach.adopt [OF fp_reach.init]) simp
  then have "fp_reach ?s1 (([] @ [Handed_in 100]) @ calls_since ?s1 ?s1)"
    by (rule fp_reach.assign [where p = 1 and q = 1]) (simp add: future_ptr_defs)
  then have "fp_reach ?s1 [Handed_in 100]" by (simp add: calls_since_def)
  then have "fp_reach ?s2 ([Handed_in 100] @ calls_since ?s1 ?s2)"
    by (rule fp_reach.copy [where p = 2 and q = 1]) (simp_all add: future_ptr_defs)
  then have "fp_reach ?s3 (([Handed_in 100] @ calls_since ?s1 ?s2) @ calls_since ?s2 ?s3)"
    by (rule fp_reach.dtor [where p = 1]) (auto simp: future_ptr_defs)
  then have "fp_reach ?s4 ((([Handed_in 100] @ calls_since ?s1 ?s2) @ calls_since ?s2 ?s3) @ calls_since ?s3 ?s4)"
    by (rule fp_reach.dtor [where p = 2]) (auto simp: future_ptr_defs)
  then have r: "fp_reach ?s4 [Handed_in 100, Call (Ref 100), Call (Unref 100), Call (Unref 100)]"
    by (simp add: calls_since_def FuturePtr_from_def)
  show ?thesis
    using future_ptr_references_balance [OF r, of 100] r by (intro exI [of _ ?s4] exI) auto
qed

section \<open>FutureList is a queue\<close>

fun linked :: "future_links \<Rightarrow> addr list \<Rightarrow> bool" where
  \<comment> \<open>consecutive futures point to each other\<close>
  "linked s (x # y # ys) \<longleftrightarrow> fNext s x = Some y \<and> fPrev s y = Some x \<and> linked s (y # ys)"
| "linked s _ \<longleftrightarrow> True"

lemma linked_append: "linked s (xs @ y # ys) \<longleftrightarrow> linked s (xs @ [y]) \<and> linked s (y # ys)"
proof (induction xs)
  case (Cons x xs)
  then show ?case by (cases xs) auto
qed simp

lemma linked_cong:
  "(\<And>x. x \<in> set (butlast xs) \<Longrightarrow> fNext s' x = fNext s x) \<Longrightarrow> (\<And>x. x \<in> set (tl xs) \<Longrightarrow> fPrev s' x = fPrev s x) \<Longrightarrow>
    linked s' xs = linked s xs"
proof (induction xs)
  case (Cons x xs)
  then show ?case by (cases xs) auto
qed simp

definition future_list_rep :: "addr \<Rightarrow> addr \<Rightarrow> future_links \<Rightarrow> addr list \<Rightarrow> bool" where
  "future_list_rep h t s xs \<longleftrightarrow> linked s (h # xs @ [t]) \<and> distinct (h # xs @ [t]) \<and> NULL \<notin> set (h # xs @ [t])"

definition future_list_addable :: "addr \<Rightarrow> addr \<Rightarrow> future_links \<Rightarrow> addr \<Rightarrow> bool" where
  \<comment> \<open>a future that is on no list\<close>
  "future_list_addable h t s x \<longleftrightarrow> x \<notin> {NULL, h, t} \<and> fNext s x = Some NULL \<and> fPrev s x = Some NULL"

lemma addable_fresh:
  assumes "future_list_rep h t s xs" and "future_list_addable h t s x"
  shows "x \<notin> set xs"
proof
  assume "x \<in> set xs"
  then obtain ys zs where xs: "xs = ys @ x # zs" by (auto simp: in_set_conv_decomp)
  then have "linked s (x # zs @ [t])" using assms(1) linked_append [of s "h # ys" x "zs @ [t]"] by (simp add: future_list_rep_def)
  then have "fNext s x \<noteq> Some NULL" using assms(1) xs by (cases zs) (auto simp: future_list_rep_def)
  then show False using assms(2) by (simp add: future_list_addable_def)
qed

lemma future_list_push:
  assumes r: "future_list_rep h t s xs" and a: "future_list_addable h t s x"
  shows "\<exists>s'. FutureList_PushBack h t x s = Inr s' \<and> future_list_rep h t s' (xs @ [x]) \<and>
    (\<forall>y. future_list_addable h t s y \<and> y \<noteq> x \<longrightarrow> future_list_addable h t s' y)"
proof -
  obtain ys z where zs: "h # xs = ys @ [z]" by (metis append_butlast_last_id list.discI)
  then have split: "h # xs @ [t] = ys @ z # [t]" by (metis append.assoc append_Cons append_Nil)
  have l: "linked s (ys @ [z])" "fNext s z = Some t" "fPrev s t = Some z"
    using r linked_append [of s ys z "[t]"] split by (simp_all add: future_list_rep_def)
  have d: "distinct (ys @ z # [t])" "NULL \<notin> set (ys @ z # [t])" using r split by (simp_all add: future_list_rep_def)
  have xz: "x \<notin> set (ys @ z # [t])" "x \<noteq> NULL"
    using addable_fresh [OF r a] a unfolding split [symmetric] by (auto simp: future_list_addable_def)
  let ?s = "s\<lparr>fPrev := (fPrev s)(x \<mapsto> z, t \<mapsto> x), fNext := (fNext s)(x \<mapsto> t, z \<mapsto> x)\<rparr>"
  have push: "FutureList_PushBack h t x s = Inr ?s"
    using l a d xz by (auto simp: future_list_defs future_list_addable_def)
  have "x \<notin> set (tl (ys @ [z]))" "t \<notin> set (tl (ys @ [z]))" using d xz by (cases ys; simp; fail)+
  then have "linked ?s (ys @ [z])"
    using l(1) d xz by (subst linked_cong [where s = s]) (auto simp: butlast_append)
  moreover have "linked ?s [z, x, t]" using d xz by auto
  ultimately have "linked ?s (ys @ z # [x, t])" using linked_append by blast
  moreover have e: "h # (xs @ [x]) @ [t] = ys @ z # [x, t]" using zs by (metis append.assoc append_Cons append_Nil)
  ultimately have "future_list_rep h t ?s (xs @ [x])" using d xz unfolding future_list_rep_def e by auto
  moreover have "future_list_addable h t ?s y" if "future_list_addable h t s y" "y \<noteq> x" for y
    using that l d by (auto simp: future_list_addable_def)
  ultimately show ?thesis using push by blast
qed

lemma future_list_pop:
  assumes r: "future_list_rep h t s (x # xs)"
  shows "\<exists>s'. FutureList_RemoveFront h t s = Inr (x, s') \<and> future_list_rep h t s' xs \<and> future_list_addable h t s' x"
proof -
  obtain y ys where y: "xs @ [t] = y # ys" by (metis append_is_Nil_conv list.exhaust)
  have l: "fNext s h = Some x" "fPrev s x = Some h" "fNext s x = Some y" "fPrev s y = Some x" "linked s (y # ys)"
    and d: "distinct (h # x # y # ys)" "NULL \<notin> set (h # x # y # ys)" "t \<in> set (y # ys)"
    using r unfolding future_list_rep_def by (auto simp: y [symmetric], auto simp: y)
  let ?s = "s\<lparr>fPrev := (fPrev s)(y \<mapsto> h, x \<mapsto> NULL), fNext := (fNext s)(h \<mapsto> y, x \<mapsto> NULL)\<rparr>"
  have pop: "FutureList_RemoveFront h t s = Inr (x, ?s)" using l d by (auto simp: future_list_defs)
  have "linked ?s (y # ys)"
    using l(5) d by (subst linked_cong [where s = s]) (auto dest: in_set_butlastD split: if_splits)
  then have "future_list_rep h t ?s xs" using d by (auto simp: future_list_rep_def y)
  moreover have "future_list_addable h t ?s x" using d by (auto simp: future_list_addable_def)
  ultimately show ?thesis using pop by blast
qed

interpretation future_list: fifo_container
    "future_list_rep h t" "future_list_addable h t" "(=)" "\<lambda>_. True" "FutureList_RemoveFront h t" "FutureList_PushBack h t"
  for h t
proof unfold_locales
  fix s x xs
  show "\<exists>s'. FutureList_RemoveFront h t s = Inr (x, s') \<and> future_list_rep h t s' xs" if "future_list_rep h t s (x # xs)"
    using future_list_pop [OF that] by blast
  show "\<exists>s'. FutureList_PushBack h t x s = Inr s' \<and> future_list_rep h t s' (xs @ [x]) \<and>
      (\<forall>y. future_list_addable h t s y \<and> \<not> x = y \<longrightarrow> future_list_addable h t s' y)"
    if "future_list_rep h t s xs" "future_list_addable h t s x"
    using future_list_push [OF that] by metis
qed simp

lemma future_list_reset:
  assumes "h \<noteq> t" and "h \<noteq> NULL" and "t \<noteq> NULL" and "{h, t} \<subseteq> dom (fPrev s) \<inter> dom (fNext s)"
  shows "\<exists>s'. FutureList_Reset h t s = Inr s' \<and> future_list_rep h t s' [] \<and>
    (\<forall>y. future_list_addable h t s y \<longrightarrow> future_list_addable h t s' y)"
  using assms by (auto simp: future_list_defs future_list_rep_def future_list_addable_def)

text \<open>
  The list of a \<open>FutureGroup\<close> is a queue: after \<open>Reset\<close>, any number of different futures that are on no list can be pushed,
  \<open>RemoveFront\<close> gives them back in the order in which they were pushed and then the null pointer, and the list is empty.
\<close>

theorem future_list_fifo:
  assumes "h \<noteq> t" and "h \<noteq> NULL" and "t \<noteq> NULL" and "{h, t} \<subseteq> dom (fPrev s) \<inter> dom (fNext s)"
    and "distinct fs" and "\<forall>f \<in> set fs. future_list_addable h t s f"
  shows "\<exists>s1 s2 s3. FutureList_Reset h t s = Inr s1 \<and> push_all (FutureList_PushBack h t) fs s1 = Inr s2 \<and>
    pop_n (FutureList_RemoveFront h t) (length fs) s2 = Inr (fs, s3) \<and>
    FutureList_RemoveFront h t s3 = Inr (NULL, s3) \<and> FutureList_Empty h t s3 = Inr True"
proof -
  obtain s1 where s1: "FutureList_Reset h t s = Inr s1" "future_list_rep h t s1 []"
      "\<forall>y. future_list_addable h t s y \<longrightarrow> future_list_addable h t s1 y"
    using future_list_reset [OF assms(1-4)] by blast
  then have "\<forall>f \<in> set fs. future_list_addable h t s1 f" using assms(6) by blast
  moreover have "sorted_wrt (\<lambda>x y. \<not> x = y) fs" using assms(5) sorted_wrt_neq_distinct by blast
  ultimately obtain s2 s3 where "push_all (FutureList_PushBack h t) fs s1 = Inr s2"
      "pop_n (FutureList_RemoveFront h t) (length fs) s2 = Inr (fs, s3)" "future_list_rep h t s3 []"
    using future_list.fifo_order [OF s1(2)] by blast
  then show ?thesis using s1(1) by (auto simp: future_list_rep_def FutureList_RemoveFront_def FutureList_Empty_def get_field_def)
qed

theorem future_list_fifo_witness:
  "\<exists>s1 s2 s3. push_all (FutureList_PushBack 1 2) [5, 4, 7] s1 = Inr s2 \<and>
     pop_n (FutureList_RemoveFront 1 2) 3 s2 = Inr ([5, 4, 7], s3) \<and> FutureList_Empty 1 2 s3 = Inr True"
proof -
  let ?s = "\<lparr>fPrev = (\<lambda>_. Some 0), fNext = (\<lambda>_. Some 0)\<rparr>"
  have "\<forall>f \<in> set [5, 4, 7]. future_list_addable 1 2 ?s f" "{1, 2} \<subseteq> dom (fPrev ?s) \<inter> dom (fNext ?s)"
    by (auto simp: future_list_addable_def)
  note fifo = future_list_fifo [OF _ _ _ this(2) _ this(1)]
  have "distinct [5, 4, 7 :: nat]" "length [5, 4, 7 :: nat] = 3" by simp_all
  then show ?thesis using fifo by (metis numeral_eq_iff semiring_norm(85) zero_neq_numeral zero_neq_one one_eq_numeral_iff)
qed

section \<open>A closure inside a FutureClosure\<close>

lemma dtor_without_closure:
  "mFuture this \<noteq> NULL \<Longrightarrow> mClosure this = NULL \<Longrightarrow>
    FutureClosureVoid_dtor api this s = Inr (s\<lparr>world := api_Unref api (mFuture this) (world s)\<rparr>)"
  by (simp add: FutureClosureVoid_dtor_def FutureClass_dtor_def on_future_def FutureClass.truncate_def)

definition one_shot_at :: "addr \<Rightarrow> ('v, 'w) cstate \<Rightarrow> bool" where
  "one_shot_at p s \<longleftrightarrow> (\<exists>c. objects s p = Some c \<and> wf_closure c \<and> tmpl_del c)"

lemma dtor_with_one_shot:
  assumes "mFuture this \<noteq> NULL" and "mClosure this = p" and "p \<noteq> NULL" and "one_shot_at p s"
  shows "\<exists>s'. FutureClosureVoid_dtor api this s = Inr s' \<and> objects s' = (objects s)(p := None) \<and>
    world s' = api_Unref api (mFuture this) (world s)"
proof -
  obtain c where c: "objects s p = Some c" "wf_closure c" "tmpl_del c" using assms(4) by (auto simp: one_shot_at_def)
  then have "ClosureBase_IsAutoDelete c = Inr True" 
    using IsAutoDelete_is_template_argument [of c] by (cases "dyn_class c") (auto simp: wf_closure_def closure_classes_def)
  then show ?thesis using assms(1-3) c(1)
    by (simp add: FutureClosureVoid_dtor_def FutureClass_dtor_def on_future_def FutureClass.truncate_def)
qed

lemma future_closure_life:
  assumes "p \<noteq> NULL" and "future \<noteq> NULL" and "one_shot_at p s1"
    and run: "Closure_Run code p [] s1 = Inr (out, s)" "objects s = (objects s2)(p := None)" "world s = world s2"
  shows "\<exists>this. FutureClosureVoid_from future p = Inr this \<and>
    (\<exists>s3. FutureClosureVoid_dtor api this s1 = Inr s3 \<and> objects s3 = (objects s1)(p := None)) \<and>
    (case out of
       Return v \<Rightarrow> (\<exists>this' s3 s4. FutureClosureVoid_Run code api this s1 = Inr (None, this', s3) \<and>
         objects s3 = (objects s2)(p := None) \<and> world s3 = snd (api_Complete api future NULL (world s2)) \<and>
         FutureClosureVoid_dtor api this' s3 = Inr s4 \<and> objects s4 = objects s3 \<and> world s4 = api_Unref api future (world s3))
     | Throw e \<Rightarrow> (\<exists>this' s3. FutureClosureVoid_Run code api this s1 = Inr (Some e, this', s3) \<and>
         objects s3 = (objects s2)(p := None) \<and> world s3 = world s2 \<and>
         FutureClosureVoid_dtor api this' s3 = Inl Use_after_free))"
proof -
  let ?fc = "\<lparr>mFuture = future, mCompletionCallback = NULL, mClosure = p\<rparr>"
  have new: "FutureClosureVoid_from future p = Inr ?fc"
    using assms(2) by (simp add: FutureClosureVoid_from_def FutureClass_new_def FutureClass.extend_def)
  have dtor: "\<exists>s3. FutureClosureVoid_dtor api ?fc s1 = Inr s3 \<and> objects s3 = (objects s1)(p := None)"
    using dtor_with_one_shot [of ?fc p s1 api] assms(1-3) by auto
  show ?thesis
  proof (cases out)
    case (Return v)
    let ?run = "\<lparr>mFuture = future, mCompletionCallback = NULL, mClosure = NULL\<rparr>"
    let ?s3 = "s\<lparr>world := snd (api_Complete api future NULL (world s2))\<rparr>"
    have "FutureClosureVoid_Run code api ?fc s1 = Inr (None, ?run, ?s3)"
      using run Return assms(1,2)
      by (simp add: FutureClosureVoid_Run_def FutureClass_Complete_def on_future_def FutureClass.truncate_def split: prod.splits)
    then show ?thesis
      using new dtor run Return assms(2) dtor_without_closure [of ?run api ?s3] by (auto intro!: exI)
  next
    case (Throw e)
    have "FutureClosureVoid_Run code api ?fc s1 = Inr (Some e, ?fc, s)"
      using run(1) Throw assms(1) by (simp add: FutureClosureVoid_Run_def)
    moreover have "FutureClosureVoid_dtor api ?fc s = Inl Use_after_free"
      using run(2) assms(1) by (simp add: FutureClosureVoid_dtor_def)
    ultimately show ?thesis using new dtor run Throw by auto
  qed
qed

text \<open>
  C19. A \<open>FutureClosure<void>\<close> made from a closure without free arguments that \<open>NewClosure\<close> returned, for a method or for a function that leaves the
  closure object itself alone, deletes that closure exactly once, whether it is run or not: \<open>Run\<close> calls
  the function, the closure deletes itself, the future is completed, and the destructor then only drops the future; the
  destructor of one that never ran deletes the closure. When the function throws, the closure has deleted
  itself but \<open>mClosure\<close> still points to it: the exception leaves \<open>Run\<close>, the future is not completed, and the destructor
  uses the deleted closure.
\<close>

theorem future_closure_owns_its_closure:
  assumes "p \<noteq> NULL" and "obj \<noteq> NULL" and "func \<noteq> 0" and "future \<noteq> NULL" and "length as \<le> 7"
    and "NewClosure_method p obj func as 0 s = Inr (q, s1)" and "code func obj as s1 = Inr (out, s2)" and "objects s2 p = objects s1 p"
    and "NewClosure_function p func as 0 t = Inr (q', t1)" and "code func NULL as t1 = Inr (out', t2)" and "objects t2 p = objects t1 p"
  shows "\<forall>(r, u1, res, u2) \<in> {(q, s1, out, s2), (q', t1, out', t2)}. \<exists>this. FutureClosureVoid_from future r = Inr this \<and>
    (\<exists>u3. FutureClosureVoid_dtor api this u1 = Inr u3 \<and> objects u3 = (objects u1)(r := None)) \<and>
    (case res of
       Return v \<Rightarrow> (\<exists>this' u3 u4. FutureClosureVoid_Run code api this u1 = Inr (None, this', u3) \<and>
         objects u3 = (objects u2)(r := None) \<and> world u3 = snd (api_Complete api future NULL (world u2)) \<and>
         FutureClosureVoid_dtor api this' u3 = Inr u4 \<and> objects u4 = objects u3 \<and> world u4 = api_Unref api future (world u3))
     | Throw e \<Rightarrow> (\<exists>this' u3. FutureClosureVoid_Run code api this u1 = Inr (Some e, this', u3) \<and>
         objects u3 = (objects u2)(r := None) \<and> world u3 = world u2 \<and>
         FutureClosureVoid_dtor api this' u3 = Inl Use_after_free))"
proof -
  have h: "q = p" "q' = p" "one_shot_method.holds_closure obj func p as 0 s1" "one_shot_function.holds_closure func p as 0 t1"
    using one_shot_method.make_holds [of as 0 p obj func s] one_shot_function.make_holds [of as 0 p func t] assms(5,6,9) by auto
  then have at: "one_shot_at p s1" "one_shot_at p t1"
    by (auto simp: one_shot_at_def one_shot_method.holds_closure_def one_shot_function.holds_closure_def)
  obtain s3 where "Closure_Run code p [] s1 = Inr (out, s3)" "objects s3 = (objects s2)(p := None)" "world s3 = world s2"
    using one_shot_method.run_one_shot [of obj func p as "[]" s1 code out s2] h assms(1-3,7,8) by auto
  note m = future_closure_life [OF assms(1,4) at(1) this]
  obtain t3 where "Closure_Run code p [] t1 = Inr (out', t3)" "objects t3 = (objects t2)(p := None)" "world t3 = world t2"
    using one_shot_function.run_one_shot [of func p as "[]" t1 code out' t2] h assms(1,3,10,11) by auto
  note f = future_closure_life [OF assms(1,4) at(2) this]
  show ?thesis using m [of api] f [of api] unfolding h(1,2) by simp
qed

definition example_api :: "nat list future_api" where
  \<comment> \<open>a world that lists the futures that were completed\<close>
  "example_api = \<lparr>api_Unref = (\<lambda>f w. w), api_Wait = (\<lambda>f p t w. (f \<in> set w, w)), api_IsCompleted = (\<lambda>f w. f \<in> set w),
     api_GetState = (\<lambda>f w. 0), api_Complete = (\<lambda>f st w. (f \<notin> set w, f # w)), api_Reset = (\<lambda>f w. removeAll f w),
     api_SetCompletionCallback = (\<lambda>f c w. (f \<notin> set w, w)), api_OnFutureComplete = (\<lambda>c f w. w)\<rparr>"

theorem future_closure_owns_its_closure_witness:
  "\<exists>s1 this this' s3 s4. NewClosure_method 4 8 1 [1, 2] 0 no_closures = Inr (4, s1) \<and> FutureClosureVoid_from 9 4 = Inr this \<and>
     FutureClosureVoid_Run sum_code example_api this s1 = Inr (None, this', s3) \<and> objects s3 4 = None \<and>
     FutureClosureVoid_dtor example_api this' s3 = Inr s4 \<and> world s4 = [9, 8]"
proof -
  obtain s1 t1 where n: "NewClosure_method 4 8 1 [1, 2] 0 no_closures = Inr (4, s1)" "world s1 = []"
      "NewClosure_function 4 1 [1, 2] 0 no_closures = Inr (4, t1)"
    by (simp add: NewClosure_method_eq NewClosure_function_eq new_object_def no_closures_def)
  have c: "sum_code 1 8 [1, 2] s1 = Inr (Return 3, s1\<lparr>world := 8 # world s1\<rparr>)" "sum_code 1 0 [1, 2] t1 = Inr (Return 3, t1\<lparr>world := 0 # world t1\<rparr>)"
    by (simp_all add: sum_code_def)
  from future_closure_owns_its_closure [where code = sum_code and future = 9 and api = example_api, OF _ _ _ _ _ n(1) c(1) _ n(3) c(2)] n show ?thesis
    by (auto simp: example_api_def)
qed

end
