(* ===== verification/Stone_Timer.thy ===== *)
theory Stone_Timer
  imports Stone_Closure_New
begin

text \<open>
  \<^verbatim>\<open>threading/runner/timeout_queue_detail.h\<close> and \<open>IsRunning\<close> of \<^verbatim>\<open>threading/runner/timeout_queue.h\<close>: the events of the
  timeout queue and the priority queue that orders them. The members of \<open>TimeoutQueue\<close> itself are only declared in the header. Times
  are \<open>int64_t\<close>, intervals \<open>int32_t\<close>, versions \<open>uint16_t\<close>. A \<open>std::priority_queue\<close> keeps its elements in the vector \<open>c\<close> and
  its top is the first of them.
\<close>

section \<open>TimerEvent\<close>

record TimerEvent =
  mLinkNode :: addr
  mExpireTime :: u64
  mCallback :: addr
  mInterval :: u32
  mVersion :: u16
  mValid :: bool
  mRepeating :: bool

definition TimerEvent_Reset :: "TimerEvent \<Rightarrow> TimerEvent" where
  "TimerEvent_Reset this =
     this\<lparr>mExpireTime := - 1, mCallback := NULL, mInterval := - 1, mVersion := mVersion this + 1, mValid := False,
          mRepeating := False\<rparr>"

definition TimerEvent_less :: "TimerEvent \<Rightarrow> TimerEvent \<Rightarrow> bool" where
  "TimerEvent_less this that \<longleftrightarrow> sint (mExpireTime this) > sint (mExpireTime that)"

definition TimerEvent_new :: "TimerEvent \<Rightarrow> TimerEvent" where
  \<comment> \<open>the argument is the storage as it was before\<close>
  "TimerEvent_new raw = TimerEvent_Reset (raw\<lparr>mVersion := - 1\<rparr>)"

definition TimerEvent_dtor :: "TimerEvent \<Rightarrow> ('v, 'w) cstate \<Rightarrow> (TimerEvent \<times> ('v, 'w) cstate) result" where
  "TimerEvent_dtor this s =
     bind_result (ClosureBase_delete (mCallback this) s) (\<lambda>s1. Inr ((TimerEvent_Reset this)\<lparr>mVersion := - 1\<rparr>, s1))"

definition TimerEventCompare :: "(addr \<Rightarrow> TimerEvent) \<Rightarrow> addr \<Rightarrow> addr \<Rightarrow> bool" where
  \<comment> \<open>events are compared through pointers\<close>
  "TimerEventCompare mem left right = TimerEvent_less (mem left) (mem right)"

section \<open>PriorityQueue\<close>

record 'a PriorityQueue =
  pq_c :: "'a list"

definition is_heap :: "('a \<Rightarrow> 'a \<Rightarrow> bool) \<Rightarrow> 'a list \<Rightarrow> bool" where
  \<comment> \<open>\<open>std::__is_heap\<close>: no element is greater than its parent\<close>
  "is_heap cmp xs \<longleftrightarrow> (\<forall>i \<in> {1..<length xs}. \<not> cmp (xs ! ((i - 1) div 2)) (xs ! i))"

definition PriorityQueue_GetSequence :: "'a PriorityQueue \<Rightarrow> 'a list" where
  "PriorityQueue_GetSequence this = pq_c this"

definition PriorityQueue_top :: "'a PriorityQueue \<Rightarrow> 'a result" where
  \<comment> \<open>\<open>top\<close> of the base class\<close>
  "PriorityQueue_top this = (case pq_c this of [] \<Rightarrow> Inl Out_of_bounds | x # _ \<Rightarrow> Inr x)"

definition PriorityQueue_Swap ::
  "('a \<Rightarrow> 'a \<Rightarrow> bool) \<Rightarrow> 'a list option \<Rightarrow> 'a PriorityQueue \<Rightarrow> ('a PriorityQueue \<times> 'a list) result" where
  \<comment> \<open>the queue and \<open>*s\<close> after the call; \<open>None\<close> is the null pointer\<close>
  "PriorityQueue_Swap cmp s this =
     (case s of None \<Rightarrow> Inl Assertion_failed
      | Some xs \<Rightarrow> bind_result (assert_that (is_heap cmp xs) ()) (\<lambda>_. Inr (this\<lparr>pq_c := xs\<rparr>, pq_c this)))"

section \<open>IsRunning\<close>

definition TimeoutQueue_IsRunning :: "bool \<Rightarrow> bool \<Rightarrow> bool" where
  "TimeoutQueue_IsRunning mStarted mStopped \<longleftrightarrow> mStarted \<and> \<not> mStopped"

section \<open>Heaps of a strict weak order\<close>

locale strict_weak_order =
  fixes cmp :: "'a \<Rightarrow> 'a \<Rightarrow> bool"
  assumes irrefl: "\<not> cmp x x"
    and trans: "cmp x y \<Longrightarrow> cmp y z \<Longrightarrow> cmp x z"
    and incomparable_trans: "\<not> cmp x y \<Longrightarrow> \<not> cmp y z \<Longrightarrow> \<not> cmp x z"
begin

lemma heap_top_greatest:
  "is_heap cmp xs \<Longrightarrow> i < length xs \<Longrightarrow> \<not> cmp (xs ! 0) (xs ! i)"
proof (induction i rule: less_induct)
  case (less i)
  show ?case
  proof (cases "i = 0")
    case False
    then have p: "(i - 1) div 2 < i" by simp
    then have "\<not> cmp (xs ! 0) (xs ! ((i - 1) div 2))" using less by simp
    moreover have "\<not> cmp (xs ! ((i - 1) div 2)) (xs ! i)"
      using less.prems False by (auto simp: is_heap_def)
    ultimately show ?thesis by (rule incomparable_trans)
  qed (simp add: irrefl)
qed

lemma swap_top_greatest:
  assumes "PriorityQueue_Swap cmp s q = Inr (q', old)" and "x \<in> set (pq_c q')"
  shows "\<exists>t. PriorityQueue_top q' = Inr t \<and> \<not> cmp t x"
proof -
  obtain xs where xs: "pq_c q' = xs" "is_heap cmp xs"
    using assms(1) by (cases s) (auto simp: PriorityQueue_Swap_def assert_that_def split: if_splits)
  obtain i where i: "i < length xs" "x = xs ! i" using assms(2) xs(1) by (metis in_set_conv_nth)
  then have "\<not> cmp (xs ! 0) x" using heap_top_greatest [OF xs(2)] by blast
  then show ?thesis using xs(1) assms(2) by (cases xs) (auto simp: PriorityQueue_top_def)
qed

end

interpretation timer_order: strict_weak_order "TimerEventCompare mem" for mem
  by unfold_locales (auto simp: TimerEventCompare_def TimerEvent_less_def)

section \<open>Properties of the timer events\<close>

text \<open>
  The event at the top of the queue expires first: when \<open>Swap\<close> gives the queue a new sequence of events, no event of the
  queue expires before the one at the top, the old sequence is handed back, and a sequence that is not a heap of
  \<open>TimerEventCompare\<close> (or a null pointer) is refused by an assertion.
\<close>

theorem timer_queue_top_expires_first:
  shows "(case PriorityQueue_Swap (TimerEventCompare mem) s q of
      Inr (q', old) \<Rightarrow> s = Some (pq_c q') \<and> old = pq_c q \<and>
        (\<forall>e \<in> set (pq_c q'). \<exists>t. PriorityQueue_top q' = Inr t \<and> sint (mExpireTime (mem t)) \<le> sint (mExpireTime (mem e)))
    | Inl err \<Rightarrow> err = Assertion_failed \<and> (\<forall>xs. s = Some xs \<longrightarrow> \<not> is_heap (TimerEventCompare mem) xs))"
proof (cases "PriorityQueue_Swap (TimerEventCompare mem) s q")
  case (Inl err)
  then show ?thesis by (cases s) (auto simp: PriorityQueue_Swap_def assert_that_def split: if_splits)
next
  case (Inr r)
  obtain q' old where r: "r = (q', old)" by (cases r)
  have "s = Some (pq_c q')" "old = pq_c q"
    using Inr r by (cases s; auto simp: PriorityQueue_Swap_def assert_that_def split: if_splits)+
  moreover have "\<exists>t. PriorityQueue_top q' = Inr t \<and> sint (mExpireTime (mem t)) \<le> sint (mExpireTime (mem e))" if "e \<in> set (pq_c q')" for e
    using timer_order.swap_top_greatest [OF Inr [unfolded r] that] by (auto simp: TimerEventCompare_def TimerEvent_less_def not_less)
  ultimately show ?thesis using Inr r by simp
qed

definition example_event :: "addr \<Rightarrow> TimerEvent" where
  "example_event a = \<lparr>mLinkNode = 0, mExpireTime = of_nat (10 * a), mCallback = 0, mInterval = 0, mVersion = 0, mValid = True,
     mRepeating = False\<rparr>"

theorem timer_queue_top_expires_first_witness:
  "\<exists>q'. PriorityQueue_Swap (TimerEventCompare example_event) (Some [1, 3, 2]) \<lparr>pq_c = [7]\<rparr> = Inr (q', [7]) \<and>
     (\<exists>t. PriorityQueue_top q' = Inr t \<and> sint (mExpireTime (example_event t)) \<le> sint (mExpireTime (example_event 2)))"
proof -
  have "is_heap (TimerEventCompare example_event) [1, 3, 2]"
  proof -
    have "{1..<length [1, 3, 2 :: addr]} = {1, 2}" by auto
    then show ?thesis by (simp add: is_heap_def TimerEventCompare_def TimerEvent_less_def example_event_def)
  qed
  then have "PriorityQueue_Swap (TimerEventCompare example_event) (Some [1, 3, 2]) \<lparr>pq_c = [7]\<rparr> = Inr (\<lparr>pq_c = [1, 3, 2]\<rparr>, [7])"
    by (simp add: PriorityQueue_Swap_def)
  then show ?thesis
    using timer_queue_top_expires_first [where mem = example_event and s = "Some [1, 3, 2]" and q = "\<lparr>pq_c = [7]\<rparr>"] by auto
qed

text \<open>
  An event is recycled with a new version: a fresh event has version 0, every \<open>Reset\<close> adds one, and the version an event had
  comes back exactly after a multiple of 65536 resets, so an id of an earlier use is recognised as stale until then.
\<close>

theorem timer_event_versions:
  shows "mVersion (TimerEvent_new raw) = 0 \<and> mVersion ((TimerEvent_Reset ^^ n) e) = mVersion e + of_nat n \<and>
    (mVersion ((TimerEvent_Reset ^^ n) e) = mVersion e \<longleftrightarrow> 65536 dvd n)"
proof -
  have v: "mVersion ((TimerEvent_Reset ^^ n) e) = mVersion e + of_nat n"
    by (induction n) (simp_all add: TimerEvent_Reset_def add.commute)
  have "(of_nat n :: u16) = 0 \<longleftrightarrow> 65536 dvd n" using word_of_nat_eq_0_iff [where 'a = 16, of n] by simp
  then show ?thesis using v by (simp add: TimerEvent_new_def TimerEvent_Reset_def)
qed

end
