(* ===== verification/Stone_Protobuf.thy ===== *)
theory Stone_Protobuf
  imports Stone_String_Piece
begin

text \<open>
  \<^verbatim>\<open>persistence/changelog/change_log.pb.h\<close> and \<^verbatim>\<open>io/recordio/test.pb.h\<close>: the accessors that \<^verbatim>\<open>protoc\<close> generated for the messages \<open>Record\<close> of
  the change log and \<open>Foo\<close>. A string field is a pointer to a \<open>std::string\<close>: either to the string \<open>kEmptyString\<close> that all messages share, or to one of
  its own, allocated when the field is first written. \<open>kEmptyString\<close> is a constant object: a write to it is an error. The strings live in a heap; the address of \<open>kEmptyString\<close> (\<open>e\<close>) and the address that \<open>new\<close> returns
  (\<open>fresh\<close>) are arguments. A \<open>RepeatedField\<close>, the unknown fields and the members that are defined in the binary library are parameters.
\<close>

section \<open>Strings\<close>

type_synonym strings = "addr \<Rightarrow> u8 list option"

definition string_at :: "strings \<Rightarrow> addr \<Rightarrow> u8 list result" where
  "string_at hp p = (if p = NULL then Inl Null_dereference else case hp p of None \<Rightarrow> Inl Use_after_free | Some v \<Rightarrow> Inr v)"

definition string_assign :: "addr \<Rightarrow> addr \<Rightarrow> u8 list \<Rightarrow> strings \<Rightarrow> strings result" where
  \<comment> \<open>\<open>p->assign(value)\<close>, where the string at \<open>e\<close> is constant\<close>
  "string_assign e p v hp = bind_result (string_at hp p) (\<lambda>_. if p = e then Inl Const_write else Inr (hp(p \<mapsto> v)))"

definition bytes_at :: "mem \<Rightarrow> addr \<Rightarrow> nat \<Rightarrow> u8 list" where
  "bytes_at m p n = map (\<lambda>i. m (p + i)) [0..<n]"

definition cstring_at :: "mem \<Rightarrow> addr \<Rightarrow> u8 list result" where
  \<comment> \<open>the characters that \<open>assign(const char*)\<close> copies\<close>
  "cstring_at m p = (if p = NULL then Inl Null_dereference
     else case traits_length_from m p 0 of None \<Rightarrow> Inl No_return | Some n \<Rightarrow> Inr (bytes_at m p n))"

section \<open>Record\<close>

record 'u Record =
  m_unknown_fields :: 'u
  m_seq_id :: u64
  m_record :: addr
  m_cached_size :: u32
  m_has_bits :: u32

definition Record_assign :: "('u Record \<Rightarrow> 'u Record \<Rightarrow> strings \<Rightarrow> ('u Record \<times> strings) result) \<Rightarrow>
    'u Record \<Rightarrow> 'u Record \<Rightarrow> strings \<Rightarrow> ('u Record \<times> strings) result" where
  \<comment> \<open>\<open>operator=\<close>; \<open>CopyFrom\<close> is a parameter\<close>
  "Record_assign CopyFrom this from0 hp = CopyFrom this from0 hp"

definition Record_unknown_fields :: "'u Record \<Rightarrow> 'u" where
  "Record_unknown_fields this = m_unknown_fields this"

definition Record_GetCachedSize :: "'u Record \<Rightarrow> u32" where
  "Record_GetCachedSize this = m_cached_size this"

definition Record_has_seq_id :: "'u Record \<Rightarrow> bool" where
  [stone_defs]: "Record_has_seq_id this \<longleftrightarrow> m_has_bits this AND 0x00000001 \<noteq> 0"

definition Record_set_has_seq_id :: "'u Record \<Rightarrow> 'u Record" where
  [stone_defs]: "Record_set_has_seq_id this = this\<lparr>m_has_bits := m_has_bits this OR 0x00000001\<rparr>"

definition Record_clear_has_seq_id :: "'u Record \<Rightarrow> 'u Record" where
  [stone_defs]: "Record_clear_has_seq_id this = this\<lparr>m_has_bits := m_has_bits this AND NOT 0x00000001\<rparr>"

definition Record_clear_seq_id :: "'u Record \<Rightarrow> 'u Record" where
  [stone_defs]: "Record_clear_seq_id this = Record_clear_has_seq_id (this\<lparr>m_seq_id := 0\<rparr>)"

definition Record_seq_id :: "'u Record \<Rightarrow> u64" where
  [stone_defs]: "Record_seq_id this = m_seq_id this"

definition Record_set_seq_id :: "u64 \<Rightarrow> 'u Record \<Rightarrow> 'u Record" where
  [stone_defs]: "Record_set_seq_id value this = (Record_set_has_seq_id this)\<lparr>m_seq_id := value\<rparr>"

definition Record_has_record :: "'u Record \<Rightarrow> bool" where
  [stone_defs]: "Record_has_record this \<longleftrightarrow> m_has_bits this AND 0x00000002 \<noteq> 0"

definition Record_set_has_record :: "'u Record \<Rightarrow> 'u Record" where
  [stone_defs]: "Record_set_has_record this = this\<lparr>m_has_bits := m_has_bits this OR 0x00000002\<rparr>"

definition Record_clear_has_record :: "'u Record \<Rightarrow> 'u Record" where
  [stone_defs]: "Record_clear_has_record this = this\<lparr>m_has_bits := m_has_bits this AND NOT 0x00000002\<rparr>"

definition Record_clear_record :: "addr \<Rightarrow> 'u Record \<Rightarrow> strings \<Rightarrow> ('u Record \<times> strings) result" where
  [stone_defs]: "Record_clear_record e this hp =
     (if m_record this \<noteq> e then bind_result (string_assign e (m_record this) [] hp) (\<lambda>hp'. Inr (Record_clear_has_record this, hp'))
      else Inr (Record_clear_has_record this, hp))"

definition Record_record :: "'u Record \<Rightarrow> strings \<Rightarrow> u8 list result" where
  [stone_defs]: "Record_record this hp = string_at hp (m_record this)"

definition Record_mutable_record :: "addr \<Rightarrow> addr \<Rightarrow> 'u Record \<Rightarrow> strings \<Rightarrow> (addr \<times> 'u Record \<times> strings) result" where
  [stone_defs]: "Record_mutable_record e fresh this hp =
     (let this = Record_set_has_record this in
      if m_record this = e then Inr (fresh, this\<lparr>m_record := fresh\<rparr>, hp(fresh \<mapsto> [])) else Inr (m_record this, this, hp))"

definition Record_set_record :: "addr \<Rightarrow> addr \<Rightarrow> u8 list \<Rightarrow> 'u Record \<Rightarrow> strings \<Rightarrow> ('u Record \<times> strings) result" where
  \<comment> \<open>\<open>set_record(const std::string&)\<close>\<close>
  [stone_defs]: "Record_set_record e fresh value this hp =
     (let this = Record_set_has_record this;
          (this, hp) = (if m_record this = e then (this\<lparr>m_record := fresh\<rparr>, hp(fresh \<mapsto> [])) else (this, hp))
      in bind_result (string_assign e (m_record this) value hp) (\<lambda>hp'. Inr (this, hp')))"

definition Record_set_record_cstr :: "mem \<Rightarrow> addr \<Rightarrow> addr \<Rightarrow> addr \<Rightarrow> 'u Record \<Rightarrow> strings \<Rightarrow> ('u Record \<times> strings) result" where
  \<comment> \<open>\<open>set_record(const char*)\<close>\<close>
  "Record_set_record_cstr m e fresh value this hp =
     (let this = Record_set_has_record this;
          (this, hp) = (if m_record this = e then (this\<lparr>m_record := fresh\<rparr>, hp(fresh \<mapsto> [])) else (this, hp))
      in bind_result (cstring_at m value) (\<lambda>v. bind_result (string_assign e (m_record this) v hp) (\<lambda>hp'. Inr (this, hp'))))"

definition Record_set_record_n :: "mem \<Rightarrow> addr \<Rightarrow> addr \<Rightarrow> addr \<Rightarrow> u64 \<Rightarrow> 'u Record \<Rightarrow> strings \<Rightarrow> ('u Record \<times> strings) result" where
  \<comment> \<open>\<open>set_record(const void*, size_t)\<close>\<close>
  "Record_set_record_n m e fresh value sz this hp =
     (let this = Record_set_has_record this;
          (this, hp) = (if m_record this = e then (this\<lparr>m_record := fresh\<rparr>, hp(fresh \<mapsto> [])) else (this, hp))
      in bind_result (string_assign e (m_record this) (bytes_at m value (unat sz)) hp) (\<lambda>hp'. Inr (this, hp')))"

definition Record_release_record :: "addr \<Rightarrow> 'u Record \<Rightarrow> addr \<times> 'u Record" where
  [stone_defs]: "Record_release_record e this =
     (let this = Record_clear_has_record this in
      if m_record this = e then (NULL, this)
      else (let temp = m_record this in (temp, this\<lparr>m_record := e\<rparr>)))"

section \<open>Foo\<close>

record ('u, 'r) Foo =
  f_unknown_fields :: 'u
  f_name :: addr
  f_id :: u64
  f_bars :: 'r
  f_cached_size :: u32
  f_has_bits :: u32

definition Foo_assign :: "(('u, 'r) Foo \<Rightarrow> ('u, 'r) Foo \<Rightarrow> strings \<Rightarrow> (('u, 'r) Foo \<times> strings) result) \<Rightarrow>
    ('u, 'r) Foo \<Rightarrow> ('u, 'r) Foo \<Rightarrow> strings \<Rightarrow> (('u, 'r) Foo \<times> strings) result" where
  "Foo_assign CopyFrom this from0 hp = CopyFrom this from0 hp"

definition Foo_unknown_fields :: "('u, 'r) Foo \<Rightarrow> 'u" where
  "Foo_unknown_fields this = f_unknown_fields this"

definition Foo_GetCachedSize :: "('u, 'r) Foo \<Rightarrow> u32" where
  "Foo_GetCachedSize this = f_cached_size this"











definition Foo_has_id :: "('u, 'r) Foo \<Rightarrow> bool" where
  [stone_defs]: "Foo_has_id this \<longleftrightarrow> f_has_bits this AND 0x00000002 \<noteq> 0"

definition Foo_set_has_id :: "('u, 'r) Foo \<Rightarrow> ('u, 'r) Foo" where
  [stone_defs]: "Foo_set_has_id this = this\<lparr>f_has_bits := f_has_bits this OR 0x00000002\<rparr>"

definition Foo_clear_has_id :: "('u, 'r) Foo \<Rightarrow> ('u, 'r) Foo" where
  [stone_defs]: "Foo_clear_has_id this = this\<lparr>f_has_bits := f_has_bits this AND NOT 0x00000002\<rparr>"

definition Foo_clear_id :: "('u, 'r) Foo \<Rightarrow> ('u, 'r) Foo" where
  [stone_defs]: "Foo_clear_id this = Foo_clear_has_id (this\<lparr>f_id := 0\<rparr>)"

definition Foo_id :: "('u, 'r) Foo \<Rightarrow> u64" where
  [stone_defs]: "Foo_id this = f_id this"

definition Foo_set_id :: "u64 \<Rightarrow> ('u, 'r) Foo \<Rightarrow> ('u, 'r) Foo" where
  [stone_defs]: "Foo_set_id value this = (Foo_set_has_id this)\<lparr>f_id := value\<rparr>"

text \<open>The accessors of the repeated field forward to the members of \<open>RepeatedField\<close>, which are arguments.\<close>

definition Foo_bars_size :: "('r \<Rightarrow> u32) \<Rightarrow> ('u, 'r) Foo \<Rightarrow> u32" where
  "Foo_bars_size sz this = sz (f_bars this)"

definition Foo_clear_bars :: "('r \<Rightarrow> 'r) \<Rightarrow> ('u, 'r) Foo \<Rightarrow> ('u, 'r) Foo" where
  "Foo_clear_bars Clear this = this\<lparr>f_bars := Clear (f_bars this)\<rparr>"

definition Foo_bars_at :: "(u32 \<Rightarrow> 'r \<Rightarrow> u32 result) \<Rightarrow> u32 \<Rightarrow> ('u, 'r) Foo \<Rightarrow> u32 result" where
  "Foo_bars_at Get index this = Get index (f_bars this)"

definition Foo_set_bars :: "(u32 \<Rightarrow> u32 \<Rightarrow> 'r \<Rightarrow> 'r result) \<Rightarrow> u32 \<Rightarrow> u32 \<Rightarrow> ('u, 'r) Foo \<Rightarrow> ('u, 'r) Foo result" where
  "Foo_set_bars Set0 index value this = bind_result (Set0 index value (f_bars this)) (\<lambda>r. Inr (this\<lparr>f_bars := r\<rparr>))"

definition Foo_add_bars :: "(u32 \<Rightarrow> 'r \<Rightarrow> 'r) \<Rightarrow> u32 \<Rightarrow> ('u, 'r) Foo \<Rightarrow> ('u, 'r) Foo" where
  "Foo_add_bars Add value this = this\<lparr>f_bars := Add value (f_bars this)\<rparr>"

definition Foo_bars :: "('u, 'r) Foo \<Rightarrow> 'r" where
  "Foo_bars this = f_bars this"

section \<open>The contract of a string field\<close>

record 'm field_ops =
  op_clear :: "addr \<Rightarrow> 'm \<Rightarrow> strings \<Rightarrow> ('m \<times> strings) result"
  op_set :: "addr \<Rightarrow> addr \<Rightarrow> u8 list \<Rightarrow> 'm \<Rightarrow> strings \<Rightarrow> ('m \<times> strings) result"
  op_set_cstr :: "mem \<Rightarrow> addr \<Rightarrow> addr \<Rightarrow> addr \<Rightarrow> 'm \<Rightarrow> strings \<Rightarrow> ('m \<times> strings) result"
  op_set_n :: "mem \<Rightarrow> addr \<Rightarrow> addr \<Rightarrow> addr \<Rightarrow> u64 \<Rightarrow> 'm \<Rightarrow> strings \<Rightarrow> ('m \<times> strings) result"
  op_mutable :: "addr \<Rightarrow> addr \<Rightarrow> 'm \<Rightarrow> strings \<Rightarrow> (addr \<times> 'm \<times> strings) result"
  op_release :: "addr \<Rightarrow> 'm \<Rightarrow> addr \<times> 'm"

definition Record_ops :: "'u Record field_ops" where
  "Record_ops = \<lparr>op_clear = Record_clear_record, op_set = Record_set_record, op_set_cstr = Record_set_record_cstr,
     op_set_n = Record_set_record_n, op_mutable = Record_mutable_record, op_release = Record_release_record\<rparr>"


locale string_field =
  fixes ptr :: "'m \<Rightarrow> addr" and has :: "'m \<Rightarrow> bool" and get :: "'m \<Rightarrow> strings \<Rightarrow> u8 list result" and ops :: "'m field_ops"
  assumes get_law: "ptr m \<noteq> NULL \<Longrightarrow> hp (ptr m) = Some v \<Longrightarrow> get m hp = Inr v"
    and clear_law: "ptr m \<noteq> NULL \<Longrightarrow> hp (ptr m) = Some v \<Longrightarrow>
      \<exists>m'. op_clear ops e m hp = Inr (m', if ptr m = e then hp else hp(ptr m \<mapsto> [])) \<and> ptr m' = ptr m \<and> \<not> has m'"
    and set_law: "ptr m \<noteq> NULL \<Longrightarrow> hp (ptr m) = Some v \<Longrightarrow> fresh \<noteq> NULL \<Longrightarrow> fresh \<noteq> e \<Longrightarrow>
      \<exists>m'. op_set ops e fresh w m hp = Inr (m', hp(ptr m' \<mapsto> w)) \<and> ptr m' = (if ptr m = e then fresh else ptr m) \<and> has m'"
    and set_cstr_law: "op_set_cstr ops mm e fresh q m hp = bind_result (cstring_at mm q) (\<lambda>w. op_set ops e fresh w m hp)"
    and set_n_law: "op_set_n ops mm e fresh q sz m hp = op_set ops e fresh (bytes_at mm q (unat sz)) m hp"
    and mutable_law: "\<exists>m'. op_mutable ops e fresh m hp = Inr (ptr m', m', if ptr m = e then hp(fresh \<mapsto> []) else hp) \<and>
      ptr m' = (if ptr m = e then fresh else ptr m) \<and> has m'"
    and release_law: "\<exists>m'. op_release ops e m = (if ptr m = e then NULL else ptr m, m') \<and> ptr m' = e \<and> \<not> has m'"

text \<open>
  Messages used by a program: any accessor on any message, stores through the pointers that \<open>mutable_\<close> and \<open>release_\<close> returned, at once or later
  (to any string that is alive, but for \<open>kEmptyString\<close>), and \<open>delete\<close> of a released string. \<open>given\<close> are the released strings that were not deleted.
\<close>

record 'm messages =
  msgs :: "nat \<Rightarrow> 'm"
  strs :: strings
  given :: "addr set"

definition fresh_string :: "addr \<Rightarrow> 'm messages \<Rightarrow> bool" where
  "fresh_string p w \<longleftrightarrow> p \<noteq> NULL \<and> p \<notin> dom (strs w)"

inductive field_step :: "'m field_ops \<Rightarrow> addr \<Rightarrow> 'm messages \<Rightarrow> 'm messages \<Rightarrow> bool" for ops e where
  clear: "op_clear ops e (msgs w i) (strs w) = Inr (m, hp) \<Longrightarrow>
    field_step ops e w (w\<lparr>msgs := (msgs w)(i := m), strs := hp\<rparr>)"
| set_string: "fresh_string fresh w \<Longrightarrow> op_set ops e fresh v (msgs w i) (strs w) = Inr (m, hp) \<Longrightarrow>
    field_step ops e w (w\<lparr>msgs := (msgs w)(i := m), strs := hp\<rparr>)"
| set_cstr: "fresh_string fresh w \<Longrightarrow> op_set_cstr ops mm e fresh q (msgs w i) (strs w) = Inr (m, hp) \<Longrightarrow>
    field_step ops e w (w\<lparr>msgs := (msgs w)(i := m), strs := hp\<rparr>)"
| set_n: "fresh_string fresh w \<Longrightarrow> op_set_n ops mm e fresh q sz (msgs w i) (strs w) = Inr (m, hp) \<Longrightarrow>
    field_step ops e w (w\<lparr>msgs := (msgs w)(i := m), strs := hp\<rparr>)"
| mutable: "fresh_string fresh w \<Longrightarrow> op_mutable ops e fresh (msgs w i) (strs w) = Inr (p, m, hp) \<Longrightarrow> string_assign e p v hp = Inr hp' \<Longrightarrow>
    field_step ops e w (w\<lparr>msgs := (msgs w)(i := m), strs := hp'\<rparr>)"
| release: "op_release ops e (msgs w i) = (p, m) \<Longrightarrow>
    field_step ops e w (w\<lparr>msgs := (msgs w)(i := m), given := (if p = NULL then given w else insert p (given w))\<rparr>)"
| store: "p \<noteq> e \<Longrightarrow> string_assign e p v (strs w) = Inr hp \<Longrightarrow> field_step ops e w (w\<lparr>strs := hp\<rparr>)"
| delete: "p \<in> given w \<Longrightarrow> field_step ops e w (w\<lparr>strs := (strs w)(p := None), given := given w - {p}\<rparr>)"

definition accessors_succeed :: "'m field_ops \<Rightarrow> addr \<Rightarrow> 'm messages \<Rightarrow> bool" where
  \<comment> \<open>no accessor of any message, and no store through a pointer that one of them gave to the program, goes through a null pointer, uses a deleted
    string or writes to \<open>kEmptyString\<close>\<close>
  "accessors_succeed ops e w \<longleftrightarrow>
     (\<forall>i. \<exists>r. op_clear ops e (msgs w i) (strs w) = Inr r) \<and>
     (\<forall>i fresh v mm q sz. fresh_string fresh w \<longrightarrow>
        (\<exists>r. op_set ops e fresh v (msgs w i) (strs w) = Inr r) \<and>
        (cstring_at mm q = Inr v \<longrightarrow> (\<exists>r. op_set_cstr ops mm e fresh q (msgs w i) (strs w) = Inr r)) \<and>
        (\<exists>r. op_set_n ops mm e fresh q sz (msgs w i) (strs w) = Inr r) \<and>
        (\<exists>p m hp hp'. op_mutable ops e fresh (msgs w i) (strs w) = Inr (p, m, hp) \<and> string_assign e p v hp = Inr hp')) \<and>
     (\<forall>p \<in> given w. \<forall>v. \<exists>hp. string_assign e p v (strs w) = Inr hp)"

definition strings_owned :: "('m \<Rightarrow> addr) \<Rightarrow> addr \<Rightarrow> 'm messages \<Rightarrow> bool" where
  \<comment> \<open>\<open>kEmptyString\<close> is empty, and every other string belongs to exactly one message or to the program\<close>
  "strings_owned ptr e w \<longleftrightarrow> e \<noteq> NULL \<and> strs w e = Some [] \<and> e \<notin> given w \<and> strs w NULL = None \<and>
     (\<forall>i j. ptr (msgs w i) = ptr (msgs w j) \<and> ptr (msgs w i) \<noteq> e \<longrightarrow> i = j) \<and> (\<forall>i. ptr (msgs w i) \<notin> given w) \<and>
     dom (strs w) = insert e (range (\<lambda>i. ptr (msgs w i)) \<union> given w)"

definition messages_init :: "('m \<Rightarrow> addr) \<Rightarrow> addr \<Rightarrow> 'm messages \<Rightarrow> bool" where
  "messages_init ptr e w \<longleftrightarrow> e \<noteq> NULL \<and> (\<forall>i. ptr (msgs w i) = e) \<and> strs w = [e \<mapsto> []] \<and> given w = {}"

lemma strings_ownedD:
  assumes "strings_owned ptr e w"
  shows "e \<noteq> NULL" and "strs w e = Some []" and "e \<notin> given w" and "strs w NULL = None"
    and "ptr (msgs w i) = ptr (msgs w j) \<Longrightarrow> ptr (msgs w i) \<noteq> e \<Longrightarrow> i = j" and "ptr (msgs w i) \<notin> given w"
    and "dom (strs w) = insert e (range (\<lambda>i. ptr (msgs w i)) \<union> given w)" and "ptr (msgs w i) \<in> dom (strs w)" and "ptr (msgs w i) \<noteq> NULL"
proof -
  show d: "dom (strs w) = insert e (range (\<lambda>i. ptr (msgs w i)) \<union> given w)" using assms unfolding strings_owned_def by blast
  show p: "ptr (msgs w i) \<in> dom (strs w)" by (simp only: d) blast
  show n: "strs w NULL = None" using assms unfolding strings_owned_def by blast
  show "ptr (msgs w i) \<noteq> NULL" using p n by (metis domIff)
qed (use assms in \<open>unfold strings_owned_def, blast\<close>)+

lemma strings_owned_update:
  assumes "strings_owned ptr e w" and "msgs w' = (msgs w)(i := m)" and "given w' = given w" and "strs w' e = Some []" "strs w' NULL = None"
    and "ptr m = ptr (msgs w i) \<and> dom (strs w') = dom (strs w) \<or>
      ptr (msgs w i) = e \<and> ptr m \<notin> dom (strs w) \<and> dom (strs w') = insert (ptr m) (dom (strs w))"
  shows "strings_owned ptr e w'"
proof -
  note o = strings_ownedD [OF assms(1)]
  have old: "given w \<subseteq> dom (strs w)" using o(7) by blast
  have one: "j = k" if "ptr (msgs w' j) = ptr (msgs w' k)" "ptr (msgs w' j) \<noteq> e" for j k
  proof -
    have "j = k" if "j = i \<or> k = i" "ptr (msgs w' j) = ptr (msgs w' k)" "ptr (msgs w' j) \<noteq> e" for j k
      using that assms(6) o(5) [of j k] o(8) [of j] o(8) [of k] unfolding assms(2) by (metis fun_upd_apply)
    then show ?thesis using that o(5) [of j k] unfolding assms(2) by (metis fun_upd_apply)
  qed
  have out: "ptr (msgs w' j) \<notin> given w" for j using o(6) [of j] o(6) [of i] assms(6) old unfolding assms(2) by (cases "j = i") auto
  have "range (\<lambda>j. ptr (msgs w' j)) = insert (ptr m) ((\<lambda>j. ptr (msgs w j)) ` (- {i}))" by (auto simp: assms(2))
  moreover have "range (\<lambda>j. ptr (msgs w j)) = insert (ptr (msgs w i)) ((\<lambda>j. ptr (msgs w j)) ` (- {i}))" by auto
  ultimately have "dom (strs w') = insert e (range (\<lambda>j. ptr (msgs w' j)) \<union> given w)" using assms(6) o(7) by auto
  then show ?thesis unfolding strings_owned_def assms(3) using o(1,3) one out assms(4,5) by blast
qed

lemma strings_owned_release:
  assumes "strings_owned ptr e w" and "msgs w' = (msgs w)(i := m)" and "ptr m = e" and "strs w' = strs w"
    and "given w' = (if ptr (msgs w i) = e then given w else insert (ptr (msgs w i)) (given w))"
  shows "strings_owned ptr e w'"
proof -
  note o = strings_ownedD [OF assms(1)]
  have p: "ptr (msgs w' j) = (if j = i then e else ptr (msgs w j))" for j using assms(2,3) by simp
  have one: "j = k" if "ptr (msgs w' j) = ptr (msgs w' k)" "ptr (msgs w' j) \<noteq> e" for j k using that o(5) [of j k] unfolding p by metis
  have out: "ptr (msgs w' j) \<notin> given w'" for j using o(3) o(5) [of j i] o(6) [of j] unfolding p assms(5) by (metis insertE)
  have "range (\<lambda>j. ptr (msgs w' j)) = insert e ((\<lambda>j. ptr (msgs w j)) ` (- {i}))" by (auto simp: p)
  moreover have "range (\<lambda>j. ptr (msgs w j)) = insert (ptr (msgs w i)) ((\<lambda>j. ptr (msgs w j)) ` (- {i}))" by auto
  ultimately have "dom (strs w') = insert e (range (\<lambda>j. ptr (msgs w' j)) \<union> given w')" using o(7) by (simp only: assms(4,5)) auto
  moreover have "e \<notin> given w'" using o(3) by (simp add: assms(5))
  ultimately show ?thesis unfolding strings_owned_def assms(4) using o(1,2,4) one out by blast
qed

lemma strings_owned_same_messages:
  assumes "strings_owned ptr e w" and "msgs w' = msgs w" and "given w' \<subseteq> given w" and "strs w' e = Some []" "strs w' NULL = None"
    and "dom (strs w') = insert e (range (\<lambda>i. ptr (msgs w i)) \<union> given w')"
  shows "strings_owned ptr e w'"
  using assms unfolding strings_owned_def assms(2) by blast

lemma strings_owned_given:
  assumes "strings_owned ptr e w" and "p \<in> given w"
  shows "strings_owned ptr e (w\<lparr>strs := (strs w)(p := None), given := given w - {p}\<rparr>)"
proof -
  note o = strings_ownedD [OF assms(1)]
  have p: "p \<noteq> e" "p \<in> dom (strs w)" "p \<notin> range (\<lambda>i. ptr (msgs w i))" using o(3,6,7) assms(2) by auto
  have z: "p \<noteq> NULL" using p(2) o(4) by (metis domIff)
  have d: "dom ((strs w)(p := None)) = insert e (range (\<lambda>i. ptr (msgs w i)) \<union> (given w - {p}))" using o(7) p by auto
  show "strings_owned ptr e (w\<lparr>strs := (strs w)(p := None), given := given w - {p}\<rparr>)"
    by (rule strings_owned_same_messages [OF assms(1)]; use o(2,4) p(1) z d in \<open>simp del: dom_fun_upd\<close>)+
qed

lemma string_ops [simp]:
  "p \<noteq> NULL \<Longrightarrow> hp p = Some v \<Longrightarrow> string_at hp p = Inr v"
  "p \<noteq> NULL \<Longrightarrow> hp p = Some v \<Longrightarrow> p \<noteq> e \<Longrightarrow> string_assign e p w hp = Inr (hp(p \<mapsto> w))"
  by (simp_all add: string_at_def string_assign_def)

lemma string_assign_Inr: "string_assign e p v hp = Inr hp' \<Longrightarrow> p \<noteq> e \<and> p \<noteq> NULL \<and> p \<in> dom hp \<and> hp' = hp(p \<mapsto> v)"
  by (auto simp: string_assign_def string_at_def split: if_splits option.splits)

context string_field
begin

lemma set_owned:
  assumes own: "strings_owned ptr e w" and fresh: "fresh_string fresh w" and set: "op_set ops e fresh v (msgs w i) (strs w) = Inr (m, hp)"
  shows "strings_owned ptr e (w\<lparr>msgs := (msgs w)(i := m), strs := hp\<rparr>)"
proof -
  note o = strings_ownedD(1-4) [OF own] and p = strings_ownedD(8,9) [OF own]
  obtain u where "strs w (ptr (msgs w i)) = Some u" using p(1) by blast
  moreover have "fresh \<noteq> NULL" "fresh \<noteq> e" "fresh \<notin> dom (strs w)" using fresh o(2) by (auto simp: fresh_string_def)
  ultimately show ?thesis using set_law [where m = "msgs w i" and hp = "strs w" and v = u and e = e and fresh = fresh and w = v] p(2) set
    by (intro strings_owned_update [OF own, where i = i and m = m]) (use o p in \<open>auto split: if_splits\<close>)
qed

lemma field_step_owned:
  assumes own: "strings_owned ptr e w" and st: "field_step ops e w w'"
  shows "strings_owned ptr e w'"
proof -
  note o = strings_ownedD(1-4) [OF own] and p = strings_ownedD(8,9) [OF own]
  show ?thesis
    using st
  proof cases
    case (clear i m hp)
    obtain v where "strs w (ptr (msgs w i)) = Some v" using p(1) by blast
    with clear_law [where m = "msgs w i" and hp = "strs w" and v = v and e = e] p(2) clear(2) show ?thesis
      by (intro strings_owned_update [OF own, where i = i and m = m]) (use clear(1) o p in auto)
  next
    case (set_cstr fresh mm q i m hp)
    then show ?thesis using set_owned [OF own set_cstr(2)] by (auto simp: set_cstr_law)
  next
    case (set_n fresh mm q sz i m hp)
    then show ?thesis using set_owned [OF own set_n(2)] by (simp add: set_n_law)
  next
    case (mutable fresh i q m hp v hp')
    have "hp' = hp(q \<mapsto> v)" using string_assign_Inr [OF mutable(4)] by simp
    moreover have "fresh \<noteq> NULL" "fresh \<noteq> e" "fresh \<notin> dom (strs w)" using mutable(2) o(2) by (auto simp: fresh_string_def)
    ultimately show ?thesis using mutable_law [of e fresh "msgs w i" "strs w"] mutable(3)
      by (intro strings_owned_update [OF own, where i = i and m = m]) (use mutable(1) o p in \<open>auto split: if_splits\<close>)
  next
    case (release i q m)
    have "q = (if ptr (msgs w i) = e then NULL else ptr (msgs w i))" "ptr m = e" using release_law [of e "msgs w i"] release(2) by auto
    then show ?thesis by (intro strings_owned_release [OF own, where i = i and m = m]) (use release(1) p(2) [of i] in auto)
  next
    case (store q v hp)
    have "hp = (strs w)(q \<mapsto> v)" "q \<in> dom (strs w)" "q \<noteq> NULL" using string_assign_Inr [OF store(3)] by simp_all
    moreover have "dom ((strs w)(q \<mapsto> v)) = dom (strs w)" using calculation(2) by auto
    ultimately show ?thesis using store(1,2) strings_ownedD(7) [OF own] o
      by (intro strings_owned_same_messages [OF own]) (simp_all del: dom_fun_upd)
  qed (use strings_owned_given [OF own] set_owned [OF own] in auto)
qed

lemma field_steps_owned:
  assumes "messages_init ptr e w0" and "(field_step ops e)\<^sup>*\<^sup>* w0 w"
  shows "strings_owned ptr e w"
  using assms(2)
proof (induction rule: rtranclp_induct)
  case base
  have "dom (strs w0) = {e}" using assms(1) by (simp add: messages_init_def)
  then show ?case using assms(1) by (auto simp: messages_init_def strings_owned_def)
qed (rule field_step_owned)

lemma owned_accessors_succeed:
  assumes own: "strings_owned ptr e w"
  shows "accessors_succeed ops e w"
proof -
  note o = strings_ownedD(1-4) [OF own] and p = strings_ownedD(8,9) [OF own]
  have clear: "\<exists>r. op_clear ops e (msgs w i) (strs w) = Inr r" for i
    using p(1) [of i] clear_law [of "msgs w i" "strs w" _ e, OF p(2)] by blast
  have set: "\<exists>r. op_set ops e fresh v (msgs w i) (strs w) = Inr r" if "fresh_string fresh w" for fresh v i
  proof -
    have "fresh \<noteq> NULL" "fresh \<noteq> e" using that o(2) by (auto simp: fresh_string_def)
    then show ?thesis using p(1) [of i] set_law [of "msgs w i" "strs w" _ fresh e v, OF p(2)] by blast
  qed
  have mutable: "\<exists>q m hp hp'. op_mutable ops e fresh (msgs w i) (strs w) = Inr (q, m, hp) \<and> string_assign e q v hp = Inr hp'"
    if f: "fresh_string fresh w" for fresh v i
  proof -
    obtain m where m: "op_mutable ops e fresh (msgs w i) (strs w) = Inr (ptr m, m, if ptr (msgs w i) = e then (strs w)(fresh \<mapsto> []) else strs w)"
      "ptr m = (if ptr (msgs w i) = e then fresh else ptr (msgs w i))" using mutable_law by blast
    moreover have "fresh \<noteq> NULL" "fresh \<noteq> e" using f o(2) by (auto simp: fresh_string_def)
    moreover obtain u where "strs w (ptr (msgs w i)) = Some u" using p(1) [of i] by blast
    ultimately have "\<exists>hp'. string_assign e (ptr m) v (if ptr (msgs w i) = e then (strs w)(fresh \<mapsto> []) else strs w) = Inr hp'"
      using p(2) [of i] by auto
    then show ?thesis using m(1) by blast
  qed
  have given: "\<exists>hp. string_assign e q v (strs w) = Inr hp" if q: "q \<in> given w" for q v
  proof -
    have "q \<in> dom (strs w)" using strings_ownedD(7) [OF own] q by blast
    moreover have "q \<noteq> e" "q \<noteq> NULL" using q o(3,4) calculation by (auto intro: ccontr)
    ultimately show ?thesis by auto
  qed
  have "\<exists>r. op_set_cstr ops mm e fresh q (msgs w i) (strs w) = Inr r" if "fresh_string fresh w" "cstring_at mm q = Inr v" for fresh mm q v i
    using set [OF that(1)] that(2) by (simp add: set_cstr_law)
  moreover have "\<exists>r. op_set_n ops mm e fresh q sz (msgs w i) (strs w) = Inr r" if "fresh_string fresh w" for fresh mm q sz i
    using set [OF that] by (simp add: set_n_law)
  ultimately show ?thesis unfolding accessors_succeed_def using clear set mutable given by (intro conjI allI impI ballI) (assumption | simp)+
qed

lemma field_round_trip:
  \<comment> \<open>what is set is read back, until it is cleared or released\<close>
  assumes "strings_owned ptr e w" and "fresh \<noteq> NULL" and "fresh \<notin> dom (strs w)"
  shows "\<exists>m hp. op_set ops e fresh v (msgs w i) (strs w) = Inr (m, hp) \<and> has m \<and> get m hp = Inr v \<and>
    (\<exists>m' hp'. op_clear ops e m hp = Inr (m', hp') \<and> \<not> has m' \<and> get m' hp' = Inr []) \<and>
    (\<exists>p m'. op_release ops e m = (p, m') \<and> p \<noteq> NULL \<and> hp p = Some v \<and> \<not> has m' \<and> get m' hp = Inr [])"
proof -
  note o = strings_ownedD(1,2,4) [OF assms(1)] and p = strings_ownedD(9) [OF assms(1), of i]
  obtain u where u: "strs w (ptr (msgs w i)) = Some u" using strings_ownedD(8) [OF assms(1), of i] by blast
  obtain m where m: "op_set ops e fresh v (msgs w i) (strs w) = Inr (m, (strs w)(ptr m \<mapsto> v))" "ptr m = (if ptr (msgs w i) = e then fresh else ptr (msgs w i))" "has m"
    using set_law [where m = "msgs w i" and hp = "strs w" and v = u and e = e and fresh = fresh and w = v] p u assms(2,3) o(2) by blast
  let ?hp = "(strs w)(ptr m \<mapsto> v)"
  have q: "ptr m \<noteq> NULL" "ptr m \<noteq> e" "?hp (ptr m) = Some v" "?hp e = Some []" using m(2) assms(2,3) o p by (auto split: if_splits)
  obtain m1 where m1: "op_clear ops e m ?hp = Inr (m1, ?hp(ptr m \<mapsto> []))" "ptr m1 = ptr m" "\<not> has m1" using clear_law [where m = m and hp = ?hp and v = v and e = e] q(1-3) by auto
  obtain m2 where m2: "op_release ops e m = (ptr m, m2)" "ptr m2 = e" "\<not> has m2" using release_law [of e m] q(2) by auto
  have "get m ?hp = Inr v" "get m1 (?hp(ptr m \<mapsto> [])) = Inr []" "get m2 ?hp = Inr []"
    using get_law [of m ?hp v] get_law [of m1 "?hp(ptr m \<mapsto> [])" "[]"] get_law [of m2 ?hp "[]"] q m1(2) m2(2) o(1) by simp_all
  then show ?thesis using m(1,3) m1 m2 q by blast
qed

end

section \<open>The messages fulfil the contract\<close>

lemma has_bit_ops:
  fixes b :: u32
  shows "(b OR 1) AND 1 \<noteq> 0" "(b AND - 2) AND 1 = 0" "(b OR 2) AND 2 \<noteq> 0" "(b AND - 3) AND 2 = 0"
    "(b OR 1) AND 2 = b AND 2" "(b AND - 2) AND 2 = b AND 2" "(b OR 2) AND 1 = b AND 1" "(b AND - 3) AND 1 = b AND 1"
proof -
  show "(b OR 1) AND 1 \<noteq> 0" "(b OR 2) AND 2 \<noteq> 0"
    using and_exp_eq_0_iff_not_bit [of "b OR 1" 0] and_exp_eq_0_iff_not_bit [of "b OR 2" 1] by (simp_all add: bit_or_iff)
qed (simp_all add: bit.conj_disj_distrib2 and.assoc)

interpretation record_field: string_field m_record Record_has_record Record_record Record_ops
  by unfold_locales (auto simp: Record_ops_def Record_set_record_cstr_def Record_set_record_n_def stone_defs Let_def has_bit_ops)





lemma cstring_at_bytes:
  \<comment> \<open>the characters up to the first NUL\<close>
  assumes "p \<noteq> NULL" and "\<forall>i < n. m (p + i) \<noteq> 0" and "m (p + n) = 0"
  shows "cstring_at m p = Inr (bytes_at m p n)"
proof -
  have "traits_length_from m p (n - k) = Some n" if "k \<le> n" for k
    using that
  proof (induction k)
    case 0
    then show ?case using assms(3) by (simp add: traits_length_from.simps)
  next
    case (Suc k)
    define i where "i = n - Suc k"
    have i: "i < n" "n - k = Suc i" using Suc.prems by (auto simp: i_def)
    then show ?case using Suc assms(2) unfolding i_def [symmetric] by (subst traits_length_from.simps) simp
  qed
  from this [of n] show ?thesis using assms(1) by (simp add: cstring_at_def)
qed

text \<open>
  What a setter stores the getter reads back, whichever of the three overloads is used (one takes the characters up to the first NUL, one takes a number of
  bytes); \<open>clear_record\<close> makes the field empty again; \<open>release_record\<close> gives the string away; and the fields do not disturb each other.
\<close>

theorem record_accessors:
  assumes "strings_owned m_record e w" and "fresh \<noteq> NULL" and "fresh \<notin> dom (strs w)"
  shows "\<exists>m hp. Record_set_record e fresh v (msgs w i) (strs w) = Inr (m, hp) \<and> Record_has_record m \<and> Record_record m hp = Inr v \<and>
    Record_seq_id m = Record_seq_id (msgs w i) \<and> Record_has_seq_id m = Record_has_seq_id (msgs w i) \<and>
    (\<exists>m' hp'. Record_clear_record e m hp = Inr (m', hp') \<and> \<not> Record_has_record m' \<and> Record_record m' hp' = Inr []) \<and>
    (\<exists>p m'. Record_release_record e m = (p, m') \<and> hp p = Some v \<and> \<not> Record_has_record m' \<and> Record_record m' hp = Inr [])"
    and "bytes_at mm q (unat n) = v \<Longrightarrow> Record_set_record_n mm e fresh q n (msgs w i) (strs w) = Record_set_record e fresh v (msgs w i) (strs w)"
    and "cstring_at mm q = Inr v \<Longrightarrow> Record_set_record_cstr mm e fresh q (msgs w i) (strs w) = Record_set_record e fresh v (msgs w i) (strs w)"
proof -
  obtain m hp where m: "Record_set_record e fresh v (msgs w i) (strs w) = Inr (m, hp)" "Record_has_record m" "Record_record m hp = Inr v"
      "\<exists>m' hp'. Record_clear_record e m hp = Inr (m', hp') \<and> \<not> Record_has_record m' \<and> Record_record m' hp' = Inr []"
      "\<exists>p m'. Record_release_record e m = (p, m') \<and> p \<noteq> NULL \<and> hp p = Some v \<and> \<not> Record_has_record m' \<and> Record_record m' hp = Inr []"
    using record_field.field_round_trip [OF assms, of v i] by (auto simp: Record_ops_def)
  moreover have "Record_seq_id m = Record_seq_id (msgs w i)" "Record_has_seq_id m = Record_has_seq_id (msgs w i)"
    using m(1) by (auto simp: stone_defs Let_def has_bit_ops split: if_splits)
  ultimately show "\<exists>m hp. Record_set_record e fresh v (msgs w i) (strs w) = Inr (m, hp) \<and> Record_has_record m \<and> Record_record m hp = Inr v \<and>
    Record_seq_id m = Record_seq_id (msgs w i) \<and> Record_has_seq_id m = Record_has_seq_id (msgs w i) \<and>
    (\<exists>m' hp'. Record_clear_record e m hp = Inr (m', hp') \<and> \<not> Record_has_record m' \<and> Record_record m' hp' = Inr []) \<and>
    (\<exists>p m'. Record_release_record e m = (p, m') \<and> hp p = Some v \<and> \<not> Record_has_record m' \<and> Record_record m' hp = Inr [])"
    by blast
qed (auto simp: Record_set_record_n_def Record_set_record_cstr_def Record_set_record_def Let_def)

end
