(* ===== verification/Stone_Raft_Entry.thy ===== *)
theory Stone_Raft_Entry
  imports Stone_Prelude
begin

text \<open>
  The inline part of the Raft library and the status codes it returns: \<^verbatim>\<open>consensus/raft/log_id.h\<close>, the order of log positions,
  \<^verbatim>\<open>consensus/raft/entry.h\<close>, an entry that collects messages up to a limit of bytes, and the codes of \<^verbatim>\<open>base/status.h\<close>.
  \<open>LogId\<close>, \<open>Entry\<close> and \<open>Message\<close> are generated from protocol descriptions that are not part of the repository: the two numbers
  of a \<open>LogId\<close> have any linearly ordered types, a message is what the code asks it for, its \<open>ByteSize\<close> and its serialized
  text. The reference count that \<open>EntryEx\<close> inherits from \<open>RefCountedUnsafe\<close> is modelled with that class.
\<close>

section \<open>Status codes\<close>

datatype Status_Code =
    kOk | kAgain | kPermissionDenied | kNotSupported | kNotFound | kInvalidArgument | kArgumentOutOfRange | kArgumentNull
  | kIOError | kFolderExist | kFileExist | kFileLocked | kOutOfResource | kQuotaExceeded | kInvalidAddress | kTimeout
  | kNotReady | kBusy | kCanceled | kConnClosed | kSecondary | kOtherError

primrec Status_Code_value :: "Status_Code \<Rightarrow> int" where
  "Status_Code_value kOk = 0"
| "Status_Code_value kAgain = 1"
| "Status_Code_value kPermissionDenied = 10"
| "Status_Code_value kNotSupported = 20"
| "Status_Code_value kNotFound = 30"
| "Status_Code_value kInvalidArgument = 40"
| "Status_Code_value kArgumentOutOfRange = 41"
| "Status_Code_value kArgumentNull = 42"
| "Status_Code_value kIOError = 150"
| "Status_Code_value kFolderExist = 151"
| "Status_Code_value kFileExist = 152"
| "Status_Code_value kFileLocked = 153"
| "Status_Code_value kOutOfResource = 260"
| "Status_Code_value kQuotaExceeded = 261"
| "Status_Code_value kInvalidAddress = 380"
| "Status_Code_value kTimeout = 400"
| "Status_Code_value kNotReady = 410"
| "Status_Code_value kBusy = 420"
| "Status_Code_value kCanceled = 430"
| "Status_Code_value kConnClosed = 440"
| "Status_Code_value kSecondary = 140"
| "Status_Code_value kOtherError = 1000"

record Status =
  mCode :: Status_Code
  mMsg :: "string option"

definition Status_ok :: "Status \<Rightarrow> bool" where
  "Status_ok this \<longleftrightarrow> mCode this = kOk"

definition Status_code :: "Status \<Rightarrow> Status_Code" where
  "Status_code this = mCode this"

section \<open>LogId\<close>

datatype ('t, 'q) LogId = LogId (log_term: 't) (log_seq_id: 'q)

definition LogId_less :: "('t::linorder, 'q::linorder) LogId \<Rightarrow> ('t, 'q) LogId \<Rightarrow> bool" where
  "LogId_less left right \<longleftrightarrow> log_term left < log_term right \<or>
     (log_term left = log_term right \<and> log_seq_id left < log_seq_id right)"

definition LogId_equal :: "('t, 'q) LogId \<Rightarrow> ('t, 'q) LogId \<Rightarrow> bool" where
  "LogId_equal left right \<longleftrightarrow> log_term left = log_term right \<and> log_seq_id left = log_seq_id right"

definition LogId_less_equal :: "('t::linorder, 'q::linorder) LogId \<Rightarrow> ('t, 'q) LogId \<Rightarrow> bool" where
  "LogId_less_equal left right \<longleftrightarrow> LogId_less left right \<or> LogId_equal left right"

lemma LogId_equal_eq [simp]: "LogId_equal left right \<longleftrightarrow> left = right"
  by (auto simp: LogId_equal_def intro: LogId.expand)

instantiation LogId :: (linorder, linorder) linorder
begin

definition less_LogId :: "('a, 'b) LogId \<Rightarrow> ('a, 'b) LogId \<Rightarrow> bool" where
  "less_LogId = LogId_less"

definition less_eq_LogId :: "('a, 'b) LogId \<Rightarrow> ('a, 'b) LogId \<Rightarrow> bool" where
  "less_eq_LogId = LogId_less_equal"

instance
proof
  fix x y z :: "('a, 'b) LogId"
  show "x < y \<longleftrightarrow> x \<le> y \<and> \<not> y \<le> x"
    by (auto simp: less_LogId_def less_eq_LogId_def LogId_less_equal_def LogId_less_def)
  show "x \<le> x" by (simp add: less_eq_LogId_def LogId_less_equal_def)
  show "x \<le> z" if "x \<le> y" "y \<le> z"
    using that by (auto simp: less_eq_LogId_def LogId_less_equal_def LogId_less_def)
  show "x = y" if "x \<le> y" "y \<le> x"
    using that by (auto simp: less_eq_LogId_def LogId_less_equal_def LogId_less_def)
  show "x \<le> y \<or> y \<le> x"
    by (cases x; cases y) (auto simp: less_eq_LogId_def LogId_less_equal_def LogId_less_def)
qed

end

section \<open>EntryEx\<close>

definition kByteSizeLimitPerEntry :: int where
  "kByteSizeLimitPerEntry = 16 * 1024 * 1024"

record Message =
  msg_ByteSize :: u32
  msg_serialized :: string

datatype log_type = DATA

record EntryEx =
  entry_data :: "string list"      \<comment> \<open>\<open>log_data().data\<close> of \<open>mEntry\<close>\<close>
  entry_type :: "log_type option"  \<comment> \<open>\<open>log_data().type\<close>, \<open>None\<close> before it is set\<close>
  mByteSize :: u32
  mCallbacks :: "addr list"

definition EntryEx_new :: EntryEx where
  "EntryEx_new = \<lparr>entry_data = [], entry_type = None, mByteSize = 0, mCallbacks = []\<rparr>"

definition EntryEx_ByteSize :: "EntryEx \<Rightarrow> u32" where
  "EntryEx_ByteSize this = mByteSize this"

definition EntryEx_Size :: "EntryEx \<Rightarrow> nat" where
  "EntryEx_Size this = length (mCallbacks this)"

definition EntryEx_GetCallback :: "nat \<Rightarrow> EntryEx \<Rightarrow> addr result" where
  "EntryEx_GetCallback index this = (if index < length (mCallbacks this) then Inr (mCallbacks this ! index) else Inl Out_of_bounds)"

definition EntryEx_AppendLog :: "Message \<Rightarrow> addr \<Rightarrow> EntryEx \<Rightarrow> Status_Code \<times> EntryEx" where
  \<comment> \<open>the sum of the \<open>int\<close> and the \<open>int64_t\<close> is an \<open>int64_t\<close>; storing it in \<open>mByteSize\<close> keeps its low 32 bits\<close>
  "EntryEx_AppendLog message done this =
     (let bs = sint (msg_ByteSize message)
      in if sint (mByteSize this) + bs > kByteSizeLimitPerEntry then (kOutOfResource, this)
         else (kOk, this\<lparr>entry_data := entry_data this @ [msg_serialized message], entry_type := Some DATA,
                         mCallbacks := mCallbacks this @ [done], mByteSize := word_of_int (sint (mByteSize this) + bs)\<rparr>))"

primrec EntryEx_AppendAll :: "(Message \<times> addr) list \<Rightarrow> EntryEx \<Rightarrow> Status_Code list \<times> EntryEx" where
  "EntryEx_AppendAll [] e = ([], e)"
| "EntryEx_AppendAll (m # ms) e =
     (let (st, e1) = EntryEx_AppendLog (fst m) (snd m) e; (sts, e2) = EntryEx_AppendAll ms e1 in (st # sts, e2))"

section \<open>What an entry accepts\<close>

fun fitting :: "int \<Rightarrow> (Message \<times> addr) list \<Rightarrow> bool list" where
  \<comment> \<open>which of the messages still fit below 16 MB, one after the other, with unbounded numbers\<close>
  "fitting used [] = []"
| "fitting used (m # ms) =
     (let total = used + sint (msg_ByteSize (fst m))
      in if total \<le> 16777216 then True # fitting total ms else False # fitting used ms)"

definition accepted :: "int \<Rightarrow> (Message \<times> addr) list \<Rightarrow> (Message \<times> addr) list" where
  "accepted used ms = map fst (filter snd (zip ms (fitting used ms)))"

lemma accepted_simps [simp]:
  "accepted used [] = []"
  "accepted used (m # ms) = (let total = used + sint (msg_ByteSize (fst m))
      in if total \<le> 16777216 then m # accepted total ms else accepted used ms)"
  by (simp_all add: accepted_def Let_def)

lemma sint_word_of_int_small:
  assumes "0 \<le> n" and "n \<le> 16777216"
  shows "sint (word_of_int n :: u32) = n"
  using assms by (simp add: sint_sbintrunc' signed_take_bit_int_eq_self)

lemma append_all:
  assumes "\<forall>m \<in> set ms. 0 \<le> sint (msg_ByteSize (fst m))" and "0 \<le> sint (mByteSize e)" and "sint (mByteSize e) \<le> 16777216"
  shows "case EntryEx_AppendAll ms e of (sts, e') \<Rightarrow>
    sts = map (\<lambda>b. if b then kOk else kOutOfResource) (fitting (sint (mByteSize e)) ms) \<and>
    sint (mByteSize e') = sint (mByteSize e) + (\<Sum>m \<leftarrow> accepted (sint (mByteSize e)) ms. sint (msg_ByteSize (fst m))) \<and>
    sint (mByteSize e') \<le> 16777216 \<and>
    entry_data e' = entry_data e @ map (msg_serialized \<circ> fst) (accepted (sint (mByteSize e)) ms) \<and>
    mCallbacks e' = mCallbacks e @ map snd (accepted (sint (mByteSize e)) ms)"
  using assms
proof (induction ms arbitrary: e)
  case (Cons m ms)
  let ?t = "sint (mByteSize e) + sint (msg_ByteSize (fst m))"
  show ?case
  proof (cases "?t \<le> 16777216")
    case True
    let ?e = "snd (EntryEx_AppendLog (fst m) (snd m) e)"
    have "sint (mByteSize ?e) = ?t"
      using True Cons.prems sint_word_of_int_small [of ?t] by (simp add: EntryEx_AppendLog_def kByteSizeLimitPerEntry_def Let_def)
    then show ?thesis
      using Cons.IH [of ?e] Cons.prems True
      by (auto simp: EntryEx_AppendLog_def kByteSizeLimitPerEntry_def Let_def split: prod.splits)
  next
    case False
    then show ?thesis
      using Cons.IH [of e] Cons.prems
      by (auto simp: EntryEx_AppendLog_def kByteSizeLimitPerEntry_def Let_def split: prod.splits)
  qed
qed simp

text \<open>
  C32. An entry never holds more than 16 MB: whatever messages are appended to a new entry, exactly those are accepted that keep the sum of
  the accepted sizes within the limit, the others are refused with \<open>kOutOfResource\<close> and leave the entry as it is, the size
  is the sum of the accepted sizes without overflow, and data and callbacks are those of the accepted messages in order.
\<close>

theorem entry_respects_byte_limit:
  assumes "\<forall>m \<in> set ms. 0 \<le> sint (msg_ByteSize (fst m))" and "EntryEx_AppendAll ms EntryEx_new = (sts, e)"
  shows "sts = map (\<lambda>b. if b then kOk else kOutOfResource) (fitting 0 ms) \<and>
    sint (EntryEx_ByteSize e) = (\<Sum>m \<leftarrow> accepted 0 ms. sint (msg_ByteSize (fst m))) \<and> sint (EntryEx_ByteSize e) \<le> 16 * 1024 * 1024 \<and>
    entry_data e = map (msg_serialized \<circ> fst) (accepted 0 ms) \<and> EntryEx_Size e = length (accepted 0 ms) \<and>
    (\<forall>i < EntryEx_Size e. EntryEx_GetCallback i e = Inr (snd (accepted 0 ms ! i)))"
  using append_all [OF assms(1), of EntryEx_new] assms(2)
  by (simp add: EntryEx_new_def EntryEx_ByteSize_def EntryEx_Size_def EntryEx_GetCallback_def)

theorem entry_respects_byte_limit_witness:
  "let ms = [(\<lparr>msg_ByteSize = 0xFFFFFF, msg_serialized = ''a''\<rparr>, 1), (\<lparr>msg_ByteSize = 2, msg_serialized = ''b''\<rparr>, 2),
             (\<lparr>msg_ByteSize = 1, msg_serialized = ''c''\<rparr>, 3)];
       (sts, e) = EntryEx_AppendAll ms EntryEx_new
   in sts = [kOk, kOutOfResource, kOk] \<and> entry_data e = [''a'', ''c'']"
proof -
  let ?ms = "[(\<lparr>msg_ByteSize = 0xFFFFFF, msg_serialized = ''a''\<rparr>, 1), (\<lparr>msg_ByteSize = 2, msg_serialized = ''b''\<rparr>, 2),
             (\<lparr>msg_ByteSize = 1, msg_serialized = ''c''\<rparr>, 3)]"
  obtain sts e where r: "EntryEx_AppendAll ?ms EntryEx_new = (sts, e)" by (cases "EntryEx_AppendAll ?ms EntryEx_new")
  have "\<forall>m \<in> set ?ms. 0 \<le> sint (msg_ByteSize (fst m))" by simp
  from entry_respects_byte_limit [OF this r] show ?thesis using r by simp
qed

end
