(* ===== verification/Stone_Utilities.thy ===== *)
theory Stone_Utilities
  imports Stone_Raft_Entry
begin

text \<open>
  The small inline parts of the library around the core: \<^verbatim>\<open>io/file/util.h\<close> (the status of an \<open>errno\<close>), the non-abstract members
  of \<^verbatim>\<open>io/file/file_system.h\<close>, \<^verbatim>\<open>utility/stl_util.h\<close>, \<^verbatim>\<open>threading/this_thread.h\<close>, \<^verbatim>\<open>string/string_util.h\<close>, \<^verbatim>\<open>encoding/checksum/crc32.h\<close>, the accessors
  of \<open>RecordReader\<close> (\<^verbatim>\<open>io/recordio/recordio.h\<close>) and \<^verbatim>\<open>threading/runner/thread_pool.h\<close>. What they call in the system or in
  the binary library is a parameter.
\<close>

section \<open>The status of an errno\<close>

datatype errno =
    EACCES | ENOENT | ENOTDIR | EISDIR | ENOTEMPTY | EEXIST | ENAMETOOLONG | EINVAL | EMFILE | ENFILE | ENOMEM | ENOSPC | EBADF
  | EAGAIN | other_errno int

fun ConvertErrnoToStatus :: "(Status_Code \<Rightarrow> string \<Rightarrow> 's) \<Rightarrow> (errno \<Rightarrow> string) \<Rightarrow> errno \<Rightarrow> 's" where
  \<comment> \<open>\<open>mk\<close> is the constructor of \<open>Status\<close>\<close>
  "ConvertErrnoToStatus mk strerror errnum =
     (let code = (case errnum of
        EACCES \<Rightarrow> kPermissionDenied
      | ENOENT \<Rightarrow> kNotFound | ENOTDIR \<Rightarrow> kNotFound
      | EISDIR \<Rightarrow> kFolderExist | ENOTEMPTY \<Rightarrow> kFolderExist | EEXIST \<Rightarrow> kFolderExist
      | ENAMETOOLONG \<Rightarrow> kInvalidArgument | EINVAL \<Rightarrow> kInvalidArgument
      | EMFILE \<Rightarrow> kOutOfResource | ENFILE \<Rightarrow> kOutOfResource | ENOMEM \<Rightarrow> kOutOfResource | ENOSPC \<Rightarrow> kOutOfResource
      | EBADF \<Rightarrow> kNotReady
      | EAGAIN \<Rightarrow> kFileLocked
      | other_errno _ \<Rightarrow> kOtherError)
      in mk code (strerror errnum))"

section \<open>FileSystem\<close>

definition FileSystem_GetPathSeparator :: char where
  "FileSystem_GetPathSeparator = CHR ''/''"

definition FileSystem_ConcatFilePath :: "char \<Rightarrow> string \<Rightarrow> string \<Rightarrow> string result" where
  \<comment> \<open>\<open>GetPathSeparator\<close> is virtual: its result is the first argument\<close>
  "FileSystem_ConcatFilePath sep folder filename =
     bind_result (assert_that (folder \<noteq> []) ()) (\<lambda>_.
       let path = (if last folder \<noteq> sep then folder @ [sep] else folder) in Inr (path @ filename))"

definition FileSystem_GetIterator :: addr where
  "FileSystem_GetIterator = NULL"

section \<open>Deleting the elements of a container\<close>

definition delete_object :: "addr \<Rightarrow> addr set \<Rightarrow> addr set result" where
  \<comment> \<open>a delete expression; the state is the set of living objects\<close>
  "delete_object p live = (if p = NULL then Inr live else if p \<in> live then Inr (live - {p}) else Inl Use_after_free)"

primrec STLDeleteContainerPointers :: "addr list \<Rightarrow> addr set \<Rightarrow> addr set result" where
  "STLDeleteContainerPointers [] live = Inr live"
| "STLDeleteContainerPointers (p # ps) live = bind_result (delete_object p live) (STLDeleteContainerPointers ps)"

definition STLDeleteElements :: "addr list option \<Rightarrow> addr set \<Rightarrow> (addr list option \<times> addr set) result" where
  \<comment> \<open>\<open>None\<close> is the null pointer\<close>
  "STLDeleteElements container live =
     (case container of None \<Rightarrow> Inr (None, live)
      | Some xs \<Rightarrow> bind_result (STLDeleteContainerPointers xs live) (\<lambda>live1. Inr (Some [], live1)))"

primrec STLDeleteContainerSecondPointers :: "('k \<times> addr) list \<Rightarrow> addr set \<Rightarrow> addr set result" where
  "STLDeleteContainerSecondPointers [] live = Inr live"
| "STLDeleteContainerSecondPointers (kp # kps) live =
     bind_result (delete_object (snd kp) live) (STLDeleteContainerSecondPointers kps)"

section \<open>ThisThread\<close>

definition ThisThread_SleepInMs :: "u32 \<Rightarrow> u32" where
  \<comment> \<open>the argument of \<open>usleep\<close>; the product is computed in \<open>int\<close>\<close>
  "ThisThread_SleepInMs ms = ms * 1000"

definition ThisThread_SleepInUs :: "u32 \<Rightarrow> u32" where
  "ThisThread_SleepInUs us = us"

definition ThisThread_GetId :: "u32 \<Rightarrow> u32 \<Rightarrow> u32 \<times> u32" where
  \<comment> \<open>the thread's id according to the system, and the thread-local \<open>tid\<close>; the result and \<open>tid\<close> after the call\<close>
  "ThisThread_GetId gettid tid = (let tid1 = (if tid = 0 then gettid else tid) in (tid1, tid1))"

section \<open>Strings\<close>

definition ReplaceString_value :: "(string \<Rightarrow> string \<Rightarrow> string \<Rightarrow> string \<Rightarrow> string) \<Rightarrow> string \<Rightarrow> string \<Rightarrow> string \<Rightarrow> string" where
  \<comment> \<open>the last argument of \<open>ReplaceString\<close> is \<open>*output\<close> before the call, its result \<open>*output\<close> after it\<close>
  "ReplaceString_value ReplaceString input old_val new_val = (let output = [] in ReplaceString input old_val new_val output)"

section \<open>Checksums\<close>

type_synonym Crc32cImpl = "u32 \<Rightarrow> u8 list \<Rightarrow> u64 \<Rightarrow> u32"

definition DoCrc32c ::
  "Crc32cImpl \<Rightarrow> u32 \<Rightarrow> u8 list \<Rightarrow> u64 \<Rightarrow> Crc32cImpl option \<Rightarrow> u32 \<times> Crc32cImpl option" where
  \<comment> \<open>what \<open>GetCrc32cImpl\<close> returns now, and the static \<open>func\<close>, initialised by the first call\<close>
  "DoCrc32c impl init data len func =
     (let f = (case func of None \<Rightarrow> impl | Some g \<Rightarrow> g) in (f init data len, Some f))"

section \<open>Record files\<close>

record RecordReader =
  mSkippedBytes :: u64
  mTotalSkippedBytes :: u64

definition RecordReader_IsCorruptDetected :: "RecordReader \<Rightarrow> bool" where
  "RecordReader_IsCorruptDetected this \<longleftrightarrow> mSkippedBytes this > 0"

definition RecordReader_GetSkippedBytes :: "RecordReader \<Rightarrow> u32" where
  "RecordReader_GetSkippedBytes this = ucast (mSkippedBytes this)"

definition RecordReader_GetTotalSkippedBytes :: "RecordReader \<Rightarrow> u32" where
  "RecordReader_GetTotalSkippedBytes this = ucast (mTotalSkippedBytes this)"

section \<open>ThreadPool\<close>

record 'w pool_api =
  pool_delete :: "addr \<Rightarrow> 'w \<Rightarrow> 'w"
  pool_Startup :: "addr \<Rightarrow> 'w \<Rightarrow> bool \<times> 'w"
  pool_Shutdown :: "addr \<Rightarrow> 'w \<Rightarrow> bool \<times> 'w"
  pool_AddTask :: "addr \<Rightarrow> addr \<Rightarrow> 'w \<Rightarrow> int \<times> 'w"
  pool_WaitForIdle :: "addr \<Rightarrow> 'w \<Rightarrow> 'w"
  pool_GetQueueLength :: "addr \<Rightarrow> 'w \<Rightarrow> int"
  pool_GetThreadNum :: "addr \<Rightarrow> 'w \<Rightarrow> int"
  pool_GetBusyThreadNum :: "addr \<Rightarrow> 'w \<Rightarrow> int"

record ThreadPool =
  mImpl :: addr

definition ThreadPool_dtor :: "'w pool_api \<Rightarrow> ThreadPool \<Rightarrow> 'w \<Rightarrow> 'w" where
  "ThreadPool_dtor api this w = (if mImpl this = NULL then w else pool_delete api (mImpl this) w)"

definition ThreadPool_Startup :: "'w pool_api \<Rightarrow> ThreadPool \<Rightarrow> 'w \<Rightarrow> bool \<times> 'w" where
  "ThreadPool_Startup api this w = pool_Startup api (mImpl this) w"

definition ThreadPool_Shutdown :: "'w pool_api \<Rightarrow> ThreadPool \<Rightarrow> 'w \<Rightarrow> bool \<times> 'w" where
  "ThreadPool_Shutdown api this w = pool_Shutdown api (mImpl this) w"

definition ThreadPool_AddTask :: "'w pool_api \<Rightarrow> addr \<Rightarrow> ThreadPool \<Rightarrow> 'w \<Rightarrow> int \<times> 'w" where
  "ThreadPool_AddTask api closure this w = pool_AddTask api (mImpl this) closure w"

definition ThreadPool_WaitForIdle :: "'w pool_api \<Rightarrow> ThreadPool \<Rightarrow> 'w \<Rightarrow> 'w" where
  "ThreadPool_WaitForIdle api this w = pool_WaitForIdle api (mImpl this) w"

definition ThreadPool_GetQueueLength :: "'w pool_api \<Rightarrow> ThreadPool \<Rightarrow> 'w \<Rightarrow> int" where
  "ThreadPool_GetQueueLength api this w = pool_GetQueueLength api (mImpl this) w"

definition ThreadPool_GetThreadNum :: "'w pool_api \<Rightarrow> ThreadPool \<Rightarrow> 'w \<Rightarrow> int" where
  "ThreadPool_GetThreadNum api this w = pool_GetThreadNum api (mImpl this) w"

definition ThreadPool_GetBusyThreadNum :: "'w pool_api \<Rightarrow> ThreadPool \<Rightarrow> 'w \<Rightarrow> int" where
  "ThreadPool_GetBusyThreadNum api this w = pool_GetBusyThreadNum api (mImpl this) w"

section \<open>Properties\<close>

lemma delete_pointers:
  "STLDeleteContainerPointers ps live =
   (if distinct (filter (\<lambda>p. p \<noteq> NULL) ps) \<and> set ps - {NULL} \<subseteq> live then Inr (live - (set ps - {NULL})) else Inl Use_after_free)"
proof (induction ps arbitrary: live)
  case (Cons p ps)
  show ?case
  proof (cases "p = NULL \<or> p \<notin> live")
    case True
    then show ?thesis using Cons by (auto simp: delete_object_def)
  next
    case False
    then have "STLDeleteContainerPointers (p # ps) live = STLDeleteContainerPointers ps (live - {p})"
      by (simp add: delete_object_def)
    then show ?thesis using Cons [of "live - {p}"] False by auto
  qed
qed simp

lemma delete_second_pointers: "STLDeleteContainerSecondPointers kps live = STLDeleteContainerPointers (map snd kps) live"
  by (induction kps arbitrary: live) (simp_all add: bind_result_def split: sum.splits)

text \<open>
  \<open>STLDeleteElements\<close> and \<open>STLDeleteContainerSecondPointers\<close> delete every object that the container points to, exactly once, and skip
  null pointers; they succeed exactly when all the objects are alive and no pointer occurs twice, otherwise an object is
  deleted twice. \<open>STLDeleteElements\<close> leaves the container empty and accepts a null container.
\<close>

theorem stl_delete_elements:
  "STLDeleteElements (Some ps) live =
     (if distinct (filter (\<lambda>p. p \<noteq> NULL) ps) \<and> set ps - {NULL} \<subseteq> live then Inr (Some [], live - (set ps - {NULL}))
      else Inl Use_after_free) \<and>
   STLDeleteElements None live = Inr (None, live) \<and>
   STLDeleteContainerSecondPointers kps live =
     (if distinct (filter (\<lambda>p. p \<noteq> NULL) (map snd kps)) \<and> snd ` set kps - {NULL} \<subseteq> live
      then Inr (live - (snd ` set kps - {NULL})) else Inl Use_after_free)"
  unfolding STLDeleteElements_def delete_second_pointers delete_pointers by simp

text \<open>
  A path that \<open>ConcatFilePath\<close> makes can be taken apart again: for a folder that is not empty and a file name without a
  separator, what follows the last separator of the path is the file name, what precedes it is the folder without one trailing separator.
  An empty folder fails the assertion.
\<close>

theorem concat_file_path_roundtrip:
  assumes "folder \<noteq> []" and "sep \<notin> set filename"
  shows "(\<exists>path. FileSystem_ConcatFilePath sep folder filename = Inr path \<and>
      rev (takeWhile (\<lambda>ch. ch \<noteq> sep) (rev path)) = filename \<and>
      rev (dropWhile (\<lambda>ch. ch \<noteq> sep) (rev path)) = (if last folder = sep then folder else folder @ [sep])) \<and>
    FileSystem_ConcatFilePath sep [] filename = Inl Assertion_failed"
proof -
  define front where "front = (if last folder = sep then folder else folder @ [sep])"
  have "front \<noteq> []" "last front = sep" using assms(1) by (simp_all add: front_def)
  then obtain xs where xs: "front = xs @ [sep]" by (metis append_butlast_last_id)
  have "FileSystem_ConcatFilePath sep folder filename = Inr (front @ filename)"
    using assms(1) by (simp add: FileSystem_ConcatFilePath_def front_def)
  moreover have "takeWhile (\<lambda>ch. ch \<noteq> sep) (rev filename @ sep # rev xs) = rev filename"
    using assms(2) by (subst takeWhile_append2) auto
  moreover have "dropWhile (\<lambda>ch. ch \<noteq> sep) (rev filename @ sep # rev xs) = sep # rev xs"
    using assms(2) by (subst dropWhile_append2) auto
  moreover have "FileSystem_ConcatFilePath sep [] filename = Inl Assertion_failed" by (simp add: FileSystem_ConcatFilePath_def)
  ultimately show ?thesis using xs by (simp add: front_def)
qed

theorem concat_file_path_roundtrip_witness: "FileSystem_ConcatFilePath CHR ''/'' ''a/b'' ''c.txt'' = Inr ''a/b/c.txt''"
  using concat_file_path_roundtrip [of "''a/b''" "CHR ''/''" "''c.txt''"] by (simp add: FileSystem_ConcatFilePath_def)

text \<open>
  An \<open>errno\<close> always becomes a failure: whatever the constructor of \<open>Status\<close> does besides storing the code, the status of an
  \<open>errno\<close> is never \<open>kOk\<close>, and only an \<open>errno\<close> without a case of its own becomes \<open>kOtherError\<close>.
\<close>

theorem errno_is_failure:
  assumes "\<And>code msg. mCode (mk code msg) = code"
  shows "\<not> Status_ok (ConvertErrnoToStatus mk strerror e) \<and>
    (Status_code (ConvertErrnoToStatus mk strerror e) = kOtherError \<longleftrightarrow> (\<exists>n. e = other_errno n))"
  using assms by (cases e) (simp_all add: Status_ok_def Status_code_def)

theorem errno_is_failure_witness:
  "\<not> Status_ok (ConvertErrnoToStatus (\<lambda>code msg. \<lparr>mCode = code, mMsg = Some msg\<rparr>) (\<lambda>_. ''error'') ENOENT)"
  using errno_is_failure [of "\<lambda>code msg. \<lparr>mCode = code, mMsg = Some msg\<rparr>" "\<lambda>_. ''error''" ENOENT] by simp

text \<open>
  The counters of a \<open>RecordReader\<close> are 64 bits wide and reported in 32: the reported number is the counter modulo \<open>2^32\<close>, so a
  reader that skipped exactly \<open>2^32\<close> bytes has detected corruption and reports that it skipped none.
\<close>

theorem record_reader_counters_truncate:
  "unat (RecordReader_GetSkippedBytes r) = unat (mSkippedBytes r) mod 2 ^ 32 \<and>
   unat (RecordReader_GetTotalSkippedBytes r) = unat (mTotalSkippedBytes r) mod 2 ^ 32 \<and>
   (RecordReader_IsCorruptDetected \<lparr>mSkippedBytes = 2 ^ 32, mTotalSkippedBytes = 2 ^ 32\<rparr> \<and>
    RecordReader_GetSkippedBytes \<lparr>mSkippedBytes = 2 ^ 32, mTotalSkippedBytes = 2 ^ 32\<rparr> = 0)"
  by (simp add: RecordReader_GetSkippedBytes_def RecordReader_GetTotalSkippedBytes_def RecordReader_IsCorruptDetected_def
      unsigned_ucast_eq take_bit_eq_mod word_less_nat_alt)

end
