(* ===== verification/Recommender_Data_Loader.thy ===== *)
theory Recommender_Data_Loader
  imports Stone_Prelude
begin

text \<open>
  \<^verbatim>\<open>src/data_loader.cpp\<close>: the loader of the training data. A \<open>FILE*\<close> open for reading is the list of the bytes that
  are not read yet, and an \<open>fpos_t\<close> is such a list too; \<open>char\<close> is a byte, so that the \<open>EOF\<close> that \<open>fgetc\<close> returns is
  the byte \<open>0xFF\<close> once it is stored in a \<open>char\<close>. The conversion of a text to a \<open>float\<close> is the argument \<open>atof\<close>,
  \<open>junk\<close> the contents of a new array, and what the code prints is not modelled. A loop that does not end is
  \<open>None\<close>; a write outside of an array, a division by zero, a failed \<open>assert\<close> and a missing \<open>return\<close> are error values.
\<close>

section \<open>Reading\<close>

type_synonym FILE = "u8 list"

definition EOF_char :: u8 where
  \<comment> \<open>\<open>(char) EOF\<close>\<close>
  "EOF_char = 0xFF"

fun fgetc :: "FILE \<Rightarrow> u8 \<times> FILE" where
  "fgetc [] = (EOF_char, [])"
| "fgetc (b # f) = (b, f)"

definition Peek :: "FILE \<Rightarrow> u8 \<times> FILE" where
  "Peek f = (let pos = f; (c, f1) = fgetc f; f2 = pos in (c, f2))"

partial_function (option) ReadFloat_loop :: "bool \<Rightarrow> u8 list \<Rightarrow> FILE \<Rightarrow> (u8 list \<times> FILE) option" where
  "ReadFloat_loop returnFloat curStr f =
     (let (cur, f') = fgetc f;
          curStr' = (if returnFloat then curStr @ [cur] else curStr)
      in if cur \<noteq> 0x2C then ReadFloat_loop returnFloat curStr' f' else Some (curStr', f'))"

definition c_str :: "u8 list \<Rightarrow> u8 list" where
  "c_str s = takeWhile (\<lambda>b. b \<noteq> 0) s"

definition ReadFloat :: "(u8 list \<Rightarrow> 'f) \<Rightarrow> FILE \<Rightarrow> bool \<Rightarrow> ('f::zero \<times> FILE) option" where
  \<comment> \<open>the exception that is thrown for an empty string is caught on the spot and only prints a message\<close>
  "ReadFloat atof f returnFloat =
     (case ReadFloat_loop returnFloat [] f of
       None \<Rightarrow> None
     | Some (curStr, f') \<Rightarrow> Some (if returnFloat then atof (c_str curStr) else 0, f'))"

function skip_blanks :: "FILE \<Rightarrow> FILE" where
  "skip_blanks f =
     (if fst (Peek f) = 0x20 \<or> fst (Peek f) = 0x0A \<or> fst (Peek f) = 0x09 then skip_blanks (snd (fgetc f)) else f)"
  by pat_completeness auto
termination
proof (relation "measure length")
  show "(snd (fgetc f), f) \<in> measure length"
    if "fst (Peek f) = 0x20 \<or> fst (Peek f) = 0x0A \<or> fst (Peek f) = 0x09" for f
    using that by (cases f) (auto simp: Peek_def EOF_char_def)
qed simp

section \<open>The loader\<close>

record DataLoader =
  mNumFloats :: u32
  mNumFeatures :: u32
  mFeatureLen :: u32

partial_function (option) count_line :: "DataLoader \<Rightarrow> FILE \<Rightarrow> (DataLoader \<times> FILE) option" where
  \<comment> \<open>the do-while loop of \<open>RunThroughFile\<close>\<close>
  "count_line l f =
     (case ReadFloat_loop False [] f of
       None \<Rightarrow> None
     | Some (_, f1) \<Rightarrow>
         (let l1 = l\<lparr>mNumFloats := mNumFloats l + 1\<rparr>
          in if fst (Peek f1) \<noteq> 0x0A then count_line l1 f1 else Some (l1, f1)))"

partial_function (option) RunThroughFile_loop :: "DataLoader \<Rightarrow> FILE \<Rightarrow> (DataLoader \<times> FILE) option" where
  "RunThroughFile_loop l f =
     (if fst (Peek f) \<noteq> EOF_char then
        (case count_line l f of
          None \<Rightarrow> None
        | Some (l1, f1) \<Rightarrow> RunThroughFile_loop (l1\<lparr>mNumFeatures := mNumFeatures l1 + 1\<rparr>) (skip_blanks f1))
      else Some (l, f))"

definition RunThroughFile :: "DataLoader \<Rightarrow> FILE \<Rightarrow> (DataLoader \<times> FILE) option" where
  "RunThroughFile l f = RunThroughFile_loop (l\<lparr>mNumFloats := 0, mNumFeatures := 0\<rparr>) f"

definition store :: "'f list \<Rightarrow> u32 \<Rightarrow> 'f \<Rightarrow> 'f list result" where
  \<comment> \<open>\<open>p[i] = x\<close>\<close>
  "store p i x = (if unat i < length p then Inr (p[unat i := x]) else Inl Out_of_bounds)"

partial_function (option) AllocateData_line ::
  "(u8 list \<Rightarrow> 'f::zero) \<Rightarrow> 'f list \<Rightarrow> u32 \<Rightarrow> FILE \<Rightarrow> ('f list \<times> u32 \<times> FILE) result option" where
  \<comment> \<open>the do-while loop of \<open>AllocateData\<close>\<close>
  "AllocateData_line atof pData dataFloatCount f =
     (case ReadFloat atof f True of
       None \<Rightarrow> None
     | Some (x, f1) \<Rightarrow>
         (case store pData dataFloatCount x of
           Inl e \<Rightarrow> Some (Inl e)
         | Inr pData' \<Rightarrow>
             (if fst (Peek f1) \<noteq> 0x0A then AllocateData_line atof pData' (dataFloatCount + 1) f1
              else Some (Inr (pData', dataFloatCount + 1, f1)))))"

partial_function (option) AllocateData_loop ::
  "(u8 list \<Rightarrow> 'f::zero) \<Rightarrow> 'f list \<Rightarrow> 'f list \<Rightarrow> u32 \<Rightarrow> u32 \<Rightarrow> FILE \<Rightarrow> ('f list \<times> 'f list \<times> u32 \<times> u32) result option" where
  "AllocateData_loop atof pData pLabel dataFloatCount featureCount f =
     (if fst (Peek f) \<noteq> EOF_char then
        (case ReadFloat atof f True of
          None \<Rightarrow> None
        | Some (num, f1) \<Rightarrow>
            (case store pLabel featureCount num of
              Inl e \<Rightarrow> Some (Inl e)
            | Inr pLabel' \<Rightarrow>
                (case AllocateData_line atof pData dataFloatCount f1 of
                  None \<Rightarrow> None
                | Some (Inl e) \<Rightarrow> Some (Inl e)
                | Some (Inr (pData', dataFloatCount', f2)) \<Rightarrow>
                    AllocateData_loop atof pData' pLabel' dataFloatCount' (featureCount + 1) (skip_blanks f2))))
      else Some (Inr (pData, pLabel, dataFloatCount, featureCount)))"

definition AllocateData ::
  "(u8 list \<Rightarrow> 'f::zero) \<Rightarrow> DataLoader \<Rightarrow> FILE \<Rightarrow> 'f list \<Rightarrow> 'f list \<Rightarrow> ('f list \<times> 'f list) result option" where
  "AllocateData atof l f pData pLabel =
     (case AllocateData_loop atof pData pLabel 0 0 f of
       None \<Rightarrow> None
     | Some r \<Rightarrow> Some (bind_result r (\<lambda>(pData', pLabel', dataFloatCount, featureCount).
         bind_result (assert_that (dataFloatCount + mNumFeatures l = mNumFloats l) ()) (\<lambda>_.
           assert_that (featureCount = mNumFeatures l) (pData', pLabel')))))"

definition new_floats :: "(nat \<Rightarrow> 'f) \<Rightarrow> u32 \<Rightarrow> 'f list" where
  "new_floats junk n = map junk [0..<unat n]"

definition LoadData_body ::
  "(u8 list \<Rightarrow> 'f::zero) \<Rightarrow> (nat \<Rightarrow> 'f) \<Rightarrow> (string \<Rightarrow> FILE option) \<Rightarrow> string \<Rightarrow> DataLoader \<Rightarrow>
   (DataLoader \<times> 'f list \<times> 'f list) result option" where
  \<comment> \<open>the statements of \<open>LoadData\<close>: the loader and the arrays \<open>pData\<close> and \<open>pLabel\<close> refer to at the closing brace; \<open>fgetpos\<close> reads the
    null pointer of a failed \<open>fopen\<close>\<close>
  "LoadData_body atof junk fopen fileName l =
     (let l0 = l\<lparr>mFeatureLen := 55\<rparr> in
      case fopen fileName of
        None \<Rightarrow> Some (Inl Null_dereference)
      | Some f \<Rightarrow>
          (let startPos = f in
           case RunThroughFile l0 f of
             None \<Rightarrow> None
           | Some (l1, _) \<Rightarrow>
               if mNumFeatures l1 = 0 then Some (Inl Division_by_zero)
               else
                 (let pNewData = new_floats junk ((mNumFloats l1 div mNumFeatures l1 - 1) * mNumFeatures l1);
                      pNewLabel = new_floats junk (mNumFeatures l1)
                  in case AllocateData atof l1 startPos pNewData pNewLabel of
                       None \<Rightarrow> None
                     | Some r \<Rightarrow> Some (bind_result r (\<lambda>(pData, pLabel). Inr (l1, pData, pLabel))))))"

definition LoadData ::
  "(u8 list \<Rightarrow> 'f::zero) \<Rightarrow> (nat \<Rightarrow> 'f) \<Rightarrow> (string \<Rightarrow> FILE option) \<Rightarrow> string \<Rightarrow> DataLoader \<Rightarrow>
   (DataLoader \<times> 'f list \<times> 'f list) result option" where
  \<comment> \<open>the function must return a \<open>float*\<close>, and no statement of it returns one: to reach the closing brace is an error\<close>
  "LoadData atof junk fopen fileName l =
     (case LoadData_body atof junk fopen fileName l of
       None \<Rightarrow> None
     | Some r \<Rightarrow> Some (bind_result r (\<lambda>_. Inl Missing_return)))"

definition ReturnStats :: "DataLoader \<Rightarrow> u32 \<times> u32 \<times> u32" where
  \<comment> \<open>\<open>featureLen\<close>, \<open>numFeatures\<close> and \<open>numFloats\<close>\<close>
  "ReturnStats l = (mFeatureLen l, mNumFeatures l, mNumFloats l)"

section \<open>Files of rows\<close>

text \<open>
  A row is a list of fields and the blanks that follow its line end; every field ends with a comma, the last one too.
\<close>

type_synonym row = "u8 list list \<times> u8 list"

definition enc_fields :: "u8 list list \<Rightarrow> FILE" where
  "enc_fields ws = concat (map (\<lambda>w. w @ [0x2C]) ws)"

definition enc_file :: "row list \<Rightarrow> FILE" where
  "enc_file rs = concat (map (\<lambda>(ws, bl). enc_fields ws @ 0x0A # bl) rs)"

definition field_ok :: "u8 list \<Rightarrow> bool" where
  "field_ok w \<longleftrightarrow> 0x2C \<notin> set w \<and> (w \<noteq> [] \<longrightarrow> hd w \<noteq> 0x0A)"

definition blank :: "u8 \<Rightarrow> bool" where
  "blank b \<longleftrightarrow> b = 0x20 \<or> b = 0x0A \<or> b = 0x09"

fun row_ok :: "row \<Rightarrow> bool" where
  "row_ok (ws, bl) \<longleftrightarrow> 2 \<le> length ws \<and> (\<forall>w \<in> set ws. field_ok w) \<and> (\<forall>b \<in> set bl. blank b) \<and>
     (hd ws \<noteq> [] \<longrightarrow> hd (hd ws) \<noteq> EOF_char \<and> \<not> blank (hd (hd ws)))"

definition num_fields :: "row list \<Rightarrow> nat" where
  "num_fields rs = sum_list (map (\<lambda>(ws, bl). length ws) rs)"

lemma enc_simps [simp]:
  "enc_fields [] = []" "enc_fields (w # ws) = w @ 0x2C # enc_fields ws"
  "enc_file [] = []" "enc_file ((ws, bl) # rs) = enc_fields ws @ 0x0A # bl @ enc_file rs"
  by (simp_all add: enc_fields_def enc_file_def)

lemma num_fields_simps [simp]: "num_fields [] = 0" "num_fields ((ws, bl) # rs) = length ws + num_fields rs"
  by (simp_all add: num_fields_def)

lemma Peek_simps [simp]: "fst (Peek []) = EOF_char" "fst (Peek (b # f)) = b"
  by (simp_all add: Peek_def Let_def)

lemma char_consts [simp]: "EOF_char \<noteq> 0x0A" "EOF_char \<noteq> 0x2C" "\<not> blank EOF_char" "\<not> blank 0x2C" "blank 0x0A"
  by (simp_all add: EOF_char_def blank_def)

declare skip_blanks.simps [simp del]

lemma skip_blanks_eq: "skip_blanks f = (if blank (fst (Peek f)) then skip_blanks (snd (fgetc f)) else f)"
  by (subst skip_blanks.simps) (simp add: blank_def)

lemma skip_blanks_blanks:
  "\<forall>b \<in> set bl. blank b \<Longrightarrow> \<not> blank (fst (Peek rest)) \<Longrightarrow> skip_blanks (bl @ rest) = rest"
proof (induction bl)
  case Nil
  then show ?case by (simp add: skip_blanks_eq [of rest])
next
  case (Cons b bl)
  then show ?case by (simp add: skip_blanks_eq [of "b # bl @ rest"])
qed

lemma Peek_field: "fst (Peek (w @ 0x2C # f)) = (if w = [] then 0x2C else hd w)"
  by (cases w) simp_all

lemma Peek_enc_file:
  assumes "\<forall>r \<in> set rs. row_ok r"
  shows "fst (Peek (enc_file rs)) = EOF_char \<longleftrightarrow> rs = []" and "\<not> blank (fst (Peek (enc_file rs)))"
proof -
  have "fst (Peek (enc_file ((ws, bl) # rs'))) \<noteq> EOF_char \<and> \<not> blank (fst (Peek (enc_file ((ws, bl) # rs'))))"
    if "row_ok (ws, bl)" for ws bl rs'
    using that by (cases ws) (auto simp: Peek_field EOF_char_def)
  then show "fst (Peek (enc_file rs)) = EOF_char \<longleftrightarrow> rs = []" "\<not> blank (fst (Peek (enc_file rs)))"
    using assms by (cases rs; fastforce)+
qed

section \<open>Which texts a field and a line end\<close>

lemma ReadFloat_loop_field:
  "0x2C \<notin> set w \<Longrightarrow> ReadFloat_loop ret s (w @ 0x2C # f) = Some (if ret then s @ w @ [0x2C] else s, f)"
proof (induction w arbitrary: s)
  case Nil
  then show ?case by (subst ReadFloat_loop.simps) simp
next
  case (Cons b w)
  then show ?case by (subst ReadFloat_loop.simps) (auto simp: Let_def)
qed

lemma ReadFloat_loop_returns:
  assumes "ReadFloat_loop ret s f = Some r"
  shows "\<exists>w. f = w @ 0x2C # snd r"
proof (rule ReadFloat_loop.raw_induct [where P = "\<lambda>ret s f r. \<exists>w. f = w @ 0x2C # snd r", OF _ assms])
  fix loop ret s f r
  assume IH: "\<And>ret s f r. loop ret s f = Some r \<Longrightarrow> \<exists>w. f = w @ 0x2C # snd r"
    and body: "(let (cur, f') = fgetc f; curStr' = if ret then s @ [cur] else s
      in if cur \<noteq> 0x2C then loop ret curStr' f' else Some (curStr', f')) = Some r"
  show "\<exists>w. f = w @ 0x2C # snd r"
  proof (cases f)
    case Nil
    then have "loop ret (if ret then s @ [EOF_char] else s) [] = Some r" using body by (simp add: Let_def)
    from IH [OF this] show ?thesis by simp
  next
    case (Cons b f')
    then show ?thesis
      using body IH [of ret "if ret then s @ [b] else s" f' r] by (auto simp: Let_def split: if_splits)
  qed
qed

lemma count_line_returns:
  assumes "count_line l f = Some r"
  shows "\<exists>u v. f = u @ 0x2C # 0x0A # v"
proof (rule count_line.raw_induct [where P = "\<lambda>l f r. \<exists>u v. f = u @ 0x2C # 0x0A # v", OF _ assms])
  fix loop l f r
  assume IH: "\<And>l f r. loop l f = Some r \<Longrightarrow> \<exists>u v. f = u @ 0x2C # 0x0A # v"
    and body: "(case ReadFloat_loop False [] f of None \<Rightarrow> None
      | Some (_, f1) \<Rightarrow> let l1 = l\<lparr>mNumFloats := mNumFloats l + 1\<rparr>
          in if fst (Peek f1) \<noteq> 0x0A then loop l1 f1 else Some (l1, f1)) = Some r"
  then obtain s f1 where r: "ReadFloat_loop False [] f = Some (s, f1)"
    by (auto split: option.splits)
  obtain w where w: "f = w @ 0x2C # f1" using ReadFloat_loop_returns [OF r] by auto
  show "\<exists>u v. f = u @ 0x2C # 0x0A # v"
  proof (cases "fst (Peek f1) = 0x0A")
    case True
    then obtain v where "f1 = 0x0A # v" by (cases f1) auto
    then show ?thesis using w by auto
  next
    case False
    then have "loop (l\<lparr>mNumFloats := mNumFloats l + 1\<rparr>) f1 = Some r" using body r by (simp add: Let_def)
    from IH [OF this] obtain u v where "f1 = u @ 0x2C # 0x0A # v" by blast
    then show ?thesis using w by (intro exI [of _ "w @ 0x2C # u"] exI [of _ v]) simp
  qed
qed

lemma count_line_fields:
  "\<forall>w \<in> set ws. field_ok w \<Longrightarrow> ws \<noteq> [] \<Longrightarrow>
   count_line l (enc_fields ws @ 0x0A # f) = Some (l\<lparr>mNumFloats := mNumFloats l + of_nat (length ws)\<rparr>, 0x0A # f)"
proof (induction ws arbitrary: l)
  case (Cons w ws)
  have w: "0x2C \<notin> set w" using Cons.prems(1) by (simp add: field_ok_def)
  show ?case
  proof (cases ws)
    case Nil
    then show ?thesis using w by (subst count_line.simps) (simp add: ReadFloat_loop_field)
  next
    case ws: (Cons v vs)
    then have "fst (Peek (enc_fields ws @ 0x0A # f)) \<noteq> 0x0A"
      using Cons.prems(1) by (auto simp: Peek_field field_ok_def)
    then show ?thesis
      using w ws Cons.IH [of "l\<lparr>mNumFloats := mNumFloats l + 1\<rparr>"] Cons.prems(1)
      by (subst count_line.simps) (simp add: ReadFloat_loop_field Let_def add.assoc)
  qed
qed simp

lemma run_rows:
  "\<forall>r \<in> set rs. row_ok r \<Longrightarrow>
   RunThroughFile_loop l (enc_file rs) =
     Some (l\<lparr>mNumFloats := mNumFloats l + of_nat (num_fields rs), mNumFeatures := mNumFeatures l + of_nat (length rs)\<rparr>, [])"
proof (induction rs arbitrary: l)
  case Nil
  then show ?case by (subst RunThroughFile_loop.simps) simp
next
  case (Cons r rs)
  obtain ws bl where r: "r = (ws, bl)" by (cases r)
  have ok: "\<forall>w \<in> set ws. field_ok w" "ws \<noteq> []" "\<forall>b \<in> set (0x0A # bl). blank b" "\<forall>r \<in> set rs. row_ok r"
    using Cons.prems r by auto
  have "skip_blanks ((0x0A # bl) @ enc_file rs) = enc_file rs"
    by (rule skip_blanks_blanks [OF ok(3)]) (use Peek_enc_file(2) ok(4) in blast)
  then show ?case
    using Cons.IH [OF ok(4)] Peek_enc_file(1) [OF Cons.prems] r count_line_fields [OF ok(1,2)]
    by (subst RunThroughFile_loop.simps) (simp add: add.assoc)
qed

section \<open>Filling the arrays\<close>

definition put :: "'f list \<Rightarrow> nat \<Rightarrow> 'f list \<Rightarrow> 'f list" where
  "put p i xs = take i p @ xs @ drop (i + length xs) p"

lemma put_Nil [simp]: "put p i [] = p"
  by (simp add: put_def)

lemma put_update: "i < length p \<Longrightarrow> put (p[i := x]) (Suc i) xs = put p i (x # xs)"
  by (simp add: put_def take_Suc_conv_app_nth)

lemma put_put: "i + length xs \<le> length p \<Longrightarrow> put (put p i xs) (i + length xs) ys = put p i (xs @ ys)"
  by (simp add: put_def ac_simps)

lemma length_put [simp]: "i + length xs \<le> length p \<Longrightarrow> length (put p i xs) = length p"
  by (simp add: put_def)

lemma put_all: "length xs = length p \<Longrightarrow> put p 0 xs = xs"
  by (simp add: put_def)

lemma store_of_nat:
  assumes "i < 2 ^ 32"
  shows "store p (of_nat i) x = (if i < length p then Inr (p[i := x]) else Inl Out_of_bounds)"
  using assms by (simp add: store_def unat_of_nat)

definition field_value :: "(u8 list \<Rightarrow> 'f) \<Rightarrow> u8 list \<Rightarrow> 'f" where
  "field_value atof w = atof (c_str (w @ [0x2C]))"

lemma ReadFloat_field: "0x2C \<notin> set w \<Longrightarrow> ReadFloat atof (w @ 0x2C # f) True = Some (field_value atof w, f)"
  by (simp add: ReadFloat_def ReadFloat_loop_field field_value_def)

lemma AllocateData_line_fields:
  "\<forall>w \<in> set ws. field_ok w \<Longrightarrow> ws \<noteq> [] \<Longrightarrow> i + length ws < 2 ^ 32 \<Longrightarrow>
   AllocateData_line atof p (of_nat i) (enc_fields ws @ 0x0A # f) =
     Some (if i + length ws \<le> length p then Inr (put p i (map (field_value atof) ws), of_nat (i + length ws), 0x0A # f)
           else Inl Out_of_bounds)"
proof (induction ws arbitrary: i p)
  case (Cons w ws)
  have w: "0x2C \<notin> set w" and i: "i < 2 ^ 32" using Cons.prems by (simp_all add: field_ok_def)
  show ?case
  proof (cases ws)
    case Nil
    then show ?thesis using w i put_update [of i p _ "[]"]
      by (subst AllocateData_line.simps) (simp add: ReadFloat_field store_of_nat add.commute)
  next
    case ws: (Cons v vs)
    then have peek: "fst (Peek (enc_fields ws @ 0x0A # f)) \<noteq> 0x0A"
      using Cons.prems(1) by (auto simp: Peek_field field_ok_def)
    have "AllocateData_line atof q (of_nat i + 1) (enc_fields ws @ 0x0A # f) =
      Some (if Suc i + length ws \<le> length q then Inr (put q (Suc i) (map (field_value atof) ws), of_nat (Suc i + length ws), 0x0A # f)
            else Inl Out_of_bounds)" for q
      using Cons.IH [of "Suc i" q] Cons.prems ws by (simp add: add.commute)
    then show ?thesis
      using w i peek by (subst AllocateData_line.simps) (auto simp: ReadFloat_field store_of_nat put_update)
  qed
qed simp

definition row_labels :: "(u8 list \<Rightarrow> 'f) \<Rightarrow> row list \<Rightarrow> 'f list" where
  "row_labels atof rs = map (\<lambda>(ws, bl). field_value atof (hd ws)) rs"

definition row_data :: "(u8 list \<Rightarrow> 'f) \<Rightarrow> row list \<Rightarrow> 'f list" where
  "row_data atof rs = concat (map (\<lambda>(ws, bl). map (field_value atof) (tl ws)) rs)"

lemma row_simps [simp]:
  "row_labels atof [] = []" "row_labels atof ((ws, bl) # rs) = field_value atof (hd ws) # row_labels atof rs"
  "row_data atof [] = []" "row_data atof ((ws, bl) # rs) = map (field_value atof) (tl ws) @ row_data atof rs"
  by (simp_all add: row_labels_def row_data_def)

lemma row_lengths:
  "length (row_labels atof rs) = length rs"
  "\<forall>r \<in> set rs. row_ok r \<Longrightarrow> length (row_data atof rs) + length rs = num_fields rs"
proof -
  show "length (row_labels atof rs) = length rs" by (simp add: row_labels_def)
  show "length (row_data atof rs) + length rs = num_fields rs" if "\<forall>r \<in> set rs. row_ok r"
    using that by (induction rs) (auto simp: num_fields_def)
qed

lemma AllocateData_rows:
  "\<forall>r \<in> set rs. row_ok r \<Longrightarrow> i + num_fields rs < 2 ^ 32 \<Longrightarrow> j + length rs < 2 ^ 32 \<Longrightarrow> j + length rs \<le> length q \<Longrightarrow>
   i \<le> length p \<Longrightarrow>
   AllocateData_loop atof p q (of_nat i) (of_nat j) (enc_file rs) =
     Some (if i + length (row_data atof rs) \<le> length p
           then Inr (put p i (row_data atof rs), put q j (row_labels atof rs),
                     of_nat (i + length (row_data atof rs)), of_nat (j + length rs))
           else Inl Out_of_bounds)"
proof (induction rs arbitrary: i j p q)
  case Nil
  then show ?case by (subst AllocateData_loop.simps) simp
next
  case (Cons r rs)
  obtain w ws bl where r: "r = (w # ws, bl)" using Cons.prems(1) by (cases r; cases "fst r") auto
  have ok: "\<forall>w \<in> set ws. field_ok w" "ws \<noteq> []" "0x2C \<notin> set w" "\<forall>b \<in> set (0x0A # bl). blank b" "\<forall>r \<in> set rs. row_ok r"
    using Cons.prems(1) r by (auto simp: field_ok_def)
  have skip: "skip_blanks ((0x0A # bl) @ enc_file rs) = enc_file rs"
    by (rule skip_blanks_blanks [OF ok(4)]) (use Peek_enc_file(2) ok(5) in blast)
  have b: "i + length ws < 2 ^ 32" "j < 2 ^ 32" "j < length q" using Cons.prems(2-4) r by auto
  let ?q = "q[j := field_value atof w]"
  have line: "AllocateData_loop atof p q (of_nat i) (of_nat j) (enc_file (r # rs)) =
    (if i + length ws \<le> length p
     then AllocateData_loop atof (put p i (map (field_value atof) ws)) ?q (of_nat (i + length ws)) (of_nat (Suc j)) (enc_file rs)
     else Some (Inl Out_of_bounds))"
    using AllocateData_line_fields [OF ok(1,2) b(1), of atof p "bl @ enc_file rs"] b skip Peek_enc_file(1) [OF Cons.prems(1)] r ok(3)
    by (subst AllocateData_loop.simps) (simp add: ReadFloat_field store_of_nat add.commute)
  show ?case
  proof (cases "i + length ws \<le> length p")
    case True
    have "AllocateData_loop atof (put p i (map (field_value atof) ws)) ?q (of_nat (i + length ws)) (of_nat (Suc j)) (enc_file rs) =
      Some (if i + length ws + length (row_data atof rs) \<le> length p
           then Inr (put p i (row_data atof (r # rs)), put q j (row_labels atof (r # rs)),
                     of_nat (i + length ws + length (row_data atof rs)), of_nat (Suc j + length rs))
           else Inl Out_of_bounds)"
      using Cons.IH [OF ok(5), of "i + length ws" "Suc j" ?q "put p i (map (field_value atof) ws)"] Cons.prems(2-5) True r b(3)
        put_put [of i "map (field_value atof) ws" p "row_data atof rs"]
      by (simp add: put_update)
    then show ?thesis using line True r by (simp add: add.assoc)
  next
    case False
    then show ?thesis using line r by simp
  qed
qed

section \<open>Properties of the loader\<close>

lemma data_size:
  assumes "n \<noteq> 0" and "n \<le> F" and "F < 2 ^ 32"
  shows "unat ((of_nat F div of_nat n - 1) * of_nat n :: u32) = (F div n - 1) * n"
proof -
  have n: "n < 2 ^ 32" using assms by linarith
  have d: "1 \<le> F div n" "F div n \<le> F" using assms by (simp_all add: div_greater_zero_iff Suc_le_eq)
  then have "(of_nat F div of_nat n :: u32) = of_nat (F div n)"
    using assms(3) n by (simp add: word_arith_nat_div unat_of_nat)
  then have "(of_nat F div of_nat n - 1) * of_nat n = (of_nat ((F div n - 1) * n) :: u32)"
    using d(1) by (simp add: of_nat_diff)
  moreover have "(F div n - 1) * n < 2 ^ 32"
    using div_times_less_eq_dividend [of F n] mult_le_mono1 [of "F div n - 1" "F div n" n] assms(3) by linarith
  ultimately show ?thesis by (simp add: unat_of_nat del: of_nat_mult)
qed

lemma fits_iff_divides:
  assumes "n \<noteq> 0" and "n \<le> (F :: nat)"
  shows "F - n \<le> (F div n - 1) * n \<longleftrightarrow> n dvd F"
proof -
  have "(F div n - 1) * n + n + F mod n = F"
    using assms div_mult_mod_eq [of F n] div_greater_zero_iff [of F n]
    by (metis Suc_pred' add.commute gr0I mult_Suc diff_Suc_1 One_nat_def)
  then show ?thesis by (simp add: dvd_eq_mod_eq_0) linarith
qed

lemma load_rows_eq:
  assumes "fopen name = Some (enc_file rs)" and "rs \<noteq> []" and "\<forall>r \<in> set rs. row_ok r" and "num_fields rs < 2 ^ 32"
  shows "LoadData_body atof junk fopen name l =
    Some (if length rs dvd num_fields rs
          then Inr (\<lparr>mNumFloats = of_nat (num_fields rs), mNumFeatures = of_nat (length rs), mFeatureLen = 55\<rparr>,
                    row_data atof rs, row_labels atof rs)
          else Inl Out_of_bounds)"
proof -
  let ?F = "num_fields rs" and ?n = "length rs"
  let ?l = "\<lparr>mNumFloats = of_nat ?F, mNumFeatures = of_nat ?n, mFeatureLen = 55\<rparr>"
  have len: "length (row_data atof rs) + ?n = ?F" using row_lengths(2) [OF assms(3)] .
  then have n: "?n \<noteq> 0" "?n \<le> ?F" "?n < 2 ^ 32" using assms(2,4) by auto
  have run: "RunThroughFile (l\<lparr>mFeatureLen := 55\<rparr>) (enc_file rs) = Some (?l, [])"
    using run_rows [OF assms(3), of "l\<lparr>mFeatureLen := 55, mNumFloats := 0, mNumFeatures := 0\<rparr>"]
    by (cases l) (simp add: RunThroughFile_def)
  let ?p = "new_floats junk ((of_nat ?F div of_nat ?n - 1) * of_nat ?n :: u32)" and ?q = "new_floats junk (of_nat ?n :: u32)"
  have p: "length ?p = (?F div ?n - 1) * ?n" "length ?q = ?n"
    using data_size [OF n(1,2) assms(4)] n(3) by (simp_all add: new_floats_def unat_of_nat)
  have fits: "length (row_data atof rs) \<le> length ?p \<longleftrightarrow> ?n dvd ?F"
    using fits_iff_divides [OF n(1,2)] p(1) len by (metis add_diff_cancel_right')
  have whole: "length (row_data atof rs) = length ?p" if "?n dvd ?F"
    using that p(1) len by (auto elim!: dvdE simp: n(1) diff_mult_distrib2 mult.commute)
  have alloc: "AllocateData atof ?l (enc_file rs) ?p ?q =
      Some (if ?n dvd ?F then Inr (row_data atof rs, row_labels atof rs) else Inl Out_of_bounds)"
    using AllocateData_rows [OF assms(3), of 0 0 ?q ?p atof] assms(4) n(3) p(2) fits whole len row_lengths(1) [of atof rs]
    by (auto simp: AllocateData_def put_all simp flip: of_nat_add)
  have "(of_nat ?n :: u32) \<noteq> 0" using of_nat_eq_0_small [of ?n, where 'a = 32] n(1,3) by simp
  then show ?thesis
    using assms(1) run alloc by (simp add: LoadData_body_def Let_def)
qed

text \<open>
  C7. \<open>LoadData\<close> on a file of rows, each of at least two fields that end with a comma and then a newline and any blanks, in which no field but the first of a row starts with
  a newline (else it would end the row), no row starts with a blank or with the byte \<open>0xFF\<close>, and there are fewer than \<open>2\<^sup>3\<^sup>2\<close> fields in all. When
  the number of rows divides the number of fields, in particular when all rows have the same length, the end of the function is reached with
  the first field of every row in \<open>pLabel\<close>, the other fields row after row in \<open>pData\<close>, the statistics counting both, and every write inside
  its array; but no \<open>return\<close> statement precedes that end. Otherwise the array computed from the rounded average is too
  short and \<open>AllocateData\<close> writes past its end.
\<close>

theorem load_data_rows:
  assumes "fopen name = Some (enc_file rs)" and "rs \<noteq> []" and "\<forall>r \<in> set rs. row_ok r" and "num_fields rs < 2 ^ 32"
  shows "LoadData_body atof junk fopen name l =
    Some (if length rs dvd num_fields rs
          then Inr (\<lparr>mNumFloats = of_nat (num_fields rs), mNumFeatures = of_nat (length rs), mFeatureLen = 55\<rparr>,
                    row_data atof rs, row_labels atof rs)
          else Inl Out_of_bounds) \<and>
    LoadData atof junk fopen name l = Some (Inl (if length rs dvd num_fields rs then Missing_return else Out_of_bounds))"
  by (simp add: LoadData_def load_rows_eq [of fopen name rs, OF assms])

theorem load_data_rows_witness:
  "LoadData_body length (\<lambda>_. 0) (\<lambda>_. Some (enc_file [([[49], [50], [51, 48]], []), ([[48], [53, 53], []], [32, 10])])) ''train''
     \<lparr>mNumFloats = 7, mNumFeatures = 7, mFeatureLen = 7\<rparr> =
   Some (Inr (\<lparr>mNumFloats = 6, mNumFeatures = 2, mFeatureLen = 55\<rparr>, [2, 3, 3, 1], [2, 2]))"
proof -
  let ?rs = "[([[49], [50], [51, 48]], []), ([[48], [53, 53], []], [32, 10])] :: row list"
  have "\<forall>r \<in> set ?rs. row_ok r" by (simp add: field_ok_def blank_def EOF_char_def)
  moreover have "length ?rs dvd num_fields ?rs" by (rule dvdI [of _ _ 3]) simp
  ultimately show ?thesis
    using load_data_rows [of "\<lambda>_. Some (enc_file ?rs)" "''train''" ?rs length "\<lambda>_. 0"]
    by (simp add: field_value_def c_str_def)
qed

text \<open>
  C39. Where \<open>LoadData\<close> fails: a file that cannot be opened is accessed through the null pointer, an empty file ends in a
  division by zero, and a file with bytes, of which the first is not \<open>0xFF\<close>, but without a comma at the end of a line (such as ordinary comma-separated
  lines) makes \<open>RunThroughFile\<close> read on at the end of the file for ever.
\<close>

theorem load_data_failures:
  shows "(fopen name = None \<longrightarrow> LoadData atof junk fopen name l = Some (Inl Null_dereference)) \<and>
    (fopen name = Some [] \<longrightarrow> LoadData atof junk fopen name l = Some (Inl Division_by_zero)) \<and>
    (fopen name = Some f \<and> f \<noteq> [] \<and> hd f \<noteq> EOF_char \<and> (\<nexists>u v. f = u @ 0x2C # 0x0A # v) \<longrightarrow>
       LoadData atof junk fopen name l = None)"
proof (intro conjI impI)
  show "LoadData atof junk fopen name l = Some (Inl Division_by_zero)" if "fopen name = Some []"
    using that by (simp add: LoadData_def LoadData_body_def RunThroughFile_def RunThroughFile_loop.simps [of _ "[]"] Let_def)
  show "LoadData atof junk fopen name l = None"
    if f: "fopen name = Some f \<and> f \<noteq> [] \<and> hd f \<noteq> EOF_char \<and> (\<nexists>u v. f = u @ 0x2C # 0x0A # v)"
  proof -
    have "count_line l' f = None" for l' using count_line_returns [of l' f] f by (cases "count_line l' f") auto
    moreover have "fst (Peek f) \<noteq> EOF_char" using f by (cases f) auto
    ultimately have "RunThroughFile l' f = None" for l'
      by (simp add: RunThroughFile_def RunThroughFile_loop.simps [of _ f])
    then show ?thesis using f by (simp add: LoadData_def LoadData_body_def Let_def)
  qed
qed (simp add: LoadData_def LoadData_body_def)

theorem load_data_failures_witness:
  "LoadData length (\<lambda>_. 0) (\<lambda>_. Some [49, 44, 50, 10]) ''csv'' \<lparr>mNumFloats = 7, mNumFeatures = 7, mFeatureLen = 7\<rparr> = None"
proof -
  have "[49, 44, 50, 10] \<noteq> u @ 44 # 10 # v" for u v :: "u8 list"
    by (cases u rule: list.exhaust [case_names Nil Cons]) (auto simp: Cons_eq_append_conv)
  then show ?thesis
    using load_data_failures [of "\<lambda>_. Some [49, 44, 50, 10]" "''csv''" length "\<lambda>_. 0" _ "[49, 44, 50, 10]"]
    by (simp add: EOF_char_def)
qed

end
