(* ===== verification/Recommender_Training.thy ===== *)
theory Recommender_Training
  imports Recommender_Data_Loader
begin

text \<open>
  \<^verbatim>\<open>src/run_training.cpp\<close>: the program \<open>main\<close>, which loads the training and the validation data and runs stochastic
  gradient descent. \<open>CaffeLib\<close> is a library outside of the repository: a record of functions on a state \<open>'s\<close>, about which nothing is
  assumed. A call gives \<open>None\<close> when it does not return normally; when it does, it may have changed every element of the arrays
  \<open>pParam\<close> and \<open>pGrad\<close> that it was handed (their lengths are those that \<open>new\<close> gave them, and what is written outside of an array is not
  modelled). The batch of rows and labels is an input of a call: the part of the array that the dimensions of the call describe, and a
  batch that leaves the array is an error value. \<open>rnd k\<close> is what the \<open>k\<close>-th call of \<open>rand\<close> returns. The arithmetic on
  floats is that of any type \<open>'f\<close> with subtraction and multiplication, without laws; \<open>learningRate\<close> is the constant
  \<open>0.001\<close> of that type. What is printed is not modelled, the array reads of the printing loops are.

  \<open>LoadData\<close> reaches its end without a \<open>return\<close> whenever nothing else goes wrong, so \<open>main\<close> never gets past its first call. The program that
  is meant, in which the call returns, is \<open>main_with LoadData_body\<close>.
\<close>

section \<open>CaffeLib\<close>

record ('s, 'f) CaffeLib =
  new_CaffeLib :: "string \<Rightarrow> 's option"
  ReturnParamLen :: "'s \<Rightarrow> (int \<times> 's) option"
  ReturnParam :: "'s \<Rightarrow> 'f list \<Rightarrow> ((nat \<Rightarrow> 'f) \<times> 's) option"
  ComputeGradientWithDatum :: "'s \<Rightarrow> 'f list \<Rightarrow> 'f list \<Rightarrow> 'f list \<Rightarrow> 'f list \<Rightarrow> ('f \<times> (nat \<Rightarrow> 'f) \<times> (nat \<Rightarrow> 'f) \<times> 's) option"
  SetParamsDense :: "'s \<Rightarrow> 'f list \<Rightarrow> ((nat \<Rightarrow> 'f) \<times> 's) option"
  Validate :: "'s \<Rightarrow> 'f list \<Rightarrow> 'f list \<Rightarrow> ('f \<times> 'f \<times> 's) option"

definition lib_call :: "'x option \<Rightarrow> 'x result" where
  "lib_call r = (case r of None \<Rightarrow> Inl No_return | Some x \<Rightarrow> Inr x)"

definition contents :: "(nat \<Rightarrow> 'f) \<Rightarrow> 'f list \<Rightarrow> 'f list" where
  \<comment> \<open>the array \<open>p\<close> after its elements became \<open>f\<close>\<close>
  "contents f p = map f [0..<length p]"

definition caffe_returns :: "('s, 'f) CaffeLib \<Rightarrow> bool" where
  \<comment> \<open>every call of the library returns\<close>
  "caffe_returns c \<longleftrightarrow> (\<forall>m. new_CaffeLib c m \<noteq> None) \<and> (\<forall>s. ReturnParamLen c s \<noteq> None) \<and> (\<forall>s p. ReturnParam c s p \<noteq> None) \<and>
     (\<forall>s p g d y. ComputeGradientWithDatum c s p g d y \<noteq> None) \<and> (\<forall>s p. SetParamsDense c s p \<noteq> None) \<and> (\<forall>s d y. Validate c s d y \<noteq> None)"

section \<open>The program\<close>

record ('s, 'f) training =
  caffeLib :: 's
  pParam :: "'f list"
  pGrad :: "'f list"
  traLoss :: 'f
  valLoss :: 'f
  valAcc :: 'f
  rands :: nat

definition miniBatchSize :: u32 where "miniBatchSize = 100"
definition validateEvery :: nat where "validateEvery = 500"
definition maxIters :: nat where "maxIters = 100000"

definition random_ref :: "(nat \<Rightarrow> u32) \<Rightarrow> nat \<Rightarrow> u32 \<Rightarrow> u32 result" where
  \<comment> \<open>\<open>rand() % (count - miniBatchSize + 1)\<close> in unsigned arithmetic\<close>
  "random_ref rnd k cnt = (let m = cnt - miniBatchSize + 1 in if m = 0 then Inl Division_by_zero else Inr (rnd k mod m))"

definition batch :: "'f list \<Rightarrow> nat \<Rightarrow> nat \<Rightarrow> 'f list result" where
  \<comment> \<open>the \<open>n\<close> floats from \<open>p + off\<close>\<close>
  "batch p off n = (if off + n \<le> length p then Inr (take n (drop off p)) else Inl Out_of_bounds)"

definition stoch_batch ::
  "'f list \<Rightarrow> 'f list \<Rightarrow> u32 \<Rightarrow> u32 \<Rightarrow> ('f list \<times> 'f list) result" where
  \<comment> \<open>the arguments \<open>p + ref * featureLen\<close> and \<open>q + ref\<close> with \<open>miniBatchSize * 1 * featureLen * 1\<close> floats and \<open>miniBatchSize\<close> labels\<close>
  "stoch_batch p q featureLen ref =
     bind_result (batch p (unat (ref * featureLen)) (unat miniBatchSize * unat featureLen)) (\<lambda>d.
     bind_result (batch q (unat ref) (unat miniBatchSize)) (\<lambda>y. Inr (d, y)))"

definition INT_MAX :: int where
  "INT_MAX = 2 ^ 31 - 1"

function update_params :: "'f::{minus,times} \<Rightarrow> int \<Rightarrow> int \<Rightarrow> 'f list \<Rightarrow> 'f list \<Rightarrow> 'f list result" where
  \<comment> \<open>the loop from the \<open>int\<close> \<open>i\<close> on, for a \<open>long\<close> \<open>paramLen\<close>\<close>
  "update_params learningRate paramLen i p g =
     (if i < paramLen then
        (if nat i < length p \<and> nat i < length g then
           (if i = INT_MAX then Inl Overflow
            else update_params learningRate paramLen (i + 1) (p[nat i := p ! nat i - learningRate * g ! nat i]) g)
         else Inl Out_of_bounds)
      else Inr p)"
  by pat_completeness auto
termination by (relation "measure (\<lambda>(lr, n, i, p, g). nat (n - i))") auto

declare update_params.simps [simp del]

definition validation ::
  "('s, 'f) CaffeLib \<Rightarrow> (nat \<Rightarrow> u32) \<Rightarrow> 'f list \<Rightarrow> 'f list \<Rightarrow> u32 \<Rightarrow> u32 \<Rightarrow> ('s, 'f) training \<Rightarrow> ('s, 'f) training result" where
  "validation c rnd pValData pValLabel valDataCount featureLen st =
     bind_result (lib_call (SetParamsDense c (caffeLib st) (pParam st))) (\<lambda>(f, s1).
     bind_result (random_ref rnd (rands st) valDataCount) (\<lambda>ref.
     bind_result (stoch_batch pValData pValLabel featureLen ref) (\<lambda>(d, y).
     bind_result (lib_call (Validate c s1 d y)) (\<lambda>(vl, va, s2).
       Inr (st\<lparr>caffeLib := s2, pParam := contents f (pParam st), valLoss := vl, valAcc := va, rands := rands st + 1\<rparr>)))))"

definition sgd_iteration ::
  "('s, 'f::{minus,times}) CaffeLib \<Rightarrow> (nat \<Rightarrow> u32) \<Rightarrow> 'f \<Rightarrow> 'f list \<Rightarrow> 'f list \<Rightarrow> 'f list \<Rightarrow> 'f list \<Rightarrow> u32 \<Rightarrow> u32 \<Rightarrow> u32 \<Rightarrow> int \<Rightarrow>
   nat \<Rightarrow> ('s, 'f) training \<Rightarrow> ('s, 'f) training result" where
  "sgd_iteration c rnd learningRate pTrainData pTrainLabel pValData pValLabel trainDataCount valDataCount featureLen paramLen iter st =
     bind_result (random_ref rnd (rands st) trainDataCount) (\<lambda>ref.
     bind_result (stoch_batch pTrainData pTrainLabel featureLen ref) (\<lambda>(d, y).
     bind_result (lib_call (ComputeGradientWithDatum c (caffeLib st) (pParam st) (pGrad st) d y)) (\<lambda>(loss, fp, fg, s1).
     let g = contents fg (pGrad st) in
     bind_result (update_params learningRate paramLen 0 (contents fp (pParam st)) g) (\<lambda>p.
       let st1 = st\<lparr>caffeLib := s1, pParam := p, pGrad := g, traLoss := loss, rands := rands st + 1\<rparr>
       in if iter mod validateEvery = 0 then validation c rnd pValData pValLabel valDataCount featureLen st1 else Inr st1))))"

primrec sgd_loop :: "nat \<Rightarrow> nat \<Rightarrow> (nat \<Rightarrow> 't \<Rightarrow> 't result) \<Rightarrow> 't \<Rightarrow> 't result" where
  \<comment> \<open>the remaining \<open>n\<close> rounds of \<open>for (iter = 0; iter < maxIters; iter ++)\<close>\<close>
  "sgd_loop 0 iter body st = Inr st"
| "sgd_loop (Suc n) iter body st = bind_result (body iter st) (sgd_loop n (Suc iter) body)"

definition print_first :: "nat \<Rightarrow> 'f list \<Rightarrow> unit result" where
  "print_first n p = (if n \<le> length p then Inr () else Inl Out_of_bounds)"

definition new_array :: "(nat \<Rightarrow> 'f) \<Rightarrow> int \<Rightarrow> 'f list result" where
  \<comment> \<open>\<open>new float[n]\<close>\<close>
  "new_array junk n = (if n < 0 then Inl Bad_array_length else Inr (map junk [0..<nat n]))"

definition main_with ::
  "(string \<Rightarrow> DataLoader \<Rightarrow> (DataLoader \<times> 'f list \<times> 'f list) result option) \<Rightarrow> ('s, 'f::{zero,minus,times}) CaffeLib \<Rightarrow> (nat \<Rightarrow> 'f) \<Rightarrow>
   (nat \<Rightarrow> u32) \<Rightarrow> 'f \<Rightarrow> DataLoader \<Rightarrow> (int \<times> ('s, 'f) training) result" where
  \<comment> \<open>\<open>main\<close> with \<open>load\<close> for \<open>LoadData\<close>: the exit code and the final state; \<open>loader\<close> is the uninitialised \<open>new DataLoader\<close>\<close>
  "main_with load c junk rnd learningRate loader =
     (let trainFileName = ''/home/youzhi.zou/juhuasuan/recommender/data/test.txt'';
          valFileName = ''/home/youzhi.zou/juhuasuan/recommender/data/test.txt'' in
      bind_result (loop_result (load trainFileName loader)) (\<lambda>(loader1, pTrainData, pTrainLabel).
      let (_, trainDataCount, _) = ReturnStats loader1 in
      bind_result (loop_result (load valFileName loader1)) (\<lambda>(loader2, pValData, pValLabel).
      let (featureLen, valDataCount, _) = ReturnStats loader2 in
      bind_result (print_first 50 pTrainData) (\<lambda>_.
      bind_result (print_first 50 pTrainLabel) (\<lambda>_.
      bind_result (lib_call (new_CaffeLib c ''prototxt/dnn_memdata.prototxt'')) (\<lambda>s0.
      bind_result (lib_call (ReturnParamLen c s0)) (\<lambda>(paramLen, s1).
      bind_result (new_array junk paramLen) (\<lambda>p.
      bind_result (lib_call (ReturnParam c s1 p)) (\<lambda>(f, s2).
      bind_result (new_array junk paramLen) (\<lambda>g.
      let st0 = \<lparr>caffeLib = s2, pParam = contents f p, pGrad = g, traLoss = junk 0, valLoss = junk 0, valAcc = junk 0, rands = 0\<rparr>
      in bind_result (sgd_loop maxIters 0 (sgd_iteration c rnd learningRate pTrainData pTrainLabel pValData pValLabel
             trainDataCount valDataCount featureLen paramLen) st0) (\<lambda>st. Inr (1, st))))))))))))"

definition main ::
  "('s, 'f::{zero,minus,times}) CaffeLib \<Rightarrow> (u8 list \<Rightarrow> 'f) \<Rightarrow> (nat \<Rightarrow> 'f) \<Rightarrow> (string \<Rightarrow> FILE option) \<Rightarrow> (nat \<Rightarrow> u32) \<Rightarrow> 'f \<Rightarrow>
   DataLoader \<Rightarrow> (int \<times> ('s, 'f) training) result" where
  "main c atof junk fopen rnd learningRate loader = main_with (LoadData atof junk fopen) c junk rnd learningRate loader"

section \<open>One iteration\<close>

lemma contents_simps [simp]: "length (contents f p) = length p" "i < length p \<Longrightarrow> contents f p ! i = f i"
  by (simp_all add: contents_def)

lemma lib_call_simps [simp]: "lib_call None = Inl No_return" "lib_call (Some x) = Inr x"
  by (simp_all add: lib_call_def)

lemma call_without_return:
  "ComputeGradientWithDatum c s p g d y = None \<Longrightarrow> \<not> caffe_returns c" "SetParamsDense c s p = None \<Longrightarrow> \<not> caffe_returns c"
  "Validate c s d y = None \<Longrightarrow> \<not> caffe_returns c"
  unfolding caffe_returns_def by blast+

lemma update_params_rest:
  "length g = length p \<Longrightarrow> length p < 2 ^ 31 \<Longrightarrow> i + n = length p \<Longrightarrow>
   update_params lr (int (length p)) (int i) p g = Inr (take i p @ map2 (\<lambda>x y. x - lr * y) (drop i p) (drop i g))"
proof (induction n arbitrary: i p)
  case 0
  then show ?case by (subst update_params.simps) simp
next
  case (Suc n)
  then have i: "i < length p" "int i \<noteq> INT_MAX" by (simp_all add: INT_MAX_def)
  have "take (Suc i) (p[i := v]) = take i p @ [v]" "drop (Suc i) (p[i := v]) = drop (Suc i) p" for v
    using i by (simp_all add: take_Suc_conv_app_nth)
  moreover have "drop i p = p ! i # drop (Suc i) p" "drop i g = g ! i # drop (Suc i) g"
    using i Suc.prems(1) by (simp_all add: Cons_nth_drop_Suc)
  ultimately show ?case
    using Suc.IH [of "p[i := p ! i - lr * g ! i]" "Suc i"] Suc.prems i by (subst update_params.simps) (simp add: add.commute)
qed

lemma update_params_all:
  "length g = length p \<Longrightarrow> length p < 2 ^ 31 \<Longrightarrow>
   update_params lr (int (length p)) 0 (contents fp p) (contents fg g) = Inr (map (\<lambda>i. fp i - lr * fg i) [0..<length p])"
  using update_params_rest [of "contents fg g" "contents fp p" 0 "length p" lr]
  by (simp add: contents_def map2_map_map)

lemma update_params_overflows:
  \<comment> \<open>an \<open>int\<close> index does not reach the end of \<open>2 ^ 31\<close> parameters or more\<close>
  "length g = length p \<Longrightarrow> 2 ^ 31 \<le> length p \<Longrightarrow> i + n = 2 ^ 31 - 1 \<Longrightarrow> update_params lr (int (length p)) (int i) p g = Inl Overflow"
proof (induction n arbitrary: i p)
  case 0
  then show ?case by (subst update_params.simps) (simp add: INT_MAX_def)
next
  case (Suc n)
  then show ?case
    using Suc.IH [of "p[i := p ! i - lr * g ! i]" "Suc i"] by (subst update_params.simps) (simp add: INT_MAX_def add.commute)
qed

definition data_ok :: "'f list \<Rightarrow> 'f list \<Rightarrow> u32 \<Rightarrow> u32 \<Rightarrow> bool" where
  "data_ok p q cnt featureLen \<longleftrightarrow> length p = unat cnt * unat featureLen \<and> length q = unat cnt \<and> 100 \<le> unat cnt \<and>
     unat cnt * unat featureLen < 2 ^ 32"

definition random_row :: "(nat \<Rightarrow> u32) \<Rightarrow> nat \<Rightarrow> u32 \<Rightarrow> nat" where
  "random_row rnd k cnt = unat (rnd k) mod (unat cnt - 99)"

lemma random_ref_ok:
  assumes "100 \<le> unat cnt"
  obtains ref where "random_ref rnd k cnt = Inr ref" and "unat ref = random_row rnd k cnt" and "unat ref + 100 \<le> unat cnt"
proof -
  have le: "100 \<le> cnt" using assms by (simp add: word_le_nat_alt)
  have b: "unat cnt < 2 ^ 32" using unsigned_less [of cnt] by simp
  have m: "unat (cnt - miniBatchSize + 1) = unat cnt - 99"
  proof -
    have "unat (cnt - 100) = unat cnt - 100" using unat_sub [OF le] by simp
    then have "unat (cnt - 100 + 1) = unat cnt - 100 + 1"
      using assms b by (subst unat_word_ariths) simp
    then show ?thesis using assms by (simp add: miniBatchSize_def)
  qed
  then have "unat (cnt - miniBatchSize + 1) \<noteq> 0" using assms by linarith
  then have "cnt - miniBatchSize + 1 \<noteq> 0" by (auto simp only: unsigned_0)
  moreover have "unat (rnd k mod (cnt - miniBatchSize + 1)) = random_row rnd k cnt" "random_row rnd k cnt < unat cnt - 99"
    using m assms by (simp_all add: unat_mod_distrib random_row_def)
  ultimately show thesis
    by (intro that [of "rnd k mod (cnt - miniBatchSize + 1)"]) (auto simp: random_ref_def Let_def)
qed

lemma random_row_less: "100 \<le> unat cnt \<Longrightarrow> random_row rnd k cnt + 100 \<le> unat cnt"
  using mod_less_divisor [of "unat cnt - 99" "unat (rnd k)"] unfolding random_row_def by linarith

definition batch_rows :: "'f list \<Rightarrow> u32 \<Rightarrow> nat \<Rightarrow> 'f list" where
  \<comment> \<open>the features of 100 rows from row \<open>k\<close> on\<close>
  "batch_rows p featureLen k = take (100 * unat featureLen) (drop (k * unat featureLen) p)"

definition batch_labels :: "'f list \<Rightarrow> nat \<Rightarrow> 'f list" where
  "batch_labels q k = take 100 (drop k q)"

lemma stoch_batch_ok:
  assumes "data_ok p q cnt featureLen" and "unat ref + 100 \<le> unat cnt"
  shows "stoch_batch p q featureLen ref =
    Inr (batch_rows p featureLen (unat ref), batch_labels q (unat ref))"
proof -
  have le: "(unat ref + 100) * unat featureLen \<le> unat cnt * unat featureLen" using assms(2) by (rule mult_le_mono1)
  then have "unat ref * unat featureLen < 2 ^ 32" using assms(1) by (simp add: data_ok_def add_mult_distrib)
  then have "unat (ref * featureLen) = unat ref * unat featureLen" by (simp add: unat_word_ariths)
  then show ?thesis
    using assms le by (simp add: stoch_batch_def batch_def data_ok_def miniBatchSize_def add_mult_distrib batch_rows_def batch_labels_def)
qed

lemma batch_at_random_row:
  assumes "data_ok p q cnt featureLen"
  shows "bind_result (random_ref rnd k cnt) (\<lambda>ref. bind_result (stoch_batch p q featureLen ref) f) =
    f (batch_rows p featureLen (random_row rnd k cnt), batch_labels q (random_row rnd k cnt))"
proof -
  obtain ref where "random_ref rnd k cnt = Inr ref" "unat ref = random_row rnd k cnt" "unat ref + 100 \<le> unat cnt"
    by (rule random_ref_ok [of cnt rnd k]) (use assms in \<open>simp add: data_ok_def\<close>)
  then show ?thesis using stoch_batch_ok [OF assms, of ref] by simp
qed

definition params_ok :: "nat \<Rightarrow> ('s, 'f) training \<Rightarrow> bool" where
  "params_ok n st \<longleftrightarrow> length (pParam st) = n \<and> length (pGrad st) = n"

lemma validation_eq:
  assumes "data_ok p q cnt featureLen"
  shows "validation c rnd p q cnt featureLen st =
    bind_result (lib_call (SetParamsDense c (caffeLib st) (pParam st))) (\<lambda>(f, s1).
    bind_result (lib_call (Validate c s1 (batch_rows p featureLen (random_row rnd (rands st) cnt)) (batch_labels q (random_row rnd (rands st) cnt))))
      (\<lambda>(vl, va, s2). Inr (st\<lparr>caffeLib := s2, pParam := contents f (pParam st), valLoss := vl, valAcc := va, rands := rands st + 1\<rparr>)))"
  unfolding validation_def batch_at_random_row [OF assms] by simp

lemma sgd_iteration_eq:
  assumes "params_ok n st" and "n < 2 ^ 31" and "data_ok p q cnt featureLen"
  shows "sgd_iteration c rnd lr p q p' q' cnt cnt' featureLen (int n) iter st =
    bind_result (lib_call (ComputeGradientWithDatum c (caffeLib st) (pParam st) (pGrad st)
      (batch_rows p featureLen (random_row rnd (rands st) cnt)) (batch_labels q (random_row rnd (rands st) cnt)))) (\<lambda>(loss, fp, fg, s1).
    let st1 = st\<lparr>caffeLib := s1, pParam := map (\<lambda>i. fp i - lr * fg i) [0..<n], pGrad := map fg [0..<n], traLoss := loss, rands := rands st + 1\<rparr>
    in if iter mod 500 = 0 then validation c rnd p' q' cnt' featureLen st1 else Inr st1)"
proof -
  have n: "length (pParam st) = n" "length (pGrad st) = n" using assms(1) by (simp_all add: params_ok_def)
  then have "update_params lr (int n) 0 (contents fp (pParam st)) (contents fg (pGrad st)) = Inr (map (\<lambda>i. fp i - lr * fg i) [0..<n])" for fp fg
    using update_params_all [of "pGrad st" "pParam st" lr fp fg] assms(2) by simp
  then show ?thesis
    unfolding sgd_iteration_def batch_at_random_row [OF assms(3)] by (simp add: validateEvery_def contents_def n Let_def)
qed

lemma sgd_iteration_ok:
  assumes "params_ok n st" and "n < 2 ^ 31" and "data_ok p q cnt featureLen" and "data_ok p' q' cnt' featureLen"
  shows "(\<exists>st'. sgd_iteration c rnd lr p q p' q' cnt cnt' featureLen (int n) iter st = Inr st' \<and> params_ok n st') \<or>
    sgd_iteration c rnd lr p q p' q' cnt cnt' featureLen (int n) iter st = Inl No_return \<and> \<not> caffe_returns c"
proof -
  let ?r = "random_row rnd (rands st) cnt"
  let ?call = "ComputeGradientWithDatum c (caffeLib st) (pParam st) (pGrad st) (batch_rows p featureLen ?r) (batch_labels q ?r)"
  have val: "(\<exists>st'. validation c rnd p' q' cnt' featureLen st1 = Inr st' \<and> params_ok n st') \<or>
      validation c rnd p' q' cnt' featureLen st1 = Inl No_return \<and> \<not> caffe_returns c" if "params_ok n st1" for st1
  proof (cases "SetParamsDense c (caffeLib st1) (pParam st1)")
    case None
    then show ?thesis unfolding validation_eq [OF assms(4)] by (simp add: call_without_return(2))
  next
    case (Some r)
    let ?k = "random_row rnd (rands st1) cnt'"
    show ?thesis
      using that Some unfolding validation_eq [OF assms(4)]
      by (cases "Validate c (snd r) (batch_rows p' featureLen ?k) (batch_labels q' ?k)"; cases r)
         (simp_all add: params_ok_def call_without_return(3) case_prod_beta)
  qed
  show ?thesis
  proof (cases ?call)
    case None
    then show ?thesis by (simp add: sgd_iteration_eq [OF assms(1-3)] call_without_return(1))
  next
    case (Some r)
    obtain loss fp fg s1 where r: "r = (loss, fp, fg, s1)" by (cases r)
    let ?st = "st\<lparr>caffeLib := s1, pParam := map (\<lambda>i. fp i - lr * fg i) [0..<n], pGrad := map fg [0..<n], traLoss := loss, rands := rands st + 1\<rparr>"
    have "params_ok n ?st" by (simp add: params_ok_def)
    then show ?thesis using val [of ?st] Some r by (simp add: sgd_iteration_eq [OF assms(1-3)] Let_def)
  qed
qed

lemma sgd_loop_ok:
  assumes "\<And>iter st. I st \<Longrightarrow> (\<exists>st'. body iter st = Inr st' \<and> I st') \<or> body iter st = Inl e \<and> Q"
  shows "I st \<Longrightarrow> (\<exists>st'. sgd_loop n iter body st = Inr st' \<and> I st') \<or> sgd_loop n iter body st = Inl e \<and> Q"
proof (induction n arbitrary: iter st)
  case (Suc n)
  from assms [OF Suc.prems, of iter] show ?case
  proof
    assume "\<exists>st'. body iter st = Inr st' \<and> I st'"
    then obtain st1 where "body iter st = Inr st1" "I st1" by blast
    then show ?case using Suc.IH [of st1 "Suc iter"] by simp
  qed simp
qed simp

definition run_library ::
  "('s, 'f::{zero,minus,times}) CaffeLib \<Rightarrow> (nat \<Rightarrow> 'f) \<Rightarrow> (nat \<Rightarrow> u32) \<Rightarrow> 'f \<Rightarrow> 'f list \<Rightarrow> 'f list \<Rightarrow> 'f list \<Rightarrow> 'f list \<Rightarrow> u32 \<Rightarrow> u32 \<Rightarrow>
   u32 \<Rightarrow> (int \<times> ('s, 'f) training) result" where
  \<comment> \<open>\<open>main\<close> from \<open>new CaffeLib\<close> on\<close>
  "run_library c junk rnd learningRate p q p' q' cnt cnt' featureLen =
     bind_result (lib_call (new_CaffeLib c ''prototxt/dnn_memdata.prototxt'')) (\<lambda>s0.
     bind_result (lib_call (ReturnParamLen c s0)) (\<lambda>(paramLen, s1).
     bind_result (new_array junk paramLen) (\<lambda>a.
     bind_result (lib_call (ReturnParam c s1 a)) (\<lambda>(f, s2).
     bind_result (new_array junk paramLen) (\<lambda>g.
     let st0 = \<lparr>caffeLib = s2, pParam = contents f a, pGrad = g, traLoss = junk 0, valLoss = junk 0, valAcc = junk 0, rands = 0\<rparr>
     in bind_result (sgd_loop maxIters 0 (sgd_iteration c rnd learningRate p q p' q' cnt cnt' featureLen paramLen) st0) (\<lambda>st. Inr (1, st)))))))"

lemma main_with_eq:
  "main_with load c junk rnd lr l =
     bind_result (loop_result (load ''/home/youzhi.zou/juhuasuan/recommender/data/test.txt'' l)) (\<lambda>(l1, p, q).
     bind_result (loop_result (load ''/home/youzhi.zou/juhuasuan/recommender/data/test.txt'' l1)) (\<lambda>(l2, p', q').
     bind_result (print_first 50 p) (\<lambda>_. bind_result (print_first 50 q) (\<lambda>_.
       run_library c junk rnd lr p q p' q' (fst (snd (ReturnStats l1))) (fst (snd (ReturnStats l2))) (fst (ReturnStats l2))))))"
  by (simp add: main_with_def run_library_def case_prod_beta Let_def)

lemma run_library_ok:
  assumes "\<forall>s0 m s1. new_CaffeLib c ''prototxt/dnn_memdata.prototxt'' = Some s0 \<and> ReturnParamLen c s0 = Some (m, s1) \<longrightarrow> m = int n" and "n < 2 ^ 31"
    and "data_ok p q cnt featureLen" and "data_ok p' q' cnt' featureLen"
  shows "(\<exists>st. run_library c junk rnd lr p q p' q' cnt cnt' featureLen = Inr (1, st) \<and> length (pParam st) = n) \<or>
    run_library c junk rnd lr p q p' q' cnt cnt' featureLen = Inl No_return \<and> \<not> caffe_returns c"
proof (cases "\<exists>s0 m s1 r. new_CaffeLib c ''prototxt/dnn_memdata.prototxt'' = Some s0 \<and> ReturnParamLen c s0 = Some (m, s1) \<and>
    ReturnParam c s1 (map junk [0..<nat m]) = Some r")
  case True
  then obtain s0 m s1 f s2 where r: "new_CaffeLib c ''prototxt/dnn_memdata.prototxt'' = Some s0" "ReturnParamLen c s0 = Some (m, s1)"
    "ReturnParam c s1 (map junk [0..<nat m]) = Some (f, s2)" by (metis surj_pair)
  then have m: "m = int n" using assms(1) by blast
  let ?body = "sgd_iteration c rnd lr p q p' q' cnt cnt' featureLen (int n)"
  let ?st = "\<lparr>caffeLib = s2, pParam = contents f (map junk [0..<n]), pGrad = map junk [0..<n], traLoss = junk 0, valLoss = junk 0, valAcc = junk 0,
    rands = 0\<rparr>"
  have "params_ok n ?st" by (simp add: params_ok_def)
  then have "(\<exists>st. sgd_loop maxIters 0 ?body ?st = Inr st \<and> params_ok n st) \<or> sgd_loop maxIters 0 ?body ?st = Inl No_return \<and> \<not> caffe_returns c"
    by (rule sgd_loop_ok [where I = "params_ok n", rotated]) (rule sgd_iteration_ok [OF _ assms(2-4)])
  then show ?thesis using r m by (auto simp: run_library_def new_array_def params_ok_def)
next
  case False
  have pos: "\<not> m < 0" if "new_CaffeLib c ''prototxt/dnn_memdata.prototxt'' = Some s0" "ReturnParamLen c s0 = Some (m, s1)" for s0 m s1
    using assms(1) that by (metis of_nat_less_0_iff)
  have "run_library c junk rnd lr p q p' q' cnt cnt' featureLen = Inl No_return"
    using False pos by (auto simp: run_library_def lib_call_def new_array_def split: option.splits)
  moreover have "\<not> caffe_returns c"
  proof
    assume c: "caffe_returns c"
    obtain s0 where s0: "new_CaffeLib c ''prototxt/dnn_memdata.prototxt'' = Some s0" using c unfolding caffe_returns_def by blast
    obtain m s1 where s1: "ReturnParamLen c s0 = Some (m, s1)" using c unfolding caffe_returns_def by (metis not_None_eq surj_pair)
    obtain r where "ReturnParam c s1 (map junk [0..<nat m]) = Some r" using c unfolding caffe_returns_def by blast
    then show False using False s0 s1 by blast
  qed
  ultimately show ?thesis by blast
qed

section \<open>The program on files of rows\<close>

definition rows_of_length :: "nat \<Rightarrow> row list \<Rightarrow> bool" where
  "rows_of_length k rs \<longleftrightarrow> (\<forall>(ws, bl) \<in> set rs. length ws = k)"

lemma num_fields_uniform: "rows_of_length k rs \<Longrightarrow> num_fields rs = length rs * k"
  by (induction rs) (auto simp: rows_of_length_def)

lemma load_uniform:
  assumes "fopen name = Some (enc_file rs)" and "rs \<noteq> []" and "\<forall>r \<in> set rs. row_ok r" and "rows_of_length k rs" and "length rs * k < 2 ^ 32"
  shows "LoadData_body atof junk fopen name l =
    Some (Inr (\<lparr>mNumFloats = of_nat (length rs * k), mNumFeatures = of_nat (length rs), mFeatureLen = 55\<rparr>,
               row_data atof rs, row_labels atof rs))"
    "length (row_data atof rs) = length rs * (k - 1)" "length (row_labels atof rs) = length rs"
  using assms num_fields_uniform [OF assms(4)] load_rows_eq [of fopen name rs, OF assms(1-3)] row_lengths(1) [of atof rs]
    row_lengths(2) [OF assms(3), of atof]
  by (simp_all add: diff_mult_distrib2)

text \<open>
  C20. One iteration of the gradient descent, on data of at least 100 complete rows, fewer than \<open>2\<^sup>3\<^sup>2\<close> floats, and with fewer than \<open>2\<^sup>3\<^sup>1\<close> parameters, whatever the calls of
  the library do to the parameters, the gradient and its own state: it hands \<open>ComputeGradientWithDatum\<close> the 100 consecutive rows from row
  \<open>rand() mod (count - 99)\<close> on with their labels, all inside the arrays; then every parameter is what the call left there less the learning
  rate times the gradient; and in every 500th iteration \<open>SetParamsDense\<close> gets exactly these parameters and \<open>Validate\<close> the 100 rows of
  the validation data at the next random row. With \<open>2\<^sup>3\<^sup>1\<close> parameters or more the \<open>int\<close> index of the update overflows.
\<close>

theorem sgd_iteration_descends:
  assumes "params_ok n st" and "data_ok p q cnt featureLen" and "data_ok p' q' cnt' featureLen"
    and "k = random_row rnd (rands st) cnt" and "k' = random_row rnd (rands st + 1) cnt'"
    and "ComputeGradientWithDatum c (caffeLib st) (pParam st) (pGrad st) (batch_rows p featureLen k) (batch_labels q k) = Some (loss, fp, fg, s1)"
    and "P = map (\<lambda>i. fp i - lr * fg i) [0..<n]"
    and "st1 = st\<lparr>caffeLib := s1, pParam := P, pGrad := map fg [0..<n], traLoss := loss, rands := rands st + 1\<rparr>"
  shows "k + 100 \<le> unat cnt \<and> k' + 100 \<le> unat cnt' \<and>
    (n < 2 ^ 31 \<and> iter mod 500 \<noteq> 0 \<longrightarrow> sgd_iteration c rnd lr p q p' q' cnt cnt' featureLen (int n) iter st = Inr st1) \<and>
    (\<forall>f s2 vl va s3. n < 2 ^ 31 \<and> iter mod 500 = 0 \<and> SetParamsDense c s1 P = Some (f, s2) \<and>
       Validate c s2 (batch_rows p' featureLen k') (batch_labels q' k') = Some (vl, va, s3) \<longrightarrow>
       sgd_iteration c rnd lr p q p' q' cnt cnt' featureLen (int n) iter st =
         Inr (st1\<lparr>caffeLib := s3, pParam := map f [0..<n], valLoss := vl, valAcc := va, rands := rands st + 2\<rparr>)) \<and>
    (2 ^ 31 \<le> n \<longrightarrow> sgd_iteration c rnd lr p q p' q' cnt cnt' featureLen (int n) iter st = Inl Overflow)"
proof (intro conjI allI impI)
  show "k + 100 \<le> unat cnt" "k' + 100 \<le> unat cnt'" using assms(2-5) random_row_less by (auto simp: data_ok_def)
  show "sgd_iteration c rnd lr p q p' q' cnt cnt' featureLen (int n) iter st = Inr st1" if "n < 2 ^ 31 \<and> iter mod 500 \<noteq> 0"
    using that sgd_iteration_eq [OF assms(1) _ assms(2), of c rnd lr p' q' cnt' iter] assms(4,6,7,8) by simp
  show "sgd_iteration c rnd lr p q p' q' cnt cnt' featureLen (int n) iter st =
      Inr (st1\<lparr>caffeLib := s3, pParam := map f [0..<n], valLoss := vl, valAcc := va, rands := rands st + 2\<rparr>)"
    if "n < 2 ^ 31 \<and> iter mod 500 = 0 \<and> SetParamsDense c s1 P = Some (f, s2) \<and>
       Validate c s2 (batch_rows p' featureLen k') (batch_labels q' k') = Some (vl, va, s3)" for f s2 vl va s3
    using that sgd_iteration_eq [OF assms(1) _ assms(2), of c rnd lr p' q' cnt' iter] validation_eq [OF assms(3), of c rnd st1] assms(4-8)
    by (simp add: contents_def)
  show "sgd_iteration c rnd lr p q p' q' cnt cnt' featureLen (int n) iter st = Inl Overflow" if "2 ^ 31 \<le> n"
    using that update_params_overflows [of "contents fg (pGrad st)" "contents fp (pParam st)" 0 "2 ^ 31 - 1" lr] assms(1,4,6)
    unfolding sgd_iteration_def batch_at_random_row [OF assms(2)] by (simp add: params_ok_def Let_def)
qed

definition sum_caffe :: "(unit, int) CaffeLib" where
  \<comment> \<open>a library with two parameters whose gradient is the sum of the batch and the sum of the labels\<close>
  "sum_caffe = \<lparr>new_CaffeLib = (\<lambda>_. Some ()), ReturnParamLen = (\<lambda>_. Some (2, ())), ReturnParam = (\<lambda>_ p. Some (\<lambda>_. 0, ())),
     ComputeGradientWithDatum = (\<lambda>_ p g d y. Some (0, (!) p, (!) [sum_list d, sum_list y], ())),
     SetParamsDense = (\<lambda>_ p. Some ((!) p, ())), Validate = (\<lambda>_ d y. Some (0, 0, ()))\<rparr>"

lemma sum_caffe_returns: "caffe_returns sum_caffe"
  by (simp add: caffe_returns_def sum_caffe_def)

theorem sgd_iteration_descends_witness:
  "\<exists>st'. sgd_iteration sum_caffe (\<lambda>_. 12345) 2 (replicate 200 3) (replicate 100 1) (replicate 200 3) (replicate 100 1) 100 100 2 2 7
     \<lparr>caffeLib = (), pParam = [1000, 100], pGrad = [0, 0], traLoss = 0, valLoss = 0, valAcc = 0, rands = 5\<rparr> = Inr st' \<and>
   pParam st' = [- 200, - 100]"
proof -
  let ?st = "\<lparr>caffeLib = (), pParam = [1000, 100], pGrad = [0, 0], traLoss = 0, valLoss = 0, valAcc = 0, rands = 5\<rparr> :: (unit, int) training"
  have "data_ok (replicate 200 (3 :: int)) (replicate 100 1) 100 2" by (simp add: data_ok_def)
  moreover have "params_ok 2 ?st" by (simp add: params_ok_def)
  moreover have "ComputeGradientWithDatum sum_caffe () [1000, 100] [0, 0] (batch_rows (replicate 200 3) 2 0) (batch_labels (replicate 100 1) 0) =
      Some (0, (!) [1000, 100], (!) [600, 100], ())"
    by (simp add: sum_caffe_def batch_rows_def batch_labels_def sum_list_replicate)
  ultimately show ?thesis
    using sgd_iteration_descends [of 2 ?st "replicate 200 3" "replicate 100 1" 100 2 "replicate 200 3" "replicate 100 1" 100
        0 "\<lambda>_. 12345" _ sum_caffe 0 "(!) [1000, 100]" "(!) [600, 100]" "()" _ 2 _ 7]
    by (simp add: random_row_def upt_rec)
qed

text \<open>
  C8. The whole program, when the data file has at least 100 rows of exactly 56 fields each (rows as in \<open>load_data_rows\<close>, fewer than
  \<open>2\<^sup>3\<^sup>2\<close> fields in all) and the library asks for fewer than \<open>2\<^sup>3\<^sup>1\<close> parameters, whatever \<open>rand\<close> returns and whatever the library does to
  the parameters and the gradient: as written, \<open>main\<close> ends in the missing \<open>return\<close> of its first call of \<open>LoadData\<close>. Did
  \<open>LoadData\<close> return, \<open>main\<close> would run all its iterations and return 1, without access outside of an array, division by zero or overflow,
  unless a call of the library does not return.
\<close>

theorem main_returns:
  assumes "fopen ''/home/youzhi.zou/juhuasuan/recommender/data/test.txt'' = Some (enc_file rs)" and "\<forall>r \<in> set rs. row_ok r"
    and "rows_of_length 56 rs" and "100 \<le> length rs" and "length rs * 56 < 2 ^ 32"
    and "\<forall>s0 m s1. new_CaffeLib c ''prototxt/dnn_memdata.prototxt'' = Some s0 \<and> ReturnParamLen c s0 = Some (m, s1) \<longrightarrow> m = int n" and "n < 2 ^ 31"
  shows "main c atof junk fopen rnd lr l = Inl Missing_return \<and>
    ((\<exists>st. main_with (LoadData_body atof junk fopen) c junk rnd lr l = Inr (1, st) \<and> length (pParam st) = n) \<or>
     main_with (LoadData_body atof junk fopen) c junk rnd lr l = Inl No_return \<and> \<not> caffe_returns c)"
proof -
  have ne: "rs \<noteq> []" using assms(4) by auto
  note load = load_uniform [of fopen, OF assms(1) ne assms(2,3,5), of atof]
  have cnt: "unat (of_nat (length rs) :: u32) = length rs" using assms(5) by (simp add: unat_of_nat)
  have data: "data_ok (row_data atof rs) (row_labels atof rs) (of_nat (length rs)) 55"
    using load(2,3) assms(4,5) cnt by (simp add: data_ok_def)
  have "main c atof junk fopen rnd lr l = Inl Missing_return"
    using load(1) [of junk l] by (simp add: main_def main_with_def LoadData_def loop_result_def)
  moreover have "main_with (LoadData_body atof junk fopen) c junk rnd lr l =
      run_library c junk rnd lr (row_data atof rs) (row_labels atof rs) (row_data atof rs) (row_labels atof rs) (of_nat (length rs)) (of_nat (length rs)) 55"
    using load assms(4) by (simp add: main_with_eq loop_result_def ReturnStats_def print_first_def)
  ultimately show ?thesis using run_library_ok [OF assms(6,7) data data, of junk rnd lr] by simp
qed

lemma replicate_rows_ok:
  assumes "row_ok (ws, bl)"
  shows "\<forall>r \<in> set (replicate n (ws, bl)). row_ok r" and "rows_of_length (length ws) (replicate n (ws, bl))"
proof -
  have "r = (ws, bl)" if "r \<in> set (replicate n (ws, bl))" for r using that by (metis in_set_replicate)
  then show "\<forall>r \<in> set (replicate n (ws, bl)). row_ok r" "rows_of_length (length ws) (replicate n (ws, bl))"
    using assms unfolding rows_of_length_def by blast+
qed

theorem main_returns_witness:
  "\<exists>st. main_with (LoadData_body (\<lambda>s. int (length s)) (\<lambda>_. 0) (\<lambda>_. Some (enc_file (replicate 120 (replicate 56 [49], []))))) sum_caffe (\<lambda>_. 0)
     (\<lambda>_. 7) 1 \<lparr>mNumFloats = 0, mNumFeatures = 0, mFeatureLen = 0\<rparr> = Inr (1, st) \<and> length (pParam st) = 2"
proof -
  let ?rs = "replicate 120 (replicate 56 [49], []) :: row list"
  have r: "row_ok (replicate 56 [49], [])" by (simp add: field_ok_def EOF_char_def blank_def)
  show ?thesis
    using main_returns [of "\<lambda>_. Some (enc_file ?rs)" ?rs sum_caffe 2 "\<lambda>s. int (length s)" "\<lambda>_. 0" "\<lambda>_. 7" 1] replicate_rows_ok [OF r, of 120]
      sum_caffe_returns
    by (simp add: sum_caffe_def)
qed

lemma short_data_fails:
  assumes "length p < 5500"
  shows "stoch_batch p q 55 ref = Inl Out_of_bounds"
    and "sgd_iteration c rnd lr p q p' q' cnt cnt' 55 n iter st = Inl (if cnt = 99 then Division_by_zero else Out_of_bounds)"
    and "sgd_loop maxIters 0 (sgd_iteration c rnd lr p q p' q' cnt cnt' 55 n) st2 = Inl (if cnt = 99 then Division_by_zero else Out_of_bounds)"
proof -
  show b: "stoch_batch p q 55 ref = Inl Out_of_bounds" for ref
    using assms by (simp add: stoch_batch_def batch_def miniBatchSize_def)
  have "cnt - miniBatchSize + 1 = 0 \<longleftrightarrow> cnt = 99"
    by (simp add: miniBatchSize_def diff_add_eq)
  then show it: "sgd_iteration c rnd lr p q p' q' cnt cnt' 55 n iter st = Inl (if cnt = 99 then Division_by_zero else Out_of_bounds)" for iter st
    using b by (simp add: sgd_iteration_def random_ref_def Let_def)
  have max: "maxIters = Suc 99999" by (simp add: maxIters_def)
  show "sgd_loop maxIters 0 (sgd_iteration c rnd lr p q p' q' cnt cnt' 55 n) st2 = Inl (if cnt = 99 then Division_by_zero else Out_of_bounds)"
    unfolding max sgd_loop.simps it by simp
qed

text \<open>
  C38. What the program needs of its data, were \<open>LoadData\<close> to return. With 56 fields per row: fewer than 50 rows and the second printing loop
  reads past the end of the labels, whatever the library does. From 50 rows on both printing loops stay inside of the arrays, and once the library is
  set up the first iteration fails: with 99 rows the unsigned computation of the random row divides by zero, with 50 to 98 the batch leaves
  the arrays, whatever row is drawn. And because the feature length is fixed at 55, with 100 rows of fewer than 56 fields the first batch leaves
  the array of features.
\<close>

theorem main_needs_enough_data:
  assumes "fopen ''/home/youzhi.zou/juhuasuan/recommender/data/test.txt'' = Some (enc_file rs)" and "\<forall>r \<in> set rs. row_ok r"
    and "rows_of_length k rs" and "rs \<noteq> []" and "k = 56 \<and> length rs < 100 \<or> k < 56 \<and> length rs = 100"
  shows "print_first 50 (row_data atof rs) = Inr () \<and>
    print_first 50 (row_labels atof rs) = (if length rs < 50 then Inl Out_of_bounds else Inr ()) \<and>
    (\<forall>j. random_ref rnd j (of_nat (length rs)) = Inl Division_by_zero \<longleftrightarrow> length rs = 99) \<and>
    (\<forall>ref. stoch_batch (row_data atof rs) (row_labels atof rs) 55 ref = Inl Out_of_bounds) \<and>
    (length rs < 50 \<longrightarrow> main_with (LoadData_body atof junk fopen) c junk rnd lr l = Inl Out_of_bounds) \<and>
    (\<forall>s0 n s1 f s2. 50 \<le> length rs \<and> new_CaffeLib c ''prototxt/dnn_memdata.prototxt'' = Some s0 \<and> ReturnParamLen c s0 = Some (int n, s1) \<and>
       ReturnParam c s1 (map junk [0..<n]) = Some (f, s2) \<longrightarrow>
       main_with (LoadData_body atof junk fopen) c junk rnd lr l = Inl (if length rs = 99 then Division_by_zero else Out_of_bounds))"
proof -
  have b: "length rs * k < 2 ^ 32" using assms(5) by auto
  note load = load_uniform [of fopen, OF assms(1,4,2,3) b, of atof]
  have k: "2 \<le> k" using assms(2-4) by (cases rs) (auto simp: rows_of_length_def)
  have pos: "0 < length rs" using assms(4) by simp
  have cnt: "of_nat (length rs) = (99 :: u32) \<longleftrightarrow> length rs = 99"
    using of_nat_eq_iff_small [of "length rs" 99, where 'a = 32] assms(5) by auto
  have short: "length (row_data atof rs) < 5500" using load(2) assms(5) by auto
  note fails = short_data_fails [OF short]
  have "1 * 50 \<le> length rs * (k - 1)" if "k = 56" using pos that by (intro mult_le_mono) (simp_all add: Suc_le_eq)
  then have data: "50 \<le> length (row_data atof rs)" using load(2) assms(5) k by auto
  have main: "main_with (LoadData_body atof junk fopen) c junk rnd lr l =
      bind_result (print_first 50 (row_labels atof rs)) (\<lambda>_. run_library c junk rnd lr (row_data atof rs) (row_labels atof rs)
        (row_data atof rs) (row_labels atof rs) (of_nat (length rs)) (of_nat (length rs)) 55)"
    using load data by (simp add: main_with_eq loop_result_def ReturnStats_def print_first_def)
  have "random_ref rnd j (of_nat (length rs)) = Inl Division_by_zero \<longleftrightarrow> length rs = 99" for j
    using cnt by (simp add: random_ref_def miniBatchSize_def diff_add_eq Let_def)
  then show ?thesis
    using data load(3) cnt unfolding main by (auto simp: fails(1,3) print_first_def run_library_def new_array_def Let_def)
qed

theorem main_needs_enough_data_witness:
  "main_with (LoadData_body (\<lambda>s. int (length s)) (\<lambda>_. 0) (\<lambda>_. Some (enc_file (replicate 99 (replicate 56 [49], []))))) sum_caffe (\<lambda>_. 0)
     (\<lambda>_. 7) 1 \<lparr>mNumFloats = 0, mNumFeatures = 0, mFeatureLen = 0\<rparr> = Inl Division_by_zero"
proof -
  let ?rs = "replicate 99 (replicate 56 [49], []) :: row list"
  have r: "row_ok (replicate 56 [49], [])" by (simp add: field_ok_def EOF_char_def blank_def)
  have "new_CaffeLib sum_caffe m = Some ()" "ReturnParamLen sum_caffe s = Some (int 2, ())" "ReturnParam sum_caffe s p = Some (\<lambda>_. 0, ())" for m s p
    by (simp_all add: sum_caffe_def)
  then show ?thesis
    using main_needs_enough_data [of "\<lambda>_. Some (enc_file ?rs)" ?rs 56 "\<lambda>s. int (length s)" "\<lambda>_. 7" "\<lambda>_. 0" sum_caffe 1] replicate_rows_ok [OF r, of 99]
    by simp
qed

end
