(* ===== verification/Spec2Isabelle.thy ===== *)
theory Spec2Isabelle
  imports
    Stone_Atomic
    Stone_Tagged_Pointer
    Stone_Integer_Encoding
    Stone_String_Piece
    Stone_Closure_New
    Stone_Intrusive_List
    Stone_Intrusive_DList
    Stone_Lock
    Stone_Spin_RWLock
    Stone_Scoped_Ptr
    Stone_Ref_Counted_Threads
    Stone_Singleton
    Stone_Lockfree_Stack_Threads
    Stone_Lockfree_Queue_Steps
    Stone_Free_List_Threads
    Stone_Logging_Compat
    Stone_Logging_Threads
    Stone_Future
    Stone_Timer
    Stone_Protobuf
    Stone_Utilities
    Recommender_Data_Loader
    Recommender_Training
begin

text \<open>
  A verification of the repository's C++ code: the headers of the \<^verbatim>\<open>stone\<close> library under \<^verbatim>\<open>src/apsara/stone/\<close> and the training
  program of the recommender under \<^verbatim>\<open>src/src/\<close>.

  \<^bold>\<open>The program and its parts.\<close> The library is a set of headers: memory management (scoped pointers, reference counting, a
  singleton), closures that bind a function to some of its arguments, atomic operations and what is built on them (tagged
  pointers, a lock-free stack, queue and free list, spin locks), pthread locks with scoped lockers, intrusive lists, integer
  encodings, string pieces, logging macros, futures, timer events, generated message classes, and the inline parts of a Raft library. Futures run closures;
  the sampled log statements run under a scoped lock; the lock-free containers use the tagged pointers and the atomic operations;
  reference counting and \<open>SpinRWLock\<close> use the atomic operations. The training program loads two text files with its data
  loader and runs stochastic gradient descent on a network of an external library. Many headers only declare classes whose
  definitions are in a binary library that is not part of the repository; those members are parameters or are left out.

  \<^bold>\<open>Conventions\<close> (\<open>Stone_Prelude\<close>). Machine integers are words of their width, so that arithmetic wraps as it does in the code;
  signed ones are read with \<^const>\<open>sint\<close>. An operation that can fail returns a \<open>result\<close>: \<open>Inl\<close> of a \<open>stone_error\<close> (a failed assertion, an
  abort, a thrown range error, a null, dangling or out-of-bounds access, a write to a constant, a division by zero, a signed overflow, a
  function that ends without its \<open>return\<close>, no return) or \<open>Inr\<close> of the value. Objects live in
  heaps, maps from addresses to records, and an access to an address outside of the map is an error. Loops that may not end are
  \<open>partial_function (option)\<close> with \<open>None\<close> for no return, and the properties prove that they do return where the code does; no
  model uses fuel. Code outside of the repository (the functions a closure calls, \<open>fopen\<close> and the text-to-number conversion,
  the network library, pthread calls, members of \<open>Future\<close>) appears as arguments of the definitions.

  \<^bold>\<open>Theories and sources.\<close>
  \<^item> \<open>Stone_Atomic\<close> (\<^verbatim>\<open>threading/atomic/*.h\<close>): the builtin wrappers on words of any width and their counters under interleaving.
  \<^item> \<open>Stone_Tagged_Pointer\<close> (\<^verbatim>\<open>threading/lockfree/lockfree_detail.h\<close>): index and address words with a tag; locale
    \<open>tagged_pointer\<close>, interpreted for both encodings; the period after which a tag comes back.
  \<^item> \<open>Stone_Integer_Encoding\<close> (\<^verbatim>\<open>encoding/integer/integer_encoding.h\<close>): fixed and variable length integers; locale \<open>self_delimiting\<close>
    for codecs whose values can be concatenated, interpreted for both; round trips, truncated input, negative values.
  \<^item> \<open>Stone_String_Piece\<close> (\<^verbatim>\<open>string/string_piece.h\<close>): every member over a byte memory; searches are first or last occurrences,
    \<open>compare\<close> is lexicographic while lengths differ by less than \<open>2^31\<close>.
  \<^item> \<open>Stone_Closure_Classes\<close>, \<open>Stone_Closure_Run\<close>, \<open>Stone_Closure_New\<close> (\<^verbatim>\<open>base/closure.h\<close>): one definition for every class and
    overload, the virtual dispatch as tables; locale \<open>closure_factory\<close> with four interpretations; binding of arguments, one-shot
    closures that delete themselves, and permanent closures that run any number of times.
  \<^item> \<open>Stone_Containers\<close>: the contracts \<open>fifo_container\<close> and \<open>lifo_container\<close>, with the lemmas on pushing and draining any number of
    elements. They are interpreted by \<open>Stone_Intrusive_List\<close> and \<open>Stone_Intrusive_DList\<close> (\<^verbatim>\<open>containers/intrusive_list.h\<close>),
    \<open>Stone_Lockfree_Stack\<close>, \<open>Stone_Lockfree_Queue\<close>, \<open>Stone_Free_List\<close> (\<^verbatim>\<open>threading/lockfree/*.h\<close>) and the list of futures in
    \<open>Stone_Future\<close>.
  \<^item> \<open>Stone_Free_List_Threads\<close>, \<open>Stone_Lockfree_Stack_Threads\<close>: \<open>FreeList\<close> and \<open>LockFreeStack\<close> as transition systems of any number of
    threads, one step per access to shared memory; an invariant proved by rule induction gives linearizability and
    lock-freedom, and the sequential definitions are sequences of these steps. The runs are those in which no thread is overtaken by
    all the tags (\<open>2^16\<close> and \<open>2^32\<close> updates of the head) while it holds a value of a head.
  \<^item> \<open>Stone_Lockfree_Queue_Threads\<close>, \<open>Stone_Lockfree_Queue_Steps\<close> (\<^verbatim>\<open>threading/lockfree/lockfree_queue.h\<close>): the same for
    \<open>LockFreeQueue\<close>, with the node that a push links after its compare-and-swap and the repair of the links by \<open>FixList\<close>. A ghost history of
    the nodes orders the pushes and the pops; every operation takes effect between its call and its return, a compare-and-swap that fails
    does so because another thread succeeded, the sequential operations are sequences of steps, and two runs show where \<open>Pop\<close> waits for
    another thread and where it follows a link that was never written.
  \<^item> \<open>Stone_Lock\<close> (\<^verbatim>\<open>threading/sync/lock.h\<close>, \<^verbatim>\<open>base/error_check.h\<close>): locks, scoped lockers, the scoped-lock macros; locale \<open>lockable\<close>.
    \<open>Stone_Spin_RWLock\<close>: \<open>SpinRWLock\<close> as a transition system of \<open>N\<close> threads with mutual exclusion, absence of deadlock, no
    overflow of the quota up to 129 threads, and the run of 130 threads that overflows it.
  \<^item> \<open>Stone_Scoped_Ptr\<close>, \<open>Stone_Ref_Counted\<close>, \<open>Stone_Singleton\<close> (\<^verbatim>\<open>memory/*.h\<close>): objects are deleted exactly once, by the last
    release, and the singleton is constructed once under any interleaving; locales \<open>owning_pointer\<close>, \<open>shared_reference\<close>,
    \<open>counted_reference\<close>. \<open>Stone_Ref_Counted_Threads\<close>: \<open>RefCounted\<close> under many threads that add, release and hand over references,
    where the decrement and the deletion are separate steps.
  \<^item> \<open>Stone_Logging\<close> (\<^verbatim>\<open>logging/logging.h\<close>, \<^verbatim>\<open>logging/logging_impl.h\<close>): a log statement as a site with its static variables; blocks
    equal statements, which executions a sampled statement logs, the lookup of a sink's configuration. \<open>Stone_Logging_Compat\<close>: the
    formatted, call and trace statements and the macros of the old interface in terms of them. \<open>Stone_Logging_Threads\<close>: the sampled
    statement, with its static variables and its mutex, as a transition system of any number of threads that refines the executions one
    after the other in the order of the mutex.
  \<^item> \<open>Stone_Future\<close> (\<^verbatim>\<open>threading/sync/future.h\<close>): \<open>FuturePtr\<close> balances references at every moment and uses an object only
    while it owns a reference, the list of a group is a queue, a future
    closure deletes its closure exactly once unless the closure throws.
  \<^item> \<open>Stone_Timer\<close> (\<^verbatim>\<open>threading/runner/timeout_queue_detail.h\<close>): the order of timer events; locale \<open>strict_weak_order\<close> for heaps.
  \<^item> \<open>Stone_Raft_Entry\<close> (\<^verbatim>\<open>consensus/raft/log_id.h\<close>, \<^verbatim>\<open>entry.h\<close>, \<^verbatim>\<open>base/status.h\<close>): log positions are linearly ordered (an instance of
    \<open>linorder\<close>), an entry respects its limit of 16 MB.
  \<^item> \<open>Stone_Protobuf\<close> (\<^verbatim>\<open>persistence/changelog/change_log.pb.h\<close>, \<^verbatim>\<open>io/recordio/test.pb.h\<close>): the accessors of the generated messages over a heap
    of strings; locale \<open>string_field\<close>, interpreted for the two string fields, gives that a string has one owner, that every
    accessor succeeds, and that the shared empty string is never written.
  \<^item> \<open>Stone_Utilities\<close>: the remaining inline functions of the file, thread, checksum, record and container headers.
  \<^item> \<open>Recommender_Data_Loader\<close>, \<open>Recommender_Training\<close> (\<^verbatim>\<open>src/src/data_loader.cpp\<close>, \<^verbatim>\<open>run_training.cpp\<close>): the loader reads a well-formed
    file row by row into the two arrays and then ends without a \<open>return\<close>, and which files make it fail. About \<open>main\<close> as it would run did
    \<open>LoadData\<close> return (\<open>main_with LoadData_body\<close>): it returns, each iteration is one step of gradient descent on the random batch inside the
    arrays, and where it fails with too little data. The library it calls may do anything to the parameters and need not return.

  \<^bold>\<open>Bounds.\<close> The machine of \<open>LockFreeQueue\<close> has the runs in which no thread is overtaken by \<open>65535\<close> updates of a word between reading it and
  comparing it, and in which a link that a pop follows was written for its own lap of the tags; sizes stay below the limits of their index or
  counter types, as the hypotheses state. Objects on a \<open>FreeList\<close> stay allocated while a thread may still read them, as its users keep
  them in a pool; an object has fewer than \<open>2^64\<close> references. In the machines the memory is sequentially consistent.

  \<^bold>\<open>Not modelled.\<close> Members whose definitions are in the binary library (conditions and events, threads, task runners and pools beyond
  forwarding, the timeout queue itself, sinks and formatting, the change log, files, record files, base64, string conversions,
  configuration files, the Raft protocol beyond entries and log positions, construction and serialization of the generated messages); the
  macros \<open>LOG_X\<close>, \<open>LOG_X_IF\<close>, \<open>STONE_LOG_FATAL_SAMPLED\<close> and \<open>LOG_FATAL_SAMPLED\<close>, whose expansions do not compile; test doubles; weak memory.
\<close>

end
